(* ===== verification/Prelude.thy ===== *)
theory Prelude
  imports Main "HOL-Library.Word"
begin

text \<open>
  Shared vocabulary of the development: the two-layer error type of
  \<^verbatim>\<open>sys/src/error.rs\<close>, the machine integer types, sequencing of fallible
  computations, big-endian byte strings and the parser/serializer interface that every
  wire type of \<^verbatim>\<open>field/\<close> implements.
\<close>

unbundle bit_operations_syntax

named_theorems ret_simps \<open>unfolding rules for fallible computations\<close>
named_theorems codec_simps \<open>lengths and values of byte strings\<close>

type_synonym u8 = "8 word"
type_synonym u16 = "16 word"
type_synonym u32 = "32 word"
type_synonym u64 = "64 word"

section \<open>Errors\<close>

text \<open>
  \<open>ExecError\<close> has the two constructors \<open>Revert\<close> (recoverable) and
  \<open>Fault\<close> (hard stop). A Rust panic unwinds past both of them; it is kept apart as a
  third constructor, so that no theorem can confuse a clean error with a crash.
\<close>

datatype exec_error = Revert string | Fault string | Panic string

type_synonym 'a ret = "exec_error + 'a"

definition bindR :: "'a ret \<Rightarrow> ('a \<Rightarrow> 'b ret) \<Rightarrow> 'b ret" where
  "bindR m f = (case m of Inl e \<Rightarrow> Inl e | Inr x \<Rightarrow> f x)"

definition guardR :: "bool \<Rightarrow> exec_error \<Rightarrow> unit ret" where
  "guardR b e = (if b then Inr () else Inl e)"

definition isOk :: "'a ret \<Rightarrow> bool" where
  "isOk r = (case r of Inl _ \<Rightarrow> False | Inr _ \<Rightarrow> True)"

lemma bindR_simps [simp, ret_simps]:
  "bindR (Inl e) f = Inl e"
  "bindR (Inr x) f = f x"
  by (simp_all add: bindR_def)

lemma if_Inl_eq_Inr: "(if c then Inl e else X) = Inr u \<longleftrightarrow> \<not> c \<and> X = Inr u" by simp

lemma bindR_eq_Inr [ret_simps]: "bindR m f = Inr y \<longleftrightarrow> (\<exists>x. m = Inr x \<and> f x = Inr y)"
  by (cases m) auto

lemma bindR_eq_Inl [ret_simps]:
  "bindR m f = Inl e \<longleftrightarrow> m = Inl e \<or> (\<exists>x. m = Inr x \<and> f x = Inl e)"
  by (cases m) auto

lemma bindR_cong [fundef_cong]:
  "m = m' \<Longrightarrow> (\<And>x. m' = Inr x \<Longrightarrow> f x = f' x) \<Longrightarrow> bindR m f = bindR m' f'"
  by (cases m') auto

lemma guardR_simps [simp, ret_simps]:
  "guardR True e = Inr ()" "guardR False e = Inl e"
  by (simp_all add: guardR_def)

lemma guardR_eq_Inr [simp, ret_simps]: "guardR b e = Inr u \<longleftrightarrow> b"
  by (simp add: guardR_def)

lemma guardR_eq_Inl [simp, ret_simps]: "guardR b e = Inl e' \<longleftrightarrow> \<not> b \<and> e' = e"
  by (auto simp: guardR_def)

lemma isOk_simps [simp]: "isOk (Inr x)" "\<not> isOk (Inl e)"
  by (simp_all add: isOk_def)

lemma isOk_iff: "isOk r \<longleftrightarrow> (\<exists>x. r = Inr x)"
  by (cases r) auto

text \<open>
  The text layer (\<open>Ret\<close>) carries an error as a plain string in which a recoverable
  error is marked by a prefix.
\<close>

definition REVERT_PREFIX :: string where
  "REVERT_PREFIX = ''[REVERT] ''"

definition decode_exec_error_from_text :: "string \<Rightarrow> exec_error" where
  "decode_exec_error_from_text err =
     (if take (length REVERT_PREFIX) err = REVERT_PREFIX
      then Revert (drop (length REVERT_PREFIX) err) else Fault err)"

fun encode_exec_error_to_text :: "exec_error \<Rightarrow> string" where
  "encode_exec_error_to_text (Revert msg) = REVERT_PREFIX @ msg"
| "encode_exec_error_to_text (Fault msg) = msg"
| "encode_exec_error_to_text (Panic msg) = msg"

fun is_revert :: "exec_error \<Rightarrow> bool" where
  "is_revert (Revert _) = True"
| "is_revert _ = False"

fun is_fault :: "exec_error \<Rightarrow> bool" where
  "is_fault (Fault _) = True"
| "is_fault _ = False"

lemma decode_encode_revert:
  "decode_exec_error_from_text (encode_exec_error_to_text (Revert m)) = Revert m"
  by (simp add: decode_exec_error_from_text_def)

lemma encode_decode_text:
  "encode_exec_error_to_text (decode_exec_error_from_text s) = s"
  by (simp add: decode_exec_error_from_text_def) (metis append_take_drop_id)

section \<open>Fallible computations over a state\<close>

text \<open>
  A failing operation may leave changes behind: the caller, not the operation, rolls the state
  back. So the state after the operation is returned with an error too.
\<close>

type_synonym ('s, 'a) st = "'s \<Rightarrow> 'a ret \<times> 's"

definition bindS :: "('s, 'a) st \<Rightarrow> ('a \<Rightarrow> ('s, 'b) st) \<Rightarrow> ('s, 'b) st" where
  "bindS m f s = (case m s of (Inl e, s') \<Rightarrow> (Inl e, s') | (Inr x, s') \<Rightarrow> f x s')"

definition returnS :: "'a \<Rightarrow> ('s, 'a) st" where
  "returnS x s = (Inr x, s)"

definition failS :: "exec_error \<Rightarrow> ('s, 'a) st" where
  "failS e s = (Inl e, s)"

definition liftS :: "'a ret \<Rightarrow> ('s, 'a) st" where
  "liftS r s = (r, s)"

definition getsS :: "('s \<Rightarrow> 'a) \<Rightarrow> ('s, 'a) st" where
  "getsS f s = (Inr (f s), s)"

definition modifyS :: "('s \<Rightarrow> 's) \<Rightarrow> ('s, unit) st" where
  "modifyS f s = (Inr (), f s)"

definition guardS :: "bool \<Rightarrow> exec_error \<Rightarrow> ('s, unit) st" where
  "guardS b e s = (guardR b e, s)"

lemma bindS_eq_Inr: "bindS m f s = (Inr y, s'') \<longleftrightarrow> (\<exists>x s'. m s = (Inr x, s') \<and> f x s' = (Inr y, s''))"
  by (auto simp: bindS_def split: prod.splits sum.splits)

lemma bindS_eq_Inl:
  "bindS m f s = (Inl e, s'') \<longleftrightarrow> m s = (Inl e, s'') \<or> (\<exists>x s'. m s = (Inr x, s') \<and> f x s' = (Inl e, s''))"
  by (auto simp: bindS_def split: prod.splits sum.splits)

lemma bindS_simps [simp]:
  "bindS (returnS x) f s = f x s" "bindS (failS e) f s = (Inl e, s)"
  "bindS (liftS (Inr x)) f s = f x s" "bindS (liftS (Inl e)) f s = (Inl e, s)"
  by (simp_all add: bindS_def returnS_def failS_def liftS_def)

lemma bindS_getsS [simp]: "bindS (getsS g) f s = f (g s) s"
  by (simp add: bindS_def getsS_def)

lemma bindS_modifyS [simp]: "bindS (modifyS h) f s = f () (h s)"
  by (simp add: bindS_def modifyS_def)

lemma bindS_guardS [simp]: "bindS (guardS True e) f s = f () s" "bindS (guardS False e) f s = (Inl e, s)"
  by (simp_all add: bindS_def guardS_def)

lemma returnS_eq [simp]: "returnS x s = (Inr x, s)" by (simp add: returnS_def)
lemma failS_eq [simp]: "failS e s = (Inl e, s)" by (simp add: failS_def)
lemma liftS_eq [simp]: "liftS r s = (r, s)" by (simp add: liftS_def)
lemma getsS_eq [simp]: "getsS g s = (Inr (g s), s)" by (simp add: getsS_def)
lemma modifyS_eq [simp]: "modifyS h s = (Inr (), h s)" by (simp add: modifyS_def)

lemma guardS_eq [simp]: "guardS b e s = (Inr u, s') \<longleftrightarrow> b \<and> s' = s" "guardS b e s = (Inl x, s') \<longleftrightarrow> \<not> b \<and> x = e \<and> s' = s"
  by (auto simp: guardS_def)

lemma bindS_guard: "bindS (guardS b e) f s = (if b then f () s else (Inl e, s))"
  by simp

lemma bindS_liftR: "bindS (liftS r) f s = (case r of Inl e \<Rightarrow> (Inl e, s) | Inr x \<Rightarrow> f x s)"
  by (simp split: sum.split)

named_theorems st_defs \<open>unfolding rules for the state operations of a component\<close>

lemmas st_eqs = bindS_eq_Inr bindS_eq_Inl

section \<open>Bit lengths\<close>

fun bit_len :: "nat \<Rightarrow> nat" where
  "bit_len n = (if n = 0 then 0 else Suc (bit_len (n div 2)))"

declare bit_len.simps [simp del]

lemma bit_len_0 [simp]: "bit_len 0 = 0"
  by (subst bit_len.simps) simp

lemma bit_len_le_iff: "bit_len n \<le> k \<longleftrightarrow> n < 2 ^ k"
proof (induction n arbitrary: k rule: bit_len.induct)
  case (1 n)
  show ?case
  proof (cases "n = 0")
    case True
    then show ?thesis by simp
  next
    case False
    show ?thesis
    proof (cases k)
      case 0
      with False show ?thesis by (subst bit_len.simps) simp
    next
      case (Suc j)
      have "bit_len n \<le> k \<longleftrightarrow> bit_len (n div 2) \<le> j"
        using False Suc by (subst bit_len.simps) simp
      also have "\<dots> \<longleftrightarrow> n div 2 < 2 ^ j" by (rule "1.IH" [OF False])
      also have "\<dots> \<longleftrightarrow> n < 2 ^ k" using Suc by auto
      finally show ?thesis .
    qed
  qed
qed

text \<open>\<open>u64::leading_zeros\<close>.\<close>

definition leading_zeros64 :: "u64 \<Rightarrow> nat" where
  "leading_zeros64 v = 64 - bit_len (unat v)"

lemma unat_u64_less: "unat (v :: u64) < 2 ^ 64"
proof -
  have "unat v < 2 ^ LENGTH(64)" by (rule unsigned_less)
  then show ?thesis by simp
qed

lemma unat_u32_less: "unat (v :: u32) < 2 ^ 32"
proof -
  have "unat v < 2 ^ LENGTH(32)" by (rule unsigned_less)
  then show ?thesis by simp
qed

lemma bits_of_leading_zeros64: "64 - leading_zeros64 v = bit_len (unat v)"
proof -
  have "bit_len (unat v) \<le> 64" using unat_u64_less by (simp add: bit_len_le_iff)
  then show ?thesis by (simp add: leading_zeros64_def)
qed

lemma unat_drop_bit_div: "unat (drop_bit n (w :: 'a :: len word)) = unat w div 2 ^ n"
  by (rule trans [OF unat_drop_bit_eq drop_bit_eq_div])

lemma unat_take_bit_mod: "unat (take_bit n (w :: 'a :: len word)) = unat w mod 2 ^ n"
  by (rule trans [OF unsigned_take_bit_eq take_bit_eq_mod])

lemma pack_inject:
  fixes a b k x y :: nat
  assumes "a < k" "b < k"
  shows "x * k + a = y * k + b \<longleftrightarrow> x = y \<and> a = b"
proof
  assume eq: "x * k + a = y * k + b"
  have "(x * k + a) div k = x" "(y * k + b) div k = y" using assms by simp_all
  with eq show "x = y \<and> a = b" by simp
qed simp

section \<open>Big-endian byte strings\<close>

definition be_nat :: "u8 list \<Rightarrow> nat" where
  "be_nat bs = foldl (\<lambda>a b. a * 256 + unat b) 0 bs"

fun be_bytes :: "nat \<Rightarrow> nat \<Rightarrow> u8 list" where
  "be_bytes 0 v = []"
| "be_bytes (Suc n) v = be_bytes n (v div 256) @ [word_of_nat v]"

lemma unat_u8_less: "unat (b :: u8) < 256"
proof -
  have "unat b < 2 ^ LENGTH(8)" by (rule unsigned_less)
  then show ?thesis by simp
qed

lemma be_bytes_numeral:
  "be_bytes (numeral k) v = be_bytes (pred_numeral k) (v div 256) @ [word_of_nat v]"
  using be_bytes.simps(2) [of "pred_numeral k" v] by (simp only: numeral_eq_Suc [symmetric])

lemma foldl_be: "foldl (\<lambda>a b. a * 256 + unat (b :: u8)) a bs = a * 256 ^ length bs + be_nat bs"
proof (induction bs arbitrary: a)
  case Nil
  then show ?case by (simp add: be_nat_def)
next
  case (Cons b bs)
  have "be_nat (b # bs) = unat b * 256 ^ length bs + be_nat bs"
    using Cons.IH [of "unat b"] by (simp add: be_nat_def)
  then show ?case using Cons.IH [of "a * 256 + unat b"] by (simp add: algebra_simps)
qed

lemma be_nat_Nil [simp, codec_simps]: "be_nat [] = 0"
  by (simp add: be_nat_def)

lemma be_nat_Cons [codec_simps]: "be_nat (b # bs) = unat b * 256 ^ length bs + be_nat bs"
  using foldl_be [of "unat b" bs] by (simp add: be_nat_def)

lemma be_nat_replicate_0 [simp]: "be_nat (replicate k 0) = 0"
  by (induction k) (simp_all add: be_nat_Cons)

lemma be_nat_append [codec_simps]: "be_nat (xs @ ys) = be_nat xs * 256 ^ length ys + be_nat ys"
  using foldl_be [of "be_nat xs" ys] by (simp add: be_nat_def)

lemma be_nat_less: "be_nat bs < 256 ^ length bs"
proof (induction bs)
  case Nil
  then show ?case by simp
next
  case (Cons b bs)
  have "unat b * 256 ^ length bs + be_nat bs < unat b * 256 ^ length bs + 256 ^ length bs"
    using Cons.IH by simp
  also have "\<dots> = (unat b + 1) * 256 ^ length bs" by simp
  also have "\<dots> \<le> 256 * 256 ^ length bs"
    using unat_u8_less [of b] by (intro mult_right_mono) linarith+
  finally show ?case by (simp add: be_nat_Cons)
qed

lemma be_nat_less_le: "length bs \<le> n \<Longrightarrow> be_nat bs < 256 ^ n"
  using be_nat_less [of bs] power_increasing [of "length bs" n "256::nat"] by linarith

lemma length_be_bytes [simp, codec_simps]: "length (be_bytes n v) = n"
  by (induction n arbitrary: v) simp_all

lemma unat_word_of_nat_u8 [simp]: "unat (word_of_nat v :: u8) = v mod 256"
  by (simp add: unat_of_nat)

lemma be_nat_be_bytes [simp, codec_simps]: "be_nat (be_bytes n v) = v mod 256 ^ n"
proof (induction n arbitrary: v)
  case 0
  then show ?case by simp
next
  case (Suc n)
  have "v mod 256 ^ Suc n = 256 * (v div 256 mod 256 ^ n) + v mod 256"
    by (simp add: mod_mult2_eq)
  with Suc.IH show ?case by (simp add: be_nat_append be_nat_Cons)
qed

lemma be_bytes_be_nat: "be_bytes (length bs) (be_nat bs) = bs"
proof (induction bs rule: rev_induct)
  case Nil
  then show ?case by simp
next
  case (snoc b bs)
  have "(be_nat bs * 256 + unat b) div 256 = be_nat bs" by (simp add: unat_u8_less)
  moreover have "(word_of_nat (be_nat bs * 256 + unat b) :: u8) = b"
    by (rule word_unat_eq_iff [THEN iffD2]) (simp only: unat_word_of_nat_u8, simp add: unat_u8_less)
  ultimately show ?case using snoc.IH by (simp add: be_nat_append be_nat_Cons)
qed

lemma be_bytes_inject: "length xs = length ys \<Longrightarrow> be_nat xs = be_nat ys \<Longrightarrow> xs = ys"
  by (metis be_bytes_be_nat)

lemma drop_be_bytes: "drop k (be_bytes (k + n) v) = be_bytes n v"
proof (induction n arbitrary: v)
  case 0
  then show ?case by simp
next
  case (Suc n)
  then show ?case by simp
qed

lemma be_bytes_Suc_Cons: "be_bytes (Suc n) v = word_of_nat (v div 256 ^ n) # be_bytes n v"
proof (induction n arbitrary: v)
  case 0
  then show ?case by simp
next
  case (Suc n)
  have "be_bytes (Suc (Suc n)) v = be_bytes (Suc n) (v div 256) @ [word_of_nat v]" by simp
  also have "\<dots> = word_of_nat (v div 256 div 256 ^ n) # be_bytes n (v div 256) @ [word_of_nat v]"
    by (simp only: Suc.IH append_Cons)
  finally show ?case by (simp add: div_mult2_eq)
qed

section \<open>Buffers\<close>

definition bufeat :: "u8 list \<Rightarrow> nat \<Rightarrow> u8 list ret" where
  "bufeat buf n =
     (if n > length buf then Inl (Fault ''buf length too short: expected'') else Inr (take n buf))"

definition bufeatone :: "u8 list \<Rightarrow> u8 ret" where
  "bufeatone buf = (case buf of [] \<Rightarrow> Inl (Fault ''buf length too short'') | b # _ \<Rightarrow> Inr b)"

lemma bufeat_eq_Inr [ret_simps]: "bufeat buf n = Inr bs \<longleftrightarrow> n \<le> length buf \<and> bs = take n buf"
  by (auto simp: bufeat_def)

lemma bufeatone_Cons [simp]: "bufeatone (b # bs) = Inr b"
  by (simp add: bufeatone_def)

lemma bufeatone_eq_Inr [ret_simps]: "bufeatone buf = Inr b \<longleftrightarrow> (\<exists>bs. buf = b # bs)"
  by (auto simp: bufeatone_def split: list.splits)

section \<open>The codec interface\<close>

text \<open>
  Every wire type offers \<open>parse\<close> (value and number of bytes used) and
  \<open>serialize\<close>. Two laws make a codec canonical: a valid value is read back from its
  own bytes whatever follows them, and a buffer is accepted only when the bytes used are the
  serialization of the value read. The derived facts are those that hashing and signing of
  serialized data rely on.
\<close>

locale codec =
  fixes ser :: "'a \<Rightarrow> u8 list ret"
    and parse :: "u8 list \<Rightarrow> ('a \<times> nat) ret"
    and valid :: "'a \<Rightarrow> bool"
  assumes ser_total: "valid x \<Longrightarrow> \<exists>bs. ser x = Inr bs"
    and parse_ser: "valid x \<Longrightarrow> ser x = Inr bs \<Longrightarrow> parse (bs @ rest) = Inr (x, length bs)"
    and parse_sound: "parse buf = Inr (x, n) \<Longrightarrow> valid x \<and> n \<le> length buf \<and> ser x = Inr (take n buf)"
begin

lemma ser_inj:
  assumes "valid x" "valid y" "ser x = Inr bs" "ser y = Inr bs"
  shows "x = y"
  using parse_ser [OF assms(1,3), of "[]"] parse_ser [OF assms(2,4), of "[]"] by simp

lemma parse_iff: "parse buf = Inr (x, n) \<longleftrightarrow> valid x \<and> n \<le> length buf \<and> ser x = Inr (take n buf)"
proof
  assume "valid x \<and> n \<le> length buf \<and> ser x = Inr (take n buf)"
  then show "parse buf = Inr (x, n)"
    using parse_ser [of x "take n buf" "drop n buf"] by (simp add: min.absorb2)
qed (rule parse_sound)

lemma parse_determined:
  assumes p: "parse buf = Inr (x, n)" and q: "take n buf' = take n buf" "n \<le> length buf'"
  shows "parse buf' = Inr (x, n)"
proof -
  from parse_sound [OF p] have v: "valid x" "n \<le> length buf" and s: "ser x = Inr (take n buf)" by auto
  from parse_ser [OF v(1) s, of "drop n buf'"] v q show ?thesis
    by (metis append_take_drop_id length_take min.absorb2)
qed

lemma ser_prefix_free:
  assumes "valid x" "valid y" "ser x = Inr bs" "ser y = Inr (bs @ ext)"
  shows "ext = [] \<and> x = y"
  using parse_ser [OF assms(1,3), of ext] parse_ser [OF assms(2,4), of "[]"] by simp

end

end
