(* ===== verification/Decimal.thy ===== *)
theory Decimal
  imports Prelude "HOL-Library.Char_ord"
begin

text \<open>
  Decimal numerals as the code uses them: \<open>to_string\<close> of an unsigned integer, parsing of
  digits, and the string operations of \<open>Amount\<close>'s readers. The comparison of amounts
  works on digit strings, so the facts here relate digit order to numeric order.
\<close>

section \<open>Printing and parsing\<close>

definition dig :: "nat \<Rightarrow> char" where
  "dig d = char_of (48 + d)"

definition is_digit :: "char \<Rightarrow> bool" where
  "is_digit c \<longleftrightarrow> 48 \<le> (of_char c :: nat) \<and> (of_char c :: nat) \<le> 57"

definition digit_val :: "char \<Rightarrow> nat" where
  "digit_val c = of_char c - 48"

fun dec :: "nat \<Rightarrow> string" where
  "dec n = (if n < 10 then [dig n] else dec (n div 10) @ [dig (n mod 10)])"

declare dec.simps [simp del]

definition digits_val :: "string \<Rightarrow> nat" where
  "digits_val s = foldl (\<lambda>a c. a * 10 + digit_val c) 0 s"

definition parse_digits :: "string \<Rightarrow> nat option" where
  "parse_digits s = (if s \<noteq> [] \<and> list_all is_digit s then Some (digits_val s) else None)"

definition dec_int :: "int \<Rightarrow> string" where
  "dec_int z = (if z < 0 then ''-'' else '''') @ dec (nat \<bar>z\<bar>)"

text \<open>\<open>BigInt::from_str_radix(_, 10)\<close> and \<open>parse::<i128>()\<close> before its range check.\<close>

definition parse_int :: "string \<Rightarrow> int option" where
  "parse_int s = (case s of
     c # cs \<Rightarrow> if c = CHR ''-'' then map_option (\<lambda>n. - int n) (parse_digits cs)
               else map_option int (parse_digits s)
   | [] \<Rightarrow> None)"

definition trim_end_zeros :: "string \<Rightarrow> string" where
  "trim_end_zeros s = rev (dropWhile (\<lambda>c. c = CHR ''0'') (rev s))"

definition trim_start_zeros :: "string \<Rightarrow> string" where
  "trim_start_zeros s = dropWhile (\<lambda>c. c = CHR ''0'') s"

fun split_on :: "char \<Rightarrow> string \<Rightarrow> string list" where
  "split_on c [] = [[]]"
| "split_on c (x # xs) =
     (if x = c then [] # split_on c xs
      else (case split_on c xs of [] \<Rightarrow> [[x]] | p # ps \<Rightarrow> (x # p) # ps))"

section \<open>Digits\<close>

lemma of_char_dig: "d < 10 \<Longrightarrow> (of_char (dig d) :: nat) = 48 + d"
  by (simp add: dig_def)

lemma digit_val_dig [simp]: "d < 10 \<Longrightarrow> digit_val (dig d) = d"
  by (simp add: digit_val_def of_char_dig)

lemma is_digit_dig [simp]: "d < 10 \<Longrightarrow> is_digit (dig d)"
  by (simp add: is_digit_def of_char_dig)

lemma dig_0: "dig 0 = CHR ''0''"
  by code_simp

lemma dig_eq_0 [simp]: "d < 10 \<Longrightarrow> dig d = CHR ''0'' \<longleftrightarrow> d = 0"
  using digit_val_dig [of d] digit_val_dig [of 0] by (metis dig_0 zero_less_numeral)

lemma dig_less_iff: "a < 10 \<Longrightarrow> b < 10 \<Longrightarrow> dig a < dig b \<longleftrightarrow> a < b"
  by (simp add: less_char_def of_char_dig)

lemma digits_val_snoc [simp]: "digits_val (s @ [c]) = digits_val s * 10 + digit_val c"
  by (simp add: digits_val_def)

lemma digits_val_Nil [simp]: "digits_val [] = 0"
  by (simp add: digits_val_def)

lemma digits_val_append: "digits_val (s @ t) = digits_val s * 10 ^ length t + digits_val t"
proof (induction t rule: rev_induct)
  case Nil
  then show ?case by simp
next
  case (snoc c t)
  then show ?case by (simp flip: append_assoc add: algebra_simps)
qed

lemma digits_val_Cons: "digits_val (c # t) = digit_val c * 10 ^ length t + digits_val t"
  using digits_val_append [of "[c]" t] by (simp add: digits_val_def)

lemma digit_val_less: "is_digit c \<Longrightarrow> digit_val c < 10"
  by (simp add: is_digit_def digit_val_def) linarith

lemma digits_val_less: "list_all is_digit s \<Longrightarrow> digits_val s < 10 ^ length s"
proof (induction s)
  case Nil
  then show ?case by simp
next
  case (Cons c s)
  then have "digit_val c \<le> 9" "digits_val s < 10 ^ length s"
    using digit_val_less [of c] by simp_all
  then have "digit_val c * 10 ^ length s + digits_val s < 9 * 10 ^ length s + 10 ^ length s"
    by (intro add_le_less_mono mult_right_mono) simp_all
  then show ?case by (simp add: digits_val_Cons)
qed

lemma digits_val_zeros [simp]: "digits_val (replicate k (CHR ''0'')) = 0"
  by (induction k) (simp_all add: digits_val_Cons digit_val_def)

section \<open>Numerals\<close>

lemma dec_nonempty [simp]: "dec n \<noteq> []"
  by (subst dec.simps) simp

lemma dec_digits: "list_all is_digit (dec n)"
proof (induction n rule: dec.induct)
  case (1 n)
  then show ?case by (subst dec.simps) simp
qed

lemma digits_val_dec [simp]: "digits_val (dec n) = n"
proof (induction n rule: dec.induct)
  case (1 n)
  show ?case
  proof (cases "n < 10")
    case True
    then show ?thesis by (subst dec.simps) (simp add: digits_val_def)
  next
    case False
    with "1.IH" show ?thesis by (subst dec.simps) simp
  qed
qed

lemma parse_digits_dec [simp]: "parse_digits (dec n) = Some n"
  by (simp add: parse_digits_def dec_digits)

lemma hd_dec_dig: "\<exists>d < 10. hd (dec n) = dig d \<and> (0 < n \<longrightarrow> 0 < d)"
proof (induction n rule: dec.induct)
  case (1 n)
  show ?case
  proof (cases "n < 10")
    case True
    then show ?thesis by (subst dec.simps) (simp, blast)
  next
    case False
    with "1.IH" show ?thesis by (subst dec.simps) (auto simp: div_greater_zero_iff)
  qed
qed

lemma hd_dec_not_minus: "hd (dec n) \<noteq> CHR ''-''"
proof
  assume "hd (dec n) = CHR ''-''"
  moreover have "is_digit (hd (dec n))" using dec_digits [of n] by (cases "dec n") auto
  ultimately show False by (simp add: is_digit_def)
qed

lemma parse_int_dec [simp]: "parse_int (dec n) = Some (int n)"
  using hd_dec_not_minus [of n] parse_digits_dec [of n]
  by (cases "dec n") (auto simp: parse_int_def)

lemma parse_int_dec_int [simp]: "parse_int (dec_int z) = Some z"
  by (cases "z < 0") (simp_all add: dec_int_def parse_int_def [of "_ # _"])

lemma dec_upper: "n < 10 ^ length (dec n)"
  using digits_val_less [OF dec_digits, of n] by simp

lemma dec_lower: "0 < n \<Longrightarrow> 10 ^ (length (dec n) - 1) \<le> n"
proof (induction n rule: dec.induct)
  case (1 n)
  show ?case
  proof (cases "n < 10")
    case True
    with "1.prems" show ?thesis by (subst dec.simps) simp
  next
    case False
    then have "10 ^ (length (dec (n div 10)) - 1) \<le> n div 10"
      by (intro "1.IH") (simp_all add: div_greater_zero_iff)
    then have "10 ^ (length (dec (n div 10)) - 1) * 10 \<le> n" by linarith
    moreover have "length (dec n) - 1 = Suc (length (dec (n div 10)) - 1)"
      using False by (subst dec.simps) (cases "dec (n div 10)", simp_all)
    ultimately show ?thesis by (simp only: power_Suc2)
  qed
qed

lemma dec_mult_10: "0 < n \<Longrightarrow> dec (n * 10) = dec n @ ''0''"
  by (subst dec.simps) (simp add: dig_0)

lemma dec_mult_pow: "0 < n \<Longrightarrow> dec (n * 10 ^ k) = dec n @ replicate k (CHR ''0'')"
proof (induction k)
  case 0
  then show ?case by simp
next
  case (Suc k)
  then have "dec (n * 10 ^ k * 10) = dec (n * 10 ^ k) @ ''0''" by (intro dec_mult_10) simp
  then have "dec (n * 10 ^ Suc k) = dec (n * 10 ^ k) @ ''0''" by (simp only: power_Suc2 mult.assoc)
  with Suc show ?case by (simp add: replicate_append_same)
qed

end
