(* ===== verification/Amount.thy ===== *)
theory Amount
  imports Decimal
begin

text \<open>
  \<^verbatim>\<open>field/src/core/amount.rs\<close>: the HAC amount, a signed integer mantissa
  (\<open>dist\<close> carries sign and byte length, \<open>byte\<close> the big-endian magnitude) times a
  power of ten (\<open>unit\<close>). This theory holds the data, the constructors, the wire codec and
  the value of an amount; comparison and arithmetic are in \<open>AmountArith\<close>, the text forms in
  \<open>AmountText\<close>. \<open>num_bigint::BigInt\<close> is read as the mathematical integers.
\<close>

section \<open>Data\<close>

record amount =
  unit :: nat        \<comment> \<open>\<open>u8\<close>\<close>
  dist :: int        \<comment> \<open>\<open>i8\<close>\<close>
  byte :: "u8 list"  \<comment> \<open>\<open>Vec<u8>\<close>\<close>

definition UNIT_MEI :: nat where "UNIT_MEI = 248"
definition UNIT_244 :: nat where "UNIT_244 = 244"
definition UNIT_ZHU :: nat where "UNIT_ZHU = 240"
definition UNIT_238 :: nat where "UNIT_238 = 238"
definition UNIT_SHUO :: nat where "UNIT_SHUO = 232"
definition UNIT_AI :: nat where "UNIT_AI = 224"
definition UNIT_MIAO :: nat where "UNIT_MIAO = 216"
definition AMOUNT_STORE_MAX_SIZE :: nat where "AMOUNT_STORE_MAX_SIZE = 12"
definition U64S :: nat where "U64S = 8"
definition U128S :: nat where "U128S = 16"

definition bytes_not_zero :: "u8 list \<Rightarrow> bool" where
  "bytes_not_zero v = list_ex (\<lambda>a. a > 0) v"

definition bytes_is_zero :: "u8 list \<Rightarrow> bool" where
  "bytes_is_zero v = (\<not> bytes_not_zero v)"

fun drop_left_zero :: "u8 list \<Rightarrow> u8 list" where
  "drop_left_zero [] = []"
| "drop_left_zero (b # bs) = (if b = 0 then drop_left_zero bs else b # bs)"

text \<open>\<open>from_be_bytes(add_left_padding(v, n))\<close>: panics when the bytes do not fit.\<close>

definition add_left_padding :: "u8 list \<Rightarrow> nat \<Rightarrow> u8 list ret" where
  "add_left_padding v n =
     (if length v \<le> n then Inr (replicate (n - length v) 0 @ v) else Inl (Panic ''add_left_padding''))"

definition padded_uint :: "u8 list \<Rightarrow> nat \<Rightarrow> nat ret" where
  "padded_uint v n = bindR (add_left_padding v n) (\<lambda>bs. Inr (be_nat bs))"

definition amount_zero :: amount where
  "amount_zero = \<lparr>unit = 0, dist = 0, byte = []\<rparr>"

definition tail_len :: "amount \<Rightarrow> nat" where
  "tail_len a = nat \<bar>dist a\<bar>"

definition amt_is_zero :: "amount \<Rightarrow> bool" where
  "amt_is_zero a = bytes_is_zero (byte a)"

definition is_positive :: "amount \<Rightarrow> bool" where
  "is_positive a = (dist a > 0 \<and> bytes_not_zero (byte a))"

definition is_negative :: "amount \<Rightarrow> bool" where
  "is_negative a = (dist a < 0 \<and> bytes_not_zero (byte a))"

definition tail_u128 :: "amount \<Rightarrow> nat ret" where
  "tail_u128 a = (if length (byte a) > U128S then Inl (Fault ''amount tail bytes length exceeds max'')
                  else padded_uint (byte a) U128S)"

definition tail_u64 :: "amount \<Rightarrow> nat ret" where
  "tail_u64 a = (if length (byte a) > U64S then Inl (Fault ''amount tail bytes length exceeds max'')
                 else padded_uint (byte a) U64S)"

section \<open>Wire format\<close>

definition parse_check_canonical :: "nat \<Rightarrow> int \<Rightarrow> u8 list \<Rightarrow> unit ret" where
  "parse_check_canonical u d bs =
     (if length bs > 1 \<and> bytes_is_zero bs then Inl (Fault ''multi-byte amount cannot be all zero'')
      else if length bs > 1 \<and> bs ! 0 = 0 then Inl (Fault ''amount leading zero byte is not canonical'')
      else if bytes_is_zero bs \<and> (u \<noteq> 0 \<or> d \<noteq> 0 \<or> bs \<noteq> [])
      then Inl (Fault ''amount semantic zero is not canonical'')
      else Inr ())"

definition amount_parse :: "u8 list \<Rightarrow> (amount \<times> nat) ret" where
  "amount_parse buf =
     bindR (bufeatone buf) (\<lambda>u.
     bindR (bufeatone (drop 1 buf)) (\<lambda>draw.
       if draw = 128 then Inl (Fault ''dist cannot be -128'')
       else let d = sint draw; btlen = nat \<bar>d\<bar> in
         bindR (bufeat (drop 2 buf) btlen) (\<lambda>bts.
           if btlen \<noteq> length bts then Inl (Fault ''dist and byte len mismatch'')
           else if d \<noteq> 0 \<and> length bts = 0 then Inl (Fault ''dist and byte zero mismatch'')
           else bindR (parse_check_canonical (unat u) d bts) (\<lambda>_.
             Inr (\<lparr>unit = unat u, dist = d, byte = bts\<rparr>, 2 + btlen)))))"

definition amount_serialize :: "amount \<Rightarrow> u8 list" where
  "amount_serialize a = word_of_nat (unit a) # word_of_int (dist a) # byte a"

definition amount_size :: "amount \<Rightarrow> nat" where
  "amount_size a = 1 + 1 + length (byte a)"

definition check_long :: "amount \<Rightarrow> nat \<Rightarrow> unit ret" where
  "check_long a mx = (if amount_size a > mx then Inl (Fault ''amount size exceeds max for storage'') else Inr ())"

definition check_6_long :: "amount \<Rightarrow> unit ret" where "check_6_long a = check_long a 6"
definition check_4_long :: "amount \<Rightarrow> unit ret" where "check_4_long a = check_long a 4"
definition check_store_long :: "amount \<Rightarrow> unit ret" where
  "check_store_long a = check_long a AMOUNT_STORE_MAX_SIZE"

section \<open>Constructors\<close>

text \<open>
  The loop of \<open>coin_with!\<close>: strip factors of ten while the unit is below 255. The unit is a
  \<open>u8\<close>, so \<open>255 \<le> u\<close> is the code's test \<open>u == 255\<close>.
\<close>

function coin_loop :: "nat \<Rightarrow> nat \<Rightarrow> nat \<times> nat" where
  "coin_loop v u =
     (if v mod 10 = 0 then (if 255 \<le> u then (v, u) else coin_loop (v div 10) (u + 1)) else (v, u))"
  by pat_completeness auto
termination
  by (relation "measure (\<lambda>(v, u). 255 - u)") auto

declare coin_loop.simps [simp del]

definition coin_with :: "nat \<Rightarrow> nat \<Rightarrow> nat \<Rightarrow> amount" where
  "coin_with n v u =
     (if v = 0 then amount_zero
      else let (v', u') = coin_loop v u; bts = drop_left_zero (be_bytes n v')
           in \<lparr>unit = u', dist = int (length bts), byte = bts\<rparr>)"

definition coin_u64 :: "nat \<Rightarrow> nat \<Rightarrow> amount" where "coin_u64 v u = coin_with U64S v u"
definition coin_u128 :: "nat \<Rightarrow> nat \<Rightarrow> amount" where "coin_u128 v u = coin_with U128S v u"
definition amount_coin :: "nat \<Rightarrow> nat \<Rightarrow> amount" where "amount_coin v u = coin_u64 v u"

definition amount_small :: "u8 \<Rightarrow> nat \<Rightarrow> amount" where
  "amount_small v u = (if v = 0 then amount_zero else \<lparr>unit = u, dist = 1, byte = [v]\<rparr>)"

definition amount_small_mei :: "u8 \<Rightarrow> amount" where
  "amount_small_mei v = (if v = 0 then amount_zero else \<lparr>unit = UNIT_MEI, dist = 1, byte = [v]\<rparr>)"

definition amount_mei :: "nat \<Rightarrow> amount" where "amount_mei v = amount_coin v UNIT_MEI"
definition amount_zhu :: "nat \<Rightarrow> amount" where "amount_zhu v = amount_coin v UNIT_ZHU"
definition amount_shuo :: "nat \<Rightarrow> amount" where "amount_shuo v = amount_coin v UNIT_SHUO"
definition amount_ai :: "nat \<Rightarrow> amount" where "amount_ai v = amount_coin v UNIT_AI"
definition amount_miao :: "nat \<Rightarrow> amount" where "amount_miao v = amount_coin v UNIT_MIAO"
definition amount_unit238 :: "nat \<Rightarrow> amount" where "amount_unit238 v = amount_coin v UNIT_238"

text \<open>\<open>BigInt::to_bytes_be\<close>: the minimal big-endian bytes of a magnitude.\<close>

fun nat_bytes :: "nat \<Rightarrow> u8 list" where
  "nat_bytes n = (if n < 256 then [word_of_nat n] else nat_bytes (n div 256) @ [word_of_nat n])"

declare nat_bytes.simps [simp del]

definition from_bigint :: "int \<Rightarrow> amount ret" where
  "from_bigint z =
     (let numstr = dec_int z in
      if numstr = ''0'' then Inr amount_zero
      else let numuse = trim_end_zeros numstr;
               u = length numstr - length numuse;
               (numuse, u) = (if u > 255 then (numuse @ replicate (u - 255) (CHR ''0''), 255) else (numuse, u))
           in case parse_int numuse of
                None \<Rightarrow> Inl (Fault ''BigInt::from_str_radix failed'')
              | Some biguse \<Rightarrow>
                  let bts = nat_bytes (nat \<bar>biguse\<bar>); d = length bts in
                  if d > 127 then Inl (Fault ''Amount is too wide.'')
                  else Inr \<lparr>unit = u, dist = (if biguse < 0 then - int d else int d), byte = bts\<rparr>)"

definition from_unit_byte :: "nat \<Rightarrow> u8 list \<Rightarrow> amount ret" where
  "from_unit_byte u bs =
     (if length bs > 127 then Inl (Fault ''amount bytes len overflow 127.'')
      else if length bs = 0 \<or> bytes_is_zero bs then Inr amount_zero
      else let bs' = drop_left_zero bs in
        if bs' = [] then Inr amount_zero
        else if length bs' > 127 then Inl (Fault ''amount bytes len overflow 127.'')
        else Inr \<lparr>unit = u, dist = int (length bs'), byte = bs'\<rparr>)"

section \<open>Value\<close>

definition to_bigint :: "amount \<Rightarrow> int" where
  "to_bigint a =
     (if amt_is_zero a then 0
      else (if dist a > 0 then 1 else - 1) * int (be_nat (byte a)) * 10 ^ unit a)"

definition to_biguint :: "amount \<Rightarrow> nat ret" where
  "to_biguint a =
     (if is_negative a then Inl (Panic ''assertion failed'')
      else if amt_is_zero a then Inr 0
      else Inr (be_nat (byte a) * 10 ^ unit a))"

definition to_unit_biguint :: "amount \<Rightarrow> nat \<Rightarrow> nat option" where
  "to_unit_biguint a base_unit =
     (if is_negative a then None
      else if amt_is_zero a then Some 0
      else case to_biguint a of Inl _ \<Rightarrow> None | Inr bigu \<Rightarrow> Some (bigu div 10 ^ base_unit))"

definition to_unit_u128 :: "nat \<Rightarrow> amount \<Rightarrow> nat ret" where
  "to_unit_u128 base a =
     (case to_unit_biguint a base of
        Some v \<Rightarrow> if v < 2 ^ 128 then Inr v else Inl (Fault ''amount overflow u128'')
      | None \<Rightarrow> Inl (Fault ''amount overflow u128''))"

definition to_unit_u64 :: "nat \<Rightarrow> amount \<Rightarrow> nat ret" where
  "to_unit_u64 base a =
     bindR (to_unit_u128 base a) (\<lambda>u.
       if u > 2 ^ 64 - 1 then Inl (Fault ''amount overflow u64'') else Inr u)"

definition to_mei_u64 :: "amount \<Rightarrow> nat ret" where "to_mei_u64 a = to_unit_u64 UNIT_MEI a"
definition to_zhu_u64 :: "amount \<Rightarrow> nat ret" where "to_zhu_u64 a = to_unit_u64 UNIT_ZHU a"
definition to_238_u64 :: "amount \<Rightarrow> nat ret" where "to_238_u64 a = to_unit_u64 UNIT_238 a"

section \<open>Well-formed and canonical amounts\<close>

text \<open>
  What the types and the constructors guarantee of every amount: the fields fit their machine
  types and \<open>dist\<close> is the signed byte count. A canonical amount has no leading zero byte,
  and zero has one representation; these are the amounts the wire accepts.
\<close>

definition amt_wf :: "amount \<Rightarrow> bool" where
  "amt_wf a \<longleftrightarrow> unit a < 256 \<and> tail_len a = length (byte a) \<and> length (byte a) \<le> 127"

definition amt_canonical :: "amount \<Rightarrow> bool" where
  "amt_canonical a \<longleftrightarrow> amt_wf a \<and> (byte a = [] \<longrightarrow> unit a = 0) \<and> (\<forall>b bs. byte a = b # bs \<longrightarrow> b \<noteq> 0)"

section \<open>Byte strings\<close>

lemma bytes_is_zero_Nil [simp]: "bytes_is_zero []"
  by (simp add: bytes_is_zero_def bytes_not_zero_def)

lemma be_nat_eq_0_iff: "be_nat bs = 0 \<longleftrightarrow> bytes_is_zero bs"
proof (induction bs)
  case Nil
  then show ?case by simp
next
  case (Cons b bs)
  then show ?case
    by (auto simp: be_nat_Cons bytes_is_zero_def bytes_not_zero_def unat_eq_0 word_gt_0)
qed

lemma bytes_not_zero_iff: "bytes_not_zero bs \<longleftrightarrow> 0 < be_nat bs"
  using be_nat_eq_0_iff [of bs] by (auto simp: bytes_is_zero_def)

lemma padded_uint_eq [simp]: "length v \<le> n \<Longrightarrow> padded_uint v n = Inr (be_nat v)"
  by (simp add: padded_uint_def add_left_padding_def be_nat_append)

lemma be_nat_drop_left_zero [simp]: "be_nat (drop_left_zero bs) = be_nat bs"
  by (induction bs) (simp_all add: be_nat_Cons)

lemma length_drop_left_zero: "length (drop_left_zero bs) \<le> length bs"
  by (induction bs) simp_all

lemma drop_left_zero_head: "drop_left_zero bs = b # rest \<Longrightarrow> b \<noteq> 0"
  by (induction bs) (auto split: if_splits)

lemma drop_left_zero_empty_iff: "drop_left_zero bs = [] \<longleftrightarrow> be_nat bs = 0"
  by (induction bs) (auto simp: be_nat_Cons unat_eq_0)

lemma be_nat_nat_bytes [simp]: "be_nat (nat_bytes n) = n"
proof (induction n rule: nat_bytes.induct)
  case (1 n)
  then show ?case
    by (cases "n < 256"; subst nat_bytes.simps) (simp_all add: be_nat_append be_nat_Cons)
qed

lemma nat_bytes_head: "0 < n \<Longrightarrow> \<exists>b bs. nat_bytes n = b # bs \<and> b \<noteq> 0"
proof (induction n rule: nat_bytes.induct)
  case (1 n)
  show ?case
  proof (cases "n < 256")
    case True
    have "unat (word_of_nat n :: u8) = n" using True by simp
    then have "(word_of_nat n :: u8) \<noteq> 0" using "1.prems" by (metis less_numeral_extra(3) unat_0)
    with True show ?thesis by (subst nat_bytes.simps) simp
  next
    case False
    then have "0 < n div 256" by (simp add: div_greater_zero_iff)
    with "1.IH" [OF False] show ?thesis using False by (subst nat_bytes.simps) auto
  qed
qed

text \<open>Two byte strings without leading zeros are equal when their values are.\<close>

lemma minimal_length:
  assumes "\<forall>b bs. xs = b # bs \<longrightarrow> b \<noteq> 0" "be_nat xs < 256 ^ n"
  shows "length xs \<le> n"
proof (rule ccontr)
  assume "\<not> length xs \<le> n"
  then obtain b bs where xs: "xs = b # bs" and "n \<le> length bs" by (cases xs) auto
  with assms(1) have "1 \<le> unat b" by (simp add: Suc_le_eq unat_gt_0)
  have "(256::nat) ^ n \<le> 256 ^ length bs" using \<open>n \<le> length bs\<close> by (intro power_increasing) simp_all
  also have "\<dots> \<le> unat b * 256 ^ length bs" using \<open>1 \<le> unat b\<close> by simp
  also have "\<dots> \<le> be_nat xs" by (simp add: xs be_nat_Cons)
  finally show False using assms(2) by simp
qed

lemma minimal_bytes_inject:
  assumes "\<forall>b bs. xs = b # bs \<longrightarrow> b \<noteq> 0" "\<forall>b bs. ys = b # bs \<longrightarrow> b \<noteq> 0" "be_nat xs = be_nat ys"
  shows "xs = ys"
proof -
  have "length xs \<le> length ys" by (rule minimal_length [OF assms(1)]) (simp add: assms(3) be_nat_less)
  moreover have "length ys \<le> length xs"
    by (rule minimal_length [OF assms(2)]) (simp add: assms(3) [symmetric] be_nat_less)
  ultimately show ?thesis using assms(3) by (intro be_bytes_inject) simp_all
qed

section \<open>Values and canonical forms\<close>

lemma amt_wf_zero [simp]: "amt_wf amount_zero" "amt_canonical amount_zero"
  by (simp_all add: amt_wf_def amt_canonical_def amount_zero_def tail_len_def)

lemma amount_zero_fields [simp]: "unit amount_zero = 0" "dist amount_zero = 0" "byte amount_zero = []"
  by (simp_all add: amount_zero_def)

lemma to_bigint_zero [simp]: "to_bigint amount_zero = 0"
  by (simp add: to_bigint_def amt_is_zero_def amount_zero_def)

lemma to_bigint_alt: "to_bigint a = (if dist a > 0 then 1 else - 1) * int (be_nat (byte a)) * 10 ^ unit a"
  by (simp add: to_bigint_def amt_is_zero_def flip: be_nat_eq_0_iff)

lemma amt_is_zero_iff: "amt_is_zero a \<longleftrightarrow> to_bigint a = 0"
  by (simp add: to_bigint_alt amt_is_zero_def flip: be_nat_eq_0_iff)

lemma is_negative_iff: "amt_wf a \<Longrightarrow> is_negative a \<longleftrightarrow> to_bigint a < 0"
  by (cases "dist a = 0")
    (auto simp: is_negative_def to_bigint_alt bytes_not_zero_iff mult_less_0_iff amt_wf_def tail_len_def)

lemma is_positive_iff: "is_positive a \<longleftrightarrow> dist a > 0 \<and> to_bigint a > 0"
  by (auto simp: is_positive_def to_bigint_alt bytes_not_zero_iff zero_less_mult_iff)

lemma to_bigint_nonneg: "0 < dist a \<Longrightarrow> to_bigint a = int (be_nat (byte a) * 10 ^ unit a)"
  by (simp add: to_bigint_alt)

text \<open>For an unsigned, well-formed amount the value is a natural number.\<close>

lemma wf_nonneg_value:
  assumes "amt_wf a" "0 \<le> dist a"
  shows "to_bigint a = int (be_nat (byte a) * 10 ^ unit a)"
proof (cases "dist a = 0")
  case True
  with assms have "byte a = []" by (simp add: amt_wf_def tail_len_def)
  then show ?thesis by (simp add: to_bigint_alt)
qed (use assms in \<open>simp add: to_bigint_nonneg\<close>)

section \<open>Constructors\<close>

lemma coin_loop_value: "coin_loop v u = (v', u') \<Longrightarrow> u \<le> 255 \<Longrightarrow> v' * 10 ^ u' = v * 10 ^ u \<and> u' \<le> 255"
proof (induction v u arbitrary: v' u' rule: coin_loop.induct)
  case (1 v u)
  show ?case
  proof (cases "v mod 10 = 0 \<and> \<not> 255 \<le> u")
    case True
    with "1.prems" have "coin_loop (v div 10) (u + 1) = (v', u')" by (simp add: coin_loop.simps [of v u])
    with True have "v' * 10 ^ u' = v div 10 * 10 ^ (u + 1) \<and> u' \<le> 255" by (intro "1.IH") simp_all
    with True show ?thesis by (auto simp: mult_ac)
  next
    case False
    with "1.prems" show ?thesis by (auto simp: coin_loop.simps [of v u] split: if_splits)
  qed
qed

lemma coin_loop_le: "coin_loop v u = (v', u') \<Longrightarrow> v' \<le> v \<and> (0 < v \<longrightarrow> 0 < v')"
proof (induction v u arbitrary: v' u' rule: coin_loop.induct)
  case (1 v u)
  show ?case
  proof (cases "v mod 10 = 0 \<and> \<not> 255 \<le> u")
    case True
    with "1.prems" have "coin_loop (v div 10) (u + 1) = (v', u')" by (simp add: coin_loop.simps [of v u])
    with True have "v' \<le> v div 10 \<and> (0 < v div 10 \<longrightarrow> 0 < v')" by (intro "1.IH") simp_all
    with True show ?thesis by auto
  next
    case False
    with "1.prems" show ?thesis by (auto simp: coin_loop.simps [of v u] split: if_splits)
  qed
qed

lemma coin_loop_stripped: "coin_loop v u = (v', u') \<Longrightarrow> v' mod 10 = 0 \<Longrightarrow> 255 \<le> u'"
proof (induction v u arbitrary: v' u' rule: coin_loop.induct)
  case (1 v u)
  then show ?case
    by (cases "v mod 10 = 0 \<and> \<not> 255 \<le> u") (auto simp: coin_loop.simps [of v u] split: if_splits)
qed

lemma coin_with_value:
  assumes "v < 256 ^ n" "n \<le> 127" "u \<le> 255"
  shows "to_bigint (coin_with n v u) = int (v * 10 ^ u)" "amt_canonical (coin_with n v u)"
    "0 \<le> dist (coin_with n v u)"
proof -
  obtain v' u' where l: "coin_loop v u = (v', u')" by fastforce
  have val: "v' * 10 ^ u' = v * 10 ^ u" "u' \<le> 255" "v' \<le> v" "0 < v \<longrightarrow> 0 < v'"
    using coin_loop_value [OF l assms(3)] coin_loop_le [OF l] by auto
  define bs where "bs = drop_left_zero (be_bytes n v')"
  have b: "be_nat bs = v'" using val assms(1) by (simp add: bs_def)
  have len: "length bs \<le> 127" using length_drop_left_zero [of "be_bytes n v'"] assms(2) by (simp add: bs_def)
  have hd: "\<forall>b rest. bs = b # rest \<longrightarrow> b \<noteq> 0" unfolding bs_def by (blast dest: drop_left_zero_head)
  show "amt_canonical (coin_with n v u)"
  proof (cases "v = 0")
    case False
    then show ?thesis
      using len hd val(2) b val(4)
      by (auto simp: coin_with_def l bs_def [symmetric] Let_def amt_canonical_def amt_wf_def tail_len_def)
  qed (simp add: coin_with_def)
  show "0 \<le> dist (coin_with n v u)" by (simp add: coin_with_def l Let_def amount_zero_def)
  show "to_bigint (coin_with n v u) = int (v * 10 ^ u)"
  proof (cases "v = 0")
    case False
    with val b have "bs \<noteq> []" by auto
    then show ?thesis
      using False b val by (simp add: coin_with_def l bs_def [symmetric] Let_def to_bigint_alt flip: val(1))
  qed (simp add: coin_with_def)
qed

lemma trim_end_zeros_append: "\<exists>k. s = trim_end_zeros s @ replicate k (CHR ''0'')"
proof (induction s rule: rev_induct)
  case Nil
  then show ?case by (simp add: trim_end_zeros_def)
next
  case (snoc c s)
  show ?case
  proof (cases "c = CHR ''0''")
    case True
    then have "trim_end_zeros (s @ [c]) = trim_end_zeros s" by (simp add: trim_end_zeros_def)
    moreover from snoc obtain k where "s = trim_end_zeros s @ replicate k (CHR ''0'')" ..
    moreover have "replicate (Suc k) (CHR ''0'') = replicate k (CHR ''0'') @ [c]"
      by (simp add: True replicate_append_same)
    ultimately have "s @ [c] = trim_end_zeros (s @ [c]) @ replicate (Suc k) (CHR ''0'')"
      by (metis append.assoc)
    then show ?thesis ..
  next
    case False
    then have "s @ [c] = trim_end_zeros (s @ [c]) @ replicate 0 (CHR ''0'')" by (simp add: trim_end_zeros_def)
    then show ?thesis ..
  qed
qed

lemma strip_tens: "0 < n \<Longrightarrow> \<exists>m k. n = m * 10 ^ k \<and> m mod 10 \<noteq> 0 \<and> 0 < (m::nat)"
proof (induction n rule: less_induct)
  case (less n)
  show ?case
  proof (cases "n mod 10 = 0")
    case True
    with less.prems have "n div 10 < n" "0 < n div 10" by auto
    from less.IH [OF this] obtain m k where "n div 10 = m * 10 ^ k" "m mod 10 \<noteq> 0" "0 < m" by blast
    with True have "n = m * 10 ^ Suc k \<and> m mod 10 \<noteq> 0 \<and> 0 < m" by auto
    then show ?thesis by blast
  next
    case False
    with less.prems have "n = n * 10 ^ 0 \<and> n mod 10 \<noteq> 0 \<and> 0 < n" by simp
    then show ?thesis by blast
  qed
qed

text \<open>
  The digit-string computation of \<open>from_bigint\<close> as arithmetic: the magnitude is
  \<open>m * 10 ^ k\<close> with \<open>m\<close> not divisible by ten, the unit is \<open>min k 255\<close>
  and the mantissa keeps the factors of ten above that.
\<close>

lemma from_bigint_nat:
  assumes z: "\<bar>z\<bar> = int (m * 10 ^ k)" and m: "m mod 10 \<noteq> 0" "0 < m"
  defines "v \<equiv> m * 10 ^ (k - min k 255)"
  shows "from_bigint z =
    (if length (nat_bytes v) > 127 then Inl (Fault ''Amount is too wide.'')
     else Inr \<lparr>unit = min k 255, dist = (if z < 0 then -1 else 1) * int (length (nat_bytes v)), byte = nat_bytes v\<rparr>)"
proof -
  define sg where "sg = (if z < 0 then ''-'' else [])"
  have nz: "nat \<bar>z\<bar> = m * 10 ^ k" by (simp only: z nat_int)
  have num: "dec_int z = sg @ dec m @ replicate k (CHR ''0'')"
    using dec_mult_pow [OF m(2), of k] by (simp add: dec_int_def sg_def nz)
  have tr: "trim_end_zeros (dec_int z) = sg @ dec m"
  proof -
    have "last (dec m) \<noteq> CHR ''0''" using m by (subst dec.simps) simp
    moreover obtain xs x where x: "dec m = xs @ [x]" by (metis dec_nonempty rev_exhaust)
    ultimately show ?thesis by (simp add: num trim_end_zeros_def dropWhile_append)
  qed
  have n0: "dec_int z \<noteq> ''0''"
  proof
    assume "dec_int z = ''0''"
    then have "trim_end_zeros (dec_int z) = []" by (simp add: trim_end_zeros_def)
    with tr show False by simp
  qed
  have u: "length (dec_int z) = length sg + (length (dec m) + k)" using num by simp
  have "v > 0" using m(2) by (simp add: v_def)
  have v: "sg @ dec m @ replicate (k - 255) (CHR ''0'') = dec_int (if z < 0 then - int v else int v)"
  proof -
    have "dec v = dec m @ replicate (k - 255) (CHR ''0'')"
      using dec_mult_pow [OF m(2), of "k - 255"] by (auto simp: v_def min_def)
    then show ?thesis using \<open>v > 0\<close> by (simp add: dec_int_def sg_def)
  qed
  have ps: "parse_int (sg @ dec m @ replicate (k - 255) (CHR ''0'')) = Some (if z < 0 then - int v else int v)"
    by (simp only: v parse_int_dec_int)
  have n0': "sg @ dec m \<noteq> []" by simp
  show ?thesis
  proof (cases "k > 255")
    case True
    then show ?thesis
      using ps n0 \<open>v > 0\<close> by (simp add: from_bigint_def Let_def u tr)
  next
    case False
    then have "parse_int (sg @ dec m) = Some (if z < 0 then - int v else int v)" using ps by simp
    with False n0 \<open>v > 0\<close> show ?thesis by (simp add: from_bigint_def Let_def u tr)
  qed
qed

lemma dec_int_0: "dec_int z = ''0'' \<longleftrightarrow> z = 0"
proof
  assume "dec_int z = ''0''"
  then have "parse_int (dec_int z) = parse_int (dec_int 0)"
    by (simp add: dec_int_def dec.simps [of 0] dig_0)
  then show "z = 0" by (simp only: parse_int_dec_int option.inject)
qed (simp add: dec_int_def dec.simps [of 0] dig_0)

lemma from_bigint_0 [simp]: "from_bigint 0 = Inr amount_zero"
  by (simp add: from_bigint_def dec_int_0 Let_def)

lemma int_strip_tens: "z \<noteq> 0 \<Longrightarrow> \<exists>m k. \<bar>z\<bar> = int (m * 10 ^ k) \<and> m mod 10 \<noteq> 0 \<and> 0 < m"
  using strip_tens [of "nat \<bar>z\<bar>"] by (metis nat_0_le abs_ge_zero zero_less_nat_eq zero_less_abs_iff)

lemma nat_bytes_canonical:
  "0 < v \<Longrightarrow> length (nat_bytes v) \<le> 127 \<Longrightarrow> u < 256 \<Longrightarrow>
     amt_canonical \<lparr>unit = u, dist = (if s then -1 else 1) * int (length (nat_bytes v)), byte = nat_bytes v\<rparr>"
  using nat_bytes_head [of v] by (auto simp: amt_canonical_def amt_wf_def tail_len_def)

lemma from_bigint_ok:
  assumes "from_bigint z = Inr a"
  shows "to_bigint a = z" "amt_canonical a"
proof (atomize (full), cases "z = 0")
  case True
  with assms show "to_bigint a = z \<and> amt_canonical a" by simp
next
  case False
  then obtain m k where mk: "\<bar>z\<bar> = int (m * 10 ^ k)" "m mod 10 \<noteq> 0" "0 < m" using int_strip_tens by blast
  define v where "v = m * 10 ^ (k - min k 255)"
  have vp: "0 < v" using mk(3) by (simp add: v_def)
  from from_bigint_nat [OF mk] assms
  have a: "a = \<lparr>unit = min k 255, dist = (if z < 0 then -1 else 1) * int (length (nat_bytes v)), byte = nat_bytes v\<rparr>"
    and len: "length (nat_bytes v) \<le> 127"
    by (auto simp: v_def split: if_splits)
  have "nat_bytes v \<noteq> []" using nat_bytes_head [OF vp] by auto
  then have "to_bigint a = (if z < 0 then -1 else 1) * int (v * 10 ^ min k 255)"
    by (simp add: a to_bigint_alt)
  also have "v * 10 ^ min k 255 = m * 10 ^ k"
    by (simp add: v_def mult.assoc flip: power_add)
  also have "(if z < 0 then -1 else 1) * int (m * 10 ^ k) = z"
    using mk(1) by (simp del: of_nat_mult of_nat_power flip: mk(1))
  finally show "to_bigint a = z \<and> amt_canonical a"
    using nat_bytes_canonical [OF vp len, of "min k 255" "z < 0"] by (simp add: a)
qed

text \<open>The only error of \<open>from_bigint\<close> is a mantissa wider than 127 bytes.\<close>

lemma length_nat_bytes_le: "0 < v \<Longrightarrow> v < 256 ^ n \<Longrightarrow> length (nat_bytes v) \<le> n"
  using nat_bytes_head [of v] by (intro minimal_length) auto

lemma from_bigint_total:
  assumes "\<bar>z\<bar> < 256 ^ 127"
  shows "\<exists>a. from_bigint z = Inr a"
proof (cases "z = 0")
  case False
  then obtain m k where mk: "\<bar>z\<bar> = int (m * 10 ^ k)" "m mod 10 \<noteq> 0" "0 < m" using int_strip_tens by blast
  have "int (m * 10 ^ k) < int (256 ^ 127)" using assms mk(1) by (simp only: of_nat_power of_nat_numeral)
  then have b: "m * 10 ^ k < 256 ^ 127" by (simp only: of_nat_less_iff)
  have "m * 10 ^ (k - min k 255) \<le> m * 10 ^ k" by (intro mult_left_mono power_increasing) simp_all
  then have "m * 10 ^ (k - min k 255) < 256 ^ 127" using b by (rule le_less_trans)
  then have "length (nat_bytes (m * 10 ^ (k - min k 255))) \<le> 127"
    using mk(3) by (intro length_nat_bytes_le) simp_all
  then show ?thesis by (simp add: from_bigint_nat [OF mk] not_less)
qed simp

lemma from_bigint_error: "from_bigint z = Inl e \<Longrightarrow> e = Fault ''Amount is too wide.''"
proof (cases "z = 0")
  case False
  then obtain m k where "\<bar>z\<bar> = int (m * 10 ^ k)" "m mod 10 \<noteq> 0" "0 < m" using int_strip_tens by blast
  from from_bigint_nat [OF this] show "from_bigint z = Inl e \<Longrightarrow> e = Fault ''Amount is too wide.''"
    by (simp split: if_splits)
qed simp

section \<open>The wire codec\<close>

lemma uint_u8_less: "uint (b :: u8) < 256"
  using unat_u8_less [of b] by (metis of_nat_less_iff of_nat_numeral uint_nat)

lemma signed_wrap:
  assumes "0 \<le> x" "x < 256"
  shows "(x + 128) mod 256 - 128 = (if x < 128 then x else x - (256 :: int))"
proof (cases "x < 128")
  case False
  have "(x + 128) mod 256 = (x - 128 + 256) mod 256" by (simp add: add.commute)
  also have "\<dots> = x - 128" using False assms by (simp only: mod_add_self2) simp
  finally show ?thesis using False by simp
qed (use assms in simp)

lemma signed_unwrap:
  assumes "-128 \<le> d" "d \<le> (127 :: int)"
  shows "(if d mod 256 < 128 then d mod 256 else d mod 256 - 256) = d"
proof (cases "0 \<le> d")
  case False
  have "d mod 256 = (d + 256) mod 256" by simp
  also have "\<dots> = d + 256" using False assms by (intro mod_pos_pos_trivial) simp_all
  finally show ?thesis using False assms by simp
qed (use assms in simp)

lemma sint_u8: "sint (b :: u8) = (if uint b < 128 then uint b else uint b - 256)"
proof -
  have "sint b = signed_take_bit 7 (uint b)" by (simp add: sint_uint)
  also have "\<dots> = (uint b + 128) mod 256 - 128" by (simp add: signed_take_bit_eq_take_bit_shift take_bit_eq_mod)
  also have "\<dots> = (if uint b < 128 then uint b else uint b - 256)"
    using uint_u8_less [of b] uint_ge_0 [of b] by (rule signed_wrap [rotated])
  finally show ?thesis .
qed

lemma power2_eq_8bits: "(2::int) ^ LENGTH(8) = 256"
  by simp

lemma sint_word_of_int_u8: "-128 \<le> d \<Longrightarrow> d \<le> 127 \<Longrightarrow> sint (word_of_int d :: u8) = d"
  using signed_unwrap [of d] by (simp only: sint_u8 uint_word_of_int power2_eq_8bits)

lemma word_of_int_eq_128: "-128 < d \<Longrightarrow> d \<le> 127 \<Longrightarrow> (word_of_int d :: u8) \<noteq> 128"
proof
  assume d: "-128 < d" "d \<le> 127" "(word_of_int d :: u8) = 128"
  have "d = sint (word_of_int d :: u8)" using d(1,2) by (simp add: sint_word_of_int_u8)
  also have "\<dots> = sint (128 :: u8)" by (simp only: d(3))
  also have "\<dots> = -128" by simp
  finally show False using d(1) by simp
qed

lemma amt_canonical_check:
  assumes "tail_len a = length (byte a)" "length (byte a) \<le> 127" "unit a < 256"
  shows "parse_check_canonical (unit a) (dist a) (byte a) = Inr () \<longleftrightarrow> amt_canonical a"
proof (cases "byte a")
  case Nil
  with assms show ?thesis by (auto simp: parse_check_canonical_def amt_canonical_def amt_wf_def tail_len_def)
next
  case (Cons b bs)
  show ?thesis
  proof (cases "b = 0")
    case True
    have "\<not> amt_canonical a" by (simp add: amt_canonical_def Cons True)
    moreover have "bs = [] \<Longrightarrow> bytes_is_zero (b # bs)" by (simp add: True be_nat_Cons flip: be_nat_eq_0_iff)
    ultimately show ?thesis by (auto simp: parse_check_canonical_def Cons True)
  next
    case False
    then have "\<not> bytes_is_zero (b # bs)" by (simp add: be_nat_Cons unat_gt_0 flip: be_nat_eq_0_iff)
    with False assms show ?thesis by (auto simp: parse_check_canonical_def amt_canonical_def amt_wf_def Cons)
  qed
qed

lemma amount_parse_ser:
  assumes "amt_canonical a"
  shows "amount_parse (amount_serialize a @ rest) = Inr (a, amount_size a)"
proof -
  from assms have wf: "unit a < 256" "tail_len a = length (byte a)" "length (byte a) \<le> 127"
    by (simp_all add: amt_canonical_def amt_wf_def)
  then have d: "-128 < dist a" "dist a \<le> 127" by (auto simp: tail_len_def)
  have u: "unat (word_of_nat (unit a) :: u8) = unit a" using wf(1) by simp
  have "parse_check_canonical (unit a) (dist a) (byte a) = Inr ()"
    using assms wf by (simp add: amt_canonical_check)
  moreover have "nat \<bar>dist a\<bar> = length (byte a)" using wf(2) by (simp add: tail_len_def)
  ultimately show ?thesis
    using d wf u
    by (auto simp: amount_parse_def amount_serialize_def amount_size_def bufeat_def Let_def
        sint_word_of_int_u8 word_of_int_eq_128 simp del: unsigned_of_nat)
qed

lemma amount_parse_sound:
  assumes p: "amount_parse buf = Inr (a, n)"
  shows "amt_canonical a \<and> n \<le> length buf \<and> amount_serialize a = take n buf \<and> n = amount_size a"
proof -
  from p obtain u draw rest where buf: "buf = u # draw # rest"
    by (auto simp: amount_parse_def ret_simps)
  from p have d: "draw \<noteq> 128" and l: "nat \<bar>sint draw\<bar> \<le> length rest"
    and a: "a = \<lparr>unit = unat u, dist = sint draw, byte = take (nat \<bar>sint draw\<bar>) rest\<rparr>"
    and n: "n = 2 + nat \<bar>sint draw\<bar>"
    and c: "parse_check_canonical (unat u) (sint draw) (take (nat \<bar>sint draw\<bar>) rest) = Inr ()"
    by (auto simp: amount_parse_def buf Let_def ret_simps split: if_splits)
  have "\<bar>sint draw\<bar> \<le> 127"
    using d uint_u8_less [of draw] uint_ge_0 [of draw] by (auto simp: sint_u8 word_uint_eq_iff)
  then have "amt_canonical a"
    using amt_canonical_check [of a] c l unat_u8_less [of u] by (simp add: a tail_len_def)
  moreover have "word_of_int (sint draw) = draw" by simp
  ultimately show ?thesis using l by (simp add: n buf amount_serialize_def a amount_size_def)
qed

interpretation amount: codec "\<lambda>a. Inr (amount_serialize a)" amount_parse amt_canonical
proof
  fix a :: amount and bs rest
  assume "amt_canonical a" "Inr (amount_serialize a) = Inr bs"
  then show "amount_parse (bs @ rest) = Inr (a, length bs)"
    using amount_parse_ser [of a rest] by (auto simp: amount_size_def amount_serialize_def)
qed (auto dest: amount_parse_sound)

section \<open>Properties\<close>

text \<open>C1: The wire form of \<open>Amount\<close> is canonical: \<open>parse\<close> accepts a buffer with amount
  \<open>a\<close> and length \<open>n\<close> exactly when \<open>a\<close> is canonical and the first \<open>n\<close>
  bytes are its serialization; two different byte strings never denote the same parsed amount.\<close>
theorem amount_parse_iff:
  "amount_parse buf = Inr (a, n) \<longleftrightarrow>
     amt_canonical a \<and> n \<le> length buf \<and> amount_serialize a = take n buf"
  using amount.parse_iff [of buf a n] by simp

text \<open>\<open>from_bigint\<close> returns a canonical amount of exactly the given value, fails only
  when the mantissa is wider than 127 bytes, and never fails below \<open>256 ^ 127\<close>.\<close>
theorem from_bigint_exact:
  "(\<forall>a. from_bigint z = Inr a \<longrightarrow> to_bigint a = z \<and> amt_canonical a) \<and>
   (\<forall>e. from_bigint z = Inl e \<longrightarrow> e = Fault ''Amount is too wide.'' \<and> 256 ^ 127 \<le> \<bar>z\<bar>)"
  using from_bigint_ok [of z] from_bigint_error [of z] from_bigint_total [of z]
  by (metis linorder_not_le sum.distinct(1))

theorem from_bigint_exact_witness:
  "to_bigint \<lparr>unit = 2, dist = -1, byte = [12]\<rparr> = -1200 \<and> from_bigint (-1200) = Inr \<lparr>unit = 2, dist = -1, byte = [12]\<rparr>"
proof -
  have e: "from_bigint (-1200) = Inr \<lparr>unit = 2, dist = -1, byte = [12]\<rparr>" by code_simp
  then have "to_bigint \<lparr>unit = 2, dist = -1, byte = [12]\<rparr> = -1200" using from_bigint_exact [of "-1200"] by blast
  with e show ?thesis by (rule conjI [rotated])
qed

end
