(* ===== verification/AmountArith.thy ===== *)
theory AmountArith
  imports Amount
begin

text \<open>
  \<^verbatim>\<open>field/src/core/amount.rs\<close>, comparison and arithmetic: the digit-string
  comparison, the fixed-width additions and subtractions of \<open>compute_mode_define!\<close>, and the
  operations built on them. Each is shown to compute on the value \<open>to_bigint\<close>.
\<close>

section \<open>Comparison\<close>

datatype ordering = Less | Equal | Greater

definition cmp_of :: "'a :: linorder \<Rightarrow> 'a \<Rightarrow> ordering" where
  "cmp_of a b = (if a < b then Less else if a = b then Equal else Greater)"

definition amount_equal :: "amount \<Rightarrow> amount \<Rightarrow> bool" where
  "amount_equal a b \<longleftrightarrow>
     unit a = unit b \<and> dist a = dist b \<and> byte a = byte b \<or> amt_is_zero a \<and> amt_is_zero b"

text \<open>The loop over two digit strings of the same length.\<close>

fun cmp_chars :: "string \<Rightarrow> string \<Rightarrow> ordering" where
  "cmp_chars (a # as) (b # bs) = (if a > b then Greater else if a < b then Less else cmp_chars as bs)"
| "cmp_chars _ _ = Equal"

definition unwrapR :: "'a ret \<Rightarrow> 'a ret" where
  "unwrapR r = (case r of Inl _ \<Rightarrow> Inl (Panic ''unwrap'') | Inr x \<Rightarrow> Inr x)"

definition cmp_with :: "(amount \<Rightarrow> nat ret) \<Rightarrow> amount \<Rightarrow> amount \<Rightarrow> ordering ret" where
  "cmp_with tail_u a b =
     bindR (unwrapR (tail_u a)) (\<lambda>v1. bindR (unwrapR (tail_u b)) (\<lambda>v2.
       let tns1 = dec v1; tns2 = dec v2;
           rlunit1 = unit a + length tns1; rlunit2 = unit b + length tns2
       in if rlunit1 > rlunit2 then Inr Greater
          else if rlunit1 < rlunit2 then Inr Less
          else let tns1 = (if unit a > unit b then tns1 @ replicate (unit a - unit b) (CHR ''0'') else tns1);
                   tns2 = (if unit a < unit b then tns2 @ replicate (unit b - unit a) (CHR ''0'') else tns2)
               in if length tns1 \<noteq> length tns2 then Inl (Panic ''assertion failed'')
                  else Inr (cmp_chars tns1 tns2)))"

definition cmp_mode_u128 :: "amount \<Rightarrow> amount \<Rightarrow> ordering ret" where
  "cmp_mode_u128 = cmp_with tail_u128"

definition cmp_mode_u64 :: "amount \<Rightarrow> amount \<Rightarrow> ordering ret" where
  "cmp_mode_u64 = cmp_with tail_u64"

definition cmp_mode_bigint :: "amount \<Rightarrow> amount \<Rightarrow> ordering" where
  "cmp_mode_bigint a b = cmp_of (to_bigint a) (to_bigint b)"

definition amount_cmp :: "amount \<Rightarrow> amount \<Rightarrow> ordering ret" where
  "amount_cmp a b =
     (if dist a < 0 \<or> dist b < 0 then Inr (cmp_mode_bigint a b)
      else if amount_equal a b then Inr Equal
      else let dzro = amt_is_zero a; szro = amt_is_zero b in
        if dzro \<and> szro then Inr Equal
        else if dzro then Inr Less
        else if szro then Inr Greater
        else let dtl = tail_len a; stl = tail_len b in
          if dtl \<le> U64S \<and> stl \<le> U64S then cmp_mode_u64 a b
          else if dtl \<le> U128S \<and> stl \<le> U128S then cmp_mode_u128 a b
          else Inr (cmp_mode_bigint a b))"

text \<open>The operators \<open><\<close> and \<open>>=\<close> of \<open>PartialOrd\<close>.\<close>

definition amount_lt :: "amount \<Rightarrow> amount \<Rightarrow> bool ret" where
  "amount_lt a b = bindR (amount_cmp a b) (\<lambda>r. Inr (r = Less))"

definition amount_ge :: "amount \<Rightarrow> amount \<Rightarrow> bool ret" where
  "amount_ge a b = bindR (amount_cmp a b) (\<lambda>r. Inr (r \<noteq> Less))"

section \<open>Fixed-width addition and subtraction\<close>

definition checked_mul :: "nat \<Rightarrow> nat \<Rightarrow> nat \<Rightarrow> nat option" where
  "checked_mul n a b = (if a * b < 256 ^ n then Some (a * b) else None)"

definition checked_pow10 :: "nat \<Rightarrow> nat \<Rightarrow> nat option" where
  "checked_pow10 n k = (if (10::nat) ^ k < 256 ^ n then Some (10 ^ k) else None)"

definition checked_add :: "nat \<Rightarrow> nat \<Rightarrow> nat \<Rightarrow> nat option" where
  "checked_add n a b = (if a + b < 256 ^ n then Some (a + b) else None)"

definition checked_sub :: "nat \<Rightarrow> nat \<Rightarrow> nat option" where
  "checked_sub a b = (if b \<le> a then Some (a - b) else None)"

definition rte_ovfl :: exec_error where
  "rte_ovfl = Fault ''amount computing size overflow''"

definition rte_cneg :: exec_error where
  "rte_cneg = Fault ''operands cannot be negative''"

text \<open>Scaling the mantissa with the larger unit down to the smaller unit.\<close>

definition scale_to :: "nat \<Rightarrow> nat \<Rightarrow> nat \<Rightarrow> nat ret" where
  "scale_to n utsk v =
     (case checked_pow10 n utsk of None \<Rightarrow> Inl rte_ovfl
      | Some pwn \<Rightarrow> (case checked_mul n v pwn of None \<Rightarrow> Inl rte_ovfl | Some v' \<Rightarrow> Inr v'))"

definition compute_mode :: "nat \<Rightarrow> bool \<Rightarrow> amount \<Rightarrow> amount \<Rightarrow> amount ret" where
  "compute_mode ts add_or_sub a b =
     (if dist a < 0 \<or> dist b < 0 then Inl rte_cneg
      else if amt_is_zero a \<and> amt_is_zero b then Inr amount_zero
      else if add_or_sub \<and> amt_is_zero a then Inr b
      else if add_or_sub \<and> amt_is_zero b then Inr a
      else if \<not> add_or_sub \<and> amt_is_zero a then Inl rte_ovfl
      else if \<not> add_or_sub \<and> amt_is_zero b then Inr a
      else if tail_len a > ts \<or> tail_len b > ts then Inl rte_ovfl
      else bindR (padded_uint (byte a) ts) (\<lambda>du. bindR (padded_uint (byte b) ts) (\<lambda>su.
        let utsk = nat \<bar>int (unit a) - int (unit b)\<bar> in
        if unit a = unit b \<and> \<not> add_or_sub \<and> du = su then Inr amount_zero
        else bindR (if unit a > unit b then scale_to ts utsk du else Inr du) (\<lambda>du.
             bindR (if unit a < unit b then scale_to ts utsk su else Inr su) (\<lambda>su.
             let baseut = min (unit a) (unit b) in
             case (if add_or_sub then checked_add ts du su else checked_sub du su) of
               None \<Rightarrow> Inl rte_ovfl
             | Some resv \<Rightarrow> Inr (coin_with ts resv baseut))))))"

definition add_mode_u64 :: "amount \<Rightarrow> amount \<Rightarrow> amount ret" where
  "add_mode_u64 = compute_mode U64S True"
definition add_mode_u128 :: "amount \<Rightarrow> amount \<Rightarrow> amount ret" where
  "add_mode_u128 = compute_mode U128S True"
definition sub_mode_u64 :: "amount \<Rightarrow> amount \<Rightarrow> amount ret" where
  "sub_mode_u64 = compute_mode U64S False"
definition sub_mode_u128 :: "amount \<Rightarrow> amount \<Rightarrow> amount ret" where
  "sub_mode_u128 = compute_mode U128S False"

definition add_mode_bigint :: "amount \<Rightarrow> amount \<Rightarrow> amount ret" where
  "add_mode_bigint a b = from_bigint (to_bigint a + to_bigint b)"

definition sub_mode_bigint :: "amount \<Rightarrow> amount \<Rightarrow> amount ret" where
  "sub_mode_bigint a b = from_bigint (to_bigint a - to_bigint b)"

datatype amt_mode = U64 | U128 | BIGINT

definition amount_add :: "amount \<Rightarrow> amount \<Rightarrow> amt_mode \<Rightarrow> amount ret" where
  "amount_add a b mode =
     (if is_negative a \<or> is_negative b then add_mode_bigint a b
      else case mode of U64 \<Rightarrow> add_mode_u64 a b | U128 \<Rightarrow> add_mode_u128 a b | BIGINT \<Rightarrow> add_mode_bigint a b)"

definition amount_sub :: "amount \<Rightarrow> amount \<Rightarrow> amt_mode \<Rightarrow> amount ret" where
  "amount_sub a b mode =
     (if is_negative a \<or> is_negative b then sub_mode_bigint a b
      else case mode of U64 \<Rightarrow> sub_mode_u64 a b | U128 \<Rightarrow> sub_mode_u128 a b | BIGINT \<Rightarrow> sub_mode_bigint a b)"

section \<open>Derived operations\<close>

definition dist_mul :: "amount \<Rightarrow> nat \<Rightarrow> amount ret" where
  "dist_mul a n =
     (if amt_is_zero a then Inr amount_zero
      else if dist a < 0 then Inl (Fault ''dist_mul not supported for negative amount'')
      else if length (byte a) > U128S then Inl (Fault ''dist_mul failed: dist overflow'')
      else bindR (padded_uint (byte a) U128S) (\<lambda>du.
        case checked_mul U128S du n of
          None \<Rightarrow> Inl (Fault ''dist_mul failed: u128 overflow'')
        | Some du \<Rightarrow> Inr (coin_u128 du (unit a))))"

definition ratio_floor :: "amount \<Rightarrow> nat \<Rightarrow> nat \<Rightarrow> amount ret" where
  "ratio_floor a numerator denominator =
     (if denominator = 0 then Inl (Fault ''ratio_floor denominator cannot be zero'')
      else if is_negative a then Inl (Fault ''cannot ratio_floor for negative'')
      else if amt_is_zero a \<or> numerator = 0 then Inr amount_zero
      else from_bigint (to_bigint a * int numerator div int denominator))"

definition ten_percent_floor :: "amount \<Rightarrow> amount ret" where
  "ten_percent_floor a = ratio_floor a 1 10"

definition unit_sub :: "amount \<Rightarrow> nat \<Rightarrow> amount ret" where
  "unit_sub a sub =
     (if sub = 0 then Inr a
      else if sub > unit a then Inl (Fault ''unit_sub failed'')
      else Inr (a\<lparr>unit := unit a - sub\<rparr>))"

datatype amt_cpr = Discard | Grow

function compress_loop :: "nat \<Rightarrow> amt_cpr \<Rightarrow> amount \<Rightarrow> amount ret" where
  "compress_loop btn cpr a =
     (if tail_len a > btn then
        (if 255 \<le> unit a then Inl (Fault ''amount uint too large to compress'')
         else case padded_uint (byte a) U128S of
           Inl e \<Rightarrow> Inl e
         | Inr v \<Rightarrow>
             let numpls = v div 10 + (if cpr = Grow then 1 else 0);
                 nbts = drop_left_zero (be_bytes U128S numpls)
             in compress_loop btn cpr \<lparr>unit = unit a + 1, dist = int (length nbts), byte = nbts\<rparr>)
      else Inr a)"
  by pat_completeness auto
termination
  by (relation "measure (\<lambda>(btn, cpr, a). 255 - unit a)") auto

declare compress_loop.simps [simp del]

definition compress :: "amount \<Rightarrow> nat \<Rightarrow> amt_cpr \<Rightarrow> amount ret" where
  "compress a btn cpr =
     (if dist a < 0 then Inl (Fault ''cannot compress negative amount'')
      else if tail_len a > U128S then Inl (Fault ''amount bytes too long to compress'')
      else bindR (compress_loop btn cpr a) (\<lambda>a'. if amt_is_zero a' then Inr amount_zero else Inr a'))"

section \<open>The comparison computes on values\<close>

lemma cmp_chars_value:
  assumes "length xs = length ys" "list_all is_digit xs" "list_all is_digit ys"
  shows "cmp_chars xs ys = cmp_of (digits_val xs) (digits_val ys)"
  using assms
proof (induction xs ys rule: list_induct2)
  case Nil
  then show ?case by (simp add: cmp_of_def)
next
  case (Cons x xs y ys)
  let ?w = "(10::nat) ^ length ys"
  have lt: "digits_val xs < ?w" "digits_val ys < ?w"
    using Cons.prems Cons.hyps digits_val_less [of xs] digits_val_less [of ys] by simp_all
  have step: "digit_val a < digit_val b \<Longrightarrow> p < ?w \<Longrightarrow>
      digit_val a * ?w + p < digit_val b * ?w + q" for a b and p q :: nat
  proof -
    assume "digit_val a < digit_val b" and p: "p < ?w"
    then have "(digit_val a + 1) * ?w \<le> digit_val b * ?w" by (intro mult_right_mono) simp_all
    with p show "digit_val a * ?w + p < digit_val b * ?w + q" by simp
  qed
  have ord: "x < y \<longleftrightarrow> digit_val x < digit_val y" "y < x \<longleftrightarrow> digit_val y < digit_val x"
    using Cons.prems by (auto simp: is_digit_def digit_val_def less_char_def)
  have eq: "\<not> x < y \<Longrightarrow> \<not> y < x \<Longrightarrow> x = y" by simp
  show ?case
    using Cons.IH Cons.prems Cons.hyps lt ord eq step [of x y "digits_val xs" "digits_val ys"]
      step [of y x "digits_val ys" "digits_val xs"]
    by (auto simp: digits_val_Cons cmp_of_def split: if_splits)
qed

lemma cmp_of_mono: "0 < c \<Longrightarrow> cmp_of (a * c) (b * c) = cmp_of a (b :: nat)"
  by (simp add: cmp_of_def)

lemma cmp_of_int: "cmp_of (int a) (int b) = cmp_of a b"
  by (simp add: cmp_of_def)

lemma cmp_of_less: "a < b \<Longrightarrow> cmp_of a b = Less" and cmp_of_greater: "b < a \<Longrightarrow> cmp_of a b = Greater"
  by (auto simp: cmp_of_def)

text \<open>
  The heart of \<open>cmp_with!\<close>: numbers of different total digit counts are ordered by the
  counts; with equal counts the shorter unit is padded with zeros.
\<close>

lemma dec_length_order:
  assumes "0 < v1" "0 < v2" "u1 + length (dec v1) < u2 + length (dec v2)"
  shows "v1 * 10 ^ u1 < v2 * 10 ^ u2"
proof -
  have l2: "length (dec v2) > 0" by simp
  have "v1 * 10 ^ u1 < 10 ^ length (dec v1) * 10 ^ u1" using dec_upper [of v1] by simp
  also have "\<dots> = 10 ^ (u1 + length (dec v1))" by (simp add: power_add)
  also have "\<dots> \<le> 10 ^ (u2 + (length (dec v2) - 1))"
    using assms(3) l2 by (intro power_increasing) linarith+
  also have "\<dots> = 10 ^ (length (dec v2) - 1) * 10 ^ u2" by (simp add: power_add)
  also have "\<dots> \<le> v2 * 10 ^ u2" using dec_lower [OF assms(2)] by simp
  finally show ?thesis .
qed

lemma cmp_padded:
  assumes "u1 + length (dec v1) = u2 + length (dec v2)" "u2 \<le> u1" "0 < v1"
  shows "cmp_chars (dec v1 @ replicate (u1 - u2) (CHR ''0'')) (dec v2) = cmp_of (v1 * 10 ^ u1) (v2 * 10 ^ u2)"
    "cmp_chars (dec v2) (dec v1 @ replicate (u1 - u2) (CHR ''0'')) = cmp_of (v2 * 10 ^ u2) (v1 * 10 ^ u1)"
proof -
  have d: "dec v1 @ replicate (u1 - u2) (CHR ''0'') = dec (v1 * 10 ^ (u1 - u2))"
    by (simp add: dec_mult_pow assms(3))
  have len: "length (dec (v1 * 10 ^ (u1 - u2))) = length (dec v2)"
    using assms(1,2) by (simp flip: d)
  have p: "v1 * 10 ^ u1 = v1 * 10 ^ (u1 - u2) * 10 ^ u2"
    using assms(2) by (simp add: mult.assoc flip: power_add)
  show "cmp_chars (dec v1 @ replicate (u1 - u2) (CHR ''0'')) (dec v2) = cmp_of (v1 * 10 ^ u1) (v2 * 10 ^ u2)"
    "cmp_chars (dec v2) (dec v1 @ replicate (u1 - u2) (CHR ''0'')) = cmp_of (v2 * 10 ^ u2) (v1 * 10 ^ u1)"
    by (simp_all only: d p cmp_of_mono zero_less_power zero_less_numeral cmp_chars_value len dec_digits digits_val_dec)
qed

lemma cmp_with_value:
  assumes t1: "tail_u a = Inr v1" and t2: "tail_u b = Inr v2" and pos: "0 < v1" "0 < v2"
  shows "cmp_with tail_u a b = Inr (cmp_of (v1 * 10 ^ unit a) (v2 * 10 ^ unit b))"
proof -
  let ?l1 = "unit a + length (dec v1)" and ?l2 = "unit b + length (dec v2)"
  consider "?l1 > ?l2" | "?l1 < ?l2" | "?l1 = ?l2" by linarith
  then show ?thesis
  proof cases
    case 1
    with dec_length_order [OF pos(2,1) 1] show ?thesis
      by (simp add: cmp_with_def t1 t2 unwrapR_def Let_def cmp_of_greater)
  next
    case 2
    with dec_length_order [OF pos 2] show ?thesis
      by (simp add: cmp_with_def t1 t2 unwrapR_def Let_def cmp_of_less)
  next
    case 3
    consider "unit b < unit a" | "unit a < unit b" | "unit a = unit b" by linarith
    then show ?thesis
      using 3 cmp_padded(1) [of "unit a" v1 "unit b" v2] cmp_padded(2) [of "unit b" v2 "unit a" v1]
        cmp_padded(1) [of "unit a" v1 "unit a" v2] pos
      by cases (simp_all add: cmp_with_def t1 t2 unwrapR_def Let_def)
  qed
qed

lemma tail_u_value:
  "length (byte a) \<le> U64S \<Longrightarrow> tail_u64 a = Inr (be_nat (byte a))"
  "length (byte a) \<le> U128S \<Longrightarrow> tail_u128 a = Inr (be_nat (byte a))"
  by (simp_all add: tail_u64_def tail_u128_def)

text \<open>On well-formed amounts the comparison never panics and orders by value.\<close>

lemma amount_cmp_value:
  assumes "amt_wf a" "amt_wf b"
  shows "amount_cmp a b = Inr (cmp_of (to_bigint a) (to_bigint b))"
proof (cases "dist a < 0 \<or> dist b < 0")
  case True
  then show ?thesis by (simp add: amount_cmp_def cmp_mode_bigint_def)
next
  case False
  then have va: "to_bigint a = int (be_nat (byte a) * 10 ^ unit a)"
    and vb: "to_bigint b = int (be_nat (byte b) * 10 ^ unit b)"
    using assms by (simp_all add: wf_nonneg_value)
  have za: "amt_is_zero a \<longleftrightarrow> be_nat (byte a) = 0" and zb: "amt_is_zero b \<longleftrightarrow> be_nat (byte b) = 0"
    by (simp_all add: amt_is_zero_def be_nat_eq_0_iff)
  have ta: "tail_len a = length (byte a)" and tb: "tail_len b = length (byte b)"
    using assms by (simp_all add: amt_wf_def)
  show ?thesis
  proof (cases "amt_is_zero a \<or> amt_is_zero b")
    case True
    have eq: "amount_equal a b \<longrightarrow> to_bigint a = to_bigint b"
      by (auto simp: amount_equal_def to_bigint_alt amt_is_zero_def simp flip: be_nat_eq_0_iff)
    show ?thesis
    proof -
      obtain na nb where n: "to_bigint a = int na" "to_bigint b = int nb" using va vb by blast
      then have "amt_is_zero a \<longleftrightarrow> na = 0" "amt_is_zero b \<longleftrightarrow> nb = 0" by (simp_all add: amt_is_zero_iff)
      with True False eq n show ?thesis by (auto simp: amount_cmp_def Let_def cmp_of_def)
    qed
  next
    case nz: False
    show ?thesis
    proof (cases "amount_equal a b")
      case True
      with nz have "to_bigint a = to_bigint b" by (simp add: amount_equal_def to_bigint_alt)
      with True False show ?thesis by (simp add: amount_cmp_def cmp_of_def)
    next
      case neq: False
      have "0 < be_nat (byte a)" "0 < be_nat (byte b)" using nz by (simp_all add: za zb)
      then show ?thesis
        using False nz neq cmp_with_value [of tail_u64 a "be_nat (byte a)" b "be_nat (byte b)"]
          cmp_with_value [of tail_u128 a "be_nat (byte a)" b "be_nat (byte b)"]
        by (auto simp: amount_cmp_def Let_def ta tb tail_u_value cmp_mode_u64_def cmp_mode_u128_def
            cmp_mode_bigint_def va vb cmp_of_int simp del: of_nat_mult of_nat_power)
    qed
  qed
qed

lemma amount_lt_value: "amt_wf a \<Longrightarrow> amt_wf b \<Longrightarrow> amount_lt a b = Inr (to_bigint a < to_bigint b)"
  and amount_ge_value: "amt_wf a \<Longrightarrow> amt_wf b \<Longrightarrow> amount_ge a b = Inr (to_bigint b \<le> to_bigint a)"
  by (auto simp: amount_lt_def amount_ge_def amount_cmp_value cmp_of_def)

section \<open>Addition and subtraction compute on values\<close>

text \<open>An unsigned amount: what \<open>add_mode_*\<close> and \<open>sub_mode_*\<close> are called with.\<close>

definition amt_unsigned :: "amount \<Rightarrow> bool" where
  "amt_unsigned a \<longleftrightarrow> amt_wf a \<and> 0 \<le> dist a"

definition uval :: "amount \<Rightarrow> nat" where
  "uval a = be_nat (byte a) * 10 ^ unit a"

lemma to_bigint_uval: "amt_unsigned a \<Longrightarrow> to_bigint a = int (uval a)"
  by (simp only: amt_unsigned_def uval_def wf_nonneg_value)

lemma amt_unsigned_zero [simp]: "amt_unsigned amount_zero" "uval amount_zero = 0"
  by (simp_all add: amt_unsigned_def uval_def)

lemma amt_is_zero_uval: "amt_is_zero a \<longleftrightarrow> uval a = 0"
  by (simp add: amt_is_zero_def uval_def be_nat_eq_0_iff)

lemma coin_with_uval:
  assumes "v < 256 ^ n" "n \<le> 127" "u \<le> 255"
  shows "amt_unsigned (coin_with n v u)" "uval (coin_with n v u) = v * 10 ^ u" "amt_canonical (coin_with n v u)"
proof -
  show c: "amt_canonical (coin_with n v u)" by (rule coin_with_value(2) [OF assms])
  then show u: "amt_unsigned (coin_with n v u)"
    using coin_with_value(3) [OF assms] by (simp add: amt_unsigned_def amt_canonical_def)
  have "int (uval (coin_with n v u)) = int (v * 10 ^ u)"
    using to_bigint_uval [OF u] coin_with_value(1) [OF assms] by simp
  then show "uval (coin_with n v u) = v * 10 ^ u" by (simp only: of_nat_eq_iff)
qed

lemma scale_to_eq: "scale_to n k v = Inr w \<longleftrightarrow> 10 ^ k < (256::nat) ^ n \<and> v * 10 ^ k < 256 ^ n \<and> w = v * 10 ^ k"
  by (auto simp: scale_to_def checked_pow10_def checked_mul_def)

text \<open>Both mantissas at the smaller unit.\<close>

definition mant :: "nat \<Rightarrow> amount \<Rightarrow> nat" where
  "mant base a = be_nat (byte a) * 10 ^ (unit a - base)"

lemma uval_mant: "base \<le> unit a \<Longrightarrow> uval a = mant base a * 10 ^ base"
  by (simp add: uval_def mant_def mult.assoc flip: power_add)

definition fits :: "nat \<Rightarrow> amount \<Rightarrow> nat \<Rightarrow> bool" where
  "fits ts a base \<longleftrightarrow> length (byte a) \<le> ts \<and> (base < unit a \<longrightarrow> (10::nat) ^ (unit a - base) < 256 ^ ts) \<and> mant base a < 256 ^ ts"

text \<open>
  The whole of \<open>compute_mode\<close> for two non-zero amounts: it succeeds exactly when both
  mantissas fit the width at the common unit and the result does.
\<close>

lemma scaled_operand:
  assumes "length (byte a) \<le> ts"
  shows "(if unit a > base then scale_to ts (unit a - base) (be_nat (byte a)) else Inr (be_nat (byte a)))
     = (if fits ts a base then Inr (mant base a) else Inl rte_ovfl)"
proof -
  have "be_nat (byte a) < 256 ^ ts"
    using assms by (rule be_nat_less_le)
  then show ?thesis
    using assms by (auto simp: fits_def mant_def scale_to_def checked_pow10_def checked_mul_def)
qed

lemma compute_mode_nonzero:
  assumes a: "amt_unsigned a" and b: "amt_unsigned b" and nz: "\<not> amt_is_zero a" "\<not> amt_is_zero b"
  defines "base \<equiv> min (unit a) (unit b)"
  shows "compute_mode ts op a b =
    (if fits ts a base \<and> fits ts b base then
       (case (if op then checked_add ts (mant base a) (mant base b) else checked_sub (mant base a) (mant base b)) of
          None \<Rightarrow> Inl rte_ovfl | Some v \<Rightarrow> Inr (coin_with ts v base))
     else Inl rte_ovfl)"
proof (cases "length (byte a) \<le> ts \<and> length (byte b) \<le> ts")
  case True
  have t: "tail_len a = length (byte a)" "tail_len b = length (byte b)" "\<not> dist a < 0" "\<not> dist b < 0"
    using a b by (simp_all add: amt_unsigned_def amt_wf_def)
  define ra where "ra = (if unit a > base then scale_to ts (unit a - base) (be_nat (byte a)) else Inr (be_nat (byte a)))"
  define rb where "rb = (if unit b > base then scale_to ts (unit b - base) (be_nat (byte b)) else Inr (be_nat (byte b)))"
  have ra: "(if unit a > unit b then scale_to ts (nat \<bar>int (unit a) - int (unit b)\<bar>) (be_nat (byte a))
      else Inr (be_nat (byte a))) = ra"
    by (auto simp: ra_def base_def min_def nat_diff_distrib' intro!: arg_cong2 [where f = "scale_to ts"])
  have rb: "(if unit a < unit b then scale_to ts (nat \<bar>int (unit a) - int (unit b)\<bar>) (be_nat (byte b))
      else Inr (be_nat (byte b))) = rb"
    by (auto simp: rb_def base_def min_def intro!: arg_cong2 [where f = "scale_to ts"])
  have va: "ra = (if fits ts a base then Inr (mant base a) else Inl rte_ovfl)"
    and vb: "rb = (if fits ts b base then Inr (mant base b) else Inl rte_ovfl)"
    unfolding ra_def rb_def using True by (simp_all only: scaled_operand)
  have same: "unit a = unit b \<Longrightarrow> be_nat (byte a) = be_nat (byte b) \<Longrightarrow>
      fits ts a base \<and> fits ts b base \<and> checked_sub (mant base a) (mant base b) = Some 0"
    using True be_nat_less_le [of "byte b" ts]
    by (auto simp: fits_def mant_def base_def checked_sub_def)
  have z: "coin_with ts 0 base = amount_zero" by (simp add: coin_with_def)
  have "compute_mode ts op a b =
      (if unit a = unit b \<and> \<not> op \<and> be_nat (byte a) = be_nat (byte b) then Inr amount_zero
       else bindR ra (\<lambda>du. bindR rb (\<lambda>su.
         case (if op then checked_add ts du su else checked_sub du su) of
           None \<Rightarrow> Inl rte_ovfl | Some v \<Rightarrow> Inr (coin_with ts v base))))"
    using True nz by (simp add: compute_mode_def t Let_def ra rb flip: base_def)
  then show ?thesis using same z by (auto simp: va vb)
next
  case False
  then show ?thesis
    using a b nz by (auto simp: compute_mode_def amt_unsigned_def amt_wf_def fits_def)
qed

lemma min_unit_le: "amt_unsigned a \<Longrightarrow> min (unit a) (unit b) \<le> 255"
  by (auto simp: amt_unsigned_def amt_wf_def min_def)

lemma uval_min:
  "uval a = mant (min (unit a) (unit b)) a * 10 ^ min (unit a) (unit b)"
  "uval b = mant (min (unit a) (unit b)) b * 10 ^ min (unit a) (unit b)"
  by (rule uval_mant, simp)+

lemma fits_u: "fits ts a base \<Longrightarrow> mant base a < 256 ^ ts"
  by (simp add: fits_def)

lemma add_mode_ok:
  assumes a: "amt_unsigned a" and b: "amt_unsigned b" and ts: "ts \<le> 127"
    and c: "compute_mode ts True a b = Inr c"
  shows "amt_unsigned c \<and> uval c = uval a + uval b"
proof (cases "amt_is_zero a \<or> amt_is_zero b")
  case True
  with c a b show ?thesis
    by (auto simp: compute_mode_def amt_is_zero_uval amt_unsigned_def split: if_splits)
next
  case False
  let ?u = "min (unit a) (unit b)"
  from c False compute_mode_nonzero [OF a b, of ts True]
  have v: "mant ?u a + mant ?u b < 256 ^ ts" and c: "c = coin_with ts (mant ?u a + mant ?u b) ?u"
    by (auto simp: checked_add_def split: if_splits)
  have "uval c = (mant ?u a + mant ?u b) * 10 ^ ?u" "amt_unsigned c"
    unfolding c by (rule coin_with_uval [OF v ts min_unit_le [OF a]])+
  then show ?thesis using uval_min [where a = a and b = b] by (simp add: algebra_simps)
qed

lemma sub_mode_ok:
  assumes a: "amt_unsigned a" and b: "amt_unsigned b" and ts: "ts \<le> 127"
    and c: "compute_mode ts False a b = Inr c"
  shows "amt_unsigned c \<and> uval c + uval b = uval a"
proof (cases "amt_is_zero a \<or> amt_is_zero b")
  case True
  with c a b show ?thesis
    by (auto simp: compute_mode_def amt_is_zero_uval amt_unsigned_def split: if_splits)
next
  case False
  let ?u = "min (unit a) (unit b)"
  from c False compute_mode_nonzero [OF a b, of ts False]
  have le: "mant ?u b \<le> mant ?u a" and m: "mant ?u a < 256 ^ ts"
    and c: "c = coin_with ts (mant ?u a - mant ?u b) ?u"
    by (auto simp: checked_sub_def fits_def split: if_splits)
  then have v: "mant ?u a - mant ?u b < 256 ^ ts" by simp
  have "uval c = (mant ?u a - mant ?u b) * 10 ^ ?u" "amt_unsigned c"
    unfolding c by (rule coin_with_uval [OF v ts min_unit_le [OF a]])+
  moreover have "(mant ?u a - mant ?u b) * 10 ^ ?u + mant ?u b * 10 ^ ?u = mant ?u a * 10 ^ ?u"
    using le by (metis add_mult_distrib le_add_diff_inverse2)
  ultimately show ?thesis using uval_min [where a = a and b = b] by simp
qed

text \<open>Subtraction never yields a result when the second amount is the larger one.\<close>

lemma sub_mode_underflow:
  assumes "amt_unsigned a" "amt_unsigned b" "uval a < uval b"
  shows "compute_mode ts False a b = Inl rte_ovfl"
proof (cases "amt_is_zero a")
  case True
  moreover have "\<not> amt_is_zero b" using assms(3) by (simp add: amt_is_zero_uval)
  ultimately show ?thesis using assms by (auto simp: compute_mode_def amt_unsigned_def amt_wf_def)
next
  case False
  have "\<not> amt_is_zero b" using assms(3) by (simp add: amt_is_zero_uval)
  moreover have "mant (min (unit a) (unit b)) a < mant (min (unit a) (unit b)) b"
    using assms(3) uval_min [where a = a and b = b] by (metis mult_less_cancel2)
  ultimately show ?thesis
    using compute_mode_nonzero [OF assms(1,2) False, of ts False] by (simp add: checked_sub_def)
qed

lemma compute_mode_total_u128:
  assumes a: "amt_unsigned a" and b: "amt_unsigned b" and u: "unit a = unit b"
    and s: "be_nat (byte a) + be_nat (byte b) < 256 ^ ts" and l: "length (byte a) \<le> ts" "length (byte b) \<le> ts"
  shows "isOk (compute_mode ts True a b)"
proof (cases "amt_is_zero a \<or> amt_is_zero b")
  case True
  then show ?thesis using a b by (auto simp: compute_mode_def amt_unsigned_def)
next
  case False
  with compute_mode_nonzero [OF a b, of ts True] u s l show ?thesis
    by (simp add: fits_def mant_def checked_add_def)
qed

section \<open>Derived operations compute on values\<close>

lemma dist_mul_ok:
  assumes a: "amt_unsigned a" and r: "dist_mul a n = Inr c"
  shows "amt_unsigned c \<and> uval c = uval a * n"
proof (cases "amt_is_zero a")
  case True
  with r show ?thesis by (simp add: dist_mul_def amt_is_zero_uval)
next
  case False
  with r a have v: "be_nat (byte a) * n < 256 ^ U128S" and c: "c = coin_with U128S (be_nat (byte a) * n) (unit a)"
    by (auto simp: dist_mul_def amt_unsigned_def checked_mul_def coin_u128_def split: if_splits)
  have "unit a \<le> 255" using a by (simp add: amt_unsigned_def amt_wf_def)
  from coin_with_uval [OF v _ this] show ?thesis by (simp add: c U128S_def uval_def)
qed

lemma ratio_floor_ok:
  assumes a: "amt_wf a" "\<not> is_negative a" and r: "ratio_floor a n d = Inr c"
  shows "to_bigint c = to_bigint a * int n div int d"
  using assms from_bigint_ok(1)
  by (auto simp: ratio_floor_def amt_is_zero_iff split: if_splits)

lemma to_unit_biguint_eq:
  assumes "amt_unsigned a" shows "to_unit_biguint a base = Some (uval a div 10 ^ base)"
proof -
  have "\<not> is_negative a" using assms by (simp add: is_negative_def amt_unsigned_def)
  then show ?thesis
    by (simp add: to_unit_biguint_def to_biguint_def amt_is_zero_uval uval_def)
qed

lemma to_unit_u64_eq:
  assumes "amt_unsigned a"
  shows "to_unit_u64 base a = Inr v \<longleftrightarrow> v = uval a div 10 ^ base \<and> v < 2 ^ 64"
  by (auto simp: to_unit_u64_def to_unit_u128_def to_unit_biguint_eq [OF assms] not_less split: if_splits)

text \<open>
  \<open>compress\<close>: the result fits the wanted width; discarding rounds down and growing rounds up.
\<close>

lemma coin_bytes:
  assumes "v < 256 ^ n" "n \<le> 127" "u < 256"
  defines "b \<equiv> drop_left_zero (be_bytes n v)"
  shows "amt_unsigned \<lparr>unit = u, dist = int (length b), byte = b\<rparr>"
    "uval \<lparr>unit = u, dist = int (length b), byte = b\<rparr> = v * 10 ^ u" "length b \<le> n"
  using assms length_drop_left_zero [of "be_bytes n v"]
  by (simp_all add: amt_unsigned_def amt_wf_def tail_len_def uval_def)

lemma compress_loop_ok:
  "compress_loop btn cpr a = Inr c \<Longrightarrow> amt_unsigned a \<Longrightarrow> length (byte a) \<le> U128S \<Longrightarrow>
   amt_unsigned c \<and> length (byte c) \<le> btn \<and>
   (cpr = Discard \<longrightarrow> uval c \<le> uval a) \<and> (cpr = Grow \<longrightarrow> uval a \<le> uval c)"
proof (induction btn cpr a arbitrary: c rule: compress_loop.induct)
  case (1 btn cpr a)
  have tl: "tail_len a = length (byte a)" "unit a < 256" using "1.prems" by (simp_all add: amt_unsigned_def amt_wf_def)
  show ?case
  proof (cases "tail_len a > btn \<and> \<not> 255 \<le> unit a")
    case False
    with "1.prems" tl show ?thesis by (auto simp: compress_loop.simps [of btn cpr a] split: if_splits)
  next
    case True
    let ?v = "be_nat (byte a)"
    define w where "w = ?v div 10 + (if cpr = Grow then 1 else 0)"
    define b where "b = drop_left_zero (be_bytes U128S w)"
    let ?a = "\<lparr>unit = unit a + 1, dist = int (length b), byte = b\<rparr>"
    have vl: "?v < 256 ^ U128S" using "1.prems"(3) by (rule be_nat_less_le)
    then have w: "w < 256 ^ U128S" by (auto simp: w_def U128S_def)
    have nx: "compress_loop btn cpr ?a = Inr c"
      using True "1.prems" by (simp add: compress_loop.simps [of btn cpr a] Let_def w_def b_def)
    have av: "amt_unsigned ?a" "uval ?a = w * 10 ^ (unit a + 1)" "length (byte ?a) \<le> U128S"
      using coin_bytes [OF w, of "unit a + 1"] True tl by (simp_all add: b_def U128S_def)
    have IH: "amt_unsigned c \<and> length (byte c) \<le> btn \<and>
        (cpr = Discard \<longrightarrow> uval c \<le> uval ?a) \<and> (cpr = Grow \<longrightarrow> uval ?a \<le> uval c)"
    proof (rule "1.IH")
      show "tail_len a > btn" "\<not> 255 \<le> unit a" using True by auto
      show "padded_uint (byte a) U128S = Inr ?v" using "1.prems"(3) by simp
    qed (use nx av in \<open>simp_all add: w_def b_def\<close>)
    have "w * 10 \<le> ?v" if "cpr = Discard" using that by (simp add: w_def)
    moreover have "?v \<le> w * 10" if "cpr = Grow" using that by (simp add: w_def)
    moreover have "uval ?a = w * 10 * 10 ^ unit a" using av by simp
    ultimately have "(cpr = Discard \<longrightarrow> uval ?a \<le> uval a) \<and> (cpr = Grow \<longrightarrow> uval a \<le> uval ?a)"
      by (auto simp: uval_def)
    with IH show ?thesis by auto
  qed
qed

section \<open>Properties\<close>

text \<open>C2: The comparison of amounts, which works on decimal digit strings of at most 128-bit
  mantissas and falls back to big integers, never panics on well-formed amounts and orders them
  exactly as their values, whatever units and encodings they use.\<close>
theorem amount_cmp_refines_value:
  assumes "amt_wf a" "amt_wf b"
  shows "amount_cmp a b = Inr (cmp_of (to_bigint a) (to_bigint b))"
  by (rule amount_cmp_value [OF assms])

theorem amount_cmp_refines_value_witness:
  "amount_cmp \<lparr>unit = 248, dist = 1, byte = [3]\<rparr> \<lparr>unit = 246, dist = 2, byte = [1, 45]\<rparr>
     = Inr (cmp_of (to_bigint \<lparr>unit = 248, dist = 1, byte = [3]\<rparr>)
                   (to_bigint \<lparr>unit = 246, dist = 2, byte = [1, 45]\<rparr>))"
  by (rule amount_cmp_refines_value) (simp_all add: amt_wf_def tail_len_def)

text \<open>C3: The fixed-width additions and subtractions of unsigned amounts are exact: a result
  returned in either width has the value of the sum or the difference, and a difference is
  returned only when it is not negative.\<close>
theorem fixed_width_arith_exact:
  assumes "amt_unsigned a" "amt_unsigned b"
  shows "(add_mode_u64 a b = Inr c \<or> add_mode_u128 a b = Inr c \<longrightarrow> amt_unsigned c \<and> uval c = uval a + uval b) \<and>
    (sub_mode_u64 a b = Inr c \<or> sub_mode_u128 a b = Inr c \<longrightarrow> amt_unsigned c \<and> uval c + uval b = uval a)"
  using add_mode_ok [OF assms, of U64S c] add_mode_ok [OF assms, of U128S c]
    sub_mode_ok [OF assms, of U64S c] sub_mode_ok [OF assms, of U128S c]
  by (auto simp: add_mode_u64_def add_mode_u128_def sub_mode_u64_def sub_mode_u128_def U64S_def U128S_def)

lemmas amount_compute_simps = compute_mode_def coin_with_def coin_loop.simps amt_is_zero_def
  bytes_is_zero_def bytes_not_zero_def tail_len_def be_nat_Cons be_bytes_numeral scale_to_def checked_pow10_def
  checked_mul_def checked_sub_def checked_add_def U64S_def U128S_def Let_def

lemma amt_unsigned_samples:
  "amt_unsigned \<lparr>unit = 248, dist = 1, byte = [3]\<rparr>" "amt_unsigned \<lparr>unit = 246, dist = 1, byte = [45]\<rparr>"
  by (simp_all add: amt_unsigned_def amt_wf_def tail_len_def)

theorem fixed_width_arith_exact_witness:
  "sub_mode_u64 \<lparr>unit = 248, dist = 1, byte = [3]\<rparr> \<lparr>unit = 246, dist = 1, byte = [45]\<rparr>
      = Inr \<lparr>unit = 246, dist = 1, byte = [255]\<rparr> \<and>
   uval \<lparr>unit = 246, dist = 1, byte = [255]\<rparr> + uval \<lparr>unit = 246, dist = 1, byte = [45]\<rparr>
      = uval \<lparr>unit = 248, dist = 1, byte = [3]\<rparr>"
proof -
  have e: "sub_mode_u64 \<lparr>unit = 248, dist = 1, byte = [3]\<rparr> \<lparr>unit = 246, dist = 1, byte = [45]\<rparr>
      = Inr \<lparr>unit = 246, dist = 1, byte = [255]\<rparr>"
    by (simp add: amount_compute_simps sub_mode_u64_def)
  then show ?thesis using fixed_width_arith_exact [OF amt_unsigned_samples] by blast
qed

text \<open>\<open>compress\<close> of an unsigned amount yields an unsigned amount of at most the wanted
  number of bytes; discarding never increases the value, growing never decreases it.\<close>
theorem compress_bounds:
  assumes "amt_unsigned a" "compress a btn cpr = Inr c"
  shows "amt_unsigned c \<and> length (byte c) \<le> btn \<and>
    (cpr = Discard \<longrightarrow> uval c \<le> uval a) \<and> (cpr = Grow \<longrightarrow> uval a \<le> uval c)"
proof -
  obtain a' where a': "compress_loop btn cpr a = Inr a'"
    using assms(2) by (cases "compress_loop btn cpr a") (auto simp: compress_def split: if_splits)
  have len: "tail_len a \<le> U128S" and c: "c = (if amt_is_zero a' then amount_zero else a')"
    using assms(2) a' by (auto simp: compress_def split: if_splits)
  have "length (byte a) \<le> U128S" using assms(1) len by (simp add: amt_unsigned_def amt_wf_def)
  from compress_loop_ok [OF a' assms(1) this] c show ?thesis by (auto simp: amt_is_zero_uval)
qed

lemma compress_sample:
  "compress \<lparr>unit = 240, dist = 2, byte = [48, 58]\<rparr> 1 Grow = Inr \<lparr>unit = 242, dist = 1, byte = [124]\<rparr>"
  by (simp add: amount_compute_simps compress_def compress_loop.simps cong: let_weak_cong)

theorem compress_bounds_witness:
  "amt_unsigned \<lparr>unit = 242, dist = 1, byte = [124]\<rparr> \<and> length (byte \<lparr>unit = 242, dist = 1, byte = [124]\<rparr>) \<le> 1 \<and>
    uval \<lparr>unit = 240, dist = 2, byte = [48, 58]\<rparr> \<le> uval \<lparr>unit = 242, dist = 1, byte = [124]\<rparr>"
  using compress_bounds [OF _ compress_sample] by (simp add: amt_unsigned_def amt_wf_def tail_len_def)

lemma compute_mode_canonical:
  assumes "amt_unsigned a" "amt_unsigned b" "amt_canonical a" "amt_canonical b" "ts \<le> 127" "compute_mode ts op a b = Inr c"
  shows "amt_canonical c"
proof (cases "amt_is_zero a \<or> amt_is_zero b")
  case True
  moreover have "amt_canonical amount_zero" by (simp add: amt_canonical_def)
  ultimately show ?thesis using assms by (auto simp: compute_mode_def split: if_splits)
next
  case False
  let ?u = "min (unit a) (unit b)"
  have nz: "\<not> amt_is_zero a" "\<not> amt_is_zero b" using False by auto
  have fit: "fits ts a ?u"
    and f: "(case (if op then checked_add ts (mant ?u a) (mant ?u b) else checked_sub (mant ?u a) (mant ?u b)) of
          None \<Rightarrow> Inl rte_ovfl | Some v \<Rightarrow> Inr (coin_with ts v ?u)) = Inr c"
    using assms(6) compute_mode_nonzero [OF assms(1,2) nz, of ts op] by (auto split: if_splits)
  have "v < 256 ^ ts \<or> v \<le> mant ?u a"
    if "(if op then checked_add ts (mant ?u a) (mant ?u b) else checked_sub (mant ?u a) (mant ?u b)) = Some v" for v
    using that by (auto simp: checked_add_def checked_sub_def split: if_splits)
  then have "\<exists>v. (v < 256 ^ ts \<or> v \<le> mant ?u a) \<and> c = coin_with ts v ?u"
    using f by (cases "if op then checked_add ts (mant ?u a) (mant ?u b) else checked_sub (mant ?u a) (mant ?u b)") auto
  moreover have "mant ?u a < 256 ^ ts" using fit by (simp add: fits_def)
  ultimately have "\<exists>v < 256 ^ ts. c = coin_with ts v ?u" using le_less_trans by blast
  then show ?thesis using coin_with_uval(3) [OF _ assms(5) min_unit_le [OF assms(1)]] by auto
qed

text \<open>The operators of the order on unsigned amounts, by value.\<close>

lemma amount_lt_uval:
  assumes "amt_unsigned a" "amt_unsigned b"
  shows "amount_lt a b = Inr (uval a < uval b)" "amount_ge a b = Inr (uval b \<le> uval a)"
  using assms amount_cmp_value [of a b] to_bigint_uval [of a] to_bigint_uval [of b]
  by (auto simp: amount_lt_def amount_ge_def amt_unsigned_def cmp_of_def)

end
