(* ===== verification/AmountText.thy ===== *)
theory AmountText
  imports AmountArith
begin

text \<open>
  \<^verbatim>\<open>field/src/core/amount.rs\<close>, the text forms: \<open>to_fin_string\<close> prints
  \<open>mantissa:unit\<close>, \<open>from\<close> reads that form or a decimal number of mei. A Rust string
  is a list of \<open>char\<close>, that is, the scalar values up to U+00FF.
\<close>

section \<open>Printing\<close>

definition sign :: "amount \<Rightarrow> string" where
  "sign a = (if dist a < 0 then ''-'' else [])"

definition to_string_part :: "amount \<Rightarrow> (string \<times> string \<times> string) ret" where
  "to_string_part a =
     (let blen = tail_len a in
      bindR (if blen > U128S then Inr (dec (be_nat (byte a)))
             else if blen > U64S then bindR (padded_uint (byte a) U128S) (\<lambda>v. Inr (dec v))
             else bindR (padded_uint (byte a) U64S) (\<lambda>v. Inr (dec v)))
        (\<lambda>s2. Inr (sign a, s2, dec (unit a))))"

definition to_fin_string :: "amount \<Rightarrow> string ret" where
  "to_fin_string a = bindR (to_string_part a) (\<lambda>(p, s, u). Inr (p @ s @ '':'' @ u))"

section \<open>Reading\<close>

definition FROM_CHARS :: string where
  "FROM_CHARS = ''0123456789-.:''"

text \<open>The White_Space characters up to U+00FF.\<close>

definition is_space :: "char \<Rightarrow> bool" where
  "is_space c = (let n = of_char c :: nat in 9 \<le> n \<and> n \<le> 13 \<or> n = 32 \<or> n = 133 \<or> n = 160)"

definition trim :: "string \<Rightarrow> string" where
  "trim s = rev (dropWhile is_space (rev (dropWhile is_space s)))"

definition from_fin :: "string \<Rightarrow> amount ret" where
  "from_fin v =
     (case split_on (CHR '':'') v of
        [m, us] \<Rightarrow>
          (case parse_digits us of
             None \<Rightarrow> Inl (Fault ''amount unit format invalid or overflow'')
           | Some u \<Rightarrow>
             if u > 255 then Inl (Fault ''amount unit format invalid or overflow'')
             else case parse_int m of
               None \<Rightarrow> Inl (Fault ''amount overflow BigInt::from_str_radix'')
             | Some n \<Rightarrow>
               if - (2 ^ 127) \<le> n \<and> n < 2 ^ 127 then
                 (if n = - (2 ^ 127) then Inl (Fault ''amount overflow'')
                  else let amt = coin_u128 (nat \<bar>n\<bar>) u
                       in Inr (if n < 0 then amt\<lparr>dist := - dist amt\<rparr> else amt))
               else from_bigint (n * 10 ^ u))
      | _ \<Rightarrow> Inl (Fault ''amount amt format invalid or overflow''))"

definition from_mei :: "string \<Rightarrow> amount ret" where
  "from_mei v0 =
     (let e = Inl (Fault ''amount value format invalid or overflow''); v = trim v0 in
      if v = [] then e
      else let (negative, digits) = (case v of c # rest \<Rightarrow> if c = CHR ''-'' then (True, rest) else (False, v)
                                     | [] \<Rightarrow> (False, v));
               parts = split_on (CHR ''.'') digits in
        if length parts > 2 then e
        else let int_part = parts ! 0; frac_part = (if length parts = 2 then parts ! 1 else []) in
          if int_part = [] \<and> frac_part = [] then e
          else if \<not> list_all is_digit int_part \<or> \<not> list_all is_digit frac_part then e
          else let frac_trimmed = trim_end_zeros frac_part; frac_len = length frac_trimmed in
            if frac_len > UNIT_MEI then e
            else let u = UNIT_MEI - frac_len; digits = trim_start_zeros (int_part @ frac_trimmed) in
              if digits = [] then Inr amount_zero
              else case parse_int digits of
                None \<Rightarrow> e
              | Some bigv \<Rightarrow> from_bigint ((if negative then - bigv else bigv) * 10 ^ u))"

definition amount_from :: "string \<Rightarrow> amount ret" where
  "amount_from s =
     (let v = filter (\<lambda>c. c \<noteq> CHR '','') (trim s) in
      if \<not> list_all (\<lambda>c. c \<in> set FROM_CHARS) v then Inl (Fault ''amount unsupported characters'')
      else if CHR '':'' \<in> set v then from_fin v else from_mei v)"

section \<open>Reading back a printed amount\<close>

lemma split_on_no: "c \<notin> set s \<Longrightarrow> split_on c s = [s]"
  by (induction s) auto

lemma split_on_append: "c \<notin> set s \<Longrightarrow> split_on c (s @ c # t) = s # split_on c t"
  by (induction s) auto


definition plain_char :: "char \<Rightarrow> bool" where
  "plain_char c \<longleftrightarrow> c \<in> set FROM_CHARS \<and> c \<noteq> CHR '','' \<and> \<not> is_space c"

lemma dig_plain: "\<forall>n \<in> set [0..<10]. plain_char (dig n) \<and> dig n \<noteq> CHR '':'' \<and> dig n \<noteq> CHR ''.'' \<and> dig n \<noteq> CHR ''-''"
  by code_simp

lemma is_digit_plain: "is_digit c \<Longrightarrow> plain_char c \<and> c \<noteq> CHR '':'' \<and> c \<noteq> CHR ''.'' \<and> c \<noteq> CHR ''-''"
proof -
  assume "is_digit c"
  then have n: "of_char c - 48 < (10::nat)" "48 + (of_char c - 48) = (of_char c :: nat)"
    by (auto simp: is_digit_def)
  then have "c = dig (of_char c - 48)" by (metis char_of_char dig_def)
  then show ?thesis using dig_plain n(1) by (metis atLeastLessThan_iff le0 set_upt)
qed

lemma plain_specials: "plain_char (CHR '':'')" "plain_char (CHR ''-'')"
  by code_simp+

lemma dec_plain: "list_all plain_char (dec n)" "CHR '':'' \<notin> set (dec n)"
proof -
  have "\<forall>c \<in> set (dec n). is_digit c" using dec_digits [of n] by (simp add: list_all_iff)
  then show "list_all plain_char (dec n)" "CHR '':'' \<notin> set (dec n)"
    using is_digit_plain by (auto simp: list_all_iff)
qed

lemma trim_plain: "list_all plain_char s \<Longrightarrow> trim s = s"
proof -
  assume p: "list_all plain_char s"
  have d: "dropWhile is_space xs = xs" if "\<forall>c \<in> set xs. \<not> is_space c" for xs
    using that by (cases xs) auto
  have "\<forall>c \<in> set s. \<not> is_space c" using p by (auto simp: list_all_iff plain_char_def)
  then show ?thesis by (simp add: trim_def d)
qed

lemma amount_from_plain:
  assumes "list_all plain_char s" "CHR '':'' \<in> set s"
  shows "amount_from s = from_fin s"
proof -
  have "filter (\<lambda>c. c \<noteq> CHR '','') s = s"
    using assms(1) by (auto simp: list_all_iff plain_char_def intro: filter_True)
  moreover have "list_all (\<lambda>c. c \<in> set FROM_CHARS) s"
    using assms(1) by (auto simp: list_all_iff plain_char_def)
  ultimately show ?thesis using assms by (simp add: amount_from_def Let_def trim_plain)
qed

lemma to_fin_string_wf:
  assumes "amt_wf a"
  shows "to_fin_string a = Inr (sign a @ dec (be_nat (byte a)) @ CHR '':'' # dec (unit a))"
  using assms by (auto simp: to_fin_string_def to_string_part_def Let_def amt_wf_def)

lemma from_fin_parts:
  assumes "CHR '':'' \<notin> set m" "parse_int m = Some n" "u \<le> 255"
  shows "from_fin (m @ CHR '':'' # dec u) =
    (if - (2 ^ 127) \<le> n \<and> n < 2 ^ 127 then
       (if n = - (2 ^ 127) then Inl (Fault ''amount overflow'')
        else let amt = coin_u128 (nat \<bar>n\<bar>) u in Inr (if n < 0 then amt\<lparr>dist := - dist amt\<rparr> else amt))
     else from_bigint (n * 10 ^ u))"
proof -
  have s: "split_on (CHR '':'') (m @ CHR '':'' # dec u) = [m, dec u]"
    using assms(1) dec_plain(2) [of u] by (simp add: split_on_append split_on_no)
  show ?thesis unfolding from_fin_def s using assms by simp
qed

text \<open>Scaling a mantissa of at most 127 bytes never makes \<open>from_bigint\<close> fail.\<close>

lemma from_bigint_scaled:
  assumes "\<bar>n\<bar> < 256 ^ 127" "u \<le> 255"
  shows "\<exists>b. from_bigint (n * 10 ^ u) = Inr b"
proof (cases "n = 0")
  case False
  then obtain m k where mk: "\<bar>n\<bar> = int (m * 10 ^ k)" "m mod 10 \<noteq> 0" "0 < m" using int_strip_tens by blast
  then have mk': "\<bar>n * 10 ^ u\<bar> = int (m * 10 ^ (k + u))" by (simp add: abs_mult power_add)
  have "int (m * 10 ^ k) < int (256 ^ 127)" using assms(1) mk(1) by (simp only: of_nat_power of_nat_numeral)
  then have b: "m * 10 ^ k < 256 ^ 127" by (simp only: of_nat_less_iff)
  have "k + u - min (k + u) 255 \<le> k" using assms(2) by auto
  then have "m * 10 ^ (k + u - min (k + u) 255) \<le> m * 10 ^ k"
    by (intro mult_left_mono power_increasing) simp_all
  then have "m * 10 ^ (k + u - min (k + u) 255) < 256 ^ 127" using b by (rule le_less_trans)
  then have "length (nat_bytes (m * 10 ^ (k + u - min (k + u) 255))) \<le> 127"
    using mk(3) by (intro length_nat_bytes_le) simp_all
  then show ?thesis by (simp add: from_bigint_nat [OF mk' mk(2,3)] not_less)
qed simp

lemma to_bigint_negate:
  assumes "0 \<le> dist a" "amt_wf a"
  shows "to_bigint (a\<lparr>dist := - dist a\<rparr>) = - to_bigint a" "amt_canonical a \<Longrightarrow> amt_canonical (a\<lparr>dist := - dist a\<rparr>)"
  using assms by (cases "dist a = 0"; auto simp: to_bigint_alt amt_wf_def amt_canonical_def tail_len_def)+

lemma coin_u128_value:
  assumes "v < 2 ^ 127" "u \<le> 255"
  shows "to_bigint (coin_u128 v u) = int (v * 10 ^ u)" "amt_canonical (coin_u128 v u)" "0 \<le> dist (coin_u128 v u)"
proof -
  have "(2::nat) ^ 127 \<le> 256 ^ U128S" by (simp add: U128S_def)
  with assms(1) have "v < 256 ^ U128S" by linarith
  from coin_with_value [OF this _ assms(2)]
  show "to_bigint (coin_u128 v u) = int (v * 10 ^ u)" "amt_canonical (coin_u128 v u)" "0 \<le> dist (coin_u128 v u)"
    by (simp_all add: coin_u128_def U128S_def)
qed

lemma from_fin_value:
  assumes "CHR '':'' \<notin> set m" "parse_int m = Some n" "u \<le> 255" "n \<noteq> - (2 ^ 127)" "\<bar>n\<bar> < 256 ^ 127"
  shows "\<exists>b. from_fin (m @ CHR '':'' # dec u) = Inr b \<and> to_bigint b = n * 10 ^ u \<and> amt_canonical b"
proof (cases "- (2 ^ 127) \<le> n \<and> n < 2 ^ 127")
  case True
  with assms(4) have "\<bar>n\<bar> < 2 ^ 127" by auto
  then have "nat \<bar>n\<bar> < 2 ^ 127" by (simp add: nat_less_iff)
  note c = coin_u128_value [OF this assms(3)]
  then have wf: "amt_wf (coin_u128 (nat \<bar>n\<bar>) u)" by (simp add: amt_canonical_def)
  show ?thesis
    using True assms(4) c to_bigint_negate [OF c(3) wf]
    by (cases "n < 0") (simp_all add: from_fin_parts [OF assms(1-3)] Let_def)
next
  case False
  obtain b where "from_bigint (n * 10 ^ u) = Inr b" using from_bigint_scaled [OF assms(5,3)] by blast
  with from_bigint_ok [OF this] show ?thesis using False assms(4)
    by (simp only: from_fin_parts [OF assms(1-3)] if_not_P) auto
qed

text \<open>C4: Printing a well-formed amount in fin form never fails, and reading the text back
  gives a canonical amount of the same value; the one exception is the mantissa \<open>- 2 ^ 127\<close>,
  which \<open>from_fin\<close> refuses (\<open>v == i128::MIN\<close>).\<close>
theorem fin_string_roundtrip:
  assumes "amt_wf a" "\<not> (dist a < 0 \<and> be_nat (byte a) = 2 ^ 127)"
  shows "\<exists>s b. to_fin_string a = Inr s \<and> amount_from s = Inr b \<and> to_bigint b = to_bigint a \<and> amt_canonical b"
proof -
  let ?m = "be_nat (byte a)"
  define n where "n = (if dist a < 0 then - int ?m else int ?m)"
  let ?s = "sign a @ dec ?m @ CHR '':'' # dec (unit a)"
  have wf: "unit a \<le> 255" "length (byte a) \<le> 127" using assms(1) by (simp_all add: amt_wf_def)
  have "?m < 256 ^ 127" by (rule be_nat_less_le [OF wf(2)])
  then have "int ?m < int (256 ^ 127)" by (simp only: of_nat_less_iff)
  then have n: "\<bar>n\<bar> < 256 ^ 127" by (simp add: n_def)
  have mn: "n \<noteq> - (2 ^ 127)"
  proof
    assume "n = - (2 ^ 127)"
    then have "dist a < 0" "int ?m = int (2 ^ 127)" by (auto simp: n_def split: if_splits)
    with assms(2) show False by (simp only: of_nat_eq_iff) simp
  qed
  have col: "CHR '':'' \<notin> set (sign a @ dec ?m)" using dec_plain(2) by (auto simp: sign_def)
  have pl: "list_all plain_char ?s"
    using dec_plain(1) plain_specials by (simp add: sign_def)
  have "parse_int (sign a @ dec ?m) = Some n"
    by (auto simp: sign_def n_def parse_int_def [of "_ # _"])
  from from_fin_value [OF col this wf(1) mn n] obtain b
    where b: "from_fin ?s = Inr b" "to_bigint b = n * 10 ^ unit a" "amt_canonical b" by auto
  have "to_bigint a = n * 10 ^ unit a"
    using assms(1) by (cases "dist a = 0") (auto simp: to_bigint_alt n_def amt_wf_def tail_len_def)
  moreover have "amount_from ?s = Inr b" using amount_from_plain [OF pl] b(1) by simp
  ultimately show ?thesis using to_fin_string_wf [OF assms(1)] b by auto
qed

theorem fin_string_roundtrip_witness:
  "\<exists>s b. to_fin_string \<lparr>unit = 248, dist = -2, byte = [1, 44]\<rparr> = Inr s \<and> amount_from s = Inr b \<and>
     to_bigint b = to_bigint \<lparr>unit = 248, dist = -2, byte = [1, 44]\<rparr> \<and> amt_canonical b"
  by (rule fin_string_roundtrip) (simp_all add: amt_wf_def tail_len_def be_nat_Cons)

end
