(* ===== verification/Difficulty.thy ===== *)
theory Difficulty
  imports Prelude
begin

text \<open>
  \<^verbatim>\<open>basis/src/difficulty/util.rs\<close>: the 32-bit compact form of a proof-of-work
  target, its 256-bit hash and its integer (\<open>BigUint\<close>, here \<open>nat\<close>). A compact number
  holds 255 minus the count of leading zero bits in its first byte and the 24 bits that follow
  the leading zeros in the other three. The code works on vectors of bits, one byte per bit;
  so does the model. The lemmas give each conversion a closed form on integers.
\<close>

section \<open>Bits\<close>

definition HXS :: nat where "HXS = 32"
definition BITS :: nat where "BITS = HXS * 8"
definition LOWEST_DIFFICULTY :: u32 where "LOWEST_DIFFICULTY = 4294967294"

definition byte_to_bits :: "u8 \<Rightarrow> u8 list" where
  "byte_to_bits b = [drop_bit 7 b AND 1, drop_bit 6 b AND 1, drop_bit 5 b AND 1, drop_bit 4 b AND 1,
     drop_bit 3 b AND 1, drop_bit 2 b AND 1, drop_bit 1 b AND 1, drop_bit 0 b AND 1]"

definition bits_to_byte :: "u8 list \<Rightarrow> u8" where
  "bits_to_byte bits = 0 + 1 * bits ! 7 + 2 * bits ! 6 + 4 * bits ! 5 + 8 * bits ! 4 + 16 * bits ! 3
     + 32 * bits ! 2 + 64 * bits ! 1 + 128 * bits ! 0"

fun bytes_to_bits :: "u8 list \<Rightarrow> u8 list" where
  "bytes_to_bits [] = []"
| "bytes_to_bits (b # bs) = byte_to_bits b @ bytes_to_bits bs"

definition bits_to_bytes :: "u8 list \<Rightarrow> u8 list" where
  "bits_to_bytes bits = map (\<lambda>i. let x = i * 8 in bits_to_byte (take 8 (drop x bits))) [0..<HXS]"

fun left_zero :: "u8 list \<Rightarrow> nat" where
  "left_zero [] = 0"
| "left_zero (a # buf) = (if a > 0 then 0 else Suc (left_zero buf))"

section \<open>Conversions\<close>

definition hash_to_biguint :: "u8 list \<Rightarrow> nat" where
  "hash_to_biguint hx = be_nat hx"

text \<open>\<open>BigUint::to_bytes_be\<close>, the minimal big-endian digits, a single zero byte for zero.\<close>

definition to_bytes_be :: "nat \<Rightarrow> u8 list" where
  "to_bytes_be v = be_bytes (max 1 ((bit_len v + 7) div 8)) v"

definition biguint_to_hash :: "nat \<Rightarrow> u8 list" where
  "biguint_to_hash bn =
     (let res = to_bytes_be bn in
      if length res > HXS then replicate HXS 255 else replicate (HXS - length res) 0 @ res)"

definition u32_to_hash :: "u32 \<Rightarrow> u8 list" where
  "u32_to_hash num =
     (if num = 0 then replicate HXS 0
      else let numbts = be_bytes 4 (unat num);
               lzero = 255 - unat (numbts ! 0);
               bits2 = byte_to_bits (numbts ! 1) @ byte_to_bits (numbts ! 2) @ byte_to_bits (numbts ! 3);
               keep = min (BITS - lzero) (length bits2);
               bits = replicate lzero 0 @ take keep bits2
           in bits_to_bytes (bits @ replicate (BITS - length bits) 0))"

definition hash_to_u32 :: "u8 list \<Rightarrow> u32" where
  "hash_to_u32 hx =
     (let bits = bytes_to_bits hx; lzero = left_zero bits in
      if lzero \<ge> BITS then 0
      else let body = take 24 (drop lzero bits);
               body = body @ replicate (24 - length body) 1;
               reshx = bits_to_bytes (body @ replicate (BITS - 24) 0)
           in word_of_nat (be_nat [255 - word_of_nat lzero, reshx ! 0, reshx ! 1, reshx ! 2]))"

definition biguint_to_u32 :: "nat \<Rightarrow> u32" where
  "biguint_to_u32 bn = hash_to_u32 (biguint_to_hash bn)"

definition u32_to_biguint :: "u32 \<Rightarrow> nat" where
  "u32_to_biguint num = hash_to_biguint (u32_to_hash num)"

fun hash_bigger_than :: "u8 list \<Rightarrow> u8 list \<Rightarrow> bool" where
  "hash_bigger_than (s # src) (t # tar) = (if s > t then True else if s < t then False else hash_bigger_than src tar)"
| "hash_bigger_than _ _ = False"

record difficulty_target =
  num :: u32
  hash :: "u8 list"
  big :: nat

definition target_from_num :: "u32 \<Rightarrow> difficulty_target" where
  "target_from_num n = \<lparr>num = n, hash = u32_to_hash n, big = u32_to_biguint n\<rparr>"

definition target_from_big :: "nat \<Rightarrow> difficulty_target" where
  "target_from_big b = (let h = biguint_to_hash b in \<lparr>num = hash_to_u32 h, hash = h, big = b\<rparr>)"

definition scale_target_by_ratio :: "nat \<Rightarrow> nat \<Rightarrow> nat \<Rightarrow> nat ret" where
  "scale_target_by_ratio base observed expected =
     (if expected = 0 then Inl (Panic ''attempt to divide by zero'') else Inr (base * observed div expected))"

definition clamp_target_half_double :: "nat \<Rightarrow> nat \<Rightarrow> nat" where
  "clamp_target_half_double prev nxt =
     (let min_target = prev div 2; max_target = prev * 2 in
      if nxt < min_target then min_target else if nxt > max_target then max_target else nxt)"

definition scaled_target_hash :: "u32 \<Rightarrow> u64 \<Rightarrow> u8 list" where
  "scaled_target_hash diff scale = biguint_to_hash (u32_to_biguint diff * unat scale)"

section \<open>The value of a bit vector\<close>

definition bits_val :: "u8 list \<Rightarrow> nat" where
  "bits_val bs = foldl (\<lambda>a b. a * 2 + unat b) 0 bs"

definition is_bits :: "u8 list \<Rightarrow> bool" where
  "is_bits bs = list_all (\<lambda>b. b = 0 \<or> b = 1) bs"

lemma foldl_bits: "foldl (\<lambda>a b. a * 2 + unat (b :: u8)) a bs = a * 2 ^ length bs + bits_val bs"
proof (induction bs arbitrary: a)
  case Nil
  then show ?case by (simp add: bits_val_def)
next
  case (Cons b bs)
  have "bits_val (b # bs) = unat b * 2 ^ length bs + bits_val bs"
    using Cons.IH [of "unat b"] by (simp add: bits_val_def)
  then show ?case using Cons.IH [of "a * 2 + unat b"] by (simp add: algebra_simps)
qed

named_theorems bits_simps \<open>values and lengths of bit vectors\<close>

lemma bits_val_Nil [simp, bits_simps]: "bits_val [] = 0"
  by (simp add: bits_val_def)

lemma bits_val_Cons [bits_simps]: "bits_val (b # bs) = unat b * 2 ^ length bs + bits_val bs"
  using foldl_bits [of "unat b" bs] by (simp add: bits_val_def)

lemma bits_val_append [bits_simps]: "bits_val (xs @ ys) = bits_val xs * 2 ^ length ys + bits_val ys"
  using foldl_bits [of "bits_val xs" ys] by (simp add: bits_val_def)

lemma bits_val_zeros [simp, bits_simps]: "bits_val (replicate n 0) = 0"
  by (induction n) (simp_all add: bits_val_Cons)

lemma bits_val_ones: "bits_val (replicate n 1) = 2 ^ n - 1"
proof (induction n)
  case 0
  then show ?case by simp
next
  case (Suc n)
  have "(1::nat) \<le> 2 ^ n" by simp
  with Suc show ?case by (simp add: bits_val_Cons)
qed

lemma is_bits_simps [simp]:
  "is_bits []" "is_bits (b # bs) \<longleftrightarrow> (b = 0 \<or> b = 1) \<and> is_bits bs"
  "is_bits (xs @ ys) \<longleftrightarrow> is_bits xs \<and> is_bits ys"
  "is_bits (replicate n 0)" "is_bits (replicate n 1)"
  by (auto simp: is_bits_def list_all_iff)

lemma is_bits_take_drop: "is_bits bs \<Longrightarrow> is_bits (take n bs) \<and> is_bits (drop n bs)"
  by (auto simp: is_bits_def list_all_iff dest: in_set_takeD in_set_dropD)

lemma bits_val_less: "is_bits bs \<Longrightarrow> bits_val bs < 2 ^ length bs"
  by (induction bs) (auto simp: bits_val_Cons)

lemma bits_val_take: "is_bits bs \<Longrightarrow> bits_val (take k bs) = bits_val bs div 2 ^ (length bs - k)"
proof -
  assume b: "is_bits bs"
  have "bits_val bs = bits_val (take k bs) * 2 ^ (length bs - k) + bits_val (drop k bs)"
    using bits_val_append [of "take k bs" "drop k bs"] by simp
  moreover have "bits_val (drop k bs) < 2 ^ (length bs - k)"
    using bits_val_less [of "drop k bs"] is_bits_take_drop [OF b] by simp
  ultimately show ?thesis by simp
qed

lemma unat_shift_and_1: "unat (drop_bit k (b :: u8) AND 1) = unat b div 2 ^ k mod 2"
proof -
  have "drop_bit k b AND 1 = take_bit 1 (drop_bit k b)"
    by (simp only: and_one_eq take_bit_eq_mod power_one_right)
  then show ?thesis by (simp only: unat_take_bit_mod unat_drop_bit_div power_one_right)
qed

lemma is_bits_byte_to_bits [simp]: "is_bits (byte_to_bits b)"
proof -
  have "drop_bit k b AND 1 = 0 \<or> drop_bit k b AND 1 = 1" for k
    by (simp add: and_one_eq mod_2_eq_odd)
  then show ?thesis by (simp add: byte_to_bits_def del: drop_bit_0)
qed

lemma length_byte_to_bits [simp, bits_simps]: "length (byte_to_bits b) = 8"
  by (simp add: byte_to_bits_def)

lemma digits_sum:
  fixes n :: nat
  assumes "n = 2 * n1 + d0" "n1 = 2 * n2 + d1" "n2 = 2 * n3 + d2" "n3 = 2 * n4 + d3"
    "n4 = 2 * n5 + d4" "n5 = 2 * n6 + d5" "n6 = 2 * n7 + d6"
  shows "n7 * 128 + d6 * 64 + d5 * 32 + d4 * 16 + d3 * 8 + d2 * 4 + d1 * 2 + d0 = n"
  using assms by linarith

lemma byte_digits: "(n::nat) < 256 \<Longrightarrow>
  n div 128 mod 2 * 128 + n div 64 mod 2 * 64 + n div 32 mod 2 * 32 + n div 16 mod 2 * 16 +
  n div 8 mod 2 * 8 + n div 4 mod 2 * 4 + n div 2 mod 2 * 2 + n mod 2 = n"
proof -
  assume n: "n < 256"
  have step: "n div m = 2 * (n div m') + n div m mod 2" if "m' = m * 2" for m m'
    using mult_div_mod_eq [of 2 "n div m"] that by (simp only: div_mult2_eq)
  have "n div 128 < 2" using n by (simp add: less_mult_imp_div_less)
  then have top: "n div 128 mod 2 = n div 128" by simp
  have "n = 2 * (n div 2) + n mod 2" by (rule mult_div_mod_eq [symmetric])
  moreover have "n div 2 = 2 * (n div 4) + n div 2 mod 2" by (rule step) simp
  moreover have "n div 4 = 2 * (n div 8) + n div 4 mod 2" by (rule step) simp
  moreover have "n div 8 = 2 * (n div 16) + n div 8 mod 2" by (rule step) simp
  moreover have "n div 16 = 2 * (n div 32) + n div 16 mod 2" by (rule step) simp
  moreover have "n div 32 = 2 * (n div 64) + n div 32 mod 2" by (rule step) simp
  moreover have "n div 64 = 2 * (n div 128) + n div 64 mod 2" by (rule step) simp
  ultimately show ?thesis unfolding top by (rule digits_sum)
qed

lemma bits_val_byte_to_bits [simp, bits_simps]: "bits_val (byte_to_bits b) = unat b"
proof -
  have "bits_val (byte_to_bits b) = unat b div 128 mod 2 * 128 + unat b div 64 mod 2 * 64 + unat b div 32 mod 2 * 32
     + unat b div 16 mod 2 * 16 + unat b div 8 mod 2 * 8 + unat b div 4 mod 2 * 4 + unat b div 2 mod 2 * 2 + unat b mod 2"
    using unat_shift_and_1 [of 0 b]
    by (simp only: byte_to_bits_def bits_val_Cons bits_val_Nil unat_shift_and_1 list.size) simp
  also have "\<dots> = unat b" by (rule byte_digits [OF unat_u8_less])
  finally show ?thesis .
qed

lemma bytes_to_bits_val [bits_simps]:
  "bits_val (bytes_to_bits bs) = be_nat bs" "length (bytes_to_bits bs) = 8 * length bs" "is_bits (bytes_to_bits bs)"
proof (induction bs)
  case (Cons b bs)
  { case 1
    show ?case using Cons.IH by (simp add: bits_val_append be_nat_Cons power_mult) }
qed simp_all

lemma bits_to_byte_val:
  assumes "length bs = 8" "is_bits bs"
  shows "unat (bits_to_byte bs) = bits_val bs"
proof -
  obtain a b c d e f g h where bs: "bs = [a, b, c, d, e, f, g, h]"
    using assms(1) by (auto simp: length_Suc_conv numeral_eq_Suc)
  define v where "v = unat h + 2 * unat g + 4 * unat f + 8 * unat e + 16 * unat d + 32 * unat c + 64 * unat b + 128 * unat a"
  have le: "unat x \<le> 1" if "x = 0 \<or> x = 1" for x :: u8
    using that by auto
  have "unat a \<le> 1" "unat b \<le> 1" "unat c \<le> 1" "unat d \<le> 1" "unat e \<le> 1" "unat f \<le> 1" "unat g \<le> 1" "unat h \<le> 1"
    using assms(2) unfolding bs by (simp_all only: is_bits_simps le)
  then have "v < 256" unfolding v_def by linarith
  moreover have "bits_to_byte bs = word_of_nat v"
    unfolding v_def bs by (simp add: bits_to_byte_def)
  moreover have "bits_val bs = v"
    unfolding v_def bs by (simp only: bits_val_Cons bits_val_Nil list.size) simp
  ultimately show ?thesis by (simp only: unat_word_of_nat_u8) simp
qed

lemma bits_to_bytes_general:
  assumes "length bs = 8 * n" "is_bits bs"
  shows "be_nat (map (\<lambda>i. bits_to_byte (take 8 (drop (i * 8) bs))) [0..<n]) = bits_val bs"
  using assms
proof (induction n arbitrary: bs)
  case 0
  then show ?case by simp
next
  case (Suc n)
  let ?f = "\<lambda>bs i. bits_to_byte (take 8 (drop (i * 8) bs))"
  have len: "length (take (8 * n) bs) = 8 * n" "length (drop (8 * n) bs) = 8" using Suc.prems by simp_all
  have b: "is_bits (take (8 * n) bs)" "is_bits (drop (8 * n) bs)"
    using is_bits_take_drop [OF Suc.prems(2)] by simp_all
  have "map (?f bs) [0..<n] = map (?f (take (8 * n) bs)) [0..<n]"
    by (rule map_cong) (auto simp: drop_take)
  then have "be_nat (map (?f bs) [0..<n]) = bits_val (take (8 * n) bs)"
    using Suc.IH [OF len(1) b(1)] by (simp only:)
  then have "be_nat (map (?f bs) [0..<Suc n]) = bits_val (take (8 * n) bs) * 256 + unat (?f bs n)"
    by (simp add: be_nat_append be_nat_Cons)
  also have "unat (?f bs n) = bits_val (drop (8 * n) bs)"
    using bits_to_byte_val [OF len(2) b(2)] len(2) by (simp add: mult.commute)
  finally show ?case using bits_val_append [of "take (8 * n) bs" "drop (8 * n) bs"] len(2) by simp
qed

lemma bits_to_bytes_val:
  assumes "length bs = BITS" "is_bits bs"
  shows "be_nat (bits_to_bytes bs) = bits_val bs" "length (bits_to_bytes bs) = HXS"
  using bits_to_bytes_general [of bs HXS] assms by (simp_all add: bits_to_bytes_def BITS_def HXS_def)

section \<open>Closed forms\<close>

lemma bit_len_eqI: "2 ^ k \<le> v \<Longrightarrow> v < 2 ^ Suc k \<Longrightarrow> bit_len v = Suc k"
  using bit_len_le_iff [of v "Suc k"] bit_len_le_iff [of v k] by linarith

lemma bit_len_bounds: "v > 0 \<Longrightarrow> 2 ^ (bit_len v - 1) \<le> v \<and> v < 2 ^ bit_len v"
  using bit_len_le_iff [of v "bit_len v - 1"] bit_len_le_iff [of v "bit_len v"] bit_len_le_iff [of v 0]
  by (cases "bit_len v") auto

lemma bit_len_pos: "v > 0 \<Longrightarrow> bit_len v > 0"
  using bit_len_le_iff [of v 0] by simp

lemma left_zero_bit_len:
  "is_bits bs \<Longrightarrow> left_zero bs + bit_len (bits_val bs) = length bs"
proof (induction bs)
  case (Cons b bs)
  show ?case
  proof (cases "b = 0")
    case True
    with Cons show ?thesis by (simp add: bits_val_Cons)
  next
    case False
    with Cons.prems have b: "b = 1" "is_bits bs" by auto
    have "bit_len (bits_val (b # bs)) = Suc (length bs)"
      using bits_val_less [OF b(2)] by (intro bit_len_eqI) (simp_all add: bits_val_Cons b(1))
    then show ?thesis by (simp add: b(1))
  qed
qed simp

lemma bits_val_drop_left_zero: "bits_val (drop (left_zero bs) bs) = bits_val bs"
  by (induction bs) (auto simp: bits_val_Cons word_gt_0)

lemma length_bits_to_bytes: "length (bits_to_bytes bs) = HXS"
  by (simp add: bits_to_bytes_def)

lemma u32_to_hash_length: "length (u32_to_hash n) = HXS"
  unfolding u32_to_hash_def Let_def by (simp only: length_replicate length_bits_to_bytes simp_thms split: if_split)

lemma u32_parts:
  fixes n :: u32
  obtains a b c d where "be_bytes 4 (unat n) = [a, b, c, d]" "unat a = unat n div 2 ^ 24" "be_nat [b, c, d] = unat n mod 2 ^ 24"
proof -
  have "\<exists>a b c d. xs = [a, b, c, d]" if "length xs = 4" for xs :: "u8 list"
    using that by (auto simp: length_Suc_conv numeral_eq_Suc)
  from this [OF length_be_bytes] obtain a b c d where e: "be_bytes 4 (unat n) = [a, b, c, d]"
    by blast
  have "unat n < 256 ^ 4" using unsigned_less [of n] by simp
  then have n: "be_nat [a, b, c, d] = unat n" using be_nat_be_bytes [of 4 "unat n"] by (simp only: e mod_less)
  have small: "be_nat [b, c, d] < 2 ^ 24" using be_nat_less [of "[b, c, d]"] by simp
  have split: "unat n = be_nat [b, c, d] + unat a * 2 ^ 24" using n by (simp add: be_nat_Cons [of a])
  have "x = (y + x * k) div k" "y = (y + x * k) mod k" if "y < k" for x y k :: nat
    using that by simp_all
  from this [OF small, of "unat a"] show ?thesis
    unfolding split [symmetric] by (rule that [OF e])
qed

lemma u32_to_biguint_eq:
  "u32_to_biguint n =
    (let e = unat n div 2 ^ 24; m = unat n mod 2 ^ 24 in
     if n = 0 then 0 else if e \<ge> 23 then m * 2 ^ (e - 23) else m div 2 ^ (23 - e))"
proof (cases "n = 0")
  case True
  then show ?thesis
    by (simp add: u32_to_biguint_def u32_to_hash_def hash_to_biguint_def)
next
  case False
  obtain a b c d where p: "be_bytes 4 (unat n) = [a, b, c, d]" "unat a = unat n div 2 ^ 24"
    "be_nat [b, c, d] = unat n mod 2 ^ 24" by (rule u32_parts)
  define e where "e = unat a"
  define bits2 where "bits2 = byte_to_bits b @ byte_to_bits c @ byte_to_bits d"
  have e: "e \<le> 255" using unat_u8_less [of a] by (simp add: e_def)
  have l2: "length bits2 = 24" and b2: "is_bits bits2" and v2: "bits_val bits2 = unat n mod 2 ^ 24"
    using p(3) by (simp_all add: bits2_def bits_val_append be_nat_Cons)
  define keep where "keep = min (Suc e) 24"
  define bits where "bits = replicate (255 - e) 0 @ take keep bits2"
  have keep: "min (BITS - (255 - e)) (length bits2) = keep" using e by (simp add: keep_def BITS_def HXS_def l2)
  have lb: "length bits = 255 - e + keep" by (simp add: bits_def l2 keep_def)
  have "u32_to_hash n = bits_to_bytes (bits @ replicate (BITS - length bits) 0)"
    unfolding u32_to_hash_def Let_def p(1)
    using False keep by (simp add: bits_def bits2_def e_def)
  moreover have "length (bits @ replicate (BITS - length bits) 0) = BITS" "is_bits (bits @ replicate (BITS - length bits) 0)"
    using e is_bits_take_drop [OF b2] by (simp_all add: lb keep_def BITS_def HXS_def) (simp add: bits_def)
  ultimately have "u32_to_biguint n = bits_val bits * 2 ^ (BITS - length bits)"
    using bits_to_bytes_val(1) by (simp add: u32_to_biguint_def hash_to_biguint_def bits_val_append)
  also have "bits_val bits = unat n mod 2 ^ 24 div 2 ^ (24 - keep)"
    using bits_val_take [OF b2, of keep] l2 v2 by (simp add: bits_def bits_val_append)
  finally have "u32_to_biguint n = unat n mod 2 ^ 24 div 2 ^ (24 - keep) * 2 ^ (Suc e - keep)"
    using e by (simp add: lb BITS_def HXS_def)
  then show ?thesis using False p(2) by (auto simp: Let_def keep_def e_def min_def)
qed

lemma to_bytes_be_val: "be_nat (to_bytes_be v) = v" "length (to_bytes_be v) = max 1 ((bit_len v + 7) div 8)"
proof -
  let ?n = "max 1 ((bit_len v + 7) div 8)"
  have "bit_len v \<le> 8 * ?n" by linarith
  then have "v < 256 ^ ?n" by (simp only: bit_len_le_iff power_mult) simp
  then show "be_nat (to_bytes_be v) = v" unfolding to_bytes_be_def be_nat_be_bytes by (rule mod_less)
qed (simp add: to_bytes_be_def)

lemma be_nat_ones: "be_nat (replicate n 255) = 256 ^ n - 1"
proof (induction n)
  case (Suc n)
  have "(1::nat) \<le> 256 ^ n" by simp
  with Suc show ?case by (simp add: be_nat_Cons)
qed simp

lemma biguint_to_hash_val:
  "length (biguint_to_hash v) = HXS" "be_nat (biguint_to_hash v) = min v (2 ^ BITS - 1)"
proof -
  have l: "length (to_bytes_be v) \<le> HXS \<longleftrightarrow> v < 2 ^ BITS"
    unfolding to_bytes_be_val(2) bit_len_le_iff [symmetric] by (simp add: BITS_def HXS_def) linarith
  have p: "(256::nat) ^ HXS = 2 ^ BITS" by (simp add: BITS_def HXS_def)
  show "length (biguint_to_hash v) = HXS" by (simp add: biguint_to_hash_def Let_def)
  show "be_nat (biguint_to_hash v) = min v (2 ^ BITS - 1)"
  proof (cases "v < 2 ^ BITS")
    case True
    with l show ?thesis by (simp add: biguint_to_hash_def Let_def be_nat_append to_bytes_be_val(1) min_def)
  next
    case False
    then have "min v (2 ^ BITS - 1) = 2 ^ BITS - 1" by (intro min.absorb2) linarith
    moreover have "biguint_to_hash v = replicate HXS 255" using False l by (simp add: biguint_to_hash_def Let_def)
    ultimately show ?thesis by (simp only: be_nat_ones p)
  qed
qed

lemma take_3_bytes:
  assumes "length bs = BITS" "is_bits bs"
  shows "be_nat (take 3 (bits_to_bytes bs)) = bits_val (take 24 bs)"
proof -
  have "take 3 (bits_to_bytes bs) = map (\<lambda>i. bits_to_byte (take 8 (drop (i * 8) bs))) [0..<3]"
    by (simp add: bits_to_bytes_def HXS_def take_map take_upt)
  also have "\<dots> = map (\<lambda>i. bits_to_byte (take 8 (drop (i * 8) (take 24 bs)))) [0..<3]"
    by (rule map_cong) (auto simp: drop_take)
  finally show ?thesis
    using bits_to_bytes_general [of "take 24 bs" 3] assms is_bits_take_drop [OF assms(2)]
    by (simp add: BITS_def HXS_def)
qed

definition compact_mantissa :: "nat \<Rightarrow> nat" where
  "compact_mantissa v = (if bit_len v \<ge> 24 then v div 2 ^ (bit_len v - 24)
     else v * 2 ^ (24 - bit_len v) + (2 ^ (24 - bit_len v) - 1))"

lemma compact_mantissa_less: "compact_mantissa v < 2 ^ 24"
proof (cases "bit_len v \<ge> 24")
  case True
  have "v < 2 ^ bit_len v" using bit_len_le_iff by blast
  also have "(2::nat) ^ bit_len v = 2 ^ 24 * 2 ^ (bit_len v - 24)"
    using True by (simp only: power_add [symmetric] le_add_diff_inverse)
  finally show ?thesis using True by (simp add: compact_mantissa_def less_mult_imp_div_less)
next
  case False
  define k where "k = (2::nat) ^ (24 - bit_len v)"
  have k: "k \<ge> 1" by (simp add: k_def)
  have "v + 1 \<le> 2 ^ bit_len v" using bit_len_le_iff [of v "bit_len v"] by simp
  then have "(v + 1) * k \<le> 2 ^ bit_len v * k" by (rule mult_right_mono) simp
  also have "\<dots> = 2 ^ 24" using False by (simp only: k_def power_add [symmetric]) simp
  finally have "v * k + k \<le> 2 ^ 24" by (simp add: add_mult_distrib)
  then show ?thesis using False k by (simp add: compact_mantissa_def k_def [symmetric])
qed

lemma hash_to_u32_eq:
  assumes len: "length hx = HXS"
  defines "v \<equiv> be_nat hx"
  shows "unat (hash_to_u32 hx) = (if v = 0 then 0 else (bit_len v - 1) * 2 ^ 24 + compact_mantissa v)"
proof -
  define bits where "bits = bytes_to_bits hx"
  have b: "is_bits bits" "length bits = BITS" "bits_val bits = v"
    by (simp_all add: bits_def bytes_to_bits_val v_def len BITS_def)
  define lz where "lz = left_zero bits"
  have lz: "lz + bit_len v = BITS" using left_zero_bit_len [OF b(1)] by (simp add: lz_def b)
  show ?thesis
  proof (cases "v = 0")
    case True
    with lz show ?thesis by (simp add: hash_to_u32_def Let_def bits_def [symmetric] lz_def [symmetric])
  next
    case False
    have lzb: "lz < BITS" using lz bit_len_pos [of v] False by simp
    define tl where "tl = drop lz bits"
    have tl: "bits_val tl = v" "length tl = bit_len v" "is_bits tl"
      using bits_val_drop_left_zero [of bits] b lz is_bits_take_drop [OF b(1)]
      by (simp_all add: tl_def lz_def [symmetric])
    define body where "body = take 24 tl @ replicate (24 - length (take 24 tl)) 1"
    have lb: "length body = 24" by (simp add: body_def)
    have ib: "is_bits body" using is_bits_take_drop [OF tl(3)] by (simp add: body_def)
    have bv: "bits_val body = compact_mantissa v"
    proof (cases "24 \<le> bit_len v")
      case True
      then show ?thesis using bits_val_take [OF tl(3), of 24] tl
        by (simp add: body_def compact_mantissa_def bits_val_append)
    next
      case False
      then show ?thesis using tl by (simp add: body_def compact_mantissa_def bits_val_append bits_val_ones)
    qed
    define rb where "rb = body @ replicate (BITS - 24) 0"
    have "is_bits rb" "length rb = BITS" using ib lb by (simp_all add: rb_def BITS_def HXS_def)
    from take_3_bytes [OF this(2,1)] have three: "be_nat (take 3 (bits_to_bytes rb)) = compact_mantissa v"
      using bv lb by (simp add: rb_def)
    have shape: "take 3 (bits_to_bytes rb) = [bits_to_bytes rb ! 0, bits_to_bytes rb ! 1, bits_to_bytes rb ! 2]"
      by (simp add: bits_to_bytes_def HXS_def take_map take_upt upt_conv_Cons numeral_eq_Suc)
    have head: "unat (255 - word_of_nat lz :: u8) = bit_len v - 1"
    proof -
      have "lz \<le> 255" using lzb by (simp add: BITS_def HXS_def)
      then have "(255 - word_of_nat lz :: u8) = word_of_nat (255 - lz)"
        by (simp only: of_nat_diff of_nat_numeral)
      then have "unat (255 - word_of_nat lz :: u8) = (255 - lz) mod 256" by (simp only: unat_word_of_nat_u8)
      then show ?thesis using lz by (simp add: BITS_def HXS_def)
    qed
    have "hash_to_u32 hx = word_of_nat (be_nat ((255 - word_of_nat lz) # take 3 (bits_to_bytes rb)))"
      using lzb by (simp only: shape hash_to_u32_def Let_def bits_def [symmetric] lz_def [symmetric] tl_def [symmetric]
        body_def [symmetric] rb_def [symmetric] not_le if_not_P simp_thms if_False)
    also have "be_nat ((255 - word_of_nat lz) # take 3 (bits_to_bytes rb)) = (bit_len v - 1) * 2 ^ 24 + compact_mantissa v"
      unfolding be_nat_Cons three head by (simp add: shape)
    finally have h: "hash_to_u32 hx = word_of_nat ((bit_len v - 1) * 2 ^ 24 + compact_mantissa v)" .
    have "bit_len v - 1 \<le> 255" using lz by (simp add: BITS_def HXS_def)
    then have "(bit_len v - 1) * 2 ^ 24 + compact_mantissa v < 2 ^ 32"
      using compact_mantissa_less [of v] by simp
    then show ?thesis using False unfolding h unat_of_nat by simp
  qed
qed

lemma biguint_to_u32_eq:
  assumes "v < 2 ^ BITS"
  shows "unat (biguint_to_u32 v) = (if v = 0 then 0 else (bit_len v - 1) * 2 ^ 24 + compact_mantissa v)"
proof -
  have "min v (2 ^ BITS - 1) = v" using assms by (intro min.absorb1) linarith
  then show ?thesis
    unfolding biguint_to_u32_def using hash_to_u32_eq [OF biguint_to_hash_val(1), of v] biguint_to_hash_val(2) [of v] by simp
qed

lemma biguint_to_u32_saturates:
  assumes "2 ^ BITS \<le> v" shows "biguint_to_u32 v = biguint_to_u32 (2 ^ BITS - 1)"
proof -
  have "biguint_to_hash v = biguint_to_hash (2 ^ BITS - 1)"
    using assms biguint_to_hash_val [of v] biguint_to_hash_val [of "2 ^ BITS - 1"]
    by (intro be_bytes_inject) simp_all
  then show ?thesis by (simp add: biguint_to_u32_def)
qed

lemma div_pad: "0 < k \<Longrightarrow> (w * k + (k - 1)) div k = (w :: nat)"
  by (subst div_mult_self3) simp_all

text \<open>Going through the compact form keeps the 24 most significant bits of a target and
  clears the others: the result never exceeds the target, and is the target itself below
  \<open>2 ^ 24\<close>. Targets above the 256-bit space behave as the largest hash.\<close>
theorem difficulty_compact_rounds_down:
  "u32_to_biguint (biguint_to_u32 v) =
     (let w = min v (2 ^ BITS - 1); k = bit_len w - 24 in w div 2 ^ k * 2 ^ k)"
proof -
  have main: "u32_to_biguint (biguint_to_u32 w) = w div 2 ^ (bit_len w - 24) * 2 ^ (bit_len w - 24)"
    if w: "w < 2 ^ BITS" for w
  proof (cases "w = 0")
    case True
    then have "biguint_to_u32 w = 0" using biguint_to_u32_eq [OF w] by (simp add: unat_eq_zero)
    with True show ?thesis by (simp add: u32_to_biguint_eq)
  next
    case False
    define n where "n = biguint_to_u32 w"
    have n: "unat n = (bit_len w - 1) * 2 ^ 24 + compact_mantissa w"
      using biguint_to_u32_eq [OF w] False by (simp only: n_def if_False)
    have e: "unat n div 2 ^ 24 = bit_len w - 1" "unat n mod 2 ^ 24 = compact_mantissa w"
      using compact_mantissa_less [of w] unfolding n by simp_all
    have p: "bit_len w > 0" using False by (simp add: bit_len_pos)
    have m: "n \<noteq> 0"
    proof
      assume "n = 0"
      then have "compact_mantissa w = 0" "bit_len w = 1" using e p by simp_all
      then show False using False by (simp add: compact_mantissa_def)
    qed
    show ?thesis
    proof (cases "24 \<le> bit_len w")
      case True
      then show ?thesis using e m unfolding n_def [symmetric] u32_to_biguint_eq Let_def
        by (simp only: if_False if_True) (auto simp: compact_mantissa_def)
    next
      case small: False
      have "bit_len w - 1 < 23" "23 - (bit_len w - 1) = 24 - bit_len w" using small p by simp_all
      then have "u32_to_biguint n = compact_mantissa w div 2 ^ (24 - bit_len w)"
        using m unfolding u32_to_biguint_eq Let_def e by simp
      also have "\<dots> = w" using small div_pad [of "2 ^ (24 - bit_len w)" w] by (simp only: compact_mantissa_def if_False) simp
      finally show ?thesis using small by (simp add: n_def)
    qed
  qed
  show ?thesis
  proof (cases "v < 2 ^ BITS")
    case True
    then have "min v (2 ^ BITS - 1) = v" by (intro min.absorb1) linarith
    with main [OF True] show ?thesis by (simp only: Let_def)
  next
    case False
    then have s: "min v (2 ^ BITS - 1) = 2 ^ BITS - 1" by (intro min.absorb2) linarith
    have "(2::nat) ^ BITS - 1 < 2 ^ BITS" by simp
    from main [OF this] show ?thesis
      using False by (simp only: Let_def s biguint_to_u32_saturates not_less)
  qed
qed

text \<open>A compact number in the form \<open>hash_to_u32\<close> produces.\<close>

definition compact_normal :: "u32 \<Rightarrow> bool" where
  "compact_normal n = (let e = unat n div 2 ^ 24; m = unat n mod 2 ^ 24 in
     n = 0 \<or> m \<ge> 2 ^ 23 \<and> (e < 23 \<longrightarrow> m mod 2 ^ (23 - e) = 2 ^ (23 - e) - 1))"

lemma bit_len_mult_pow: "v > 0 \<Longrightarrow> bit_len (v * 2 ^ k) = bit_len v + k"
proof (induction k)
  case (Suc k)
  have "bit_len (v * 2 ^ Suc k) = Suc (bit_len (v * 2 ^ Suc k div 2))"
    using Suc.prems by (subst bit_len.simps) simp
  also have "v * 2 ^ Suc k div 2 = v * 2 ^ k" by simp
  finally show ?case using Suc by simp
qed simp

text \<open>A compact number in normal form (the leading mantissa bit set, the bits that do not
  fit the hash set too) is read back unchanged from its target.\<close>
theorem difficulty_compact_roundtrip:
  "biguint_to_u32 (u32_to_biguint n) = n \<longleftrightarrow> compact_normal n"
proof (cases "n = 0")
  case True
  have "biguint_to_u32 0 = 0" using biguint_to_u32_eq [of 0] by (simp add: unat_eq_zero BITS_def HXS_def)
  with True show ?thesis by (simp add: u32_to_biguint_eq compact_normal_def)
next
  case False
  define e m where "e = unat n div 2 ^ 24" and "m = unat n mod 2 ^ 24"
  have n: "unat n = e * 2 ^ 24 + m" by (simp add: e_def m_def)
  have m: "m < 2 ^ 24" by (simp add: m_def)
  have e: "e \<le> 255" using unat_u32_less [of n] by (simp add: e_def)
  define v where "v = u32_to_biguint n"
  have v: "v = (if e \<ge> 23 then m * 2 ^ (e - 23) else m div 2 ^ (23 - e))"
    using False by (simp add: v_def u32_to_biguint_eq Let_def e_def m_def)
  have "m * 2 ^ (e - 23) < 2 ^ BITS" if "e \<ge> 23"
  proof -
    have "m * 2 ^ (e - 23) < 2 ^ 24 * 2 ^ (e - 23)" using m by simp
    also have "\<dots> = 2 ^ (Suc e)" using that by (simp only: power_add [symmetric]) simp
    also have "\<dots> \<le> 2 ^ BITS" using e by (intro power_increasing) (simp_all add: BITS_def HXS_def)
    finally show ?thesis .
  qed
  moreover have "m div 2 ^ (23 - e) < 2 ^ BITS"
  proof -
    have "m div 2 ^ (23 - e) \<le> m" by (rule div_le_dividend)
    also have "m < 2 ^ BITS" using m power_increasing [of 24 BITS "2::nat"] by (simp add: BITS_def HXS_def)
    finally show ?thesis .
  qed
  ultimately have vb: "v < 2 ^ BITS" by (simp add: v)
  have bk: "unat (biguint_to_u32 v) = (if v = 0 then 0 else (bit_len v - 1) * 2 ^ 24 + compact_mantissa v)"
    by (rule biguint_to_u32_eq [OF vb])
  have cm: "compact_mantissa v < 2 ^ 24" by (rule compact_mantissa_less)
  have same: "biguint_to_u32 v = n \<longleftrightarrow> v \<noteq> 0 \<and> bit_len v = Suc e \<and> compact_mantissa v = m"
  proof (cases "v = 0")
    case True
    then show ?thesis using bk False by (simp add: unat_eq_zero)
  next
    case nz: False
    have "biguint_to_u32 v = n \<longleftrightarrow> (bit_len v - 1) * 2 ^ 24 + compact_mantissa v = e * 2 ^ 24 + m"
      using bk nz n by (simp only: word_unat_eq_iff if_False)
    also have "\<dots> \<longleftrightarrow> bit_len v - 1 = e \<and> compact_mantissa v = m" by (rule pack_inject [OF cm m])
    finally show ?thesis using nz bit_len_pos [of v] by auto
  qed
  have normal: "compact_normal n \<longleftrightarrow> m \<ge> 2 ^ 23 \<and> (e < 23 \<longrightarrow> m mod 2 ^ (23 - e) = 2 ^ (23 - e) - 1)"
    using False by (simp add: compact_normal_def Let_def e_def m_def)
  have top: "bit_len m = 24 \<longleftrightarrow> m \<ge> 2 ^ 23"
    using m bit_len_le_iff [of m 24] bit_len_le_iff [of m 23] by linarith
  show ?thesis unfolding v_def [symmetric] same normal
  proof (cases "e \<ge> 23")
    case True
    show "(v \<noteq> 0 \<and> bit_len v = Suc e \<and> compact_mantissa v = m) = (2 ^ 23 \<le> m \<and> (e < 23 \<longrightarrow> m mod 2 ^ (23 - e) = 2 ^ (23 - e) - 1))"
    proof (cases "m = 0")
      case True
      with \<open>e \<ge> 23\<close> show ?thesis by (simp add: v)
    next
      case mz: False
      then have "bit_len v = bit_len m + (e - 23)" using True by (simp add: v bit_len_mult_pow)
      then have "bit_len v = Suc e \<longleftrightarrow> bit_len m = 24" using True by linarith
      moreover have "compact_mantissa v = m" if "bit_len v = Suc e"
        using that True by (simp add: compact_mantissa_def v)
      ultimately show ?thesis using True top mz by (auto simp: v)
    qed
  next
    case small: False
    define k where "k = (2::nat) ^ (23 - e)"
    have k: "k > 0" by (simp add: k_def)
    have vk: "v = m div k" using small by (simp add: v k_def)
    have mk: "m = v * k + m mod k" using vk by simp
    have lv: "bit_len v = Suc e \<longleftrightarrow> m \<ge> 2 ^ 23"
    proof -
      have "(2::nat) ^ e * k = 2 ^ 23" using small by (simp only: k_def power_add [symmetric]) simp
      then have "2 ^ 23 \<le> m \<longleftrightarrow> 2 ^ e \<le> v" unfolding vk by (metis k less_eq_div_iff_mult_less_eq)
      moreover have "v < 2 ^ Suc e"
      proof -
        have "(2::nat) ^ Suc e * k = 2 ^ 24" using small by (simp only: k_def power_add [symmetric]) simp
        with m show ?thesis unfolding vk by (metis less_mult_imp_div_less)
      qed
      ultimately show ?thesis using bit_len_le_iff [of v e] bit_len_le_iff [of v "Suc e"] by linarith
    qed
    have "compact_mantissa v = m \<longleftrightarrow> m mod k = k - 1" if "bit_len v = Suc e"
      using that small mk by (simp add: compact_mantissa_def k_def [symmetric]) linarith
    then show "(v \<noteq> 0 \<and> bit_len v = Suc e \<and> compact_mantissa v = m) = (2 ^ 23 \<le> m \<and> (e < 23 \<longrightarrow> m mod 2 ^ (23 - e) = 2 ^ (23 - e) - 1))"
      using lv small by (auto simp: k_def intro!: gr0I)
  qed
qed

end
