(* ===== verification/DiffTarget.thy ===== *)
theory DiffTarget
  imports Difficulty "HOL-Library.AList"
begin

text \<open>
  The difficulty rules of \<^verbatim>\<open>mint/src/check/difficulty_old.rs\<close>,
  \<^verbatim>\<open>difficulty_lwma.rs\<close> and \<^verbatim>\<open>difficulty_asert.rs\<close>: the target of the
  next block from its parent and from earlier blocks, which a \<open>BlockIntroSource\<close> supplies
  (the store and the fork tree, a parameter here). The generator keeps two caches, passed as
  explicit state; the lemmas show that they never change a result. \<open>u64\<close> arithmetic wraps,
  as it does in a release build of this crate; a division by zero, a missing block and a failed
  assertion are panics.
\<close>

section \<open>State\<close>

record mint_conf =
  chain_id :: u64
  difficulty_group_blocks :: u64
  difficulty_adjust_blocks :: u64
  each_block_target_time :: u64

definition is_mainnet :: "mint_conf \<Rightarrow> bool" where
  "is_mainnet c \<longleftrightarrow> chain_id c = 0"

record block_intro_source =
  cache_height_limit :: u64
  block_intro :: "u64 \<Rightarrow> (u64 \<times> u32) option"

type_synonym cached_block_intro = "u64 \<times> u32 \<times> u8 list"

record difficulty_gnr =
  cnf :: mint_conf
  block_caches :: "(u64 \<times> cached_block_intro) list"
  last_target_cache :: "(u64 \<times> u32 \<times> u64 \<times> u8 list \<times> nat) option"

definition DIFFICULTY_UPGRADE_EPOCH :: u64 where "DIFFICULTY_UPGRADE_EPOCH = 2563"
definition ASERT_UPGRADE_HEIGHT :: u64 where "ASERT_UPGRADE_HEIGHT = 738654"
definition ASERT_START_TARGET_NUM :: u32 where "ASERT_START_TARGET_NUM = 0xe9cfffff"
definition ASERT_HALF_LIFE :: int where "ASERT_HALF_LIFE = 10800"
definition ASERT_RADIX_BITS :: nat where "ASERT_RADIX_BITS = 16"
definition ASERT_RADIX :: int where "ASERT_RADIX = 2 ^ ASERT_RADIX_BITS"
definition ASERT_POLY_1 :: nat where "ASERT_POLY_1 = 195766423245049"
definition ASERT_POLY_2 :: nat where "ASERT_POLY_2 = 971821376"
definition ASERT_POLY_3 :: nat where "ASERT_POLY_3 = 5127"
definition ASERT_POLY_TERM_SHIFT :: nat where "ASERT_POLY_TERM_SHIFT = 48"
definition ASERT_EASING_MAX_SCALE :: nat where "ASERT_EASING_MAX_SCALE = 2"

definition gnr_new :: "mint_conf \<Rightarrow> difficulty_gnr" where
  "gnr_new c = \<lparr>cnf = c, block_caches = [], last_target_cache = None\<rparr>"

definition window_blocks :: "mint_conf \<Rightarrow> u64" where
  "window_blocks c = difficulty_adjust_blocks c"

definition group_blocks :: "mint_conf \<Rightarrow> u64" where
  "group_blocks c = difficulty_group_blocks c"

definition window_groups :: "mint_conf \<Rightarrow> u64 ret" where
  "window_groups c = (if group_blocks c = 0 then Inl (Panic ''attempt to divide by zero'')
     else Inr (window_blocks c div group_blocks c))"

definition cache_blocks :: "mint_conf \<Rightarrow> u64" where
  "cache_blocks c = window_blocks c + group_blocks c * 3"

definition upgrade_height :: "mint_conf \<Rightarrow> u64" where
  "upgrade_height c = (if is_mainnet c then DIFFICULTY_UPGRADE_EPOCH * difficulty_adjust_blocks c else 1)"

definition asert_upgrade_height :: "mint_conf \<Rightarrow> u64" where
  "asert_upgrade_height c = (if is_mainnet c then ASERT_UPGRADE_HEIGHT else window_blocks c + 2)"

definition is_upgrade_height :: "mint_conf \<Rightarrow> u64 \<Rightarrow> bool" where
  "is_upgrade_height c hei \<longleftrightarrow> hei \<ge> upgrade_height c"

definition is_asert_height :: "mint_conf \<Rightarrow> u64 \<Rightarrow> bool" where
  "is_asert_height c hei \<longleftrightarrow> hei \<ge> asert_upgrade_height c"

definition is_historical_lwma_height :: "mint_conf \<Rightarrow> u64 \<Rightarrow> bool" where
  "is_historical_lwma_height c hei \<longleftrightarrow> is_mainnet c \<and> is_upgrade_height c hei \<and> \<not> is_asert_height c hei"

definition use_bootstrap_rule :: "mint_conf \<Rightarrow> u64 \<Rightarrow> bool" where
  "use_bootstrap_rule c hei \<longleftrightarrow> hei \<le> window_blocks c + 1"

section \<open>The block cache\<close>

definition saturating_sub :: "u64 \<Rightarrow> u64 \<Rightarrow> u64" where
  "saturating_sub a b = (if b \<le> a then a - b else 0)"

definition prune_cache_after_insert ::
  "mint_conf \<Rightarrow> (u64 \<times> cached_block_intro) list \<Rightarrow> u64 \<Rightarrow> (u64 \<times> cached_block_intro) list" where
  "prune_cache_after_insert c cache newest =
     (if (word_of_nat (length cache) :: u64) \<le> cache_blocks c then cache
      else let min_keep = saturating_sub newest (cache_blocks c - 1)
           in filter (\<lambda>(hei, _). hei \<ge> min_keep) cache)"

definition cache_insert :: "difficulty_gnr \<Rightarrow> u64 \<Rightarrow> cached_block_intro \<Rightarrow> difficulty_gnr" where
  "cache_insert g hei item =
     g\<lparr>block_caches := prune_cache_after_insert (cnf g) (AList.update hei item (block_caches g)) hei\<rparr>"

text \<open>A block is given by its height, timestamp and difficulty number.\<close>

definition cache_block_intro :: "difficulty_gnr \<Rightarrow> u64 \<Rightarrow> u64 \<Rightarrow> u32 \<Rightarrow> difficulty_gnr" where
  "cache_block_intro g hei tim dif = (cache_insert g hei (tim, dif, u32_to_hash dif))\<lparr>last_target_cache := None\<rparr>"

definition cache_root_block_intro :: "difficulty_gnr \<Rightarrow> u64 \<Rightarrow> u64 \<Rightarrow> u32 \<Rightarrow> difficulty_gnr" where
  "cache_root_block_intro g hei tim dif = cache_block_intro (g\<lparr>block_caches := []\<rparr>) hei tim dif"

definition req_block_intro ::
  "difficulty_gnr \<Rightarrow> block_intro_source \<Rightarrow> u64 \<Rightarrow> (cached_block_intro \<times> difficulty_gnr) ret" where
  "req_block_intro g src hei =
     (let cacheable = hei \<le> cache_height_limit src;
          hit = (if cacheable then map_of (block_caches g) hei else None) in
      case hit of
        Some blk_time \<Rightarrow> Inr (blk_time, g)
      | None \<Rightarrow>
        (case block_intro src hei of
           None \<Rightarrow> Inl (Panic ''difficulty block missing'')
         | Some (tim, diffcty) \<Rightarrow>
           let item = (tim, diffcty, u32_to_hash diffcty) in
           if \<not> cacheable then Inr (item, g) else Inr (item, cache_insert g hei item)))"

section \<open>The legacy rule\<close>

definition target_bootstrap :: difficulty_target where
  "target_bootstrap = target_from_num LOWEST_DIFFICULTY"

definition req_cycle_block ::
  "difficulty_gnr \<Rightarrow> u64 \<Rightarrow> block_intro_source \<Rightarrow> (cached_block_intro \<times> difficulty_gnr) ret" where
  "req_cycle_block g hei src =
     (let cylnum = difficulty_adjust_blocks (cnf g) in
      if hei < cylnum then req_block_intro g src 0
      else if cylnum = 0 then Inl (Panic ''attempt to divide by zero'')
      else let cylhei = hei div cylnum * cylnum in req_block_intro g src cylhei)"

definition target_legacy :: "difficulty_gnr \<Rightarrow> mint_conf \<Rightarrow> u32 \<Rightarrow> u64 \<Rightarrow> u64 \<Rightarrow> block_intro_source
    \<Rightarrow> (difficulty_target \<times> difficulty_gnr) ret" where
  "target_legacy g mcnf prevdiff prevblkt hei src =
     (let cylnum = difficulty_adjust_blocks (cnf g) in
      if hei < cylnum * 2 then Inr (target_bootstrap, g)
      else if cylnum = 0 then Inl (Panic ''attempt to calculate the remainder with a divisor of zero'')
      else if hei mod cylnum \<noteq> 0 then Inr (target_from_num prevdiff, g)
      else let blk_span = each_block_target_time (cnf g); target_time_span = cylnum * blk_span in
      bindR (req_cycle_block g (hei - cylnum) src) (\<lambda>((prevcltime, _, _), g).
        let real_time_span = blk_span + prevblkt - prevcltime;
            real_time_span = (if is_mainnet mcnf \<and> hei < cylnum * 450 then real_time_span - blk_span else real_time_span);
            minsecs = target_time_span div 4;
            maxsecs = target_time_span * 4;
            real_time_span = (if real_time_span < minsecs then minsecs
                              else if real_time_span > maxsecs then maxsecs else real_time_span);
            prevbign = u32_to_biguint prevdiff
        in if target_time_span = 0 then Inl (Panic ''attempt to divide by zero'')
           else Inr (target_from_big (prevbign * unat real_time_span div unat target_time_span), g)))"

section \<open>The weighted sliding window\<close>

text \<open>The loop over the groups, \<open>n\<close> of them left: \<open>i\<close> is the index,
  \<open>bound\<close> the height last read. The weighted sums are \<open>u128\<close>.\<close>

fun sliding_loop :: "block_intro_source \<Rightarrow> u64 \<Rightarrow> u64 \<Rightarrow> nat \<Rightarrow> nat \<Rightarrow> u64 \<Rightarrow> u64 \<Rightarrow> u64 \<Rightarrow> nat \<Rightarrow> nat
    \<Rightarrow> difficulty_gnr \<Rightarrow> ((nat \<times> nat) \<times> difficulty_gnr) ret" where
  "sliding_loop src prevblkt last_group group_target 0 i bound prev_time observed expected g = Inr ((observed, expected), g)"
| "sliding_loop src prevblkt last_group group_target (Suc n) i bound prev_time observed expected g =
     (let last = (i = last_group); bound = (if last then bound else bound + group_blocks (cnf g)) in
      bindR (if last then Inr ((prevblkt, 0, []), g) else req_block_intro g src bound) (\<lambda>((next_time, _, _), g).
        let weight = unat (i + 1);
            observed = (observed + unat (saturating_sub next_time prev_time) * weight) mod 2 ^ 128;
            expected = (expected + group_target * weight) mod 2 ^ 128
        in sliding_loop src prevblkt last_group group_target n (i + 1) bound next_time observed expected g))"

definition sliding_fresh :: "difficulty_gnr \<Rightarrow> u32 \<Rightarrow> u64 \<Rightarrow> u64 \<Rightarrow> block_intro_source
    \<Rightarrow> (nat \<times> difficulty_gnr) ret" where
  "sliding_fresh g prevdiff prevblkt hei src =
     (let prevbign = u32_to_biguint prevdiff;
          group_target = unat (each_block_target_time (cnf g) * group_blocks (cnf g));
          bound = hei - window_blocks (cnf g) - 1 in
      bindR (req_block_intro g src bound) (\<lambda>((prev_time, _, _), g).
      bindR (window_groups (cnf g)) (\<lambda>groups.
      bindR (sliding_loop src prevblkt (groups - 1) group_target (unat groups) 0 bound prev_time 0 0 g)
        (\<lambda>((observed, expected), g).
      bindR (scale_target_by_ratio prevbign observed expected) (\<lambda>scaled.
        Inr (clamp_target_half_double prevbign scaled, g))))))"

definition target_weighted_sliding :: "difficulty_gnr \<Rightarrow> u32 \<Rightarrow> u64 \<Rightarrow> u64 \<Rightarrow> block_intro_source
    \<Rightarrow> (difficulty_target \<times> difficulty_gnr) ret" where
  "target_weighted_sliding g prevdiff prevblkt hei src =
     (let cacheable = hei - 1 \<le> cache_height_limit src;
          hit = (if cacheable then
                   (case last_target_cache g of
                      Some (cached_hei, cached_diff, cached_time, cached_hash, cached_target) \<Rightarrow>
                        if cached_hei = hei \<and> cached_diff = prevdiff \<and> cached_time = prevblkt
                        then Some \<lparr>num = hash_to_u32 cached_hash, hash = cached_hash, big = cached_target\<rparr> else None
                    | None \<Rightarrow> None) else None) in
      case hit of
        Some t \<Rightarrow> Inr (t, g)
      | None \<Rightarrow>
        bindR (sliding_fresh g prevdiff prevblkt hei src) (\<lambda>(targetbign, g).
          let t = target_from_big targetbign in
          Inr (t, if cacheable then g\<lparr>last_target_cache := Some (hei, prevdiff, prevblkt, hash t, big t)\<rparr> else g)))"

section \<open>The exponential rule\<close>

definition wrap_i128 :: "int \<Rightarrow> int" where
  "wrap_i128 x = (x + 2 ^ 127) mod 2 ^ 128 - 2 ^ 127"

text \<open>Rust's \<open>/\<close> on signed integers rounds towards zero.\<close>

definition div_trunc :: "int \<Rightarrow> int \<Rightarrow> int" where
  "div_trunc a b = (if a < 0 then - (- a div b) else a div b)"

definition asert_exponent :: "int \<Rightarrow> int \<Rightarrow> int \<Rightarrow> int" where
  "asert_exponent each time_delta height_delta =
     div_trunc (wrap_i128 (wrap_i128 (time_delta - wrap_i128 (each * height_delta)) * ASERT_RADIX)) ASERT_HALF_LIFE"

definition asert_factor :: "nat \<Rightarrow> nat" where
  "asert_factor frac =
     (let frac2 = frac * frac; frac3 = frac2 * frac in
      (ASERT_POLY_1 * frac + ASERT_POLY_2 * frac2 + ASERT_POLY_3 * frac3 + 2 ^ (ASERT_POLY_TERM_SHIFT - 1))
        div 2 ^ ASERT_POLY_TERM_SHIFT + nat ASERT_RADIX)"

text \<open>The shifts take the count as a 64-bit \<open>usize\<close>.\<close>

definition asert_scaled :: "nat \<Rightarrow> int \<Rightarrow> nat" where
  "asert_scaled anchor_target exponent =
     (let num_shifts = exponent div ASERT_RADIX;
          frac = nat (exponent - num_shifts * ASERT_RADIX);
          next_target = anchor_target * asert_factor frac;
          next_target = (if num_shifts < 0 then next_target div 2 ^ nat (- num_shifts mod 2 ^ 64)
                         else if num_shifts > 0 then next_target * 2 ^ nat (num_shifts mod 2 ^ 64) else next_target)
      in next_target div 2 ^ ASERT_RADIX_BITS)"

definition asert_limit :: "u32 \<Rightarrow> nat \<Rightarrow> difficulty_target" where
  "asert_limit prevdiff next_target =
     (let ease_target = u32_to_biguint prevdiff * ASERT_EASING_MAX_SCALE;
          max_target = u32_to_biguint LOWEST_DIFFICULTY in
      if next_target = 0 then target_from_big 1
      else let next_target = (if next_target > ease_target then ease_target else next_target) in
        if next_target > max_target then target_from_num LOWEST_DIFFICULTY
        else target_from_big next_target)"

definition target_asert :: "difficulty_gnr \<Rightarrow> u32 \<Rightarrow> u64 \<Rightarrow> u64 \<Rightarrow> block_intro_source
    \<Rightarrow> (difficulty_target \<times> difficulty_gnr) ret" where
  "target_asert g prevdiff hei blkt src =
     (let upgrade_hei = asert_upgrade_height (cnf g) in
      if hei = upgrade_hei then Inr (target_from_num ASERT_START_TARGET_NUM, g)
      else let anchor_hei = upgrade_hei in
      bindR (req_block_intro g src anchor_hei) (\<lambda>((anchor_time, _, _), g).
        let anchor_target = u32_to_biguint ASERT_START_TARGET_NUM;
            time_delta = uint blkt - uint anchor_time;
            height_delta = uint hei - uint anchor_hei;
            exponent = asert_exponent (uint (each_block_target_time (cnf g))) time_delta height_delta
        in Inr (asert_limit prevdiff (asert_scaled anchor_target exponent), g)))"

section \<open>Choosing the rule\<close>

definition next_target :: "difficulty_gnr \<Rightarrow> mint_conf \<Rightarrow> u32 \<Rightarrow> u64 \<Rightarrow> u64 \<Rightarrow> u64 \<Rightarrow> block_intro_source
    \<Rightarrow> (difficulty_target \<times> difficulty_gnr) ret" where
  "next_target g mcnf prevdiff prevblkt hei blkt src =
     (if is_mainnet mcnf \<and> \<not> is_upgrade_height (cnf g) hei then target_legacy g mcnf prevdiff prevblkt hei src
      else if is_asert_height (cnf g) hei then target_asert g prevdiff hei blkt src
      else if use_bootstrap_rule (cnf g) hei then Inr (target_bootstrap, g)
      else target_weighted_sliding g prevdiff prevblkt hei src)"

text \<open>The parent is given by height, timestamp and difficulty.\<close>

definition next_difficulty :: "difficulty_gnr \<Rightarrow> mint_conf \<Rightarrow> u64 \<Rightarrow> u64 \<Rightarrow> u32 \<Rightarrow> u64 \<Rightarrow> block_intro_source
    \<Rightarrow> (difficulty_target \<times> difficulty_gnr) ret" where
  "next_difficulty g mcnf prev_hei prev_tim prev_dif blkt src =
     next_target g mcnf prev_dif prev_tim (prev_hei + 1) blkt src"

section \<open>The caches are transparent\<close>

definition intro_item :: "block_intro_source \<Rightarrow> u64 \<Rightarrow> cached_block_intro option" where
  "intro_item src h = map_option (\<lambda>(t, d). (t, d, u32_to_hash d)) (block_intro src h)"

text \<open>The result of a computation, its caches forgotten.\<close>

definition value_of :: "('a \<times> difficulty_gnr) ret \<Rightarrow> 'a ret" where
  "value_of r = bindR r (\<lambda>(x, _). Inr x)"

definition cache_ok :: "block_intro_source \<Rightarrow> mint_conf \<Rightarrow> difficulty_gnr \<Rightarrow> bool" where
  "cache_ok src c g \<longleftrightarrow> cnf g = c \<and>
     (\<forall>h item. map_of (block_caches g) h = Some item \<longrightarrow> h \<le> cache_height_limit src \<longrightarrow> intro_item src h = Some item) \<and>
     (\<forall>hei d t hs b. last_target_cache g = Some (hei, d, t, hs, b) \<longrightarrow> hei - 1 \<le> cache_height_limit src \<longrightarrow>
        value_of (sliding_fresh (gnr_new c) d t hei src) = Inr b \<and> hs = biguint_to_hash b)"

definition agree :: "block_intro_source \<Rightarrow> mint_conf \<Rightarrow> ('a \<times> difficulty_gnr) ret \<Rightarrow> ('a \<times> difficulty_gnr) ret \<Rightarrow> bool" where
  "agree src c r1 r2 \<longleftrightarrow>
     (\<exists>e. r1 = Inl e \<and> r2 = Inl e) \<or>
     (\<exists>x g1 g2. r1 = Inr (x, g1) \<and> r2 = Inr (x, g2) \<and> cache_ok src c g1 \<and> cache_ok src c g2)"

lemma agree_Inl [simp]: "agree src c (Inl e) r \<longleftrightarrow> r = Inl e"
  by (auto simp: agree_def)

lemma agree_Inr [simp]: "agree src c (Inr (x, g1)) (Inr (y, g2)) \<longleftrightarrow> x = y \<and> cache_ok src c g1 \<and> cache_ok src c g2"
  by (auto simp: agree_def)

lemma agree_value: "agree src c r1 r2 \<Longrightarrow> value_of r1 = value_of r2"
  by (auto simp: agree_def value_of_def)

lemma agree_bind:
  assumes "agree src c r1 r2"
    and "\<And>x g1 g2. cache_ok src c g1 \<Longrightarrow> cache_ok src c g2 \<Longrightarrow> agree src c (f (x, g1)) (f (x, g2))"
  shows "agree src c (bindR r1 f) (bindR r2 f)"
  using assms unfolding agree_def [of src c r1 r2] by auto

lemma cache_ok_cnf: "cache_ok src c g \<Longrightarrow> cnf g = c"
  by (simp add: cache_ok_def)

lemma cache_ok_new: "cache_ok src c (gnr_new c)"
  by (simp add: cache_ok_def gnr_new_def)

lemma map_of_filter_key: "map_of (filter (\<lambda>(k, _). P k) al) k = (if P k then map_of al k else None)"
  by (induction al) auto

lemma cache_ok_insert:
  assumes ok: "cache_ok src c g" and item: "hei \<le> cache_height_limit src \<longrightarrow> intro_item src hei = Some item"
  shows "cache_ok src c (cache_insert g hei item)"
proof -
  have "map_of (block_caches (cache_insert g hei item)) h = Some it \<Longrightarrow>
      map_of (block_caches g) h = Some it \<or> h = hei \<and> it = item" for h it
    by (auto simp: cache_insert_def prune_cache_after_insert_def Let_def map_of_filter_key update_conv' split: if_splits)
  with assms show ?thesis by (fastforce simp: cache_ok_def cache_insert_def)
qed

lemma agree_req:
  assumes "cache_ok src c g1" "cache_ok src c g2"
  shows "agree src c (req_block_intro g1 src h) (req_block_intro g2 src h)"
proof -
  have "req_block_intro g src h = Inl (Panic ''difficulty block missing'') \<and> intro_item src h = None \<or>
      (\<exists>item g'. req_block_intro g src h = Inr (item, g') \<and> cache_ok src c g' \<and> intro_item src h = Some item)"
    if ok: "cache_ok src c g" for g
  proof (cases "if h \<le> cache_height_limit src then map_of (block_caches g) h else None")
    case (Some item)
    then show ?thesis using ok by (cases item) (auto simp: req_block_intro_def cache_ok_def split: if_splits)
  next
    case miss: None
    show ?thesis
    proof (cases "block_intro src h")
      case None
      with miss show ?thesis by (simp add: req_block_intro_def intro_item_def)
    next
      case (Some p)
      obtain t d where p: "p = (t, d)" by (cases p)
      have item: "intro_item src h = Some (t, d, u32_to_hash d)" using Some p by (simp add: intro_item_def)
      show ?thesis using miss Some p item ok cache_ok_insert [OF ok, of h "(t, d, u32_to_hash d)"]
        by (simp add: req_block_intro_def Let_def)
    qed
  qed
  from this [OF assms(1)] this [OF assms(2)] show ?thesis by auto
qed

lemma agree_loop:
  assumes "cache_ok src c g1" "cache_ok src c g2"
  shows "agree src c (sliding_loop src pt lg gt n i bound t os ex g1) (sliding_loop src pt lg gt n i bound t os ex g2)"
  using assms
proof (induction n arbitrary: i bound t os ex g1 g2)
  case (Suc n)
  note step = Suc.IH
  from Suc.prems cache_ok_cnf have c: "cnf g1 = c" "cnf g2 = c" by blast+
  show ?case
  proof (cases "i = lg")
    case True
    then show ?thesis using step [OF Suc.prems] by (simp add: Let_def)
  next
    case False
    then show ?thesis
      by (auto simp: Let_def c intro!: agree_bind [OF agree_req [OF Suc.prems]] step)
  qed
qed simp

lemma agree_fresh:
  assumes "cache_ok src c g1" "cache_ok src c g2"
  shows "agree src c (sliding_fresh g1 d t hei src) (sliding_fresh g2 d t hei src)"
proof -
  have scale: "agree src c (bindR (scale_target_by_ratio b os ex) (\<lambda>s. Inr (f s, h1))) (bindR (scale_target_by_ratio b os ex) (\<lambda>s. Inr (f s, h2)))"
    if "cache_ok src c h1" "cache_ok src c h2" for b os ex h1 h2 and f :: "nat \<Rightarrow> nat"
    using that by (cases "scale_target_by_ratio b os ex") simp_all
  have groups: "agree src c (bindR (window_groups c) f) (bindR (window_groups c) f')"
    if "\<And>n. agree src c (f n) (f' n)" for f f' :: "u64 \<Rightarrow> (nat \<times> difficulty_gnr) ret"
    using that by (cases "window_groups c") simp_all
  show ?thesis
    unfolding sliding_fresh_def Let_def
    by (auto simp: cache_ok_cnf [OF assms(1)] cache_ok_cnf [OF assms(2)] cache_ok_cnf
        intro!: agree_bind [OF agree_req [OF assms]] agree_bind [OF agree_loop] groups scale)
qed

lemma sliding_plain:
  "target_weighted_sliding (gnr_new c) d t hei src = bindR (sliding_fresh (gnr_new c) d t hei src)
    (\<lambda>(b, g). let t' = target_from_big b in
     Inr (t', if hei - 1 \<le> cache_height_limit src then g\<lparr>last_target_cache := Some (hei, d, t, hash t', big t')\<rparr> else g))"
  by (simp add: target_weighted_sliding_def gnr_new_def Let_def)

lemma agree_sliding:
  assumes ok: "cache_ok src c g"
  shows "agree src c (target_weighted_sliding g d t hei src) (target_weighted_sliding (gnr_new c) d t hei src)"
proof -
  let ?keep = "\<lambda>(b, g). let t' = target_from_big b in
     Inr (t', if hei - 1 \<le> cache_height_limit src then g\<lparr>last_target_cache := Some (hei, d, t, hash t', big t')\<rparr> else g)"
  note plain = sliding_plain [of c d t hei src]
  have fr: "agree src c (sliding_fresh g d t hei src) (sliding_fresh (gnr_new c) d t hei src)"
    by (rule agree_fresh [OF ok cache_ok_new])
  have keep_ok: "cache_ok src c (snd (projr (?keep (b, h))))"
    if "cache_ok src c h" "value_of (sliding_fresh (gnr_new c) d t hei src) = Inr b" for b h
    using that by (auto simp: cache_ok_def target_from_big_def Let_def)
  have miss: "agree src c (bindR (sliding_fresh g d t hei src) ?keep) (bindR (sliding_fresh (gnr_new c) d t hei src) ?keep)"
    using fr keep_ok by (auto simp: agree_def [of src c "sliding_fresh g d t hei src"] value_of_def Let_def)
  show ?thesis
  proof (cases "hei - 1 \<le> cache_height_limit src \<and> (\<exists>hs b. last_target_cache g = Some (hei, d, t, hs, b))")
    case True
    then obtain hs b where hit: "hei - 1 \<le> cache_height_limit src" "last_target_cache g = Some (hei, d, t, hs, b)"
      by blast
    with ok have v: "value_of (sliding_fresh (gnr_new c) d t hei src) = Inr b" "hs = biguint_to_hash b"
      by (auto simp: cache_ok_def)
    then obtain h where h: "sliding_fresh (gnr_new c) d t hei src = Inr (b, h)" "cache_ok src c h"
      using agree_fresh [OF cache_ok_new cache_ok_new, of src c d t hei]
      by (auto simp: value_of_def agree_def)
    have "target_weighted_sliding g d t hei src = Inr (target_from_big b, g)"
      using hit v(2) by (simp add: target_weighted_sliding_def Let_def target_from_big_def)
    then show ?thesis using plain h keep_ok [OF h(2) v(1)] ok by (simp add: Let_def)
  next
    case False
    then have "target_weighted_sliding g d t hei src = bindR (sliding_fresh g d t hei src) ?keep"
      by (auto simp: target_weighted_sliding_def Let_def split: option.splits)
    with miss plain show ?thesis by simp
  qed
qed

lemma agree_legacy:
  assumes ok: "cache_ok src c g"
  shows "agree src c (target_legacy g mc d t hei src) (target_legacy (gnr_new c) mc d t hei src)"
  using ok cache_ok_new [of src c]
  by (auto simp: target_legacy_def req_cycle_block_def Let_def cache_ok_cnf intro!: agree_bind agree_req)

lemma agree_asert:
  assumes ok: "cache_ok src c g"
  shows "agree src c (target_asert g d hei bt src) (target_asert (gnr_new c) d hei bt src)"
  using ok cache_ok_new [of src c]
  by (auto simp: target_asert_def Let_def cache_ok_cnf intro!: agree_bind agree_req)

lemma agree_next_target:
  assumes ok: "cache_ok src c g"
  shows "agree src c (next_target g mc d t hei bt src) (next_target (gnr_new c) mc d t hei bt src)"
  using ok cache_ok_new [of src c] agree_legacy [OF ok] agree_asert [OF ok] agree_sliding [OF ok]
  by (simp add: next_target_def cache_ok_cnf)

lemma cache_ok_block_intro:
  assumes "cache_ok src c g" "hei \<le> cache_height_limit src \<longrightarrow> block_intro src hei = Some (tim, dif)"
  shows "cache_ok src c (cache_block_intro g hei tim dif)" "cache_ok src c (cache_root_block_intro g hei tim dif)"
proof -
  have clear: "cache_ok src c (g'\<lparr>last_target_cache := None\<rparr>)" "cache_ok src c (g'\<lparr>block_caches := []\<rparr>)"
    if "cache_ok src c g'" for g' using that by (simp_all add: cache_ok_def)
  have item: "hei \<le> cache_height_limit src \<longrightarrow> intro_item src hei = Some (tim, dif, u32_to_hash dif)"
    using assms(2) by (simp add: intro_item_def)
  show "cache_ok src c (cache_block_intro g hei tim dif)" "cache_ok src c (cache_root_block_intro g hei tim dif)"
    by (simp_all add: cache_block_intro_def cache_root_block_intro_def clear cache_ok_insert item assms(1))
qed

section \<open>The exponential rule is monotone\<close>

lemma asert_factor_mono: "f \<le> f' \<Longrightarrow> asert_factor f \<le> asert_factor f'"
  unfolding asert_factor_def Let_def by (intro add_mono div_le_mono mult_le_mono order_refl)

lemma asert_factor_bounds: "f < 65536 \<Longrightarrow> 65536 \<le> asert_factor f \<and> asert_factor f \<le> 2 * 65536"
proof -
  assume "f < 65536"
  then have "asert_factor f \<le> asert_factor 65535" by (intro asert_factor_mono) simp
  also have "asert_factor 65535 \<le> 2 * 65536"
    by (simp add: asert_factor_def Let_def ASERT_POLY_1_def ASERT_POLY_2_def ASERT_POLY_3_def
        ASERT_POLY_TERM_SHIFT_def ASERT_RADIX_def ASERT_RADIX_BITS_def)
  finally show ?thesis
    by (simp add: asert_factor_def Let_def ASERT_RADIX_def ASERT_RADIX_BITS_def)
qed

definition shift2 :: "int \<Rightarrow> nat \<Rightarrow> nat" where
  "shift2 s x = (if s < 0 then x div 2 ^ nat (- s) else x * 2 ^ nat s)"

lemma shift2_mono: "x \<le> y \<Longrightarrow> shift2 s x \<le> shift2 s y"
  by (simp add: shift2_def div_le_mono)

lemma shift2_step: "x \<le> 2 * y \<Longrightarrow> shift2 s x \<le> shift2 (s + 1) y"
proof (cases "s < -1")
  case True
  assume "x \<le> 2 * y"
  then have le: "x div 2 \<le> y" by simp
  have "nat (- s) = Suc (nat (- (s + 1)))" using True by linarith
  then have "x div 2 ^ nat (- s) = x div 2 div 2 ^ nat (- (s + 1))" by (simp add: div_mult2_eq)
  also have "\<dots> \<le> y div 2 ^ nat (- (s + 1))" using le by (rule div_le_mono)
  finally show ?thesis using True by (simp add: shift2_def)
next
  case False
  assume "x \<le> 2 * y"
  show ?thesis
  proof (cases "s = -1")
    case True
    with \<open>x \<le> 2 * y\<close> show ?thesis by (simp add: shift2_def)
  next
    case nn: False
    have "nat (s + 1) = Suc (nat s)" using False nn by linarith
    then have "shift2 (s + 1) y = 2 * y * 2 ^ nat s" using False nn by (simp add: shift2_def)
    moreover have "x * 2 ^ nat s \<le> 2 * y * 2 ^ nat s" using \<open>x \<le> 2 * y\<close> by (rule mult_le_mono1)
    moreover have "shift2 s x = x * 2 ^ nat s" using False nn by (simp add: shift2_def)
    ultimately show ?thesis by simp
  qed
qed

lemma shift2_exp_mono: "shift2 s y \<le> shift2 (s + int k) y"
proof (induction k)
  case (Suc k)
  have "shift2 (s + int k) y \<le> shift2 (s + int k + 1) y" by (rule shift2_step) simp
  with Suc show ?case by (simp add: ac_simps)
qed simp

lemma asert_scaled_eq:
  assumes "\<bar>e div 65536\<bar> < 2 ^ 64"
  shows "asert_scaled A e = shift2 (e div 65536) (A * asert_factor (nat (e mod 65536))) div 65536"
proof -
  have "e - e div 65536 * 65536 = e mod 65536" by (simp add: minus_div_mult_eq_mod)
  moreover have "- (e div 65536) mod 2 ^ 64 = - (e div 65536)" if "e div 65536 < 0"
    using assms that by (intro mod_pos_pos_trivial) simp_all
  moreover have "(e div 65536) mod 2 ^ 64 = e div 65536" if "e div 65536 > 0"
    using assms that by (intro mod_pos_pos_trivial) simp_all
  ultimately show ?thesis
    unfolding asert_scaled_def Let_def ASERT_RADIX_def ASERT_RADIX_BITS_def shift2_def
    by (cases "e div 65536 < 0"; cases "e div 65536 > 0") simp_all
qed

lemma asert_scaled_mono:
  assumes le: "e \<le> e'" and b: "\<bar>e div 65536\<bar> < 2 ^ 64" "\<bar>e' div 65536\<bar> < 2 ^ 64"
  shows "asert_scaled A e \<le> asert_scaled A e'"
proof -
  define s s' where "s = e div 65536" and "s' = e' div 65536"
  define f f' where "f = asert_factor (nat (e mod 65536))" and "f' = asert_factor (nat (e' mod 65536))"
  have "nat (x mod 65536) < 65536" for x :: int using pos_mod_bound [of 65536 x] by linarith
  then have fb: "65536 \<le> f" "f \<le> 2 * 65536" "65536 \<le> f'" using asert_factor_bounds by (simp_all add: f_def f'_def)
  have ss: "s \<le> s'" unfolding s_def s'_def using le by (rule zdiv_mono1) simp
  have "shift2 s (A * f) \<le> shift2 s' (A * f')"
  proof (cases "s = s'")
    case True
    have "e = 65536 * s + e mod 65536" "e' = 65536 * s' + e' mod 65536" by (simp_all add: s_def s'_def)
    then have "e mod 65536 \<le> e' mod 65536" using le True by linarith
    then have "f \<le> f'" unfolding f_def f'_def by (intro asert_factor_mono nat_mono)
    then show ?thesis unfolding True by (intro shift2_mono mult_le_mono2)
  next
    case False
    then obtain k where k: "s' = s + 1 + int k" using ss by (metis add.commute linorder_not_le zle_iff_zadd zless_add1_eq add1_zle_eq le_less)
    have "A * f \<le> 2 * (A * f')" using fb by (simp add: mult.left_commute)
    then have "shift2 s (A * f) \<le> shift2 (s + 1) (A * f')" by (rule shift2_step)
    also have "\<dots> \<le> shift2 s' (A * f')" unfolding k by (rule shift2_exp_mono)
    finally show ?thesis .
  qed
  then have "shift2 s (A * f) div 65536 \<le> shift2 s' (A * f') div 65536" by (rule div_le_mono)
  then show ?thesis unfolding asert_scaled_eq [OF b(1)] asert_scaled_eq [OF b(2)] s_def s'_def f_def f'_def .
qed

lemma big_target_from [simp]: "big (target_from_num n) = u32_to_biguint n" "big (target_from_big b) = b"
  by (simp_all add: target_from_num_def target_from_big_def Let_def)

lemma big_asert_limit:
  "big (asert_limit d x) = (if x = 0 then 1 else min (min x (2 * u32_to_biguint d)) (u32_to_biguint LOWEST_DIFFICULTY))"
  by (auto simp: asert_limit_def Let_def ASERT_EASING_MAX_SCALE_def min_def)

lemma lowest_pos: "0 < u32_to_biguint LOWEST_DIFFICULTY"
  by (simp add: u32_to_biguint_eq LOWEST_DIFFICULTY_def Let_def)

lemma asert_limit_mono:
  assumes "x \<le> y" "0 < u32_to_biguint d"
  shows "big (asert_limit d x) \<le> big (asert_limit d y)"
  using assms lowest_pos by (auto simp: big_asert_limit)

lemma wrap_i128_id: "- (2 ^ 127) \<le> x \<Longrightarrow> x < 2 ^ 127 \<Longrightarrow> wrap_i128 x = x"
  unfolding wrap_i128_def by (subst mod_pos_pos_trivial) simp_all

lemma div_trunc_mono: "a \<le> b \<Longrightarrow> 0 < k \<Longrightarrow> div_trunc a k \<le> div_trunc b k"
proof -
  assume ab: "a \<le> b" and k: "0 < k"
  have "0 \<le> - a div k" if "a < 0" using that k by (simp add: pos_imp_zdiv_nonneg_iff)
  moreover have "0 \<le> b div k" if "\<not> b < 0" using that k by (simp add: pos_imp_zdiv_nonneg_iff)
  moreover have "- b div k \<le> - a div k" using ab k by (intro zdiv_mono1) simp_all
  moreover have "a div k \<le> b div k" using ab k by (rule zdiv_mono1)
  ultimately show ?thesis using ab by (auto simp: div_trunc_def)
qed

lemma unat_u64_uint: "0 \<le> uint (x :: u64) \<and> uint x < 2 ^ 64"
proof -
  have "uint x < 2 ^ LENGTH(64)" by (rule unsigned_less)
  then show ?thesis by simp
qed

lemma asert_exponent_eq:
  assumes each: "0 \<le> each" "each \<le> 10000" and td: "\<bar>td\<bar> < 2 ^ 64" and hg: "\<bar>hg\<bar> < 2 ^ 64"
  shows "asert_exponent each td hg = div_trunc ((td - each * hg) * 65536) 10800"
    "\<bar>div_trunc ((td - each * hg) * 65536) 10800 div 65536\<bar> < 2 ^ 64"
proof -
  have "\<bar>each * hg\<bar> \<le> 10000 * 2 ^ 64"
    unfolding abs_mult using each hg by (intro mult_mono) simp_all
  then have m: "- (10000 * 2 ^ 64) \<le> each * hg" "each * hg \<le> 10000 * 2 ^ 64" by linarith+
  define x where "x = td - each * hg"
  have x: "- (10001 * 2 ^ 64) \<le> x" "x \<le> 10001 * 2 ^ 64" using m td unfolding x_def by linarith+
  have "wrap_i128 (each * hg) = each * hg" using m by (intro wrap_i128_id) simp_all
  moreover have "wrap_i128 x = x" using x by (intro wrap_i128_id) simp_all
  moreover have "wrap_i128 (x * 65536) = x * 65536" using x by (intro wrap_i128_id) simp_all
  ultimately show "asert_exponent each td hg = div_trunc ((td - each * hg) * 65536) 10800"
    by (simp add: asert_exponent_def ASERT_RADIX_def ASERT_RADIX_BITS_def ASERT_HALF_LIFE_def x_def [symmetric])
  have le: "\<bar>x * 65536\<bar> \<le> 10001 * 2 ^ 64 * 65536" using x by (simp add: abs_le_iff)
  have "\<bar>div_trunc (x * 65536) 10800\<bar> \<le> 10001 * 2 ^ 64 * 65536 div 10800"
  proof (cases "x * 65536 < 0")
    case True
    then have "- (x * 65536) div 10800 \<le> 10001 * 2 ^ 64 * 65536 div 10800" using le by (intro zdiv_mono1) linarith+
    moreover have "0 \<le> - (x * 65536) div 10800" using True by (simp add: pos_imp_zdiv_nonneg_iff)
    ultimately show ?thesis using True by (simp add: div_trunc_def)
  next
    case False
    then have "x * 65536 div 10800 \<le> 10001 * 2 ^ 64 * 65536 div 10800" using le by (intro zdiv_mono1) linarith+
    moreover have "0 \<le> x * 65536 div 10800" using False by (simp add: pos_imp_zdiv_nonneg_iff)
    ultimately show ?thesis using False by (simp add: div_trunc_def)
  qed
  then have b: "- (2 ^ 64 * 65536 - 65536) \<le> div_trunc (x * 65536) 10800" "div_trunc (x * 65536) 10800 \<le> 2 ^ 64 * 65536 - 65536"
    by simp_all
  have "- (2 ^ 64 * 65536 - 65536) div 65536 \<le> div_trunc (x * 65536) 10800 div 65536"
    "div_trunc (x * 65536) 10800 div 65536 \<le> (2 ^ 64 * 65536 - 65536) div 65536"
    using b by (intro zdiv_mono1; simp)+
  then show "\<bar>div_trunc ((td - each * hg) * 65536) 10800 div 65536\<bar> < 2 ^ 64"
    unfolding x_def [symmetric] by simp
qed

lemma target_asert_value:
  assumes ok: "cache_ok src (cnf g) g" and h: "hei \<noteq> asert_upgrade_height (cnf g)"
    and anchor: "block_intro src (asert_upgrade_height (cnf g)) = Some (tim, dif)"
  shows "value_of (target_asert g d hei bt src) = Inr (asert_limit d (asert_scaled (u32_to_biguint ASERT_START_TARGET_NUM)
    (asert_exponent (uint (each_block_target_time (cnf g))) (uint bt - uint tim)
       (uint hei - uint (asert_upgrade_height (cnf g))))))"
proof -
  have "value_of (target_asert g d hei bt src) = value_of (target_asert (gnr_new (cnf g)) d hei bt src)"
    by (rule agree_value [OF agree_asert [OF ok]])
  then show ?thesis using h anchor
    by (simp add: target_asert_def Let_def req_block_intro_def gnr_new_def value_of_def cache_insert_def)
qed

text \<open>Under the exponential rule a later candidate timestamp never makes the next target
  smaller, so waiting never makes a block harder to mine. The rule always answers once the
  anchor block is known, and no intermediate \<open>i128\<close> or shift count wraps for block times up
  to 10000 seconds.\<close>
theorem asert_monotone_in_time:
  assumes "cache_ok src (cnf g) g" "block_intro src (asert_upgrade_height (cnf g)) = Some (tim, dif)"
    and "uint (each_block_target_time (cnf g)) \<le> 10000" "0 < u32_to_biguint d" "bt \<le> bt'"
  shows "\<exists>r r'. value_of (target_asert g d hei bt src) = Inr r \<and> value_of (target_asert g d hei bt' src) = Inr r' \<and> big r \<le> big r'"
proof (cases "hei = asert_upgrade_height (cnf g)")
  case True
  then show ?thesis by (simp add: target_asert_def value_of_def)
next
  case False
  define each hg where "each = uint (each_block_target_time (cnf g))" and "hg = uint hei - uint (asert_upgrade_height (cnf g))"
  let ?x = "\<lambda>b. div_trunc ((uint b - uint tim - each * hg) * 65536) 10800"
  have hg: "\<bar>hg\<bar> < 2 ^ 64"
    using unat_u64_uint [of hei] unat_u64_uint [of "asert_upgrade_height (cnf g)"] unfolding hg_def by linarith
  have td: "\<bar>uint b - uint tim\<bar> < 2 ^ 64" for b :: u64
    using unat_u64_uint [of b] unat_u64_uint [of tim] by linarith
  have each: "0 \<le> each" "each \<le> 10000" using assms(3) by (simp_all add: each_def)
  note ex = asert_exponent_eq [OF each td hg]
  have "?x bt \<le> ?x bt'" using assms(5) by (intro div_trunc_mono) (simp_all add: word_le_def)
  then have "asert_scaled A (?x bt) \<le> asert_scaled A (?x bt')" for A
    by (rule asert_scaled_mono) (rule ex(2))+
  then show ?thesis
    using target_asert_value [OF assms(1) False assms(2)] asert_limit_mono [OF _ assms(4)]
    by (simp add: each_def [symmetric] hg_def [symmetric] ex(1))
qed

lemma sample_lowest: "0 < u32_to_biguint ASERT_START_TARGET_NUM"
  by (simp add: u32_to_biguint_eq ASERT_START_TARGET_NUM_def Let_def)

definition sample_conf :: mint_conf where
  "sample_conf = \<lparr>chain_id = 7, difficulty_group_blocks = 4, difficulty_adjust_blocks = 8, each_block_target_time = 300\<rparr>"

definition sample_source :: block_intro_source where
  "sample_source = \<lparr>cache_height_limit = 20, block_intro = (\<lambda>h. Some (1000 + h * 300, ASERT_START_TARGET_NUM))\<rparr>"

definition sample_gnr :: difficulty_gnr where
  "sample_gnr = cache_block_intro (gnr_new sample_conf) 10 4000 ASERT_START_TARGET_NUM"

lemma sample_gnr_ok: "cache_ok sample_source sample_conf sample_gnr" "cnf sample_gnr = sample_conf"
proof -
  show "cache_ok sample_source sample_conf sample_gnr"
    unfolding sample_gnr_def by (rule cache_ok_block_intro [OF cache_ok_new]) (simp add: sample_source_def)
  then show "cnf sample_gnr = sample_conf" by (rule cache_ok_cnf)
qed

theorem asert_monotone_in_time_witness:
  "\<exists>r r'. value_of (target_asert sample_gnr ASERT_START_TARGET_NUM 12 4700 sample_source) = Inr r \<and>
     value_of (target_asert sample_gnr ASERT_START_TARGET_NUM 12 9000 sample_source) = Inr r' \<and> big r \<le> big r'"
proof -
  have "block_intro sample_source (asert_upgrade_height (cnf sample_gnr)) = Some (4000, ASERT_START_TARGET_NUM)"
    "uint (each_block_target_time (cnf sample_gnr)) \<le> 10000"
    by (simp_all add: sample_gnr_ok(2) sample_source_def sample_conf_def asert_upgrade_height_def is_mainnet_def window_blocks_def)
  from asert_monotone_in_time [OF _ this sample_lowest] show ?thesis by (simp add: sample_gnr_ok)
qed

text \<open>C5: The caches of the difficulty generator never change a target: with any cache contents
  that were read from the same source, the rule computes what it computes with empty caches
  (errors and panics included), and it leaves the caches in such a state.\<close>
theorem difficulty_caches_transparent:
  assumes "cache_ok src (cnf g) g"
  shows "value_of (next_difficulty g mc ph pt pd bt src) = value_of (next_difficulty (gnr_new (cnf g)) mc ph pt pd bt src) \<and>
    (case next_difficulty g mc ph pt pd bt src of Inl e \<Rightarrow> True | Inr (t, g') \<Rightarrow> cache_ok src (cnf g) g')"
proof -
  have "agree src (cnf g) (next_difficulty g mc ph pt pd bt src) (next_difficulty (gnr_new (cnf g)) mc ph pt pd bt src)"
    unfolding next_difficulty_def by (rule agree_next_target [OF assms])
  then show ?thesis by (auto simp: agree_def value_of_def)
qed

theorem difficulty_caches_transparent_witness:
  "value_of (next_difficulty sample_gnr sample_conf 11 4300 ASERT_START_TARGET_NUM 4600 sample_source) =
   value_of (next_difficulty (gnr_new sample_conf) sample_conf 11 4300 ASERT_START_TARGET_NUM 4600 sample_source)"
  using difficulty_caches_transparent [of sample_source sample_gnr sample_conf 11 4300 ASERT_START_TARGET_NUM 4600]
  by (simp add: sample_gnr_ok)

lemma clamp_bounds: "prev div 2 \<le> clamp_target_half_double prev x \<and> clamp_target_half_double prev x \<le> prev * 2"
  by (auto simp: clamp_target_half_double_def Let_def)

lemma sliding_bounds:
  assumes "cache_ok src (cnf g) g" "target_weighted_sliding g d t hei src = Inr (r, g')"
  shows "u32_to_biguint d div 2 \<le> big r \<and> big r \<le> u32_to_biguint d * 2"
proof -
  have "\<exists>b h. sliding_fresh (gnr_new (cnf g)) d t hei src = Inr (b, h) \<and> r = target_from_big b"
    using agree_sliding [OF assms(1), of d t hei] assms(2)
    by (auto simp: agree_def sliding_plain Let_def bindR_eq_Inr)
  then obtain x where "r = target_from_big (clamp_target_half_double (u32_to_biguint d) x)"
    by (auto simp: sliding_fresh_def Let_def bindR_eq_Inr)
  with clamp_bounds show ?thesis by simp
qed

lemma legacy_bounds:
  assumes "target_legacy g mc d t hei src = Inr (r, g')" "difficulty_adjust_blocks (cnf g) * 2 \<le> hei"
    and "unat (difficulty_adjust_blocks (cnf g) * each_block_target_time (cnf g)) * 4 < 2 ^ 64"
    and "4 dvd unat (difficulty_adjust_blocks (cnf g) * each_block_target_time (cnf g))"
  shows "u32_to_biguint d div 4 \<le> big r \<and> big r \<le> u32_to_biguint d * 4"
proof -
  let ?p = "u32_to_biguint d"
  define sp where "sp = difficulty_adjust_blocks (cnf g) * each_block_target_time (cnf g)"
  have nl: "\<not> hei < difficulty_adjust_blocks (cnf g) * 2" using assms(2) by simp
  have up: "unat (sp * 4) = unat sp * 4" using assms(3) by (simp add: sp_def [symmetric] unat_word_ariths)
  have down: "unat (sp div 4) = unat sp div 4" by (simp add: unat_div)
  define cl where "cl x = (if x < sp div 4 then sp div 4 else if x > sp * 4 then sp * 4 else x)" for x
  have "r = target_from_num d \<or> sp \<noteq> 0 \<and> (\<exists>x. r = target_from_big (?p * unat (cl x) div unat sp))"
    using assms(1) nl unfolding target_legacy_def Let_def sp_def [symmetric] cl_def [symmetric]
    by (auto simp: bindR_eq_Inr split: if_splits prod.splits)
  moreover have "sp div 4 \<le> cl x" "cl x \<le> sp * 4" if "sp div 4 \<le> sp * 4" for x
    using that by (auto simp: cl_def)
  moreover have "sp div 4 \<le> sp * 4" unfolding word_le_nat_alt up down by linarith
  ultimately consider "r = target_from_num d"
    | y where "sp \<noteq> 0" "sp div 4 \<le> y" "y \<le> sp * 4" "r = target_from_big (?p * unat y div unat sp)"
    by blast
  then show ?thesis
  proof cases
    case 1
    then show ?thesis by simp
  next
    case (2 y)
    have pos: "unat sp > 0" using 2(1) by (simp add: unat_gt_0)
    obtain q where q: "unat sp = 4 * q" using assms(4) by (auto simp: sp_def)
    have "unat sp div 4 \<le> unat y" using 2(2) down by (simp add: word_le_nat_alt)
    moreover have "unat y \<le> unat sp * 4" using 2(3) up down by (auto simp: word_le_nat_alt)
    ultimately have "q \<le> unat y" "unat y \<le> 4 * unat sp" using q by simp_all
    then have "?p * q div unat sp \<le> ?p * unat y div unat sp" "?p * unat y div unat sp \<le> ?p * (4 * unat sp) div unat sp"
      by (simp_all only: div_le_mono mult_le_mono2)
    moreover have "?p * q div unat sp = ?p div 4" using pos unfolding q by (simp add: mult.commute)
    moreover have "?p * (4 * unat sp) div unat sp = ?p * 4" using pos by simp
    ultimately show ?thesis using 2(4) by simp
  qed
qed

text \<open>The exponent counts half lives: its integral part is the deviation from the schedule, divided by the half life, rounded
  down.\<close>

lemma div_trunc_half_lives: "div_trunc (x * 65536) 10800 div 65536 = x div 10800"
proof (cases "x < 0")
  case False
  have "x * 65536 div 10800 div 65536 = x * 65536 div (10800 * 65536)" by (rule zdiv_zmult2_eq [symmetric]) simp
  then show ?thesis using False by (simp add: div_trunc_def)
next
  case True
  define y where "y = - x"
  define k r where "k = y div 10800" and "r = y mod 10800"
  have y: "y = 10800 * k + r" "0 \<le> r" "r < 10800" by (simp_all add: k_def r_def)
  define q where "q = r * 65536 div 10800"
  have a: "y * 65536 div 10800 = 65536 * k + q"
  proof -
    have "y * 65536 = r * 65536 + (65536 * k) * 10800" using y(1) by simp
    then have "y * 65536 div 10800 = (r * 65536 + (65536 * k) * 10800) div 10800" by simp
    also have "\<dots> = 65536 * k + q" unfolding q_def by (subst div_mult_self1) simp_all
    finally show ?thesis .
  qed
  have d: "div_trunc (x * 65536) 10800 = - (65536 * k + q)" using True a by (simp add: div_trunc_def y_def)
  show ?thesis
  proof (cases "r = 0")
    case r: True
    then have "q = 0" by (simp add: q_def)
    moreover have "x = - k * 10800" using y r by (simp add: y_def)
    ultimately show ?thesis using d by simp
  next
    case r: False
    have q: "0 < q" "q < 65536"
    proof -
      have "1 * 65536 div 10800 \<le> q" "q \<le> 10799 * 65536 div 10800"
        unfolding q_def using y r by (intro zdiv_mono1 mult_right_mono; simp)+
      then show "0 < q" "q < 65536" by simp_all
    qed
    have "- (65536 * k + q) div 65536 = - k - 1"
      using q by (intro int_div_pos_eq [of _ _ _ "65536 - q"]) simp_all
    moreover have "x div 10800 = - k - 1"
      using y r by (intro int_div_pos_eq [of _ _ _ "10800 - r"]) (simp_all add: y_def)
    ultimately show ?thesis using d by simp
  qed
qed

lemma shift2_radix: "shift2 s (A * 65536) div 65536 = shift2 s A"
proof (cases "s < 0")
  case True
  have "A * 65536 div 2 ^ nat (- s) div 65536 = A * 65536 div 65536 div 2 ^ nat (- s)"
    by (simp only: div_mult2_eq [symmetric] mult.commute)
  then show ?thesis using True by (simp add: shift2_def)
qed (simp add: shift2_def mult.assoc mult.left_commute)

lemma asert_scaled_bounds:
  assumes "\<bar>e div 65536\<bar> < 2 ^ 64"
  shows "shift2 (e div 65536) A \<le> asert_scaled A e \<and> asert_scaled A e \<le> shift2 (e div 65536 + 1) A"
proof -
  let ?s = "e div 65536" let ?f = "asert_factor (nat (e mod 65536))"
  have "nat (e mod 65536) < 65536" using pos_mod_bound [of 65536 e] by linarith
  note f = asert_factor_bounds [OF this]
  have "A * ?f \<le> 2 * (A * 65536)" using f by (simp add: mult.left_commute)
  then have "shift2 ?s (A * ?f) \<le> shift2 (?s + 1) (A * 65536)" by (rule shift2_step)
  moreover have "shift2 ?s (A * 65536) \<le> shift2 ?s (A * ?f)" using f by (intro shift2_mono mult_le_mono2) simp
  ultimately show ?thesis unfolding asert_scaled_eq [OF assms]
    using div_le_mono [of "shift2 ?s (A * 65536)" "shift2 ?s (A * ?f)" 65536]
      div_le_mono [of "shift2 ?s (A * ?f)" "shift2 (?s + 1) (A * 65536)" 65536] by (simp add: shift2_radix)
qed

text \<open>The deviation of a block from the schedule that the anchor block starts, in seconds.\<close>

definition asert_deviation :: "mint_conf \<Rightarrow> u64 \<Rightarrow> u64 \<Rightarrow> u64 \<Rightarrow> int" where
  "asert_deviation c tim hei bt = uint bt - uint tim - uint (each_block_target_time c) * (uint hei - uint (asert_upgrade_height c))"

lemma asert_target_value:
  assumes ok: "cache_ok src (cnf g) g" and ta: "target_asert g d hei bt src = Inr (r, g')"
    and h: "hei \<noteq> asert_upgrade_height (cnf g)" and each: "uint (each_block_target_time (cnf g)) \<le> 10000"
  shows "\<exists>tim dif z. block_intro src (asert_upgrade_height (cnf g)) = Some (tim, dif) \<and>
    shift2 (asert_deviation (cnf g) tim hei bt div 10800) (u32_to_biguint ASERT_START_TARGET_NUM) \<le> z \<and>
    z \<le> shift2 (asert_deviation (cnf g) tim hei bt div 10800 + 1) (u32_to_biguint ASERT_START_TARGET_NUM) \<and>
    big r = (if z = 0 then 1 else min (min z (2 * u32_to_biguint d)) (u32_to_biguint LOWEST_DIFFICULTY))"
proof -
  let ?A = "u32_to_biguint ASERT_START_TARGET_NUM"
  have v: "value_of (target_asert g d hei bt src) = value_of (target_asert (gnr_new (cnf g)) d hei bt src)"
    by (rule agree_value [OF agree_asert [OF ok]])
  obtain tim dif where anchor: "block_intro src (asert_upgrade_height (cnf g)) = Some (tim, dif)"
  proof (cases "block_intro src (asert_upgrade_height (cnf g))")
    case None
    then have "\<exists>p. target_asert (gnr_new (cnf g)) d hei bt src = Inl p"
      using h by (simp add: target_asert_def Let_def req_block_intro_def gnr_new_def)
    then show ?thesis using v ta by (auto simp: value_of_def)
  qed fast
  define hg where "hg = uint hei - uint (asert_upgrade_height (cnf g))"
  have hg: "\<bar>hg\<bar> < 2 ^ 64"
    using unat_u64_uint [of hei] unat_u64_uint [of "asert_upgrade_height (cnf g)"] unfolding hg_def by linarith
  have td: "\<bar>uint bt - uint tim\<bar> < 2 ^ 64" using unat_u64_uint [of bt] unat_u64_uint [of tim] by linarith
  define each where "each = uint (each_block_target_time (cnf g))"
  have e: "0 \<le> each" "each \<le> 10000" using each by (simp_all add: each_def)
  define x where "x = uint bt - uint tim - each * hg"
  have dev: "asert_deviation (cnf g) tim hei bt = x" by (simp add: asert_deviation_def x_def each_def hg_def)
  note ex = asert_exponent_eq [OF e td hg, folded x_def]
  define z where "z = asert_scaled ?A (asert_exponent each (uint bt - uint tim) hg)"
  have "big r = (if z = 0 then 1 else min (min z (2 * u32_to_biguint d)) (u32_to_biguint LOWEST_DIFFICULTY))"
    using target_asert_value [OF ok h anchor, of d bt] ta
    by (simp add: value_of_def big_asert_limit z_def each_def [symmetric] hg_def [symmetric])
  moreover have "shift2 (x div 10800) ?A \<le> z \<and> z \<le> shift2 (x div 10800 + 1) ?A"
    using asert_scaled_bounds [OF ex(2), of ?A] unfolding z_def ex(1) div_trunc_half_lives .
  ultimately show ?thesis using anchor dev by blast
qed

text \<open>C6: What each rule gives. On the main net before the upgrade: the lowest difficulty in the first two periods, then at most four
  times and at least a quarter of the target of the parent. In the weighted window: between half and twice the target of the parent. The
  exponential rule starts from a fixed target at its activation height; after it, the target doubles with every half life that a
  block is late against the schedule and halves with every half life it is early, up to a factor of two between whole half lives, and
  is at least 1 and at most twice the target of the parent and the lowest difficulty. Before the first full window the target is the
  lowest difficulty. Configurations have at most 10000 seconds per block, and periods of a whole multiple of four seconds that do not
  overflow.\<close>
theorem difficulty_step_bounded:
  assumes "cache_ok src (cnf g) g" "next_target g mc d t hei bt src = Inr (r, g')"
    and "unat (difficulty_adjust_blocks (cnf g) * each_block_target_time (cnf g)) * 4 < 2 ^ 64"
    and "4 dvd unat (difficulty_adjust_blocks (cnf g) * each_block_target_time (cnf g))"
    and "uint (each_block_target_time (cnf g)) \<le> 10000"
  shows "if is_mainnet mc \<and> \<not> is_upgrade_height (cnf g) hei
     then if hei < difficulty_adjust_blocks (cnf g) * 2 then big r = u32_to_biguint LOWEST_DIFFICULTY
       else u32_to_biguint d div 4 \<le> big r \<and> big r \<le> u32_to_biguint d * 4
     else if is_asert_height (cnf g) hei
     then if hei = asert_upgrade_height (cnf g) then big r = u32_to_biguint ASERT_START_TARGET_NUM
       else \<exists>tim dif z. block_intro src (asert_upgrade_height (cnf g)) = Some (tim, dif) \<and>
         shift2 (asert_deviation (cnf g) tim hei bt div 10800) (u32_to_biguint ASERT_START_TARGET_NUM) \<le> z \<and>
         z \<le> shift2 (asert_deviation (cnf g) tim hei bt div 10800 + 1) (u32_to_biguint ASERT_START_TARGET_NUM) \<and>
         big r = (if z = 0 then 1 else min (min z (2 * u32_to_biguint d)) (u32_to_biguint LOWEST_DIFFICULTY))
     else if use_bootstrap_rule (cnf g) hei then big r = u32_to_biguint LOWEST_DIFFICULTY
     else u32_to_biguint d div 2 \<le> big r \<and> big r \<le> u32_to_biguint d * 2"
proof -
  define legacy where "legacy \<longleftrightarrow> is_mainnet mc \<and> \<not> is_upgrade_height (cnf g) hei"
  have n: "(if legacy then target_legacy g mc d t hei src else if is_asert_height (cnf g) hei then target_asert g d hei bt src
      else if use_bootstrap_rule (cnf g) hei then Inr (target_bootstrap, g) else target_weighted_sliding g d t hei src) = Inr (r, g')"
    using assms(2) unfolding next_target_def legacy_def .
  have legacy: "if hei < difficulty_adjust_blocks (cnf g) * 2 then big r = u32_to_biguint LOWEST_DIFFICULTY
       else u32_to_biguint d div 4 \<le> big r \<and> big r \<le> u32_to_biguint d * 4" if l: "target_legacy g mc d t hei src = Inr (r, g')"
  proof (cases "hei < difficulty_adjust_blocks (cnf g) * 2")
    case True
    then show ?thesis using l by (auto simp: target_legacy_def Let_def target_bootstrap_def)
  next
    case False
    then show ?thesis using legacy_bounds [OF l _ assms(3,4)] by simp
  qed
  have fixed: "target_asert g d hei bt src = Inr (r, g') \<Longrightarrow> hei = asert_upgrade_height (cnf g) \<Longrightarrow>
      big r = u32_to_biguint ASERT_START_TARGET_NUM" "Inr (target_bootstrap, g) = Inr (r, g') \<Longrightarrow> big r = u32_to_biguint LOWEST_DIFFICULTY"
    by (auto simp: target_asert_def Let_def target_bootstrap_def)
  note asert = asert_target_value [OF assms(1) _ _ assms(5), of d hei bt r g'] and sliding = sliding_bounds [OF assms(1), of d t hei r g']
  show ?thesis unfolding legacy_def [symmetric]
    using n legacy asert sliding fixed
    by (cases legacy; cases "is_asert_height (cnf g) hei"; cases "use_bootstrap_rule (cnf g) hei";
        cases "hei = asert_upgrade_height (cnf g)") (simp_all only: if_True if_False simp_thms)
qed

lemma sample_next:
  "\<exists>r g'. next_target sample_gnr sample_conf ASERT_START_TARGET_NUM 4600 16 4900 sample_source = Inr (r, g')"
proof -
  have "next_target sample_gnr sample_conf ASERT_START_TARGET_NUM 4600 16 4900 sample_source
      = target_asert sample_gnr ASERT_START_TARGET_NUM 16 4900 sample_source"
    by (simp add: next_target_def sample_gnr_ok is_mainnet_def is_asert_height_def asert_upgrade_height_def
        window_blocks_def sample_conf_def)
  moreover have "\<exists>x. value_of (target_asert sample_gnr ASERT_START_TARGET_NUM 16 4900 sample_source) = Inr x"
  proof -
    have "block_intro sample_source (asert_upgrade_height (cnf sample_gnr)) = Some (4000, ASERT_START_TARGET_NUM)"
      "(16 :: u64) \<noteq> asert_upgrade_height (cnf sample_gnr)"
      by (simp_all add: sample_gnr_ok(2) sample_source_def sample_conf_def asert_upgrade_height_def is_mainnet_def window_blocks_def)
    from target_asert_value [OF _ this(2,1)] show ?thesis by (simp add: sample_gnr_ok)
  qed
  ultimately show ?thesis by (auto simp: value_of_def bindR_eq_Inr)
qed

theorem difficulty_step_bounded_witness:
  "\<exists>r g'. next_target sample_gnr sample_conf ASERT_START_TARGET_NUM 4600 16 4900 sample_source = Inr (r, g') \<and>
     u32_to_biguint ASERT_START_TARGET_NUM div 2 \<le> big r"
proof -
  obtain r g' where n: "next_target sample_gnr sample_conf ASERT_START_TARGET_NUM 4600 16 4900 sample_source = Inr (r, g')"
    using sample_next by blast
  have ok: "cache_ok sample_source (cnf sample_gnr) sample_gnr" by (simp add: sample_gnr_ok)
  have c: "unat (difficulty_adjust_blocks (cnf sample_gnr) * each_block_target_time (cnf sample_gnr)) * 4 < 2 ^ 64"
    "4 dvd unat (difficulty_adjust_blocks (cnf sample_gnr) * each_block_target_time (cnf sample_gnr))"
    "uint (each_block_target_time (cnf sample_gnr)) \<le> 10000"
    by (simp_all add: sample_gnr_ok sample_conf_def)
  have h: "\<not> is_mainnet sample_conf" "is_asert_height sample_conf 16" "16 \<noteq> asert_upgrade_height sample_conf"
    "asert_upgrade_height sample_conf = 10"
    by (simp_all add: is_mainnet_def is_asert_height_def asert_upgrade_height_def window_blocks_def sample_conf_def)
  have d: "asert_deviation sample_conf 4000 16 4900 div 10800 = -1"
    by (simp add: asert_deviation_def h(4)) (simp add: sample_conf_def)
  from difficulty_step_bounded [OF ok n c] h obtain z where
    z: "shift2 (-1) (u32_to_biguint ASERT_START_TARGET_NUM) \<le> z"
      "big r = (if z = 0 then 1 else min (min z (2 * u32_to_biguint ASERT_START_TARGET_NUM)) (u32_to_biguint LOWEST_DIFFICULTY))"
    by (auto simp: sample_gnr_ok sample_source_def d)
  have "u32_to_biguint ASERT_START_TARGET_NUM div 2 \<le> u32_to_biguint LOWEST_DIFFICULTY"
    by (simp add: u32_to_biguint_eq ASERT_START_TARGET_NUM_def LOWEST_DIFFICULTY_def Let_def)
  then have "u32_to_biguint ASERT_START_TARGET_NUM div 2 \<le> big r" using z by (auto simp: shift2_def)
  then show ?thesis using n by blast
qed

end
