(* ===== verification/Fold64.thy ===== *)
theory Fold64
  imports Prelude
begin

text \<open>
  \<^verbatim>\<open>field/src/number/fold64.rs\<close>: the variable-length encoding of integers below
  \<open>2 ^ 61\<close> used for satoshi, diamond counts and asset amounts. The top three bits of
  the first byte hold the number of further bytes; the rest is the value, big endian, in the
  shortest form.
\<close>

section \<open>Definitions\<close>

datatype fold64 = Fold64 (value64: u64)

definition BYTEN :: nat where "BYTEN = 256"
definition FOLDU64SX1 :: nat where "FOLDU64SX1 = 32"
definition FOLDU64SX8 :: nat where "FOLDU64SX8 = FOLDU64SX1 * BYTEN ^ 7"

definition fold64_MAX :: nat where
  "fold64_MAX = FOLDU64SX8 - 1"

definition fold64_uint :: "fold64 \<Rightarrow> nat" where
  "fold64_uint f = unat (value64 f)"

definition fold64_is_zero :: "fold64 \<Rightarrow> bool" where
  "fold64_is_zero f = (value64 f = 0)"

definition fold64_checked :: "fold64 \<Rightarrow> fold64 ret" where
  "fold64_checked f =
     (if fold64_uint f > fold64_MAX then Inl (Fault ''Fold64 value cannot exceed max'') else Inr f)"

definition fold64_from :: "u64 \<Rightarrow> fold64 ret" where
  "fold64_from v = fold64_checked (Fold64 v)"

definition checked_u64 :: "nat \<Rightarrow> u64 option" where
  "checked_u64 n = (if n < 2 ^ 64 then Some (word_of_nat n) else None)"

definition fold64_checked_add :: "fold64 \<Rightarrow> fold64 \<Rightarrow> fold64 ret" where
  "fold64_checked_add a b =
     (case checked_u64 (fold64_uint a + fold64_uint b) of
        None \<Rightarrow> Inl (Fault ''Fold64 checked_add overflow'')
      | Some v \<Rightarrow> fold64_from v)"

definition fold64_checked_sub :: "fold64 \<Rightarrow> fold64 \<Rightarrow> fold64 ret" where
  "fold64_checked_sub a b =
     (if fold64_uint a < fold64_uint b then Inl (Fault ''Fold64 checked_sub overflow'')
      else fold64_from (value64 a - value64 b))"

definition fold64_checked_mul :: "fold64 \<Rightarrow> fold64 \<Rightarrow> fold64 ret" where
  "fold64_checked_mul a b =
     (case checked_u64 (fold64_uint a * fold64_uint b) of
        None \<Rightarrow> Inl (Fault ''Fold64 checked_mul overflow'')
      | Some v \<Rightarrow> fold64_from v)"

definition fold64_checked_div :: "fold64 \<Rightarrow> fold64 \<Rightarrow> fold64 ret" where
  "fold64_checked_div a b =
     (if value64 b = 0 then Inl (Fault ''Fold64 checked_div divide by zero'')
      else fold64_from (value64 a div value64 b))"

text \<open>The operators \<open>+\<close>, \<open>-\<close>, \<open>*\<close> and \<open>/\<close> panic where the checked form errs.\<close>

definition expectR :: "'a ret \<Rightarrow> string \<Rightarrow> 'a ret" where
  "expectR r msg = (case r of Inl _ \<Rightarrow> Inl (Panic msg) | Inr x \<Rightarrow> Inr x)"

definition fold64_add :: "fold64 \<Rightarrow> fold64 \<Rightarrow> fold64 ret" where
  "fold64_add a b = expectR (fold64_checked_add a b) ''Fold64 add overflow''"

definition fold64_sub :: "fold64 \<Rightarrow> fold64 \<Rightarrow> fold64 ret" where
  "fold64_sub a b = expectR (fold64_checked_sub a b) ''Fold64 sub overflow''"

definition fold64_mul :: "fold64 \<Rightarrow> fold64 \<Rightarrow> fold64 ret" where
  "fold64_mul a b = expectR (fold64_checked_mul a b) ''Fold64 mul overflow''"

definition fold64_div :: "fold64 \<Rightarrow> fold64 \<Rightarrow> fold64 ret" where
  "fold64_div a b = expectR (fold64_checked_div a b) ''Fold64 div overflow''"

definition fold64_size :: "fold64 \<Rightarrow> nat" where
  "fold64_size f =
     (let v = value64 f in
      if unat v < FOLDU64SX1 then 1
      else let bits = 64 - leading_zeros64 v; extra = bits - 5 in 1 + (extra + 7) div 8)"

definition fold64_serialize :: "fold64 \<Rightarrow> u8 list ret" where
  "fold64_serialize f =
     (if fold64_uint f > fold64_MAX then Inl (Panic ''never'')
      else let vs = fold64_size f;
               head = push_bit 5 (word_of_nat (vs - 1)) :: u8;
               data = be_bytes 8 (unat (value64 f));
               out = drop (8 - vs) data
           in Inr (out[0 := ((out ! 0) AND 31) OR head]))"

text \<open>The loop \<open>value = (value << 8) | buf[1 + i]\<close>.\<close>

fun fold64_shift_in :: "u64 \<Rightarrow> u8 list \<Rightarrow> u64" where
  "fold64_shift_in v [] = v"
| "fold64_shift_in v (b # bs) = fold64_shift_in (push_bit 8 v OR ucast b) bs"

definition fold64_parse :: "u8 list \<Rightarrow> (fold64 \<times> nat) ret" where
  "fold64_parse buf =
     bindR (bufeatone buf) (\<lambda>bt.
       let n = unat (drop_bit 5 bt) in
       if length buf < 1 + n then Inl (Fault ''Fold64 parse length'')
       else let v = fold64_shift_in (ucast (bt AND 31)) (take n (drop 1 buf)) in
         if unat v > fold64_MAX then Inl (Fault ''Fold64 value exceeds max'')
         else if fold64_size (Fold64 v) \<noteq> 1 + n then Inl (Fault ''Fold64 non-canonical size'')
         else Inr (Fold64 v, 1 + n))"

text \<open>\<open>ord_impl!\<close>: the order of the values.\<close>

instantiation fold64 :: linorder
begin

definition less_eq_fold64 :: "fold64 \<Rightarrow> fold64 \<Rightarrow> bool" where
  "less_eq_fold64 a b \<longleftrightarrow> value64 a \<le> value64 b"

definition less_fold64 :: "fold64 \<Rightarrow> fold64 \<Rightarrow> bool" where
  "less_fold64 a b \<longleftrightarrow> value64 a < value64 b"

instance
  by standard (auto simp: less_eq_fold64_def less_fold64_def intro: fold64.expand)

end

section \<open>Arithmetic\<close>

definition fold64_ok :: "fold64 \<Rightarrow> bool" where
  "fold64_ok f \<longleftrightarrow> fold64_uint f \<le> fold64_MAX"

lemma fold64_MAX_eq: "fold64_MAX = 2 ^ 61 - 1"
  by (simp add: fold64_MAX_def FOLDU64SX8_def FOLDU64SX1_def BYTEN_def)

lemma fold64_uint_simps [simp]: "fold64_uint (Fold64 v) = unat v"
  by (simp add: fold64_uint_def)

lemma fold64_uint_inject: "fold64_uint a = fold64_uint b \<longleftrightarrow> a = b"
  by (cases a; cases b) (simp add: word_unat_eq_iff)

lemma fold64_le_iff: "a \<le> b \<longleftrightarrow> fold64_uint a \<le> fold64_uint b"
  and fold64_less_iff: "a < b \<longleftrightarrow> fold64_uint a < fold64_uint b"
  by (simp_all add: less_eq_fold64_def less_fold64_def fold64_uint_def word_le_nat_alt word_less_nat_alt)

lemma fold64_from_eq [ret_simps]: "fold64_from v = Inr f \<longleftrightarrow> f = Fold64 v \<and> fold64_ok f"
  by (auto simp: fold64_from_def fold64_checked_def fold64_ok_def)

lemma unat_word_of_nat_u64: "n < 2 ^ 64 \<Longrightarrow> unat (word_of_nat n :: u64) = n"
  by (simp add: unat_of_nat)

lemma fold64_checked_add_eq [ret_simps]:
  "fold64_checked_add a b = Inr c \<longleftrightarrow> fold64_uint c = fold64_uint a + fold64_uint b \<and> fold64_ok c"
proof (cases "fold64_uint a + fold64_uint b < 2 ^ 64")
  case True
  then have "fold64_checked_add a b = fold64_from (word_of_nat (fold64_uint a + fold64_uint b))"
    by (simp add: fold64_checked_add_def checked_u64_def)
  moreover have "c = Fold64 (word_of_nat (fold64_uint a + fold64_uint b))
      \<longleftrightarrow> fold64_uint c = fold64_uint a + fold64_uint b"
    using unat_word_of_nat_u64 [OF True] by (metis fold64_uint_inject fold64_uint_simps)
  ultimately show ?thesis by (simp add: fold64_from_eq)
next
  case False
  then show ?thesis
    by (auto simp: fold64_checked_add_def checked_u64_def fold64_ok_def fold64_MAX_eq)
qed

lemma fold64_checked_sub_eq [ret_simps]:
  "fold64_checked_sub a b = Inr c \<longleftrightarrow>
     fold64_uint b \<le> fold64_uint a \<and> fold64_uint c = fold64_uint a - fold64_uint b \<and> fold64_ok c"
proof (cases "fold64_uint b \<le> fold64_uint a")
  case True
  then have u: "unat (value64 a - value64 b) = fold64_uint a - fold64_uint b"
    by (simp add: fold64_uint_def unat_sub word_le_nat_alt)
  have "c = Fold64 (value64 a - value64 b) \<longleftrightarrow> fold64_uint c = fold64_uint a - fold64_uint b"
    using u by (metis fold64_uint_inject fold64_uint_simps)
  then show ?thesis using True by (simp add: fold64_checked_sub_def fold64_from_eq)
qed (simp add: fold64_checked_sub_def)

section \<open>The size of an encoding\<close>

lemma fold64_size_eq: "fold64_size (Fold64 v) = 1 + (bit_len (unat v) - 5 + 7) div 8"
proof (cases "unat v < 32")
  case True
  then have "bit_len (unat v) \<le> 5" by (simp add: bit_len_le_iff)
  with True show ?thesis by (simp add: fold64_size_def FOLDU64SX1_def)
qed (simp add: fold64_size_def FOLDU64SX1_def bits_of_leading_zeros64)

lemma ceil_div8_le_iff: "(m + 7) div 8 \<le> n \<longleftrightarrow> m \<le> 8 * (n :: nat)"
  by linarith

lemma fold64_size_le_iff: "fold64_size (Fold64 v) \<le> Suc n \<longleftrightarrow> unat v < 32 * 256 ^ n"
proof -
  have "fold64_size (Fold64 v) \<le> Suc n \<longleftrightarrow> bit_len (unat v) \<le> 5 + 8 * n"
    using ceil_div8_le_iff [of "bit_len (unat v) - 5" n] unfolding fold64_size_eq by linarith
  also have "\<dots> \<longleftrightarrow> unat v < 2 ^ (5 + 8 * n)" by (rule bit_len_le_iff)
  also have "(2::nat) ^ (5 + 8 * n) = 32 * 256 ^ n" by (simp add: power_add power_mult)
  finally show ?thesis .
qed

lemma fold64_size_pos: "fold64_size f \<ge> 1"
  by (cases f) (simp add: fold64_size_eq)

lemma fold64_size_le8: "fold64_ok f \<Longrightarrow> fold64_size f \<le> 8"
  using fold64_size_le_iff [of "value64 f" 7] by (cases f) (simp add: fold64_ok_def fold64_MAX_eq)

section \<open>The first byte\<close>

lemma head_byte_high:
  assumes "unat (b :: u8) < 32" "k < 8"
  shows "drop_bit 5 ((b AND 31) OR push_bit 5 (word_of_nat k)) = (word_of_nat k :: u8)"
proof -
  have "unat (drop_bit 5 b) = 0" using assms(1) by (simp only: unat_drop_bit_div) simp
  then have "drop_bit 5 b = 0" by (simp add: unat_eq_zero)
  moreover have "unat (drop_bit 5 (push_bit 5 (word_of_nat k :: u8))) = k"
    using assms(2) by (simp only: unat_drop_bit_div)
      (simp add: push_bit_eq_mult unat_word_ariths unat_of_nat)
  then have "drop_bit 5 (push_bit 5 (word_of_nat k :: u8)) = word_of_nat k"
    using assms(2) by (simp only: word_unat_eq_iff unat_word_of_nat_u8) simp
  ultimately show ?thesis by (simp add: drop_bit_or drop_bit_and)
qed

lemma mask5: "(b :: u8) AND 31 = take_bit 5 b"
  by (simp add: take_bit_eq_mask mask_eq_exp_minus_1)

lemma unat_and_31: "unat ((b :: u8) AND 31) = unat b mod 32"
  by (simp only: mask5 unat_take_bit_mod) simp

lemma head_byte_low:
  assumes "unat (b :: u8) < 32"
  shows "((b AND 31) OR push_bit 5 (word_of_nat k)) AND 31 = b"
proof -
  have "take_bit 5 (push_bit 5 (word_of_nat k :: u8)) = 0"
    by (simp add: take_bit_push_bit)
  moreover have "unat (take_bit 5 b) = unat b"
    using assms by (simp only: unat_take_bit_mod) simp
  then have "take_bit 5 b = b" by (simp add: word_unat_eq_iff)
  ultimately show ?thesis by (simp add: mask5 take_bit_or)
qed

lemma head_byte_split: "((b AND 31) OR push_bit 5 (drop_bit 5 b)) = (b :: u8)"
proof (rule bit_eqI)
  fix n :: nat
  show "bit ((b AND 31) OR push_bit 5 (drop_bit 5 b)) n = bit b n"
    unfolding mask5 by (cases "n < 5") (auto simp: bit_simps dest: bit_imp_le_length)
qed

lemma unat_shift_in:
  assumes "unat (v :: u64) < 2 ^ 56"
  shows "unat (push_bit 8 v OR ucast (b :: u8)) = unat v * 256 + unat b"
proof -
  have "push_bit 8 v AND ucast b = 0"
    by (rule bit_eqI) (auto simp: bit_simps dest: bit_imp_le_length)
  then have "push_bit 8 v OR ucast b = push_bit 8 v + ucast b"
    by (simp add: disjunctive_add_eq_or)
  moreover have "unat (push_bit 8 v) = unat v * 256"
    using assms by (simp add: push_bit_eq_mult unat_word_ariths)
  moreover have "unat (ucast b :: u64) = unat b"
    by (simp add: unsigned_ucast_eq take_bit_eq_mod less_trans [OF unat_u8_less])
  ultimately show ?thesis
    using assms unat_u8_less [of b] by (simp add: unat_word_ariths)
qed

lemma fold64_shift_in_val:
  "unat v * 256 ^ length bs + be_nat bs < 2 ^ 64 \<Longrightarrow>
     unat (fold64_shift_in v bs) = unat v * 256 ^ length bs + be_nat bs"
proof (induction bs arbitrary: v)
  case Nil
  then show ?case by simp
next
  case (Cons b bs)
  have "unat v * 256 * 256 ^ length bs < 2 ^ 64"
    using Cons.prems by simp
  moreover have "unat v * 256 \<le> unat v * 256 * 256 ^ length bs" by simp
  ultimately have "unat v * 256 < 2 ^ 64" by (rule le_less_trans [rotated])
  then have "unat v < 2 ^ 56" by simp
  then have "unat (push_bit 8 v OR ucast b) = unat v * 256 + unat b" by (rule unat_shift_in)
  with Cons show ?case by (simp add: be_nat_Cons algebra_simps)
qed

section \<open>The codec laws\<close>

text \<open>
  The shape of a serialization of \<open>1 + n\<close> bytes: the value's bytes, with the count
  \<open>n\<close> in the top bits of the first one.
\<close>

lemma fold64_serialize_shape:
  assumes ok: "fold64_ok (Fold64 v)" and n: "fold64_size (Fold64 v) = Suc n"
  shows "fold64_serialize (Fold64 v) = Inr
     (((word_of_nat (unat v div 256 ^ n) AND 31) OR push_bit 5 (word_of_nat n)) # be_bytes n (unat v))"
proof -
  from fold64_size_le8 [OF ok] n have n8: "n \<le> 7" by simp
  then have "drop (8 - Suc n) (be_bytes 8 (unat v)) = be_bytes (Suc n) (unat v)"
    using drop_be_bytes [of "7 - n" "Suc n" "unat v"] by simp
  then show ?thesis
    using ok n by (simp add: fold64_serialize_def fold64_ok_def be_bytes_Suc_Cons Let_def del: be_bytes.simps nth_drop)
qed

lemma fold64_top_small:
  assumes "fold64_size (Fold64 v) = Suc n" shows "unat v div 256 ^ n < 32"
proof -
  have "unat v < 32 * 256 ^ n" using assms fold64_size_le_iff [of v n] by simp
  then show ?thesis by (simp add: less_mult_imp_div_less)
qed

lemma fold64_shift_in_bytes:
  assumes "unat t = unat v div 256 ^ n"
  shows "fold64_shift_in t (be_bytes n (unat v)) = v"
proof -
  have "unat t * 256 ^ n + unat v mod 256 ^ n = unat v" by (simp only: assms div_mult_mod_eq)
  with unat_u64_less [of v] fold64_shift_in_val [of t "be_bytes n (unat v)"]
  have "unat (fold64_shift_in t (be_bytes n (unat v))) = unat v" by simp
  then show ?thesis by (simp add: word_unat_eq_iff)
qed

lemma fold64_parse_ser:
  assumes ok: "fold64_ok x" and s: "fold64_serialize x = Inr bs"
  shows "fold64_parse (bs @ rest) = Inr (x, length bs)"
proof -
  obtain v where x: "x = Fold64 v" by (cases x)
  from fold64_size_pos [of x] obtain n where n: "fold64_size (Fold64 v) = Suc n"
    using x by (cases "fold64_size x") auto
  define t :: u8 where "t = word_of_nat (unat v div 256 ^ n)"
  define h where "h = (t AND 31) OR push_bit 5 (word_of_nat n)"
  have bs: "bs = h # be_bytes n (unat v)"
    using fold64_serialize_shape [of v n] ok n s by (simp add: x h_def t_def)
  have n8: "n < 8" using fold64_size_le8 [OF ok] n x by simp
  have top: "unat v div 256 ^ n < 32" by (rule fold64_top_small [OF n])
  then have ut: "unat t = unat v div 256 ^ n" by (simp add: t_def)
  have "drop_bit 5 h = (word_of_nat n :: u8)"
    unfolding h_def using top ut n8 by (intro head_byte_high) simp_all
  then have cnt: "unat (drop_bit 5 h) = n" using n8 by (simp del: unsigned_of_nat)
  have low: "h AND 31 = t" unfolding h_def using top ut by (intro head_byte_low) simp
  have "unat (ucast t :: u64) = unat v div 256 ^ n"
    using unat_u8_less [of t] by (simp add: unsigned_ucast_eq take_bit_eq_mod ut)
  then have "fold64_shift_in (ucast t) (be_bytes n (unat v)) = v"
    by (rule fold64_shift_in_bytes)
  with cnt low n ok show ?thesis
    by (simp add: fold64_parse_def bs Let_def fold64_ok_def x)
qed

lemma fold64_ser_total: "fold64_ok x \<Longrightarrow> \<exists>bs. fold64_serialize x = Inr bs"
  by (simp add: fold64_serialize_def fold64_ok_def Let_def)

lemma fold64_length_ser:
  assumes "fold64_serialize x = Inr bs" shows "length bs = fold64_size x"
proof -
  from assms have ok: "fold64_ok x" by (auto simp: fold64_serialize_def fold64_ok_def split: if_splits)
  from fold64_size_le8 [OF this] fold64_size_pos [of x] assms show ?thesis
    by (auto simp: fold64_serialize_def Let_def split: if_splits)
qed

lemma fold64_parse_sound:
  assumes p: "fold64_parse buf = Inr (x, k)"
  shows "fold64_ok x \<and> k \<le> length buf \<and> fold64_serialize x = Inr (take k buf)"
proof -
  obtain v where x: "x = Fold64 v" by (cases x)
  from p obtain b rest where buf: "buf = b # rest"
    by (auto simp: fold64_parse_def ret_simps)
  define n where "n = unat (drop_bit 5 b)"
  from p have len: "n \<le> length rest" and v: "v = fold64_shift_in (ucast (b AND 31)) (take n rest)"
    and max: "unat v \<le> fold64_MAX" and sz: "fold64_size (Fold64 v) = Suc n" and k: "k = Suc n"
    by (auto simp: fold64_parse_def buf n_def Let_def x split: if_splits)
  have ok: "fold64_ok (Fold64 v)" using max by (simp add: fold64_ok_def)
  have n8: "n \<le> 7" using fold64_size_le8 [OF ok] sz by simp
  define t where "t = b AND 31"
  have t32: "unat t < 32" by (simp add: t_def unat_and_31)
  have ut: "unat (ucast t :: u64) = unat t"
    by (simp add: unsigned_ucast_eq take_bit_eq_mod less_trans [OF unat_u8_less])
  have lt: "be_nat (take n rest) < 256 ^ n"
    using be_nat_less [of "take n rest"] len by simp
  have "unat t * 256 ^ n + be_nat (take n rest) < (unat t + 1) * 256 ^ n" using lt by simp
  also have "\<dots> \<le> 32 * 256 ^ n" using t32 by (intro mult_right_mono) simp_all
  also have "\<dots> \<le> 32 * 256 ^ 7" using n8 by (intro mult_left_mono power_increasing) simp_all
  also have "\<dots> < (2::nat) ^ 64" by simp
  finally have "unat v = unat t * 256 ^ n + be_nat (take n rest)"
    using fold64_shift_in_val [of "ucast t" "take n rest"] len by (simp add: v t_def [symmetric] ut)
  then have "unat v div 256 ^ n = unat t" and "unat v mod 256 ^ n = be_nat (take n rest)"
    using lt by simp_all
  then have t: "word_of_nat (unat v div 256 ^ n) = t"
    and r: "be_bytes n (unat v) = take n rest"
    using len by (auto simp: word_unat_eq_iff unat_u8_less intro!: be_bytes_inject)
  have "word_of_nat n = drop_bit 5 b" by (simp add: n_def)
  then have "(t AND 31) OR push_bit 5 (word_of_nat n) = b"
    by (simp add: t_def and.assoc head_byte_split)
  then show ?thesis
    using fold64_serialize_shape [OF ok sz] ok len by (simp add: t r x k buf)
qed

interpretation fold64: codec fold64_serialize fold64_parse fold64_ok
  by unfold_locales (blast dest: fold64_ser_total fold64_parse_ser fold64_parse_sound)+

section \<open>Properties\<close>

text \<open>The wire form of \<open>Fold64\<close> is canonical: \<open>parse\<close> accepts a buffer with value
  \<open>x\<close> and length \<open>n\<close> exactly when \<open>x\<close> is within the maximum and the first
  \<open>n\<close> bytes of the buffer are its serialization.\<close>
theorem fold64_parse_iff:
  "fold64_parse buf = Inr (x, n) \<longleftrightarrow>
     fold64_ok x \<and> n \<le> length buf \<and> fold64_serialize x = Inr (take n buf)"
  by (rule fold64.parse_iff)

text \<open>A value within the maximum serializes to exactly \<open>size\<close> bytes, between one and
  eight, and to at most \<open>1 + n\<close> bytes exactly when it is below \<open>32 * 256 ^ n\<close> (the
  table of the source).\<close>
theorem fold64_encoding_length:
  assumes "fold64_ok x"
  shows "\<exists>bs. fold64_serialize x = Inr bs \<and> length bs = fold64_size x \<and> 1 \<le> fold64_size x \<and> fold64_size x \<le> 8
     \<and> (fold64_size x \<le> Suc n \<longleftrightarrow> fold64_uint x < 32 * 256 ^ n)"
  using fold64_ser_total [OF assms] fold64_length_ser [of x] fold64_size_pos [of x] fold64_size_le8 [OF assms]
    fold64_size_le_iff [of "value64 x" n]
  by (cases x) auto

theorem fold64_encoding_length_witness:
  "\<exists>bs. fold64_serialize (Fold64 8192) = Inr bs \<and> length bs = fold64_size (Fold64 8192)
     \<and> 1 \<le> fold64_size (Fold64 8192) \<and> fold64_size (Fold64 8192) \<le> 8
     \<and> (fold64_size (Fold64 8192) \<le> Suc 1 \<longleftrightarrow> fold64_uint (Fold64 8192) < 32 * 256 ^ 1)"
  by (rule fold64_encoding_length) (simp add: fold64_ok_def fold64_MAX_eq)

text \<open>Checked addition and subtraction of \<open>Fold64\<close> values return exactly the
  integer result when it lies between zero and the maximum, and an error otherwise.\<close>
theorem fold64_checked_exact:
  "(fold64_checked_add a b = Inr c \<longleftrightarrow>
      fold64_uint c = fold64_uint a + fold64_uint b \<and> fold64_uint c \<le> fold64_MAX) \<and>
   (fold64_checked_sub a b = Inr d \<longleftrightarrow>
      int (fold64_uint d) = int (fold64_uint a) - int (fold64_uint b) \<and> fold64_uint d \<le> fold64_MAX)"
  by (auto simp: fold64_checked_add_eq fold64_checked_sub_eq fold64_ok_def)

end
