(* ===== verification/Wire.thy ===== *)
theory Wire
  imports Prelude
begin

text \<open>
  The wire types shared by the records of \<^verbatim>\<open>field/\<close>: the fixed-size unsigned
  integers of \<^verbatim>\<open>number/uint.rs\<close> (\<open>uint_define!\<close>, one family indexed by the
  number of bytes), the counted lists of \<^verbatim>\<open>combi/list.rs\<close> (\<open>combi_list!\<close>) and
  the field-by-field records of \<^verbatim>\<open>combi/struct.rs\<close>. Lists and records of canonical
  codecs are canonical codecs.
\<close>

section \<open>Unsigned integers of n bytes\<close>

definition uint_MAX :: "nat \<Rightarrow> nat" where
  "uint_MAX n = 256 ^ n - 1"

definition uint_from :: "nat \<Rightarrow> nat \<Rightarrow> nat ret" where
  "uint_from n v = (if v > uint_MAX n then Inl (Panic ''overflow: value exceeds MAX'') else Inr v)"

definition uint_from_checked :: "nat \<Rightarrow> nat \<Rightarrow> nat option" where
  "uint_from_checked n v = (if v > uint_MAX n then None else Some v)"

definition uint_from_usize :: "nat \<Rightarrow> nat \<Rightarrow> nat ret" where
  "uint_from_usize n v = (if v > uint_MAX n then Inl (Fault ''uint value exceeds max'') else Inr v)"

definition uint_parse :: "nat \<Rightarrow> u8 list \<Rightarrow> (nat \<times> nat) ret" where
  "uint_parse n buf =
     bindR (bufeat buf n) (\<lambda>bts. let value = be_nat bts in
       if value > uint_MAX n then Inl (Fault ''uint parse value exceeds max'') else Inr (value, n))"

definition uint_serialize :: "nat \<Rightarrow> nat \<Rightarrow> u8 list ret" where
  "uint_serialize n v = (if v > uint_MAX n then Inl (Panic ''never'') else Inr (be_bytes n v))"

text \<open>\<open>+\<close> and \<open>-\<close> of \<open>compute_impl_checked!\<close>.\<close>

definition uint_add :: "nat \<Rightarrow> nat \<Rightarrow> nat \<Rightarrow> nat ret" where
  "uint_add n a b = (if a + b > uint_MAX n then Inl (Panic ''overflow'') else Inr (a + b))"

definition uint_sub :: "nat \<Rightarrow> nat \<Rightarrow> nat \<Rightarrow> nat ret" where
  "uint_sub n a b = (if a < b then Inl (Panic ''overflow'') else Inr (a - b))"

lemma uint_le_MAX [simp]: "v \<le> uint_MAX n \<longleftrightarrow> v < 256 ^ n"
proof -
  have "(1::nat) \<le> 256 ^ n" by simp
  then show ?thesis unfolding uint_MAX_def by linarith
qed

lemma uint_gt_MAX [simp]: "uint_MAX n < v \<longleftrightarrow> \<not> v < 256 ^ n"
  using uint_le_MAX [of v n] by linarith

lemma codec_uint: "codec (uint_serialize n) (uint_parse n) (\<lambda>v. v < 256 ^ n)"
proof
  fix x :: nat and bs rest
  assume x: "x < 256 ^ n"
  then show "\<exists>bs. uint_serialize n x = Inr bs" by (simp add: uint_serialize_def)
  assume "uint_serialize n x = Inr bs"
  with x have "bs = be_bytes n x" by (simp add: uint_serialize_def)
  with x show "uint_parse n (bs @ rest) = Inr (x, length bs)"
    by (simp add: uint_parse_def bufeat_def)
next
  fix buf :: "u8 list" and x m
  assume "uint_parse n buf = Inr (x, m)"
  then have l: "n \<le> length buf" "m = n" "x = be_nat (take n buf)"
    by (auto simp: uint_parse_def bindR_eq_Inr bufeat_eq_Inr Let_def split: if_splits)
  then have "x < 256 ^ n" by (simp add: be_nat_less_le)
  moreover have "be_bytes n x = take n buf" using be_bytes_be_nat [of "take n buf"] l by simp
  ultimately show "x < 256 ^ n \<and> m \<le> length buf \<and> uint_serialize n x = Inr (take m buf)"
    using l by (simp add: uint_serialize_def)
qed

interpretation uint: codec "uint_serialize n" "uint_parse n" "\<lambda>v. v < 256 ^ n" for n
  by (rule codec_uint)

section \<open>Records, field by field\<close>

definition pair_parse :: "(u8 list \<Rightarrow> ('a \<times> nat) ret) \<Rightarrow> (u8 list \<Rightarrow> ('b \<times> nat) ret) \<Rightarrow> u8 list \<Rightarrow> (('a \<times> 'b) \<times> nat) ret" where
  "pair_parse p q buf =
     bindR (p buf) (\<lambda>(x, n). bindR (q (drop n buf)) (\<lambda>(y, m). Inr ((x, y), n + m)))"

definition pair_serialize :: "('a \<Rightarrow> u8 list ret) \<Rightarrow> ('b \<Rightarrow> u8 list ret) \<Rightarrow> 'a \<times> 'b \<Rightarrow> u8 list ret" where
  "pair_serialize s t xy = bindR (s (fst xy)) (\<lambda>u. bindR (t (snd xy)) (\<lambda>v. Inr (u @ v)))"

lemma codec_pair:
  assumes c1: "codec s p v" and c2: "codec t q w"
  shows "codec (pair_serialize s t) (pair_parse p q) (\<lambda>(x, y). v x \<and> w y)"
proof
  fix xy :: "'a \<times> 'b" and bs rest
  assume valid: "(\<lambda>(x, y). v x \<and> w y) xy"
  obtain x y where xy: "xy = (x, y)" "v x" "w y" using valid by (cases xy) auto
  from codec.ser_total [OF c1 xy(2)] codec.ser_total [OF c2 xy(3)]
  obtain u1 u2 where u: "s x = Inr u1" "t y = Inr u2" by blast
  then show "\<exists>bs. pair_serialize s t xy = Inr bs" by (simp add: pair_serialize_def xy)
  assume "pair_serialize s t xy = Inr bs"
  with u have bs: "bs = u1 @ u2" by (simp add: pair_serialize_def xy)
  show "pair_parse p q (bs @ rest) = Inr (xy, length bs)"
    using codec.parse_ser [OF c1 xy(2) u(1), of "u2 @ rest"] codec.parse_ser [OF c2 xy(3) u(2), of rest]
    by (simp add: pair_parse_def bs xy)
next
  fix buf :: "u8 list" and xy n
  assume "pair_parse p q buf = Inr (xy, n)"
  then obtain x y n1 n2 where p: "p buf = Inr (x, n1)" "q (drop n1 buf) = Inr (y, n2)" "xy = (x, y)" "n = n1 + n2"
    by (auto simp: pair_parse_def bindR_eq_Inr)
  from codec.parse_sound [OF c1 p(1)] codec.parse_sound [OF c2 p(2)]
  show "(\<lambda>(x, y). v x \<and> w y) xy \<and> n \<le> length buf \<and> pair_serialize s t xy = Inr (take n buf)"
    using p by (auto simp: pair_serialize_def take_add)
qed

text \<open>Renaming along a bijection, and an extra check after parsing.\<close>

lemma codec_map:
  assumes c: "codec s p v" and fg: "\<And>x. f (g x) = x" and gf: "\<And>y. v y \<Longrightarrow> g (f y) = y"
  shows "codec (\<lambda>x. s (g x)) (\<lambda>buf. bindR (p buf) (\<lambda>(y, n). bindR (chk (f y)) (\<lambda>u. Inr (f y, n))))
    (\<lambda>x. v (g x) \<and> chk x = Inr ())"
proof
  fix x bs rest
  assume "v (g x) \<and> chk x = Inr ()"
  then have x: "v (g x)" "chk x = Inr ()" by auto
  show "\<exists>bs. s (g x) = Inr bs" by (rule codec.ser_total [OF c x(1)])
  assume "s (g x) = Inr bs"
  from codec.parse_ser [OF c x(1) this] x
  show "bindR (p (bs @ rest)) (\<lambda>(y, n). bindR (chk (f y)) (\<lambda>u. Inr (f y, n))) = Inr (x, length bs)"
    by (simp add: fg)
next
  fix buf x n
  assume "bindR (p buf) (\<lambda>(y, n). bindR (chk (f y)) (\<lambda>u. Inr (f y, n))) = Inr (x, n)"
  then obtain y where p: "p buf = Inr (y, n)" "x = f y" "chk (f y) = Inr ()"
    by (auto simp: bindR_eq_Inr)
  from codec.parse_sound [OF c p(1)] show "(v (g x) \<and> chk x = Inr ()) \<and> n \<le> length buf \<and> s (g x) = Inr (take n buf)"
    using p gf by auto
qed

lemma codec_cong:
  assumes c: "codec s p v" and s: "\<And>x. v x \<Longrightarrow> s' x = s x" and p: "\<And>b. p' b = p b" and v: "\<And>x. v' x = v x"
  shows "codec s' p' v'"
proof
  fix x bs rest
  assume x: "v' x"
  then have "v x" by (simp add: v)
  note s' = s [OF this]
  show "\<exists>bs. s' x = Inr bs" unfolding s' by (rule codec.ser_total [OF c \<open>v x\<close>])
  assume "s' x = Inr bs"
  then show "p' (bs @ rest) = Inr (x, length bs)" unfolding s' p by (rule codec.parse_ser [OF c \<open>v x\<close>])
next
  fix buf x n
  assume "p' buf = Inr (x, n)"
  then have "v x \<and> n \<le> length buf \<and> s x = Inr (take n buf)" unfolding p by (rule codec.parse_sound [OF c])
  then show "v' x \<and> n \<le> length buf \<and> s' x = Inr (take n buf)" using s [of x] by (simp add: v)
qed

section \<open>Counted lists\<close>

fun items_parse :: "(u8 list \<Rightarrow> ('a \<times> nat) ret) \<Rightarrow> nat \<Rightarrow> u8 list \<Rightarrow> ('a list \<times> nat) ret" where
  "items_parse p 0 buf = Inr ([], 0)"
| "items_parse p (Suc k) buf =
     bindR (p buf) (\<lambda>(obj, n). bindR (items_parse p k (drop n buf)) (\<lambda>(lists, m). Inr (obj # lists, n + m)))"

fun items_serialize :: "('a \<Rightarrow> u8 list ret) \<Rightarrow> 'a list \<Rightarrow> u8 list ret" where
  "items_serialize s [] = Inr []"
| "items_serialize s (x # xs) = bindR (s x) (\<lambda>u. bindR (items_serialize s xs) (\<lambda>w. Inr (u @ w)))"

record 'a combi_list =
  count_of :: nat
  lists :: "'a list"

definition combi_parse :: "nat \<Rightarrow> (u8 list \<Rightarrow> ('a \<times> nat) ret) \<Rightarrow> u8 list \<Rightarrow> ('a combi_list \<times> nat) ret" where
  "combi_parse w p buf =
     bindR (uint_parse w buf) (\<lambda>(n, seek).
     bindR (items_parse p n (drop seek buf)) (\<lambda>(new_lists, m).
       Inr (\<lparr>count_of = n, lists = new_lists\<rparr>, seek + m)))"

text \<open>The serializer writes \<open>count_of\<close> items and panics when the vector is shorter.\<close>

definition combi_serialize :: "nat \<Rightarrow> ('a \<Rightarrow> u8 list ret) \<Rightarrow> 'a combi_list \<Rightarrow> u8 list ret" where
  "combi_serialize w s l =
     bindR (uint_serialize w (count_of l)) (\<lambda>u.
       if count_of l > length (lists l) then Inl (Panic ''index out of bounds'')
       else bindR (items_serialize s (take (count_of l) (lists l))) (\<lambda>v. Inr (u @ v)))"

definition combi_ok :: "nat \<Rightarrow> 'a combi_list \<Rightarrow> bool" where
  "combi_ok w l \<longleftrightarrow> count_of l = length (lists l) \<and> count_of l < 256 ^ w"

definition combi_empty :: "'a combi_list" where
  "combi_empty = \<lparr>count_of = 0, lists = []\<rparr>"

definition combi_length :: "'a combi_list \<Rightarrow> nat" where
  "combi_length l = count_of l"

definition combi_replace :: "'a combi_list \<Rightarrow> nat \<Rightarrow> 'a \<Rightarrow> 'a combi_list ret" where
  "combi_replace l i v = (if i \<ge> count_of l then Inl (Fault ''list index overflow'')
     else if i \<ge> length (lists l) then Inl (Panic ''index out of bounds'') else Inr (l\<lparr>lists := (lists l)[i := v]\<rparr>))"

definition combi_drop :: "'a combi_list \<Rightarrow> nat \<Rightarrow> 'a combi_list ret" where
  "combi_drop l i = (if i \<ge> count_of l then Inl (Fault ''list index overflow'')
     else if i \<ge> length (lists l) then Inl (Panic ''removal index out of bounds'')
     else Inr \<lparr>count_of = count_of l - 1, lists = take i (lists l) @ drop (Suc i) (lists l)\<rparr>)"

definition combi_push :: "nat \<Rightarrow> 'a combi_list \<Rightarrow> 'a \<Rightarrow> 'a combi_list ret" where
  "combi_push w l v = (if count_of l + 1 > uint_MAX w then Inl (Fault ''append size overflow'')
     else Inr \<lparr>count_of = count_of l + 1, lists = lists l @ [v]\<rparr>)"

definition combi_append :: "nat \<Rightarrow> 'a combi_list \<Rightarrow> 'a list \<Rightarrow> 'a combi_list ret" where
  "combi_append w l list = (let n = count_of l + length list in
     if n > uint_MAX w then Inl (Fault ''append size overflow'')
     else bindR (uint_from_usize w n) (\<lambda>c. Inr \<lparr>count_of = c, lists = lists l @ list\<rparr>))"

definition combi_fetch_list :: "nat \<Rightarrow> 'a combi_list \<Rightarrow> nat \<Rightarrow> ('a list \<times> 'a combi_list) ret" where
  "combi_fetch_list w l n = (let m = count_of l in
     if n > m then Inl (Fault ''list data length'')
     else let k = m - n in bindR (uint_from_usize w k) (\<lambda>c.
       if k > length (lists l) then Inl (Panic ''split_off at'')
       else Inr (drop k (lists l), \<lparr>count_of = c, lists = take k (lists l)\<rparr>)))"

definition combi_pop :: "'a combi_list \<Rightarrow> 'a option \<times> 'a combi_list" where
  "combi_pop l = (if count_of l = 0 then (None, l)
     else (if lists l = [] then None else Some (last (lists l)), \<lparr>count_of = count_of l - 1, lists = butlast (lists l)\<rparr>))"

definition combi_from_list :: "nat \<Rightarrow> 'a list \<Rightarrow> 'a combi_list ret" where
  "combi_from_list w v = (let n = length v in
     if n > uint_MAX w then Inl (Fault ''list data size overflow'')
     else bindR (uint_from_usize w n) (\<lambda>c. Inr \<lparr>count_of = c, lists = v\<rparr>))"

definition combi_fetch :: "nat \<Rightarrow> 'a combi_list \<Rightarrow> nat \<Rightarrow> ('a combi_list \<times> 'a combi_list) ret" where
  "combi_fetch w l n =
     bindR (combi_fetch_list w l n) (\<lambda>(v, l'). bindR (uint_from_usize w (length v)) (\<lambda>c. Inr (\<lparr>count_of = c, lists = v\<rparr>, l')))"

lemma items_parse_ser:
  assumes c: "codec s p v"
  shows "list_all v xs \<Longrightarrow> \<exists>bs. items_serialize s xs = Inr bs \<and> (\<forall>rest. items_parse p (length xs) (bs @ rest) = Inr (xs, length bs))"
proof (induction xs)
  case (Cons x xs)
  then obtain bs where bs: "items_serialize s xs = Inr bs" "\<And>rest. items_parse p (length xs) (bs @ rest) = Inr (xs, length bs)"
    by auto
  from Cons.prems have x: "v x" by simp
  obtain u where u: "s x = Inr u" using codec.ser_total [OF c x] by blast
  show ?case using codec.parse_ser [OF c x u] bs u by simp
qed simp

lemma items_parse_sound:
  assumes c: "codec s p v"
  shows "items_parse p k buf = Inr (xs, n) \<Longrightarrow>
    length xs = k \<and> list_all v xs \<and> n \<le> length buf \<and> items_serialize s xs = Inr (take n buf)"
proof (induction k arbitrary: buf xs n)
  case (Suc k)
  then obtain x xs' n1 n2 where p: "p buf = Inr (x, n1)" "items_parse p k (drop n1 buf) = Inr (xs', n2)" "xs = x # xs'" "n = n1 + n2"
    by (auto simp: bindR_eq_Inr)
  from codec.parse_sound [OF c p(1)] Suc.IH [OF p(2)] show ?case by (auto simp: p take_add)
qed simp

lemma codec_combi:
  assumes c: "codec s p v"
  shows "codec (combi_serialize w s) (combi_parse w p) (\<lambda>l. combi_ok w l \<and> list_all v (lists l))"
proof
  fix l bs rest
  assume "combi_ok w l \<and> list_all v (lists l)"
  then have l: "count_of l = length (lists l)" "count_of l < 256 ^ w" "list_all v (lists l)" by (auto simp: combi_ok_def)
  obtain its where i: "items_serialize s (lists l) = Inr its"
    "\<And>rest. items_parse p (length (lists l)) (its @ rest) = Inr (lists l, length its)"
    using items_parse_ser [OF c l(3)] by blast
  have ser: "combi_serialize w s l = Inr (be_bytes w (count_of l) @ its)"
    using l i by (simp add: combi_serialize_def uint_serialize_def)
  then show "\<exists>bs. combi_serialize w s l = Inr bs" by blast
  assume "combi_serialize w s l = Inr bs"
  with ser have bs: "bs = be_bytes w (count_of l) @ its" by simp
  have "uint_parse w (be_bytes w (count_of l) @ its @ rest) = Inr (count_of l, w)"
    using codec.parse_ser [OF codec_uint l(2), of "be_bytes w (count_of l)" "its @ rest"] l(2) by (simp add: uint_serialize_def)
  then show "combi_parse w p (bs @ rest) = Inr (l, length bs)"
    using i(2) [of rest] l(1) by (simp add: combi_parse_def bs)
next
  fix buf l n
  assume "combi_parse w p buf = Inr (l, n)"
  then obtain c xs n1 n2 where p: "uint_parse w buf = Inr (c, n1)" "items_parse p c (drop n1 buf) = Inr (xs, n2)"
    "l = \<lparr>count_of = c, lists = xs\<rparr>" "n = n1 + n2" by (auto simp: combi_parse_def bindR_eq_Inr)
  from codec.parse_sound [OF codec_uint p(1)] items_parse_sound [OF assms p(2)]
  show "(combi_ok w l \<and> list_all v (lists l)) \<and> n \<le> length buf \<and> combi_serialize w s l = Inr (take n buf)"
    by (auto simp: p combi_ok_def combi_serialize_def take_add)
qed

lemma combi_ok_ops:
  assumes "combi_ok w l"
  shows "combi_drop l i = Inr l' \<Longrightarrow> combi_ok w l' \<and> i < length (lists l) \<and> lists l' = take i (lists l) @ drop (Suc i) (lists l)"
    and "combi_push w l v = Inr l' \<Longrightarrow> combi_ok w l' \<and> lists l' = lists l @ [v]"
    and "combi_append w l vs = Inr l' \<Longrightarrow> combi_ok w l' \<and> lists l' = lists l @ vs"
    and "combi_fetch_list w l n = Inr (vs, l') \<Longrightarrow> combi_ok w l' \<and> lists l = lists l' @ vs \<and> length vs = n"
    and "combi_pop l = (r, l') \<Longrightarrow> combi_ok w l' \<and> lists l = lists l' @ (case r of None \<Rightarrow> [] | Some x \<Rightarrow> [x])"
  using assms
  by (auto simp: combi_ok_def combi_drop_def combi_push_def combi_append_def combi_fetch_list_def combi_pop_def
      uint_from_usize_def Let_def split: if_splits)

end
