(* ===== verification/Balance.thy ===== *)
theory Balance
  imports Fold64 AmountText Wire
begin

text \<open>
  \<^verbatim>\<open>field/src/core/address.rs\<close> (versions and system addresses),
  \<^verbatim>\<open>core/asset.rs\<close> and \<^verbatim>\<open>component/balance.rs\<close>: what one address owns.
  An address is its 21 bytes.
\<close>

section \<open>Addresses\<close>

type_synonym address = "u8 list"

definition address_SIZE :: nat where "address_SIZE = 21"
definition ADDRESS_ZERO :: address where "ADDRESS_ZERO = replicate 21 0"
definition ADDRESS_ONEX :: address where "ADDRESS_ONEX = replicate 20 0 @ [1]"
definition ADDRESS_TWOX :: address where "ADDRESS_TWOX = replicate 20 0 @ [2]"

definition PRIVAKEY :: u8 where "PRIVAKEY = 0"
definition CONTRACT :: u8 where "CONTRACT = 1"
definition SCRIPTMH :: u8 where "SCRIPTMH = 5"
definition PQCKEY :: u8 where "PQCKEY = 6"
definition HYBRID :: u8 where "HYBRID = 7"

definition version :: "address \<Rightarrow> u8" where "version a = a ! 0"

definition check_version :: "address \<Rightarrow> unit ret" where
  "check_version a = (if version a \<in> {PRIVAKEY, CONTRACT, SCRIPTMH, PQCKEY, HYBRID} then Inr ()
     else Inl (Fault ''address version not supported''))"

definition is_privakey :: "address \<Rightarrow> bool" where "is_privakey a \<longleftrightarrow> version a = PRIVAKEY"
definition is_contract :: "address \<Rightarrow> bool" where "is_contract a \<longleftrightarrow> version a = CONTRACT"
definition is_scriptmh :: "address \<Rightarrow> bool" where "is_scriptmh a \<longleftrightarrow> version a = SCRIPTMH"
definition is_pqckey :: "address \<Rightarrow> bool" where "is_pqckey a \<longleftrightarrow> version a = PQCKEY"
definition is_hybrid :: "address \<Rightarrow> bool" where "is_hybrid a \<longleftrightarrow> version a = HYBRID"

definition is_user_signing_address :: "address \<Rightarrow> bool" where
  "is_user_signing_address a \<longleftrightarrow> is_privakey a \<or> is_pqckey a \<or> is_hybrid a"

definition is_privakey_unknown :: "address \<Rightarrow> bool" where
  "is_privakey_unknown b \<longleftrightarrow>
     list_all (\<lambda>x. x = 0) (take 17 b) \<and> be_nat [b ! 17, b ! 18, b ! 19, b ! 20] < 2 ^ 32 - 1"

section \<open>Asset amounts\<close>

record asset_amt =
  asset_serial :: fold64
  asset_amount :: fold64

definition asset_checked :: "asset_amt \<Rightarrow> asset_amt ret" where
  "asset_checked a =
     (if fold64_uint (asset_serial a) = 0 then Inl (Fault ''AssetAmt.serial cannot be zero'')
      else bindR (fold64_checked (asset_serial a)) (\<lambda>s.
           bindR (fold64_checked (asset_amount a)) (\<lambda>m. Inr \<lparr>asset_serial = s, asset_amount = m\<rparr>)))"

definition asset_parse :: "u8 list \<Rightarrow> (asset_amt \<times> nat) ret" where
  "asset_parse buf =
     bindR (fold64_parse buf) (\<lambda>(s, n). bindR (fold64_parse (drop n buf)) (\<lambda>(m, k).
     bindR (asset_checked \<lparr>asset_serial = s, asset_amount = m\<rparr>) (\<lambda>a. Inr (a, n + k))))"

definition asset_serialize :: "asset_amt \<Rightarrow> u8 list ret" where
  "asset_serialize a =
     bindR (fold64_serialize (asset_serial a)) (\<lambda>u. bindR (fold64_serialize (asset_amount a)) (\<lambda>v. Inr (u @ v)))"

text \<open>\<open>Ord for AssetAmt\<close> asserts that the serials agree.\<close>

definition asset_less :: "asset_amt \<Rightarrow> asset_amt \<Rightarrow> bool ret" where
  "asset_less a b = (if asset_serial a \<noteq> asset_serial b then Inl (Panic ''assertion failed'')
     else Inr (asset_amount a < asset_amount b))"

text \<open>\<open>checked_opt!\<close>: the \<open>u64\<close> operation, then \<open>Fold64::from\<close>, then \<open>checked\<close>.\<close>

definition asset_checked_add :: "asset_amt \<Rightarrow> asset_amt \<Rightarrow> asset_amt ret" where
  "asset_checked_add a b =
     (if asset_serial a \<noteq> asset_serial b then Inl (Fault ''cannot do checked_add with asset'')
      else case checked_u64 (fold64_uint (asset_amount a) + fold64_uint (asset_amount b)) of
        None \<Rightarrow> Inl (Fault ''cannot do checked_add with asset'')
      | Some v \<Rightarrow> bindR (fold64_from v) (\<lambda>m. asset_checked \<lparr>asset_serial = asset_serial a, asset_amount = m\<rparr>))"

definition asset_checked_sub :: "asset_amt \<Rightarrow> asset_amt \<Rightarrow> asset_amt ret" where
  "asset_checked_sub a b =
     (if asset_serial a \<noteq> asset_serial b then Inl (Fault ''cannot do checked_sub with asset'')
      else if fold64_uint (asset_amount a) < fold64_uint (asset_amount b) then Inl (Fault ''cannot do checked_sub with asset'')
      else bindR (fold64_from (value64 (asset_amount a) - value64 (asset_amount b)))
             (\<lambda>m. asset_checked \<lparr>asset_serial = asset_serial a, asset_amount = m\<rparr>))"

definition asset_from_serial :: "fold64 \<Rightarrow> asset_amt ret" where
  "asset_from_serial s = asset_checked \<lparr>asset_serial = s, asset_amount = Fold64 0\<rparr>"

definition asset_from :: "u64 \<Rightarrow> u64 \<Rightarrow> asset_amt ret" where
  "asset_from s a = bindR (fold64_from s) (\<lambda>s. bindR (fold64_from a) (\<lambda>m.
     asset_checked \<lparr>asset_serial = s, asset_amount = m\<rparr>))"

section \<open>Balances\<close>

record balance =
  hacash :: amount
  satoshi :: fold64
  diamond :: fold64
  assets :: "asset_amt combi_list"

definition BALANCE_ASSET_MAX :: nat where "BALANCE_ASSET_MAX = 20"

definition balance_new :: balance where
  "balance_new = \<lparr>hacash = amount_zero, satoshi = Fold64 0, diamond = Fold64 0, assets = combi_empty\<rparr>"

definition balance_hac :: "amount \<Rightarrow> balance" where
  "balance_hac amt = balance_new\<lparr>hacash := amt\<rparr>"

fun check_assets_loop :: "asset_amt list \<Rightarrow> nat list \<Rightarrow> unit ret" where
  "check_assets_loop [] seen = Inr ()"
| "check_assets_loop (ast # asts) seen =
     bindR (asset_checked ast) (\<lambda>_.
       if fold64_uint (asset_serial ast) \<in> set seen then Inl (Fault ''balance asset serial duplicated'')
       else check_assets_loop asts (fold64_uint (asset_serial ast) # seen))"

definition check_assets :: "asset_amt combi_list \<Rightarrow> unit ret" where
  "check_assets l = (if combi_length l > BALANCE_ASSET_MAX then Inl (Fault ''balance asset item quantity cannot exceed'')
     else check_assets_loop (lists l) [])"

definition balance_parse :: "u8 list \<Rightarrow> (balance \<times> nat) ret" where
  "balance_parse buf =
     bindR (amount_parse buf) (\<lambda>(h, n1).
     bindR (fold64_parse (drop n1 buf)) (\<lambda>(s, n2).
     bindR (fold64_parse (drop (n1 + n2) buf)) (\<lambda>(d, n3).
     bindR (combi_parse 1 asset_parse (drop (n1 + n2 + n3) buf)) (\<lambda>(a, n4).
     bindR (check_assets a) (\<lambda>_.
       Inr (\<lparr>hacash = h, satoshi = s, diamond = d, assets = a\<rparr>, n1 + n2 + n3 + n4))))))"

definition balance_serialize :: "balance \<Rightarrow> u8 list ret" where
  "balance_serialize b =
     bindR (Inr (amount_serialize (hacash b))) (\<lambda>u1.
     bindR (fold64_serialize (satoshi b)) (\<lambda>u2.
     bindR (fold64_serialize (diamond b)) (\<lambda>u3.
     bindR (combi_serialize 1 asset_serialize (assets b)) (\<lambda>u4. Inr (u1 @ u2 @ u3 @ u4)))))"

definition balance_asset :: "balance \<Rightarrow> fold64 \<Rightarrow> asset_amt option" where
  "balance_asset b seri = List.find (\<lambda>a. asset_serial a = seri) (lists (assets b))"

text \<open>\<open>unwrap_or\<close> evaluates its argument first, so a zero serial panics in any case.\<close>

definition asset_must :: "balance \<Rightarrow> fold64 \<Rightarrow> asset_amt ret" where
  "asset_must b seri =
     bindR (expectR (asset_from_serial seri) ''unwrap'') (\<lambda>dv.
       Inr (case balance_asset b seri of Some a \<Rightarrow> a | None \<Rightarrow> dv))"

text \<open>The loop of \<open>asset_set\<close>: the first position with the serial.\<close>

fun find_serial :: "fold64 \<Rightarrow> asset_amt list \<Rightarrow> nat option" where
  "find_serial seri [] = None"
| "find_serial seri (a # as) = (if asset_serial a = seri then Some 0 else map_option Suc (find_serial seri as))"

definition asset_set :: "balance \<Rightarrow> asset_amt \<Rightarrow> balance ret" where
  "asset_set b amt0 =
     bindR (if fold64_is_zero (asset_amount amt0) then Inr amt0 else asset_checked amt0) (\<lambda>amt.
       case find_serial (asset_serial amt) (lists (assets b)) of
         Some i \<Rightarrow>
           if fold64_is_zero (asset_amount amt)
           then bindR (expectR (combi_drop (assets b) i) ''unwrap'') (\<lambda>l. Inr (b\<lparr>assets := l\<rparr>))
           else Inr (b\<lparr>assets := (assets b)\<lparr>lists := (lists (assets b))[i := amt]\<rparr>\<rparr>)
       | None \<Rightarrow>
           if fold64_is_zero (asset_amount amt) then Inr b
           else if combi_length (assets b) \<ge> BALANCE_ASSET_MAX
           then Inl (Fault ''balance asset item quantity cannot exceed'')
           else bindR (combi_push 1 (assets b) amt) (\<lambda>l. Inr (b\<lparr>assets := l\<rparr>)))"

text \<open>\<open>to_satoshi\<close>, \<open>from_satoshi\<close>, \<open>to_diamond\<close>, \<open>from_diamond\<close>: \<open>Satoshi\<close> is
  \<open>Uint8\<close> and \<open>DiamondNumber\<close> is \<open>Uint3\<close>; the conversions back unwrap.\<close>

definition to_satoshi :: "fold64 \<Rightarrow> nat ret" where
  "to_satoshi f = uint_from 8 (fold64_uint f)"

definition from_satoshi :: "nat \<Rightarrow> fold64 ret" where
  "from_satoshi sat = expectR (fold64_from (word_of_nat sat)) ''unwrap''"

definition to_diamond :: "fold64 \<Rightarrow> nat ret" where
  "to_diamond f = (let v = fold64_uint f in
     if v > 2 ^ 32 - 1 then Inl (Fault ''diamond number exceeds u32::MAX'') else uint_from 3 v)"

definition from_diamond :: "nat \<Rightarrow> fold64 ret" where
  "from_diamond dia = expectR (fold64_from (word_of_nat dia)) ''unwrap''"

section \<open>The asset list\<close>

definition asset_ok :: "asset_amt \<Rightarrow> bool" where
  "asset_ok a \<longleftrightarrow> fold64_uint (asset_serial a) \<noteq> 0 \<and> fold64_ok (asset_serial a) \<and> fold64_ok (asset_amount a)"

lemma asset_checked_eq [ret_simps]: "asset_checked a = Inr c \<longleftrightarrow> c = a \<and> asset_ok a"
  by (auto simp: asset_checked_def asset_ok_def bindR_eq_Inr fold64_checked_def fold64_ok_def)

lemma check_assets_loop_iff:
  "check_assets_loop l seen = Inr () \<longleftrightarrow> list_all asset_ok l \<and> distinct (map asset_serial l) \<and>
     (\<forall>a \<in> set l. fold64_uint (asset_serial a) \<notin> set seen)"
  by (induction l seen rule: check_assets_loop.induct)
    (auto simp: bindR_eq_Inr asset_checked_eq fold64_uint_inject split: if_splits, metis imageI)

definition assets_ok :: "asset_amt combi_list \<Rightarrow> bool" where
  "assets_ok l \<longleftrightarrow> combi_ok 1 l \<and> length (lists l) \<le> BALANCE_ASSET_MAX \<and> list_all asset_ok (lists l) \<and>
     distinct (map asset_serial (lists l))"

lemma check_assets_iff: "check_assets l = Inr () \<and> combi_ok 1 l \<longleftrightarrow> assets_ok l"
  by (auto simp: check_assets_def assets_ok_def combi_length_def combi_ok_def check_assets_loop_iff split: if_splits)

definition balance_ok :: "balance \<Rightarrow> bool" where
  "balance_ok b \<longleftrightarrow> amt_canonical (hacash b) \<and> fold64_ok (satoshi b) \<and> fold64_ok (diamond b) \<and> assets_ok (assets b)"

lemma codec_asset: "codec asset_serialize asset_parse asset_ok"
proof (rule codec_cong [OF codec_map [where f = "\<lambda>(s, m). \<lparr>asset_serial = s, asset_amount = m\<rparr>"
      and g = "\<lambda>a. (asset_serial a, asset_amount a)" and chk = "\<lambda>a. bindR (asset_checked a) (\<lambda>_. Inr ())",
      OF codec_pair [OF fold64.codec_axioms fold64.codec_axioms]]])
  fix buf
  show "asset_parse buf = bindR (pair_parse fold64_parse fold64_parse buf) (\<lambda>(y, n).
      bindR (bindR (asset_checked (case y of (s, m) \<Rightarrow> \<lparr>asset_serial = s, asset_amount = m\<rparr>)) (\<lambda>_. Inr ()))
        (\<lambda>u. Inr (case y of (s, m) \<Rightarrow> \<lparr>asset_serial = s, asset_amount = m\<rparr>, n)))"
    by (auto simp: asset_parse_def pair_parse_def bindR_def asset_checked_def fold64_checked_def split: sum.splits)
qed (auto simp: asset_serialize_def pair_serialize_def asset_ok_def bindR_eq_Inr asset_checked_eq)

lemma codec_balance: "codec balance_serialize balance_parse balance_ok"
proof (rule codec_cong [OF codec_map [where f = "\<lambda>(h, s, d, a). \<lparr>hacash = h, satoshi = s, diamond = d, assets = a\<rparr>"
      and g = "\<lambda>b. (hacash b, satoshi b, diamond b, assets b)" and chk = "\<lambda>b. check_assets (assets b)",
      OF codec_pair [OF amount.codec_axioms codec_pair [OF fold64.codec_axioms
         codec_pair [OF fold64.codec_axioms codec_combi [OF codec_asset, of 1]]]]]])
  fix buf
  show "balance_parse buf = bindR (pair_parse amount_parse (pair_parse fold64_parse (pair_parse fold64_parse (combi_parse 1 asset_parse))) buf)
      (\<lambda>(y, n). bindR (check_assets (assets (case y of (h, s, d, a) \<Rightarrow> \<lparr>hacash = h, satoshi = s, diamond = d, assets = a\<rparr>)))
        (\<lambda>u. Inr (case y of (h, s, d, a) \<Rightarrow> \<lparr>hacash = h, satoshi = s, diamond = d, assets = a\<rparr>, n)))"
    by (simp add: balance_parse_def pair_parse_def bindR_def ac_simps split: sum.split prod.split)
next
  fix b
  show "balance_ok b = ((case (hacash b, satoshi b, diamond b, assets b) of (x, y) \<Rightarrow> amt_canonical x \<and>
       (case y of (x, y) \<Rightarrow> fold64_ok x \<and> (case y of (x, y) \<Rightarrow> fold64_ok x \<and> (combi_ok 1 y \<and> list_all asset_ok (lists y))))) \<and>
       check_assets (assets b) = Inr ())"
    using check_assets_iff [of "assets b"] by (auto simp: balance_ok_def assets_ok_def)
qed (auto simp: balance_serialize_def pair_serialize_def bindR_def split: sum.splits)

interpretation balance: codec balance_serialize balance_parse balance_ok
  by (rule codec_balance)

lemma find_serial_Some:
  "find_serial s l = Some i \<Longrightarrow> i < length l \<and> asset_serial (l ! i) = s"
  by (induction l arbitrary: i) (auto split: if_splits)

lemma find_serial_None: "find_serial s l = None \<longleftrightarrow> s \<notin> asset_serial ` set l"
  by (induction l) auto

definition by_serial :: "asset_amt list \<Rightarrow> fold64 \<Rightarrow> asset_amt option" where
  "by_serial l s = List.find (\<lambda>a. asset_serial a = s) l"

lemma by_serial_simps [simp]:
  "by_serial [] s = None" "by_serial (a # l) s = (if asset_serial a = s then Some a else by_serial l s)"
  by (simp_all add: by_serial_def)

lemma by_serial_None: "by_serial l s = None \<longleftrightarrow> s \<notin> asset_serial ` set l"
  by (induction l) auto

lemma by_serial_SomeD: "by_serial l s = Some a \<Longrightarrow> a \<in> set l \<and> asset_serial a = s"
  by (induction l) (auto split: if_splits)

lemma by_serial_append: "by_serial (xs @ ys) s = (case by_serial xs s of None \<Rightarrow> by_serial ys s | Some a \<Rightarrow> Some a)"
  by (induction xs) auto

lemma by_serial_fresh: "s \<notin> asset_serial ` set l \<Longrightarrow> by_serial l s = None"
  by (simp add: by_serial_None)

lemma by_serial_push:
  "asset_serial a \<notin> asset_serial ` set l \<Longrightarrow> by_serial (l @ [a]) s = (if s = asset_serial a then Some a else by_serial l s)"
  by (auto simp: by_serial_append by_serial_fresh split: option.split)

lemma serials_split:
  assumes "i < length l"
  shows "l = take i l @ l ! i # drop (Suc i) l"
  using assms by (rule id_take_nth_drop)

lemma by_serial_drop:
  assumes "distinct (map asset_serial l)" "i < length l"
  shows "by_serial (take i l @ drop (Suc i) l) s = (if s = asset_serial (l ! i) then None else by_serial l s)"
proof -
  define xs x ys where "xs = take i l" and "x = l ! i" and "ys = drop (Suc i) l"
  have l: "l = xs @ x # ys" unfolding xs_def x_def ys_def by (rule serials_split [OF assms(2)])
  have "asset_serial x \<notin> asset_serial ` set xs" "asset_serial x \<notin> asset_serial ` set ys"
    using assms(1) unfolding l by auto
  then have "by_serial (xs @ ys) s = (if s = asset_serial x then None else by_serial (xs @ x # ys) s)"
    by (auto simp: by_serial_append by_serial_fresh split: option.split)
  then show ?thesis unfolding xs_def [symmetric] x_def [symmetric] ys_def [symmetric] l [symmetric] .
qed

lemma by_serial_update:
  assumes "distinct (map asset_serial l)" "i < length l" "asset_serial (l ! i) = asset_serial a"
  shows "by_serial (l[i := a]) s = (if s = asset_serial a then Some a else by_serial l s)"
proof -
  define xs x ys where "xs = take i l" and "x = l ! i" and "ys = drop (Suc i) l"
  have l: "l = xs @ x # ys" unfolding xs_def x_def ys_def by (rule serials_split [OF assms(2)])
  have u: "l[i := a] = xs @ a # ys" unfolding xs_def ys_def using assms(2) by (rule upd_conv_take_nth_drop)
  have "distinct (map asset_serial (xs @ x # ys))" using assms(1) l by simp
  then have "asset_serial x \<notin> asset_serial ` set xs" "asset_serial x = asset_serial a"
    using assms(3) by (auto simp: x_def)
  then have "by_serial (xs @ a # ys) s = (if s = asset_serial a then Some a else by_serial (xs @ x # ys) s)"
    by (auto simp: by_serial_append by_serial_fresh split: option.split)
  then show ?thesis unfolding u l [symmetric] .
qed

lemma serials_drop_ok:
  assumes "distinct (map asset_serial l)" "list_all asset_ok l" "i < length l"
  shows "distinct (map asset_serial (take i l @ drop (Suc i) l)) \<and> list_all asset_ok (take i l @ drop (Suc i) l)"
proof -
  define xs x ys where "xs = take i l" and "x = l ! i" and "ys = drop (Suc i) l"
  have l: "l = xs @ x # ys" unfolding xs_def x_def ys_def by (rule serials_split [OF assms(3)])
  show ?thesis using assms(1,2) unfolding xs_def [symmetric] ys_def [symmetric] by (subst (asm) (1 2) l) auto
qed

lemma serials_update_ok:
  assumes "list_all asset_ok l" "i < length l" "asset_serial (l ! i) = asset_serial a" "asset_ok a"
  shows "map asset_serial (l[i := a]) = map asset_serial l \<and> list_all asset_ok (l[i := a])"
proof -
  have "map asset_serial (l[i := a]) = map asset_serial l"
    using assms(2,3) by (metis list_update_id map_update nth_map)
  moreover have "list_all asset_ok (l[i := a])"
    using assms set_update_subset_insert [of l i a] by (auto simp: list_all_iff)
  ultimately show ?thesis by simp
qed

lemma balance_asset_by_serial: "balance_asset b s = by_serial (lists (assets b)) s"
  by (simp add: balance_asset_def by_serial_def)

lemma asset_set_fields: "asset_set b amt = Inr b' \<Longrightarrow> hacash b' = hacash b \<and> satoshi b' = satoshi b \<and> diamond b' = diamond b"
  by (auto simp: asset_set_def bindR_eq_Inr split: option.splits if_splits)

text \<open>The abstract view: the assets of a balance are a map from serials, and \<open>asset_set\<close>
  updates it at one serial, a zero amount deleting the entry.\<close>

lemma asset_set_value:
  assumes ok: "assets_ok (assets b)" and set: "asset_set b amt = Inr b'"
  shows "assets_ok (assets b') \<and>
    balance_asset b' s = (if s = asset_serial amt then if fold64_is_zero (asset_amount amt) then None else Some amt
      else balance_asset b s)"
proof -
  let ?l = "lists (assets b)" let ?z = "fold64_is_zero (asset_amount amt)"
  from ok have c: "combi_ok 1 (assets b)" and len: "length ?l \<le> BALANCE_ASSET_MAX" and all: "list_all asset_ok ?l"
    and dist: "distinct (map asset_serial ?l)" by (auto simp: assets_ok_def)
  have good: "asset_ok amt" if "\<not> ?z" using set that by (auto simp: asset_set_def bindR_eq_Inr asset_checked_eq)
  show ?thesis
  proof (cases "find_serial (asset_serial amt) ?l")
    case None
    then have new: "asset_serial amt \<notin> asset_serial ` set ?l" by (simp add: find_serial_None)
    show ?thesis
    proof (cases ?z)
      case True
      with None set have "b' = b" by (simp add: asset_set_def)
      then show ?thesis using True ok by_serial_fresh [OF new] by (auto simp: balance_asset_by_serial)
    next
      case False
      with None set have p: "combi_push 1 (assets b) amt = Inr (assets b')" "length ?l < BALANCE_ASSET_MAX"
        using c by (auto simp: asset_set_def bindR_eq_Inr asset_checked_eq combi_length_def combi_ok_def split: if_splits)
      from combi_ok_ops(2) [OF c p(1)] show ?thesis
        using p(2) all dist new good [OF False] False
        by (simp add: assets_ok_def balance_asset_by_serial by_serial_push)
    qed
  next
    case (Some i)
    from find_serial_Some [OF Some] have i: "i < length ?l" "asset_serial (?l ! i) = asset_serial amt" by auto
    show ?thesis
    proof (cases ?z)
      case True
      with Some set i c have p: "combi_drop (assets b) i = Inr (assets b')"
        by (auto simp: asset_set_def bindR_eq_Inr expectR_def combi_drop_def combi_ok_def split: sum.splits)
      from combi_ok_ops(1) [OF c p] show ?thesis
        using serials_drop_ok [OF dist all i(1)] by_serial_drop [OF dist i(1), of s] True i len
        by (simp add: assets_ok_def balance_asset_by_serial)
    next
      case False
      with Some set have p: "assets b' = (assets b)\<lparr>lists := ?l[i := amt]\<rparr>"
        by (auto simp: asset_set_def bindR_eq_Inr asset_checked_eq)
      show ?thesis
        using serials_update_ok [OF all i good [OF False]] by_serial_update [OF dist i, of s] False c len dist
        by (simp add: p assets_ok_def combi_ok_def balance_asset_by_serial)
    qed
  qed
qed

section \<open>Properties\<close>

text \<open>The stored form of a balance is canonical: the reader accepts a buffer exactly when
  the bytes it uses are the serialization of a valid balance, namely one whose amount and
  counters are canonical and whose asset list has at most 20 entries, no zero serial, and no
  serial twice. So equal balances have equal bytes and no two byte strings read as the same
  balance.\<close>
theorem balance_parse_iff:
  "balance_parse buf = Inr (b, n) \<longleftrightarrow> balance_ok b \<and> n \<le> length buf \<and> balance_serialize b = Inr (take n buf)"
  by (rule balance.parse_iff)

text \<open>C12: \<open>asset_set\<close>, a scan over the asset list, implements the update of a map from serials to
  asset amounts: it changes the entry of one serial, deletes it when the amount is zero, leaves
  every other serial alone and keeps the list valid.\<close>
theorem asset_set_refines_map:
  assumes "assets_ok (assets b)" "asset_set b amt = Inr b'"
  shows "assets_ok (assets b') \<and>
    balance_asset b' = (balance_asset b)(asset_serial amt := if fold64_is_zero (asset_amount amt) then None else Some amt) \<and>
    hacash b' = hacash b \<and> satoshi b' = satoshi b \<and> diamond b' = diamond b"
  using asset_set_value [OF assms] asset_set_fields [OF assms(2)] by (auto simp: fun_eq_iff)

theorem asset_set_refines_map_witness:
  "let a = \<lparr>asset_serial = Fold64 3, asset_amount = Fold64 50\<rparr>; z = \<lparr>asset_serial = Fold64 3, asset_amount = Fold64 0\<rparr>;
       b = balance_new\<lparr>assets := \<lparr>count_of = 1, lists = [a]\<rparr>\<rparr> in
     \<exists>b'. asset_set b z = Inr b' \<and> balance_asset b' = Map.empty"
proof -
  let ?a = "\<lparr>asset_serial = Fold64 3, asset_amount = Fold64 50\<rparr>" let ?z = "\<lparr>asset_serial = Fold64 3, asset_amount = Fold64 0\<rparr>"
  let ?b = "balance_new\<lparr>assets := \<lparr>count_of = 1, lists = [?a]\<rparr>\<rparr>"
  have ok: "assets_ok (assets ?b)"
    by (simp add: assets_ok_def combi_ok_def BALANCE_ASSET_MAX_def asset_ok_def fold64_ok_def fold64_MAX_eq)
  obtain b' where set: "asset_set ?b ?z = Inr b'"
    by (simp add: asset_set_def fold64_is_zero_def expectR_def combi_drop_def)
  from asset_set_refines_map [OF ok set] have "balance_asset b' = (balance_asset ?b)(Fold64 3 := None)"
    by (simp add: fold64_is_zero_def)
  moreover have "(balance_asset ?b)(Fold64 3 := None) = Map.empty" by (auto simp: fun_eq_iff balance_asset_def)
  ultimately show ?thesis using set by (auto simp: Let_def)
qed

end
