(* ===== verification/DiamondNames.thy ===== *)
theory DiamondNames
  imports Wire "HOL-Library.Multiset"
begin

text \<open>
  \<^verbatim>\<open>field/src/core/diamond.rs\<close> (diamond names and name lists) and the
  \<open>DiamondOwnedForm\<close> of \<^verbatim>\<open>core/diamond_smelt.rs\<close>, the packed byte string of
  the diamonds an address owns. A name is its six bytes.
\<close>

section \<open>Names and name lists\<close>

type_synonym diamond_name = "u8 list"

definition DIAMOND_NAME_VALID_CHARS :: "u8 list" where
  "DIAMOND_NAME_VALID_CHARS = map of_char ''WTYUIAHXVMEKBSZN''"

definition name_is_valid :: "u8 list \<Rightarrow> bool" where
  "name_is_valid stuff \<longleftrightarrow> length stuff = 6 \<and> list_all (\<lambda>x. x \<in> set DIAMOND_NAME_VALID_CHARS) stuff"

definition name_check_bytes :: "u8 list \<Rightarrow> unit ret" where
  "name_check_bytes stuff = (if name_is_valid stuff then Inr () else Inl (Fault ''diamond name is not valid''))"

definition name_parse :: "u8 list \<Rightarrow> (diamond_name \<times> nat) ret" where
  "name_parse buf = bindR (bufeat buf 6) (\<lambda>raw. bindR (name_check_bytes raw) (\<lambda>_. Inr (raw, 6)))"

definition name_serialize :: "diamond_name \<Rightarrow> u8 list ret" where
  "name_serialize d = Inr d"

type_synonym name_list = "diamond_name combi_list"

fun nlist_check_loop :: "diamond_name list \<Rightarrow> diamond_name list \<Rightarrow> unit ret" where
  "nlist_check_loop [] seen = Inr ()"
| "nlist_check_loop (v # vs) seen =
     (if \<not> name_is_valid v then Inl (Fault ''diamond name is not valid'')
      else if v \<in> set seen then Inl (Fault ''diamond name is duplicated'')
      else nlist_check_loop vs (v # seen))"

definition nlist_check :: "nat \<Rightarrow> name_list \<Rightarrow> nat ret" where
  "nlist_check mx l =
     (let setlen = count_of l; reallen = length (lists l) in
      if setlen \<noteq> reallen then Inl (Fault ''check failed: length'')
      else if reallen = 0 then Inl (Fault ''diamonds quantity cannot be zero'')
      else if reallen > mx then Inl (Fault ''diamonds quantity cannot exceed'')
      else bindR (nlist_check_loop (lists l) []) (\<lambda>_. Inr reallen))"

definition nlist_parse :: "nat \<Rightarrow> nat \<Rightarrow> u8 list \<Rightarrow> (name_list \<times> nat) ret" where
  "nlist_parse w mx buf =
     bindR (uint_parse w buf) (\<lambda>(n, seek).
     bindR (items_parse name_parse n (drop seek buf)) (\<lambda>(vs, m).
     let tmp = \<lparr>count_of = n, lists = vs\<rparr> in bindR (nlist_check mx tmp) (\<lambda>_. Inr (tmp, seek + m))))"

definition nlist_serialize :: "nat \<Rightarrow> name_list \<Rightarrow> u8 list ret" where
  "nlist_serialize w l =
     bindR (uint_serialize w (count_of l)) (\<lambda>u. bindR (items_serialize name_serialize (lists l)) (\<lambda>v. Inr (u @ v)))"

definition nlist_contains :: "name_list \<Rightarrow> u8 list \<Rightarrow> bool" where
  "nlist_contains l x \<longleftrightarrow> list_ex (\<lambda>v. x = v) (lists l)"

definition nlist_push_checked :: "nat \<Rightarrow> nat \<Rightarrow> name_list \<Rightarrow> diamond_name \<Rightarrow> name_list ret" where
  "nlist_push_checked w mx l dia =
     bindR (name_check_bytes dia) (\<lambda>_.
       if nlist_contains l dia then Inl (Fault ''diamond name is duplicated'')
       else if count_of l + 1 > mx then Inl (Fault ''diamond list max overflow'')
       else bindR (uint_from_usize w (count_of l + 1)) (\<lambda>c. Inr \<lparr>count_of = c, lists = lists l @ [dia]\<rparr>))"

definition nlist_one :: "nat \<Rightarrow> nat \<Rightarrow> diamond_name \<Rightarrow> name_list ret" where
  "nlist_one w mx dia = (case nlist_push_checked w mx combi_empty dia of Inl _ \<Rightarrow> Inl (Panic ''unwrap'') | Inr l \<Rightarrow> Inr l)"

fun names_unfresh :: "name_list \<Rightarrow> diamond_name list \<Rightarrow> unit ret" where
  "names_unfresh l [] = Inr ()"
| "names_unfresh l (d # ds) =
     bindR (name_check_bytes d) (\<lambda>_.
       if nlist_contains l d then Inl (Fault ''diamond name is duplicated'') else names_unfresh l ds)"

definition nlist_checked_append :: "nat \<Rightarrow> nat \<Rightarrow> name_list \<Rightarrow> diamond_name list \<Rightarrow> name_list ret" where
  "nlist_checked_append w mx l dias =
     bindR (names_unfresh l dias) (\<lambda>_. let n = length (lists l) + length dias in
       if n > mx then Inl (Fault ''diamond list max overflow'')
       else if length (remdups dias) \<noteq> length dias then Inl (Fault ''diamond name list contains duplicates'')
       else bindR (uint_from_usize w n) (\<lambda>c. Inr \<lparr>count_of = c, lists = lists l @ dias\<rparr>))"

fun names_distinct_check :: "diamond_name list \<Rightarrow> unit ret" where
  "names_distinct_check [] = Inr ()"
| "names_distinct_check (v # vs) =
     bindR (name_check_bytes v) (\<lambda>_.
       if list_ex (\<lambda>x. v = x) vs then Inl (Fault ''diamond name list contains duplicates'')
       else names_distinct_check vs)"

definition nlist_from_list_checked :: "nat \<Rightarrow> nat \<Rightarrow> diamond_name list \<Rightarrow> name_list ret" where
  "nlist_from_list_checked w mx v =
     (let num = length v in
      if num > mx then Inl (Fault ''diamond list max overflow'')
      else bindR (names_distinct_check v) (\<lambda>_. bindR (uint_from_usize w num) (\<lambda>c. Inr \<lparr>count_of = c, lists = v\<rparr>)))"

definition nlist_fetch_head_list :: "nat \<Rightarrow> name_list \<Rightarrow> nat \<Rightarrow> (diamond_name list \<times> name_list) ret" where
  "nlist_fetch_head_list w l n =
     (let m = count_of l in
      if n > m then Inl (Fault ''list data length'')
      else if n = 0 then Inr ([], l)
      else if n = m then Inr (lists l, \<lparr>count_of = 0, lists = []\<rparr>)
      else if n > length (lists l) then Inl (Panic ''split_off at'')
      else bindR (uint_from_usize w (length (drop n (lists l)))) (\<lambda>c.
             Inr (take n (lists l), \<lparr>count_of = c, lists = drop n (lists l)\<rparr>)))"

definition nlist_form :: "name_list \<Rightarrow> u8 list" where
  "nlist_form l = concat (lists l)"

section \<open>The packed list of owned diamonds\<close>

text \<open>\<open>BytesW4\<close> holds at most \<open>2 ^ 32 - 1\<close> bytes.\<close>

type_synonym owned_form = "u8 list"

definition W4_MAX :: nat where "W4_MAX = 2 ^ 32 - 1"

definition bytesW4_from :: "u8 list \<Rightarrow> owned_form ret" where
  "bytesW4_from bs = (if length bs > W4_MAX then Inl (Fault ''bytes length overflow'') else Inr bs)"

fun chunks6 :: "u8 list \<Rightarrow> u8 list list" where
  "chunks6 (a # b # c # d # e # f # rest) = [a, b, c, d, e, f] # chunks6 rest"
| "chunks6 _ = []"

definition contains_diamond :: "owned_form \<Rightarrow> diamond_name \<Rightarrow> bool" where
  "contains_diamond names dian =
     (if length names mod 6 \<noteq> 0 then False else list_ex (\<lambda>x. x = dian) (chunks6 names))"

definition owned_push_one :: "owned_form \<Rightarrow> diamond_name \<Rightarrow> owned_form ret" where
  "owned_push_one names dian =
     (if contains_diamond names dian then Inr names
      else if length names + length dian > W4_MAX then Inl (Panic ''unwrap'') else Inr (names @ dian))"

fun owned_push_list :: "owned_form \<Rightarrow> diamond_name list \<Rightarrow> owned_form ret" where
  "owned_push_list names [] = Inr names"
| "owned_push_list names (d # ds) = bindR (owned_push_one names d) (\<lambda>names. owned_push_list names ds)"

definition owned_push :: "owned_form \<Rightarrow> name_list \<Rightarrow> owned_form ret" where
  "owned_push names dian = owned_push_list names (lists dian)"

definition copy_within6 :: "u8 list \<Rightarrow> nat \<Rightarrow> nat \<Rightarrow> u8 list" where
  "copy_within6 form src dst = take (dst * 6) form @ take 6 (drop (src * 6) form) @ drop (dst * 6 + 6) form"

text \<open>The loop of \<open>drop\<close>: a name found is overwritten by the last one and the length
  shrinks; the scan stays at the same index. It stops early when nothing is left to drop.\<close>

function owned_drop_loop :: "u8 list \<Rightarrow> nat \<Rightarrow> nat \<Rightarrow> nat \<Rightarrow> diamond_name list \<Rightarrow> u8 list \<times> nat \<times> nat \<times> diamond_name list" where
  "owned_drop_loop form len i dropn delst =
     (if i < len then
        let id = take 6 (drop (i * 6) form) in
        if id \<in> set delst then
          let dropn = dropn + 1; delst = removeAll id delst; len' = len - 1;
              form = (if i < len' then copy_within6 form len' i else form)
          in if delst = [] then (form, len', dropn, delst) else owned_drop_loop form len' i dropn delst
        else owned_drop_loop form len (i + 1) dropn delst
      else (form, len, dropn, delst))"
  by pat_completeness auto
termination by (relation "measure (\<lambda>(_, len, i, _, _). len - i)") auto

definition owned_drop :: "owned_form \<Rightarrow> name_list \<Rightarrow> (nat \<times> owned_form) ret" where
  "owned_drop names dian =
     (if length names mod 6 \<noteq> 0 then Inl (Fault ''DiamondOwnedForm names length is not divisible'')
      else let (form, len, dropn, delst) = owned_drop_loop names (length names div 6) 0 0 (remdups (lists dian)) in
        if delst \<noteq> [] then bindR (bytesW4_from form) (\<lambda>_. Inl (Fault ''DiamondOwnedForm drop: some diamonds not found in form''))
        else if dropn \<noteq> count_of dian then Inl (Panic ''DiamondOwnedForm need drop'')
        else bindR (bytesW4_from (take (len * 6) form)) (\<lambda>names. Inr (dropn, names)))"

definition owned_drop_one :: "owned_form \<Rightarrow> diamond_name \<Rightarrow> (nat \<times> owned_form) ret" where
  "owned_drop_one names dian = bindR (nlist_one 1 200 dian) (\<lambda>l. owned_drop names l)"

section \<open>Name lists are canonical\<close>

lemma codec_name: "codec name_serialize name_parse name_is_valid"
proof
  fix x bs rest
  assume v: "name_is_valid x" "name_serialize x = Inr bs"
  then show "name_parse (bs @ rest) = Inr (x, length bs)"
    by (simp add: name_parse_def name_serialize_def name_is_valid_def bufeat_def name_check_bytes_def)
next
  fix buf x n
  assume "name_parse buf = Inr (x, n)"
  then show "name_is_valid x \<and> n \<le> length buf \<and> name_serialize x = Inr (take n buf)"
    by (auto simp: name_parse_def name_serialize_def bindR_eq_Inr bufeat_eq_Inr name_check_bytes_def split: if_splits)
qed (simp add: name_serialize_def)

definition nlist_ok :: "nat \<Rightarrow> nat \<Rightarrow> name_list \<Rightarrow> bool" where
  "nlist_ok w mx l \<longleftrightarrow> combi_ok w l \<and> lists l \<noteq> [] \<and> length (lists l) \<le> mx \<and> list_all name_is_valid (lists l) \<and> distinct (lists l)"

lemma nlist_check_loop_iff:
  "nlist_check_loop vs seen = Inr () \<longleftrightarrow> list_all name_is_valid vs \<and> distinct vs \<and> set vs \<inter> set seen = {}"
  by (induction vs arbitrary: seen) auto

lemma nlist_check_iff:
  "combi_ok w l \<Longrightarrow> list_all name_is_valid (lists l) \<Longrightarrow> bindR (nlist_check mx l) (\<lambda>_. Inr ()) = Inr () \<longleftrightarrow> nlist_ok w mx l"
  by (auto simp: nlist_check_def nlist_ok_def combi_ok_def Let_def bindR_eq_Inr nlist_check_loop_iff split: if_splits)

lemma codec_nlist: "codec (nlist_serialize w) (nlist_parse w mx) (nlist_ok w mx)"
proof (rule codec_cong [OF codec_map [where f = "\<lambda>l. l" and g = "\<lambda>l. l"
      and chk = "\<lambda>l. bindR (nlist_check mx l) (\<lambda>_. Inr ())", OF codec_combi [OF codec_name, of w]]])
  fix b
  show "nlist_parse w mx b = bindR (combi_parse w name_parse b) (\<lambda>(y, n). bindR (bindR (nlist_check mx y) (\<lambda>_. Inr ())) (\<lambda>u. Inr (y, n)))"
    by (simp add: nlist_parse_def combi_parse_def bindR_def Let_def split: sum.split prod.split)
next
  fix l
  show "nlist_ok w mx l = ((combi_ok w l \<and> list_all name_is_valid (lists l)) \<and> bindR (nlist_check mx l) (\<lambda>_. Inr ()) = Inr ())"
    using nlist_check_iff [of w l mx] by (auto simp: nlist_ok_def)
qed (auto simp: nlist_serialize_def combi_serialize_def combi_ok_def bindR_def split: sum.split)

interpretation names200: codec "nlist_serialize 1" "nlist_parse 1 200" "nlist_ok 1 200"
  by (rule codec_nlist)

interpretation names60000: codec "nlist_serialize 2" "nlist_parse 2 60000" "nlist_ok 2 60000"
  by (rule codec_nlist)

section \<open>The owned form is a set of names\<close>

text \<open>The packed bytes of a list of six-byte names.\<close>

definition six :: "u8 list list \<Rightarrow> bool" where
  "six ns \<longleftrightarrow> list_all (\<lambda>n. length n = 6) ns"

lemma six_simps [simp]: "six []" "six (n # ns) \<longleftrightarrow> length n = 6 \<and> six ns" "six (xs @ ys) \<longleftrightarrow> six xs \<and> six ys"
  by (simp_all add: six_def)

lemma six_nth: "six ns \<Longrightarrow> i < length ns \<Longrightarrow> length (ns ! i) = 6"
  by (simp add: six_def list_all_length)

lemma six_take_update: "six ns \<Longrightarrow> six (take k ns)" "six ns \<Longrightarrow> length x = 6 \<Longrightarrow> six (ns[i := x])"
  by (auto simp: six_def list_all_iff dest: in_set_takeD set_update_subset_insert [THEN subsetD])

lemma length_concat_six: "six ns \<Longrightarrow> length (concat ns) = 6 * length ns"
  by (induction ns) auto

lemma six_cases: "length x = 6 \<Longrightarrow> \<exists>a b c d e f. x = [a, b, c, d, e, f]"
  by (auto simp: length_Suc_conv numeral_eq_Suc)

lemma chunks6_concat: "six ns \<Longrightarrow> chunks6 (concat ns) = ns"
  by (induction ns) (auto dest!: six_cases)

lemma concat_chunks6: "length bs mod 6 = 0 \<Longrightarrow> concat (chunks6 bs) = bs \<and> six (chunks6 bs)"
proof (induction bs rule: chunks6.induct)
  case (1 a b c d e f rest)
  then have "length rest mod 6 = 0" by simp
  with 1 show ?case by simp
qed simp_all

lemma take_concat_six: "six ns \<Longrightarrow> take (k * 6) (concat ns) = concat (take k ns)"
proof (induction ns arbitrary: k)
  case (Cons n ns)
  then show ?case by (cases k) auto
qed simp

lemma drop_concat_six: "six ns \<Longrightarrow> drop (k * 6) (concat ns) = concat (drop k ns)"
proof (induction ns arbitrary: k)
  case (Cons n ns)
  then show ?case by (cases k) auto
qed simp

lemma nth_concat_six:
  assumes "six ns" "i < length ns"
  shows "take 6 (drop (i * 6) (concat ns)) = ns ! i"
proof -
  have "concat (drop i ns) = ns ! i @ concat (drop (Suc i) ns)"
    using assms(2) by (simp add: Cons_nth_drop_Suc [symmetric])
  then show ?thesis using assms six_nth [OF assms] by (simp add: drop_concat_six)
qed

lemma copy_within6_concat:
  assumes "six ns" "src < length ns" "dst < length ns"
  shows "copy_within6 (concat ns) src dst = concat (ns[dst := ns ! src])"
proof -
  have d: "drop (dst * 6 + 6) (concat ns) = concat (drop (Suc dst) ns)"
    using drop_concat_six [OF assms(1), of "Suc dst"] by (simp add: add.commute)
  show ?thesis unfolding copy_within6_def nth_concat_six [OF assms(1,2)] take_concat_six [OF assms(1)] d
    using assms(3) by (simp add: upd_conv_take_nth_drop)
qed

text \<open>The same loop on the list of names.\<close>

function drop_names :: "diamond_name list \<Rightarrow> nat \<Rightarrow> nat \<Rightarrow> nat \<Rightarrow> diamond_name list \<Rightarrow> diamond_name list \<times> nat \<times> nat \<times> diamond_name list" where
  "drop_names ns len i dropn D =
     (if i < len then
        if ns ! i \<in> set D then
          let D' = removeAll (ns ! i) D; ns' = (if i < len - 1 then ns[i := ns ! (len - 1)] else ns)
          in if D' = [] then (ns', len - 1, dropn + 1, D') else drop_names ns' (len - 1) i (dropn + 1) D'
        else drop_names ns len (i + 1) dropn D
      else (ns, len, dropn, D))"
  by pat_completeness auto
termination by (relation "measure (\<lambda>(_, len, i, _, _). len - i)") auto

declare owned_drop_loop.simps [simp del] drop_names.simps [simp del]

lemma drop_names_found:
  assumes "i < len" "ns ! i \<in> set D"
    and "D' = removeAll (ns ! i) D" "ns' = (if i < len - 1 then ns[i := ns ! (len - 1)] else ns)"
  shows "drop_names ns len i dropn D =
    (if D' = [] then (ns', len - 1, dropn + 1, D') else drop_names ns' (len - 1) i (dropn + 1) D')"
  unfolding drop_names.simps [of _ len i] Let_def assms(3,4) using assms(1,2) by (simp only: if_True)

lemma owned_drop_loop_names:
  assumes "six ns" "len \<le> length ns"
  shows "owned_drop_loop (concat ns) len i dropn D = (case drop_names ns len i dropn D of (ns', r) \<Rightarrow> (concat ns', r))"
  using assms
proof (induction ns len i dropn D rule: drop_names.induct)
  case (1 ns len i dropn D)
  show ?case
  proof (cases "i < len")
    case False
    then show ?thesis by (simp add: owned_drop_loop.simps [of _ len i] drop_names.simps [of _ len i])
  next
    case True
    have id: "take 6 (drop (i * 6) (concat ns)) = ns ! i"
      using True "1.prems" by (intro nth_concat_six) auto
    show ?thesis
    proof (cases "ns ! i \<in> set D")
      case False
      with "1.IH"(2) [OF True False] "1.prems" True id show ?thesis
        by (simp add: owned_drop_loop.simps [of _ len i] drop_names.simps [of _ len i])
    next
      case found: True
      define ns' where "ns' = (if i < len - 1 then ns[i := ns ! (len - 1)] else ns)"
      have ns': "six ns'" "len - 1 \<le> length ns'"
        using "1.prems" True six_nth [of ns "len - 1"] by (auto simp: ns'_def intro!: six_take_update)
      have copy: "(if i < len - 1 then copy_within6 (concat ns) (len - 1) i else concat ns) = concat ns'"
        using "1.prems" True by (simp add: ns'_def copy_within6_concat)
      have o: "owned_drop_loop (concat ns) len i dropn D = (let D' = removeAll (ns ! i) D in
          if D' = [] then (concat ns', len - 1, dropn + 1, D') else owned_drop_loop (concat ns') (len - 1) i (dropn + 1) D')"
        unfolding owned_drop_loop.simps [of _ len i] Let_def id copy using True found by (simp only: if_True)
      note d = drop_names_found [OF True found refl ns'_def]
      show ?thesis
        using "1.IH"(1) [OF True found refl refl, folded ns'_def, OF _ ns'] unfolding o d Let_def by simp
    qed
  qed
qed

lemma mset_overwrite:
  assumes "i < len" "len \<le> length ns"
  shows "mset (take (len - 1) (if i < len - 1 then ns[i := ns ! (len - 1)] else ns)) + {#ns ! i#} = mset (take len ns)"
proof -
  obtain m where m: "len = Suc m" using assms(1) by (cases len) auto
  have t: "take len ns = take m ns @ [ns ! m]" using assms m by (simp add: take_Suc_conv_app_nth)
  show ?thesis
  proof (cases "i < m")
    case True
    have "mset (take m (ns[i := ns ! m])) = add_mset (ns ! m) (mset (take m ns) - {#ns ! i#})"
      using True assms m by (simp add: take_update_swap mset_update)
    moreover have "ns ! i \<in># mset (take m ns)" using True assms m by (auto simp: in_set_conv_nth)
    ultimately show ?thesis using True t m by (simp add: insert_DiffM add_mset_commute)
  next
    case False
    with assms m have "i = m" by simp
    then show ?thesis using t m by simp
  qed
qed

text \<open>What the scan does: it removes names of \<open>D\<close>, counts them, and what it leaves of \<open>D\<close>
  does not occur.\<close>

lemma drop_names_spec:
  assumes "drop_names ns len i dropn D = (ns', len', dropn', D')" "len \<le> length ns" "i \<le> len"
    and "\<forall>j < i. ns ! j \<notin> set D" "distinct D" "six ns"
  shows "\<exists>R. mset (take len' ns') + mset R = mset (take len ns) \<and> set R \<union> set D' = set D \<and> set R \<inter> set D' = {} \<and>
     distinct R \<and> dropn' = dropn + length R \<and> (D' \<noteq> [] \<longrightarrow> set D' \<inter> set (take len' ns') = {}) \<and> len' \<le> length ns' \<and> six ns'"
  using assms
proof (induction ns len i dropn D arbitrary: ns' len' dropn' D' rule: drop_names.induct)
  case (1 ns len i dropn D)
  show ?case
  proof (cases "i < len")
    case False
    then have e: "ns' = ns" "len' = len" "dropn' = dropn" "D' = D"
      using "1.prems"(1) by (auto simp: drop_names.simps [of _ len i])
    have "set D \<inter> set (take len ns) = {}"
      unfolding nth_image [OF "1.prems"(2), symmetric] using "1.prems"(3,4) False by force
    then show ?thesis using e "1.prems" by (intro exI [of _ "[]"]) auto
  next
    case True
    show ?thesis
    proof (cases "ns ! i \<in> set D")
      case False
      have "\<forall>j < i + 1. ns ! j \<notin> set D" using "1.prems"(4) False by (auto simp: less_Suc_eq)
      with "1.IH"(2) [OF True False, of ns' len' dropn' D'] "1.prems" True False show ?thesis
        by (simp add: drop_names.simps [of _ len i])
    next
      case found: True
      define E where "E = removeAll (ns ! i) D"
      define ms where "ms = (if i < len - 1 then ns[i := ns ! (len - 1)] else ns)"
      have E: "set E = set D - {ns ! i}" "distinct E" using "1.prems"(5) by (simp_all add: E_def distinct_removeAll)
      have ms: "mset (take (len - 1) ms) + {#ns ! i#} = mset (take len ns)" "len - 1 \<le> length ms" "six ms"
        using mset_overwrite [OF True "1.prems"(2)] "1.prems"(2,6) True six_nth [of ns "len - 1"]
        by (auto simp: ms_def intro!: six_take_update)
      show ?thesis
      proof (cases "E = []")
        case True
        with \<open>i < len\<close> found have "ns' = ms" "len' = len - 1" "dropn' = dropn + 1" "D' = []"
          using "1.prems"(1) by (auto simp: drop_names_found [OF _ _ E_def ms_def])
        then show ?thesis using ms E True found by (intro exI [of _ "[ns ! i]"]) auto
      next
        case False
        with \<open>i < len\<close> found have r: "drop_names ms (len - 1) i (dropn + 1) E = (ns', len', dropn', D')"
          using "1.prems"(1) by (simp add: drop_names_found [OF _ _ E_def ms_def])
        have "\<forall>j < i. ms ! j \<notin> set E" using "1.prems"(2,4) \<open>i < len\<close> E(1) by (auto simp: ms_def)
        have i': "i \<le> len - 1" using \<open>i < len\<close> by simp
        from "1.IH"(1) [OF \<open>i < len\<close> found refl refl, folded E_def ms_def, OF False r ms(2) i' \<open>\<forall>j < i. ms ! j \<notin> set E\<close> E(2) ms(3)]
        obtain R where R: "mset (take len' ns') + mset R = mset (take (len - 1) ms)" "set R \<union> set D' = set E"
          "set R \<inter> set D' = {}" "distinct R" "dropn' = dropn + 1 + length R"
          "D' \<noteq> [] \<longrightarrow> set D' \<inter> set (take len' ns') = {}" "len' \<le> length ns'" "six ns'" by auto
        then show ?thesis using ms(1) E(1) found by (intro exI [of _ "ns ! i # R"]) (auto simp: ac_simps)
      qed
    qed
  qed
qed

definition owned_ok :: "owned_form \<Rightarrow> bool" where
  "owned_ok names \<longleftrightarrow> length names mod 6 = 0 \<and> length names \<le> W4_MAX \<and> distinct (chunks6 names)"

definition owned_set :: "owned_form \<Rightarrow> diamond_name set" where
  "owned_set names = set (chunks6 names)"

lemma owned_split: "owned_ok names \<Longrightarrow> names = concat (chunks6 names) \<and> six (chunks6 names)"
  using concat_chunks6 [of names] by (simp add: owned_ok_def)

lemma owned_push_one_ok:
  assumes "owned_ok names" "length d = 6" "owned_push_one names d = Inr names'"
  shows "owned_ok names' \<and> owned_set names' = insert d (owned_set names)"
proof (cases "d \<in> owned_set names")
  case True
  with assms show ?thesis
    by (auto simp: owned_push_one_def contains_diamond_def owned_ok_def owned_set_def list_ex_iff split: if_splits)
next
  case False
  then have n: "names' = names @ d" "length names + 6 \<le> W4_MAX"
    using assms by (auto simp: owned_push_one_def contains_diamond_def owned_ok_def owned_set_def list_ex_iff split: if_splits)
  have "chunks6 (names @ d) = chunks6 names @ [d]"
    using chunks6_concat [of "chunks6 names @ [d]"] owned_split [OF assms(1)] assms(2) by simp
  then show ?thesis using assms(1,2) n False by (auto simp: owned_ok_def owned_set_def)
qed

lemma owned_push_list_ok:
  assumes "owned_ok names" "list_all (\<lambda>d. length d = 6) ds" "owned_push_list names ds = Inr names'"
  shows "owned_ok names' \<and> owned_set names' = owned_set names \<union> set ds"
  using assms
proof (induction ds arbitrary: names)
  case (Cons d ds)
  then obtain n where n: "owned_push_one names d = Inr n" "owned_push_list n ds = Inr names'"
    by (auto simp: bindR_eq_Inr)
  from owned_push_one_ok [OF Cons.prems(1) _ n(1)] Cons.IH [OF _ _ n(2)] Cons.prems(2) show ?case by auto
qed simp

lemma nlist_ok_six: "nlist_ok w mx l \<Longrightarrow> list_all (\<lambda>d. length d = 6) (lists l)"
  by (auto simp: nlist_ok_def list_all_iff name_is_valid_def)

lemma owned_drop_spec:
  assumes ok: "owned_ok names" and dian: "nlist_ok 1 200 dian"
  shows "case owned_drop names dian of
      Inl e \<Rightarrow> is_fault e \<and> \<not> set (lists dian) \<subseteq> owned_set names
    | Inr (n, names') \<Rightarrow> set (lists dian) \<subseteq> owned_set names \<and> owned_ok names' \<and>
        owned_set names' = owned_set names - set (lists dian) \<and> n = length (lists dian)"
proof -
  define ns where "ns = chunks6 names"
  have ns: "names = concat ns" "six ns" "distinct ns" "length names = 6 * length ns" "length names \<le> W4_MAX"
    using owned_split [OF ok] ok length_concat_six [of ns] by (auto simp: ns_def owned_ok_def)
  have D: "remdups (lists dian) = lists dian" "distinct (lists dian)" "count_of dian = length (lists dian)"
    using dian by (auto simp: nlist_ok_def combi_ok_def)
  obtain ns' len' n D' where r: "drop_names ns (length ns) 0 0 (lists dian) = (ns', len', n, D')" by (metis prod_cases4)
  have loop: "owned_drop_loop names (length names div 6) 0 0 (remdups (lists dian)) = (concat ns', len', n, D')"
  proof -
    have "length names div 6 = length ns" using ns(4) by simp
    then show ?thesis unfolding D(1) using owned_drop_loop_names [OF ns(2) le_refl, of 0 0 "lists dian"] ns(1) r by simp
  qed
  obtain R where R: "mset (take len' ns') + mset R = mset ns" "set R \<union> set D' = set (lists dian)" "set R \<inter> set D' = {}"
    "distinct R" "n = length R" "D' \<noteq> [] \<longrightarrow> set D' \<inter> set (take len' ns') = {}" "len' \<le> length ns'" "six ns'"
    using drop_names_spec [OF r] ns(2) D(2) by auto
  have ms: "set ns = set (take len' ns') \<union> set R" "distinct (take len' ns' @ R)"
  proof -
    have m: "mset (take len' ns' @ R) = mset ns" using R(1) by simp
    show "set ns = set (take len' ns') \<union> set R" using mset_eq_setD [OF m] by auto
    show "distinct (take len' ns' @ R)" using mset_eq_imp_distinct_iff [OF m] ns(3) by blast
  qed
  have sz: "len' + length R = length ns" using arg_cong [OF R(1), of size] R(7) by (simp add: min.absorb2)
  have shape: "owned_drop names dian = (if D' \<noteq> [] then bindR (bytesW4_from (concat ns')) (\<lambda>_. Inl (Fault ''DiamondOwnedForm drop: some diamonds not found in form''))
        else if n \<noteq> count_of dian then Inl (Panic ''DiamondOwnedForm need drop'')
        else bindR (bytesW4_from (take (len' * 6) (concat ns'))) (\<lambda>names. Inr (n, names)))"
    unfolding owned_drop_def loop using ns(4) by (simp add: Let_def)
  show ?thesis
  proof (cases "D' = []")
    case False
    have "\<not> set (lists dian) \<subseteq> set ns" using False R ms(1) by (cases D') auto
    then show ?thesis using False shape by (auto simp: bytesW4_from_def owned_set_def ns_def)
  next
    case True
    have n: "n = length (lists dian)" using True R D(2) by (metis Un_empty_right distinct_card list.set(1))
    define form where "form = concat (take len' ns')"
    have f: "chunks6 form = take len' ns'" "length form = 6 * len'"
      using chunks6_concat [OF six_take_update(1)] length_concat_six [OF six_take_update(1)] R(7,8)
      by (simp_all add: form_def min.absorb2)
    have "bytesW4_from (take (len' * 6) (concat ns')) = Inr form"
      using f(2) sz ns(4,5) R(8) by (simp add: take_concat_six bytesW4_from_def form_def)
    then have "owned_drop names dian = Inr (n, form)" using shape True n D(3) by simp
    moreover have "owned_ok form" using f sz ns(4,5) ms(2) by (simp add: owned_ok_def)
    moreover have "owned_set form = set ns - set (lists dian)" using f(1) ms R(2) True by (auto simp: owned_set_def)
    moreover have "set (lists dian) \<subseteq> set ns" using ms(1) R(2) True by auto
    ultimately show ?thesis using n by (simp add: owned_set_def ns_def)
  qed
qed

text \<open>C11: The in-place scan that removes diamonds from the packed list of an owner succeeds
  exactly when the owner holds all of them; then precisely those names are gone, the list stays
  free of duplicates and whole names, and the returned count is the number asked for. (It moves
  the last name into each gap, so the order may change.)\<close>
theorem owned_drop_correct:
  assumes ok: "owned_ok names" and dian: "nlist_ok 1 200 dian"
  shows "case owned_drop names dian of
      Inl e \<Rightarrow> is_fault e \<and> \<not> set (lists dian) \<subseteq> owned_set names
    | Inr (n, names') \<Rightarrow> set (lists dian) \<subseteq> owned_set names \<and> owned_ok names' \<and>
        owned_set names' = owned_set names - set (lists dian) \<and> n = length (lists dian)"
  by (rule owned_drop_spec [OF assms])

lemma sample_owned:
  "owned_ok (map of_char ''WTYUIAHXVMEKBSZNWT'')" "nlist_ok 1 200 \<lparr>count_of = 1, lists = [map of_char ''WTYUIA'']\<rparr>"
  by (simp_all add: owned_ok_def W4_MAX_def nlist_ok_def combi_ok_def name_is_valid_def DIAMOND_NAME_VALID_CHARS_def)

theorem owned_drop_correct_witness:
  "\<exists>names'. owned_drop (map of_char ''WTYUIAHXVMEKBSZNWT'') \<lparr>count_of = 1, lists = [map of_char ''WTYUIA'']\<rparr> = Inr (1, names') \<and>
     owned_set names' = {map of_char ''HXVMEK'', map of_char ''BSZNWT''}"
  using owned_drop_correct [OF sample_owned]
  by (auto simp: owned_set_def split: sum.splits)

end
