(* ===== verification/Ledger.thy ===== *)
theory Ledger
  imports Balance DiamondNames
begin

text \<open>
  \<^verbatim>\<open>protocol/src/state/state.rs\<close> (the core state), \<^verbatim>\<open>protocol/src/upgrade.rs\<close>
  (the activation gates) and \<^verbatim>\<open>protocol/src/operate/\<close> (\<open>total.rs\<close>,
  \<open>blackhole.rs\<close>, \<open>hacash.rs\<close>, \<open>satoshi.rs\<close>, \<open>diamond.rs\<close>, \<open>asset.rs\<close>). The
  state is a record of typed maps: the code stores the serialized value under a tagged key, and
  the codecs of the earlier theories show that reading it back gives the value stored.
  An operation returns its result with the state it leaves, errors included.
\<close>

section \<open>State\<close>

record env =
  env_chain_id :: u32
  env_height :: u64
  env_diamond_form :: bool

record total_count =
  minted_diamond :: nat
  hacd_bid_burn_238 :: nat
  opening_channel :: nat
  channel_deposit_238 :: nat
  channel_deposit_sat :: nat
  channel_interest_238 :: nat
  created_asset :: nat
  asset_issue_burn_238 :: nat
  tx_fee_burn90_238 :: nat
  ast_vm_gas_burn_238 :: nat
  diamond_engraved :: nat
  diamond_insc_burn_238 :: nat
  dia_insc_push :: nat
  dia_insc_clean :: nat
  dia_insc_edit :: nat
  dia_insc_move :: nat
  dia_insc_drop :: nat
  dia_insc_live_diamond :: nat
  channel_open_total :: nat
  channel_close_total :: nat
  channel_closed_hac_volume_238 :: nat
  contract_protocol_cost_burn_238 :: nat
  contract_deploy_count :: nat
  contract_update_count :: nat
  contract_charge_bytes_total :: nat
  tx_fee_pay_total_238 :: nat
  tx_fee_got_total_238 :: nat
  blackhole_hac_burn_238 :: nat
  blackhole_sat_burn :: nat
  blackhole_asset_burn_count :: nat
  blackhole_hacd_burn_count :: nat

definition DIAMOND_STATUS_NORMAL :: nat where "DIAMOND_STATUS_NORMAL = 1"
definition DIAMOND_STATUS_LENDING_TO_SYSTEM :: nat where "DIAMOND_STATUS_LENDING_TO_SYSTEM = 2"
definition DIAMOND_STATUS_LENDING_TO_USER :: nat where "DIAMOND_STATUS_LENDING_TO_USER = 3"

record diamond_sto =
  status :: nat
  dia_address :: address
  prev_engraved_height :: nat
  inscripts :: "u8 list list"

record core_state =
  total_count_of :: total_count
  balances :: "address \<Rightarrow> balance option"
  diamonds :: "diamond_name \<Rightarrow> diamond_sto option"
  diamond_owneds :: "address \<Rightarrow> owned_form option"
  tx_exists :: "u8 list \<Rightarrow> nat option"

type_synonym 'a op = "(core_state, 'a) st"

definition balance_or_default :: "core_state \<Rightarrow> address \<Rightarrow> balance" where
  "balance_or_default s a = (case balances s a of Some b \<Rightarrow> b | None \<Rightarrow> balance_new)"

definition balance_put :: "address \<Rightarrow> balance \<Rightarrow> unit op" where
  "balance_put a b = modifyS (\<lambda>s. s\<lparr>balances := (balances s)(a \<mapsto> b)\<rparr>)"

section \<open>Activation gates\<close>

definition DEV_OPEN_MAX_HEIGHT :: u64 where "DEV_OPEN_MAX_HEIGHT = 65432"
definition ONLINE_OPEN_HEIGHT :: u64 where "ONLINE_OPEN_HEIGHT = 765432"
definition PQC_TYPE4_OPEN_HEIGHT :: u64 where "PQC_TYPE4_OPEN_HEIGHT = 876543"
definition MAINNET_CHAIN_ID :: u32 where "MAINNET_CHAIN_ID = 0"

definition is_pre_upgrade_allowed_tx_type :: "u8 \<Rightarrow> bool" where
  "is_pre_upgrade_allowed_tx_type t \<longleftrightarrow> t = 1 \<or> t = 2"

definition is_pqc_tx_type :: "u8 \<Rightarrow> bool" where
  "is_pqc_tx_type t \<longleftrightarrow> t = 4"

definition is_pqc_type4_open :: "u64 \<Rightarrow> bool" where
  "is_pqc_type4_open h \<longleftrightarrow> h \<ge> PQC_TYPE4_OPEN_HEIGHT"

definition is_pre_upgrade_allowed_action :: "u16 \<Rightarrow> bool" where
  "is_pre_upgrade_allowed_action kind \<longleftrightarrow>
     kind \<in> {1, 13, 14} \<or> kind \<in> {2, 3} \<or> kind = 4 \<or> kind \<in> {5, 6, 7, 8} \<or> kind \<in> {32, 33}"

definition is_online_upgrade_open :: "u64 \<Rightarrow> bool" where
  "is_online_upgrade_open h \<longleftrightarrow> h \<ge> ONLINE_OPEN_HEIGHT"

definition is_dev_upgrade_open :: "u64 \<Rightarrow> bool" where
  "is_dev_upgrade_open h \<longleftrightarrow> h \<le> DEV_OPEN_MAX_HEIGHT"

definition check_gated_tx :: "u32 \<Rightarrow> u64 \<Rightarrow> u8 \<Rightarrow> unit ret" where
  "check_gated_tx chain h tx_type =
     (if chain \<noteq> MAINNET_CHAIN_ID then Inr ()
      else if is_pqc_tx_type tx_type then Inl (Fault ''PQC tx type is not enabled on mainnet'')
      else if is_online_upgrade_open h \<or> is_dev_upgrade_open h \<or> is_pre_upgrade_allowed_tx_type tx_type then Inr ()
      else Inl (Fault ''tx type not enabled at height''))"

definition check_gated_action :: "u32 \<Rightarrow> u64 \<Rightarrow> u16 \<Rightarrow> unit ret" where
  "check_gated_action chain h kind =
     (if chain \<noteq> MAINNET_CHAIN_ID then Inr ()
      else if is_online_upgrade_open h \<or> is_dev_upgrade_open h \<or> is_pre_upgrade_allowed_action kind then Inr ()
      else Inl (Fault ''action kind not enabled at height''))"

definition check_transfer_addr_online_open :: "u32 \<Rightarrow> u64 \<Rightarrow> address \<Rightarrow> address \<Rightarrow> unit ret" where
  "check_transfer_addr_online_open chain h fr to =
     (if chain \<noteq> MAINNET_CHAIN_ID then Inr ()
      else if is_pqckey fr \<or> is_hybrid fr \<or> is_pqckey to \<or> is_hybrid to
      then Inl (Fault ''PQC address versions (v6/v7) are not enabled on mainnet'')
      else if is_online_upgrade_open h then Inr ()
      else if is_scriptmh fr then Inl (Fault ''transfer from scriptmh address is not enabled before height'')
      else if is_contract fr \<or> is_contract to then Inl (Fault ''contract transfer in/out is not enabled before height'')
      else Inr ())"

section \<open>Total counters\<close>

definition u64_to_uint8 :: "nat \<Rightarrow> nat ret" where
  "u64_to_uint8 v = (case uint_from_checked 8 v of None \<Rightarrow> Inl (Fault ''overflow'') | Some x \<Rightarrow> Inr x)"

definition u128_to_uint12 :: "nat \<Rightarrow> nat ret" where
  "u128_to_uint12 v = (case uint_from_checked 12 v of None \<Rightarrow> Inl (Fault ''overflow'') | Some x \<Rightarrow> Inr x)"

definition total_add_u8 :: "nat \<Rightarrow> nat \<Rightarrow> nat ret" where
  "total_add_u8 cur a = (if cur + a \<ge> 2 ^ 64 then Inl (Fault ''overflow'') else u64_to_uint8 (cur + a))"

definition total_sub_u8 :: "nat \<Rightarrow> nat \<Rightarrow> nat ret" where
  "total_sub_u8 cur d = (if cur < d then Inl (Fault ''underflow'') else u64_to_uint8 (cur - d))"

definition total_add_u12 :: "nat \<Rightarrow> nat \<Rightarrow> nat ret" where
  "total_add_u12 cur a = (if cur + a \<ge> 2 ^ 128 then Inl (Fault ''overflow'') else u128_to_uint12 (cur + a))"

definition total_sub_u12 :: "nat \<Rightarrow> nat \<Rightarrow> nat ret" where
  "total_sub_u12 cur d = (if cur < d then Inl (Fault ''underflow'') else u128_to_uint12 (cur - d))"

definition total_add_amount_238 :: "nat \<Rightarrow> amount \<Rightarrow> nat ret" where
  "total_add_amount_238 cur amt = bindR (to_238_u64 amt) (\<lambda>a. total_add_u12 cur a)"

definition total_add_diamond_number :: "nat \<Rightarrow> nat \<Rightarrow> nat ret" where
  "total_add_diamond_number cur a =
     (if cur + a \<ge> 2 ^ 64 then Inl (Fault ''overflow'') else uint_from_usize 3 (cur + a))"

definition with_total_count :: "(total_count \<Rightarrow> total_count ret) \<Rightarrow> unit op" where
  "with_total_count f =
     bindS (getsS total_count_of) (\<lambda>tt. bindS (liftS (f tt)) (\<lambda>tt'. modifyS (\<lambda>s. s\<lparr>total_count_of := tt'\<rparr>)))"

definition preview_total_count :: "core_state \<Rightarrow> (total_count \<Rightarrow> total_count ret) \<Rightarrow> total_count ret" where
  "preview_total_count s f = f (total_count_of s)"

definition total_add_tx_fee_pay :: "amount \<Rightarrow> amount \<Rightarrow> unit op" where
  "total_add_tx_fee_pay fee_pay fee_got =
     bindS (liftS (to_238_u64 fee_pay)) (\<lambda>p. bindS (liftS (to_238_u64 fee_got)) (\<lambda>g.
     with_total_count (\<lambda>tt.
       bindR (total_add_u12 (tx_fee_pay_total_238 tt) p) (\<lambda>x.
       bindR (total_add_u12 (tx_fee_got_total_238 tt) g) (\<lambda>y.
         Inr (tt\<lparr>tx_fee_pay_total_238 := x, tx_fee_got_total_238 := y\<rparr>))))))"

definition total_record_blackhole_hac :: "amount \<Rightarrow> unit op" where
  "total_record_blackhole_hac amt =
     (if \<not> is_positive amt then returnS ()
      else with_total_count (\<lambda>tt. bindR (total_add_amount_238 (blackhole_hac_burn_238 tt) amt)
             (\<lambda>x. Inr (tt\<lparr>blackhole_hac_burn_238 := x\<rparr>))))"

definition total_record_blackhole_sat :: "nat \<Rightarrow> unit op" where
  "total_record_blackhole_sat sat =
     (if sat = 0 then returnS ()
      else with_total_count (\<lambda>tt. bindR (total_add_u8 (blackhole_sat_burn tt) sat)
             (\<lambda>x. Inr (tt\<lparr>blackhole_sat_burn := x\<rparr>))))"

definition total_record_blackhole_asset :: "unit op" where
  "total_record_blackhole_asset =
     with_total_count (\<lambda>tt. bindR (total_add_u8 (blackhole_asset_burn_count tt) 1)
       (\<lambda>x. Inr (tt\<lparr>blackhole_asset_burn_count := x\<rparr>)))"

definition total_record_blackhole_hacd :: "unit op" where
  "total_record_blackhole_hacd =
     with_total_count (\<lambda>tt. bindR (total_add_u8 (blackhole_hacd_burn_count tt) 1)
       (\<lambda>x. Inr (tt\<lparr>blackhole_hacd_burn_count := x\<rparr>)))"

section \<open>The blackhole\<close>

definition BLACKHOLE_ADDR :: address where "BLACKHOLE_ADDR = ADDRESS_ZERO"

definition check_transfer_recipient_allowed :: "address \<Rightarrow> unit ret" where
  "check_transfer_recipient_allowed to =
     (if is_privakey_unknown to \<and> to \<noteq> BLACKHOLE_ADDR
      then Inl (Fault ''cannot transfer to system address (privakey unknown)'') else Inr ())"

definition blackhole_engulf :: "address \<Rightarrow> bool op" where
  "blackhole_engulf a =
     (if a \<noteq> BLACKHOLE_ADDR then returnS False
      else bindS (balance_put a balance_new) (\<lambda>_.
           bindS (modifyS (\<lambda>s. if diamond_owneds s a \<noteq> None then s\<lparr>diamond_owneds := (diamond_owneds s)(a := None)\<rparr> else s))
             (\<lambda>_. returnS True)))"

section \<open>HAC\<close>

definition check_amount_is_positive :: "amount \<Rightarrow> unit ret" where
  "check_amount_is_positive amt = (if is_positive amt then Inr () else Inl (Fault ''amount value is not positive''))"

text \<open>\<open>amount_op_func_define!\<close> with the block of \<open>do_hac_sub\<close> and \<open>do_hac_add\<close>.\<close>

definition amount_op :: "(amount \<Rightarrow> amount ret) \<Rightarrow> address \<Rightarrow> amount op" where
  "amount_op exec a =
     bindS (liftS (check_version a)) (\<lambda>_.
     bindS (getsS (\<lambda>s. balance_or_default s a)) (\<lambda>bls.
     bindS (liftS (exec (hacash bls))) (\<lambda>newhac.
     bindS (liftS (check_store_long newhac)) (\<lambda>_.
     bindS (balance_put a (bls\<lparr>hacash := newhac\<rparr>)) (\<lambda>_. returnS newhac)))))"

definition do_hac_sub :: "address \<Rightarrow> amount \<Rightarrow> amount op" where
  "do_hac_sub a amt = amount_op (\<lambda>hac.
     bindR (amount_lt hac amt) (\<lambda>lt. if lt then Inl (Revert ''balance is insufficient'') else sub_mode_u128 hac amt)) a"

definition do_hac_add :: "address \<Rightarrow> amount \<Rightarrow> amount op" where
  "do_hac_add a amt = amount_op (\<lambda>hac. add_mode_u128 hac amt) a"

definition hac_check :: "address \<Rightarrow> amount \<Rightarrow> amount op" where
  "hac_check a amt =
     bindS (liftS (check_amount_is_positive amt)) (\<lambda>_.
     bindS (liftS (check_version a)) (\<lambda>_.
     bindS (getsS (\<lambda>s. balances s a)) (\<lambda>b.
       case b of
         None \<Rightarrow> failS (Revert ''balance is insufficient'')
       | Some bls \<Rightarrow> bindS (liftS (amount_ge (hacash bls) amt)) (\<lambda>ge.
           if ge then returnS (hacash bls) else failS (Revert ''balance is insufficient'')))))"

definition hac_add :: "address \<Rightarrow> amount \<Rightarrow> unit op" where
  "hac_add a amt =
     bindS (liftS (check_amount_is_positive amt)) (\<lambda>_.
     bindS (do_hac_add a amt) (\<lambda>_.
     bindS (blackhole_engulf a) (\<lambda>hole. if hole then total_record_blackhole_hac amt else returnS ())))"

definition hac_sub :: "address \<Rightarrow> amount \<Rightarrow> unit op" where
  "hac_sub a amt = bindS (liftS (check_amount_is_positive amt)) (\<lambda>_. bindS (do_hac_sub a amt) (\<lambda>_. returnS ()))"

definition hac_transfer :: "env \<Rightarrow> address \<Rightarrow> address \<Rightarrow> amount \<Rightarrow> unit op" where
  "hac_transfer e fr to amt =
     bindS (liftS (check_transfer_addr_online_open (env_chain_id e) (env_height e) fr to)) (\<lambda>_.
     bindS (liftS (check_transfer_recipient_allowed to)) (\<lambda>_.
     if fr = to then
       (if \<not> is_user_signing_address fr then failS (Fault ''non-signing address cannot transfer HAC to self'')
        else if env_height e \<ge> 200000 then bindS (hac_check fr amt) (\<lambda>_. returnS ())
        else returnS ())
     else
       bindS (liftS (check_amount_is_positive amt)) (\<lambda>_.
       bindS (do_hac_sub fr amt) (\<lambda>_. hac_add to amt))))"

section \<open>Satoshi\<close>

definition sat_add :: "address \<Rightarrow> nat \<Rightarrow> nat op" where
  "sat_add a sat =
     bindS (liftS (check_version a)) (\<lambda>_.
     if sat = 0 then failS (Fault ''satoshi value cannot be zero'')
     else bindS (getsS (\<lambda>s. balance_or_default s a)) (\<lambda>userbls.
     bindS (liftS (to_satoshi (satoshi userbls))) (\<lambda>oldsat.
     if oldsat + sat \<ge> 2 ^ 64 then failS (Fault ''satoshi add overflow'')
     else bindS (liftS (uint_from 8 (oldsat + sat))) (\<lambda>newsat.
     bindS (liftS (from_satoshi newsat)) (\<lambda>f.
     bindS (balance_put a (userbls\<lparr>satoshi := f\<rparr>)) (\<lambda>_.
     bindS (blackhole_engulf a) (\<lambda>hole.
     bindS (if hole then total_record_blackhole_sat sat else returnS ()) (\<lambda>_. returnS newsat))))))))"

definition sat_sub :: "address \<Rightarrow> nat \<Rightarrow> nat op" where
  "sat_sub a sat =
     bindS (liftS (check_version a)) (\<lambda>_.
     if sat = 0 then failS (Fault ''satoshi value cannot be zero'')
     else bindS (getsS (\<lambda>s. balance_or_default s a)) (\<lambda>userbls.
     bindS (liftS (to_satoshi (satoshi userbls))) (\<lambda>oldsat.
     if oldsat < sat then failS (Revert ''satoshi is insufficient'')
     else bindS (liftS (uint_sub 8 oldsat sat)) (\<lambda>newsat.
     bindS (liftS (from_satoshi newsat)) (\<lambda>f.
     bindS (balance_put a (userbls\<lparr>satoshi := f\<rparr>)) (\<lambda>_. returnS newsat))))))"

definition sat_transfer :: "env \<Rightarrow> address \<Rightarrow> address \<Rightarrow> nat \<Rightarrow> unit op" where
  "sat_transfer e fr to sat =
     bindS (liftS (check_transfer_addr_online_open (env_chain_id e) (env_height e) fr to)) (\<lambda>_.
     bindS (liftS (check_transfer_recipient_allowed to)) (\<lambda>_.
     if fr = to then failS (Fault ''cannot transfer to self'')
     else bindS (sat_sub fr sat) (\<lambda>_. bindS (sat_add to sat) (\<lambda>_. returnS ()))))"

definition sat_check :: "address \<Rightarrow> nat \<Rightarrow> nat op" where
  "sat_check a sat =
     bindS (liftS (check_version a)) (\<lambda>_.
     if sat = 0 then failS (Fault ''satoshi check amount cannot be empty'')
     else bindS (getsS (\<lambda>s. balances s a)) (\<lambda>b.
       case b of
         None \<Rightarrow> failS (Revert ''satoshi is insufficient'')
       | Some bls \<Rightarrow> bindS (liftS (to_satoshi (satoshi bls))) (\<lambda>usrsat.
           if usrsat \<ge> sat then returnS usrsat else failS (Revert ''satoshi is insufficient''))))"

section \<open>Diamonds\<close>

definition hacd_add :: "address \<Rightarrow> nat \<Rightarrow> nat op" where
  "hacd_add a hacd =
     bindS (liftS (check_version a)) (\<lambda>_.
     bindS (getsS (\<lambda>s. balance_or_default s a)) (\<lambda>userbls.
     bindS (liftS (to_diamond (diamond userbls))) (\<lambda>oldhacd.
     if oldhacd + hacd \<ge> 2 ^ 32 then failS (Fault ''diamond add overflow'')
     else bindS (liftS (uint_from_usize 3 (oldhacd + hacd))) (\<lambda>newhacd.
     bindS (liftS (from_diamond newhacd)) (\<lambda>f.
     bindS (balance_put a (userbls\<lparr>diamond := f\<rparr>)) (\<lambda>_.
     bindS (blackhole_engulf a) (\<lambda>hole.
     bindS (if hole then total_record_blackhole_hacd else returnS ()) (\<lambda>_. returnS newhacd))))))))"

definition hacd_sub :: "address \<Rightarrow> nat \<Rightarrow> nat op" where
  "hacd_sub a hacd =
     bindS (liftS (check_version a)) (\<lambda>_.
     bindS (getsS (\<lambda>s. balance_or_default s a)) (\<lambda>userbls.
     bindS (liftS (to_diamond (diamond userbls))) (\<lambda>oldhacd.
     if oldhacd < hacd then failS (Revert ''diamond is insufficient'')
     else bindS (liftS (uint_sub 3 oldhacd hacd)) (\<lambda>newhacd.
     bindS (liftS (from_diamond newhacd)) (\<lambda>f.
     bindS (balance_put a (userbls\<lparr>diamond := f\<rparr>)) (\<lambda>_. returnS newhacd))))))"

definition hacd_transfer :: "address \<Rightarrow> address \<Rightarrow> nat \<Rightarrow> unit op" where
  "hacd_transfer fr to hacd =
     (if fr = to then failS (Fault ''cannot transfer to self'')
      else bindS (hacd_sub fr hacd) (\<lambda>_. bindS (hacd_add to hacd) (\<lambda>_. returnS ())))"

definition check_diamond_status :: "address \<Rightarrow> diamond_name \<Rightarrow> diamond_sto op" where
  "check_diamond_status addr_from name =
     bindS (liftS (check_version addr_from)) (\<lambda>_.
     bindS (getsS (\<lambda>s. diamonds s name)) (\<lambda>d.
       case d of
         None \<Rightarrow> failS (Fault ''diamond status not found'')
       | Some diaitem \<Rightarrow>
         if status diaitem \<noteq> DIAMOND_STATUS_NORMAL then failS (Revert ''diamond has been mortgaged and cannot be transferred'')
         else if addr_from \<noteq> dia_address diaitem then failS (Revert ''diamond does not belong to address'')
         else returnS diaitem))"

definition hacd_move_one_diamond :: "address \<Rightarrow> address \<Rightarrow> diamond_name \<Rightarrow> unit op" where
  "hacd_move_one_diamond addr_from addr_to name =
     bindS (liftS (check_version addr_from)) (\<lambda>_.
     bindS (liftS (check_version addr_to)) (\<lambda>_.
     if addr_from = addr_to then failS (Fault ''cannot transfer to self'')
     else bindS (check_diamond_status addr_from name) (\<lambda>diaitem.
       modifyS (\<lambda>s. s\<lparr>diamonds := (diamonds s)(name \<mapsto> diaitem\<lparr>dia_address := addr_to\<rparr>)\<rparr>))))"

definition diamond_owned_or_default :: "core_state \<Rightarrow> address \<Rightarrow> owned_form" where
  "diamond_owned_or_default s a = (case diamond_owneds s a of Some f \<Rightarrow> f | None \<Rightarrow> [])"

definition diamond_owned_put :: "address \<Rightarrow> owned_form \<Rightarrow> unit op" where
  "diamond_owned_put a f = modifyS (\<lambda>s. s\<lparr>diamond_owneds := (diamond_owneds s)(a \<mapsto> f)\<rparr>)"

definition diamond_owned_push_one :: "address \<Rightarrow> diamond_name \<Rightarrow> unit op" where
  "diamond_owned_push_one a name =
     bindS (getsS (\<lambda>s. diamond_owned_or_default s a)) (\<lambda>owned.
     bindS (liftS (owned_push_one owned name)) (\<lambda>owned. diamond_owned_put a owned))"

text \<open>\<open>into_iter\<close> of the list pops from its end.\<close>

definition diamond_owned_append :: "address \<Rightarrow> name_list \<Rightarrow> unit op" where
  "diamond_owned_append a l =
     bindS (getsS (\<lambda>s. diamond_owned_or_default s a)) (\<lambda>owned.
     bindS (liftS (owned_push_list owned (rev (lists l)))) (\<lambda>owned. diamond_owned_put a owned))"

definition diamond_owned_move :: "address \<Rightarrow> address \<Rightarrow> name_list \<Rightarrow> unit op" where
  "diamond_owned_move fr to l =
     (if fr = to then failS (Fault ''cannot transfer to self'')
      else bindS (getsS (\<lambda>s. diamond_owneds s fr)) (\<lambda>from_owned.
        case from_owned of
          None \<Rightarrow> failS (Fault ''diamond owner record not found'')
        | Some from_owned \<Rightarrow>
          bindS (liftS (owned_drop from_owned l)) (\<lambda>(blsnum, from_owned).
          bindS (if length from_owned > 0 then diamond_owned_put fr from_owned
                 else modifyS (\<lambda>s. s\<lparr>diamond_owneds := (diamond_owneds s)(fr := None)\<rparr>)) (\<lambda>_.
          bindS (getsS (\<lambda>s. diamond_owned_or_default s to)) (\<lambda>to_owned.
          bindS (liftS (owned_push to_owned l)) (\<lambda>to_owned. diamond_owned_put to to_owned))))))"

text \<open>\<^verbatim>\<open>protocol/src/action/diamond.rs\<close>: the transfer of a list of diamonds.\<close>

fun move_diamonds :: "address \<Rightarrow> address \<Rightarrow> diamond_name list \<Rightarrow> unit op" where
  "move_diamonds fr to [] = returnS ()"
| "move_diamonds fr to (d # ds) = bindS (hacd_move_one_diamond fr to d) (\<lambda>_. move_diamonds fr to ds)"

definition do_diamonds_transfer :: "env \<Rightarrow> name_list \<Rightarrow> address \<Rightarrow> address \<Rightarrow> unit op" where
  "do_diamonds_transfer e l fr to =
     bindS (liftS (check_transfer_addr_online_open (env_chain_id e) (env_height e) fr to)) (\<lambda>_.
     bindS (liftS (nlist_check 200 l)) (\<lambda>dianum.
     bindS (move_diamonds fr to (lists l)) (\<lambda>_.
     bindS (if env_diamond_form e then diamond_owned_move fr to l else returnS ()) (\<lambda>_.
     bindS (liftS (uint_from 3 dianum)) (\<lambda>n. hacd_transfer fr to n)))))"

section \<open>Assets\<close>

definition asset_add :: "address \<Rightarrow> asset_amt \<Rightarrow> asset_amt op" where
  "asset_add a asset =
     (if fold64_uint (asset_amount asset) = 0 then failS (Fault ''Asset operate amount cannot be zero'')
      else bindS (liftS (check_version a)) (\<lambda>_.
      bindS (getsS (\<lambda>s. balance_or_default s a)) (\<lambda>userbls.
      bindS (liftS (asset_must userbls (asset_serial asset))) (\<lambda>oldasset.
      bindS (liftS (asset_checked_add oldasset asset)) (\<lambda>newast.
      bindS (liftS (asset_set userbls newast)) (\<lambda>userbls.
      bindS (balance_put a userbls) (\<lambda>_.
      bindS (blackhole_engulf a) (\<lambda>hole.
      bindS (if hole then total_record_blackhole_asset else returnS ()) (\<lambda>_. returnS newast)))))))))"

definition asset_sub :: "address \<Rightarrow> asset_amt \<Rightarrow> asset_amt op" where
  "asset_sub a asset =
     (if fold64_uint (asset_amount asset) = 0 then failS (Fault ''Asset operate amount cannot be zero'')
      else bindS (liftS (check_version a)) (\<lambda>_.
      bindS (getsS (\<lambda>s. balance_or_default s a)) (\<lambda>userbls.
      bindS (liftS (asset_must userbls (asset_serial asset))) (\<lambda>oldasset.
      bindS (liftS (asset_less oldasset asset)) (\<lambda>lt.
      if lt then failS (Revert ''asset is insufficient'')
      else bindS (liftS (asset_checked_sub oldasset asset)) (\<lambda>newast.
      bindS (liftS (asset_set userbls newast)) (\<lambda>userbls.
      bindS (balance_put a userbls) (\<lambda>_. returnS newast))))))))"

definition asset_transfer :: "env \<Rightarrow> address \<Rightarrow> address \<Rightarrow> asset_amt \<Rightarrow> unit op" where
  "asset_transfer e fr to asset =
     bindS (liftS (check_transfer_addr_online_open (env_chain_id e) (env_height e) fr to)) (\<lambda>_.
     bindS (liftS (check_transfer_recipient_allowed to)) (\<lambda>_.
     if fr = to then failS (Fault ''cannot transfer to self'')
     else bindS (asset_sub fr asset) (\<lambda>_. bindS (asset_add to asset) (\<lambda>_. returnS ()))))"

definition asset_check :: "address \<Rightarrow> asset_amt \<Rightarrow> asset_amt op" where
  "asset_check a ast =
     (if fold64_uint (asset_amount ast) = 0 then failS (Fault ''asset check amount cannot be empty'')
      else bindS (liftS (check_version a)) (\<lambda>_.
      bindS (getsS (\<lambda>s. balances s a)) (\<lambda>b.
        case b of
          None \<Rightarrow> failS (Revert ''asset is insufficient'')
        | Some bls \<Rightarrow>
          (case balance_asset bls (asset_serial ast) of
             None \<Rightarrow> failS (Revert ''asset is insufficient'')
           | Some uast \<Rightarrow> bindS (liftS (asset_less uast ast)) (\<lambda>lt.
               if \<not> lt then returnS uast else failS (Revert ''asset is insufficient''))))))"

section \<open>The invariant of stored balances\<close>

definition bal_ok :: "balance \<Rightarrow> bool" where
  "bal_ok b \<longleftrightarrow> balance_ok b \<and> amt_unsigned (hacash b)"

definition ledger_ok :: "core_state \<Rightarrow> bool" where
  "ledger_ok s \<longleftrightarrow> (\<forall>a b. balances s a = Some b \<longrightarrow> bal_ok b)"

definition hac_of :: "core_state \<Rightarrow> address \<Rightarrow> nat" where
  "hac_of s a = uval (hacash (balance_or_default s a))"

definition sat_of :: "core_state \<Rightarrow> address \<Rightarrow> nat" where
  "sat_of s a = fold64_uint (satoshi (balance_or_default s a))"

definition hacd_of :: "core_state \<Rightarrow> address \<Rightarrow> nat" where
  "hacd_of s a = fold64_uint (diamond (balance_or_default s a))"

definition asset_of :: "fold64 \<Rightarrow> core_state \<Rightarrow> address \<Rightarrow> nat" where
  "asset_of k s a = (case balance_asset (balance_or_default s a) k of None \<Rightarrow> 0 | Some x \<Rightarrow> fold64_uint (asset_amount x))"

lemma bal_ok_new [simp]: "bal_ok balance_new"
  by (simp add: bal_ok_def balance_ok_def balance_new_def amt_canonical_def fold64_ok_def assets_ok_def combi_ok_def
      combi_empty_def BALANCE_ASSET_MAX_def)

lemma new_values [simp]:
  "uval (hacash balance_new) = 0" "fold64_uint (satoshi balance_new) = 0" "fold64_uint (diamond balance_new) = 0"
  "balance_asset balance_new k = None"
  by (simp_all add: balance_new_def balance_asset_def combi_empty_def)

lemma bal_ok_default: "ledger_ok s \<Longrightarrow> bal_ok (balance_or_default s a)"
  by (auto simp: ledger_ok_def balance_or_default_def split: option.split)

text \<open>A state whose balances are those of \<open>s\<close> except that \<open>a\<close> has balance \<open>b\<close>.\<close>

definition put_of :: "core_state \<Rightarrow> address \<Rightarrow> balance \<Rightarrow> core_state \<Rightarrow> bool" where
  "put_of s a b s' \<longleftrightarrow> balances s' = (balances s)(a \<mapsto> b) \<and> diamonds s' = diamonds s"

lemma put_of_default: "put_of s a b s' \<Longrightarrow> balance_or_default s' x = (if x = a then b else balance_or_default s x)"
  by (simp add: put_of_def balance_or_default_def)

lemma put_of_ok: "put_of s a b s' \<Longrightarrow> ledger_ok s \<Longrightarrow> bal_ok b \<Longrightarrow> ledger_ok s'"
  by (auto simp: put_of_def ledger_ok_def split: if_splits)

lemma with_total_count_state: "with_total_count f s = (r, s') \<Longrightarrow> \<exists>t. s' = s\<lparr>total_count_of := t\<rparr>"
proof -
  assume "with_total_count f s = (r, s')"
  then have "s' = s \<or> (\<exists>t. s' = s\<lparr>total_count_of := t\<rparr>)"
    by (cases "f (total_count_of s)") (auto simp: with_total_count_def)
  then show ?thesis by (auto intro: exI [of _ "total_count_of s"])
qed

lemma total_records_state:
  "total_record_blackhole_hac amt s = (r, s') \<Longrightarrow> \<exists>t. s' = s\<lparr>total_count_of := t\<rparr>"
  "total_record_blackhole_sat v s = (r, s') \<Longrightarrow> \<exists>t. s' = s\<lparr>total_count_of := t\<rparr>"
  "total_record_blackhole_asset s = (r, s') \<Longrightarrow> \<exists>t. s' = s\<lparr>total_count_of := t\<rparr>"
  "total_record_blackhole_hacd s = (r, s') \<Longrightarrow> \<exists>t. s' = s\<lparr>total_count_of := t\<rparr>"
  by (auto simp: total_record_blackhole_hac_def total_record_blackhole_sat_def total_record_blackhole_asset_def
      total_record_blackhole_hacd_def dest: with_total_count_state split: if_splits intro: exI [of _ "total_count_of s"])

text \<open>The end of every credit: store, engulf, count.\<close>

lemma credit_tail:
  assumes "bindS (balance_put a b) (\<lambda>_. bindS (blackhole_engulf a) (\<lambda>hole. bindS (if hole then rec else returnS ()) (\<lambda>_. returnS v))) s = (Inr r, s')"
    and rec: "\<And>s r s'. rec s = (r, s') \<Longrightarrow> \<exists>t. s' = s\<lparr>total_count_of := t\<rparr>"
  shows "r = v \<and> put_of s a (if a = ADDRESS_ZERO then balance_new else b) s'"
proof (cases "a = ADDRESS_ZERO")
  case True
  with assms(1) obtain s1 where r: "r = v" "rec s1 = (Inr (), s')"
    and s1: "balances s1 = (balances s)(a \<mapsto> balance_new)" "diamonds s1 = diamonds s"
    by (auto simp: blackhole_engulf_def BLACKHOLE_ADDR_def balance_put_def bindS_eq_Inr)
  from rec [OF r(2)] s1 r(1) True show ?thesis by (auto simp: put_of_def)
next
  case False
  with assms(1) show ?thesis by (auto simp: blackhole_engulf_def BLACKHOLE_ADDR_def balance_put_def put_of_def)
qed

section \<open>The ledger interface\<close>

text \<open>
  What every kind of value offers: a credit, which adds to one account (the blackhole keeps
  nothing), and a debit, which takes from one account at most what it holds and leaves the state
  alone when it fails. A transfer is a debit followed by a credit.
\<close>

locale fungible =
  fixes inv :: "'s \<Rightarrow> bool"
    and bal :: "'s \<Rightarrow> address \<Rightarrow> nat"
    and val :: "'v \<Rightarrow> nat"
    and okv :: "'v \<Rightarrow> bool"
    and credit :: "address \<Rightarrow> 'v \<Rightarrow> ('s, 'r) st"
    and debit :: "address \<Rightarrow> 'v \<Rightarrow> ('s, 'q) st"
  assumes credit_ok: "inv s \<Longrightarrow> okv v \<Longrightarrow> credit a v s = (Inr r, s') \<Longrightarrow>
      inv s' \<and> bal s' = (bal s)(a := if a = ADDRESS_ZERO then 0 else bal s a + val v)"
    and debit_ok: "inv s \<Longrightarrow> okv v \<Longrightarrow> debit a v s = (Inr q, s') \<Longrightarrow>
      inv s' \<and> val v \<le> bal s a \<and> bal s' = (bal s)(a := bal s a - val v)"
    and debit_err: "inv s \<Longrightarrow> okv v \<Longrightarrow> debit a v s = (Inl e, s') \<Longrightarrow> s' = s"
begin

lemma move_ok:
  assumes "inv s" "okv v" "fr \<noteq> to" "bindS (debit fr v) (\<lambda>_. bindS (credit to v) k) s = (Inr x, s'')" "\<And>r t. snd (k r t) = t"
  shows "inv s'' \<and> val v \<le> bal s fr \<and>
    bal s'' = (bal s)(fr := bal s fr - val v, to := if to = ADDRESS_ZERO then 0 else bal s to + val v)"
proof -
  obtain q s1 where d: "debit fr v s = (Inr q, s1)" and c: "bindS (credit to v) k s1 = (Inr x, s'')"
    using assms(4) by (auto simp: bindS_eq_Inr)
  obtain r s2 where c2: "credit to v s1 = (Inr r, s2)" "k r s2 = (Inr x, s'')" using c by (auto simp: bindS_eq_Inr)
  have "s'' = s2" using assms(5) [of r s2] c2(2) by simp
  with debit_ok [OF assms(1,2) d] credit_ok [OF _ assms(2) c2(1)] assms(3) show ?thesis by auto
qed

lemma move_conserves:
  assumes "finite A" "fr \<in> A" "to \<in> A" "fr \<noteq> to" "val v \<le> bal s fr"
    and "bal s'' = (bal s)(fr := bal s fr - val v, to := if to = ADDRESS_ZERO then 0 else bal s to + val v)"
  shows "sum (bal s) A = sum (bal s'') A + (if to = ADDRESS_ZERO then bal s to + val v else 0)"
proof -
  let ?B = "A - {fr, to}"
  have split: "sum f A = f fr + f to + sum f ?B" for f :: "address \<Rightarrow> nat"
    using assms(1-4) by (simp add: sum.remove [of A fr] sum.remove [of "A - {fr}" to] Diff_insert2 [symmetric] insert_commute)
  have "sum (bal s'') ?B = sum (bal s) ?B" using assms(6) by (intro sum.cong) auto
  then show ?thesis using assms(4-6) by (simp add: split)
qed

lemma move_short:
  assumes "inv s" "okv v" "bal s fr < val v"
  shows "\<exists>e. bindS (debit fr v) k s = (Inl e, s)"
proof (cases "debit fr v s")
  case (Pair r s1)
  show ?thesis
  proof (cases r)
    case (Inl e)
    then show ?thesis using Pair debit_err [OF assms(1,2)] by (auto simp: bindS_eq_Inl)
  next
    case (Inr q)
    then show ?thesis using debit_ok [OF assms(1,2), of fr q s1] Pair assms(3) by auto
  qed
qed

end

section \<open>HAC is fungible\<close>

lemma amount_op_ok:
  assumes inv: "ledger_ok s" and op: "amount_op exec a s = (Inr n, s')"
    and exec: "\<And>h. bal_ok (balance_or_default s a) \<Longrightarrow> h = hacash (balance_or_default s a) \<Longrightarrow> exec h = Inr n \<Longrightarrow>
        amt_unsigned n \<and> amt_canonical n"
  shows "exec (hacash (balance_or_default s a)) = Inr n \<and> put_of s a ((balance_or_default s a)\<lparr>hacash := n\<rparr>) s' \<and>
    bal_ok ((balance_or_default s a)\<lparr>hacash := n\<rparr>) \<and> s' = s\<lparr>balances := balances s'\<rparr>"
proof -
  let ?b = "balance_or_default s a"
  have e: "exec (hacash ?b) = Inr n" and s': "s' = s\<lparr>balances := (balances s)(a \<mapsto> ?b\<lparr>hacash := n\<rparr>)\<rparr>"
    using op by (auto simp: amount_op_def balance_put_def bindS_eq_Inr)
  have "bal_ok (?b\<lparr>hacash := n\<rparr>)"
    using bal_ok_default [OF inv] exec [OF bal_ok_default [OF inv] refl e] by (simp add: bal_ok_def balance_ok_def)
  with e s' show ?thesis by (simp add: put_of_def)
qed

lemma amount_op_err: "amount_op exec a s = (Inl e, s') \<Longrightarrow> s' = s"
  by (auto simp: amount_op_def balance_put_def bindS_eq_Inl)

definition hac_okv :: "amount \<Rightarrow> bool" where
  "hac_okv amt \<longleftrightarrow> amt_unsigned amt \<and> amt_canonical amt"

lemma bal_ok_hac: "bal_ok b \<Longrightarrow> amt_unsigned (hacash b) \<and> amt_canonical (hacash b)"
  by (simp add: bal_ok_def balance_ok_def)

lemma do_hac_sub_ok:
  assumes inv: "ledger_ok s" and v: "hac_okv v" and op: "do_hac_sub a v s = (Inr n, s')"
  shows "ledger_ok s' \<and> uval v \<le> hac_of s a \<and> hac_of s' = (hac_of s)(a := hac_of s a - uval v)"
proof -
  let ?h = "hacash (balance_or_default s a)"
  have h: "amt_unsigned ?h" "amt_canonical ?h" using bal_ok_hac [OF bal_ok_default [OF inv]] by auto
  have v': "amt_unsigned v" "amt_canonical v" using v by (simp_all add: hac_okv_def)
  have sub: "amt_unsigned n \<and> amt_canonical n \<and> uval n + uval v = uval ?h" if "sub_mode_u128 ?h v = Inr n"
    using that sub_mode_ok [OF h(1) v'(1), of U128S n] compute_mode_canonical [OF h(1) v'(1) h(2) v'(2), of U128S False n]
    by (simp add: sub_mode_u128_def U128S_def)
  have ex: "sub_mode_u128 ?h v = Inr n" if "bindR (amount_lt ?h v) (\<lambda>lt. if lt then Inl (Revert ''balance is insufficient'') else sub_mode_u128 ?h v) = Inr n"
    using that by (auto simp: bindR_eq_Inr split: if_splits)
  from amount_op_ok [OF inv op [unfolded do_hac_sub_def]] ex sub
  have r: "sub_mode_u128 ?h v = Inr n" "put_of s a ((balance_or_default s a)\<lparr>hacash := n\<rparr>) s'"
    "bal_ok ((balance_or_default s a)\<lparr>hacash := n\<rparr>)" by blast+
  have at: "hac_of s' x = (if x = a then uval n else hac_of s x)" for x
    by (simp add: hac_of_def put_of_default [OF r(2)])
  have eq: "uval n + uval v = hac_of s a" using sub [OF r(1)] by (simp add: hac_of_def)
  then have "hac_of s' = (hac_of s)(a := hac_of s a - uval v)" using at by (auto simp: fun_eq_iff)
  with eq put_of_ok [OF r(2) inv r(3)] show ?thesis by simp
qed

lemma do_hac_add_ok:
  assumes inv: "ledger_ok s" and v: "hac_okv v" and op: "do_hac_add a v s = (Inr n, s')"
  shows "ledger_ok s' \<and> hac_of s' = (hac_of s)(a := hac_of s a + uval v) \<and> s' = s\<lparr>balances := balances s'\<rparr>"
proof -
  let ?h = "hacash (balance_or_default s a)"
  have h: "amt_unsigned ?h" "amt_canonical ?h" using bal_ok_hac [OF bal_ok_default [OF inv]] by auto
  have v': "amt_unsigned v" "amt_canonical v" using v by (simp_all add: hac_okv_def)
  have add: "amt_unsigned n \<and> amt_canonical n \<and> uval n = uval ?h + uval v" if "add_mode_u128 ?h v = Inr n"
    using that add_mode_ok [OF h(1) v'(1), of U128S n] compute_mode_canonical [OF h(1) v'(1) h(2) v'(2), of U128S True n]
    by (simp add: add_mode_u128_def U128S_def)
  from amount_op_ok [OF inv op [unfolded do_hac_add_def]] add
  have r: "add_mode_u128 ?h v = Inr n" "put_of s a ((balance_or_default s a)\<lparr>hacash := n\<rparr>) s'"
    "bal_ok ((balance_or_default s a)\<lparr>hacash := n\<rparr>)" "s' = s\<lparr>balances := balances s'\<rparr>" by blast+
  have at: "hac_of s' x = (if x = a then uval n else hac_of s x)" for x
    by (simp add: hac_of_def put_of_default [OF r(2)])
  have "uval n = hac_of s a + uval v" using add [OF r(1)] by (simp add: hac_of_def)
  then have "hac_of s' = (hac_of s)(a := hac_of s a + uval v)" using at by (auto simp: fun_eq_iff)
  with put_of_ok [OF r(2) inv r(3)] r(4) show ?thesis by simp
qed

text \<open>The tail of \<open>hac_add\<close>, for any account.\<close>

lemma engulf_state:
  assumes "bindS (blackhole_engulf a) (\<lambda>hole. if hole then rec else returnS ()) s = (Inr u, s')"
    and rec: "\<And>s r s'. rec s = (r, s') \<Longrightarrow> \<exists>t. s' = s\<lparr>total_count_of := t\<rparr>"
  shows "if a = ADDRESS_ZERO then put_of s a balance_new s' else s' = s"
proof (cases "a = ADDRESS_ZERO")
  case True
  with assms(1) obtain s1 where r: "rec s1 = (Inr u, s')"
    and s1: "balances s1 = (balances s)(a \<mapsto> balance_new)" "diamonds s1 = diamonds s"
    by (auto simp: blackhole_engulf_def BLACKHOLE_ADDR_def balance_put_def bindS_eq_Inr)
  from rec [OF r] s1 True show ?thesis by (auto simp: put_of_def)
next
  case False
  with assms(1) show ?thesis by (auto simp: blackhole_engulf_def BLACKHOLE_ADDR_def)
qed

interpretation hac: fungible ledger_ok hac_of uval hac_okv hac_add do_hac_sub
proof
  fix s v a r s'
  assume inv: "ledger_ok s" and v: "hac_okv v" and op: "hac_add a v s = (Inr r, s')"
  obtain n s1 where add: "do_hac_add a v s = (Inr n, s1)"
    and tail: "bindS (blackhole_engulf a) (\<lambda>hole. if hole then total_record_blackhole_hac v else returnS ()) s1 = (Inr r, s')"
    using op by (auto simp: hac_add_def bindS_eq_Inr)
  note a1 = do_hac_add_ok [OF inv v add]
  from engulf_state [OF tail total_records_state(1)]
  show "ledger_ok s' \<and> hac_of s' = (hac_of s)(a := if a = ADDRESS_ZERO then 0 else hac_of s a + uval v)"
  proof (cases "a = ADDRESS_ZERO")
    case True
    with engulf_state [OF tail total_records_state(1)] have p: "put_of s1 a balance_new s'" by simp
    have "hac_of s' x = (if x = a then 0 else hac_of s1 x)" for x
      by (simp add: hac_of_def put_of_default [OF p])
    with a1 put_of_ok [OF p _ bal_ok_new] True show ?thesis by auto
  next
    case False
    with engulf_state [OF tail total_records_state(1)] a1 show ?thesis by auto
  qed
next
  fix s v a q s'
  assume "ledger_ok s" "hac_okv v" "do_hac_sub a v s = (Inr q, s')"
  then show "ledger_ok s' \<and> uval v \<le> hac_of s a \<and> hac_of s' = (hac_of s)(a := hac_of s a - uval v)"
    by (rule do_hac_sub_ok)
next
  fix s v a e s'
  assume "do_hac_sub a v s = (Inl e, s')"
  then show "s' = s" unfolding do_hac_sub_def by (rule amount_op_err)
qed

end
