(* ===== verification/Transfers.thy ===== *)
theory Transfers
  imports Ledger
begin

text \<open>
  Every kind of value of \<^verbatim>\<open>protocol/src/operate/\<close> is an instance of the ledger interface:
  HAC (in \<open>Ledger\<close>), satoshi, the diamond count and each asset serial. The properties of the
  transfers rest on the facts of the interpretations.
\<close>

section \<open>Satoshi and diamond counters\<close>

lemma to_satoshi_eq [simp]: "to_satoshi f = Inr (fold64_uint f)"
proof -
  have "fold64_uint f < 256 ^ 8" using unat_u64_less [of "value64 f"] by (simp add: fold64_uint_def)
  then show ?thesis by (simp add: to_satoshi_def uint_from_def)
qed

lemma from_satoshi_eq: "from_satoshi n = Inr f \<Longrightarrow> n < 2 ^ 64 \<Longrightarrow> fold64_ok f \<and> fold64_uint f = n"
  by (auto simp: from_satoshi_def expectR_def fold64_from_eq unat_word_of_nat_u64 split: sum.splits)

lemma from_diamond_eq: "from_diamond n = Inr f \<Longrightarrow> n < 2 ^ 64 \<Longrightarrow> fold64_ok f \<and> fold64_uint f = n"
  by (auto simp: from_diamond_def expectR_def fold64_from_eq unat_word_of_nat_u64 split: sum.splits)

lemma to_diamond_eq: "to_diamond f = Inr n \<Longrightarrow> n = fold64_uint f \<and> n < 256 ^ 3"
  by (auto simp: to_diamond_def uint_from_def Let_def split: if_splits)

lemma bal_ok_upd:
  "bal_ok b \<Longrightarrow> fold64_ok f \<Longrightarrow> bal_ok (b\<lparr>satoshi := f\<rparr>)"
  "bal_ok b \<Longrightarrow> fold64_ok f \<Longrightarrow> bal_ok (b\<lparr>diamond := f\<rparr>)"
  by (simp_all add: bal_ok_def balance_ok_def)

lemma sat_add_ok:
  assumes inv: "ledger_ok s" and op: "sat_add a v s = (Inr r, s')"
  shows "\<exists>f. fold64_ok f \<and> fold64_uint f = sat_of s a + v \<and>
    put_of s a (if a = ADDRESS_ZERO then balance_new else (balance_or_default s a)\<lparr>satoshi := f\<rparr>) s'"
proof -
  let ?b = "balance_or_default s a"
  obtain f where lt: "fold64_uint (satoshi ?b) + v < 2 ^ 64" and f: "from_satoshi (fold64_uint (satoshi ?b) + v) = Inr f"
    and tail: "bindS (balance_put a (?b\<lparr>satoshi := f\<rparr>)) (\<lambda>_. bindS (blackhole_engulf a) (\<lambda>hole.
        bindS (if hole then total_record_blackhole_sat v else returnS ()) (\<lambda>_. returnS (fold64_uint (satoshi ?b) + v)))) s = (Inr r, s')"
    using op unfolding sat_add_def
    by (auto simp: bindS_liftR uint_from_def simp del: bindS_simps returnS_eq split: if_splits sum.splits)
  show ?thesis
    using from_satoshi_eq [OF f lt] credit_tail [OF tail total_records_state(2)] by (auto simp: sat_of_def)
qed

lemma sat_sub_ok:
  assumes op: "sat_sub a v s = (Inr r, s')"
  shows "\<exists>f. fold64_ok f \<and> v \<le> sat_of s a \<and> fold64_uint f = sat_of s a - v \<and>
    put_of s a ((balance_or_default s a)\<lparr>satoshi := f\<rparr>) s' \<and> r = sat_of s a - v"
proof -
  let ?b = "balance_or_default s a"
  obtain f where le: "v \<le> fold64_uint (satoshi ?b)" and f: "from_satoshi (fold64_uint (satoshi ?b) - v) = Inr f"
    and s': "s' = s\<lparr>balances := (balances s)(a \<mapsto> ?b\<lparr>satoshi := f\<rparr>)\<rparr>" "r = fold64_uint (satoshi ?b) - v"
    using op by (auto simp: sat_sub_def bindS_liftR uint_sub_def balance_put_def split: if_splits sum.splits)
  have "fold64_uint (satoshi ?b) - v < 2 ^ 64"
    using unat_u64_less [of "value64 (satoshi ?b)"] by (simp add: fold64_uint_def)
  with from_satoshi_eq [OF f] le s' show ?thesis by (auto simp: sat_of_def put_of_def)
qed

lemma sat_sub_err: "sat_sub a v s = (Inl e, s') \<Longrightarrow> s' = s"
  by (auto simp: sat_sub_def bindS_liftR uint_sub_def balance_put_def split: if_splits sum.splits)

interpretation sat: fungible ledger_ok sat_of "\<lambda>v. v" "\<lambda>_. True" sat_add sat_sub
proof
  fix s v a r s'
  assume inv: "ledger_ok s" and op: "sat_add a v s = (Inr r, s')"
  obtain f where f: "fold64_ok f" "fold64_uint f = sat_of s a + v"
    and p: "put_of s a (if a = ADDRESS_ZERO then balance_new else (balance_or_default s a)\<lparr>satoshi := f\<rparr>) s'"
    using sat_add_ok [OF inv op] by blast
  have "sat_of s' x = (if x = a then if a = ADDRESS_ZERO then 0 else sat_of s a + v else sat_of s x)" for x
    using f(2) by (simp add: sat_of_def put_of_default [OF p])
  moreover have "ledger_ok s'" using put_of_ok [OF p inv] bal_ok_upd(1) [OF bal_ok_default [OF inv] f(1)] by simp
  ultimately show "ledger_ok s' \<and> sat_of s' = (sat_of s)(a := if a = ADDRESS_ZERO then 0 else sat_of s a + v)"
    by (auto simp: fun_eq_iff)
next
  fix s v a q s'
  assume inv: "ledger_ok s" and op: "sat_sub a v s = (Inr q, s')"
  obtain f where f: "fold64_ok f" "v \<le> sat_of s a" "fold64_uint f = sat_of s a - v"
    and p: "put_of s a ((balance_or_default s a)\<lparr>satoshi := f\<rparr>) s'" using sat_sub_ok [OF op] by blast
  have "sat_of s' x = (if x = a then sat_of s a - v else sat_of s x)" for x
    using f(3) by (simp add: sat_of_def put_of_default [OF p])
  then show "ledger_ok s' \<and> v \<le> sat_of s a \<and> sat_of s' = (sat_of s)(a := sat_of s a - v)"
    using put_of_ok [OF p inv bal_ok_upd(1) [OF bal_ok_default [OF inv] f(1)]] f(2) by (auto simp: fun_eq_iff)
qed (rule sat_sub_err)

lemma hacd_add_ok:
  assumes inv: "ledger_ok s" and op: "hacd_add a v s = (Inr r, s')"
  shows "\<exists>f. fold64_ok f \<and> fold64_uint f = hacd_of s a + v \<and>
    put_of s a (if a = ADDRESS_ZERO then balance_new else (balance_or_default s a)\<lparr>diamond := f\<rparr>) s'"
proof -
  let ?b = "balance_or_default s a"
  obtain old f where old: "to_diamond (diamond ?b) = Inr old" and lt: "old + v < 256 ^ 3" and f: "from_diamond (old + v) = Inr f"
    and tail: "bindS (balance_put a (?b\<lparr>diamond := f\<rparr>)) (\<lambda>_. bindS (blackhole_engulf a) (\<lambda>hole.
        bindS (if hole then total_record_blackhole_hacd else returnS ()) (\<lambda>_. returnS (old + v)))) s = (Inr r, s')"
    using op unfolding hacd_add_def
    by (auto simp: bindS_liftR uint_from_usize_def simp del: bindS_simps returnS_eq split: if_splits sum.splits)
  show ?thesis
    using from_diamond_eq [OF f] lt to_diamond_eq [OF old] credit_tail [OF tail total_records_state(4)]
    by (auto simp: hacd_of_def)
qed

lemma hacd_sub_ok:
  assumes op: "hacd_sub a v s = (Inr r, s')"
  shows "\<exists>f. fold64_ok f \<and> v \<le> hacd_of s a \<and> fold64_uint f = hacd_of s a - v \<and>
    put_of s a ((balance_or_default s a)\<lparr>diamond := f\<rparr>) s' \<and> r = hacd_of s a - v"
proof -
  let ?b = "balance_or_default s a"
  obtain old f where old: "to_diamond (diamond ?b) = Inr old" and le: "v \<le> old" and f: "from_diamond (old - v) = Inr f"
    and s': "s' = s\<lparr>balances := (balances s)(a \<mapsto> ?b\<lparr>diamond := f\<rparr>)\<rparr>" "r = old - v"
    using op by (auto simp: hacd_sub_def bindS_liftR uint_sub_def balance_put_def split: if_splits sum.splits)
  have "old - v < 2 ^ 64" using conjunct2 [OF to_diamond_eq [OF old]] by simp
  from to_diamond_eq [OF old] from_diamond_eq [OF f this] le s' show ?thesis by (auto simp: hacd_of_def put_of_def)
qed

lemma hacd_sub_err: "hacd_sub a v s = (Inl e, s') \<Longrightarrow> s' = s"
  by (auto simp: hacd_sub_def bindS_liftR uint_sub_def balance_put_def split: if_splits sum.splits)

interpretation hacd: fungible ledger_ok hacd_of "\<lambda>v. v" "\<lambda>_. True" hacd_add hacd_sub
proof
  fix s v a r s'
  assume inv: "ledger_ok s" and op: "hacd_add a v s = (Inr r, s')"
  obtain f where f: "fold64_ok f" "fold64_uint f = hacd_of s a + v"
    and p: "put_of s a (if a = ADDRESS_ZERO then balance_new else (balance_or_default s a)\<lparr>diamond := f\<rparr>) s'"
    using hacd_add_ok [OF inv op] by blast
  have "hacd_of s' x = (if x = a then if a = ADDRESS_ZERO then 0 else hacd_of s a + v else hacd_of s x)" for x
    using f(2) by (simp add: hacd_of_def put_of_default [OF p])
  moreover have "ledger_ok s'" using put_of_ok [OF p inv] bal_ok_upd(2) [OF bal_ok_default [OF inv] f(1)] by simp
  ultimately show "ledger_ok s' \<and> hacd_of s' = (hacd_of s)(a := if a = ADDRESS_ZERO then 0 else hacd_of s a + v)"
    by (auto simp: fun_eq_iff)
next
  fix s v a q s'
  assume inv: "ledger_ok s" and op: "hacd_sub a v s = (Inr q, s')"
  obtain f where f: "fold64_ok f" "v \<le> hacd_of s a" "fold64_uint f = hacd_of s a - v"
    and p: "put_of s a ((balance_or_default s a)\<lparr>diamond := f\<rparr>) s'" using hacd_sub_ok [OF op] by blast
  have "hacd_of s' x = (if x = a then hacd_of s a - v else hacd_of s x)" for x
    using f(3) by (simp add: hacd_of_def put_of_default [OF p])
  then show "ledger_ok s' \<and> v \<le> hacd_of s a \<and> hacd_of s' = (hacd_of s)(a := hacd_of s a - v)"
    using put_of_ok [OF p inv bal_ok_upd(2) [OF bal_ok_default [OF inv] f(1)]] f(2) by (auto simp: fun_eq_iff)
qed (rule hacd_sub_err)

section \<open>Assets\<close>

lemma asset_must_value:
  "asset_must b k = Inr o0 \<Longrightarrow> asset_serial o0 = k \<and>
     fold64_uint (asset_amount o0) = (case balance_asset b k of None \<Rightarrow> 0 | Some x \<Rightarrow> fold64_uint (asset_amount x))"
  by (auto simp: asset_must_def expectR_def asset_from_serial_def asset_checked_eq bindR_eq_Inr balance_asset_by_serial
      dest: by_serial_SomeD split: sum.splits option.splits)

lemma asset_checked_add_eq:
  "asset_checked_add a b = Inr c \<Longrightarrow> asset_serial c = asset_serial a \<and> asset_serial b = asset_serial a \<and>
     fold64_uint (asset_amount c) = fold64_uint (asset_amount a) + fold64_uint (asset_amount b)"
  by (auto simp: asset_checked_add_def checked_u64_def bindR_eq_Inr asset_checked_eq fold64_from_eq unat_word_of_nat_u64
      simp del: of_nat_add split: if_splits option.splits)

lemma asset_checked_sub_eq:
  "asset_checked_sub a b = Inr c \<Longrightarrow> asset_serial c = asset_serial a \<and> asset_serial b = asset_serial a \<and>
     fold64_uint (asset_amount b) \<le> fold64_uint (asset_amount a) \<and>
     fold64_uint (asset_amount c) = fold64_uint (asset_amount a) - fold64_uint (asset_amount b)"
  by (auto simp: asset_checked_sub_def bindR_eq_Inr asset_checked_eq fold64_from_eq unat_sub word_le_nat_alt fold64_uint_def
      split: if_splits)

lemma bal_ok_asset_set:
  assumes "bal_ok b" "asset_set b x = Inr b'"
  shows "bal_ok b'"
  using assms asset_set_value [of b x b'] asset_set_fields [of b x b'] by (simp add: bal_ok_def balance_ok_def)

definition amount_at :: "balance \<Rightarrow> fold64 \<Rightarrow> nat" where
  "amount_at b k = (case balance_asset b k of None \<Rightarrow> 0 | Some x \<Rightarrow> fold64_uint (asset_amount x))"

lemma asset_of_amount_at: "asset_of k s a = amount_at (balance_or_default s a) k"
  by (simp add: asset_of_def amount_at_def)

lemma amount_at_set:
  assumes "bal_ok b" "asset_set b x = Inr b'"
  shows "amount_at b' k = (if k = asset_serial x then fold64_uint (asset_amount x) else amount_at b k)"
  using assms asset_set_value [of b x b' k]
  by (auto simp: amount_at_def bal_ok_def balance_ok_def fold64_is_zero_def fold64_uint_def)

lemma amount_at_new [simp]: "amount_at balance_new k = 0"
  by (simp add: amount_at_def)

text \<open>Balances that differ in their assets only.\<close>

definition coins_same :: "balance \<Rightarrow> balance \<Rightarrow> bool" where
  "coins_same b c \<longleftrightarrow> hacash b = hacash c \<and> satoshi b = satoshi c \<and> diamond b = diamond c"

lemma asset_add_ok:
  assumes inv: "ledger_ok s" and op: "asset_add a v s = (Inr r, s')"
  shows "\<exists>b. bal_ok b \<and> put_of s a (if a = ADDRESS_ZERO then balance_new else b) s' \<and>
    (\<forall>k. amount_at b k = amount_at (balance_or_default s a) k + (if k = asset_serial v then fold64_uint (asset_amount v) else 0)) \<and>
    coins_same b (balance_or_default s a)"
proof -
  let ?b = "balance_or_default s a"
  obtain o0 n b where o0: "asset_must ?b (asset_serial v) = Inr o0" and n: "asset_checked_add o0 v = Inr n"
    and b: "asset_set ?b n = Inr b"
    and tail: "bindS (balance_put a b) (\<lambda>_. bindS (blackhole_engulf a) (\<lambda>hole.
        bindS (if hole then total_record_blackhole_asset else returnS ()) (\<lambda>_. returnS n))) s = (Inr r, s')"
    using op unfolding asset_add_def
    by (auto simp: bindS_liftR simp del: bindS_simps returnS_eq split: if_splits sum.splits)
  from asset_must_value [OF o0] asset_checked_add_eq [OF n] have x: "asset_serial n = asset_serial v"
    "fold64_uint (asset_amount n) = amount_at ?b (asset_serial v) + fold64_uint (asset_amount v)"
    by (auto simp: amount_at_def)
  show ?thesis
    using bal_ok_asset_set [OF bal_ok_default [OF inv] b] credit_tail [OF tail total_records_state(3)]
      amount_at_set [OF bal_ok_default [OF inv] b] asset_set_fields [OF b] x by (intro exI [of _ b]) (auto simp: coins_same_def)
qed

lemma asset_sub_ok:
  assumes inv: "ledger_ok s" and op: "asset_sub a v s = (Inr r, s')"
  shows "\<exists>b. bal_ok b \<and> put_of s a b s' \<and> fold64_uint (asset_amount v) \<le> amount_at (balance_or_default s a) (asset_serial v) \<and>
    (\<forall>k. amount_at b k = amount_at (balance_or_default s a) k - (if k = asset_serial v then fold64_uint (asset_amount v) else 0)) \<and>
    coins_same b (balance_or_default s a)"
proof -
  let ?b = "balance_or_default s a"
  obtain o0 n b where o0: "asset_must ?b (asset_serial v) = Inr o0" and n: "asset_checked_sub o0 v = Inr n"
    and b: "asset_set ?b n = Inr b" and s': "s' = s\<lparr>balances := (balances s)(a \<mapsto> b)\<rparr>"
    using op by (auto simp: asset_sub_def bindS_liftR balance_put_def split: if_splits sum.splits)
  from asset_must_value [OF o0] asset_checked_sub_eq [OF n] have x: "asset_serial n = asset_serial v"
    "fold64_uint (asset_amount v) \<le> amount_at ?b (asset_serial v)"
    "fold64_uint (asset_amount n) = amount_at ?b (asset_serial v) - fold64_uint (asset_amount v)"
    by (auto simp: amount_at_def)
  show ?thesis
    using bal_ok_asset_set [OF bal_ok_default [OF inv] b] amount_at_set [OF bal_ok_default [OF inv] b] asset_set_fields [OF b] x s'
    by (intro exI [of _ b]) (auto simp: put_of_def coins_same_def)
qed

lemma asset_sub_err: "asset_sub a v s = (Inl e, s') \<Longrightarrow> s' = s"
  by (auto simp: asset_sub_def bindS_liftR balance_put_def split: if_splits sum.splits)

interpretation asset: fungible ledger_ok "asset_of k" "\<lambda>v. fold64_uint (asset_amount v)" "\<lambda>v. asset_serial v = k" asset_add asset_sub
  for k
proof
  fix s v a r s'
  assume inv: "ledger_ok s" and k: "asset_serial v = k" and op: "asset_add a v s = (Inr r, s')"
  obtain b where b: "bal_ok b" and p: "put_of s a (if a = ADDRESS_ZERO then balance_new else b) s'"
    and at: "\<And>j. amount_at b j = amount_at (balance_or_default s a) j + (if j = asset_serial v then fold64_uint (asset_amount v) else 0)"
    using asset_add_ok [OF inv op] by blast
  have "asset_of k s' x = (if x = a then if a = ADDRESS_ZERO then 0 else asset_of k s a + fold64_uint (asset_amount v) else asset_of k s x)" for x
    using at [of k] k by (simp add: asset_of_amount_at put_of_default [OF p])
  moreover have "ledger_ok s'" using put_of_ok [OF p inv] b by simp
  ultimately show "ledger_ok s' \<and> asset_of k s' = (asset_of k s)(a := if a = ADDRESS_ZERO then 0 else asset_of k s a + fold64_uint (asset_amount v))"
    by (auto simp: fun_eq_iff)
next
  fix s v a q s'
  assume inv: "ledger_ok s" and k: "asset_serial v = k" and op: "asset_sub a v s = (Inr q, s')"
  obtain b where b: "bal_ok b" and p: "put_of s a b s'"
    and le: "fold64_uint (asset_amount v) \<le> amount_at (balance_or_default s a) (asset_serial v)"
    and at: "\<And>j. amount_at b j = amount_at (balance_or_default s a) j - (if j = asset_serial v then fold64_uint (asset_amount v) else 0)"
    using asset_sub_ok [OF inv op] by blast
  have "asset_of k s' x = (if x = a then asset_of k s a - fold64_uint (asset_amount v) else asset_of k s x)" for x
    using at [of k] k by (simp add: asset_of_amount_at put_of_default [OF p])
  then show "ledger_ok s' \<and> fold64_uint (asset_amount v) \<le> asset_of k s a \<and>
      asset_of k s' = (asset_of k s)(a := asset_of k s a - fold64_uint (asset_amount v))"
    using put_of_ok [OF p inv b] le k by (auto simp: fun_eq_iff asset_of_amount_at)
qed (rule asset_sub_err)

section \<open>Sample states\<close>

definition no_count :: total_count where
  "no_count = \<lparr>minted_diamond = 0, hacd_bid_burn_238 = 0, opening_channel = 0, channel_deposit_238 = 0,
     channel_deposit_sat = 0, channel_interest_238 = 0, created_asset = 0, asset_issue_burn_238 = 0, tx_fee_burn90_238 = 0,
     ast_vm_gas_burn_238 = 0, diamond_engraved = 0, diamond_insc_burn_238 = 0, dia_insc_push = 0, dia_insc_clean = 0,
     dia_insc_edit = 0, dia_insc_move = 0, dia_insc_drop = 0, dia_insc_live_diamond = 0, channel_open_total = 0,
     channel_close_total = 0, channel_closed_hac_volume_238 = 0, contract_protocol_cost_burn_238 = 0,
     contract_deploy_count = 0, contract_update_count = 0, contract_charge_bytes_total = 0, tx_fee_pay_total_238 = 0,
     tx_fee_got_total_238 = 0, blackhole_hac_burn_238 = 0, blackhole_sat_burn = 0, blackhole_asset_burn_count = 0,
     blackhole_hacd_burn_count = 0\<rparr>"

definition addr_a :: address where "addr_a = [0, 7, 7, 7, 7, 7, 7, 7, 7, 7, 7, 7, 7, 7, 7, 7, 7, 7, 7, 7, 7]"
definition addr_b :: address where "addr_b = [0, 9, 9, 9, 9, 9, 9, 9, 9, 9, 9, 9, 9, 9, 9, 9, 9, 9, 9, 9, 9]"

lemma ADDRESS_ZERO_list: "ADDRESS_ZERO = [0, 0, 0, 0, 0, 0, 0, 0, 0, 0, 0, 0, 0, 0, 0, 0, 0, 0, 0, 0, 0]"
  by (simp add: ADDRESS_ZERO_def numeral_eq_Suc)


definition coin :: "u8 \<Rightarrow> amount" where
  "coin n = \<lparr>unit = 248, dist = 1, byte = [n]\<rparr>"

definition sample_state :: core_state where
  "sample_state = \<lparr>total_count_of = no_count,
     balances = (\<lambda>a. if a = addr_a then Some \<lparr>hacash = coin 5, satoshi = Fold64 100, diamond = Fold64 2,
       assets = \<lparr>count_of = 1, lists = [\<lparr>asset_serial = Fold64 3, asset_amount = Fold64 50\<rparr>]\<rparr>\<rparr> else None),
     diamonds = (\<lambda>_. None), diamond_owneds = (\<lambda>_. None), tx_exists = (\<lambda>_. None)\<rparr>"

definition sample_env :: env where
  "sample_env = \<lparr>env_chain_id = 0, env_height = 800000, env_diamond_form = True\<rparr>"

lemma addr_facts [simp]: "addr_a \<noteq> addr_b" "addr_b \<noteq> addr_a" "addr_a \<noteq> ADDRESS_ZERO" "addr_b \<noteq> ADDRESS_ZERO" 
  "version addr_a = 0" "version addr_b = 0" "\<not> is_privakey_unknown addr_a" "\<not> is_privakey_unknown addr_b"
  by (simp_all add: addr_a_def addr_b_def ADDRESS_ZERO_list version_def is_privakey_unknown_def)

lemma version_facts [simp]: "check_version addr_a = Inr ()" "check_version addr_b = Inr ()"
  by (simp_all add: check_version_def PRIVAKEY_def)
lemma coin_ok: "unat n \<noteq> 0 \<Longrightarrow> unat n mod 10 \<noteq> 0 \<Longrightarrow> amt_unsigned (coin n)" "unat n \<noteq> 0 \<Longrightarrow> unat n mod 10 \<noteq> 0 \<Longrightarrow> amt_canonical (coin n)"
  by (auto simp: coin_def amt_unsigned_def amt_canonical_def amt_wf_def tail_len_def)

lemma coin_with_128: "coin_with U128S 3 248 = coin 3"
proof -
  have l: "coin_loop 3 248 = (3, 248)" by (subst coin_loop.simps) simp
  have d: "drop_left_zero (be_bytes U128S 3) = [3]" by (simp add: be_bytes_numeral U128S_def)
  show ?thesis by (simp add: coin_with_def coin_def l d)
qed

lemma coin_fields: "unit (coin n) = 248" "dist (coin n) = 1" "byte (coin n) = [n]"
  by (simp_all add: coin_def)

lemma coin_ops: "sub_mode_u128 (coin 5) (coin 2) = Inr (coin 3)" 
  "add_mode_u128 amount_zero (coin 2) = Inr (coin 2)" "check_store_long (coin n) = Inr ()"
  subgoal using coin_with_128 by (simp add: coin_fields compute_mode_def amt_is_zero_def bytes_is_zero_def bytes_not_zero_def tail_len_def U128S_def sub_mode_u128_def be_nat_Cons checked_sub_def Let_def)
  subgoal by (simp add: coin_fields compute_mode_def amt_is_zero_def bytes_is_zero_def bytes_not_zero_def add_mode_u128_def)
  subgoal by (simp add: coin_def check_store_long_def check_long_def amount_size_def AMOUNT_STORE_MAX_SIZE_def)
  done

lemma sample_ok: "ledger_ok sample_state"
  by (simp add: ledger_ok_def sample_state_def bal_ok_def balance_ok_def coin_ok fold64_ok_def assets_ok_def combi_ok_def asset_ok_def
    BALANCE_ASSET_MAX_def fold64_MAX_eq)
lemma coin_ops2: "uval (coin n) = unat n * 10 ^ 248" "is_positive (coin n) = (n \<noteq> 0)"
 by (auto simp: uval_def coin_def be_nat_Cons is_positive_def bytes_not_zero_def word_gt_0)

lemma hac_sample: "fst (hac_transfer sample_env addr_a addr_b (coin 2) sample_state) = Inr ()"
  by (simp add: hac_transfer_def check_transfer_addr_online_open_def sample_env_def MAINNET_CHAIN_ID_def is_pqckey_def is_hybrid_def
    is_online_upgrade_open_def ONLINE_OPEN_HEIGHT_def PQCKEY_def HYBRID_def check_transfer_recipient_allowed_def
    check_amount_is_positive_def do_hac_sub_def amount_op_def balance_put_def hac_add_def do_hac_add_def bindS_def
    balance_or_default_def sample_state_def amount_lt_uval coin_ok coin_ops balance_new_def coin_ops2 blackhole_engulf_def BLACKHOLE_ADDR_def)
section \<open>Transfers of fungible values\<close>

lemma hac_transfer_shape:
  assumes "fr \<noteq> to" "hac_transfer e fr to amt s = (Inr u, s')"
  shows "is_positive amt \<and> bindS (do_hac_sub fr amt) (\<lambda>_. bindS (hac_add to amt) returnS) s = (Inr u, s') \<and>
    (to = ADDRESS_ZERO \<or> \<not> is_privakey_unknown to)"
  using assms by (auto simp: hac_transfer_def bindS_liftR check_amount_is_positive_def check_transfer_recipient_allowed_def
      BLACKHOLE_ADDR_def bindS_eq_Inr split: if_splits sum.splits)

lemma sat_transfer_shape:
  assumes "sat_transfer e fr to v s = (Inr u, s')"
  shows "fr \<noteq> to \<and> bindS (sat_sub fr v) (\<lambda>_. bindS (sat_add to v) (\<lambda>_. returnS ())) s = (Inr u, s')"
  using assms by (auto simp: sat_transfer_def bindS_liftR simp del: bindS_simps split: if_splits sum.splits)

lemma asset_transfer_shape:
  assumes "asset_transfer e fr to v s = (Inr u, s')"
  shows "fr \<noteq> to \<and> bindS (asset_sub fr v) (\<lambda>_. bindS (asset_add to v) (\<lambda>_. returnS ())) s = (Inr u, s')"
  using assms by (auto simp: asset_transfer_def bindS_liftR simp del: bindS_simps split: if_splits sum.splits)

text \<open>C7: A HAC transfer between two accounts that succeeds takes the amount, exactly, from an
  account that held it and gives it to the other one, in units of the smallest denomination;
  nobody else's balance changes, every stored balance stays canonical and non-negative, and the
  sum over any set of accounts that contains both is unchanged. The one exception is the
  blackhole address, where what it receives (and held) disappears.\<close>
theorem hac_transfer_correct:
  assumes "ledger_ok s" "amt_unsigned amt" "amt_canonical amt" "fr \<noteq> to" "hac_transfer e fr to amt s = (Inr (), s')"
    "finite A" "fr \<in> A" "to \<in> A"
  shows "ledger_ok s' \<and> 0 < uval amt \<and> uval amt \<le> hac_of s fr \<and>
    hac_of s' = (hac_of s)(fr := hac_of s fr - uval amt, to := if to = ADDRESS_ZERO then 0 else hac_of s to + uval amt) \<and>
    sum (hac_of s) A = sum (hac_of s') A + (if to = ADDRESS_ZERO then hac_of s to + uval amt else 0)"
proof -
  have shape: "is_positive amt" "bindS (do_hac_sub fr amt) (\<lambda>_. bindS (hac_add to amt) returnS) s = (Inr (), s')"
    using hac_transfer_shape [OF assms(4,5)] by auto
  have ok: "hac_okv amt" using assms(2,3) by (simp add: hac_okv_def)
  note moved = hac.move_ok [OF assms(1) ok assms(4) shape(2)]
  have m: "ledger_ok s'" "uval amt \<le> hac_of s fr"
    "hac_of s' = (hac_of s)(fr := hac_of s fr - uval amt, to := if to = ADDRESS_ZERO then 0 else hac_of s to + uval amt)"
    using moved by auto
  have "0 < uval amt" using shape(1) amt_is_zero_uval [of amt] by (auto simp: is_positive_def amt_is_zero_def bytes_is_zero_def)
  with m hac.move_conserves [OF assms(6-8,4) m(2,3)] show ?thesis by blast
qed

text \<open>What an account holds of a value that is not transferred: the same as before, but for the blackhole as the recipient, whose
  whole balance disappears.\<close>

definition wiped :: "address \<Rightarrow> (address \<Rightarrow> nat) \<Rightarrow> address \<Rightarrow> nat" where
  "wiped to f = (if to = ADDRESS_ZERO then f(to := 0) else f)"

lemma two_puts:
  assumes "put_of s fr b s1" "put_of s1 to (if to = ADDRESS_ZERO then balance_new else c) s'" "fr \<noteq> to"
  shows "balance_or_default s' x = (if x = to then if to = ADDRESS_ZERO then balance_new else c else if x = fr then b else balance_or_default s x)"
    "x \<noteq> fr \<Longrightarrow> x \<noteq> to \<Longrightarrow> balances s' x = balances s x"
  using put_of_default [OF assms(1), of x] put_of_default [OF assms(2), of x] assms
  by (auto simp: put_of_def)

lemma new_holds_nothing: "uval (hacash balance_new) = 0" "fold64_uint (satoshi balance_new) = 0" "fold64_uint (diamond balance_new) = 0"
  by (simp_all add: balance_new_def amount_zero_def uval_def be_nat_def fold64_uint_def)

lemma sat_transfer_frame:
  assumes "ledger_ok s" "sat_transfer e fr to v s = (Inr (), s')"
  shows "hac_of s' = wiped to (hac_of s)" "hacd_of s' = wiped to (hacd_of s)" "asset_of k s' = wiped to (asset_of k s)"
    "x \<noteq> fr \<Longrightarrow> x \<noteq> to \<Longrightarrow> balances s' x = balances s x"
proof -
  note sh = sat_transfer_shape [OF assms(2)]
  then obtain q s1 r where d: "sat_sub fr v s = (Inr q, s1)" and c: "sat_add to v s1 = (Inr r, s')" by (auto simp: bindS_eq_Inr)
  obtain f where p: "put_of s fr ((balance_or_default s fr)\<lparr>satoshi := f\<rparr>) s1" using sat_sub_ok [OF d] by blast
  have "ledger_ok s1" using sat.debit_ok [OF assms(1) TrueI d] by blast
  from sat_add_ok [OF this c] obtain f' where
    p': "put_of s1 to (if to = ADDRESS_ZERO then balance_new else (balance_or_default s1 to)\<lparr>satoshi := f'\<rparr>) s'" by blast
  have "balance_or_default s1 to = balance_or_default s to" using put_of_default [OF p] not_sym [OF conjunct1 [OF sh]] by simp
  note b = two_puts [OF p p' [unfolded this]]
  show "hac_of s' = wiped to (hac_of s)" "hacd_of s' = wiped to (hacd_of s)" "asset_of k s' = wiped to (asset_of k s)"
    using b(1) sh amount_at_new [of k]
    by (auto simp: fun_eq_iff wiped_def hac_of_def hacd_of_def asset_of_def new_holds_nothing amount_at_def balance_asset_def)
  show "x \<noteq> fr \<Longrightarrow> x \<noteq> to \<Longrightarrow> balances s' x = balances s x" using b(2) sh by simp
qed

lemma asset_transfer_frame:
  assumes "ledger_ok s" "asset_transfer e fr to v s = (Inr (), s')"
  shows "hac_of s' = wiped to (hac_of s)" "hacd_of s' = wiped to (hacd_of s)" "sat_of s' = wiped to (sat_of s)"
    "k \<noteq> asset_serial v \<Longrightarrow> asset_of k s' = wiped to (asset_of k s)"
    "x \<noteq> fr \<Longrightarrow> x \<noteq> to \<Longrightarrow> balances s' x = balances s x"
proof -
  note sh = asset_transfer_shape [OF assms(2)]
  then obtain q s1 r where d: "asset_sub fr v s = (Inr q, s1)" and c: "asset_add to v s1 = (Inr r, s')" by (auto simp: bindS_eq_Inr)
  obtain b where p: "put_of s fr b s1" and b: "coins_same b (balance_or_default s fr)"
    "\<And>j. amount_at b j = amount_at (balance_or_default s fr) j - (if j = asset_serial v then fold64_uint (asset_amount v) else 0)"
    using asset_sub_ok [OF assms(1) d] by blast
  have "ledger_ok s1" using asset.debit_ok [OF assms(1) refl d] by blast
  from asset_add_ok [OF this c] obtain b' where p': "put_of s1 to (if to = ADDRESS_ZERO then balance_new else b') s'"
    and b': "coins_same b' (balance_or_default s1 to)"
    "\<And>j. amount_at b' j = amount_at (balance_or_default s1 to) j + (if j = asset_serial v then fold64_uint (asset_amount v) else 0)" by blast
  have "balance_or_default s1 to = balance_or_default s to" using put_of_default [OF p] not_sym [OF conjunct1 [OF sh]] by simp
  note bb = two_puts [OF p p'] and b' = b' [unfolded this]
  show "hac_of s' = wiped to (hac_of s)" "hacd_of s' = wiped to (hacd_of s)" "sat_of s' = wiped to (sat_of s)"
    using bb(1) b(1) b'(1) sh
    by (auto simp: fun_eq_iff wiped_def hac_of_def hacd_of_def sat_of_def coins_same_def new_holds_nothing)
  show "k \<noteq> asset_serial v \<Longrightarrow> asset_of k s' = wiped to (asset_of k s)"
    using bb(1) b(2) [of k] b'(2) [of k] sh by (auto simp: fun_eq_iff wiped_def asset_of_amount_at)
  show "x \<noteq> fr \<Longrightarrow> x \<noteq> to \<Longrightarrow> balances s' x = balances s x" using bb(2) sh by simp
qed

lemma sat_transfer_moves:
  assumes "ledger_ok s" "finite A" "fr \<in> A" "to \<in> A" "sat_transfer e fr to v s = (Inr (), s')"
  shows "ledger_ok s' \<and> v \<le> sat_of s fr \<and>
      sat_of s' = (sat_of s)(fr := sat_of s fr - v, to := if to = ADDRESS_ZERO then 0 else sat_of s to + v) \<and>
      sum (sat_of s) A = sum (sat_of s') A + (if to = ADDRESS_ZERO then sat_of s to + v else 0)"
proof -
  have ne: "fr \<noteq> to" and r: "bindS (sat_sub fr v) (\<lambda>_. bindS (sat_add to v) (\<lambda>_. returnS ())) s = (Inr (), s')"
    using sat_transfer_shape [OF assms(5)] by blast+
  have m: "ledger_ok s'" "v \<le> sat_of s fr"
    "sat_of s' = (sat_of s)(fr := sat_of s fr - v, to := if to = ADDRESS_ZERO then 0 else sat_of s to + v)"
    using sat.move_ok [OF assms(1) TrueI ne r] by auto
  show ?thesis by (intro conjI m sat.move_conserves [OF assms(2-4) ne m(2,3)])
qed

lemma asset_transfer_moves:
  assumes "ledger_ok s" "finite A" "fr \<in> A" "to \<in> A" "asset_transfer e fr to ast s = (Inr (), s')"
    and "k = asset_serial ast" "v = fold64_uint (asset_amount ast)"
  shows "ledger_ok s' \<and> v \<le> asset_of k s fr \<and>
      asset_of k s' = (asset_of k s)(fr := asset_of k s fr - v, to := if to = ADDRESS_ZERO then 0 else asset_of k s to + v) \<and>
      sum (asset_of k s) A = sum (asset_of k s') A + (if to = ADDRESS_ZERO then asset_of k s to + v else 0)"
proof -
  have ne: "fr \<noteq> to" and r: "bindS (asset_sub fr ast) (\<lambda>_. bindS (asset_add to ast) (\<lambda>_. returnS ())) s = (Inr (), s')"
    using asset_transfer_shape [OF assms(5)] by blast+
  have m: "ledger_ok s'" "v \<le> asset_of k s fr"
    "asset_of k s' = (asset_of k s)(fr := asset_of k s fr - v, to := if to = ADDRESS_ZERO then 0 else asset_of k s to + v)"
    using asset.move_ok [OF assms(1) refl ne r] unfolding assms(6,7) by auto
  show ?thesis using m asset.move_conserves [OF assms(2-4) ne, of ast k s s'] unfolding assms(7) by blast
qed

text \<open>C8: The same for satoshi and for assets: a transfer that succeeds moves exactly what was asked for, from a sufficient balance,
  and conserves its sum over the accounts. Every other kind of value and every other asset serial is held as before, by the two
  accounts as well, and the balance of no other account changes. The exception is the blackhole as the recipient, where
  everything it holds disappears. The asset lists stay free of duplicates and zero entries.\<close>
theorem sat_asset_transfer_correct:
  assumes "ledger_ok s" "finite A" "fr \<in> A" "to \<in> A"
  shows "(sat_transfer e fr to v s = (Inr (), s') \<longrightarrow>
      ledger_ok s' \<and> v \<le> sat_of s fr \<and>
      sat_of s' = (sat_of s)(fr := sat_of s fr - v, to := if to = ADDRESS_ZERO then 0 else sat_of s to + v) \<and>
      sum (sat_of s) A = sum (sat_of s') A + (if to = ADDRESS_ZERO then sat_of s to + v else 0) \<and>
      hac_of s' = wiped to (hac_of s) \<and> hacd_of s' = wiped to (hacd_of s) \<and> (\<forall>k. asset_of k s' = wiped to (asset_of k s)) \<and>
      (\<forall>x. x \<noteq> fr \<and> x \<noteq> to \<longrightarrow> balances s' x = balances s x)) \<and>
    (asset_transfer e fr to ast s = (Inr (), s') \<longrightarrow>
      (let k = asset_serial ast; v = fold64_uint (asset_amount ast) in
      ledger_ok s' \<and> v \<le> asset_of k s fr \<and>
      asset_of k s' = (asset_of k s)(fr := asset_of k s fr - v, to := if to = ADDRESS_ZERO then 0 else asset_of k s to + v) \<and>
      sum (asset_of k s) A = sum (asset_of k s') A + (if to = ADDRESS_ZERO then asset_of k s to + v else 0) \<and>
      hac_of s' = wiped to (hac_of s) \<and> hacd_of s' = wiped to (hacd_of s) \<and> sat_of s' = wiped to (sat_of s) \<and>
      (\<forall>j. j \<noteq> k \<longrightarrow> asset_of j s' = wiped to (asset_of j s)) \<and>
      (\<forall>x. x \<noteq> fr \<and> x \<noteq> to \<longrightarrow> balances s' x = balances s x)))"
  using sat_transfer_moves [OF assms, of e v s'] sat_transfer_frame [OF assms(1), of e fr to v s']
    asset_transfer_moves [OF assms, of e ast s', OF _ refl refl] asset_transfer_frame [OF assms(1), of e fr to ast s']
  unfolding Let_def by blast

text \<open>C9: A transfer of more than the sender holds is refused, whatever the kind of value, and the refusal leaves the state exactly as
  it was. The one exception is a transfer of HAC to oneself below height 200000, where the amount is not checked; a transfer of
  HAC to oneself never changes the state, whether it is refused or not.\<close>
theorem transfer_insufficient_refused:
  assumes "ledger_ok s"
  shows "(amt_unsigned amt \<and> amt_canonical amt \<and> hac_of s fr < uval amt \<and> (fr = to \<longrightarrow> 200000 \<le> env_height e) \<longrightarrow>
      (\<exists>x. hac_transfer e fr to amt s = (Inl x, s))) \<and>
    (fr = to \<longrightarrow> snd (hac_transfer e fr to amt s) = s) \<and>
    (sat_of s fr < v \<longrightarrow> (\<exists>x. sat_transfer e fr to v s = (Inl x, s))) \<and>
    (asset_of (asset_serial ast) s fr < fold64_uint (asset_amount ast) \<longrightarrow> (\<exists>x. asset_transfer e fr to ast s = (Inl x, s))) \<and>
    (hacd_of s fr < n \<longrightarrow> (\<exists>x. hacd_transfer fr to n s = (Inl x, s)))"
proof (intro conjI impI)
  assume h: "amt_unsigned amt \<and> amt_canonical amt \<and> hac_of s fr < uval amt \<and> (fr = to \<longrightarrow> 200000 \<le> env_height e)"
  show "\<exists>x. hac_transfer e fr to amt s = (Inl x, s)"
  proof (cases "fr = to")
    case False
    have "\<exists>x. bindS (do_hac_sub fr amt) (\<lambda>_. hac_add to amt) s = (Inl x, s)"
      using hac.move_short [OF assms(1)] h unfolding hac_okv_def by blast
    then show ?thesis using False by (auto simp: hac_transfer_def bindS_liftR simp del: bindS_simps split: sum.split)
  next
    case True
    have "\<exists>x. hac_check fr amt s = (Inl x, s)"
    proof (cases "balances s fr")
      case (Some b)
      have "amount_ge (hacash b) amt = Inr (uval amt \<le> uval (hacash b))"
        using bal_ok_hac [OF bal_ok_default [OF assms, of fr]] Some h by (intro amount_lt_uval(2)) (simp_all add: balance_or_default_def)
      then have "amount_ge (hacash b) amt = Inr False" using h Some by (simp add: hac_of_def balance_or_default_def)
      then show ?thesis using Some by (simp add: hac_check_def bindS_liftR split: sum.split)
    qed (simp add: hac_check_def bindS_liftR split: sum.split)
    then show ?thesis using True h
      by (auto simp: hac_transfer_def bindS_liftR bindS_def [of "hac_check to amt"] split: sum.split)
  qed
next
  assume "fr = to"
  moreover have "snd (hac_check to amt s) = s"
    by (auto simp: hac_check_def bindS_liftR split: option.split sum.split)
  ultimately show "snd (hac_transfer e fr to amt s) = s"
    by (auto simp: hac_transfer_def bindS_liftR bindS_def [of "hac_check to amt"] split: sum.split prod.split)
next
  assume "sat_of s fr < v"
  then have "\<exists>x. bindS (sat_sub fr v) (\<lambda>_. bindS (sat_add to v) (\<lambda>_. returnS ())) s = (Inl x, s)"
    by (rule sat.move_short [OF assms(1) TrueI])
  then show "\<exists>x. sat_transfer e fr to v s = (Inl x, s)"
    by (auto simp: sat_transfer_def bindS_liftR failS_def simp del: bindS_simps split: sum.split)
next
  assume "asset_of (asset_serial ast) s fr < fold64_uint (asset_amount ast)"
  then have "\<exists>x. bindS (asset_sub fr ast) (\<lambda>_. bindS (asset_add to ast) (\<lambda>_. returnS ())) s = (Inl x, s)"
    by (rule asset.move_short [OF assms(1) refl])
  then show "\<exists>x. asset_transfer e fr to ast s = (Inl x, s)"
    by (auto simp: asset_transfer_def bindS_liftR failS_def simp del: bindS_simps split: sum.split)
next
  assume "hacd_of s fr < n"
  then have "\<exists>x. bindS (hacd_sub fr n) (\<lambda>_. bindS (hacd_add to n) (\<lambda>_. returnS ())) s = (Inl x, s)"
    by (rule hacd.move_short [OF assms(1) TrueI])
  then show "\<exists>x. hacd_transfer fr to n s = (Inl x, s)"
    by (simp add: hacd_transfer_def failS_def)
qed

section \<open>Samples\<close>

theorem hac_transfer_correct_witness:
  "let s' = snd (hac_transfer sample_env addr_a addr_b (coin 2) sample_state) in
    ledger_ok s' \<and> hac_of s' addr_a = 3 * 10 ^ 248 \<and> hac_of s' addr_b = 2 * 10 ^ 248 \<and>
    sum (hac_of sample_state) {addr_a, addr_b} = sum (hac_of s') {addr_a, addr_b}"
proof -
  obtain s' where op: "hac_transfer sample_env addr_a addr_b (coin 2) sample_state = (Inr (), s')"
    using hac_sample by (cases "hac_transfer sample_env addr_a addr_b (coin 2) sample_state") auto
  have bal: "hac_of sample_state addr_a = 5 * 10 ^ 248" "hac_of sample_state addr_b = 0"
    by (simp_all add: hac_of_def sample_state_def balance_or_default_def coin_ops2)
  from hac_transfer_correct [OF sample_ok coin_ok [of 2] _ op, of "{addr_a, addr_b}"] op bal show ?thesis
    by (simp add: coin_ops2)
qed

lemma sat_sample: "fst (sat_transfer sample_env addr_a addr_b 30 sample_state) = Inr ()"
  by (simp add: sat_transfer_def check_transfer_addr_online_open_def sample_env_def MAINNET_CHAIN_ID_def is_pqckey_def is_hybrid_def
    is_online_upgrade_open_def ONLINE_OPEN_HEIGHT_def PQCKEY_def HYBRID_def check_transfer_recipient_allowed_def
    sat_sub_def sat_add_def balance_put_def bindS_def balance_or_default_def sample_state_def balance_new_def
    uint_sub_def uint_from_def from_satoshi_def fold64_from_def fold64_checked_def fold64_MAX_eq expectR_def
    blackhole_engulf_def BLACKHOLE_ADDR_def)

lemma asset_sample: "fst (asset_transfer sample_env addr_a addr_b \<lparr>asset_serial = Fold64 3, asset_amount = Fold64 50\<rparr> sample_state) = Inr ()"
  by (simp add: asset_transfer_def check_transfer_addr_online_open_def sample_env_def MAINNET_CHAIN_ID_def is_pqckey_def is_hybrid_def
    is_online_upgrade_open_def ONLINE_OPEN_HEIGHT_def PQCKEY_def HYBRID_def check_transfer_recipient_allowed_def
    asset_sub_def asset_add_def balance_put_def bindS_def balance_or_default_def sample_state_def balance_new_def
    asset_must_def asset_from_serial_def asset_checked_def fold64_checked_def fold64_MAX_eq expectR_def balance_asset_def
    asset_less_def asset_checked_sub_def asset_checked_add_def checked_u64_def fold64_from_def asset_set_def fold64_is_zero_def
    combi_drop_def combi_push_def combi_length_def combi_empty_def uint_from_usize_def BALANCE_ASSET_MAX_def less_fold64_def
    blackhole_engulf_def BLACKHOLE_ADDR_def Let_def uint_MAX_def)

theorem sat_asset_transfer_correct_witness:
  "let s' = snd (sat_transfer sample_env addr_a addr_b 30 sample_state);
       s'' = snd (asset_transfer sample_env addr_a addr_b \<lparr>asset_serial = Fold64 3, asset_amount = Fold64 50\<rparr> sample_state) in
    ledger_ok s' \<and> sat_of s' addr_a = 70 \<and> sat_of s' addr_b = 30 \<and>
    ledger_ok s'' \<and> asset_of (Fold64 3) s'' addr_a = 0 \<and> asset_of (Fold64 3) s'' addr_b = 50"
proof -
  let ?a = "\<lparr>asset_serial = Fold64 3, asset_amount = Fold64 50\<rparr>"
  obtain s' where op: "sat_transfer sample_env addr_a addr_b 30 sample_state = (Inr (), s')"
    using sat_sample by (cases "sat_transfer sample_env addr_a addr_b 30 sample_state") auto
  obtain s'' where op2: "asset_transfer sample_env addr_a addr_b ?a sample_state = (Inr (), s'')"
    using asset_sample by (cases "asset_transfer sample_env addr_a addr_b ?a sample_state") auto
  have bal: "sat_of sample_state addr_a = 100" "sat_of sample_state addr_b = 0"
    "asset_of (Fold64 3) sample_state addr_a = 50" "asset_of (Fold64 3) sample_state addr_b = 0"
    by (simp_all add: sat_of_def asset_of_def balance_asset_def sample_state_def balance_or_default_def balance_new_def combi_empty_def)
  from sat_asset_transfer_correct [OF sample_ok, of "{addr_a, addr_b}" addr_a addr_b sample_env 30 s' ?a] op bal
  have "ledger_ok s' \<and> sat_of s' addr_a = 70 \<and> sat_of s' addr_b = 30" by simp
  moreover from sat_asset_transfer_correct [OF sample_ok, of "{addr_a, addr_b}" addr_a addr_b sample_env 30 s'' ?a] op2 bal
  have "ledger_ok s'' \<and> asset_of (Fold64 3) s'' addr_a = 0 \<and> asset_of (Fold64 3) s'' addr_b = 50" by (simp add: Let_def)
  ultimately show ?thesis using op op2 by simp
qed

theorem transfer_insufficient_refused_witness:
  "(\<exists>x. hac_transfer sample_env addr_a addr_b (coin 9) sample_state = (Inl x, sample_state)) \<and>
   (\<exists>x. sat_transfer sample_env addr_a addr_b 101 sample_state = (Inl x, sample_state)) \<and>
   (\<exists>x. asset_transfer sample_env addr_a addr_b \<lparr>asset_serial = Fold64 3, asset_amount = Fold64 51\<rparr> sample_state = (Inl x, sample_state)) \<and>
   (\<exists>x. hacd_transfer addr_a addr_b 3 sample_state = (Inl x, sample_state))"
proof -
  have bal: "hac_of sample_state addr_a = 5 * 10 ^ 248" "sat_of sample_state addr_a = 100" "hacd_of sample_state addr_a = 2"
    "asset_of (Fold64 3) sample_state addr_a = 50"
    by (simp_all add: hac_of_def sat_of_def hacd_of_def asset_of_def balance_asset_def sample_state_def balance_or_default_def coin_ops2)
  from transfer_insufficient_refused [OF sample_ok, where fr = addr_a and to = addr_b and amt = "coin 9" and e = sample_env and v = 101
      and ast = "\<lparr>asset_serial = Fold64 3, asset_amount = Fold64 51\<rparr>" and n = 3] coin_ok [of 9]
  show ?thesis by (simp add: bal coin_ops2)
qed

end
