(* ===== verification/DiamondMoves.thy ===== *)
theory DiamondMoves
  imports Transfers
begin

text \<open>
  The transfer of a list of diamonds (\<^verbatim>\<open>protocol/src/action/diamond.rs\<close>
  \<open>do_diamonds_transfer\<close>) keeps three records of the same fact in step: the owner stored with
  each diamond, the packed list of names of each owner, and the count in each balance.
\<close>

definition held :: "core_state \<Rightarrow> address \<Rightarrow> diamond_name set" where
  "held s a = {n. \<exists>d. diamonds s n = Some d \<and> dia_address d = a}"

definition hacd_ok :: "core_state \<Rightarrow> bool" where
  "hacd_ok s \<longleftrightarrow> ledger_ok s \<and> diamond_owneds s ADDRESS_ZERO = None \<and>
     (\<forall>a. a \<noteq> ADDRESS_ZERO \<longrightarrow> owned_ok (diamond_owned_or_default s a) \<and>
        owned_set (diamond_owned_or_default s a) = held s a \<and> hacd_of s a = card (held s a))"

lemma move_diamonds_ok:
  assumes "distinct ds" "move_diamonds fr to ds s = (Inr u, s')"
  shows "(\<forall>d \<in> set ds. \<exists>x. diamonds s d = Some x \<and> status x = DIAMOND_STATUS_NORMAL \<and> dia_address x = fr) \<and>
    s' = s\<lparr>diamonds := (\<lambda>n. if n \<in> set ds then map_option (\<lambda>x. x\<lparr>dia_address := to\<rparr>) (diamonds s n) else diamonds s n)\<rparr> \<and>
    (ds \<noteq> [] \<longrightarrow> fr \<noteq> to)"
  using assms
proof (induction ds arbitrary: s)
  case Nil
  then show ?case by simp
next
  case (Cons d ds)
  obtain x where x: "fr \<noteq> to" "diamonds s d = Some x" "status x = DIAMOND_STATUS_NORMAL" "dia_address x = fr"
    and r: "move_diamonds fr to ds (s\<lparr>diamonds := (diamonds s)(d \<mapsto> x\<lparr>dia_address := to\<rparr>)\<rparr>) = (Inr u, s')"
    using Cons.prems(2)
    by (auto simp: hacd_move_one_diamond_def check_diamond_status_def bindS_eq_Inr split: if_splits option.splits)
  from Cons.IH [OF _ r] Cons.prems(1) x show ?case
    by (auto simp: fun_eq_iff split: if_splits intro!: arg_cong [where f = "\<lambda>m. s\<lparr>diamonds := m\<rparr>"])
qed

lemma nlist_check_ok: "nlist_check 200 l = Inr n \<Longrightarrow> nlist_ok 1 200 l \<and> n = length (lists l)"
  by (auto simp: nlist_check_def nlist_ok_def combi_ok_def Let_def bindR_eq_Inr nlist_check_loop_iff split: if_splits)

lemma owned_default_Nil [simp]: "owned_ok []" "owned_set [] = {}"
  by (simp_all add: owned_ok_def owned_set_def)

lemma diamond_owned_move_ok:
  assumes op: "diamond_owned_move fr to l s = (Inr u, s')" and l: "nlist_ok 1 200 l"
    and ok: "owned_ok (diamond_owned_or_default s fr)" "owned_ok (diamond_owned_or_default s to)"
  shows "fr \<noteq> to \<and> diamond_owneds s fr \<noteq> None \<and> s' = s\<lparr>diamond_owneds := diamond_owneds s'\<rparr> \<and>
    set (lists l) \<subseteq> owned_set (diamond_owned_or_default s fr) \<and>
    (\<forall>a. owned_set (diamond_owned_or_default s' a) =
       (if a = fr then owned_set (diamond_owned_or_default s fr) - set (lists l)
        else if a = to then owned_set (diamond_owned_or_default s to) \<union> set (lists l)
        else owned_set (diamond_owned_or_default s a)) \<and>
      (a \<noteq> fr \<and> a \<noteq> to \<longrightarrow> diamond_owneds s' a = diamond_owneds s a) \<and>
      (a = fr \<or> a = to \<longrightarrow> owned_ok (diamond_owned_or_default s' a)))"
proof -
  obtain f n f' t' where f: "fr \<noteq> to" "diamond_owneds s fr = Some f" "owned_drop f l = Inr (n, f')"
    and t': "owned_push (diamond_owned_or_default s to) l = Inr t'"
    and s': "s' = s\<lparr>diamond_owneds := ((diamond_owneds s)(fr := if 0 < length f' then Some f' else None))(to \<mapsto> t')\<rparr>"
    using op by (auto simp: diamond_owned_move_def diamond_owned_put_def diamond_owned_or_default_def bindS_liftR
        split: if_splits option.splits sum.splits)
  have f0: "owned_ok f" "diamond_owned_or_default s fr = f" using ok(1) f(2) by (simp_all add: diamond_owned_or_default_def)
  from owned_drop_spec [OF f0(1) l] f(3)
  have d: "set (lists l) \<subseteq> owned_set f" "owned_ok f'" "owned_set f' = owned_set f - set (lists l)" by auto
  from owned_push_list_ok [OF ok(2) nlist_ok_six [OF l]] t'
  have p: "owned_ok t'" "owned_set t' = owned_set (diamond_owned_or_default s to) \<union> set (lists l)"
    by (auto simp: owned_push_def)
  have "diamond_owned_or_default s' a = (if a = to then t' else if a = fr then f' else diamond_owned_or_default s a)" for a
    using f(1) by (auto simp: s' diamond_owned_or_default_def)
  with d p f f0 s' show ?thesis by auto
qed

lemma hacd_transfer_frame:
  assumes "hacd_transfer fr to n s = (Inr u, s')"
  shows "fr \<noteq> to \<and> diamonds s' = diamonds s \<and>
    diamond_owneds s' = (if to = ADDRESS_ZERO then (diamond_owneds s)(ADDRESS_ZERO := None) else diamond_owneds s)"
proof -
  obtain r1 s1 r2 where ne: "fr \<noteq> to" and sub: "hacd_sub fr n s = (Inr r1, s1)" and add: "hacd_add to n s1 = (Inr r2, s')"
    using assms by (auto simp: hacd_transfer_def bindS_eq_Inr split: if_splits)
  have "diamonds s1 = diamonds s \<and> diamond_owneds s1 = diamond_owneds s"
    using sub by (auto simp: hacd_sub_def bindS_liftR uint_sub_def balance_put_def split: if_splits sum.splits)
  moreover have "diamonds s' = diamonds s1 \<and>
      diamond_owneds s' = (if to = ADDRESS_ZERO then (diamond_owneds s1)(ADDRESS_ZERO := None) else diamond_owneds s1)"
    using add by (auto simp: hacd_add_def bindS_liftR uint_from_usize_def balance_put_def blackhole_engulf_def BLACKHOLE_ADDR_def
        bindS_eq_Inr fun_eq_iff dest: total_records_state(4) split: if_splits sum.splits)
  ultimately show ?thesis using ne by simp
qed

lemma diamonds_transfer_core:
  assumes ok: "hacd_ok s" and l: "nlist_ok 1 200 l"
    and s1: "move_diamonds fr to (lists l) s = (Inr u1, s1)"
    and s2: "diamond_owned_move fr to l s1 = (Inr u2, s2)"
    and s3: "hacd_transfer fr to (length (lists l)) s2 = (Inr u3, s3)"
  shows "hacd_ok s3"
proof -
  let ?D = "set (lists l)"
  have L: "lists l \<noteq> []" "distinct (lists l)" using l by (auto simp: nlist_ok_def)
  from move_diamonds_ok [OF L(2) s1] L(1)
  have m: "fr \<noteq> to" "\<forall>d \<in> ?D. \<exists>x. diamonds s d = Some x \<and> dia_address x = fr"
    and s1': "s1 = s\<lparr>diamonds := (\<lambda>n. if n \<in> ?D then map_option (\<lambda>x. x\<lparr>dia_address := to\<rparr>) (diamonds s n) else diamonds s n)\<rparr>"
    by blast+
  have own1: "diamond_owned_or_default s1 = diamond_owned_or_default s" "diamond_owneds s1 = diamond_owneds s"
    by (simp_all add: s1' diamond_owned_or_default_def fun_eq_iff)
  have okd: "owned_ok (diamond_owned_or_default s a)" for a
    using ok by (cases "a = ADDRESS_ZERO") (auto simp: hacd_ok_def diamond_owned_or_default_def)
  note mv = diamond_owned_move_ok [OF s2 l, unfolded own1, OF okd okd]
  have frnz: "fr \<noteq> ADDRESS_ZERO" using mv ok by (auto simp: hacd_ok_def)
  have held1: "held s1 a = (if a = to then held s to \<union> ?D else if a = fr then held s fr - ?D else held s a)" for a
  proof (rule set_eqI)
    fix n
    show "n \<in> held s1 a \<longleftrightarrow> n \<in> (if a = to then held s to \<union> ?D else if a = fr then held s fr - ?D else held s a)"
    proof (cases "n \<in> ?D")
      case True
      then obtain x where "diamonds s n = Some x" "dia_address x = fr" using m(2) by blast
      then show ?thesis using True m(1) by (auto simp: held_def s1')
    qed (use m(1) in \<open>auto simp: held_def s1'\<close>)
  qed
  have D: "?D \<subseteq> held s fr" using m(2) by (auto simp: held_def)
  from hacd_transfer_frame [OF s3] have fr3: "diamonds s3 = diamonds s2"
    "diamond_owneds s3 = (if to = ADDRESS_ZERO then (diamond_owneds s2)(ADDRESS_ZERO := None) else diamond_owneds s2)" by auto
  have s2': "s2 = s1\<lparr>diamond_owneds := diamond_owneds s2\<rparr>" using mv by blast
  have bal2: "balances s2 = balances s" "diamonds s2 = diamonds s1" by (subst s2', simp add: s1')+
  have led2: "ledger_ok s2" "hacd_of s2 = hacd_of s"
    using ok bal2 by (auto simp: hacd_ok_def ledger_ok_def hacd_of_def balance_or_default_def)
  from s3 m(1) have "bindS (hacd_sub fr (length (lists l))) (\<lambda>_. bindS (hacd_add to (length (lists l))) (\<lambda>_. returnS ())) s2 = (Inr u3, s3)"
    by (simp add: hacd_transfer_def)
  from hacd.move_ok [OF led2(1) TrueI m(1) this]
  have h: "ledger_ok s3" "hacd_of s3 = (hacd_of s)(fr := hacd_of s fr - length (lists l),
      to := if to = ADDRESS_ZERO then 0 else hacd_of s to + length (lists l))" by (simp_all add: led2)
  have held3: "held s3 = held s1" using fr3(1) bal2(2) by (simp add: held_def fun_eq_iff)
  have len: "length (lists l) = card ?D" using L(2) by (simp add: distinct_card)
  have fin: "finite (held s a)" if "a \<noteq> ADDRESS_ZERO" for a
    using ok that by (metis finite_set hacd_ok_def owned_set_def)
  show ?thesis unfolding hacd_ok_def
  proof (intro conjI allI impI)
    show "ledger_ok s3" by (rule h(1))
    show "diamond_owneds s3 ADDRESS_ZERO = None"
      using fr3(2) mv frnz ok own1 by (auto simp: hacd_ok_def)
  next
    fix a :: address assume a: "a \<noteq> ADDRESS_ZERO"
    have o3: "diamond_owned_or_default s3 a = diamond_owned_or_default s2 a"
      using a fr3(2) by (simp add: diamond_owned_or_default_def)
    have o2: "owned_ok (diamond_owned_or_default s2 a)"
      using mv okd [of a] own1 by (cases "a = fr \<or> a = to") (auto simp: diamond_owned_or_default_def)
    then show "owned_ok (diamond_owned_or_default s3 a)" by (simp only: o3)
    have base: "owned_set (diamond_owned_or_default s a) = held s a" "hacd_of s a = card (held s a)"
      "owned_set (diamond_owned_or_default s fr) = held s fr" "hacd_of s fr = card (held s fr)"
      using ok a frnz by (auto simp: hacd_ok_def)
    show "owned_set (diamond_owned_or_default s3 a) = held s3 a"
      unfolding o3 held3 held1 using mv base m(1) by (cases "a = to") auto
    show "hacd_of s3 a = card (held s3 a)"
    proof (cases "a = to")
      case True
      have "held s to \<inter> ?D = {}" using m by (auto simp: held_def)
      then have "card (held s to \<union> ?D) = card (held s to) + card ?D"
        using fin [of to] a True by (intro card_Un_disjoint) auto
      with True a base(2) show ?thesis by (simp add: h(2) held3 held1 len)
    next
      case False
      have "card (held s fr - ?D) = card (held s fr) - card ?D" by (rule card_Diff_subset) (use D in auto)
      with False base show ?thesis by (simp add: h(2) held3 held1 len)
    qed
  qed
qed

text \<open>C10: A successful transfer of a list of diamonds, on a node that keeps owner lists, moves
  exactly the named diamonds: each of them was a normal diamond of the sender and is now the
  recipient's, no other diamond changes. And it preserves the agreement of the three records of
  ownership: for every address but the blackhole, the packed owner list holds (without
  duplicates) exactly the names whose stored owner is that address, and the diamond count of the
  balance is their number.\<close>
theorem diamonds_transfer_consistent:
  assumes "hacd_ok s" "env_diamond_form e" "do_diamonds_transfer e l fr to s = (Inr u, s')"
  shows "hacd_ok s' \<and> fr \<noteq> to \<and> fr \<noteq> ADDRESS_ZERO \<and> set (lists l) \<subseteq> held s fr \<and>
    (\<forall>n. n \<in> set (lists l) \<longrightarrow> (\<exists>x. diamonds s n = Some x \<and> status x = DIAMOND_STATUS_NORMAL)) \<and>
    diamonds s' = (\<lambda>n. if n \<in> set (lists l) then map_option (\<lambda>x. x\<lparr>dia_address := to\<rparr>) (diamonds s n) else diamonds s n)"
proof -
  obtain n s1 s2 n' where n: "nlist_check 200 l = Inr n" and s1: "move_diamonds fr to (lists l) s = (Inr (), s1)"
    and s2: "diamond_owned_move fr to l s1 = (Inr (), s2)" and n': "uint_from 3 n = Inr n'"
    and s3: "hacd_transfer fr to n' s2 = (Inr u, s')"
    using assms(2,3) by (auto simp: do_diamonds_transfer_def bindS_eq_Inr)
  from nlist_check_ok [OF n] n' have l: "nlist_ok 1 200 l" and len: "n' = length (lists l)"
    by (auto simp: uint_from_def split: if_splits)
  have L: "lists l \<noteq> []" "distinct (lists l)" using l by (auto simp: nlist_ok_def)
  note core = diamonds_transfer_core [OF assms(1) l s1 s2 s3 [unfolded len]]
  note mv = move_diamonds_ok [OF L(2) s1]
  have "diamond_owneds s1 = diamond_owneds s" "diamond_owneds s1 fr \<noteq> None"
    using mv s2 by (auto simp: diamond_owned_move_def split: if_splits option.splits)
  then have "fr \<noteq> ADDRESS_ZERO" using assms(1) by (auto simp: hacd_ok_def)
  moreover have "diamonds s' = diamonds s1"
    using hacd_transfer_frame [OF s3] s2
    by (auto simp: diamond_owned_move_def diamond_owned_put_def bindS_liftR split: if_splits option.splits sum.splits)
  ultimately show ?thesis using core mv L(1) by (auto simp: held_def)
qed

section \<open>A sample\<close>

definition name1 :: diamond_name where "name1 = [87, 84, 89, 85, 73, 65]"
definition name2 :: diamond_name where "name2 = [72, 88, 86, 77, 69, 75]"

definition dia_state :: core_state where
  "dia_state = sample_state\<lparr>diamonds := (\<lambda>n. if n = name1 \<or> n = name2
       then Some \<lparr>status = 1, dia_address = addr_a, prev_engraved_height = 0, inscripts = []\<rparr> else None),
     diamond_owneds := [addr_a \<mapsto> name1 @ name2]\<rparr>"

lemma names_valid: "name_is_valid name1" "name_is_valid name2" "name1 \<noteq> name2"
  by (simp_all add: name1_def name2_def name_is_valid_def DIAMOND_NAME_VALID_CHARS_def)

lemma chunks_names: "chunks6 (name1 @ name2) = [name1, name2]" "length (name1 @ name2) = 12"
  by (simp_all add: name1_def name2_def)

lemma dia_state_ok: "hacd_ok dia_state"
proof -
  have h: "held dia_state a = (if a = addr_a then {name1, name2} else {})" for a
    by (auto simp: held_def dia_state_def)
  have o: "diamond_owned_or_default dia_state a = (if a = addr_a then name1 @ name2 else [])" for a
    by (simp add: diamond_owned_or_default_def dia_state_def)
  have c: "hacd_of dia_state a = (if a = addr_a then 2 else 0)" for a
    by (simp add: hacd_of_def dia_state_def sample_state_def balance_or_default_def)
  have "ledger_ok dia_state" using sample_ok by (simp add: ledger_ok_def dia_state_def)
  moreover have "owned_ok (name1 @ name2)" using names_valid by (simp add: owned_ok_def chunks_names W4_MAX_def del: length_append)
  ultimately show ?thesis using names_valid(3) by (simp add: hacd_ok_def h o c owned_set_def chunks_names) (simp add: dia_state_def not_sym [OF addr_facts(3)])
qed

definition dia_list :: name_list where "dia_list = \<lparr>count_of = 1, lists = [name1]\<rparr>"

lemma dia_sample: "fst (do_diamonds_transfer sample_env dia_list addr_a addr_b dia_state) = Inr ()"
proof -
  have l: "nlist_ok 1 200 dia_list" using names_valid by (simp add: nlist_ok_def dia_list_def combi_ok_def)
  have o: "owned_ok (name1 @ name2)" using names_valid by (simp add: owned_ok_def chunks_names W4_MAX_def del: length_append)
  obtain f n where d: "owned_drop (name1 @ name2) dia_list = Inr (n, f)"
    using owned_drop_spec [OF o l] by (cases "owned_drop (name1 @ name2) dia_list") (auto simp: dia_list_def owned_set_def chunks_names)
  have p: "owned_push [] dia_list = Inr name1"
    by (simp add: owned_push_def dia_list_def owned_push_one_def contains_diamond_def W4_MAX_def name1_def)
  have ld: "lists dia_list = [name1]" by (simp add: dia_list_def)
  have c: "nlist_check 200 dia_list = Inr 1" using names_valid by (simp add: nlist_check_def dia_list_def)
  show ?thesis
    by (simp add: do_diamonds_transfer_def check_transfer_addr_online_open_def sample_env_def MAINNET_CHAIN_ID_def is_pqckey_def
      is_hybrid_def is_online_upgrade_open_def ONLINE_OPEN_HEIGHT_def PQCKEY_def HYBRID_def c bindS_def
      hacd_move_one_diamond_def check_diamond_status_def DIAMOND_STATUS_NORMAL_def dia_state_def sample_state_def
      diamond_owned_move_def diamond_owned_put_def d p diamond_owned_or_default_def uint_from_def
      hacd_transfer_def hacd_sub_def hacd_add_def balance_or_default_def to_diamond_def from_diamond_def uint_sub_def
      fold64_from_def fold64_checked_def fold64_MAX_eq expectR_def balance_put_def blackhole_engulf_def BLACKHOLE_ADDR_def
      uint_from_usize_def balance_new_def Let_def ld uint_MAX_def)
qed

theorem diamonds_transfer_consistent_witness:
  "hacd_ok (snd (do_diamonds_transfer sample_env dia_list addr_a addr_b dia_state)) \<and>
   map_option dia_address (diamonds (snd (do_diamonds_transfer sample_env dia_list addr_a addr_b dia_state)) name1) = Some addr_b"
proof -
  obtain u s' where op: "do_diamonds_transfer sample_env dia_list addr_a addr_b dia_state = (Inr u, s')"
    using dia_sample by (cases "do_diamonds_transfer sample_env dia_list addr_a addr_b dia_state") auto
  have "env_diamond_form sample_env" by (simp add: sample_env_def)
  from diamonds_transfer_consistent [OF dia_state_ok this op] op show ?thesis by (simp add: dia_list_def dia_state_def)
qed

end
