(* ===== verification/Reward.thy ===== *)
theory Reward
  imports AmountText Difficulty
begin

text \<open>
  \<^verbatim>\<open>mint/src/genesis/reward.rs\<close>, the currency release schedule, and
  \<^verbatim>\<open>mint/src/genesis/channel.rs\<close>, the compound interest of payment channels.
\<close>

section \<open>Block reward\<close>

definition BLOCK_REWARD_SEC_TWO :: nat where "BLOCK_REWARD_SEC_TWO = 66"
definition BLOCK_REWARD_STEP_BLOCK :: u64 where "BLOCK_REWARD_STEP_BLOCK = 100000"

definition BLOCK_REWARD_DEF_LIST :: "u8 list" where
  "BLOCK_REWARD_DEF_LIST = [1, 1, 2, 3, 5, 8] @ replicate 10 8 @ replicate 10 5 @ replicate 10 3 @ replicate 10 2
     @ replicate 10 1 @ replicate 10 1"

definition block_reward_number :: "u64 \<Rightarrow> u8" where
  "block_reward_number block_height =
     (let curstp = block_height div BLOCK_REWARD_STEP_BLOCK in
      if curstp \<ge> word_of_nat BLOCK_REWARD_SEC_TWO then 1 else BLOCK_REWARD_DEF_LIST ! unat curstp)"

definition block_reward :: "u64 \<Rightarrow> amount" where
  "block_reward block_height = amount_small_mei (block_reward_number block_height)"

text \<open>The loop of \<open>cumulative_block_reward\<close>: the count of coins, the blocks left, and
  whether the height lies in the list.\<close>

fun cumulative_loop :: "u8 list \<Rightarrow> u64 \<Rightarrow> u64 \<Rightarrow> u64 \<times> u64 \<times> bool" where
  "cumulative_loop [] cbhei ttcoin = (ttcoin, cbhei, False)"
| "cumulative_loop (v # vs) cbhei ttcoin =
     (if cbhei < BLOCK_REWARD_STEP_BLOCK then (ttcoin + cbhei * ucast v, cbhei, True)
      else cumulative_loop vs (cbhei - BLOCK_REWARD_STEP_BLOCK) (ttcoin + BLOCK_REWARD_STEP_BLOCK * ucast v))"

definition cumulative_block_reward :: "u64 \<Rightarrow> u64" where
  "cumulative_block_reward block_height =
     (let (ttcoin, cbhei, in_def_list) = cumulative_loop BLOCK_REWARD_DEF_LIST (block_height + 1) 0;
          ttcoin = (if \<not> in_def_list then ttcoin + cbhei else ttcoin)
      in ttcoin - 1)"

section \<open>Channel interest\<close>

fun interest_loop :: "nat \<Rightarrow> u64 \<Rightarrow> nat \<Rightarrow> nat" where
  "interest_loop 0 wfzn coinnum = coinnum"
| "interest_loop (Suc n) wfzn coinnum = interest_loop n wfzn (coinnum * unat (10000 + wfzn) div 10000)"

function trim_unit_loop :: "nat \<Rightarrow> nat \<Rightarrow> nat \<times> nat" where
  "trim_unit_loop newunit coinnum =
     (if newunit \<ge> 255 \<or> coinnum mod 10 \<noteq> 0 then (newunit, coinnum)
      else trim_unit_loop (newunit + 1) (coinnum div 10))"
  by pat_completeness auto
termination by (relation "measure (\<lambda>(u, _). 255 - u)") auto

definition calculate_interest :: "amount \<Rightarrow> amount \<Rightarrow> u64 \<Rightarrow> u64 \<Rightarrow> amount ret" where
  "calculate_interest uamt bamt caclloop wfzn =
     (let newunit = int (unit bamt) - 8 in
      if newunit < 0 then Inr uamt
      else let coinb = be_nat (byte bamt);
               coinnum = interest_loop (unat caclloop) wfzn (coinb * 100000000);
               (newunit, coinnum) = trim_unit_loop (nat newunit) coinnum in
        bindR (from_unit_byte newunit (to_bytes_be coinnum)) (\<lambda>realbest.
        bindR (sub_mode_u64 realbest bamt) (\<lambda>realbest.
        add_mode_u64 realbest uamt)))"

text \<open>The interest attribution types of \<^verbatim>\<open>field/src/component/channel.rs\<close>.\<close>

definition CHANNEL_INTEREST_ATTRIBUTION_TYPE_DEFAULT :: u8 where "CHANNEL_INTEREST_ATTRIBUTION_TYPE_DEFAULT = 0"
definition CHANNEL_INTEREST_ATTRIBUTION_TYPE_ALL_TO_LEFT :: u8 where "CHANNEL_INTEREST_ATTRIBUTION_TYPE_ALL_TO_LEFT = 1"
definition CHANNEL_INTEREST_ATTRIBUTION_TYPE_ALL_TO_RIGHT :: u8 where "CHANNEL_INTEREST_ATTRIBUTION_TYPE_ALL_TO_RIGHT = 2"

definition both_interest :: "u8 \<Rightarrow> amount \<Rightarrow> amount \<Rightarrow> u64 \<Rightarrow> u64 \<Rightarrow> (amount \<times> amount) ret" where
  "both_interest distribute_type amtl amtr caclloop wfzn =
     (if CHANNEL_INTEREST_ATTRIBUTION_TYPE_DEFAULT = distribute_type then
        bindR (calculate_interest amtl amtl caclloop wfzn) (\<lambda>amt1.
        bindR (calculate_interest amtr amtr caclloop wfzn) (\<lambda>amt2. Inr (amt1, amt2)))
      else bindR (add_mode_u64 amtl amtr) (\<lambda>ttamt.
        bindR (if CHANNEL_INTEREST_ATTRIBUTION_TYPE_ALL_TO_LEFT = distribute_type
               then calculate_interest amtl ttamt caclloop wfzn else Inr amtl) (\<lambda>l.
        bindR (if CHANNEL_INTEREST_ATTRIBUTION_TYPE_ALL_TO_RIGHT = distribute_type
               then calculate_interest amtr ttamt caclloop wfzn else Inr amtr) (\<lambda>r.
        Inr (l, r)))))"

definition calculate_interest_of_height :: "u64 \<Rightarrow> u64 \<Rightarrow> u8 \<Rightarrow> amount \<Rightarrow> amount \<Rightarrow> (amount \<times> amount) ret" where
  "calculate_interest_of_height curblkhei chanopenblkhei distribute_type amtl amtr =
     (if curblkhei < chanopenblkhei
      then Inl (Fault ''current block height cannot be less than channel open height'')
      else let caclloop = (curblkhei - chanopenblkhei) div 10000; wfzn = 10 in
        if caclloop = 0 then Inr (amtl, amtr)
        else both_interest distribute_type amtl amtr caclloop wfzn)"

definition calculate_interest_of_height_old :: "u64 \<Rightarrow> u64 \<Rightarrow> u8 \<Rightarrow> amount \<Rightarrow> amount \<Rightarrow> (amount \<times> amount) ret" where
  "calculate_interest_of_height_old curblkhei chanopenblkhei distribute_type amtl amtr =
     (if curblkhei < chanopenblkhei
      then Inl (Fault ''current block height cannot be less than channel open height'')
      else let (caclloop, wfzn) = (if chanopenblkhei > 200000 then ((curblkhei - chanopenblkhei) div 10000, 10)
                                   else ((curblkhei - chanopenblkhei) div 2500, 1)) in
        if caclloop = 0 then Inr (amtl, amtr)
        else both_interest distribute_type amtl amtr caclloop wfzn)"

section \<open>The reward schedule adds up\<close>

definition reward_at :: "u8 list \<Rightarrow> nat \<Rightarrow> nat" where
  "reward_at vs i = (if i div 100000 < length vs then unat (vs ! (i div 100000)) else 1)"

lemma reward_at_Cons:
  "reward_at (v # vs) i = (if i < 100000 then unat v else reward_at vs (i - 100000))"
proof (cases "i < 100000")
  case True
  then show ?thesis by (simp add: reward_at_def)
next
  case False
  then have "i div 100000 = Suc ((i - 100000) div 100000)" by (simp add: le_div_geq)
  then show ?thesis using False by (simp add: reward_at_def)
qed

lemma sum_reward_Cons:
  "(\<Sum>i<n. reward_at (v # vs) i) =
     (if n < 100000 then n * unat v else 100000 * unat v + (\<Sum>i<n - 100000. reward_at vs i))"
proof (cases "n < 100000")
  case True
  then have "(\<Sum>i<n. reward_at (v # vs) i) = (\<Sum>i<n. unat v)" by (intro sum.cong) (auto simp: reward_at_Cons)
  with True show ?thesis by simp
next
  case False
  then have "{..<n} = {..<100000} \<union> (\<lambda>i. i + 100000) ` {..<n - 100000}"
    by (auto simp: image_iff) (metis add.commute le_add_diff_inverse lessThan_iff less_diff_conv linorder_not_less)
  moreover have "(\<Sum>i<100000. reward_at (v # vs) i) = 100000 * unat v"
    by (simp add: reward_at_Cons)
  moreover have "(\<Sum>i\<in>(\<lambda>i. i + 100000) ` {..<n - 100000}. reward_at (v # vs) i) = (\<Sum>i<n - 100000. reward_at vs i)"
    by (subst sum.reindex) (simp_all add: reward_at_Cons inj_on_def)
  moreover have "{..<100000} \<inter> (\<lambda>i. i + 100000) ` {..<n - 100000} = ({} :: nat set)" by auto
  ultimately show ?thesis using False by (simp add: sum.union_disjoint del: sum.lessThan_Suc)
qed

lemma sum_reward_Nil: "(\<Sum>i<n. reward_at [] i) = n"
  by (simp add: reward_at_def)

lemma cumulative_loop_sum:
  assumes "cumulative_loop vs cb tt = (tt', cb', f)"
  shows "(if f then tt' else tt' + cb') = tt + word_of_nat (\<Sum>i<unat cb. reward_at vs i)"
  using assms
proof (induction vs arbitrary: cb tt)
  case Nil
  then show ?case by (simp add: sum_reward_Nil)
next
  case (Cons v vs)
  have uc: "word_of_nat (unat v) = (ucast v :: u64)" by (simp add: unsigned_eq_0_iff)
  show ?case
  proof (cases "cb < BLOCK_REWARD_STEP_BLOCK")
    case True
    then have "unat cb < 100000" by (simp add: BLOCK_REWARD_STEP_BLOCK_def word_less_nat_alt)
    with True Cons.prems show ?thesis by (auto simp: sum_reward_Cons uc)
  next
    case False
    then have ge: "(100000 :: u64) \<le> cb" by (simp add: BLOCK_REWARD_STEP_BLOCK_def)
    then have n: "\<not> unat cb < 100000" "unat (cb - 100000) = unat cb - 100000"
      by (simp_all add: word_le_nat_alt unat_sub)
    from Cons.IH [of "cb - BLOCK_REWARD_STEP_BLOCK"] Cons.prems False n show ?thesis
      by (simp add: sum_reward_Cons uc BLOCK_REWARD_STEP_BLOCK_def)
  qed
qed

lemma sum_reward_bound: "(\<Sum>i<n. reward_at vs i) \<le> 100000 * (\<Sum>v\<leftarrow>vs. unat v) + n"
proof (induction vs arbitrary: n)
  case Nil
  then show ?case by (simp add: sum_reward_Nil)
next
  case (Cons v vs)
  have "n * unat v \<le> 100000 * unat v" if "n < 100000" using that by (intro mult_le_mono1) simp
  then have "n * unat v \<le> 100000 * unat v + 100000 * sum_list (map unat vs) + n" if "n < 100000"
    using that by (metis add.assoc trans_le_add1)
  with Cons.IH [of "n - 100000"] show ?case by (cases "n < 100000") (simp_all add: sum_reward_Cons)
qed

lemma reward_at_def_list: "i < 2 ^ 64 \<Longrightarrow> reward_at BLOCK_REWARD_DEF_LIST i = unat (block_reward_number (word_of_nat i))"
proof -
  assume i: "i < 2 ^ 64"
  define s :: u64 where "s = word_of_nat i div BLOCK_REWARD_STEP_BLOCK"
  have u: "unat s = i div 100000" using i by (simp add: s_def BLOCK_REWARD_STEP_BLOCK_def unat_div unat_of_nat)
  have len: "length BLOCK_REWARD_DEF_LIST = 66" by (simp add: BLOCK_REWARD_DEF_LIST_def)
  have "s \<ge> word_of_nat BLOCK_REWARD_SEC_TWO \<longleftrightarrow> \<not> i div 100000 < 66"
    unfolding word_le_nat_alt u by (auto simp: BLOCK_REWARD_SEC_TWO_def)
  then show ?thesis by (simp add: reward_at_def block_reward_number_def Let_def s_def [symmetric] u len)
qed

text \<open>The reported total issue is the sum of the rewards of all blocks up to the height,
  less the genesis coin: inside the 66-year list, at its border and in the perpetual tail.\<close>
theorem cumulative_reward_is_sum:
  assumes "unat h < 2 ^ 63"
  shows "unat (cumulative_block_reward h) + 1 = (\<Sum>i\<le>unat h. unat (block_reward_number (word_of_nat i)))"
proof -
  let ?S = "\<lambda>n. \<Sum>i<n. reward_at BLOCK_REWARD_DEF_LIST i"
  obtain tt cb f where l: "cumulative_loop BLOCK_REWARD_DEF_LIST (h + 1) 0 = (tt, cb, f)" by (metis prod_cases3)
  have h1: "unat (h + 1) = Suc (unat h)" using assms by (simp add: unat_word_ariths)
  define t where "t = ?S (Suc (unat h))"
  have sum: "cumulative_block_reward h = word_of_nat t - 1"
    using cumulative_loop_sum [OF l] l unfolding h1 t_def [symmetric] by (auto simp: cumulative_block_reward_def)
  have "(\<Sum>v\<leftarrow>BLOCK_REWARD_DEF_LIST. unat v) = 220" by (simp add: BLOCK_REWARD_DEF_LIST_def sum_list_replicate)
  then have up: "t \<le> 100000 * 220 + Suc (unat h)"
    using sum_reward_bound [where vs = BLOCK_REWARD_DEF_LIST and n = "Suc (unat h)"] unfolding t_def by (simp only:)
  have "reward_at BLOCK_REWARD_DEF_LIST 0 = 1" by (simp add: reward_at_def BLOCK_REWARD_DEF_LIST_def)
  moreover have "reward_at BLOCK_REWARD_DEF_LIST 0 \<le> t" unfolding t_def by (rule member_le_sum) simp_all
  ultimately have lo: "1 \<le> t" by linarith
  have "word_of_nat t - 1 = (word_of_nat (t - 1) :: u64)" using lo by (simp only: of_nat_diff of_nat_1)
  moreover have "t - 1 < 2 ^ 64" using up assms by simp
  ultimately have "unat (cumulative_block_reward h) + 1 = t" using lo unfolding sum by (simp only: unat_of_nat) simp
  then have "unat (cumulative_block_reward h) + 1 = ?S (Suc (unat h))" unfolding t_def .
  also have "\<dots> = (\<Sum>i\<le>unat h. unat (block_reward_number (word_of_nat i)))"
    unfolding lessThan_Suc_atMost using assms by (intro sum.cong) (auto simp: reward_at_def_list)
  finally show ?thesis .
qed

theorem cumulative_reward_is_sum_witness:
  "unat (cumulative_block_reward 6600999) + 1 = (\<Sum>i\<le>6600999. unat (block_reward_number (word_of_nat i)))"
  using cumulative_reward_is_sum [of 6600999] by simp

section \<open>Interest is exact and bounded\<close>

declare trim_unit_loop.simps [simp del]

lemma trim_unit_loop_value:
  "u \<le> 255 \<Longrightarrow> trim_unit_loop u c = (u', c') \<Longrightarrow> u' \<le> 255 \<and> c' * 10 ^ u' = c * 10 ^ u"
proof (induction u c rule: trim_unit_loop.induct)
  case (1 u c)
  show ?case
  proof (cases "u \<ge> 255 \<or> c mod 10 \<noteq> 0")
    case True
    with "1.prems" show ?thesis by (subst (asm) trim_unit_loop.simps) auto
  next
    case False
    with "1.prems" have "trim_unit_loop (u + 1) (c div 10) = (u', c')"
      by (subst (asm) trim_unit_loop.simps) auto
    with "1.IH" [OF False] False have "u' \<le> 255 \<and> c' * 10 ^ u' = c div 10 * 10 ^ (u + 1)" by simp
    moreover have "c div 10 * 10 = c" using False by auto
    ultimately show ?thesis by simp
  qed
qed

lemma interest_loop_bounds:
  assumes "unat w + 10000 < 2 ^ 64"
  shows "c \<le> interest_loop n w c \<and> interest_loop n w c * 10000 ^ n \<le> c * (10000 + unat w) ^ n"
proof (induction n arbitrary: c)
  case 0
  then show ?case by simp
next
  case (Suc n)
  let ?k = "10000 + unat w"
  have k: "unat (10000 + w) = ?k" using assms by (simp add: unat_word_ariths)
  let ?c = "c * ?k div 10000"
  have "c * 10000 \<le> c * ?k" by (rule mult_le_mono2) simp
  then have lo: "c \<le> ?c" by (simp add: less_eq_div_iff_mult_less_eq)
  have "interest_loop n w ?c * 10000 ^ n * 10000 \<le> ?c * ?k ^ n * 10000" using Suc.IH [of ?c] by simp
  also have "\<dots> = ?c * 10000 * ?k ^ n" by simp
  also have "\<dots> \<le> c * ?k * ?k ^ n" by (intro mult_le_mono1) simp
  finally have "interest_loop n w ?c * 10000 ^ Suc n \<le> c * ?k ^ Suc n" by (simp only: power_Suc ac_simps)
  with lo Suc.IH [of ?c] show ?case by (simp add: k)
qed

lemma from_unit_byte_value:
  assumes "u \<le> 255" "from_unit_byte u bs = Inr a"
  shows "amt_unsigned a \<and> uval a = be_nat bs * 10 ^ u"
proof (cases "be_nat bs = 0")
  case True
  then have "a = amount_zero"
    using assms(2) by (auto simp: from_unit_byte_def be_nat_eq_0_iff [symmetric] split: if_splits)
  with True show ?thesis by simp
next
  case False
  then have "a = \<lparr>unit = u, dist = int (length (drop_left_zero bs)), byte = drop_left_zero bs\<rparr>"
    "length (drop_left_zero bs) \<le> 127"
    using assms(2) drop_left_zero_empty_iff [of bs]
    by (auto simp: from_unit_byte_def Let_def be_nat_eq_0_iff [symmetric] split: if_splits)
  with assms(1) show ?thesis by (simp add: amt_unsigned_def amt_wf_def tail_len_def uval_def)
qed

text \<open>The lock grown by the compound factor, in the code's fixed point of eight decimals.\<close>

definition grown :: "amount \<Rightarrow> nat \<Rightarrow> u64 \<Rightarrow> nat" where
  "grown b n w = interest_loop n w (be_nat (byte b) * 100000000) * 10 ^ (unit b - 8)"

lemma grown_bounds:
  assumes "unat w + 10000 < 2 ^ 64" "8 \<le> unit b"
  shows "uval b \<le> grown b n w" "grown b n w * 10000 ^ n \<le> uval b * (10000 + unat w) ^ n"
proof -
  have u: "uval b = be_nat (byte b) * 100000000 * 10 ^ (unit b - 8)"
  proof -
    have "(10::nat) ^ unit b = 10 ^ 8 * 10 ^ (unit b - 8)"
      using assms(2) by (simp only: power_add [symmetric] le_add_diff_inverse)
    then show ?thesis by (simp add: uval_def)
  qed
  note ib = interest_loop_bounds [OF assms(1), of "be_nat (byte b) * 100000000" n]
  show "uval b \<le> grown b n w" using ib by (simp add: u grown_def)
  have "grown b n w * 10000 ^ n = interest_loop n w (be_nat (byte b) * 100000000) * 10000 ^ n * 10 ^ (unit b - 8)"
    by (simp add: grown_def)
  also have "\<dots> \<le> be_nat (byte b) * 100000000 * (10000 + unat w) ^ n * 10 ^ (unit b - 8)"
    using ib by (intro mult_le_mono1) simp
  finally show "grown b n w * 10000 ^ n \<le> uval b * (10000 + unat w) ^ n" by (simp add: u ac_simps)
qed

lemma calculate_interest_value:
  assumes a: "amt_unsigned u" and b: "amt_unsigned b" and c: "calculate_interest u b n w = Inr c"
  shows "amt_unsigned c \<and> (if unit b < 8 then uval c = uval u else uval c + uval b = uval u + grown b (unat n) w)"
proof (cases "unit b < 8")
  case True
  with a c show ?thesis by (simp add: calculate_interest_def)
next
  case False
  have ub: "unit b \<le> 255" using b by (simp add: amt_unsigned_def amt_wf_def)
  obtain u' c' where t: "trim_unit_loop (unit b - 8) (interest_loop (unat n) w (be_nat (byte b) * 100000000)) = (u', c')"
    by (metis surj_pair)
  have nu: "nat (int (unit b) - 8) = unit b - 8" using False by simp
  have tv: "u' \<le> 255" "c' * 10 ^ u' = grown b (unat n) w"
    using trim_unit_loop_value [OF _ t] ub by (simp_all add: grown_def)
  obtain r where r: "from_unit_byte u' (to_bytes_be c') = Inr r" and sub: "bindR (sub_mode_u64 r b) (\<lambda>r. add_mode_u64 r u) = Inr c"
    using c False by (auto simp: calculate_interest_def Let_def nu t bindR_eq_Inr)
  obtain s where s: "sub_mode_u64 r b = Inr s" and add: "add_mode_u64 s u = Inr c"
    using sub by (auto simp: bindR_eq_Inr)
  have rv: "amt_unsigned r \<and> uval r = grown b (unat n) w"
    using from_unit_byte_value [OF tv(1) r] tv(2) by (simp add: to_bytes_be_val(1))
  have sv: "amt_unsigned s \<and> uval s + uval b = uval r"
    using sub_mode_ok [of r b U64S s] rv b s by (simp add: sub_mode_u64_def U64S_def)
  have "amt_unsigned c \<and> uval c = uval s + uval u"
    using add_mode_ok [of s u U64S c] sv a add by (simp add: add_mode_u64_def U64S_def)
  with sv rv False show ?thesis by simp
qed

lemma interest_step:
  assumes "amt_unsigned u" "amt_unsigned b" "uval b = uval u + x" "calculate_interest u b n 10 = Inr c"
  shows "amt_unsigned c \<and> uval u \<le> uval c \<and> (uval c + x) * 10000 ^ unat n \<le> uval b * 10010 ^ unat n"
proof -
  note v = calculate_interest_value [OF assms(1,2,4)]
  show ?thesis
  proof (cases "unit b < 8")
    case True
    have "(10000::nat) ^ unat n \<le> 10010 ^ unat n" by (rule power_mono) simp_all
    then have "uval b * 10000 ^ unat n \<le> uval b * 10010 ^ unat n" by (rule mult_le_mono2)
    with True v assms(3) show ?thesis by simp
  next
    case False
    then have c: "uval c + x = grown b (unat n) 10" using v assms(3) by simp
    have "unat (10 :: u64) + 10000 < 2 ^ 64" by simp
    from grown_bounds [OF this, of b "unat n"] False v assms(3) c show ?thesis by (simp del: of_nat_numeral)
  qed
qed

lemma both_interest_cases:
  assumes "both_interest ty l r n w = Inr (l', r')"
  shows "calculate_interest l l n w = Inr l' \<and> calculate_interest r r n w = Inr r' \<or>
    (\<exists>t. add_mode_u64 l r = Inr t \<and>
       (l' = l \<and> r' = r \<or> calculate_interest l t n w = Inr l' \<and> r' = r \<or> calculate_interest r t n w = Inr r' \<and> l' = l))"
proof (cases "CHANNEL_INTEREST_ATTRIBUTION_TYPE_DEFAULT = ty")
  case True
  then have "both_interest ty l r n w = bindR (calculate_interest l l n w) (\<lambda>a. bindR (calculate_interest r r n w) (\<lambda>b. Inr (a, b)))"
    unfolding both_interest_def by (rule if_P)
  with assms show ?thesis by (auto simp: bindR_eq_Inr)
next
  case False
  have ne: "\<not> (CHANNEL_INTEREST_ATTRIBUTION_TYPE_ALL_TO_LEFT = ty \<and> CHANNEL_INTEREST_ATTRIBUTION_TYPE_ALL_TO_RIGHT = ty)"
    by (auto simp: CHANNEL_INTEREST_ATTRIBUTION_TYPE_ALL_TO_LEFT_def CHANNEL_INTEREST_ATTRIBUTION_TYPE_ALL_TO_RIGHT_def)
  obtain t where "add_mode_u64 l r = Inr t"
    "(if CHANNEL_INTEREST_ATTRIBUTION_TYPE_ALL_TO_LEFT = ty then calculate_interest l t n w else Inr l) = Inr l'"
    "(if CHANNEL_INTEREST_ATTRIBUTION_TYPE_ALL_TO_RIGHT = ty then calculate_interest r t n w else Inr r) = Inr r'"
    using assms False unfolding both_interest_def by (simp only: if_False bindR_eq_Inr sum.inject prod.inject) blast
  then show ?thesis using ne by (metis sum.inject(2))
qed

lemma interest_of_height_bounds:
  assumes "amt_unsigned l" "amt_unsigned r"
    and "calculate_interest_of_height cur opened ty l r = Inr (l', r')"
  shows "amt_unsigned l' \<and> amt_unsigned r' \<and> uval l \<le> uval l' \<and> uval r \<le> uval r' \<and>
    (let n = unat ((cur - opened) div 10000) in (uval l' + uval r') * 10000 ^ n \<le> (uval l + uval r) * 10010 ^ n)"
proof -
  define n where "n = (cur - opened) div 10000"
  define K M :: nat where "K = 10000 ^ unat n" and "M = 10010 ^ unat n"
  have grow: "x * K \<le> x * M" for x unfolding K_def M_def by (intro mult_le_mono2 power_mono) simp_all
  note step = interest_step [of _ _ _ n, folded K_def M_def]
  consider "l' = l" "r' = r" | "calculate_interest l l n 10 = Inr l'" "calculate_interest r r n 10 = Inr r'"
    | t where "add_mode_u64 l r = Inr t" "calculate_interest l t n 10 = Inr l'" "r' = r"
    | t where "add_mode_u64 l r = Inr t" "calculate_interest r t n 10 = Inr r'" "l' = l"
  proof -
    have "l' = l \<and> r' = r \<or> both_interest ty l r n 10 = Inr (l', r')"
      using assms(3) unfolding calculate_interest_of_height_def Let_def n_def [symmetric]
      by (auto split: if_splits)
    then show ?thesis using both_interest_cases [of ty l r n 10 l' r'] that by blast
  qed
  then have "amt_unsigned l' \<and> amt_unsigned r' \<and> uval l \<le> uval l' \<and> uval r \<le> uval r' \<and> (uval l' + uval r') * K \<le> (uval l + uval r) * M"
  proof cases
    case 1
    with assms grow show ?thesis by simp
  next
    case 2
    with step [OF assms(1) assms(1), of 0 l'] step [OF assms(2) assms(2), of 0 r']
    show ?thesis by (simp add: add_mult_distrib)
  next
    case (3 t)
    have t: "amt_unsigned t" "uval t = uval l + uval r"
      using add_mode_ok [OF assms(1,2), of U64S t] 3(1) by (simp_all add: add_mode_u64_def U64S_def)
    from step [OF assms(1) t 3(2)] t 3(3) assms(2) show ?thesis by simp
  next
    case (4 t)
    have t: "amt_unsigned t" "uval t = uval r + uval l"
      using add_mode_ok [OF assms(1,2), of U64S t] 4(1) by (simp_all add: add_mode_u64_def U64S_def)
    from step [OF assms(2) t 4(2)] t 4(3) assms(1) show ?thesis by (simp add: add.commute)
  qed
  then show ?thesis by (simp add: n_def [symmetric] K_def M_def Let_def)
qed

lemma from_unit_byte_canonical: "u \<le> 255 \<Longrightarrow> from_unit_byte u bs = Inr a \<Longrightarrow> amt_canonical a"
  using from_unit_byte_value [of u bs a] drop_left_zero_head [of bs]
  by (auto simp: from_unit_byte_def Let_def amt_unsigned_def amt_canonical_def split: if_splits)

lemma calculate_interest_canonical:
  assumes "amt_unsigned u" "amt_canonical u" "amt_unsigned b" "amt_canonical b" "calculate_interest u b n w = Inr c"
  shows "amt_canonical c"
proof (cases "unit b < 8")
  case True
  with assms show ?thesis by (simp add: calculate_interest_def)
next
  case False
  obtain u' c' where t: "trim_unit_loop (nat (int (unit b) - 8)) (interest_loop (unat n) w (be_nat (byte b) * 100000000)) = (u', c')"
    by (metis surj_pair)
  have "unit b < 256" using assms(3) by (simp add: amt_unsigned_def amt_wf_def)
  then have "nat (int (unit b) - 8) \<le> 255" by linarith
  then have u': "u' \<le> 255" using trim_unit_loop_value [OF _ t] by simp
  obtain r s where r: "from_unit_byte u' (to_bytes_be c') = Inr r" and s: "sub_mode_u64 r b = Inr s" and add: "add_mode_u64 s u = Inr c"
    using assms(5) False by (auto simp: calculate_interest_def Let_def t bindR_eq_Inr)
  have rv: "amt_unsigned r" "amt_canonical r"
    using from_unit_byte_value [OF u' r] from_unit_byte_canonical [OF u' r] by auto
  have sv: "amt_unsigned s" "amt_canonical s"
    using sub_mode_ok [OF rv(1) assms(3), of U64S s] compute_mode_canonical [OF rv(1) assms(3) rv(2) assms(4), of U64S False s] s
    by (auto simp: sub_mode_u64_def U64S_def)
  show ?thesis using compute_mode_canonical [OF sv(1) assms(1) sv(2) assms(2), of U64S True c] add
    by (simp add: add_mode_u64_def U64S_def)
qed

lemma interest_of_height_canonical:
  assumes "amt_unsigned l" "amt_canonical l" "amt_unsigned r" "amt_canonical r"
    and "calculate_interest_of_height cur opened ty l r = Inr (l', r')"
  shows "amt_canonical l' \<and> amt_canonical r'"
proof -
  have t: "amt_unsigned t \<and> amt_canonical t" if "add_mode_u64 l r = Inr t" for t
    using that add_mode_ok [OF assms(1,3), of U64S t] compute_mode_canonical [OF assms(1,3,2,4), of U64S True t]
    by (simp add: add_mode_u64_def U64S_def)
  define n where "n = (cur - opened) div 10000"
  have c: "amt_canonical x"
    if "calculate_interest u b n 10 = Inr x" "u = l \<or> u = r" "b = l \<or> b = r \<or> add_mode_u64 l r = Inr b" for u b x
    using that(2,3) t assms(1-4) calculate_interest_canonical [OF _ _ _ _ that(1)] by blast
  have "l' = l \<and> r' = r \<or> both_interest ty l r n 10 = Inr (l', r')"
    using assms(5) unfolding calculate_interest_of_height_def Let_def n_def [symmetric] by (auto split: if_splits)
  then consider "l' = l" "r' = r" | "both_interest ty l r n 10 = Inr (l', r')" by blast
  then show ?thesis
  proof cases
    case 2
    consider "calculate_interest l l n 10 = Inr l'" "calculate_interest r r n 10 = Inr r'"
      | "l' = l" "r' = r" | b where "add_mode_u64 l r = Inr b" "calculate_interest l b n 10 = Inr l'" "r' = r"
      | b where "add_mode_u64 l r = Inr b" "calculate_interest r b n 10 = Inr r'" "l' = l"
      using both_interest_cases [OF 2] by blast
    then show ?thesis using assms(2,4) c by cases simp_all
  qed (use assms in simp)
qed

text \<open>Channel interest, for every attribution type, never takes from either side, and the
  total paid out lies between the total locked and its growth by 0.1 percent per 10000 blocks.\<close>
theorem channel_interest_bounded:
  assumes "amt_unsigned l" "amt_unsigned r"
    and "calculate_interest_of_height cur opened ty l r = Inr (l', r')"
  shows "amt_unsigned l' \<and> amt_unsigned r' \<and> uval l \<le> uval l' \<and> uval r \<le> uval r' \<and>
    (let n = unat ((cur - opened) div 10000) in (uval l' + uval r') * 10000 ^ n \<le> (uval l + uval r) * 10010 ^ n)"
  by (rule interest_of_height_bounds [OF assms])

lemma interest_sample:
  "calculate_interest_of_height 120000 100000 0 \<lparr>unit = 248, dist = 1, byte = [5]\<rparr> amount_zero
    = Inr (\<lparr>unit = 242, dist = 3, byte = [76, 114, 85]\<rparr>, amount_zero)"
proof -
  have t: "trim_unit_loop 240 501000500 = (242, 5010005)" by (simp add: trim_unit_loop.simps)
  have b: "to_bytes_be 5010005 = [76, 114, 85]" by (simp add: to_bytes_be_def bit_len.simps be_bytes_numeral)
  have "interest_loop (Suc (Suc 0)) 10 500000000 = 501000500" by simp
  then have l: "interest_loop 2 10 500000000 = 501000500" by (simp only: numeral_2_eq_2)
  have f: "from_unit_byte 242 [76, 114, 85] = Inr \<lparr>unit = 242, dist = 3, byte = [76, 114, 85]\<rparr>"
    by (simp add: from_unit_byte_def bytes_is_zero_def bytes_not_zero_def)
  have d: "sub_mode_u64 \<lparr>unit = 242, dist = 3, byte = [76, 114, 85]\<rparr> \<lparr>unit = 248, dist = 1, byte = [5]\<rparr>
      = Inr \<lparr>unit = 242, dist = 2, byte = [39, 21]\<rparr>"
    by (simp add: sub_mode_u64_def amount_compute_simps cong: let_weak_cong)
  have e: "add_mode_u64 \<lparr>unit = 242, dist = 2, byte = [39, 21]\<rparr> \<lparr>unit = 248, dist = 1, byte = [5]\<rparr>
      = Inr \<lparr>unit = 242, dist = 3, byte = [76, 114, 85]\<rparr>"
    by (simp add: add_mode_u64_def amount_compute_simps cong: let_weak_cong)
  have "calculate_interest \<lparr>unit = 248, dist = 1, byte = [5]\<rparr> \<lparr>unit = 248, dist = 1, byte = [5]\<rparr> 2 10
      = Inr \<lparr>unit = 242, dist = 3, byte = [76, 114, 85]\<rparr>"
    by (simp add: calculate_interest_def be_nat_Cons l t b f d e)
  moreover have "calculate_interest amount_zero amount_zero 2 10 = Inr amount_zero"
    by (simp add: calculate_interest_def)
  ultimately show ?thesis
    by (simp add: calculate_interest_of_height_def both_interest_def CHANNEL_INTEREST_ATTRIBUTION_TYPE_DEFAULT_def)
qed

theorem channel_interest_bounded_witness:
  "calculate_interest_of_height 120000 100000 0 \<lparr>unit = 248, dist = 1, byte = [5]\<rparr> amount_zero
    = Inr (\<lparr>unit = 242, dist = 3, byte = [76, 114, 85]\<rparr>, amount_zero) \<and>
   uval \<lparr>unit = 248, dist = 1, byte = [5]\<rparr> \<le> uval \<lparr>unit = 242, dist = 3, byte = [76, 114, 85]\<rparr> \<and>
   uval \<lparr>unit = 242, dist = 3, byte = [76, 114, 85]\<rparr> * 10000 ^ 2 \<le> uval \<lparr>unit = 248, dist = 1, byte = [5]\<rparr> * 10010 ^ 2"
proof -
  have "amt_unsigned \<lparr>unit = 248, dist = 1, byte = [5]\<rparr>" by (simp add: amt_unsigned_def amt_wf_def tail_len_def)
  from channel_interest_bounded [OF this amt_unsigned_zero(1) interest_sample] interest_sample show ?thesis
    by (simp add: Let_def)
qed

end
