(* ===== verification/Channel.thy ===== *)
theory Channel
  imports Reward Transfers
begin

text \<open>
  Payment channels: \<^verbatim>\<open>field/src/component/channel.rs\<close> (the stored record),
  \<^verbatim>\<open>mint/src/action/channel.rs\<close> (open and close) and
  \<^verbatim>\<open>mint/src/oprate/channel.rs\<close> (the settlement). \<open>CoreState\<close> and \<open>MintState\<close> are two
  views of one store under disjoint key tags; here they are two components of a record. The
  check of a signature is a parameter.
\<close>

type_synonym channel_id = "u8 list"

definition CHANNEL_STATUS_OPENING :: nat where "CHANNEL_STATUS_OPENING = 0"
definition CHANNEL_STATUS_CHALLENGING :: nat where "CHANNEL_STATUS_CHALLENGING = 1"
definition CHANNEL_STATUS_AGREEMENT_CLOSED :: nat where "CHANNEL_STATUS_AGREEMENT_CLOSED = 2"
definition CHANNEL_STATUS_FINAL_ARBITRATION_CLOSED :: nat where "CHANNEL_STATUS_FINAL_ARBITRATION_CLOSED = 3"

record addr_balance =
  ab_address :: address
  ab_balance :: balance

record challenge_period =
  is_have_challenge_log :: bool
  challenge_launch_height :: nat
  assert_bill_auto_number :: nat
  assert_address_is_left_or_right :: bool
  assert_bill_amount :: amount
  assert_bill_satoshi :: "nat option"

record channel_sto =
  ch_status :: nat
  reuse_version :: nat
  open_height :: nat
  close_height :: nat
  arbitration_lock_block :: nat
  interest_attribution :: u8
  left_bill :: addr_balance
  right_bill :: addr_balance
  if_challenging :: "challenge_period option"
  if_distribution :: "(balance \<times> balance) option"

definition check_channel_status :: "nat \<Rightarrow> bool \<Rightarrow> bool \<Rightarrow> unit ret" where
  "check_channel_status st chal distr =
     (if st = 0 then (if chal \<or> distr then Inl (Fault ''channel opening status cannot carry extra data'') else Inr ())
      else if st = 1 then (if \<not> chal \<or> distr then Inl (Fault ''channel challenging status data mismatch'') else Inr ())
      else if st = 2 \<or> st = 3 then (if chal \<or> \<not> distr then Inl (Fault ''channel closed status data mismatch'') else Inr ())
      else Inl (Fault ''channel status invalid''))"

record chain_state =
  core :: core_state
  channels :: "channel_id \<Rightarrow> channel_sto option"

definition on_core :: "'a op \<Rightarrow> (chain_state, 'a) st" where
  "on_core m s = (case m (core s) of (r, c) \<Rightarrow> (r, s\<lparr>core := c\<rparr>))"

definition check_valid_store_item_key :: "u8 list \<Rightarrow> nat \<Rightarrow> unit ret" where
  "check_valid_store_item_key key ksize =
     (if length key \<noteq> ksize then Inl (Fault ''check key size failed'')
      else if key ! 0 = 0 \<or> key ! (ksize - 1) = 0 then Inl (Fault ''check key format failed'')
      else Inr ())"

definition must_privakey :: "address \<Rightarrow> unit ret" where
  "must_privakey a = (if version a = PRIVAKEY then Inr () else Inl (Fault ''address is not PRIVAKEY type''))"

text \<open>The guarded balance operations of the two files, on either side of the channel.\<close>

definition hac_sub_nonzero :: "address \<Rightarrow> amount \<Rightarrow> (chain_state, unit) st" where
  "hac_sub_nonzero a v = (if \<not> amt_is_zero v then on_core (hac_sub a v) else returnS ())"

definition hac_add_positive :: "address \<Rightarrow> amount \<Rightarrow> (chain_state, unit) st" where
  "hac_add_positive a v = (if is_positive v then on_core (hac_add a v) else returnS ())"

definition sat_add_positive :: "address \<Rightarrow> fold64 \<Rightarrow> (chain_state, unit) st" where
  "sat_add_positive a f =
     (if fold64_uint f > 0 then bindS (liftS (to_satoshi f)) (\<lambda>v. bindS (on_core (sat_add a v)) (\<lambda>_. returnS ()))
      else returnS ())"

section \<open>Closing\<close>

definition distribution_balance :: "balance \<Rightarrow> balance" where
  "distribution_balance b = \<lparr>hacash = hacash b, satoshi = satoshi b, diamond = Fold64 0, assets = combi_empty\<rparr>"

text \<open>The counters of one settlement, applied once to the stored totals at the end.\<close>

definition apply_close_counts :: "nat \<Rightarrow> nat \<Rightarrow> nat \<Rightarrow> nat \<Rightarrow> total_count \<Rightarrow> total_count ret" where
  "apply_close_counts interest_add deposit_sub volume_add deposit_sat_sub tt =
     bindR (total_sub_u8 (opening_channel tt) 1) (\<lambda>a.
     bindR (total_add_u8 (channel_close_total tt) 1) (\<lambda>b.
     bindR (total_add_u8 (channel_interest_238 tt) interest_add) (\<lambda>c.
     bindR (total_sub_u12 (channel_deposit_238 tt) deposit_sub) (\<lambda>d.
     bindR (total_add_u12 (channel_closed_hac_volume_238 tt) volume_add) (\<lambda>f.
     bindR (total_sub_u8 (channel_deposit_sat tt) deposit_sat_sub) (\<lambda>g.
       Inr (tt\<lparr>opening_channel := a, channel_close_total := b, channel_interest_238 := c,
         channel_deposit_238 := d, channel_closed_hac_volume_238 := f, channel_deposit_sat := g\<rparr>)))))))"

text \<open>The HAC part: interest, the checks of the counters, the two credits. It returns the
  interest and the deposit in the counting unit.\<close>

definition close_hac :: "u64 \<Rightarrow> channel_sto \<Rightarrow> amount \<Rightarrow> amount \<Rightarrow> amount \<Rightarrow> nat \<Rightarrow> total_count \<Rightarrow> (chain_state, nat \<times> nat \<times> total_count) st" where
  "close_hac pdhei paychan left_amt right_amt ttamt ttamt_238 tc =
     (if \<not> is_positive ttamt then returnS (0, 0, tc)
      else bindS (liftS (calculate_interest_of_height pdhei (word_of_nat (open_height paychan)) (interest_attribution paychan) left_amt right_amt))
       (\<lambda>(newamt1, newamt2).
     bindS (liftS (add_mode_u64 newamt1 newamt2)) (\<lambda>ttnewhac.
     bindS (liftS (amount_lt ttnewhac ttamt)) (\<lambda>lt.
     if lt then failS (Fault ''interest calculation failed'')
     else bindS (liftS (sub_mode_u64 ttnewhac ttamt)) (\<lambda>ttiesthac.
     bindS (liftS (to_238_u64 ttiesthac)) (\<lambda>interest_add.
     bindS (liftS (total_add_u8 (channel_interest_238 tc) interest_add)) (\<lambda>c.
     bindS (liftS (total_sub_u12 (channel_deposit_238 tc) ttamt_238)) (\<lambda>d.
     bindS (liftS (total_add_u12 (channel_closed_hac_volume_238 tc) ttamt_238)) (\<lambda>f.
     bindS (hac_add_positive (ab_address (left_bill paychan)) newamt1) (\<lambda>_.
     bindS (hac_add_positive (ab_address (right_bill paychan)) newamt2) (\<lambda>_.
       returnS (interest_add, ttamt_238,
         tc\<lparr>channel_interest_238 := c, channel_deposit_238 := d, channel_closed_hac_volume_238 := f\<rparr>))))))))))))"

definition close_sat :: "channel_sto \<Rightarrow> fold64 \<Rightarrow> fold64 \<Rightarrow> nat \<Rightarrow> total_count \<Rightarrow> (chain_state, nat) st" where
  "close_sat paychan left_sat right_sat ttsat tc =
     (if ttsat = 0 then returnS 0
      else bindS (liftS (total_sub_u8 (channel_deposit_sat tc) ttsat)) (\<lambda>_.
     bindS (sat_add_positive (ab_address (left_bill paychan)) left_sat) (\<lambda>_.
     bindS (sat_add_positive (ab_address (right_bill paychan)) right_sat) (\<lambda>_. returnS ttsat))))"

definition close_channel_with_distribution ::
    "u64 \<Rightarrow> channel_id \<Rightarrow> channel_sto \<Rightarrow> balance \<Rightarrow> balance \<Rightarrow> bool \<Rightarrow> (chain_state, unit) st" where
  "close_channel_with_distribution pdhei cid paychan left_bls right_bls is_final_closed =
     (let left_amt = hacash left_bls; right_amt = hacash right_bls; left_sat = satoshi left_bls; right_sat = satoshi right_bls;
          lb = ab_balance (left_bill paychan); rb = ab_balance (right_bill paychan) in
      if ch_status paychan \<noteq> CHANNEL_STATUS_OPENING then failS (Fault ''channel is not open'')
      else if is_negative left_amt \<or> is_negative right_amt then failS (Fault ''channel distribution amount cannot be negative'')
      else bindS (liftS (add_mode_u64 (hacash lb) (hacash rb))) (\<lambda>ttamt.
      bindS (liftS (add_mode_u64 left_amt right_amt)) (\<lambda>ttdist.
      if \<not> amount_equal ttdist ttamt then failS (Fault ''HAC distribution amount must match lock-in'')
      else bindS (liftS (to_238_u64 ttamt)) (\<lambda>ttamt_238.
      bindS (liftS (fold64_add (satoshi lb) (satoshi rb))) (\<lambda>ttsat.
      bindS (liftS (fold64_add left_sat right_sat)) (\<lambda>dsat.
      if dsat \<noteq> ttsat then failS (Fault ''BTC distribution amount must match lock-in'')
      else bindS (getsS (\<lambda>s. preview_total_count (core s) (\<lambda>tt.
             bindR (total_sub_u8 (opening_channel tt) 1) (\<lambda>a.
             bindR (total_add_u8 (channel_close_total tt) 1) (\<lambda>b.
               Inr (tt\<lparr>opening_channel := a, channel_close_total := b\<rparr>)))))) (\<lambda>prev.
      bindS (liftS prev) (\<lambda>tc.
      bindS (close_hac pdhei paychan left_amt right_amt ttamt ttamt_238 tc) (\<lambda>(interest_add, deposit_sub, tc).
      bindS (close_sat paychan left_sat right_sat (fold64_uint ttsat) tc) (\<lambda>deposit_sat_sub.
      bindS (liftS (uint_from 5 (unat pdhei))) (\<lambda>ch.
      bindS (modifyS (\<lambda>s. s\<lparr>channels := (channels s)(cid \<mapsto> paychan\<lparr>
               ch_status := (if is_final_closed then CHANNEL_STATUS_FINAL_ARBITRATION_CLOSED else CHANNEL_STATUS_AGREEMENT_CLOSED),
               close_height := ch,
               if_distribution := Some (distribution_balance left_bls, distribution_balance right_bls)\<rparr>)\<rparr>)) (\<lambda>_.
        on_core (with_total_count (apply_close_counts interest_add deposit_sub deposit_sub deposit_sat_sub))))))))))))))"

definition close_channel_default :: "u64 \<Rightarrow> channel_id \<Rightarrow> channel_sto \<Rightarrow> (chain_state, unit) st" where
  "close_channel_default pdhei cid paychan =
     close_channel_with_distribution pdhei cid paychan (ab_balance (left_bill paychan)) (ab_balance (right_bill paychan)) False"

section \<open>The actions\<close>

definition channel_id_SIZE :: nat where "channel_id_SIZE = 16"

text \<open>The lookup of an existing channel: what its reuse version becomes.\<close>

definition channel_reuse :: "address \<Rightarrow> address \<Rightarrow> channel_sto option \<Rightarrow> nat ret" where
  "channel_reuse left_addr right_addr havcha =
     (case havcha of None \<Rightarrow> uint_from 4 1
      | Some chan \<Rightarrow>
        let samebothaddr = (left_addr = ab_address (left_bill chan) \<and> right_addr = ab_address (right_bill chan)) in
        if \<not> samebothaddr \<or> ch_status chan \<noteq> CHANNEL_STATUS_AGREEMENT_CLOSED
        then Inl (Fault ''channel is opening or cannot be reused'')
        else if reuse_version chan + 1 \<ge> 2 ^ 32 then Inl (Fault ''channel reuse_version overflow'')
        else uint_from 4 (reuse_version chan + 1))"

definition new_channel :: "nat \<Rightarrow> nat \<Rightarrow> address \<Rightarrow> amount \<Rightarrow> address \<Rightarrow> amount \<Rightarrow> channel_sto" where
  "new_channel ver oh left_addr left_amt right_addr right_amt =
     \<lparr>ch_status = CHANNEL_STATUS_OPENING, reuse_version = ver, open_height = oh, close_height = 0,
      arbitration_lock_block = 5000, interest_attribution = CHANNEL_INTEREST_ATTRIBUTION_TYPE_DEFAULT,
      left_bill = \<lparr>ab_address = left_addr, ab_balance = balance_hac left_amt\<rparr>,
      right_bill = \<lparr>ab_address = right_addr, ab_balance = balance_hac right_amt\<rparr>,
      if_challenging = None, if_distribution = None\<rparr>"

definition apply_open_counts :: "nat \<Rightarrow> total_count \<Rightarrow> total_count ret" where
  "apply_open_counts lock_total_238 tt =
     bindR (total_add_u8 (opening_channel tt) 1) (\<lambda>a.
     bindR (total_add_u12 (channel_deposit_238 tt) lock_total_238) (\<lambda>b.
     bindR (total_add_u8 (channel_open_total tt) 1) (\<lambda>c.
       Inr (tt\<lparr>opening_channel := a, channel_deposit_238 := b, channel_open_total := c\<rparr>))))"

definition channel_open :: "env \<Rightarrow> channel_id \<Rightarrow> address \<Rightarrow> amount \<Rightarrow> address \<Rightarrow> amount \<Rightarrow> (chain_state, unit) st" where
  "channel_open e cid left_addr left_amt right_addr right_amt =
     bindS (liftS (must_privakey left_addr)) (\<lambda>_.
     bindS (liftS (must_privakey right_addr)) (\<lambda>_.
     bindS (liftS (check_valid_store_item_key cid channel_id_SIZE)) (\<lambda>_.
     if left_addr = right_addr then failS (Fault ''left address cannot be equal to right address'')
     else bindS (liftS (check_6_long left_amt)) (\<lambda>_.
     bindS (liftS (check_6_long right_amt)) (\<lambda>_.
     if is_negative left_amt \<or> is_negative right_amt \<or> amt_is_zero left_amt \<and> amt_is_zero right_amt
     then failS (Fault ''left or right amount must be positive, or both are empty'')
     else bindS (hac_sub_nonzero left_addr left_amt) (\<lambda>_.
     bindS (hac_sub_nonzero right_addr right_amt) (\<lambda>_.
     bindS (liftS (add_mode_u64 left_amt right_amt)) (\<lambda>lock_total.
     bindS (liftS (to_238_u64 lock_total)) (\<lambda>lock_total_238.
     bindS (getsS (\<lambda>s. channel_reuse left_addr right_addr (channels s cid))) (\<lambda>rv.
     bindS (liftS rv) (\<lambda>version.
     bindS (liftS (uint_from 5 (unat (env_height e)))) (\<lambda>oh.
     bindS (modifyS (\<lambda>s. s\<lparr>channels := (channels s)(cid \<mapsto> new_channel version oh left_addr left_amt right_addr right_amt)\<rparr>)) (\<lambda>_.
       on_core (with_total_count (apply_open_counts lock_total_238)))))))))))))))"

definition channel_close :: "env \<Rightarrow> (address \<Rightarrow> unit ret) \<Rightarrow> channel_id \<Rightarrow> (chain_state, unit) st" where
  "channel_close e check_sign cid =
     bindS (liftS (check_valid_store_item_key cid channel_id_SIZE)) (\<lambda>_.
     bindS (getsS (\<lambda>s. channels s cid)) (\<lambda>c.
       case c of None \<Rightarrow> failS (Fault ''channel not found'')
       | Some chan \<Rightarrow>
         bindS (liftS (must_privakey (ab_address (left_bill chan)))) (\<lambda>_.
         bindS (liftS (must_privakey (ab_address (right_bill chan)))) (\<lambda>_.
         bindS (liftS (check_sign (ab_address (left_bill chan)))) (\<lambda>_.
         bindS (liftS (check_sign (ab_address (right_bill chan)))) (\<lambda>_.
           close_channel_default (env_height e) cid chan))))))"

section \<open>Frames\<close>

lemma on_core_eq: "on_core m s = (r, s') \<longleftrightarrow> (\<exists>c. m (core s) = (r, c) \<and> s' = s\<lparr>core := c\<rparr>)"
  by (auto simp: on_core_def split: prod.splits)

lemma hac_add_frame:
  assumes inv: "ledger_ok s" and v: "hac_okv v" and a: "a \<noteq> ADDRESS_ZERO" and op: "hac_add a v s = (Inr r, s')"
  shows "ledger_ok s' \<and> hac_of s' = (hac_of s)(a := hac_of s a + uval v) \<and> sat_of s' = sat_of s"
proof -
  obtain n where n: "do_hac_add a v s = (Inr n, s')"
    using op a by (auto simp: hac_add_def bindS_eq_Inr blackhole_engulf_def BLACKHOLE_ADDR_def)
  have "\<exists>m. put_of s a ((balance_or_default s a)\<lparr>hacash := m\<rparr>) s'"
    using n by (auto simp: do_hac_add_def amount_op_def balance_put_def bindS_eq_Inr put_of_def)
  then have "sat_of s' x = sat_of s x" for x
    by (auto simp: sat_of_def put_of_default)
  with hac.credit_ok [OF inv v op] a show ?thesis by auto
qed

lemma sat_add_frame:
  assumes inv: "ledger_ok s" and a: "a \<noteq> ADDRESS_ZERO" and op: "sat_add a v s = (Inr r, s')"
  shows "ledger_ok s' \<and> sat_of s' = (sat_of s)(a := sat_of s a + v) \<and> hac_of s' = hac_of s"
proof -
  obtain f where "put_of s a ((balance_or_default s a)\<lparr>satoshi := f\<rparr>) s'" using sat_add_ok [OF inv op] a by auto
  then have "hac_of s' x = hac_of s x" for x by (auto simp: hac_of_def put_of_default)
  with sat.credit_ok [OF inv TrueI op] a show ?thesis by auto
qed

lemma hac_sub_ok:
  assumes inv: "ledger_ok s" and v: "hac_okv v" and op: "hac_sub a v s = (Inr r, s')"
  shows "ledger_ok s' \<and> uval v \<le> hac_of s a \<and> hac_of s' = (hac_of s)(a := hac_of s a - uval v)"
  using op hac.debit_ok [OF inv v] by (auto simp: hac_sub_def bindS_eq_Inr)

lemma counts_frame:
  assumes "with_total_count f s = (Inr u, s')"
  shows "ledger_ok s' = ledger_ok s \<and> hac_of s' = hac_of s \<and> sat_of s' = sat_of s"
  using with_total_count_state [OF assms]
  by (auto simp: ledger_ok_def hac_of_def sat_of_def balance_or_default_def fun_eq_iff)

text \<open>A credit made only when the value is positive.\<close>

lemma hac_add_positive_ok:
  assumes "ledger_ok (core s)" "hac_okv v" "a \<noteq> ADDRESS_ZERO"
    and "hac_add_positive a v s = (Inr u, s')"
  shows "ledger_ok (core s') \<and> hac_of (core s') = (hac_of (core s))(a := hac_of (core s) a + uval v) \<and>
    sat_of (core s') = sat_of (core s) \<and> channels s' = channels s"
proof (cases "is_positive v")
  case True
  then show ?thesis using assms hac_add_frame [of "core s" v a] by (auto simp: on_core_eq hac_add_positive_def)
next
  case False
  have "uval v = 0"
  proof -
    have "0 \<le> dist v" "\<not> bytes_not_zero (byte v) \<or> dist v \<le> 0"
      using False assms(2) by (auto simp: is_positive_def hac_okv_def amt_unsigned_def)
    moreover have "dist v = 0 \<longrightarrow> byte v = []" using assms(2) by (auto simp: hac_okv_def amt_unsigned_def amt_wf_def tail_len_def)
    ultimately show ?thesis using amt_is_zero_uval [of v] by (cases "dist v = 0") (auto simp: uval_def amt_is_zero_def bytes_is_zero_def)
  qed
  with False assms show ?thesis by (auto simp: hac_add_positive_def)
qed

lemma sat_add_positive_ok:
  assumes "ledger_ok (core s)" "a \<noteq> ADDRESS_ZERO"
    and "sat_add_positive a f s = (Inr u, s')"
  shows "ledger_ok (core s') \<and> sat_of (core s') = (sat_of (core s))(a := sat_of (core s) a + fold64_uint f) \<and>
    hac_of (core s') = hac_of (core s) \<and> channels s' = channels s"
  using assms sat_add_frame [of "core s" a "fold64_uint f"] by (auto simp: sat_add_positive_def on_core_eq bindS_eq_Inr split: if_splits)

section \<open>Opening locks, closing pays back\<close>

definition locked :: "channel_sto \<Rightarrow> nat" where
  "locked c = (if ch_status c = CHANNEL_STATUS_OPENING
     then uval (hacash (ab_balance (left_bill c))) + uval (hacash (ab_balance (right_bill c))) else 0)"

lemma canonical_nonneg: "amt_canonical a \<Longrightarrow> \<not> is_negative a \<Longrightarrow> hac_okv a"
  by (cases "byte a") (auto simp: hac_okv_def amt_unsigned_def amt_canonical_def is_negative_def amt_wf_def tail_len_def
      bytes_not_zero_def word_gt_0)

lemma hac_sub_nonzero_ok:
  assumes "ledger_ok (core s)" "hac_okv v" "hac_sub_nonzero a v s = (Inr u, s')"
  shows "ledger_ok (core s') \<and> uval v \<le> hac_of (core s) a \<and>
    hac_of (core s') = (hac_of (core s))(a := hac_of (core s) a - uval v) \<and> channels s' = channels s"
  using assms hac_sub_ok [of "core s" v a] by (cases "amt_is_zero v") (auto simp: hac_sub_nonzero_def on_core_eq amt_is_zero_uval)

lemma channel_reuse_ok:
  "channel_reuse l r h = Inr v \<Longrightarrow> (case h of None \<Rightarrow> v = 1
     | Some c \<Rightarrow> ch_status c = CHANNEL_STATUS_AGREEMENT_CLOSED \<and> ab_address (left_bill c) = l \<and> ab_address (right_bill c) = r \<and>
         v = reuse_version c + 1)"
  by (auto simp: channel_reuse_def uint_from_def Let_def split: option.splits if_splits)

text \<open>C13: Opening a channel locks exactly the two amounts: each party had its amount and loses it,
  nobody else's balance changes, the new channel is open and holds the sum. An identifier in use
  is taken over only from a channel of the same two parties that was closed by agreement, with
  the reuse version counted up; any other stored channel survives.\<close>
theorem channel_open_locks:
  assumes inv: "ledger_ok (core s)" and can: "amt_canonical left_amt" "amt_canonical right_amt"
    and op: "channel_open e cid left_addr left_amt right_addr right_amt s = (Inr u, s')"
  shows "ledger_ok (core s') \<and> left_addr \<noteq> right_addr \<and>
    uval left_amt \<le> hac_of (core s) left_addr \<and> uval right_amt \<le> hac_of (core s) right_addr \<and>
    hac_of (core s') = (hac_of (core s))(left_addr := hac_of (core s) left_addr - uval left_amt,
      right_addr := hac_of (core s) right_addr - uval right_amt) \<and>
    (\<exists>c. channels s' = (channels s)(cid \<mapsto> c) \<and> ch_status c = CHANNEL_STATUS_OPENING \<and>
      locked c = uval left_amt + uval right_amt \<and> 0 < locked c \<and>
      (case channels s cid of None \<Rightarrow> reuse_version c = 1
       | Some c0 \<Rightarrow> ch_status c0 = CHANNEL_STATUS_AGREEMENT_CLOSED \<and> ab_address (left_bill c0) = left_addr \<and>
           ab_address (right_bill c0) = right_addr \<and> reuse_version c = reuse_version c0 + 1))"
proof -
  obtain s1 s2 ver oh k where ne: "left_addr \<noteq> right_addr"
    and pos: "\<not> is_negative left_amt" "\<not> is_negative right_amt" "\<not> (amt_is_zero left_amt \<and> amt_is_zero right_amt)"
    and l: "hac_sub_nonzero left_addr left_amt s = (Inr (), s1)"
    and r: "hac_sub_nonzero right_addr right_amt s1 = (Inr (), s2)"
    and ver: "channel_reuse left_addr right_addr (channels s2 cid) = Inr ver"
    and tail: "on_core (with_total_count (apply_open_counts k))
      (s2\<lparr>channels := (channels s2)(cid \<mapsto> new_channel ver oh left_addr left_amt right_addr right_amt)\<rparr>) = (Inr u, s')"
    using op by (auto simp: channel_open_def bindS_eq_Inr split: if_splits)
  have ok: "hac_okv left_amt" "hac_okv right_amt" using canonical_nonneg can pos by auto
  note l1 = hac_sub_nonzero_ok [OF inv ok(1) l]
  note r1 = hac_sub_nonzero_ok [OF conjunct1 [OF l1] ok(2) r]
  let ?c = "new_channel ver oh left_addr left_amt right_addr right_amt"
  have "locked ?c = uval left_amt + uval right_amt" "ch_status ?c = CHANNEL_STATUS_OPENING" "reuse_version ?c = ver"
    by (simp_all add: locked_def new_channel_def balance_hac_def)
  moreover have "0 < uval left_amt + uval right_amt" using pos(3) by (auto simp: amt_is_zero_uval)
  moreover have "channels s' = (channels s)(cid \<mapsto> ?c)" "ledger_ok (core s') = ledger_ok (core s2)" "hac_of (core s') = hac_of (core s2)"
    using tail counts_frame l1 r1 by (auto simp: on_core_eq)
  ultimately show ?thesis using l1 r1 channel_reuse_ok [OF ver] ne by (intro conjI exI [of _ ?c]) (auto simp: fun_eq_iff split: option.splits)
qed

text \<open>What settlement pays: at least its own deposit to each side, in total at most the growth by
  0.1 percent for every 10000 blocks the channel was open.\<close>

definition payout_ok :: "u64 \<Rightarrow> channel_sto \<Rightarrow> nat \<Rightarrow> nat \<Rightarrow> bool" where
  "payout_ok pdhei c pl pr \<longleftrightarrow>
     (let l = uval (hacash (ab_balance (left_bill c))); r = uval (hacash (ab_balance (right_bill c)));
          n = unat ((pdhei - word_of_nat (open_height c)) div 10000) in
      l \<le> pl \<and> r \<le> pr \<and> (pl + pr) * 10000 ^ n \<le> (l + r) * 10010 ^ n)"

definition chan_ok :: "channel_sto \<Rightarrow> bool" where
  "chan_ok c \<longleftrightarrow> hac_okv (hacash (ab_balance (left_bill c))) \<and> hac_okv (hacash (ab_balance (right_bill c))) \<and>
     ab_address (left_bill c) \<noteq> ADDRESS_ZERO \<and> ab_address (right_bill c) \<noteq> ADDRESS_ZERO \<and>
     ab_address (left_bill c) \<noteq> ab_address (right_bill c)"

lemma close_hac_ok:
  assumes inv: "ledger_ok (core s)" and c: "chan_ok c"
    and pos: "is_positive tt"
    and op: "close_hac pdhei c (hacash (ab_balance (left_bill c))) (hacash (ab_balance (right_bill c))) tt k tc s = (Inr res, s')"
  shows "ledger_ok (core s') \<and> channels s' = channels s \<and> sat_of (core s') = sat_of (core s) \<and>
    (\<exists>pl pr. payout_ok pdhei c pl pr \<and> hac_of (core s') = (hac_of (core s))(
      ab_address (left_bill c) := hac_of (core s) (ab_address (left_bill c)) + pl,
      ab_address (right_bill c) := hac_of (core s) (ab_address (right_bill c)) + pr))"
proof -
  let ?l = "hacash (ab_balance (left_bill c))" let ?r = "hacash (ab_balance (right_bill c))"
  obtain nl nr s1 where i: "calculate_interest_of_height pdhei (word_of_nat (open_height c)) (interest_attribution c) ?l ?r = Inr (nl, nr)"
    and l: "hac_add_positive (ab_address (left_bill c)) nl s = (Inr (), s1)"
    and r: "hac_add_positive (ab_address (right_bill c)) nr s1 = (Inr (), s')"
    using op pos by (auto simp: close_hac_def bindS_eq_Inr split: prod.splits if_splits)
  have ok: "amt_unsigned ?l" "amt_canonical ?l" "amt_unsigned ?r" "amt_canonical ?r"
    using c by (auto simp: chan_ok_def hac_okv_def)
  have n: "hac_okv nl" "hac_okv nr" "payout_ok pdhei c (uval nl) (uval nr)"
    using interest_of_height_bounds [OF ok(1,3) i] interest_of_height_canonical [OF ok i]
    by (auto simp: hac_okv_def payout_ok_def Let_def)
  have a: "ab_address (left_bill c) \<noteq> ADDRESS_ZERO" "ab_address (right_bill c) \<noteq> ADDRESS_ZERO"
    "ab_address (left_bill c) \<noteq> ab_address (right_bill c)" using c by (auto simp: chan_ok_def)
  note l1 = hac_add_positive_ok [OF inv n(1) a(1) l]
  note r1 = hac_add_positive_ok [OF conjunct1 [OF l1] n(2) a(2) r]
  show ?thesis using l1 r1 n(3) a(3) by (intro conjI exI [of _ "uval nl"] exI [of _ "uval nr"]) auto
qed

lemma close_sat_ok:
  assumes inv: "ledger_ok (core s)" and c: "chan_ok c" and t: "t \<noteq> 0" and op: "close_sat c fl fr t tc s = (Inr res, s')"
  shows "ledger_ok (core s') \<and> channels s' = channels s \<and> hac_of (core s') = hac_of (core s) \<and>
    sat_of (core s') = (sat_of (core s))(ab_address (left_bill c) := sat_of (core s) (ab_address (left_bill c)) + fold64_uint fl,
      ab_address (right_bill c) := sat_of (core s) (ab_address (right_bill c)) + fold64_uint fr)"
proof -
  obtain s1 where l: "sat_add_positive (ab_address (left_bill c)) fl s = (Inr (), s1)"
    and r: "sat_add_positive (ab_address (right_bill c)) fr s1 = (Inr (), s')"
    using op t by (auto simp: close_sat_def bindS_eq_Inr)
  have a: "ab_address (left_bill c) \<noteq> ADDRESS_ZERO" "ab_address (right_bill c) \<noteq> ADDRESS_ZERO"
    "ab_address (left_bill c) \<noteq> ab_address (right_bill c)" using c by (auto simp: chan_ok_def)
  note l1 = sat_add_positive_ok [OF inv a(1) l]
  note r1 = sat_add_positive_ok [OF conjunct1 [OF l1] a(2) r]
  show ?thesis using l1 r1 a(3) by auto
qed

lemma amounts_sum_zero:
  assumes "hac_okv a" "hac_okv b" "add_mode_u64 a b = Inr t" "\<not> is_positive t"
  shows "uval a = 0 \<and> uval b = 0"
proof -
  have t: "hac_okv t" "uval t = uval a + uval b"
    using assms(1-3) add_mode_ok [of a b U64S t] compute_mode_canonical [of a b U64S True t]
    by (auto simp: hac_okv_def add_mode_u64_def U64S_def)
  have "uval t = 0"
    using t(1) assms(4) by (cases "byte t") (auto simp: uval_def is_positive_def hac_okv_def amt_unsigned_def amt_canonical_def
        amt_wf_def tail_len_def bytes_not_zero_def word_gt_0)
  with t(2) show ?thesis by simp
qed

lemma close_channel_default_ok:
  assumes inv: "ledger_ok (core s)" and c: "chan_ok c" and op: "close_channel_default pdhei cid c s = (Inr u, s')"
  shows "ch_status c = CHANNEL_STATUS_OPENING \<and> ledger_ok (core s') \<and>
    (\<exists>pl pr. payout_ok pdhei c pl pr \<and> hac_of (core s') = (hac_of (core s))(
      ab_address (left_bill c) := hac_of (core s) (ab_address (left_bill c)) + pl,
      ab_address (right_bill c) := hac_of (core s) (ab_address (right_bill c)) + pr)) \<and>
    sat_of (core s') = (sat_of (core s))(
      ab_address (left_bill c) := sat_of (core s) (ab_address (left_bill c)) + fold64_uint (satoshi (ab_balance (left_bill c))),
      ab_address (right_bill c) := sat_of (core s) (ab_address (right_bill c)) + fold64_uint (satoshi (ab_balance (right_bill c)))) \<and>
    (\<exists>c'. channels s' = (channels s)(cid \<mapsto> c') \<and> ch_status c' = CHANNEL_STATUS_AGREEMENT_CLOSED \<and>
       reuse_version c' = reuse_version c \<and> left_bill c' = left_bill c \<and> right_bill c' = right_bill c)"
proof -
  let ?lb = "ab_balance (left_bill c)" let ?rb = "ab_balance (right_bill c)"
  let ?la = "ab_address (left_bill c)" let ?ra = "ab_address (right_bill c)"
  obtain tt k ts tc ia ds tc' s1 ss s2 ch where st: "ch_status c = CHANNEL_STATUS_OPENING"
    and tt: "add_mode_u64 (hacash ?lb) (hacash ?rb) = Inr tt"
    and ts: "fold64_add (satoshi ?lb) (satoshi ?rb) = Inr ts"
    and h: "close_hac pdhei c (hacash ?lb) (hacash ?rb) tt k tc s = (Inr (ia, ds, tc'), s1)"
    and sa: "close_sat c (satoshi ?lb) (satoshi ?rb) (fold64_uint ts) tc' s1 = (Inr ss, s2)"
    and fin: "on_core (with_total_count (apply_close_counts ia ds ds ss)) (s2\<lparr>channels := (channels s2)(cid \<mapsto> c\<lparr>
        ch_status := CHANNEL_STATUS_AGREEMENT_CLOSED, close_height := ch,
        if_distribution := Some (distribution_balance ?lb, distribution_balance ?rb)\<rparr>)\<rparr>) = (Inr u, s')"
    using op unfolding close_channel_default_def close_channel_with_distribution_def Let_def
    by (auto simp: bindS_eq_Inr simp del: returnS_eq split: if_split_asm prod.splits)
  have ok: "hac_okv (hacash ?lb)" "hac_okv (hacash ?rb)" using c by (auto simp: chan_ok_def)
  have hac1: "ledger_ok (core s1) \<and> channels s1 = channels s \<and> sat_of (core s1) = sat_of (core s) \<and>
    (\<exists>pl pr. payout_ok pdhei c pl pr \<and> hac_of (core s1) = (hac_of (core s))(?la := hac_of (core s) ?la + pl, ?ra := hac_of (core s) ?ra + pr))"
  proof (cases "is_positive tt")
    case True
    then show ?thesis using close_hac_ok [OF inv c _ h] by simp
  next
    case False
    then have "s1 = s" "payout_ok pdhei c 0 0"
      using h amounts_sum_zero [OF ok tt] by (simp_all add: payout_ok_def close_hac_def)
    then show ?thesis using inv by (auto intro!: exI [of _ "0::nat"])
  qed
  have sat1: "ledger_ok (core s2) \<and> channels s2 = channels s1 \<and> hac_of (core s2) = hac_of (core s1) \<and>
    sat_of (core s2) = (sat_of (core s1))(?la := sat_of (core s1) ?la + fold64_uint (satoshi ?lb),
      ?ra := sat_of (core s1) ?ra + fold64_uint (satoshi ?rb))"
  proof (cases "fold64_uint ts > 0")
    case True
    then show ?thesis using close_sat_ok [OF _ c _ sa] hac1 by simp
  next
    case False
    have "fold64_uint ts = fold64_uint (satoshi ?lb) + fold64_uint (satoshi ?rb)"
      using ts by (auto simp: fold64_add_def expectR_def fold64_checked_add_eq split: sum.splits)
    then show ?thesis using False sa hac1 by (auto simp: close_sat_def)
  qed
  have fr: "ledger_ok (core s') = ledger_ok (core s2)" "hac_of (core s') = hac_of (core s2)" "sat_of (core s') = sat_of (core s2)"
    using fin counts_frame by (auto simp: on_core_eq)
  have "channels s' = (channels s2)(cid \<mapsto> c\<lparr>ch_status := CHANNEL_STATUS_AGREEMENT_CLOSED, close_height := ch,
        if_distribution := Some (distribution_balance ?lb, distribution_balance ?rb)\<rparr>)" using fin by (auto simp: on_core_eq)
  then show ?thesis using st hac1 sat1 fr by (intro conjI) auto
qed

text \<open>C14: Closing a channel by agreement needs the signatures of both sides and an open channel. It
  pays each side its own deposit and an interest, within the bound of 0.1 percent in total for
  every 10000 blocks, gives the locked satoshi back, touches no other account, marks the channel
  closed under the same version, and the channel cannot be closed a second time.\<close>
theorem channel_close_settles:
  assumes "ledger_ok (core s)" "channels s cid = Some c" "chan_ok c" "channel_close e check_sign cid s = (Inr u, s')"
  shows "check_sign (ab_address (left_bill c)) = Inr () \<and> check_sign (ab_address (right_bill c)) = Inr () \<and>
    ch_status c = CHANNEL_STATUS_OPENING \<and> ledger_ok (core s') \<and>
    (\<exists>pl pr. payout_ok (env_height e) c pl pr \<and> hac_of (core s') = (hac_of (core s))(
      ab_address (left_bill c) := hac_of (core s) (ab_address (left_bill c)) + pl,
      ab_address (right_bill c) := hac_of (core s) (ab_address (right_bill c)) + pr)) \<and>
    (\<forall>a. sat_of (core s') a = sat_of (core s) a +
      (if a = ab_address (left_bill c) then fold64_uint (satoshi (ab_balance (left_bill c)))
       else if a = ab_address (right_bill c) then fold64_uint (satoshi (ab_balance (right_bill c))) else 0)) \<and>
    (\<exists>c'. channels s' = (channels s)(cid \<mapsto> c') \<and> ch_status c' = CHANNEL_STATUS_AGREEMENT_CLOSED \<and> reuse_version c' = reuse_version c) \<and>
    fst (channel_close e check_sign cid s') = Inl (Fault ''channel is not open'')"
proof -
  have sg: "check_valid_store_item_key cid channel_id_SIZE = Inr ()"
    "must_privakey (ab_address (left_bill c)) = Inr ()" "must_privakey (ab_address (right_bill c)) = Inr ()"
    "check_sign (ab_address (left_bill c)) = Inr ()" "check_sign (ab_address (right_bill c)) = Inr ()"
    and op: "close_channel_default (env_height e) cid c s = (Inr u, s')"
    using assms(2,4) by (auto simp: channel_close_def bindS_eq_Inr)
  note r = close_channel_default_ok [OF assms(1,3) op]
  obtain c' where c': "channels s' = (channels s)(cid \<mapsto> c')" "ch_status c' = CHANNEL_STATUS_AGREEMENT_CLOSED"
    "left_bill c' = left_bill c" "right_bill c' = right_bill c" using r by blast
  have "fst (channel_close e check_sign cid s') = Inl (Fault ''channel is not open'')"
    using sg c' by (simp add: channel_close_def close_channel_default_def close_channel_with_distribution_def Let_def
        CHANNEL_STATUS_AGREEMENT_CLOSED_def CHANNEL_STATUS_OPENING_def)
  moreover have "ab_address (left_bill c) \<noteq> ab_address (right_bill c)" using assms(3) by (simp add: chan_ok_def)
  ultimately show ?thesis using sg r by auto
qed

section \<open>A sample\<close>

definition sample_cid :: channel_id where "sample_cid = [1, 2, 3, 4, 5, 6, 7, 8, 9, 10, 11, 12, 13, 14, 15, 16]"

definition sample_chain :: chain_state where
  "sample_chain = \<lparr>core = sample_state, channels = (\<lambda>_. None)\<rparr>"

lemma cid_ok: "check_valid_store_item_key sample_cid channel_id_SIZE = Inr ()"
  by (simp add: check_valid_store_item_key_def sample_cid_def channel_id_SIZE_def)

lemma coin_units: "to_238_u64 (coin 2) = Inr 20000000000" "check_6_long (coin 2) = Inr ()" "check_6_long amount_zero = Inr ()"
  "add_mode_u64 (coin 2) amount_zero = Inr (coin 2)" "to_238_u64 amount_zero = Inr 0" "add_mode_u64 amount_zero (coin 2) = Inr (coin 2)"
  by (simp_all add: to_238_u64_def to_unit_u64_def to_unit_u128_def to_unit_biguint_def to_biguint_def UNIT_238_def coin_ops2 coin_fields check_6_long_def check_long_def amount_size_def
      amt_is_zero_def bytes_is_zero_def bytes_not_zero_def is_negative_def tail_u64_def tail_u128_def padded_uint_def add_left_padding_def U64S_def U128S_def be_nat_Cons
      add_mode_u64_def compute_mode_def)

lemma tcs: "total_count_of sample_state = no_count"
  by (simp add: sample_state_def)

lemma open_sample: "fst (channel_open sample_env sample_cid addr_a (coin 2) addr_b amount_zero sample_chain) = Inr ()"
proof -
  have h: "hac_sub addr_a (coin 2) sample_state = (Inr (), sample_state\<lparr>balances := (balances sample_state)(addr_a \<mapsto>
      (balance_or_default sample_state addr_a)\<lparr>hacash := coin 3\<rparr>)\<rparr>)"
    by (simp add: hac_sub_def check_amount_is_positive_def do_hac_sub_def amount_op_def balance_put_def bindS_def
        balance_or_default_def sample_state_def amount_lt_uval coin_ok coin_ops coin_ops2)
  show ?thesis
    by (simp add: channel_open_def must_privakey_def PRIVAKEY_def cid_ok coin_units is_negative_def coin_fields hac_sub_nonzero_def
        amt_is_zero_def bytes_is_zero_def bytes_not_zero_def on_core_def h bindS_def sample_chain_def channel_reuse_def
        uint_from_def uint_MAX_def sample_env_def with_total_count_def apply_open_counts_def total_add_u8_def total_add_u12_def
        u64_to_uint8_def u128_to_uint12_def uint_from_checked_def tcs no_count_def)
qed

theorem channel_open_locks_witness:
  "let s' = snd (channel_open sample_env sample_cid addr_a (coin 2) addr_b amount_zero sample_chain) in
    hac_of (core s') addr_a = 3 * 10 ^ 248 \<and> map_option locked (channels s' sample_cid) = Some (2 * 10 ^ 248)"
proof -
  obtain u s' where op: "channel_open sample_env sample_cid addr_a (coin 2) addr_b amount_zero sample_chain = (Inr u, s')"
    using open_sample by (cases "channel_open sample_env sample_cid addr_a (coin 2) addr_b amount_zero sample_chain") auto
  have "ledger_ok (core sample_chain)" "hac_of (core sample_chain) addr_a = 5 * 10 ^ 248"
    using sample_ok by (simp_all add: sample_chain_def hac_of_def sample_state_def balance_or_default_def coin_ops2)
  from channel_open_locks [OF this(1) coin_ok(2) [of 2] amt_wf_zero(2) op] this(2) op show ?thesis by (auto simp: coin_ops2)
qed

definition locked_count :: total_count where
  "locked_count = no_count\<lparr>opening_channel := 1, channel_deposit_238 := 20000000000\<rparr>"

lemma locked_count_fields: "opening_channel locked_count = 1" "channel_close_total locked_count = 0"
  "channel_interest_238 locked_count = 0" "channel_deposit_238 locked_count = 20000000000"
  "channel_closed_hac_volume_238 locked_count = 0" "channel_deposit_sat locked_count = 0"
  by (simp_all add: locked_count_def no_count_def)

definition opened_channel :: channel_sto where
  "opened_channel = new_channel 1 795000 addr_b (coin 2) addr_a amount_zero"

definition opened_chain :: chain_state where
  "opened_chain = \<lparr>core = sample_state\<lparr>total_count_of := locked_count\<rparr>,
     channels = [sample_cid \<mapsto> opened_channel]\<rparr>"

lemma close_sample: "fst (channel_close sample_env (\<lambda>_. Inr ()) sample_cid opened_chain) = Inr ()"
proof -
  let ?s = "sample_state\<lparr>total_count_of := locked_count\<rparr>"
  have i: "calculate_interest_of_height 800000 795000 CHANNEL_INTEREST_ATTRIBUTION_TYPE_DEFAULT (coin 2) amount_zero = Inr (coin 2, amount_zero)"
    by (simp add: calculate_interest_of_height_def)
  have lt: "amount_lt (coin 2) (coin 2) = Inr False" by (simp add: amount_lt_uval coin_ok)
  have sub: "sub_mode_u64 (coin 2) (coin 2) = Inr amount_zero"
    by (simp add: sub_mode_u64_def compute_mode_def coin_fields amt_is_zero_def bytes_is_zero_def bytes_not_zero_def tail_len_def U64S_def be_nat_Cons)
  have h: "hac_add addr_b (coin 2) ?s = (Inr (), ?s\<lparr>balances := (balances ?s)(addr_b \<mapsto> balance_new\<lparr>hacash := coin 2\<rparr>)\<rparr>)"
    by (simp add: hac_add_def check_amount_is_positive_def do_hac_add_def amount_op_def balance_put_def bindS_def
        balance_or_default_def sample_state_def coin_ops coin_ops2 blackhole_engulf_def BLACKHOLE_ADDR_def balance_new_def)
  have eq: "amount_equal (coin 2) (coin 2)" by (simp add: amount_equal_def)
  show ?thesis
    by (simp add: channel_close_def must_privakey_def PRIVAKEY_def cid_ok coin_units is_negative_def coin_fields opened_chain_def opened_channel_def new_channel_def
        close_channel_default_def close_channel_with_distribution_def balance_hac_def balance_new_def CHANNEL_STATUS_OPENING_def
        eq fold64_add_def expectR_def fold64_checked_add_def checked_u64_def fold64_from_def fold64_checked_def fold64_MAX_eq
        preview_total_count_def close_hac_def close_sat_def hac_add_positive_def coin_ops2 sample_env_def
        on_core_def h bindS_def i lt sub Let_def is_positive_def bytes_not_zero_def
        uint_from_def uint_MAX_def with_total_count_def apply_close_counts_def total_add_u8_def total_add_u12_def total_sub_u8_def total_sub_u12_def
        u64_to_uint8_def u128_to_uint12_def uint_from_checked_def locked_count_fields)
qed

theorem channel_close_settles_witness:
  "let s' = snd (channel_close sample_env (\<lambda>_. Inr ()) sample_cid opened_chain) in
    2 * 10 ^ 248 \<le> hac_of (core s') addr_b \<and> hac_of (core s') addr_a = 5 * 10 ^ 248 \<and>
    fst (channel_close sample_env (\<lambda>_. Inr ()) sample_cid s') = Inl (Fault ''channel is not open'')"
proof -
  obtain u s' where op: "channel_close sample_env (\<lambda>_. Inr ()) sample_cid opened_chain = (Inr u, s')"
    using close_sample by (cases "channel_close sample_env (\<lambda>_. Inr ()) sample_cid opened_chain") auto
  have led: "ledger_ok (core opened_chain)" "hac_of (core opened_chain) addr_a = 5 * 10 ^ 248" "hac_of (core opened_chain) addr_b = 0"
    using sample_ok by (simp_all add: opened_chain_def ledger_ok_def hac_of_def sample_state_def balance_or_default_def coin_ops2)
  have c: "channels opened_chain sample_cid = Some opened_channel" by (simp add: opened_chain_def)
  have ok: "chan_ok opened_channel" by (simp add: chan_ok_def opened_channel_def new_channel_def balance_hac_def hac_okv_def coin_ok)
  have f: "ab_address (left_bill opened_channel) = addr_b" "ab_address (right_bill opened_channel) = addr_a" "open_height opened_channel = 795000"
    "hacash (ab_balance (left_bill opened_channel)) = coin 2" "hacash (ab_balance (right_bill opened_channel)) = amount_zero"
    by (simp_all add: opened_channel_def new_channel_def balance_hac_def)
  from channel_close_settles [OF led(1) c ok op] obtain pl pr where p: "payout_ok (env_height sample_env) opened_channel pl pr"
    "hac_of (core s') = (hac_of (core opened_chain))(addr_b := hac_of (core opened_chain) addr_b + pl,
       addr_a := hac_of (core opened_chain) addr_a + pr)"
    "fst (channel_close sample_env (\<lambda>_. Inr ()) sample_cid s') = Inl (Fault ''channel is not open'')"
    unfolding f by blast
  have "2 * 10 ^ 248 \<le> pl" "pl + pr \<le> 2 * 10 ^ 248"
    using p(1) by (simp_all add: payout_ok_def f sample_env_def Let_def coin_ops2)
  then show ?thesis using p(2,3) led op by simp
qed

end
