(* ===== verification/BlockCheck.thy ===== *)
theory BlockCheck
  imports Prelude
begin

text \<open>
  Merkle roots (\<^verbatim>\<open>protocol/src/block/util.rs\<close>) and the structural check of a block
  before it is executed (\<^verbatim>\<open>chain/src/verify.rs\<close>, release build). The hash of
  \<^verbatim>\<open>sys/src/hash.rs\<close>, which wraps a cryptographic library, is a parameter \<open>H\<close>. A block and a
  transaction are the fields that the chain reads of them.
\<close>

type_synonym hash = "u8 list"

record blk_tx =
  tx_ty :: u8
  tx_size :: nat
  tx_action_count :: nat
  tx_actions_len :: nat
  tx_timestamp :: nat
  tx_hash_with_fee :: hash

record blk =
  b_height :: nat
  b_hash :: hash
  b_prevhash :: hash
  b_timestamp :: nat
  b_mrklroot :: hash
  b_tx_count :: nat
  b_txs :: "blk_tx list"
  b_data :: "u8 list"

section \<open>Merkle roots\<close>

text \<open>One level: pairs are hashed together, an odd last hash with itself. (The loop of the code
  would panic on an empty list; both callers exclude it.)\<close>

fun mrkl_merge :: "(u8 list \<Rightarrow> hash) \<Rightarrow> hash list \<Rightarrow> hash list" where
  "mrkl_merge H (l # r # rest) = H (l @ r) # mrkl_merge H rest"
| "mrkl_merge H [l] = [H (l @ l)]"
| "mrkl_merge H [] = []"

lemma length_mrkl_merge: "length (mrkl_merge H l) = (length l + 1) div 2"
  by (induction H l rule: mrkl_merge.induct) simp_all

definition hash_DEFAULT :: hash where "hash_DEFAULT = replicate 32 0"

function mrklroot_loop :: "(u8 list \<Rightarrow> hash) \<Rightarrow> hash list \<Rightarrow> hash" where
  "mrklroot_loop H reslist = (if length reslist \<le> 1 then reslist ! 0 else mrklroot_loop H (mrkl_merge H reslist))"
  by pat_completeness auto
termination by (relation "measure (\<lambda>(_, l). length l)") (auto simp: length_mrkl_merge)

declare mrklroot_loop.simps [simp del]

definition calculate_mrklroot :: "(u8 list \<Rightarrow> hash) \<Rightarrow> hash list \<Rightarrow> hash" where
  "calculate_mrklroot H l = (if length l = 0 then hash_DEFAULT else mrklroot_loop H l)"

text \<open>The shortcut of the miner: the hashes beside the path of the first transaction, from which
  the root is recomputed when only that transaction changes.\<close>

function prelude_modify_loop :: "(u8 list \<Rightarrow> hash) \<Rightarrow> hash list \<Rightarrow> hash list" where
  "prelude_modify_loop H reslist =
     (if length reslist \<le> 1 then [] else reslist ! 1 # prelude_modify_loop H (mrkl_merge H reslist))"
  by pat_completeness auto
termination by (relation "measure (\<lambda>(_, l). length l)") (auto simp: length_mrkl_merge)

declare prelude_modify_loop.simps [simp del]

definition calculate_mrkl_prelude_modify :: "(u8 list \<Rightarrow> hash) \<Rightarrow> hash list \<Rightarrow> hash list ret" where
  "calculate_mrkl_prelude_modify H l =
     (let hxl = length l in
      if hxl = 0 then Inl (Panic ''never'')
      else if hxl = 1 then Inr []
      else if hxl = 2 then Inr [l ! 1]
      else Inr (prelude_modify_loop H l))"

definition calculate_mrkl_prelude_update :: "(u8 list \<Rightarrow> hash) \<Rightarrow> hash \<Rightarrow> hash list \<Rightarrow> hash" where
  "calculate_mrkl_prelude_update H cbhx l = foldl (\<lambda>reshx h. H (reshx @ h)) cbhx l"

section \<open>The structural gate\<close>

record chain_limits =
  max_block_size :: nat
  max_block_txs :: nat
  max_tx_size :: nat
  max_tx_actions :: nat

text \<open>The scan over the transactions: position and size so far.\<close>

fun verify_txs :: "chain_limits \<Rightarrow> nat \<Rightarrow> u8 \<Rightarrow> blk_tx list \<Rightarrow> nat \<Rightarrow> nat \<Rightarrow> (nat \<times> nat) ret" where
  "verify_txs cnf cur_time prelude_ty [] txttnum txttsize = Inr (txttnum, txttsize)"
| "verify_txs cnf cur_time prelude_ty (tx # txs) txttnum txttsize =
     (if txttnum = 0 \<and> tx_ty tx \<noteq> prelude_ty then Inl (Fault ''tx(0) type changed during block scan'')
      else if txttnum \<ge> 1 \<and> tx_ty tx = prelude_ty then Inl (Fault ''tx type cannot repeat prelude type'')
      else if tx_size tx > max_tx_size cnf then Inl (Fault ''tx size cannot exceed'')
      else if txttnum + 1 = 1 then verify_txs cnf cur_time prelude_ty txs (txttnum + 1) (txttsize + tx_size tx)
      else if tx_action_count tx \<noteq> tx_actions_len tx then Inl (Fault ''tx action count does not match'')
      else if tx_action_count tx > max_tx_actions cnf then Inl (Fault ''tx action count cannot exceed'')
      else if tx_timestamp tx > cur_time then Inl (Fault ''tx timestamp cannot exceed now'')
      else verify_txs cnf cur_time prelude_ty txs (txttnum + 1) (txttsize + tx_size tx))"

definition block_verify :: "(u8 list \<Rightarrow> hash) \<Rightarrow> chain_limits \<Rightarrow> nat \<Rightarrow> blk \<Rightarrow> nat \<Rightarrow> blk \<Rightarrow> unit ret" where
  "block_verify H cnf cur_time b blk_data_len prev =
     (if b_prevhash b \<noteq> b_hash prev then Inl (Fault ''prev hash unexpected'')
      else if b_timestamp b > cur_time then Inl (Fault ''block timestamp cannot exceed system timestamp'')
      else if b_timestamp b \<le> b_timestamp prev then Inl (Fault ''block timestamp cannot be less than prev block timestamp'')
      else if blk_data_len > max_block_size cnf + 100 then Inl (Fault ''block size cannot exceed'')
      else let txhxs = map tx_hash_with_fee (b_txs b); txcount = b_tx_count b in
      if txcount < 1 then Inl (Fault ''block txs cannot be empty; tx(0) prelude required'')
      else if txcount > max_block_txs cnf then Inl (Fault ''block txs cannot exceed'')
      else if txcount \<noteq> length txhxs then Inl (Fault ''block tx count unexpected'')
      else case b_txs b of [] \<Rightarrow> Inl (Fault ''block must have prelude tx'')
      | ptx # _ \<Rightarrow>
        bindR (verify_txs cnf cur_time (tx_ty ptx) (b_txs b) 0 0) (\<lambda>(txttnum, txttsize).
        if txttnum \<noteq> txcount then Inl (Fault ''block tx count unexpected'')
        else if txttsize > max_block_size cnf then Inl (Fault ''block txs total size cannot exceed'')
        else if b_mrklroot b \<noteq> calculate_mrklroot H txhxs then Inl (Fault ''block mrkl root unexpected'')
        else Inr ()))"

section \<open>The miner's shortcut is the Merkle root\<close>

lemma mrkl_merge_first:
  "2 \<le> length l \<Longrightarrow> mrkl_merge H (cb # tl l) = H (cb @ l ! 1) # tl (mrkl_merge H l)"
  by (cases l; cases "tl l") auto

lemma prelude_loop_root:
  "l \<noteq> [] \<Longrightarrow> mrklroot_loop H (cb # tl l) = calculate_mrkl_prelude_update H cb (prelude_modify_loop H l)"
proof (induction "length l" arbitrary: l cb rule: less_induct)
  case less
  show ?case
  proof (cases "length l \<le> 1")
    case True
    with less.prems obtain x where "l = [x]" by (cases l) auto
    then show ?thesis
      by (simp add: mrklroot_loop.simps [of H "[cb]"] prelude_modify_loop.simps [of H "[x]"] calculate_mrkl_prelude_update_def)
  next
    case False
    have len: "length (mrkl_merge H l) < length l" "mrkl_merge H l \<noteq> []"
      using False length_mrkl_merge [of H l] by auto
    have "mrklroot_loop H (cb # tl l) = mrklroot_loop H (mrkl_merge H (cb # tl l))"
      using False by (subst mrklroot_loop.simps) simp
    also have "\<dots> = mrklroot_loop H (H (cb @ l ! 1) # tl (mrkl_merge H l))" using False by (simp add: mrkl_merge_first)
    also have "\<dots> = calculate_mrkl_prelude_update H (H (cb @ l ! 1)) (prelude_modify_loop H (mrkl_merge H l))"
      by (rule less.hyps [OF len])
    also have "\<dots> = calculate_mrkl_prelude_update H cb (prelude_modify_loop H l)"
      using False by (subst prelude_modify_loop.simps [of H l]) (simp add: calculate_mrkl_prelude_update_def)
    finally show ?thesis .
  qed
qed

text \<open>C15: The miner's shortcut agrees with the consensus rule: from the hashes collected once for a
  block, the root recomputed for any new first transaction is the Merkle root of the block with
  that transaction in place.\<close>
theorem mrkl_prelude_shortcut:
  assumes "l \<noteq> []"
  shows "\<exists>m. calculate_mrkl_prelude_modify H l = Inr m \<and>
    calculate_mrkl_prelude_update H cb m = calculate_mrklroot H (cb # tl l)"
proof -
  have "calculate_mrkl_prelude_modify H l = Inr (prelude_modify_loop H l)"
  proof -
    consider x where "l = [x]" | x y where "l = [x, y]" | "length l > 2"
      using assms by (cases l; cases "tl l"; cases "tl (tl l)") auto
    then show ?thesis
    proof cases
      case (1 x)
      then show ?thesis by (simp add: calculate_mrkl_prelude_modify_def prelude_modify_loop.simps [of H "[x]"])
    next
      case (2 x y)
      then show ?thesis
        by (simp add: calculate_mrkl_prelude_modify_def prelude_modify_loop.simps [of H "[x, y]"] prelude_modify_loop.simps [of H "[z]" for z])
    next
      case 3
      then have "length l \<noteq> 0" "length l \<noteq> 1" "length l \<noteq> 2" by auto
      then show ?thesis by (simp only: calculate_mrkl_prelude_modify_def Let_def if_False)
    qed
  qed
  moreover have "calculate_mrklroot H (cb # tl l) = mrklroot_loop H (cb # tl l)" by (simp add: calculate_mrklroot_def)
  ultimately show ?thesis using prelude_loop_root [OF assms] by simp
qed

theorem mrkl_prelude_shortcut_witness:
  "\<exists>m. calculate_mrkl_prelude_modify (take 2) [[1], [2], [3]] = Inr m \<and>
    calculate_mrkl_prelude_update (take 2) [9] m = calculate_mrklroot (take 2) [[9], [2], [3]]"
  using mrkl_prelude_shortcut [of "[[1], [2], [3]]" "take 2" "[9]"] by simp

section \<open>What an accepted block satisfies\<close>

lemma verify_txs_ok:
  "verify_txs cnf t p txs n z = Inr (n', z') \<Longrightarrow> n \<ge> 1 \<Longrightarrow>
    n' = n + length txs \<and> z' = z + sum_list (map tx_size txs) \<and>
    (\<forall>tx \<in> set txs. tx_ty tx \<noteq> p \<and> tx_size tx \<le> max_tx_size cnf \<and> tx_action_count tx = tx_actions_len tx \<and>
       tx_action_count tx \<le> max_tx_actions cnf \<and> tx_timestamp tx \<le> t)"
proof (induction txs arbitrary: n z)
  case (Cons tx txs)
  have n: "(n = 0) = False" "(n + 1 = 1) = False" using Cons.prems(2) by simp_all
  from Cons.prems(1) have c: "tx_ty tx \<noteq> p" "tx_size tx \<le> max_tx_size cnf" "tx_action_count tx = tx_actions_len tx"
    "tx_action_count tx \<le> max_tx_actions cnf" "tx_timestamp tx \<le> t"
    and r: "verify_txs cnf t p txs (n + 1) (z + tx_size tx) = Inr (n', z')"
    using Cons.prems(2) unfolding verify_txs.simps if_Inl_eq_Inr n if_False not_less not_not by blast+
  from Cons.IH [OF r] c show ?case by auto
qed simp

text \<open>C16: A block that passes the structural gate extends its parent, is later than the parent and
  not from the future, is within the size limits, carries as many transactions as it claims,
  begins with the only transaction of the prelude type, and its header commits to the list of
  transactions through the Merkle root.\<close>
theorem block_verify_accepts:
  assumes "block_verify H cnf cur_time b len prev = Inr u"
  shows "b_prevhash b = b_hash prev \<and> b_timestamp prev < b_timestamp b \<and> b_timestamp b \<le> cur_time \<and>
    len \<le> max_block_size cnf + 100 \<and> b_tx_count b = length (b_txs b) \<and> 1 \<le> b_tx_count b \<and> b_tx_count b \<le> max_block_txs cnf \<and>
    sum_list (map tx_size (b_txs b)) \<le> max_block_size cnf \<and>
    b_mrklroot b = calculate_mrklroot H (map tx_hash_with_fee (b_txs b)) \<and>
    (\<forall>tx \<in> set (b_txs b). tx_size tx \<le> max_tx_size cnf) \<and>
    (\<forall>tx \<in> set (tl (b_txs b)). tx_ty tx \<noteq> tx_ty (hd (b_txs b)) \<and> tx_action_count tx = tx_actions_len tx \<and>
       tx_action_count tx \<le> max_tx_actions cnf \<and> tx_timestamp tx \<le> cur_time)"
proof -
  define root where "root = calculate_mrklroot H (map tx_hash_with_fee (b_txs b))"
  obtain ptx txs n z where txs: "b_txs b = ptx # txs"
    and v: "verify_txs cnf cur_time (tx_ty ptx) (b_txs b) 0 0 = Inr (n, z)"
    and r: "n = b_tx_count b" "z \<le> max_block_size cnf" "b_mrklroot b = root"
    and g: "b_prevhash b = b_hash prev" "b_timestamp prev < b_timestamp b" "b_timestamp b \<le> cur_time"
      "len \<le> max_block_size cnf + 100" "1 \<le> b_tx_count b" "b_tx_count b \<le> max_block_txs cnf" "b_tx_count b = length (b_txs b)"
  proof -
    note v = assms [unfolded block_verify_def Let_def root_def [symmetric] if_Inl_eq_Inr length_map]
    from v have g: "b_prevhash b = b_hash prev" "b_timestamp prev < b_timestamp b" "b_timestamp b \<le> cur_time"
      "len \<le> max_block_size cnf + 100" "1 \<le> b_tx_count b" "b_tx_count b \<le> max_block_txs cnf" "b_tx_count b = length (b_txs b)"
      by linarith+
    with v obtain ptx txs where t: "b_txs b = ptx # txs" by (cases "b_txs b") auto
    from v t have "\<exists>y. verify_txs cnf cur_time (tx_ty ptx) (b_txs b) 0 0 = Inr y \<and>
      fst y = b_tx_count b \<and> snd y \<le> max_block_size cnf \<and> b_mrklroot b = root"
      unfolding t list.case bindR_eq_Inr case_prod_beta if_Inl_eq_Inr not_less not_not by blast
    then obtain y where "verify_txs cnf cur_time (tx_ty ptx) (b_txs b) 0 0 = Inr y"
      "fst y = b_tx_count b" "snd y \<le> max_block_size cnf" "b_mrklroot b = root"
      by blast
    moreover have "y = (fst y, snd y)" by (rule prod.collapse [symmetric])
    ultimately show thesis using that [of ptx txs "fst y" "snd y"] t g by metis
  qed
  from v txs have v1: "verify_txs cnf cur_time (tx_ty ptx) txs 1 (tx_size ptx) = Inr (n, z)" "tx_size ptx \<le> max_tx_size cnf"
    by (auto split: if_splits)
  from verify_txs_ok [OF v1(1)] have
    z: "z = tx_size ptx + sum_list (map tx_size txs)"
    and a: "\<forall>tx \<in> set txs. tx_ty tx \<noteq> tx_ty ptx \<and> tx_size tx \<le> max_tx_size cnf \<and> tx_action_count tx = tx_actions_len tx \<and>
       tx_action_count tx \<le> max_tx_actions cnf \<and> tx_timestamp tx \<le> cur_time" by auto
  have "\<forall>tx \<in> set (b_txs b). tx_size tx \<le> max_tx_size cnf" using a v1(2) txs by auto
  moreover have "\<forall>tx \<in> set (tl (b_txs b)). tx_ty tx \<noteq> tx_ty (hd (b_txs b)) \<and> tx_action_count tx = tx_actions_len tx \<and>
       tx_action_count tx \<le> max_tx_actions cnf \<and> tx_timestamp tx \<le> cur_time" using a txs by auto
  moreover have "sum_list (map tx_size (b_txs b)) \<le> max_block_size cnf" using z r(2) txs by simp
  ultimately show ?thesis unfolding root_def [symmetric] using g r(3) by blast
qed

definition sample_limits :: chain_limits where
  "sample_limits = \<lparr>max_block_size = 1000, max_block_txs = 10, max_tx_size = 300, max_tx_actions = 5\<rparr>"

definition sample_tx :: "u8 \<Rightarrow> hash \<Rightarrow> blk_tx" where
  "sample_tx ty h = \<lparr>tx_ty = ty, tx_size = 100, tx_action_count = 1, tx_actions_len = 1, tx_timestamp = 5, tx_hash_with_fee = h\<rparr>"

definition sample_prev :: blk where
  "sample_prev = \<lparr>b_height = 4, b_hash = [4], b_prevhash = [3], b_timestamp = 10, b_mrklroot = [], b_tx_count = 0, b_txs = [], b_data = []\<rparr>"

definition sample_blk :: blk where
  "sample_blk = \<lparr>b_height = 5, b_hash = [5], b_prevhash = [4], b_timestamp = 20, b_mrklroot = [7, 8], b_tx_count = 2,
     b_txs = [sample_tx 0 [7], sample_tx 2 [8]], b_data = [1]\<rparr>"

lemma sample_blk_ok: "block_verify id sample_limits 30 sample_blk 300 sample_prev = Inr ()"
  by (simp add: block_verify_def sample_blk_def sample_prev_def sample_limits_def sample_tx_def calculate_mrklroot_def mrklroot_loop.simps)

theorem block_verify_accepts_witness:
  "b_mrklroot sample_blk = calculate_mrklroot id [[7], [8]] \<and> b_timestamp sample_prev < b_timestamp sample_blk"
  using block_verify_accepts [OF sample_blk_ok] by (simp add: sample_blk_def sample_tx_def)

end
