(* ===== verification/ForkTree.thy ===== *)
theory ForkTree
  imports BlockCheck
begin

text \<open>
  The tree of unstable blocks: \<^verbatim>\<open>chain/src/forktree/\<close> (\<open>chunk.rs\<close>,
  \<open>roller.rs\<close>). Reference-counted nodes are indices into an arena that only grows. A node owns
  its children; the pointer to its parent is weak, so it can be followed only while the parent is
  alive, that is reachable through children from the root, from the head, or from a reference
  held elsewhere (\<open>pins\<close>).
\<close>

type_synonym memmap = "u8 list \<Rightarrow> u8 list option option"

record chunk =
  ck_height :: nat
  ck_hash :: hash
  ck_block :: blk
  ck_mem :: memmap
  ck_parent :: "nat option"
  ck_childs :: "nat list"

record roller =
  level :: nat
  root_id :: nat
  head_id :: nat
  arena :: "chunk list"
  pins :: "nat list"

definition chunk_new :: "blk \<Rightarrow> memmap \<Rightarrow> nat option \<Rightarrow> chunk" where
  "chunk_new b m p = \<lparr>ck_height = b_height b, ck_hash = b_hash b, ck_block = b, ck_mem = m, ck_parent = p, ck_childs = []\<rparr>"

definition roller_new :: "blk \<Rightarrow> memmap \<Rightarrow> nat \<Rightarrow> roller" where
  "roller_new b m lv = \<lparr>level = lv, root_id = 0, head_id = 0, arena = [chunk_new b m None], pins = []\<rparr>"

definition height_of :: "roller \<Rightarrow> nat \<Rightarrow> nat" where "height_of r i = ck_height (arena r ! i)"
definition hash_of :: "roller \<Rightarrow> nat \<Rightarrow> hash" where "hash_of r i = ck_hash (arena r ! i)"
definition root_height :: "roller \<Rightarrow> nat" where "root_height r = height_of r (root_id r)"
definition head_height :: "roller \<Rightarrow> nat" where "head_height r = height_of r (head_id r)"

text \<open>The search loop: pop a node from the stack, test it, push its children. The fuel is
  proved sufficient for every tree.\<close>

fun dfs :: "nat \<Rightarrow> (nat \<Rightarrow> bool) \<Rightarrow> chunk list \<Rightarrow> nat list \<Rightarrow> nat option" where
  "dfs 0 P a st = None"
| "dfs (Suc f) P a st =
     (case st of [] \<Rightarrow> None
      | n # rest \<Rightarrow> if P n then Some n else dfs f P a (rev (ck_childs (a ! n)) @ rest))"

definition dfs_fuel :: "chunk list \<Rightarrow> nat list \<Rightarrow> nat" where
  "dfs_fuel a st = Suc (length st * 2 ^ length a)"

definition quick_find :: "roller \<Rightarrow> hash \<Rightarrow> nat option" where
  "quick_find r h =
     (if hash_of r (head_id r) = h then Some (head_id r)
      else dfs (dfs_fuel (arena r) [root_id r]) (\<lambda>i. hash_of r i = h) (arena r) [root_id r])"

definition alive :: "roller \<Rightarrow> nat \<Rightarrow> bool" where
  "alive r p = (let st = root_id r # head_id r # pins r in
     dfs (dfs_fuel (arena r) st) (\<lambda>i. i = p) (arena r) st \<noteq> None)"

definition parent_of :: "roller \<Rightarrow> nat \<Rightarrow> nat option" where
  "parent_of r i = (case ck_parent (arena r ! i) of None \<Rightarrow> None | Some p \<Rightarrow> if alive r p then Some p else None)"

definition has_child_hash :: "roller \<Rightarrow> nat \<Rightarrow> hash \<Rightarrow> bool" where
  "has_child_hash r p h = list_ex (\<lambda>c. hash_of r c = h) (ck_childs (arena r ! p))"

fun trace_loop :: "nat \<Rightarrow> roller \<Rightarrow> nat \<Rightarrow> nat \<Rightarrow> nat option" where
  "trace_loop 0 r seek hei = None"
| "trace_loop (Suc f) r seek hei =
     (if height_of r seek = hei then Some seek
      else case parent_of r seek of None \<Rightarrow> None | Some p \<Rightarrow> trace_loop f r p hei)"

definition trace_parent :: "roller \<Rightarrow> nat \<Rightarrow> nat \<Rightarrow> nat option" where
  "trace_parent r seek hei = (if hei > height_of r seek then None else trace_loop (Suc (length (arena r))) r seek hei)"

definition ancestor_at :: "roller \<Rightarrow> nat \<Rightarrow> nat \<Rightarrow> nat option" where
  "ancestor_at r fr hei = trace_parent r fr hei"

fun back_loop :: "nat \<Rightarrow> roller \<Rightarrow> nat \<Rightarrow> nat \<Rightarrow> (nat \<times> hash) list" where
  "back_loop 0 r seek skhei = []"
| "back_loop (Suc m) r seek skhei = (skhei, hash_of r seek) #
     (case parent_of r seek of None \<Rightarrow> [] | Some p \<Rightarrow> back_loop m r p (skhei - 1))"

definition collect_back_hashes :: "roller \<Rightarrow> nat \<Rightarrow> nat \<Rightarrow> (nat \<times> hash) list" where
  "collect_back_hashes r fr max_num = back_loop max_num r fr (height_of r fr)"

text \<open>\<open>ChunkRef::append\<close>: with fast sync the child is pushed without checks.\<close>

definition push_child :: "nat \<Rightarrow> nat \<Rightarrow> roller \<Rightarrow> roller" where
  "push_child p c r = r\<lparr>arena := (arena r)[p := (arena r ! p)\<lparr>ck_childs := ck_childs (arena r ! p) @ [c]\<rparr>]\<rparr>"

definition append_child :: "nat \<Rightarrow> nat \<Rightarrow> bool \<Rightarrow> (roller, unit) st" where
  "append_child p c fast_sync =
     (if fast_sync then modifyS (push_child p c)
      else bindS (getsS (\<lambda>r. r)) (\<lambda>r.
        if ck_parent (arena r ! c) \<noteq> Some p then failS (Fault ''child parent mismatch'')
        else if height_of r c \<noteq> height_of r p + 1 then failS (Fault ''child height unexpected'')
        else if list_ex (\<lambda>x. x = c \<or> hash_of r x = hash_of r c) (ck_childs (arena r ! p)) then failS (Fault ''duplicate child'')
        else modifyS (push_child p c)))"

text \<open>\<open>Roller::insert\<close>: the head moves to a strictly higher block, the root follows one step
  along the chain of the new head when the tree is deeper than \<open>level\<close>. The result is the pair
  of the root change and the head change.\<close>

definition roller_insert :: "nat \<Rightarrow> nat \<Rightarrow> bool \<Rightarrow> (roller, nat option \<times> nat option) st" where
  "roller_insert p c fast_sync =
     bindS (append_child p c fast_sync) (\<lambda>_.
     bindS (getsS (\<lambda>r. r)) (\<lambda>r.
     if height_of r c > head_height r then
       bindS (modifyS (\<lambda>r. r\<lparr>head_id := c\<rparr>)) (\<lambda>_.
       bindS (getsS (\<lambda>r. r)) (\<lambda>r.
       if head_height r > root_height r + level r then
         (case trace_parent r (head_id r) (root_height r + 1) of
            None \<Rightarrow> failS (Fault ''root height not found when tracing'')
          | Some new_root \<Rightarrow>
              bindS (modifyS (\<lambda>r. r\<lparr>root_id := new_root\<rparr>)) (\<lambda>_. returnS (Some new_root, Some c)))
       else returnS (None, Some c)))
     else returnS (None, None)))"

definition insert_child :: "nat \<Rightarrow> blk \<Rightarrow> memmap \<Rightarrow> bool \<Rightarrow> (roller, nat option \<times> nat option) st" where
  "insert_child p b m fast_sync =
     bindS (getsS (\<lambda>r. length (arena r))) (\<lambda>c.
     bindS (modifyS (\<lambda>r. r\<lparr>arena := arena r @ [chunk_new b m (Some p)]\<rparr>)) (\<lambda>_.
       roller_insert p c fast_sync))"

section \<open>Well-formed trees\<close>

definition edge :: "chunk list \<Rightarrow> nat \<Rightarrow> nat \<Rightarrow> bool" where
  "edge a i j \<longleftrightarrow> i < length a \<and> j \<in> set (ck_childs (a ! i))"

abbreviation reach :: "chunk list \<Rightarrow> nat \<Rightarrow> nat \<Rightarrow> bool" where
  "reach a \<equiv> (edge a)\<^sup>*\<^sup>*"

definition arena_ok :: "chunk list \<Rightarrow> bool" where
  "arena_ok a \<longleftrightarrow> (\<forall>i < length a. distinct (ck_childs (a ! i)) \<and> (\<forall>c \<in> set (ck_childs (a ! i)).
     i < c \<and> c < length a \<and> ck_parent (a ! c) = Some i \<and> ck_height (a ! c) = ck_height (a ! i) + 1))"

definition tree_base :: "roller \<Rightarrow> bool" where
  "tree_base r \<longleftrightarrow> arena_ok (arena r) \<and> root_id r < length (arena r) \<and> head_id r < length (arena r) \<and>
     reach (arena r) (root_id r) (head_id r) \<and> (\<forall>p \<in> set (pins r). p < length (arena r))"

text \<open>The head is a highest block, and the tree is at most \<open>level\<close> deep.\<close>

definition tree_ok :: "roller \<Rightarrow> bool" where
  "tree_ok r \<longleftrightarrow> tree_base r \<and> (\<forall>j. reach (arena r) (root_id r) j \<longrightarrow> height_of r j \<le> head_height r) \<and>
     head_height r \<le> root_height r + level r"

lemma edge_ok:
  "arena_ok a \<Longrightarrow> edge a i j \<Longrightarrow> i < j \<and> j < length a \<and> ck_parent (a ! j) = Some i \<and> ck_height (a ! j) = ck_height (a ! i) + 1"
  unfolding arena_ok_def edge_def by blast

lemma arena_child:
  assumes "arena_ok a" "i < length a" "c \<in> set (ck_childs (a ! i))"
  shows "i < c" "c < length a"
  using edge_ok [OF assms(1), of i c] assms(2,3) by (simp_all add: edge_def)

lemma arena_distinct: "arena_ok a \<Longrightarrow> i < length a \<Longrightarrow> distinct (ck_childs (a ! i))"
  unfolding arena_ok_def by blast

lemma reach_less: "reach a i j \<Longrightarrow> arena_ok a \<Longrightarrow> i < length a \<Longrightarrow> j < length a \<and> i \<le> j"
  by (induction rule: rtranclp_induct) (auto dest: edge_ok)

lemma child_weights:
  fixes n L :: nat
  assumes "distinct cs" "\<And>c. c \<in> set cs \<Longrightarrow> n < c \<and> c < L"
  shows "(\<Sum>c\<leftarrow>cs. 2 ^ (L - c)) < (2::nat) ^ (L - n)"
proof (cases "n < L")
  case False
  then have "cs = []" using assms(2) by (cases cs) fastforce+
  then show ?thesis by simp
next
  case True
  have "(\<Sum>c\<leftarrow>cs. 2 ^ (L - c)) = (\<Sum>c\<in>set cs. (2::nat) ^ (L - c))"
    by (rule sum_list_distinct_conv_sum_set [OF assms(1)])
  also have "\<dots> \<le> (\<Sum>c\<in>{n<..<L}. 2 ^ (L - c))" by (rule sum_mono2) (auto dest: assms(2))
  also have "\<dots> < 2 ^ (L - n)" using True
  proof (induction "L - n" arbitrary: n)
    case (Suc k)
    show ?case
    proof (cases "Suc n < L")
      case True
      then have "{n<..<L} = insert (Suc n) {Suc n<..<L}" by auto
      then have "(\<Sum>c\<in>{n<..<L}. (2::nat) ^ (L - c)) = 2 ^ (L - Suc n) + (\<Sum>c\<in>{Suc n<..<L}. 2 ^ (L - c))" by simp
      also have "\<dots> < 2 ^ (L - Suc n) + 2 ^ (L - Suc n)" using Suc.hyps(1) [of "Suc n"] Suc.hyps(2) True by simp
      also have "\<dots> = 2 ^ (L - n)" using Suc.prems by (metis Suc_diff_Suc mult_2 power_Suc)
      finally show ?thesis .
    next
      case False
      then have "{n<..<L} = {}" by auto
      then show ?thesis by simp
    qed
  qed simp
  finally show ?thesis .
qed

text \<open>Searching the stack finds a node below it exactly when there is one, within the fuel.\<close>

definition stack_weight :: "chunk list \<Rightarrow> nat list \<Rightarrow> nat" where
  "stack_weight a st = (\<Sum>i\<leftarrow>st. 2 ^ (length a - i))"

lemma stack_weight_le: "stack_weight a st \<le> length st * 2 ^ length a"
proof (induction st)
  case (Cons i st)
  have "(2::nat) ^ (length a - i) \<le> 2 ^ length a" by (rule power_increasing) simp_all
  with add_mono [OF this Cons] show ?case by (simp add: stack_weight_def)
qed (simp add: stack_weight_def)

lemma dfs_P: "dfs f P a st = Some j \<Longrightarrow> P j"
  by (induction f arbitrary: st) (auto split: list.splits if_splits)

lemma dfs_reach:
  assumes "arena_ok a" "\<forall>i \<in> set st. i < length a" "dfs f P a st = Some j"
  shows "\<exists>i \<in> set st. reach a i j"
  using assms(2,3)
proof (induction f arbitrary: st)
  case (Suc f)
  obtain n rest where st: "st = n # rest" using Suc.prems(2) by (cases st) auto
  show ?case
  proof (cases "P n")
    case True
    with Suc.prems st show ?thesis by auto
  next
    case False
    with Suc.prems(2) st have r: "dfs f P a (rev (ck_childs (a ! n)) @ rest) = Some j" by simp
    have inb: "\<forall>i \<in> set (rev (ck_childs (a ! n)) @ rest). i < length a"
      using Suc.prems(1) st arena_child(2) [OF assms(1)] by auto
    from Suc.IH [OF inb r] obtain i where i: "i \<in> set (ck_childs (a ! n)) \<or> i \<in> set rest" "reach a i j" by auto
    then show ?thesis
    proof (cases "i \<in> set rest")
      case False
      with i Suc.prems(1) st have "edge a n i" by (auto simp: edge_def)
      with i(2) have "reach a n j" by (meson converse_rtranclp_into_rtranclp)
      with st show ?thesis by auto
    qed (use st i in auto)
  qed
qed simp

lemma dfs_complete:
  assumes "arena_ok a" "\<forall>i \<in> set st. i < length a" "stack_weight a st < f" "dfs f P a st = None"
  shows "\<forall>i \<in> set st. \<forall>j. reach a i j \<longrightarrow> \<not> P j"
  using assms(2-4)
proof (induction f arbitrary: st)
  case (Suc f)
  show ?case
  proof (cases st)
    case (Cons n rest)
    let ?cs = "ck_childs (a ! n)"
    have n: "\<not> P n" "n < length a" using Suc.prems Cons by (auto split: if_splits)
    have r: "dfs f P a (rev ?cs @ rest) = None" using Suc.prems(3) Cons n by simp
    have cs: "distinct ?cs" "\<And>c. c \<in> set ?cs \<Longrightarrow> n < c \<and> c < length a"
      using arena_distinct [OF assms(1) n(2)] arena_child [OF assms(1) n(2)] by blast+
    have inb: "\<forall>i \<in> set (rev ?cs @ rest). i < length a" using cs(2) Suc.prems(1) Cons by auto
    have "stack_weight a (rev ?cs @ rest) < stack_weight a st"
      using child_weights [OF cs] Cons by (simp add: stack_weight_def rev_map [symmetric] sum_list_rev)
    then have "stack_weight a (rev ?cs @ rest) < f" using Suc.prems(2) by simp
    note IH = Suc.IH [OF inb this r]
    have "\<not> P j" if "reach a n j" for j
      using that
    proof (cases rule: converse_rtranclpE)
      case (step k)
      then show ?thesis using IH by (auto simp: edge_def [of a n k])
    qed (use n in simp)
    with IH Cons show ?thesis by auto
  qed simp
qed simp

lemma dfs_iff:
  assumes "arena_ok a" "\<forall>i \<in> set st. i < length a"
  shows "dfs (dfs_fuel a st) P a st = None \<longleftrightarrow> (\<forall>i \<in> set st. \<forall>j. reach a i j \<longrightarrow> \<not> P j)"
proof
  have "stack_weight a st < dfs_fuel a st" using stack_weight_le [of a st] by (simp add: dfs_fuel_def)
  then show "dfs (dfs_fuel a st) P a st = None \<Longrightarrow> \<forall>i \<in> set st. \<forall>j. reach a i j \<longrightarrow> \<not> P j"
    using dfs_complete [OF assms] by blast
next
  assume none: "\<forall>i \<in> set st. \<forall>j. reach a i j \<longrightarrow> \<not> P j"
  show "dfs (dfs_fuel a st) P a st = None"
  proof (cases "dfs (dfs_fuel a st) P a st")
    case (Some j)
    with dfs_P [OF Some] dfs_reach [OF assms Some] none show ?thesis by blast
  qed simp
qed

section \<open>Following parents\<close>

lemma tree_baseD:
  assumes "tree_base r"
  shows "arena_ok (arena r)" "root_id r < length (arena r)" "head_id r < length (arena r)"
    "reach (arena r) (root_id r) (head_id r)" "\<forall>p \<in> set (pins r). p < length (arena r)"
  using assms unfolding tree_base_def by blast+

lemma tree_okD:
  assumes "tree_ok r"
  shows "tree_base r" "reach (arena r) (root_id r) j \<Longrightarrow> height_of r j \<le> head_height r"
    "head_height r \<le> root_height r + level r"
  using assms unfolding tree_ok_def by blast+

lemma quick_find_correct:
  assumes "tree_base r"
  shows "case quick_find r h of Some i \<Rightarrow> reach (arena r) (root_id r) i \<and> hash_of r i = h
    | None \<Rightarrow> \<forall>i. reach (arena r) (root_id r) i \<longrightarrow> hash_of r i \<noteq> h"
proof -
  note ok = tree_baseD [OF assms]
  have inb: "\<forall>i \<in> set [root_id r]. i < length (arena r)" using ok(2) by simp
  show ?thesis
  proof (cases "dfs (dfs_fuel (arena r) [root_id r]) (\<lambda>i. hash_of r i = h) (arena r) [root_id r]")
    case None
    with dfs_iff [OF ok(1) inb] have "\<forall>j. reach (arena r) (root_id r) j \<longrightarrow> hash_of r j \<noteq> h" by simp
    with None ok(4) show ?thesis by (simp add: quick_find_def)
  next
    case (Some i)
    with dfs_P [OF Some] dfs_reach [OF ok(1) inb Some] ok(4) show ?thesis by (simp add: quick_find_def)
  qed
qed

lemma alive_iff:
  assumes "tree_base r"
  shows "alive r p \<longleftrightarrow> (\<exists>i \<in> set (root_id r # head_id r # pins r). reach (arena r) i p)"
proof -
  note ok = tree_baseD [OF assms(1)]
  have inb: "\<forall>i \<in> set (root_id r # head_id r # pins r). i < length (arena r)" using ok by simp
  have "alive r p \<longleftrightarrow> \<not> (\<forall>i \<in> set (root_id r # head_id r # pins r). \<forall>j. reach (arena r) i j \<longrightarrow> j \<noteq> p)"
    unfolding alive_def Let_def dfs_iff [OF ok(1) inb, of "\<lambda>i. i = p", symmetric] ..
  then show ?thesis by blast
qed

lemma alive_reach: "tree_base r \<Longrightarrow> alive r t \<Longrightarrow> reach (arena r) t p \<Longrightarrow> alive r p"
  unfolding alive_iff by (meson rtranclp_trans)

lemma alive_less: "tree_base r \<Longrightarrow> alive r t \<Longrightarrow> t < length (arena r)"
  using reach_less tree_baseD unfolding alive_iff by fastforce

lemma alive_root: "tree_base r \<Longrightarrow> alive r (root_id r)"
  by (auto simp: alive_iff)

lemma reach_height:
  assumes "arena_ok a" "reach a i j"
  shows "ck_height (a ! i) + (j - i) \<ge> ck_height (a ! j) \<and> ck_height (a ! i) \<le> ck_height (a ! j) \<and> i \<le> j"
  using assms(2)
proof (induction rule: rtranclp_induct)
  case (step y z)
  from edge_ok [OF assms(1) step(2)] step.IH show ?case by linarith
qed simp

lemma parent_of_reach:
  assumes ok: "tree_base r" and t: "alive r t" and n: "reach (arena r) t n" "n \<noteq> t"
  obtains p where "parent_of r n = Some p" "edge (arena r) p n" "reach (arena r) t p" "height_of r n = height_of r p + 1"
proof -
  from n obtain p where p: "reach (arena r) t p" "edge (arena r) p n" by (auto elim: rtranclp.cases)
  from edge_ok [OF tree_baseD(1) [OF ok] p(2)] have "ck_parent (arena r ! n) = Some p" "height_of r n = height_of r p + 1"
    by (simp_all add: height_of_def)
  with p alive_reach [OF ok t p(1)] show thesis by (intro that [of p]) (simp_all add: parent_of_def)
qed

text \<open>The node at a height on the way from \<open>t\<close> to a node.\<close>

definition chain_at :: "roller \<Rightarrow> nat \<Rightarrow> nat \<Rightarrow> nat \<Rightarrow> nat \<Rightarrow> bool" where
  "chain_at r t n h m \<longleftrightarrow> reach (arena r) t m \<and> reach (arena r) m n \<and> height_of r m = h"

lemma reach_parent:
  assumes "arena_ok a" "edge a p n" "reach a m n" "m \<noteq> n"
  shows "reach a m p"
proof -
  from assms(3,4) obtain q where "reach a m q" "edge a q n" by (auto elim: rtranclp.cases)
  moreover have "q = p" using edge_ok [OF assms(1,2)] edge_ok [OF assms(1), of q n] calculation by simp
  ultimately show ?thesis by simp
qed

lemma chain_unique:
  assumes ok: "arena_ok a" and m: "reach a m n" "reach a m' n" and h: "ck_height (a ! m) = ck_height (a ! m')"
  shows "m = m'"
  using m
proof (induction n rule: less_induct)
  case (less n)
  show ?case
  proof (cases "m = n \<or> m' = n")
    case True
    then show ?thesis
    proof
      assume mn: "m = n"
      show ?thesis
      proof (rule ccontr)
        assume "m \<noteq> m'"
        with mn less.prems(2) obtain q where "reach a m' q" "edge a q n" by (auto elim: rtranclp.cases)
        with edge_ok [OF ok, of q n] reach_height [OF ok, of m' q] h mn show False by simp
      qed
    next
      assume mn: "m' = n"
      show ?thesis
      proof (rule ccontr)
        assume "m \<noteq> m'"
        with mn less.prems(1) obtain q where "reach a m q" "edge a q n" by (auto elim: rtranclp.cases)
        with edge_ok [OF ok, of q n] reach_height [OF ok, of m q] h mn show False by simp
      qed
    qed
  next
    case False
    then obtain q where q: "reach a m q" "edge a q n" using less.prems(1) by (auto elim: rtranclp.cases)
    have "reach a m' q" using reach_parent [OF ok q(2) less.prems(2)] False by auto
    with q less.IH [of q] edge_ok [OF ok q(2)] show ?thesis by simp
  qed
qed

lemma trace_loop_ok:
  assumes ok: "tree_base r" and t: "alive r t"
  shows "reach (arena r) t n \<Longrightarrow> height_of r t \<le> hei \<Longrightarrow> hei \<le> height_of r n \<Longrightarrow> height_of r n - hei < f \<Longrightarrow>
    \<exists>m. trace_loop f r n hei = Some m \<and> chain_at r t n hei m"
proof (induction f arbitrary: n)
  case (Suc f)
  show ?case
  proof (cases "height_of r n = hei")
    case True
    with Suc.prems show ?thesis by (simp add: chain_at_def)
  next
    case False
    with Suc.prems have "n \<noteq> t" by (auto simp: )
    then obtain p where p: "parent_of r n = Some p" "edge (arena r) p n" "reach (arena r) t p" "height_of r n = height_of r p + 1"
      using parent_of_reach [OF ok t Suc.prems(1)] by blast
    have "hei \<le> height_of r p" "height_of r p - hei < f" using p(4) Suc.prems(3,4) False by linarith+
    from Suc.IH [OF p(3) Suc.prems(2) this]
    obtain m where m: "trace_loop f r p hei = Some m" "chain_at r t p hei m" by blast
    then have "chain_at r t n hei m" using p(2) by (auto simp: chain_at_def)
    with m(1) p(1) False show ?thesis by simp
  qed
qed simp

lemma trace_parent_ok:
  assumes ok: "tree_base r" and t: "alive r t" and n: "reach (arena r) t n" and h: "height_of r t \<le> hei" "hei \<le> height_of r n"
  shows "\<exists>m. trace_parent r n hei = Some m \<and> chain_at r t n hei m"
proof -
  have "height_of r n - hei < Suc (length (arena r))"
    using reach_height [OF tree_baseD(1) [OF ok] n] reach_less [OF n tree_baseD(1) [OF ok] alive_less [OF ok t]] h
    unfolding height_of_def  by linarith
  from trace_loop_ok [OF ok t n h this] h show ?thesis by (simp add: trace_parent_def)
qed

text \<open>The list of hashes collected backwards is the chain, one entry per height.\<close>

lemma back_loop_ok:
  assumes ok: "tree_base r" and t: "alive r t"
  shows "reach (arena r) t n \<Longrightarrow> k \<le> Suc (height_of r n - height_of r t) \<Longrightarrow>
    (h, x) \<in> set (back_loop k r n (height_of r n)) \<longleftrightarrow> h \<le> height_of r n \<and> height_of r n < h + k \<and> (\<exists>m. chain_at r t n h m \<and> x = hash_of r m)"
proof (induction k arbitrary: n)
  case (Suc k)
  have top: "chain_at r t n (height_of r n) n" using Suc.prems(1) by (simp add: chain_at_def)
  have uniq: "m = n" if "chain_at r t n (height_of r n) m" for m
    using chain_unique [OF tree_baseD(1) [OF ok], of m n n] that by (simp add: chain_at_def height_of_def)
  show ?case
  proof (cases "n = t")
    case True
    with Suc.prems(2) have k: "k = 0" by (simp add: )
    have "(h, x) \<in> set (back_loop (Suc k) r n (height_of r n)) \<longleftrightarrow> h = height_of r n \<and> x = hash_of r n"
      using k by (auto split: option.split)
    also have "\<dots> \<longleftrightarrow> h = height_of r n \<and> (\<exists>m. chain_at r t n h m \<and> x = hash_of r m)" using top uniq by blast
    finally show ?thesis using k by auto
  next
    case False
    obtain p where p: "parent_of r n = Some p" "edge (arena r) p n" "reach (arena r) t p" "height_of r n = height_of r p + 1"
      using parent_of_reach [OF ok t Suc.prems(1) False] by blast
    have "height_of r t \<le> height_of r p"
      using reach_height [OF tree_baseD(1) [OF ok] p(3)] by (simp add: height_of_def )
    then have "k \<le> Suc (height_of r p - height_of r t)" using Suc.prems(2) p(4) by simp
    note IH = Suc.IH [OF p(3) this]
    have step: "chain_at r t n h m \<longleftrightarrow> chain_at r t p h m" if "h < height_of r n" for m
      using that p(2) reach_parent [OF tree_baseD(1) [OF ok] p(2), of m] by (auto simp: chain_at_def)
    have "(h, x) \<in> set (back_loop (Suc k) r n (height_of r n)) \<longleftrightarrow>
        h = height_of r n \<and> x = hash_of r n \<or> (h, x) \<in> set (back_loop k r p (height_of r p))"
      using p(1,4) by auto
    also have "\<dots> \<longleftrightarrow> h = height_of r n \<and> (\<exists>m. chain_at r t n h m \<and> x = hash_of r m) \<or>
        h < height_of r n \<and> height_of r n \<le> h + k \<and> (\<exists>m. chain_at r t n h m \<and> x = hash_of r m)"
      using top uniq step unfolding IH using p(4) by (auto simp: less_Suc_eq_le)
    finally show ?thesis by auto
  qed
qed simp

section \<open>Insertion\<close>

definition grown_arena :: "chunk list \<Rightarrow> nat \<Rightarrow> chunk \<Rightarrow> chunk list" where
  "grown_arena a p k = (a @ [k])[p := (a ! p)\<lparr>ck_childs := ck_childs (a ! p) @ [length a]\<rparr>]"

lemma grown_nth:
  assumes "p < length a"
  shows "i < length a \<Longrightarrow> grown_arena a p k ! i = (a ! i)\<lparr>ck_childs := ck_childs (a ! i) @ (if i = p then [length a] else [])\<rparr>"
    "grown_arena a p k ! length a = k" "length (grown_arena a p k) = Suc (length a)"
  using assms by (auto simp: grown_arena_def nth_append nth_list_update)

lemma grown_edge:
  assumes "p < length a" "ck_childs k = []"
  shows "edge (grown_arena a p k) i j \<longleftrightarrow> edge a i j \<or> i = p \<and> j = length a"
  using assms grown_nth [OF assms(1)] by (cases "i < length a") (auto simp: edge_def less_Suc_eq)

lemma grown_reach:
  assumes "arena_ok a" "p < length a" "ck_childs k = []"
  shows "reach (grown_arena a p k) i j \<longleftrightarrow> reach a i j \<or> j = length a \<and> reach a i p"
proof
  assume "reach (grown_arena a p k) i j"
  then show "reach a i j \<or> j = length a \<and> reach a i p"
  proof (induction rule: rtranclp_induct)
    case (step y z)
    from step(2) have e: "edge a y z \<or> y = p \<and> z = length a" by (simp add: grown_edge [OF assms(2,3)])
    show ?case
    proof (cases "reach a i y")
      case True
      with e show ?thesis by (auto intro: rtranclp.rtrancl_into_rtrancl)
    next
      case False
      with step(3) have "y = length a" by simp
      moreover have "\<not> edge a (length a) z" by (simp add: edge_def)
      ultimately show ?thesis using e assms(2) by auto
    qed
  qed simp
next
  have mono: "reach (grown_arena a p k) i j" if "reach a i j" for i j
    using that by (rule rtranclp_mono [THEN predicate2D, rotated]) (simp add: grown_edge [OF assms(2,3)] predicate2I)
  have last: "edge (grown_arena a p k) p (length a)" by (simp add: grown_edge [OF assms(2,3)])
  assume "reach a i j \<or> j = length a \<and> reach a i p"
  then show "reach (grown_arena a p k) i j" using mono last by (auto intro: rtranclp.rtrancl_into_rtrancl)
qed

lemma grown_ok:
  assumes "arena_ok a" "p < length a" "k = chunk_new b m (Some p)" "b_height b = ck_height (a ! p) + 1"
  shows "arena_ok (grown_arena a p k)"
proof -
  have cs: "ck_childs k = []" using assms(3) by (simp add: chunk_new_def)
  show ?thesis unfolding arena_ok_def
  proof (intro allI impI conjI ballI)
    fix i assume i: "i < length (grown_arena a p k)"
    show "distinct (ck_childs (grown_arena a p k ! i))"
      using i grown_nth [OF assms(2), where k = k] arena_distinct [OF assms(1), of i] arena_child(2) [OF assms(1), of i "length a"] cs
      by (auto simp: less_Suc_eq)
    fix c assume c: "c \<in> set (ck_childs (grown_arena a p k ! i))"
    then have e: "edge a i c \<or> i = p \<and> c = length a"
      using i by (simp add: edge_def [of "grown_arena a p k" i c] flip: grown_edge [OF assms(2) cs])
    consider (old) "edge a i c" "i < c" "c < length a" "ck_parent (a ! c) = Some i" "ck_height (a ! c) = ck_height (a ! i) + 1"
      | (new) "i = p" "c = length a" using e edge_ok [OF assms(1), of i c] by blast
    then show "i < c" "c < length (grown_arena a p k)" "ck_parent (grown_arena a p k ! c) = Some i"
      "ck_height (grown_arena a p k ! c) = ck_height (grown_arena a p k ! i) + 1"
      using grown_nth [OF assms(2), where k = k] assms(2-4) by (cases; simp add: chunk_new_def)+
  qed
qed

text \<open>The tree right after the new node is attached.\<close>

definition attached :: "roller \<Rightarrow> nat \<Rightarrow> blk \<Rightarrow> memmap \<Rightarrow> roller" where
  "attached r p b m = r\<lparr>arena := grown_arena (arena r) p (chunk_new b m (Some p))\<rparr>"

lemma attached_fields [simp]:
  "root_id (attached r p b m) = root_id r" "head_id (attached r p b m) = head_id r" "level (attached r p b m) = level r"
  "pins (attached r p b m) = pins r" "arena (attached r p b m) = grown_arena (arena r) p (chunk_new b m (Some p))"
  by (simp_all add: attached_def)

lemma attached_nodes:
  assumes "p < length (arena r)"
  shows "i < length (arena r) \<Longrightarrow> height_of (attached r p b m) i = height_of r i"
    "i < length (arena r) \<Longrightarrow> hash_of (attached r p b m) i = hash_of r i"
    "height_of (attached r p b m) (length (arena r)) = b_height b" "hash_of (attached r p b m) (length (arena r)) = b_hash b"
  using grown_nth [OF assms, where k = "chunk_new b m (Some p)"] by (simp_all add: height_of_def hash_of_def chunk_new_def)

lemma attached_reach:
  assumes "tree_base r" "p < length (arena r)"
  shows "reach (arena (attached r p b m)) i j \<longleftrightarrow> reach (arena r) i j \<or> j = length (arena r) \<and> reach (arena r) i p"
  using grown_reach [OF tree_baseD(1) [OF assms(1)] assms(2), of "chunk_new b m (Some p)"] by (simp add: chunk_new_def)

lemma attached_base:
  assumes "tree_base r" "reach (arena r) (root_id r) p" "b_height b = height_of r p + 1"
  shows "tree_base (attached r p b m)"
proof -
  note ok = tree_baseD [OF assms(1)]
  have p: "p < length (arena r)" using reach_less [OF assms(2) ok(1,2)] by simp
  have "reach (arena (attached r p b m)) (root_id r) (head_id r)" using attached_reach [OF assms(1) p] ok(4) by blast
  with ok grown_nth(3) [OF p] grown_ok [OF ok(1) p refl] assms(3) show ?thesis
    by (auto simp: tree_base_def height_of_def)
qed

lemma append_child_cases:
  assumes "p < length (arena r)"
  shows "append_child p (length (arena r)) fast (r\<lparr>arena := arena r @ [chunk_new b m (Some p)]\<rparr>) = (res, r') \<Longrightarrow>
    (res = Inr () \<and> r' = attached r p b m) \<or> (\<exists>e. res = Inl e \<and> \<not> fast \<and> (b_height b \<noteq> height_of r p + 1 \<or>
      (\<exists>x \<in> set (ck_childs (arena r ! p)). x = length (arena r) \<or> (arena r @ [chunk_new b m (Some p)]) ! x = chunk_new b m (Some p) \<or>
         ck_hash ((arena r @ [chunk_new b m (Some p)]) ! x) = b_hash b)))"
  using assms
  by (auto simp: append_child_def push_child_def attached_def grown_arena_def nth_append height_of_def hash_of_def chunk_new_def
      list_ex_iff split: if_splits)

text \<open>What an insertion below a node of the tree does.\<close>

lemma insert_child_ok:
  assumes ok: "tree_ok r" and p: "reach (arena r) (root_id r) p" and bh: "b_height b = height_of r p + 1"
    and op: "insert_child p b m fast r = (Inr (rc, hc), r')"
  shows "tree_ok r' \<and> arena r' = arena (attached r p b m) \<and> level r' = level r \<and> pins r' = pins r \<and>
    hc = (if b_height b > head_height r then Some (length (arena r)) else None) \<and>
    head_id r' = (if b_height b > head_height r then length (arena r) else head_id r) \<and>
    (if b_height b > root_height r + level r
     then rc = Some (root_id r') \<and> edge (arena r') (root_id r) (root_id r') \<and> root_height r' = root_height r + 1 \<and>
       reach (arena r') (root_id r') (head_id r')
     else rc = None \<and> root_id r' = root_id r)"
proof -
  let ?c = "length (arena r)" let ?t = "attached r p b m"
  note base = tree_okD(1) [OF ok]
  have pl: "p < length (arena r)" using reach_less [OF p tree_baseD(1,2) [OF base]] by simp
  note base1 = attached_base [OF base p bh, of m]
  note nodes = attached_nodes [OF pl, where b = b and m = m]
  have reach1: "reach (arena ?t) i j \<longleftrightarrow> reach (arena r) i j \<or> j = ?c \<and> reach (arena r) i p" for i j
    by (rule attached_reach [OF base pl])
  have inb: "reach (arena r) (root_id r) j \<Longrightarrow> j < ?c" for j using reach_less [OF _ tree_baseD(1,2) [OF base]] by blast
  have hh: "head_height ?t = head_height r" "root_height ?t = root_height r"
    using nodes(1) tree_baseD(2,3) [OF base] by (simp_all add: head_height_def root_height_def)
  obtain rc' hc' where ins: "roller_insert p ?c fast (r\<lparr>arena := arena r @ [chunk_new b m (Some p)]\<rparr>) = (Inr (rc', hc'), r')"
    "rc' = rc" "hc' = hc" using op by (auto simp: insert_child_def)
  from ins(1) obtain t where ap: "append_child p ?c fast (r\<lparr>arena := arena r @ [chunk_new b m (Some p)]\<rparr>) = (Inr (), t)"
    by (auto simp: roller_insert_def bindS_eq_Inr)
  have t: "t = ?t" using append_child_cases [OF pl ap] by auto
  have top: "b_height b \<le> head_height r + 1" using tree_okD(2) [OF ok p] bh by simp
  show ?thesis
  proof (cases "b_height b > head_height r")
    case False
    then have r': "r' = ?t" "rc = None" "hc = None"
      using ins ap t nodes(3) hh by (auto simp: roller_insert_def bindS_eq_Inr)
    have "height_of ?t j \<le> head_height r" if "reach (arena ?t) (root_id r) j" for j
    proof (cases "j = ?c")
      case True
      with nodes(3) False show ?thesis by simp
    next
      case False
      with that reach1 have "reach (arena r) (root_id r) j" by blast
      with tree_okD(2) [OF ok] nodes(1) inb show ?thesis by simp
    qed
    then have "tree_ok ?t" using base1 hh tree_okD(3) [OF ok] by (simp add: tree_ok_def)
    moreover have "\<not> b_height b > root_height r + level r" using False tree_okD(3) [OF ok] by simp
    ultimately show ?thesis using r' False by simp
  next
    case True
    let ?h = "?t\<lparr>head_id := ?c\<rparr>"
    have eqs: "head_height ?h = b_height b" "root_height ?h = root_height r" "height_of ?h = height_of ?t"
      using nodes(3) hh by (auto simp: head_height_def root_height_def height_of_def)
    have rp: "reach (arena ?t) (root_id r) ?c" using reach1 p by blast
    have baseh: "tree_base ?h" using base1 rp grown_nth(3) [OF pl] by (auto simp: tree_base_def)
    have mx: "height_of ?t j \<le> b_height b" if "reach (arena ?t) (root_id r) j" for j
    proof (cases "j = ?c")
      case False
      with that reach1 have "reach (arena r) (root_id r) j" by blast
      with tree_okD(2) [OF ok] nodes(1) inb True show ?thesis by fastforce
    qed (use nodes(3) in simp)
    show ?thesis
    proof (cases "b_height b > root_height r + level r")
      case False
      then have r': "r' = ?h" "rc = None" "hc = Some ?c"
        using ins ap t nodes(3) hh eqs True by (auto simp: roller_insert_def bindS_eq_Inr)
      then have "tree_ok r'" using baseh mx eqs False by (simp add: tree_ok_def)
      with r' True False show ?thesis by simp
    next
      case deep: True
      have range: "height_of ?h (root_id ?h) \<le> root_height r + 1" "root_height r + 1 \<le> height_of ?h ?c" using eqs nodes(3) deep by (simp_all add: root_height_def)
      obtain nr where nr: "trace_parent ?h ?c (root_height r + 1) = Some nr" "chain_at ?h (root_id ?h) ?c (root_height r + 1) nr"
        using trace_parent_ok [OF baseh alive_root [OF baseh] _ range] rp by auto
      have r': "r' = ?h\<lparr>root_id := nr\<rparr>" "rc = Some nr" "hc = Some ?c"
        using ins ap t nodes(3) hh eqs True deep nr(1) by (auto simp: roller_insert_def bindS_eq_Inr)
      from nr(2) have ch: "reach (arena ?t) (root_id r) nr" "reach (arena ?t) nr ?c" "height_of ?t nr = root_height r + 1"
        using eqs(3) by (simp_all add: chain_at_def)
      have e: "edge (arena ?t) (root_id r) nr"
      proof -
        have "nr \<noteq> root_id r" using ch(3) hh by (auto simp: root_height_def)
        with ch(1) obtain q where q: "reach (arena ?t) (root_id r) q" "edge (arena ?t) q nr" by (auto elim: rtranclp.cases)
        have "height_of ?t q = root_height r" using edge_ok [OF tree_baseD(1) [OF base1] q(2)] ch(3) by (simp add: height_of_def)
        then have "q = root_id r"
          using chain_unique [OF tree_baseD(1) [OF base1] q(1) rtranclp.rtrancl_refl] hh by (simp add: root_height_def height_of_def)
        with q(2) show ?thesis by simp
      qed
      have rh: "root_height r' = root_height r + 1" "head_height r' = b_height b" "height_of r' = height_of ?t"
        using r' ch(3) eqs by (auto simp: root_height_def head_height_def height_of_def)
      have "reach (arena r') (root_id r') j \<Longrightarrow> reach (arena ?t) (root_id r) j" for j
        using r' ch(1) by auto
      then have "tree_ok r'"
        using baseh r' ch rh mx top tree_okD(3) [OF ok] reach_less [OF ch(1) tree_baseD(1) [OF base1]] tree_baseD(2) [OF base1]
        by (auto simp: tree_ok_def tree_base_def)
      with r' rh e ch True deep show ?thesis by simp
    qed
  qed
qed

end
