(* ===== verification/ChainState.thy ===== *)
theory ChainState
  imports ForkTree
begin

text \<open>
  The layered state of the chain (\<^verbatim>\<open>chain/src/state.rs\<close>, \<^verbatim>\<open>basis/src/component/memkv.rs\<close>): every
  block of the tree holds the changes it made in a memory layer; a read falls through to the
  layer of the parent while that parent is alive, and to the disk otherwise. The chain view of a
  block, defined without any notion of liveness, is what a read should return.
\<close>

type_synonym disk = "u8 list \<Rightarrow> u8 list option"

definition mem_new :: memmap where "mem_new = (\<lambda>_. None)"
definition mem_put :: "u8 list \<Rightarrow> u8 list \<Rightarrow> memmap \<Rightarrow> memmap" where "mem_put k v m = m(k := Some (Some v))"
definition mem_del :: "u8 list \<Rightarrow> memmap \<Rightarrow> memmap" where "mem_del k m = m(k := Some None)"

text \<open>Writing a layer to disk, and merging a layer into the one below it.\<close>

definition disk_write :: "memmap \<Rightarrow> disk \<Rightarrow> disk" where
  "disk_write m d = (\<lambda>k. case m k of None \<Rightarrow> d k | Some v \<Rightarrow> v)"

definition merge_sub :: "memmap \<Rightarrow> memmap \<Rightarrow> memmap" where
  "merge_sub sta m = (\<lambda>k. case sta k of None \<Rightarrow> m k | Some v \<Rightarrow> Some v)"

text \<open>Reading through the layers. A node is created after its parent, so the test \<open>p < i\<close> is true
  wherever the code can go.\<close>

function state_get :: "roller \<Rightarrow> disk \<Rightarrow> nat \<Rightarrow> disk" where
  "state_get r d i k =
     (case ck_mem (arena r ! i) k of
        Some v \<Rightarrow> v
      | None \<Rightarrow> (case parent_of r i of
          Some p \<Rightarrow> if p < i then state_get r d p k else d k
        | None \<Rightarrow> d k))"
  by pat_completeness auto
termination by (relation "measure (\<lambda>(_, _, i, _). i)") auto

declare state_get.simps [simp del]

text \<open>A layer on top of a node, as during the execution of a block.\<close>

definition sub_state_get :: "memmap \<Rightarrow> disk \<Rightarrow> disk" where
  "sub_state_get m parent = (\<lambda>k. case m k of Some v \<Rightarrow> v | None \<Rightarrow> parent k)"

function chain_view :: "chunk list \<Rightarrow> disk \<Rightarrow> nat \<Rightarrow> disk" where
  "chain_view a d0 i k =
     (case ck_mem (a ! i) k of
        Some v \<Rightarrow> v
      | None \<Rightarrow> (case ck_parent (a ! i) of
          Some p \<Rightarrow> if p < i then chain_view a d0 p k else d0 k
        | None \<Rightarrow> d0 k))"
  by pat_completeness auto
termination by (relation "measure (\<lambda>(_, _, i, _). i)") auto

declare chain_view.simps [simp del]

section \<open>Layers\<close>

lemma merge_sub_get: "sub_state_get (merge_sub sta m) v = sub_state_get sta (sub_state_get m v)"
  by (rule ext) (simp add: sub_state_get_def merge_sub_def split: option.split)

lemma disk_write_sub: "disk_write m d = sub_state_get m d"
  by (simp add: disk_write_def sub_state_get_def)

lemma sub_state_get_put: "sub_state_get (mem_put k v m) d = (sub_state_get m d)(k := Some v)"
  "sub_state_get (mem_del k m) d = (sub_state_get m d)(k := None)"
  by (rule ext, simp add: sub_state_get_def mem_put_def mem_del_def)+

section \<open>The view of the tree\<close>

lemma chain_view_edge:
  assumes "arena_ok a" "edge a p i"
  shows "chain_view a d0 i = sub_state_get (ck_mem (a ! i)) (chain_view a d0 p)"
  using edge_ok [OF assms] by (intro ext) (simp add: chain_view.simps [of a d0 i] sub_state_get_def split: option.split)

lemma parent_of_parent: "parent_of r i = Some p \<Longrightarrow> ck_parent (arena r ! i) = Some p"
  by (simp add: parent_of_def split: option.splits if_splits)

text \<open>Above the block whose view is on disk, a dead parent is as good as a live one.\<close>

lemma state_get_above:
  "chain_view (arena r) d0 n k = d k \<Longrightarrow> state_get r d n k = d k"
proof (induction n rule: less_induct)
  case (less n)
  note sg = state_get.simps [of r d n k] and cv = chain_view.simps [of "arena r" d0 n k]
  show ?case
  proof (cases "ck_mem (arena r ! n) k")
    case None
    show ?thesis
    proof (cases "parent_of r n")
      case (Some p)
      with None less.IH [of p] less.prems parent_of_parent [OF Some] show ?thesis by (auto simp: sg cv)
    qed (simp add: sg None)
  qed (use less.prems in \<open>simp add: sg cv\<close>)
qed

lemma state_get_chain_view:
  assumes ok: "tree_base r" and t: "alive r t" and d: "d = chain_view (arena r) d0 t" and n: "reach (arena r) t n"
  shows "state_get r d n = chain_view (arena r) d0 n"
  using n
proof (induction rule: rtranclp_induct)
  case base
  show ?case using state_get_above [of r d0 t _ d] d by auto
next
  case (step y z)
  from edge_ok [OF tree_baseD(1) [OF ok] step(2)] have z: "y < z" "ck_parent (arena r ! z) = Some y" by simp_all
  have "parent_of r z = Some y" using z alive_reach [OF ok t step(1)] by (simp add: parent_of_def)
  then have "state_get r d z = sub_state_get (ck_mem (arena r ! z)) (state_get r d y)"
    using z(1) by (intro ext) (simp add: state_get.simps [of r d z] sub_state_get_def split: option.split)
  then show ?case using step.IH chain_view_edge [OF tree_baseD(1) [OF ok] step(2)] by simp
qed

lemma chain_view_grown:
  assumes "p < length a"
  shows "i < length a \<Longrightarrow> chain_view (grown_arena a p c) d0 i = chain_view a d0 i"
proof (induction i rule: less_induct)
  case (less i)
  have g: "ck_mem (grown_arena a p c ! i) = ck_mem (a ! i)" "ck_parent (grown_arena a p c ! i) = ck_parent (a ! i)"
    using grown_nth(1) [OF assms less.prems] by simp_all
  show ?case
  proof
    fix k
    show "chain_view (grown_arena a p c) d0 i k = chain_view a d0 i k"
      using less.IH less.prems
      by (auto simp: chain_view.simps [of _ d0 i k] g split: option.split)
  qed
qed

end
