(* ===== verification/ChainEngine.thy ===== *)
theory ChainEngine
  imports ChainState
begin

text \<open>
  Block insertion and its persistence (\<^verbatim>\<open>chain/src/insert.rs\<close>, \<open>impl.rs\<close>, \<open>sync.rs\<close>). \<open>insert_by\<close>
  checks a block, executes it over the state of its parent and attaches it to the tree; \<open>roll_by\<close>
  writes what became permanent. A block found on the network does one after the other; bulk
  synchronisation runs them in two threads joined by a channel, which is the transition system at
  the end. The consensus gates, the execution of a block and the decoders of blocks and block headers are
  parameters; the contents of event logs, the caches of recent blocks and the callbacks to the
  miner after a roll are not modelled.
\<close>

datatype blk_origin = OriginUnknown | Rebuild | Sync | Discover | Mint

datatype head_change_kind = HeadNone | Extend | Reorg

record blk_pkg =
  pk_block :: blk
  pk_origin :: blk_origin

record insert_result =
  ir_old_root_hold :: "nat option"
  ir_old_root_height :: nat
  ir_root_change :: "nat option"
  ir_head_change :: "nat option"
  ir_head_change_kind :: head_change_kind
  ir_hash :: hash
  ir_block :: blk_pkg

record chain_env =
  ce_limits :: chain_limits
  ce_fast_sync :: bool
  ce_hash :: "u8 list \<Rightarrow> hash"
  ce_intro_build :: "u8 list \<Rightarrow> blk option"
  ce_block_create :: "u8 list \<Rightarrow> blk option"
  ce_blk_verify :: "blk \<Rightarrow> blk \<Rightarrow> nat \<times> (nat \<Rightarrow> blk option) \<Rightarrow> unit ret"
  ce_execute :: "bool \<Rightarrow> blk \<Rightarrow> disk \<Rightarrow> memmap ret"
  ce_blk_insert :: "blk_pkg \<Rightarrow> disk \<Rightarrow> disk \<Rightarrow> unit ret"

record engine =
  en_tree :: roller
  st_data :: "hash \<Rightarrow> u8 list option"
  st_idx :: "nat \<Rightarrow> hash option"
  st_status :: "(nat \<times> nat) option"
  en_state_disk :: disk

definition block_data_by_height :: "engine \<Rightarrow> nat \<Rightarrow> (hash \<times> u8 list) option" where
  "block_data_by_height e hei =
     (case st_idx e hei of None \<Rightarrow> None
      | Some hx \<Rightarrow> (case st_data e hx of None \<Rightarrow> None | Some d \<Rightarrow> Some (hx, d)))"

text \<open>The header lookup handed to the consensus gate: above the root from the tree, else from the store.\<close>

definition block_intro :: "chain_env \<Rightarrow> engine \<Rightarrow> nat \<Rightarrow> nat \<Rightarrow> nat \<Rightarrow> blk option" where
  "block_intro env e anchor rhei hei =
     (if hei > rhei then map_option (\<lambda>i. ck_block (arena (en_tree e) ! i)) (ancestor_at (en_tree e) anchor hei)
      else case block_data_by_height e hei of None \<Rightarrow> None | Some (_, d) \<Rightarrow> ce_intro_build env d)"

definition on_tree :: "(roller, 'a) st \<Rightarrow> (engine, 'a) st" where
  "on_tree f = (\<lambda>e. case f (en_tree e) of (res, t) \<Rightarrow> (res, e\<lparr>en_tree := t\<rparr>))"

text \<open>The references that a result keeps alive, until it is consumed.\<close>

definition held :: "insert_result \<Rightarrow> nat list" where
  "held x = (case ir_old_root_hold x of None \<Rightarrow> [] | Some i \<Rightarrow> [i]) @
     (case ir_root_change x of None \<Rightarrow> [] | Some i \<Rightarrow> [i]) @ (case ir_head_change x of None \<Rightarrow> [] | Some i \<Rightarrow> [i])"

definition set_pins :: "nat list \<Rightarrow> engine \<Rightarrow> engine" where
  "set_pins ps e = e\<lparr>en_tree := (en_tree e)\<lparr>pins := ps\<rparr>\<rparr>"

definition unpin :: "nat option \<Rightarrow> engine \<Rightarrow> engine" where
  "unpin x e = (case x of None \<Rightarrow> e | Some i \<Rightarrow> set_pins (remove1 i (pins (en_tree e))) e)"

definition is_fast :: "chain_env \<Rightarrow> blk_pkg \<Rightarrow> bool" where
  "is_fast env pkg \<longleftrightarrow> ce_fast_sync env \<and> pk_origin pkg = Sync \<or> pk_origin pkg = Rebuild"

definition gate_before :: "chain_env \<Rightarrow> nat \<Rightarrow> blk \<Rightarrow> nat \<Rightarrow> engine \<Rightarrow> unit ret" where
  "gate_before env cur_time b parent e =
     (let tree = en_tree e; pblk = ck_block (arena tree ! parent); rhei = root_height tree in
      if has_child_hash tree parent (b_hash b) then Inl (Fault ''block already exists'')
      else bindR (ce_blk_verify env b pblk (rhei, block_intro env e parent rhei)) (\<lambda>_.
        block_verify (ce_hash env) (ce_limits env) cur_time b (length (b_data b)) pblk))"

definition insert_by :: "chain_env \<Rightarrow> nat \<Rightarrow> blk_pkg \<Rightarrow> (engine, insert_result) st" where
  "insert_by env cur_time pkg =
     bindS (getsS (\<lambda>e. e)) (\<lambda>e.
     let b = pk_block pkg; fast = is_fast env pkg; tree = en_tree e; old_root_height = root_height tree in
     if b_height b \<le> old_root_height \<or> b_height b > head_height tree + 1 then failS (Fault ''insert height'')
     else case quick_find tree (b_prevhash b) of None \<Rightarrow> failS (Fault ''prev block not found'') | Some parent \<Rightarrow>
     if height_of tree parent + 1 \<noteq> b_height b then failS (Fault ''prev block not found'')
     else bindS (liftS (if fast then Inr () else gate_before env cur_time b parent e)) (\<lambda>_.
       let prev_state = state_get tree (en_state_disk e) parent in
       bindS (liftS (ce_execute env fast b prev_state)) (\<lambda>m.
       bindS (liftS (if fast then Inr () else ce_blk_insert env pkg (sub_state_get m prev_state) prev_state)) (\<lambda>_.
       bindS (on_tree (insert_child parent b m fast)) (\<lambda>(rc, hc).
       let x = \<lparr>ir_old_root_hold = (if rc \<noteq> None then Some (root_id tree) else None),
                ir_old_root_height = old_root_height, ir_root_change = rc, ir_head_change = hc,
                ir_head_change_kind = (if hc = None then HeadNone else if parent = head_id tree then Extend else Reorg),
                ir_hash = b_hash b, ir_block = pkg\<rparr> in
       bindS (modifyS (\<lambda>e. set_pins (pins (en_tree e) @ held x) e)) (\<lambda>_. returnS x))))))"

section \<open>Making it permanent\<close>

text \<open>The state layer of the new root goes to disk, then the old root is released.\<close>

definition roll_state :: "insert_result \<Rightarrow> engine \<Rightarrow> engine" where
  "roll_state x e = (case ir_root_change x of None \<Rightarrow> e
     | Some n \<Rightarrow> unpin (ir_old_root_hold x)
         (e\<lparr>en_state_disk := disk_write (ck_mem (arena (en_tree e) ! n)) (en_state_disk e)\<rparr>))"

definition put_all :: "(nat \<times> hash) list \<Rightarrow> (nat \<Rightarrow> hash option) \<Rightarrow> nat \<Rightarrow> hash option" where
  "put_all l m = fold (\<lambda>(h, x) m. m(h := Some x)) l m"

text \<open>The batch for the block store: the data of the block, and on a new head the status and the
  index from heights to hashes, one entry when the head was extended and the whole unstable chain
  when it moved to another branch.\<close>

definition roll_store :: "insert_result \<Rightarrow> engine \<Rightarrow> engine ret" where
  "roll_store x e =
     (let pkg = ir_block x; tree = en_tree e;
          e1 = e\<lparr>st_data := (st_data e)(ir_hash x := Some (b_data (pk_block pkg)))\<rparr> in
      if pk_origin pkg = Rebuild then Inr e
      else case ir_head_change x of None \<Rightarrow> Inr e1
      | Some nh \<Rightarrow>
         (let real_root_hei = (case ir_root_change x of None \<Rightarrow> ir_old_root_height x | Some rt \<Rightarrow> height_of tree rt);
              e2 = e1\<lparr>st_status := Some (real_root_hei, height_of tree nh)\<rparr> in
          if ir_head_change_kind x = Reorg then
            if height_of tree nh < real_root_hei then Inl (Fault ''invalid reorg depth'')
            else Inr (e2\<lparr>st_idx := put_all (collect_back_hashes tree nh (height_of tree nh - real_root_hei + 1)) (st_idx e2)\<rparr>)
          else Inr (e2\<lparr>st_idx := (st_idx e2)(height_of tree nh := Some (hash_of tree nh))\<rparr>)))"

definition release :: "insert_result \<Rightarrow> engine \<Rightarrow> engine" where
  "release x e = unpin (ir_head_change x) (unpin (ir_root_change x) e)"

definition roll_by :: "insert_result \<Rightarrow> (engine, unit) st" where
  "roll_by x e =
     (let e1 = roll_state x e in
      case roll_store x e1 of Inl err \<Rightarrow> (Inl err, release x e1) | Inr e2 \<Rightarrow> (Inr (), release x e2))"

definition discover :: "chain_env \<Rightarrow> nat \<Rightarrow> blk_pkg \<Rightarrow> (engine, unit) st" where
  "discover env cur_time pkg = bindS (insert_by env cur_time pkg) roll_by"

section \<open>The pipeline\<close>

definition engine_open :: "blk \<Rightarrow> nat \<Rightarrow> disk \<Rightarrow> engine \<Rightarrow> engine" where
  "engine_open rtblk lv disk0 store = store\<lparr>en_tree := roller_new rtblk mem_new lv, en_state_disk := disk0\<rparr>"

text \<open>Reopening (\<^verbatim>\<open>chain/src/init.rs\<close>): the root is the block that the stored status names, and the blocks that the index
  names above it are executed again, one height after the other, until there is none. The loop has no bound, so it runs on
  fuel. What is parsed keeps the stored bytes as its data. The rebuild of a missing state directory from the first block is
  not modelled.\<close>

definition load_block_by_height :: "chain_env \<Rightarrow> engine \<Rightarrow> nat \<Rightarrow> (hash \<times> blk) option" where
  "load_block_by_height env e hei =
     (case block_data_by_height e hei of None \<Rightarrow> None
      | Some (hx, d) \<Rightarrow> (case ce_block_create env d of None \<Rightarrow> None | Some b \<Rightarrow> Some (hx, b\<lparr>b_data := d\<rparr>)))"

definition load_root_block :: "chain_env \<Rightarrow> blk \<Rightarrow> engine \<Rightarrow> blk ret" where
  "load_root_block env genesis store =
     (let rhein = (case st_status store of None \<Rightarrow> 0 | Some (root, _) \<Rightarrow> root) in
      if rhein = 0 then Inr genesis
      else case load_block_by_height env store rhein of
             None \<Rightarrow> Inl (Panic ''cannot load root block'') | Some (_, b) \<Rightarrow> Inr b)"

fun rebuild_loop :: "nat \<Rightarrow> chain_env \<Rightarrow> nat \<Rightarrow> nat \<Rightarrow> engine \<Rightarrow> (unit ret \<times> engine) option" where
  "rebuild_loop 0 env cur_time next_height e = None"
| "rebuild_loop (Suc n) env cur_time next_height e =
     (case load_block_by_height env e next_height of
        None \<Rightarrow> Some (Inr (), e)
      | Some (_, block) \<Rightarrow>
         (case insert_by env cur_time \<lparr>pk_block = block, pk_origin = Rebuild\<rparr> e of
            (Inl err, e') \<Rightarrow> Some (Inl (Panic ''rebuild block state error''), e')
          | (Inr x, e') \<Rightarrow> (case roll_by x e' of
               (Inl err, e'') \<Rightarrow> Some (Inl (Panic ''called unwrap on an Err value''), e'')
             | (Inr _, e'') \<Rightarrow> rebuild_loop n env cur_time (next_height + 1) e'')))"

definition rebuild_unstable_blocks :: "nat \<Rightarrow> chain_env \<Rightarrow> nat \<Rightarrow> engine \<Rightarrow> (unit ret \<times> engine) option" where
  "rebuild_unstable_blocks n env cur_time e = rebuild_loop n env cur_time (root_height (en_tree e) + 1) e"

definition engine_reopen :: "nat \<Rightarrow> chain_env \<Rightarrow> nat \<Rightarrow> blk \<Rightarrow> nat \<Rightarrow> disk \<Rightarrow> engine \<Rightarrow> (unit ret \<times> engine) option" where
  "engine_reopen n env cur_time genesis lv disk0 store =
     (case load_root_block env genesis store of
        Inl err \<Rightarrow> Some (Inl err, store)
      | Inr rtblk \<Rightarrow> rebuild_unstable_blocks n env cur_time (engine_open rtblk lv disk0 store))"

text \<open>The inserting thread sends its results through the channel, the rolling thread consumes them in order.
  \<open>og\<close> says which origins occur.\<close>

inductive pipe_reach :: "chain_env \<Rightarrow> (blk_origin \<Rightarrow> bool) \<Rightarrow> engine \<Rightarrow> engine \<Rightarrow> insert_result list \<Rightarrow> bool"
  for env og e0 where
  pipe_start: "pipe_reach env og e0 e0 []"
| pipe_insert: "pipe_reach env og e0 e q \<Longrightarrow> og (pk_origin pkg) \<Longrightarrow> insert_by env cur_time pkg e = (Inr x, e') \<Longrightarrow>
    pipe_reach env og e0 e' (q @ [x])"
| pipe_reject: "pipe_reach env og e0 e q \<Longrightarrow> insert_by env cur_time pkg e = (Inl err, e') \<Longrightarrow> pipe_reach env og e0 e' q"
| pipe_roll: "pipe_reach env og e0 e (x # q) \<Longrightarrow> roll_by x e = (res, e') \<Longrightarrow> pipe_reach env og e0 e' q"

end
