(* ===== verification/ChainPipeline.thy ===== *)
theory ChainPipeline
  imports ChainEngine
begin

text \<open>
  What the insertion pipeline guarantees at every moment: the tree is well formed, a read of the
  state of any block in it returns what that block's chain wrote, and the block store always
  indexes the chain of the last committed head.
\<close>

section \<open>One insertion\<close>

lemma tree_ok_pins: "tree_ok r \<Longrightarrow> \<forall>p \<in> set ps. p < length (arena r) \<Longrightarrow> tree_ok (r\<lparr>pins := ps\<rparr>)"
  by (simp add: tree_ok_def tree_base_def height_of_def head_height_def root_height_def)

lemma set_pins_fields [simp]:
  "en_tree (set_pins ps e) = (en_tree e)\<lparr>pins := ps\<rparr>" "st_data (set_pins ps e) = st_data e" "st_idx (set_pins ps e) = st_idx e"
  "st_status (set_pins ps e) = st_status e" "en_state_disk (set_pins ps e) = en_state_disk e"
  by (simp_all add: set_pins_def)

definition item_ok :: "chunk list \<Rightarrow> nat \<Rightarrow> nat \<Rightarrow> insert_result \<Rightarrow> nat \<Rightarrow> nat \<Rightarrow> bool" where
  "item_ok a rt ch x nr nh \<longleftrightarrow> rt < length a \<and> ir_old_root_height x = ck_height (a ! rt) \<and>
     (case ir_root_change x of None \<Rightarrow> nr = rt \<and> ir_old_root_hold x = None
      | Some n \<Rightarrow> nr = n \<and> ir_old_root_hold x = Some rt \<and> edge a rt n \<and> ir_head_change x \<noteq> None) \<and>
     (case ir_head_change x of None \<Rightarrow> nh = ch
      | Some n \<Rightarrow> nh = n \<and> (ir_head_change_kind x = Reorg \<or> ir_head_change_kind x = Extend \<and> edge a ch n)) \<and>
     reach a nr nh"

lemma item_held: "arena_ok a \<Longrightarrow> item_ok a rt ch x nr nh \<Longrightarrow> p \<in> set (held x) \<Longrightarrow> p < length a"
  using reach_less [of a nr nh] edge_ok [of a rt nr]
  by (auto simp: item_ok_def held_def split: option.splits)

lemma insert_child_err:
  assumes "\<not> has_child_hash r p (b_hash b) \<or> fast" "tree_ok r" "reach (arena r) (root_id r) p" "b_height b = height_of r p + 1"
  shows "\<exists>y r'. insert_child p b m fast r = (Inr y, r')"
proof -
  let ?c = "length (arena r)"
  note base = tree_okD(1) [OF assms(2)]
  have pl: "p < length (arena r)" using reach_less [OF assms(3) tree_baseD(1,2) [OF base]] by simp
  obtain res t where ap: "append_child p ?c fast (r\<lparr>arena := arena r @ [chunk_new b m (Some p)]\<rparr>) = (res, t)" by fastforce
  have t: "res = Inr ()" "t = attached r p b m"
    using append_child_cases [OF pl ap] assms(1,4) arena_child(2) [OF tree_baseD(1) [OF base] pl]
    by (auto simp: nth_append has_child_hash_def list_ex_iff hash_of_def chunk_new_def)
  note base1 = attached_base [OF base assms(3,4), of m]
  have nodes: "height_of (attached r p b m) ?c = b_height b" "height_of (attached r p b m) (root_id r) = root_height r"
    using attached_nodes [OF pl, where b = b and m = m] tree_baseD(2) [OF base] by (simp_all add: root_height_def)
  let ?h = "attached r p b m\<lparr>head_id := ?c\<rparr>"
  have baseh: "tree_base ?h"
    using base1 attached_reach [OF base pl, of b m "root_id r" ?c] assms(3) grown_nth(3) [OF pl] by (auto simp: tree_base_def)
  show ?thesis
  proof (cases "b_height b > root_height r + level r")
    case True
    have "\<exists>n. trace_parent ?h ?c (root_height r + 1) = Some n"
      using trace_parent_ok [OF baseh alive_root [OF baseh], of ?c "root_height r + 1"] attached_reach [OF base pl, of b m "root_id r" ?c]
        assms(3) nodes True by (auto simp: height_of_def)
    then show ?thesis using ap t nodes True
      by (auto simp: insert_child_def roller_insert_def bindS_def root_height_def head_height_def height_of_def)
  qed (use ap t nodes in \<open>auto simp: insert_child_def roller_insert_def bindS_def root_height_def head_height_def height_of_def\<close>)
qed

lemma on_tree_eq: "on_tree f e = (res, e') \<longleftrightarrow> (\<exists>t. f (en_tree e) = (res, t) \<and> e' = e\<lparr>en_tree := t\<rparr>)"
  by (auto simp: on_tree_def split: prod.splits)

text \<open>A refused block changes nothing.\<close>

lemma insert_by_err:
  assumes ok: "tree_ok (en_tree e)" and op: "insert_by env t pkg e = (Inl err, e')"
  shows "e' = e"
proof -
  let ?b = "pk_block pkg" let ?r = "en_tree e" let ?fast = "is_fast env pkg"
  note base = tree_okD(1) [OF ok]
  have no: False if "insert_child p ?b m f ?r = (Inl err, s)" "quick_find ?r (b_prevhash ?b) = Some p"
    "Suc (height_of ?r p) = b_height ?b" "f \<or> gate_before env t ?b p e = Inr ()" for p m f s
  proof -
    have "\<not> has_child_hash ?r p (b_hash ?b) \<or> f" using that(4) by (auto simp: gate_before_def Let_def split: if_splits)
    moreover have "reach (arena ?r) (root_id ?r) p" using quick_find_correct [OF base, of "b_prevhash ?b"] that(2) by simp
    ultimately show False using insert_child_err [OF _ ok, of p ?b f m] that(1,3) by auto
  qed
  show ?thesis
    using op unfolding insert_by_def Let_def
    by (auto simp: bindS_eq_Inl on_tree_eq split: if_split_asm option.splits dest: no)
qed

text \<open>An accepted block is attached below its parent; everything else is as \<open>item_ok\<close> says.\<close>

lemma insert_by_ok:
  assumes ok: "tree_ok (en_tree e)" and op: "insert_by env t pkg e = (Inr x, e')"
  obtains p m where "p < length (arena (en_tree e))" "reach (arena (en_tree e)) (root_id (en_tree e)) p"
    "arena (en_tree e') = grown_arena (arena (en_tree e)) p (chunk_new (pk_block pkg) m (Some p))"
    "b_height (pk_block pkg) = height_of (en_tree e) p + 1" "b_prevhash (pk_block pkg) = hash_of (en_tree e) p"
    "ce_execute env (is_fast env pkg) (pk_block pkg) (state_get (en_tree e) (en_state_disk e) p) = Inr m"
    "\<not> is_fast env pkg \<Longrightarrow> gate_before env t (pk_block pkg) p e = Inr ()"
    "tree_ok (en_tree e')" "pins (en_tree e') = pins (en_tree e) @ held x"
    "item_ok (arena (en_tree e')) (root_id (en_tree e)) (head_id (en_tree e)) x (root_id (en_tree e')) (head_id (en_tree e'))"
    "head_id (en_tree e') = (if b_height (pk_block pkg) > head_height (en_tree e) then length (arena (en_tree e)) else head_id (en_tree e))"
    "ir_block x = pkg" "ir_hash x = b_hash (pk_block pkg)"
    "st_data e' = st_data e" "st_idx e' = st_idx e" "st_status e' = st_status e" "en_state_disk e' = en_state_disk e"
proof -
  let ?b = "pk_block pkg" let ?r = "en_tree e" let ?fast = "is_fast env pkg"
  note base = tree_okD(1) [OF ok]
  from op obtain p m rc hc r' where qf: "quick_find ?r (b_prevhash ?b) = Some p" and ht: "b_height ?b = height_of ?r p + 1"
    and gate: "(if ?fast then Inr () else gate_before env t ?b p e) = Inr ()"
    and ex: "ce_execute env ?fast ?b (state_get ?r (en_state_disk e) p) = Inr m"
    and ins: "insert_child p ?b m ?fast ?r = (Inr (rc, hc), r')"
    and x: "x = \<lparr>ir_old_root_hold = (if rc \<noteq> None then Some (root_id ?r) else None),
                ir_old_root_height = root_height ?r, ir_root_change = rc, ir_head_change = hc,
                ir_head_change_kind = (if hc = None then HeadNone else if p = head_id ?r then Extend else Reorg),
                ir_hash = b_hash ?b, ir_block = pkg\<rparr>"
    and e': "e' = set_pins (pins r' @ held x) (e\<lparr>en_tree := r'\<rparr>)"
    unfolding insert_by_def Let_def
    by (auto simp: bindS_eq_Inr on_tree_eq split: if_split_asm option.splits)
  have p: "reach (arena ?r) (root_id ?r) p" "hash_of ?r p = b_prevhash ?b"
    using quick_find_correct [OF base, of "b_prevhash ?b"] qf by simp_all
  have pl: "p < length (arena ?r)" using reach_less [OF p(1) tree_baseD(1,2) [OF base]] by simp
  note eff = insert_child_ok [OF ok p(1) ht ins]
  have a': "arena r' = grown_arena (arena ?r) p (chunk_new ?b m (Some p))" using eff by simp
  have base': "tree_base r'" using eff by (blast dest: tree_okD(1))
  have item: "item_ok (arena r') (root_id ?r) (head_id ?r) x (root_id r') (head_id r')"
  proof -
    have "root_id ?r < length (arena r')" "ck_height (arena r' ! root_id ?r) = root_height ?r"
      using tree_baseD(2) [OF base] grown_nth [OF pl] by (simp_all add: a' root_height_def height_of_def)
    moreover have "reach (arena r') (root_id r') (head_id r')" by (rule tree_baseD(4) [OF base'])
    moreover have "edge (arena r') p (length (arena ?r))" unfolding a' by (simp add: grown_edge [OF pl] chunk_new_def)
    moreover have "b_height ?b > root_height ?r + level ?r \<Longrightarrow> b_height ?b > head_height ?r" using tree_okD(3) [OF ok] by simp
    ultimately show ?thesis using eff unfolding x item_ok_def by (auto split: if_splits)
  qed
  have pins: "\<forall>i \<in> set (pins r' @ held x). i < length (arena r')"
    using tree_baseD(5) [OF base'] item_held [OF tree_baseD(1) [OF base'] item] by auto
  have pr: "pins r' = pins ?r" "head_id r' = (if b_height ?b > head_height ?r then length (arena ?r) else head_id ?r)"
    using eff by simp_all
  have tr: "en_tree e' = r'\<lparr>pins := pins ?r @ held x\<rparr>" using eff by (simp add: e')
  show thesis
  proof (rule that [of p m])
    show "tree_ok (en_tree e')" using tree_ok_pins [OF conjunct1 [OF eff] pins] eff by (simp add: tr)
    show "item_ok (arena (en_tree e')) (root_id ?r) (head_id ?r) x (root_id (en_tree e')) (head_id (en_tree e'))"
      using item by (simp add: tr)
    show "\<not> ?fast \<Longrightarrow> gate_before env t ?b p e = Inr ()" using gate by simp
    show "head_id (en_tree e') = (if b_height ?b > head_height ?r then length (arena ?r) else head_id ?r)" by (simp add: e' pr)
  qed (use pl p ht ex a' in \<open>simp_all add: e' pr(1) x\<close>)
qed

section \<open>The queue\<close>

fun queue_ok :: "chunk list \<Rightarrow> nat \<Rightarrow> nat \<Rightarrow> insert_result list \<Rightarrow> nat \<Rightarrow> nat \<Rightarrow> bool" where
  "queue_ok a rt ch [] r h \<longleftrightarrow> rt = r \<and> ch = h"
| "queue_ok a rt ch (x # q) r h \<longleftrightarrow> (\<exists>nr nh. item_ok a rt ch x nr nh \<and> queue_ok a nr nh q r h)"

lemma queue_snoc: "queue_ok a rt ch q r h \<Longrightarrow> item_ok a r h x r' h' \<Longrightarrow> queue_ok a rt ch (q @ [x]) r' h'"
  by (induction q arbitrary: rt ch) auto

lemma item_root: "item_ok a rt ch x nr nh \<Longrightarrow> reach a rt nr"
  by (auto simp: item_ok_def split: option.splits)

lemma queue_root: "queue_ok a rt ch q r h \<Longrightarrow> reach a rt r"
  by (induction q arbitrary: rt ch) (auto dest: item_root intro: rtranclp_trans)

lemma queue_base: "queue_ok a rt ch q r h \<Longrightarrow> rt = r \<or> rt \<in> set (concat (map held q))"
proof (induction q arbitrary: rt ch)
  case (Cons x q)
  from Cons.prems obtain nr nh where x: "item_ok a rt ch x nr nh" and q: "queue_ok a nr nh q r h" by auto
  show ?case
  proof (cases "ir_root_change x")
    case None
    with x have "nr = rt" by (simp add: item_ok_def)
    with Cons.IH [OF q] show ?thesis by auto
  next
    case (Some n)
    with x show ?thesis by (simp add: item_ok_def held_def)
  qed
qed simp

lemma item_grown:
  assumes "arena_ok a" "p < length a" "ck_childs k = []" "item_ok a rt ch x nr nh"
  shows "item_ok (grown_arena a p k) rt ch x nr nh"
  using assms(4) grown_nth [OF assms(2), where k = k] grown_edge [OF assms(2,3)] grown_reach [OF assms(1-3)]
  by (auto simp: item_ok_def split: option.splits)

lemma queue_grown:
  assumes "arena_ok a" "p < length a" "ck_childs k = []"
  shows "queue_ok a rt ch q r h \<Longrightarrow> queue_ok (grown_arena a p k) rt ch q r h"
  by (induction q arbitrary: rt ch) (auto, blast intro: item_grown [OF assms])

section \<open>Rolling\<close>

lemma put_all_in:
  assumes "\<And>y. (h, y) \<in> set l \<Longrightarrow> y = x" "h \<in> fst ` set l"
  shows "put_all l m h = Some x"
  using assms
proof (induction l arbitrary: m)
  case (Cons u l)
  obtain h' y where u: "u = (h', y)" by fastforce
  show ?case
  proof (cases "h \<in> fst ` set l")
    case True
    then have "put_all l (m(h' := Some y)) h = Some x" using Cons.IH Cons.prems(1) by simp
    then show ?thesis unfolding u put_all_def fold.simps o_apply prod.case .
  next
    case False
    have keep: "h \<notin> fst ` set l \<Longrightarrow> fold (\<lambda>(h, x) m. m(h := Some x)) l m' h = m' h" for m'
      by (induction l arbitrary: m') auto
    from False Cons.prems u have "h' = h" "y = x" by auto
    with u keep [OF False] show ?thesis by (simp add: put_all_def)
  qed
qed simp

lemma put_all_out: "h \<notin> fst ` set l \<Longrightarrow> put_all l m h = m h"
  unfolding put_all_def by (induction l arbitrary: m) auto

text \<open>The index of the store follows the chain of \<open>ch\<close>: every ancestor above the block the
  engine was opened with is found under its height.\<close>

definition idx_ok :: "engine \<Rightarrow> nat \<Rightarrow> bool" where
  "idx_ok e ch \<longleftrightarrow> (\<forall>i. reach (arena (en_tree e)) 0 i \<longrightarrow> i \<noteq> 0 \<longrightarrow> reach (arena (en_tree e)) i ch \<longrightarrow>
     st_idx e (height_of (en_tree e) i) = Some (hash_of (en_tree e) i))"

definition status_ok :: "engine \<Rightarrow> nat \<Rightarrow> nat \<Rightarrow> bool" where
  "status_ok e rt ch \<longleftrightarrow> (ch \<noteq> 0 \<longrightarrow> st_status e = Some (height_of (en_tree e) rt, height_of (en_tree e) ch))"

lemma unpin_fields [simp]:
  "arena (en_tree (unpin x e)) = arena (en_tree e)" "root_id (en_tree (unpin x e)) = root_id (en_tree e)"
  "head_id (en_tree (unpin x e)) = head_id (en_tree e)" "level (en_tree (unpin x e)) = level (en_tree e)"
  "st_data (unpin x e) = st_data e" "st_idx (unpin x e) = st_idx e" "st_status (unpin x e) = st_status e"
  "en_state_disk (unpin x e) = en_state_disk e"
  by (simp_all add: unpin_def split: option.split)

lemma unpin_pins: "pins (en_tree (unpin x e)) = (case x of None \<Rightarrow> pins (en_tree e) | Some i \<Rightarrow> remove1 i (pins (en_tree e)))"
  by (simp add: unpin_def split: option.split)

lemma nodes_unpin [simp]: "height_of (en_tree (unpin x e)) = height_of (en_tree e)" "hash_of (en_tree (unpin x e)) = hash_of (en_tree e)"
  by (auto simp: height_of_def hash_of_def)

lemma reach_comparable:
  assumes ok: "arena_ok a" and m': "reach a m' n" and m: "reach a m n" and h: "ck_height (a ! m) \<le> ck_height (a ! m')"
  shows "reach a m m'"
  using m' m
proof (induction rule: rtranclp_induct)
  case (step y z)
  have "ck_height (a ! m') \<le> ck_height (a ! y)" using reach_height [OF ok step(1)] by simp
  with edge_ok [OF ok step(2)] h have "m \<noteq> z" by auto
  with reach_parent [OF ok step(2,4)] step.IH show ?case by blast
qed

definition pipe_inv :: "disk \<Rightarrow> (blk_origin \<Rightarrow> bool) \<Rightarrow> engine \<Rightarrow> insert_result list \<Rightarrow> nat \<Rightarrow> nat \<Rightarrow> bool" where
  "pipe_inv d0 og e q rt ch \<longleftrightarrow> (let r = en_tree e; a = arena r in
     tree_ok r \<and> reach a 0 rt \<and> reach a rt ch \<and> queue_ok a rt ch q (root_id r) (head_id r) \<and>
     pins r = concat (map held q) \<and> en_state_disk e = chain_view a d0 rt \<and>
     (\<forall>x \<in> set q. og (pk_origin (ir_block x))) \<and> (og Rebuild \<or> idx_ok e ch \<and> status_ok e rt ch))"

lemma tree_ok_cong:
  assumes "tree_ok r" "arena r' = arena r" "root_id r' = root_id r" "head_id r' = head_id r" "level r' = level r"
    "set (pins r') \<subseteq> set (pins r)"
  shows "tree_ok r'"
  using assms by (auto simp: tree_ok_def tree_base_def height_of_def head_height_def root_height_def)

lemma roll_state_fields:
  "arena (en_tree (roll_state x e)) = arena (en_tree e)" "root_id (en_tree (roll_state x e)) = root_id (en_tree e)"
  "head_id (en_tree (roll_state x e)) = head_id (en_tree e)" "level (en_tree (roll_state x e)) = level (en_tree e)"
  "st_data (roll_state x e) = st_data e" "st_idx (roll_state x e) = st_idx e" "st_status (roll_state x e) = st_status e"
  "height_of (en_tree (roll_state x e)) = height_of (en_tree e)" "hash_of (en_tree (roll_state x e)) = hash_of (en_tree e)"
  by (simp_all add: roll_state_def split: option.split)

lemma roll_state_disk:
  assumes "arena_ok (arena (en_tree e))" "item_ok (arena (en_tree e)) rt ch x nr nh"
    "en_state_disk e = chain_view (arena (en_tree e)) d0 rt"
  shows "en_state_disk (roll_state x e) = chain_view (arena (en_tree e)) d0 nr"
proof (cases "ir_root_change x")
  case (Some n)
  with assms(2) have "edge (arena (en_tree e)) rt n" "nr = n" by (simp_all add: item_ok_def)
  with chain_view_edge [OF assms(1)] Some assms(3) show ?thesis by (simp add: roll_state_def disk_write_sub)
qed (use assms in \<open>simp add: roll_state_def item_ok_def\<close>)

lemma roll_state_pins:
  assumes "item_ok (arena (en_tree e)) rt ch x nr nh" "pins (en_tree e) = held x @ ps"
  shows "pins (en_tree (roll_state x e)) = (case ir_root_change x of None \<Rightarrow> [] | Some i \<Rightarrow> [i]) @
     (case ir_head_change x of None \<Rightarrow> [] | Some i \<Rightarrow> [i]) @ ps"
  using assms by (auto simp: roll_state_def unpin_pins held_def item_ok_def split: option.splits)

text \<open>The index after the batch of one result: whether the head was extended or moved to another
  branch, the heights above the shared part are rewritten and the rest still holds.\<close>

lemma idx_extend:
  assumes "arena_ok (arena (en_tree e))" "edge (arena (en_tree e)) ch nh" "idx_ok e ch"
    "en_tree e' = en_tree e" "st_idx e' = (st_idx e)(height_of (en_tree e) nh := Some (hash_of (en_tree e) nh))"
  shows "idx_ok e' nh"
  unfolding idx_ok_def assms(4,5)
proof (intro allI impI)
  fix i
  assume i: "reach (arena (en_tree e)) 0 i" "i \<noteq> 0" "reach (arena (en_tree e)) i nh"
  show "((st_idx e)(height_of (en_tree e) nh := Some (hash_of (en_tree e) nh))) (height_of (en_tree e) i) = Some (hash_of (en_tree e) i)"
  proof (cases "i = nh")
    case False
    have r: "reach (arena (en_tree e)) i ch" by (rule reach_parent [OF assms(1,2) i(3) False])
    then have "height_of (en_tree e) i \<noteq> height_of (en_tree e) nh"
      using reach_height [OF assms(1) r] edge_ok [OF assms(1,2)] by (simp add: height_of_def)
    with assms(3) i r show ?thesis by (simp add: idx_ok_def)
  qed simp
qed

lemma idx_reorg:
  assumes ok: "tree_base (en_tree e)" and al: "alive (en_tree e) nr"
    and nr: "reach (arena (en_tree e)) nr nh" "nr = rt \<or> edge (arena (en_tree e)) rt nr" "reach (arena (en_tree e)) rt ch"
    and idx: "idx_ok e ch" and t: "en_tree e' = en_tree e"
    and i': "st_idx e' = put_all (collect_back_hashes (en_tree e) nh (height_of (en_tree e) nh - height_of (en_tree e) nr + 1)) (st_idx e)"
  shows "idx_ok e' nh"
  unfolding idx_ok_def t
proof (intro allI impI)
  fix i
  let ?r = "en_tree e" let ?a = "arena ?r"
  define l where "l = collect_back_hashes ?r nh (height_of ?r nh - height_of ?r nr + 1)"
  note i' = i' [folded l_def]
  note aok = tree_baseD(1) [OF ok]
  assume i: "reach ?a 0 i" "i \<noteq> 0" "reach ?a i nh"
  have "height_of ?r nr \<le> height_of ?r nh" using reach_height [OF aok nr(1)] by (simp add: height_of_def)
  then have mem: "(h, y) \<in> set l \<longleftrightarrow> height_of ?r nr \<le> h \<and> h \<le> height_of ?r nh \<and> (\<exists>m. chain_at ?r nr nh h m \<and> y = hash_of ?r m)" for h y
    using back_loop_ok [OF ok al nr(1), of "height_of ?r nh - height_of ?r nr + 1" h y] by (auto simp: l_def collect_back_hashes_def)
  show "st_idx e' (height_of ?r i) = Some (hash_of ?r i)"
  proof (cases "height_of ?r nr \<le> height_of ?r i")
    case True
    have "reach ?a nr i" by (rule reach_comparable [OF aok i(3) nr(1)]) (use True in \<open>simp add: height_of_def\<close>)
    then have ci: "chain_at ?r nr nh (height_of ?r i) i" using i(3) by (simp add: chain_at_def)
    have "m = i" if "chain_at ?r nr nh (height_of ?r i) m" for m
      using chain_unique [OF aok, of m nh i] that i(3) by (simp add: chain_at_def height_of_def)
    moreover have "height_of ?r i \<le> height_of ?r nh" using reach_height [OF aok i(3)] by (simp add: height_of_def)
    ultimately have l: "(height_of ?r i, y) \<in> set l \<longleftrightarrow> y = hash_of ?r i" for y using ci True by (auto simp: mem)
    then have "height_of ?r i \<in> fst ` set l" by (metis fst_conv image_eqI)
    with l show ?thesis unfolding i' by (intro put_all_in) simp_all
  next
    case False
    have r: "reach ?a i nr" by (rule reach_comparable [OF aok nr(1) i(3)]) (use False in \<open>simp add: height_of_def\<close>)
    have "i \<noteq> nr" using False by auto
    then have "reach ?a i rt" using nr(2) r reach_parent [OF aok _ r] by auto
    then have "reach ?a i ch" using nr(3) by simp
    moreover have "height_of ?r i \<notin> fst ` set l" using False by (auto simp: mem)
    ultimately show ?thesis unfolding i' using idx i by (simp add: put_all_out idx_ok_def)
  qed
qed

lemma release_fields [simp]:
  "arena (en_tree (release x e)) = arena (en_tree e)" "root_id (en_tree (release x e)) = root_id (en_tree e)"
  "head_id (en_tree (release x e)) = head_id (en_tree e)" "level (en_tree (release x e)) = level (en_tree e)"
  "st_idx (release x e) = st_idx e" "st_status (release x e) = st_status e" "en_state_disk (release x e) = en_state_disk e"
  by (simp_all add: release_def)

lemma idx_status_release [simp]: "idx_ok (release x e) ch = idx_ok e ch" "status_ok (release x e) rt ch = status_ok e rt ch"
  by (simp_all add: idx_ok_def status_ok_def height_of_def hash_of_def)

lemma idx_status_roll_state: "idx_ok (roll_state x e) ch = idx_ok e ch" "status_ok (roll_state x e) rt ch = status_ok e rt ch"
  by (simp_all add: idx_ok_def status_ok_def roll_state_fields)

lemma roll_store_ok:
  assumes ok: "tree_base (en_tree e)" and al: "alive (en_tree e) nr" and it: "item_ok (arena (en_tree e)) rt ch x nr nh"
    and rc: "reach (arena (en_tree e)) rt ch"
  shows "\<exists>e'. roll_store x e = Inr e' \<and> en_tree e' = en_tree e \<and> en_state_disk e' = en_state_disk e \<and>
    (pk_origin (ir_block x) \<noteq> Rebuild \<longrightarrow> idx_ok e ch \<longrightarrow> status_ok e rt ch \<longrightarrow> idx_ok e' nh \<and> status_ok e' nr nh)"
proof (cases "pk_origin (ir_block x) = Rebuild \<or> ir_head_change x = None")
  case True
  then show ?thesis using it
    by (auto simp: roll_store_def Let_def item_ok_def idx_ok_def status_ok_def split: option.splits)
next
  case False
  then obtain n where org: "pk_origin (ir_block x) \<noteq> Rebuild" and hc: "ir_head_change x = Some nh"
    using it by (auto simp: item_ok_def)
  note aok = tree_baseD(1) [OF ok]
  have nr: "reach (arena (en_tree e)) nr nh" "nr = rt \<or> edge (arena (en_tree e)) rt nr"
    using it by (auto simp: item_ok_def split: option.splits)
  have real: "(case ir_root_change x of None \<Rightarrow> ir_old_root_height x | Some rt \<Rightarrow> height_of (en_tree e) rt) = height_of (en_tree e) nr"
    using it by (auto simp: item_ok_def height_of_def split: option.splits)
  have le: "\<not> height_of (en_tree e) nh < height_of (en_tree e) nr" using reach_height [OF aok nr(1)] by (simp add: height_of_def)
  define e2 where "e2 = e\<lparr>st_data := (st_data e)(ir_hash x := Some (b_data (pk_block (ir_block x)))),
    st_status := Some (height_of (en_tree e) nr, height_of (en_tree e) nh)\<rparr>"
  have e2: "en_tree e2 = en_tree e" "st_idx e2 = st_idx e" "en_state_disk e2 = en_state_disk e"
    "st_status e2 = Some (height_of (en_tree e) nr, height_of (en_tree e) nh)" by (simp_all add: e2_def)
  show ?thesis
  proof (cases "ir_head_change_kind x = Reorg")
    case True
    let ?e' = "e2\<lparr>st_idx := put_all (collect_back_hashes (en_tree e) nh (height_of (en_tree e) nh - height_of (en_tree e) nr + 1)) (st_idx e)\<rparr>"
    have "roll_store x e = Inr ?e'"
      unfolding roll_store_def Let_def real hc option.case using org True le by (simp add: e2_def)
    moreover have "idx_ok e ch \<Longrightarrow> idx_ok ?e' nh"
      by (rule idx_reorg [OF ok al nr rc]) (simp_all add: e2)
    ultimately show ?thesis by (auto simp: e2 status_ok_def)
  next
    case ext: False
    let ?e' = "e2\<lparr>st_idx := (st_idx e)(height_of (en_tree e) nh := Some (hash_of (en_tree e) nh))\<rparr>"
    have ed: "edge (arena (en_tree e)) ch nh" using it hc ext by (auto simp: item_ok_def)
    have "idx_ok ?e' nh" if "idx_ok e ch" by (rule idx_extend [OF aok ed that]) (simp_all add: e2)
    moreover have "roll_store x e = Inr ?e'"
      unfolding roll_store_def Let_def real hc option.case using org ext by (simp add: e2_def)
    ultimately show ?thesis by (auto simp: e2 status_ok_def)
  qed
qed

lemma pipe_invD:
  assumes "pipe_inv d0 og e q rt ch"
  shows "tree_ok (en_tree e)" "reach (arena (en_tree e)) 0 rt" "reach (arena (en_tree e)) rt ch"
    "queue_ok (arena (en_tree e)) rt ch q (root_id (en_tree e)) (head_id (en_tree e))"
    "pins (en_tree e) = concat (map held q)" "en_state_disk e = chain_view (arena (en_tree e)) d0 rt"
    "x \<in> set q \<Longrightarrow> og (pk_origin (ir_block x))" "\<not> og Rebuild \<Longrightarrow> idx_ok e ch \<and> status_ok e rt ch"
  using assms unfolding pipe_inv_def Let_def by blast+

lemma pipe_alive:
  assumes "tree_base r" "queue_ok (arena r) rt ch q (root_id r) (head_id r)" "set (concat (map held q)) \<subseteq> set (pins r)"
  shows "alive r rt"
  using queue_base [OF assms(2)] assms(3) alive_iff [OF assms(1), of rt] by auto

lemma roll_by_inv:
  assumes inv: "pipe_inv d0 og e (x # q) rt ch" and op: "roll_by x e = (res, e')"
  shows "res = Inr () \<and> (\<exists>rt' ch'. pipe_inv d0 og e' q rt' ch')"
proof -
  note I = pipe_invD [OF inv]
  let ?a = "arena (en_tree e)" let ?e1 = "roll_state x e" let ?ps = "concat (map held q)"
  obtain nr nh where it: "item_ok ?a rt ch x nr nh" and q: "queue_ok ?a nr nh q (root_id (en_tree e)) (head_id (en_tree e))"
    using I(4) by auto
  note aok = tree_baseD(1) [OF tree_okD(1) [OF I(1)]]
  have pins: "pins (en_tree e) = held x @ ?ps" using I(5) by simp
  note p1 = roll_state_pins [OF it pins]
  have t1: "tree_ok (en_tree ?e1)"
    by (rule tree_ok_cong [OF I(1)]) (auto simp: roll_state_fields p1 pins held_def split: option.splits)
  note b1 = tree_okD(1) [OF t1]
  have al: "alive (en_tree ?e1) nr"
    by (rule pipe_alive [OF b1, of nr nh q]) (use q in \<open>auto simp: roll_state_fields p1\<close>)
  have it1: "item_ok (arena (en_tree ?e1)) rt ch x nr nh" "reach (arena (en_tree ?e1)) rt ch"
    using it I(3) by (simp_all only: roll_state_fields)
  obtain e2 where st: "roll_store x ?e1 = Inr e2" "en_tree e2 = en_tree ?e1" "en_state_disk e2 = en_state_disk ?e1"
    and ix: "pk_origin (ir_block x) \<noteq> Rebuild \<longrightarrow> idx_ok ?e1 ch \<longrightarrow> status_ok ?e1 rt ch \<longrightarrow> idx_ok e2 nh \<and> status_ok e2 nr nh"
    using roll_store_ok [OF b1 al it1] by blast
  have res: "res = Inr ()" "e' = release x e2" using op st(1) by (simp_all add: roll_by_def Let_def)
  have pe: "pins (en_tree e') = ?ps" by (auto simp: res(2) release_def unpin_pins st(2) p1 split: option.split)
  have "tree_ok (en_tree e')"
    by (rule tree_ok_cong [OF t1]) (auto simp: res(2) st(2) pe [unfolded res(2)] p1)
  moreover have "reach ?a 0 nr" using I(2) item_root [OF it] by (rule rtranclp_trans)
  moreover have "reach ?a nr nh" using it by (simp add: item_ok_def)
  moreover have "en_state_disk e' = chain_view ?a d0 nr" using roll_state_disk [OF aok it I(6)] by (simp add: res(2) st(3))
  moreover have "og Rebuild \<or> idx_ok e' nh \<and> status_ok e' nr nh"
    using I(7) [of x] I(8) ix by (auto simp: res(2) idx_status_roll_state)
  ultimately have "pipe_inv d0 og e' q nr nh"
    using q I(7) pe by (simp add: pipe_inv_def Let_def res(2) st(2) roll_state_fields)
  with res(1) show ?thesis by blast
qed

lemma insert_by_inv:
  assumes inv: "pipe_inv d0 og e q rt ch" and op: "insert_by env t pkg e = (Inr x, e')" and og: "og (pk_origin pkg)"
  shows "pipe_inv d0 og e' (q @ [x]) rt ch"
proof -
  note I = pipe_invD [OF inv]
  let ?a = "arena (en_tree e)"
  note base = tree_okD(1) [OF I(1)] note aok = tree_baseD(1) [OF base]
  from insert_by_ok [OF I(1) op] obtain p m where p: "p < length ?a" "reach ?a (root_id (en_tree e)) p"
    and a': "arena (en_tree e') = grown_arena ?a p (chunk_new (pk_block pkg) m (Some p))" and t': "tree_ok (en_tree e')"
    and pins: "pins (en_tree e') = pins (en_tree e) @ held x"
    and it: "item_ok (arena (en_tree e')) (root_id (en_tree e)) (head_id (en_tree e)) x (root_id (en_tree e')) (head_id (en_tree e'))"
    and bl: "ir_block x = pkg" and same: "st_idx e' = st_idx e" "st_status e' = st_status e" "en_state_disk e' = en_state_disk e"
    by metis
  have cs: "ck_childs (chunk_new (pk_block pkg) m (Some p)) = []" by (simp add: chunk_new_def)
  note gr = grown_reach [OF aok p(1) cs] note gn = grown_nth [OF p(1), where k = "chunk_new (pk_block pkg) m (Some p)"]
  have q: "queue_ok (arena (en_tree e')) rt ch (q @ [x]) (root_id (en_tree e')) (head_id (en_tree e'))"
    unfolding a' by (rule queue_snoc [OF queue_grown [OF aok p(1) cs I(4)]]) (use it a' in simp)
  have zero: "0 < length ?a" using p(1) by linarith
  have lt: "rt < length ?a" "ch < length ?a"
    using reach_less [OF I(2) aok zero] reach_less [OF rtranclp_trans [OF I(2,3)] aok zero] by simp_all
  have nodes: "i < length ?a \<Longrightarrow> height_of (en_tree e') i = height_of (en_tree e) i \<and> hash_of (en_tree e') i = hash_of (en_tree e) i" for i
    using gn(1) by (simp add: height_of_def hash_of_def a')
  have "idx_ok e' ch" if "idx_ok e ch"
    unfolding idx_ok_def a' gr same
  proof (intro allI impI)
    fix i assume i: "reach ?a 0 i \<or> i = length ?a \<and> reach ?a 0 p" "i \<noteq> 0" "reach ?a i ch \<or> ch = length ?a \<and> reach ?a i p"
    have r: "reach ?a i ch" using i(3) lt(2) by simp
    have il: "i < length ?a"
    proof (rule ccontr)
      assume "\<not> i < length ?a"
      then have "\<not> edge ?a i j" for j by (simp add: edge_def)
      with r have "i = ch" by (auto elim: converse_rtranclpE)
      with lt(2) \<open>\<not> i < length ?a\<close> show False by simp
    qed
    with i r that nodes [OF il] show "st_idx e (height_of (en_tree e') i) = Some (hash_of (en_tree e') i)" by (auto simp: idx_ok_def)
  qed
  moreover have "status_ok e' rt ch" if "status_ok e rt ch" using that nodes lt by (simp add: status_ok_def same)
  ultimately show ?thesis
    using I t' q og bl gr lt chain_view_grown [OF p(1) lt(1)]
    by (auto simp: pipe_inv_def Let_def pins a' same)
qed

section \<open>Every reachable moment\<close>

lemma open_inv: "pipe_inv d0 og (engine_open b lv d0 s) [] 0 0"
proof -
  have e: "\<not> edge [chunk_new b mem_new None] i j" for i j by (cases i) (simp_all add: edge_def chunk_new_def)
  then have r: "reach [chunk_new b mem_new None] 0 i \<longleftrightarrow> i = 0" for i by (auto elim: converse_rtranclpE)
  have "chain_view [chunk_new b mem_new None] d0 0 = d0"
    by (rule ext) (simp add: chain_view.simps chunk_new_def mem_new_def)
  then show ?thesis
    by (simp add: pipe_inv_def Let_def engine_open_def roller_new_def tree_ok_def tree_base_def arena_ok_def r idx_ok_def status_ok_def
        head_height_def root_height_def height_of_def) (simp add: chunk_new_def)
qed

lemma pipe_reach_from:
  assumes "pipe_reach env og e0 e q" "pipe_inv d0 og e0 [] rt0 ch0"
  shows "\<exists>rt ch. pipe_inv d0 og e q rt ch"
  using assms
proof (induction rule: pipe_reach.induct)
  case pipe_start
  then show ?case by blast
next
  case (pipe_insert e q pkg cur_time x e')
  then show ?case using insert_by_inv by blast
next
  case (pipe_reject e q cur_time pkg err e')
  then obtain rt ch where inv: "pipe_inv d0 og e q rt ch" by blast
  with insert_by_err [OF pipe_invD(1) [OF inv] pipe_reject(2)] show ?case by blast
next
  case (pipe_roll e x q res e')
  then show ?case using roll_by_inv by blast
qed

lemma pipe_reach_inv: "pipe_reach env og (engine_open b lv d0 s) e q \<Longrightarrow> \<exists>rt ch. pipe_inv d0 og e q rt ch"
  using pipe_reach_from open_inv by blast

lemma pipe_tree_ok: "pipe_reach env og (engine_open b lv d0 s) e q \<Longrightarrow> tree_ok (en_tree e)"
  using pipe_reach_inv pipe_invD(1) by blast

text \<open>C17: At every moment of the pipeline the head is a highest block of the tree, it descends from the
  root, and the tree is never deeper than the configured number of unstable blocks.\<close>
theorem pipeline_tree:
  assumes "pipe_reach env og (engine_open b lv d0 s) e q"
  shows "reach (arena (en_tree e)) (root_id (en_tree e)) (head_id (en_tree e)) \<and>
    (\<forall>j. reach (arena (en_tree e)) (root_id (en_tree e)) j \<longrightarrow> height_of (en_tree e) j \<le> head_height (en_tree e)) \<and>
    head_height (en_tree e) \<le> root_height (en_tree e) + level (en_tree e)"
  using tree_okD [OF pipe_tree_ok [OF assms]] tree_baseD(4) by blast

lemma pipeline_view:
  assumes "pipe_reach env og (engine_open b lv d0 s) e q" "reach (arena (en_tree e)) (root_id (en_tree e)) n"
  shows "state_get (en_tree e) (en_state_disk e) n = chain_view (arena (en_tree e)) d0 n"
proof -
  from pipe_reach_inv [OF assms(1)] obtain rt ch where inv: "pipe_inv d0 og e q rt ch" by blast
  note I = pipe_invD [OF inv] note base = tree_okD(1) [OF I(1)]
  have "alive (en_tree e) rt" by (rule pipe_alive [OF base I(4)]) (simp add: I(5))
  moreover have "reach (arena (en_tree e)) rt n" using queue_root [OF I(4)] assms(2) by (rule rtranclp_trans)
  ultimately show ?thesis using state_get_chain_view [OF base _ I(6)] by blast
qed

text \<open>C18: Reading the state of any block of the tree returns what its chain of ancestors wrote, at
  every moment of the pipeline, even when the root has advanced several times before its state
  reached the disk: the references kept by the queued results are enough.\<close>
theorem pipeline_state_view:
  assumes "pipe_reach env og (engine_open b lv d0 s) e q" "reach (arena (en_tree e)) (root_id (en_tree e)) n"
  shows "state_get (en_tree e) (en_state_disk e) n = chain_view (arena (en_tree e)) d0 n"
  using assms by (rule pipeline_view)

text \<open>C20: Rolling a queued result never fails: the depth of a reorganisation is never negative.\<close>
theorem pipeline_roll_ok:
  assumes "pipe_reach env og (engine_open b lv d0 s) e (x # q)"
  shows "\<exists>e'. roll_by x e = (Inr (), e')"
proof -
  from pipe_reach_inv [OF assms] obtain rt ch where "pipe_inv d0 og e (x # q) rt ch" by blast
  from roll_by_inv [OF this] show ?thesis by (metis surj_pair)
qed

text \<open>C21: A block that is refused, by whichever check, leaves the engine as it was.\<close>
theorem insert_refused_unchanged:
  assumes "pipe_reach env og (engine_open b lv d0 s) e q" "insert_by env t pkg e = (Inl err, e')"
  shows "e' = e"
  by (rule insert_by_err [OF pipe_tree_ok [OF assms(1)] assms(2)])

text \<open>C22: A block found on the network is inserted only below a block of the tree with the hash and
  the height it names, after the consensus gate and the structural gate have passed it against
  that block; its layer is the result of executing it on the state of that block's chain.\<close>
theorem discovered_block_accepted:
  assumes "pipe_reach env og (engine_open b lv d0 s) e q" "insert_by env t pkg e = (Inr x, e')" "pk_origin pkg = Discover"
  shows "\<exists>p m. reach (arena (en_tree e)) (root_id (en_tree e)) p \<and> b_prevhash (pk_block pkg) = hash_of (en_tree e) p \<and>
    b_height (pk_block pkg) = height_of (en_tree e) p + 1 \<and>
    ce_blk_verify env (pk_block pkg) (ck_block (arena (en_tree e) ! p))
      (root_height (en_tree e), block_intro env e p (root_height (en_tree e))) = Inr () \<and>
    block_verify (ce_hash env) (ce_limits env) t (pk_block pkg) (length (b_data (pk_block pkg))) (ck_block (arena (en_tree e) ! p)) = Inr () \<and>
    ce_execute env False (pk_block pkg) (chain_view (arena (en_tree e)) d0 p) = Inr m \<and>
    arena (en_tree e') = grown_arena (arena (en_tree e)) p (chunk_new (pk_block pkg) m (Some p))"
proof -
  have slow: "\<not> is_fast env pkg" using assms(3) by (simp add: is_fast_def)
  from insert_by_ok [OF pipe_tree_ok [OF assms(1)] assms(2)] obtain p m where
    p: "reach (arena (en_tree e)) (root_id (en_tree e)) p" "b_height (pk_block pkg) = height_of (en_tree e) p + 1"
      "b_prevhash (pk_block pkg) = hash_of (en_tree e) p"
      "arena (en_tree e') = grown_arena (arena (en_tree e)) p (chunk_new (pk_block pkg) m (Some p))"
    and ex: "ce_execute env (is_fast env pkg) (pk_block pkg) (state_get (en_tree e) (en_state_disk e) p) = Inr m"
    and gate: "\<not> is_fast env pkg \<Longrightarrow> gate_before env t (pk_block pkg) p e = Inr ()" by metis
  have "ce_blk_verify env (pk_block pkg) (ck_block (arena (en_tree e) ! p))
      (root_height (en_tree e), block_intro env e p (root_height (en_tree e))) = Inr ()"
    "block_verify (ce_hash env) (ce_limits env) t (pk_block pkg) (length (b_data (pk_block pkg))) (ck_block (arena (en_tree e) ! p)) = Inr ()"
    using gate [OF slow] by (auto simp: gate_before_def Let_def bindR_eq_Inr split: if_splits)
  moreover have "ce_execute env False (pk_block pkg) (chain_view (arena (en_tree e)) d0 p) = Inr m"
    using ex slow pipeline_view [OF assms(1) p(1)] by simp
  ultimately show ?thesis using p by blast
qed

text \<open>A block found on the network that rises above the head of an idle engine is, once it has
  been rolled, what the block store returns under its height.\<close>
theorem discovered_head_stored:
  assumes "pipe_reach env og (engine_open b lv d0 s) e []" "\<not> og Rebuild" "og (pk_origin pkg)"
    "discover env t pkg e = (Inr (), e')" "b_height (pk_block pkg) > head_height (en_tree e)"
  shows "block_data_by_height e' (b_height (pk_block pkg)) = Some (b_hash (pk_block pkg), b_data (pk_block pkg)) \<and>
    head_height (en_tree e') = b_height (pk_block pkg)"
proof -
  from assms(4) obtain x e1 where ins: "insert_by env t pkg e = (Inr x, e1)" and roll: "roll_by x e1 = (Inr (), e')"
    by (auto simp: discover_def bindS_eq_Inr)
  have "pipe_reach env og (engine_open b lv d0 s) e1 ([] @ [x])" by (rule pipe_insert [OF assms(1,3) ins])
  with pipe_roll [OF _ roll] have pr: "pipe_reach env og (engine_open b lv d0 s) e' []" by simp
  from pipe_reach_inv [OF pr] obtain rt ch where inv: "pipe_inv d0 og e' [] rt ch" by blast
  from insert_by_ok [OF pipe_tree_ok [OF assms(1)] ins] obtain p m where p: "p < length (arena (en_tree e))"
    and a1: "arena (en_tree e1) = grown_arena (arena (en_tree e)) p (chunk_new (pk_block pkg) m (Some p))"
    and h1: "head_id (en_tree e1) = length (arena (en_tree e))" and x: "ir_block x = pkg" "ir_hash x = b_hash (pk_block pkg)"
    using assms(5) by (smt (verit))
  have org: "pk_origin pkg \<noteq> Rebuild" using assms(2,3) by auto
  from roll obtain e2 where e2: "roll_store x (roll_state x e1) = Inr e2" "e' = release x e2"
    by (auto simp: roll_by_def Let_def split: sum.splits)
  have store: "en_tree e2 = en_tree (roll_state x e1) \<and> st_data e2 (b_hash (pk_block pkg)) = Some (b_data (pk_block pkg))"
    using e2(1) org x by (auto simp: roll_store_def Let_def split: option.splits if_splits)
  let ?c = "length (arena (en_tree e))"
  have tr: "arena (en_tree e') = arena (en_tree e1)" "head_id (en_tree e') = ?c"
    using store e2(2) h1 by (simp_all add: roll_state_fields)
  have node: "height_of (en_tree e') ?c = b_height (pk_block pkg)" "hash_of (en_tree e') ?c = b_hash (pk_block pkg)"
    using grown_nth(2) [OF p] by (simp_all add: height_of_def hash_of_def tr a1 chunk_new_def)
  have ix: "idx_ok e' ?c" and q: "rt = root_id (en_tree e')" "ch = ?c"
    using pipe_invD(4,8) [OF inv] assms(2) tr(2) by auto
  have "reach (arena (en_tree e')) 0 ?c" using pipe_invD(2,3) [OF inv] q(2) by (auto intro: rtranclp_trans)
  moreover have "?c \<noteq> 0" using p by linarith
  ultimately have "st_idx e' (b_height (pk_block pkg)) = Some (b_hash (pk_block pkg))" using ix node by (auto simp: idx_ok_def)
  moreover have "st_data e' = st_data e2" by (simp add: e2(2) release_def)
  ultimately show ?thesis using store node tr(2) by (simp add: block_data_by_height_def head_height_def)
qed

section \<open>A concrete run\<close>

definition sample_env :: chain_env where
  "sample_env = \<lparr>ce_limits = sample_limits, ce_fast_sync = False, ce_hash = id, ce_intro_build = (\<lambda>_. None), ce_block_create = (\<lambda>_. Some sample_blk),
     ce_blk_verify = (\<lambda>_ _ _. Inr ()), ce_execute = (\<lambda>_ b _. Inr (mem_put [1] (b_data b) mem_new)),
     ce_blk_insert = (\<lambda>_ _ _. Inr ())\<rparr>"

definition sample_engine :: engine where
  "sample_engine = engine_open sample_prev 4 (\<lambda>_. None)
     \<lparr>en_tree = roller_new sample_prev mem_new 0, st_data = (\<lambda>_. None), st_idx = (\<lambda>_. None), st_status = None, en_state_disk = (\<lambda>_. None)\<rparr>"

definition sample_pkg :: blk_pkg where "sample_pkg = \<lparr>pk_block = sample_blk, pk_origin = Discover\<rparr>"

lemma sample_verify: "block_verify id sample_limits 30 sample_blk (Suc 0) sample_prev = Inr ()"
  by (simp add: block_verify_def sample_blk_def sample_prev_def sample_limits_def sample_tx_def calculate_mrklroot_def mrklroot_loop.simps)

lemma sample_engine_tree: "en_tree sample_engine = roller_new sample_prev mem_new 4"
  by (simp add: sample_engine_def engine_open_def)

lemma sample_blk_fields: "b_height sample_blk = 5" "b_prevhash sample_blk = [4]" "b_hash sample_blk = [5]" "b_data sample_blk = [1]"
  "b_height sample_prev = 4" "b_hash sample_prev = [4]"
  by (simp_all add: sample_blk_def sample_prev_def)

lemma sample_insert: "\<exists>x e'. insert_by sample_env 30 sample_pkg sample_engine = (Inr x, e')"
  by (simp add: insert_by_def sample_engine_tree sample_pkg_def Let_def sample_blk_fields roller_new_def chunk_new_def root_height_def
      head_height_def height_of_def hash_of_def quick_find_def is_fast_def gate_before_def has_child_hash_def sample_env_def
      sample_verify on_tree_def insert_child_def roller_insert_def append_child_def push_child_def bindS_def)

definition no_rebuild :: "blk_origin \<Rightarrow> bool" where "no_rebuild og = (og \<noteq> Rebuild)"

lemma sample_run:
  obtains x e1 e2 where "insert_by sample_env 30 sample_pkg sample_engine = (Inr x, e1)"
    "pipe_reach sample_env no_rebuild sample_engine sample_engine []"
    "pipe_reach sample_env no_rebuild sample_engine e1 [x]" "roll_by x e1 = (Inr (), e2)"
    "pipe_reach sample_env no_rebuild sample_engine e2 []" "discover sample_env 30 sample_pkg sample_engine = (Inr (), e2)"
proof -
  obtain x e1 where ins: "insert_by sample_env 30 sample_pkg sample_engine = (Inr x, e1)" using sample_insert by blast
  have "pipe_reach sample_env no_rebuild sample_engine e1 ([] @ [x])"
    by (rule pipe_insert [OF pipe_start _ ins]) (simp add: no_rebuild_def sample_pkg_def)
  then have r1: "pipe_reach sample_env no_rebuild sample_engine e1 [x]" by simp
  then obtain rt ch where "pipe_inv (\<lambda>_. None) no_rebuild e1 [x] rt ch"
    unfolding sample_engine_def using pipe_reach_inv by fastforce
  from roll_by_inv [OF this] obtain e2 where r2: "roll_by x e1 = (Inr (), e2)" by (metis surj_pair)
  show thesis using that [OF ins pipe_start r1 r2 pipe_roll [OF r1 r2]] ins r2 by (simp add: discover_def bindS_def)
qed

lemma sample_refused: "insert_by sample_env 30 \<lparr>pk_block = sample_prev, pk_origin = Mint\<rparr> sample_engine = (Inl (Fault ''insert height''), sample_engine)"
  by (simp add: insert_by_def sample_engine_tree Let_def sample_blk_fields roller_new_def chunk_new_def root_height_def
      head_height_def height_of_def)

lemma sample_heights: "head_height (en_tree sample_engine) = 4"
  by (simp add: sample_engine_tree roller_new_def chunk_new_def head_height_def height_of_def sample_blk_fields)

theorem pipeline_tree_witness:
  "\<exists>x e1. insert_by sample_env 30 sample_pkg sample_engine = (Inr x, e1) \<and>
    reach (arena (en_tree e1)) (root_id (en_tree e1)) (head_id (en_tree e1))"
proof -
  obtain x e1 where r: "insert_by sample_env 30 sample_pkg sample_engine = (Inr x, e1)" "pipe_reach sample_env no_rebuild sample_engine e1 [x]"
    using sample_run by metis
  from pipeline_tree [OF r(2) [unfolded sample_engine_def]] r(1) show ?thesis by blast
qed

theorem pipeline_state_view_witness:
  "\<exists>x e1. insert_by sample_env 30 sample_pkg sample_engine = (Inr x, e1) \<and>
    state_get (en_tree e1) (en_state_disk e1) (root_id (en_tree e1)) = chain_view (arena (en_tree e1)) (\<lambda>_. None) (root_id (en_tree e1))"
proof -
  obtain x e1 where r: "insert_by sample_env 30 sample_pkg sample_engine = (Inr x, e1)" "pipe_reach sample_env no_rebuild sample_engine e1 [x]"
    using sample_run by metis
  from pipeline_state_view [OF r(2) [unfolded sample_engine_def] rtranclp.rtrancl_refl] r(1) show ?thesis by blast
qed

theorem pipeline_roll_ok_witness:
  "\<exists>x e1 e2. insert_by sample_env 30 sample_pkg sample_engine = (Inr x, e1) \<and> roll_by x e1 = (Inr (), e2)"
proof -
  obtain x e1 where r: "insert_by sample_env 30 sample_pkg sample_engine = (Inr x, e1)" "pipe_reach sample_env no_rebuild sample_engine e1 [x]"
    using sample_run by metis
  from pipeline_roll_ok [OF r(2) [unfolded sample_engine_def]] r(1) show ?thesis by blast
qed

theorem insert_refused_unchanged_witness:
  "snd (insert_by sample_env 30 \<lparr>pk_block = sample_prev, pk_origin = Mint\<rparr> sample_engine) = sample_engine"
  using insert_refused_unchanged [OF pipe_start [of sample_env no_rebuild, unfolded sample_engine_def] sample_refused [unfolded sample_engine_def]]
  by (simp add: sample_refused)

theorem discovered_block_accepted_witness:
  "\<exists>x e1 p. insert_by sample_env 30 sample_pkg sample_engine = (Inr x, e1) \<and>
    b_prevhash sample_blk = hash_of (en_tree sample_engine) p"
proof -
  obtain x e1 where ins: "insert_by sample_env 30 sample_pkg sample_engine = (Inr x, e1)" using sample_insert by blast
  have "pk_origin sample_pkg = Discover" by (simp add: sample_pkg_def)
  from discovered_block_accepted [OF pipe_start [of sample_env no_rebuild, unfolded sample_engine_def] ins [unfolded sample_engine_def] this] ins
  show ?thesis by (auto simp: sample_engine_def sample_pkg_def)
qed

theorem discovered_head_stored_witness:
  "\<exists>e2. discover sample_env 30 sample_pkg sample_engine = (Inr (), e2) \<and> block_data_by_height e2 5 = Some ([5], [1])"
proof -
  obtain e2 where r: "discover sample_env 30 sample_pkg sample_engine = (Inr (), e2)" using sample_run by metis
  have c: "\<not> no_rebuild Rebuild" "no_rebuild (pk_origin sample_pkg)" "b_height (pk_block sample_pkg) > head_height (en_tree sample_engine)"
    by (simp_all add: no_rebuild_def sample_pkg_def sample_heights sample_blk_fields)
  from discovered_head_stored [OF pipe_start [of sample_env no_rebuild, unfolded sample_engine_def] c(1,2) r [unfolded sample_engine_def]
      c(3) [unfolded sample_engine_def]] r
  show ?thesis by (auto simp: sample_pkg_def sample_blk_fields)
qed

end
