(* ===== verification/ChainRebuild.thy ===== *)
theory ChainRebuild
  imports ChainPipeline
begin

text \<open>
  Reopening an engine on what it stored: the blocks above the root are executed again and the engine goes on from the head it
  had. From there on, and through any further reorganisation, the index and the status of the block store follow the head.
\<close>

section \<open>One block rebuilt\<close>




section \<open>The loop\<close>









section \<open>The index over restarts\<close>






end
