(* ===== verification/ActionTree.thy ===== *)
theory ActionTree
  imports Ledger
begin

text \<open>
  The tree of actions of a transaction and the checks made on it before it runs
  (\<^verbatim>\<open>basis/src/component/action.rs\<close>, \<^verbatim>\<open>protocol/src/action/level.rs\<close>, \<open>asthelper.rs\<close>): scopes,
  nesting depth and the rules on what may stand beside what at the top level. A plain action is a
  leaf with the facts the checks read and a payload.
\<close>

datatype exec_from = FromTop | FromAst | FromCall
datatype top_rule = RuleNone | RuleOnly | RuleOnlyCanWithGuard | RuleUnique
datatype scope_kind = KindTop | KindAst | KindGuard | KindCall
datatype exec_policy = TopOnly | TopAndAst | Anywhere | CallOnly

record act_scope =
  sc_kind :: scope_kind
  sc_exec :: exec_policy
  sc_top :: top_rule

definition SCOPE_TOP :: act_scope where "SCOPE_TOP = \<lparr>sc_kind = KindTop, sc_exec = TopOnly, sc_top = RuleNone\<rparr>"
definition SCOPE_TOP_ONLY :: act_scope where "SCOPE_TOP_ONLY = \<lparr>sc_kind = KindTop, sc_exec = TopOnly, sc_top = RuleOnly\<rparr>"
definition SCOPE_TOP_ONLY_CAN_WITH_GUARD :: act_scope where
  "SCOPE_TOP_ONLY_CAN_WITH_GUARD = \<lparr>sc_kind = KindTop, sc_exec = TopOnly, sc_top = RuleOnlyCanWithGuard\<rparr>"
definition SCOPE_TOP_UNIQUE :: act_scope where "SCOPE_TOP_UNIQUE = \<lparr>sc_kind = KindTop, sc_exec = TopOnly, sc_top = RuleUnique\<rparr>"
definition SCOPE_AST :: act_scope where "SCOPE_AST = \<lparr>sc_kind = KindAst, sc_exec = TopAndAst, sc_top = RuleNone\<rparr>"
definition SCOPE_GUARD :: act_scope where "SCOPE_GUARD = \<lparr>sc_kind = KindGuard, sc_exec = TopAndAst, sc_top = RuleNone\<rparr>"
definition SCOPE_TOP_GUARD :: act_scope where "SCOPE_TOP_GUARD = \<lparr>sc_kind = KindGuard, sc_exec = TopOnly, sc_top = RuleNone\<rparr>"
definition SCOPE_TOP_GUARD_UNIQUE :: act_scope where
  "SCOPE_TOP_GUARD_UNIQUE = \<lparr>sc_kind = KindGuard, sc_exec = TopOnly, sc_top = RuleUnique\<rparr>"
definition SCOPE_CALL :: act_scope where "SCOPE_CALL = \<lparr>sc_kind = KindCall, sc_exec = Anywhere, sc_top = RuleNone\<rparr>"
definition SCOPE_CALL_ONLY :: act_scope where "SCOPE_CALL_ONLY = \<lparr>sc_kind = KindCall, sc_exec = CallOnly, sc_top = RuleNone\<rparr>"

definition scope_is_guard :: "act_scope \<Rightarrow> bool" where "scope_is_guard s \<longleftrightarrow> sc_kind s = KindGuard"

definition scope_top_rule :: "act_scope \<Rightarrow> top_rule option" where
  "scope_top_rule s =
     (case sc_kind s of
        KindTop \<Rightarrow> Some (sc_top s)
      | KindGuard \<Rightarrow> if sc_top s \<noteq> RuleNone then Some (sc_top s) else None
      | _ \<Rightarrow> None)"

definition scope_allows :: "act_scope \<Rightarrow> exec_from \<Rightarrow> bool" where
  "scope_allows s fr =
     (case sc_exec s of TopOnly \<Rightarrow> fr = FromTop | TopAndAst \<Rightarrow> fr \<noteq> FromCall | Anywhere \<Rightarrow> True | CallOnly \<Rightarrow> fr = FromCall)"

section \<open>Actions\<close>

record 'd leaf =
  lf_kind :: u16
  lf_scope :: act_scope
  lf_min_tx :: u8
  lf_extra9 :: bool
  lf_data :: 'd

datatype 'd action = Leaf "'d leaf" | Select "'d select" | AIf "'d select" "'d select" "'d select"
  and 'd select = Sel nat nat "'d action list"

fun sel_actions :: "'d select \<Rightarrow> 'd action list" where "sel_actions (Sel mn mx acts) = acts"

fun act_kind :: "'d action \<Rightarrow> u16" where
  "act_kind (Leaf l) = lf_kind l" | "act_kind (Select s) = 25" | "act_kind (AIf c t e) = 26"

fun act_scope_of :: "'d action \<Rightarrow> act_scope" where
  "act_scope_of (Leaf l) = lf_scope l" | "act_scope_of (Select s) = SCOPE_AST" | "act_scope_of (AIf c t e) = SCOPE_AST"

fun act_min_tx :: "'d action \<Rightarrow> u8" where
  "act_min_tx (Leaf l) = lf_min_tx l" | "act_min_tx (Select s) = 3" | "act_min_tx (AIf c t e) = 3"

fun act_extra9 :: "'d action \<Rightarrow> bool" where
  "act_extra9 (Leaf l) = lf_extra9 l" | "act_extra9 (Select s) = False" | "act_extra9 (AIf c t e) = False"

definition AST_TREE_DEPTH_MAX :: nat where "AST_TREE_DEPTH_MAX = 6"
definition TX_ACTIONS_MAX :: nat where "TX_ACTIONS_MAX = 200"

definition validate_ast_select :: "nat \<Rightarrow> nat \<Rightarrow> nat \<Rightarrow> unit ret" where
  "validate_ast_select mn mx num =
     (if mn > mx then Inl (Fault ''max cannot be less than min'')
      else if mx > num then Inl (Fault ''max cannot exceed list num'')
      else if num > TX_ACTIONS_MAX then Inl (Fault ''num cannot exceed'')
      else Inr ())"

fun level_inc_and_childs :: "'d action \<Rightarrow> (nat \<times> 'd action list) option" where
  "level_inc_and_childs (Leaf l) = None"
| "level_inc_and_childs (Select s) = Some (1, sel_actions s)"
| "level_inc_and_childs (AIf c t e) = Some (2, sel_actions c @ sel_actions t @ sel_actions e)"

section \<open>The checks\<close>

definition validate_depth_limit :: "nat \<Rightarrow> nat \<Rightarrow> nat ret" where
  "validate_depth_limit depth inc =
     (if depth + inc > AST_TREE_DEPTH_MAX then Inl (Fault ''ast tree depth exceeded max'') else Inr (depth + inc))"

definition validate_node_tx_type :: "u8 \<Rightarrow> 'd action \<Rightarrow> unit ret" where
  "validate_node_tx_type ty act = (if ty < act_min_tx act then Inl (Fault ''requires tx type'') else Inr ())"

definition validate_node_scope :: "exec_from \<Rightarrow> 'd action \<Rightarrow> unit ret" where
  "validate_node_scope fr act = (if \<not> scope_allows (act_scope_of act) fr then Inl (Fault ''scope not allowed'') else Inr ())"

definition validate_current_node :: "u8 \<Rightarrow> 'd action \<Rightarrow> exec_from \<Rightarrow> unit ret" where
  "validate_current_node ty act fr = bindR (validate_node_scope fr act) (\<lambda>_. validate_node_tx_type ty act)"

record tx_stats =
  top_action_count :: nat
  top_kind_count :: "u16 \<Rightarrow> nat"
  top_guard_count :: nat
  non_guard_terminal_count :: nat
  has_guard_terminal :: bool
  max_ast_depth :: nat

definition stats_default :: tx_stats where
  "stats_default = \<lparr>top_action_count = 0, top_kind_count = (\<lambda>_. 0), top_guard_count = 0,
     non_guard_terminal_count = 0, has_guard_terminal = False, max_ast_depth = 0\<rparr>"

definition record_top_action :: "'d action \<Rightarrow> tx_stats \<Rightarrow> tx_stats" where
  "record_top_action act st =
     (let st = st\<lparr>top_action_count := top_action_count st + 1,
            top_kind_count := (top_kind_count st)(act_kind act := top_kind_count st (act_kind act) + 1)\<rparr> in
      if scope_is_guard (act_scope_of act) then st\<lparr>top_guard_count := top_guard_count st + 1\<rparr> else st)"

definition record_terminal_action :: "act_scope \<Rightarrow> tx_stats \<Rightarrow> tx_stats" where
  "record_terminal_action s st =
     (if scope_is_guard s then st\<lparr>has_guard_terminal := True\<rparr>
      else st\<lparr>non_guard_terminal_count := non_guard_terminal_count st + 1\<rparr>)"

definition collect_tx_topology :: "'d action \<Rightarrow> exec_from \<Rightarrow> tx_stats \<Rightarrow> tx_stats" where
  "collect_tx_topology act fr st =
     (let st = (if fr = FromTop then record_top_action act st else st) in
      if level_inc_and_childs act = None then record_terminal_action (act_scope_of act) st else st)"

lemma childs_size: "level_inc_and_childs act = Some (d, childs) \<Longrightarrow> size_list size childs < size act"
proof (cases act)
  case (Select s)
  then show "level_inc_and_childs act = Some (d, childs) \<Longrightarrow> ?thesis" by (cases s) auto
next
  case (AIf c t e)
  then show "level_inc_and_childs act = Some (d, childs) \<Longrightarrow> ?thesis" by (cases c; cases t; cases e) (auto simp: size_list_append)
qed auto

function (sequential)
  visit_tx_node :: "u8 \<Rightarrow> 'd action \<Rightarrow> exec_from \<Rightarrow> nat \<Rightarrow> tx_stats \<Rightarrow> tx_stats ret" and
  visit_tx_nodes :: "u8 \<Rightarrow> 'd action list \<Rightarrow> exec_from \<Rightarrow> nat \<Rightarrow> tx_stats \<Rightarrow> tx_stats ret" where
  "visit_tx_node ty act fr depth st =
     bindR (validate_current_node ty act fr) (\<lambda>_.
     let st = collect_tx_topology act fr (st\<lparr>max_ast_depth := max (max_ast_depth st) depth\<rparr>) in
     case level_inc_and_childs act of None \<Rightarrow> Inr st
     | Some (inc, childs) \<Rightarrow> bindR (validate_depth_limit depth inc) (\<lambda>d. visit_tx_nodes ty childs FromAst d st))"
| "visit_tx_nodes ty [] fr depth st = Inr st"
| "visit_tx_nodes ty (a # as) fr depth st = bindR (visit_tx_node ty a fr depth st) (\<lambda>st. visit_tx_nodes ty as fr depth st)"
  by pat_completeness auto
termination
  by (relation "measure (\<lambda>x. case x of Inl (_, a, _) \<Rightarrow> 2 * size a | Inr (_, l, _) \<Rightarrow> 2 * size_list size l + 1)")
    (auto dest: childs_size)

function (sequential)
  visit_runtime_node :: "u8 \<Rightarrow> 'd action \<Rightarrow> exec_from \<Rightarrow> nat \<Rightarrow> unit ret" and
  visit_runtime_nodes :: "u8 \<Rightarrow> 'd action list \<Rightarrow> nat \<Rightarrow> unit ret" where
  "visit_runtime_node ty act fr depth =
     bindR (validate_current_node ty act fr) (\<lambda>_.
     case level_inc_and_childs act of None \<Rightarrow> Inr ()
     | Some (inc, childs) \<Rightarrow> bindR (validate_depth_limit depth inc) (\<lambda>d. visit_runtime_nodes ty childs d))"
| "visit_runtime_nodes ty [] depth = Inr ()"
| "visit_runtime_nodes ty (a # as) depth = bindR (visit_runtime_node ty a FromAst depth) (\<lambda>_. visit_runtime_nodes ty as depth)"
  by pat_completeness auto
termination
  by (relation "measure (\<lambda>x. case x of Inl (_, a, _) \<Rightarrow> 2 * size a | Inr (_, l, _) \<Rightarrow> 2 * size_list size l + 1)")
    (auto dest: childs_size)

function (sequential)
  visit_fast_node :: "u8 \<Rightarrow> 'd action \<Rightarrow> nat \<Rightarrow> unit ret" and
  visit_fast_nodes :: "u8 \<Rightarrow> 'd action list \<Rightarrow> nat \<Rightarrow> unit ret" where
  "visit_fast_node ty act depth =
     bindR (validate_node_tx_type ty act) (\<lambda>_.
     case level_inc_and_childs act of None \<Rightarrow> Inr ()
     | Some (inc, childs) \<Rightarrow> bindR (validate_depth_limit depth inc) (\<lambda>d. visit_fast_nodes ty childs d))"
| "visit_fast_nodes ty [] depth = Inr ()"
| "visit_fast_nodes ty (a # as) depth = bindR (visit_fast_node ty a depth) (\<lambda>_. visit_fast_nodes ty as depth)"
  by pat_completeness auto
termination
  by (relation "measure (\<lambda>x. case x of Inl (_, a, _) \<Rightarrow> 2 * size a | Inr (_, l, _) \<Rightarrow> 2 * size_list size l + 1)")
    (auto dest: childs_size)

declare visit_tx_node.simps [simp del] visit_runtime_node.simps [simp del] visit_fast_node.simps [simp del]

definition validate_tx_action_count :: "'d action list \<Rightarrow> unit ret" where
  "validate_tx_action_count acts =
     (if length acts < 1 \<or> length acts > TX_ACTIONS_MAX then Inl (Fault ''action length'') else Inr ())"

definition validate_no_guard_only_tx :: "tx_stats \<Rightarrow> unit ret" where
  "validate_no_guard_only_tx st =
     (if has_guard_terminal st \<and> non_guard_terminal_count st = 0 then Inl (Fault ''tx actions cannot be all GUARD'') else Inr ())"

definition validate_top_only_rule :: "tx_stats \<Rightarrow> unit ret" where
  "validate_top_only_rule st = (if top_action_count st \<noteq> 1 then Inl (Fault ''TOP_ONLY'') else Inr ())"

definition validate_top_only_can_with_guard_rule :: "tx_stats \<Rightarrow> unit ret" where
  "validate_top_only_can_with_guard_rule st =
     (if top_action_count st \<noteq> 1 + top_guard_count st \<or> non_guard_terminal_count st \<noteq> 1
      then Inl (Fault ''TOP_ONLY_CAN_WITH_GUARD'') else Inr ())"

definition validate_top_unique_rule :: "'d action \<Rightarrow> tx_stats \<Rightarrow> unit ret" where
  "validate_top_unique_rule act st = (if top_kind_count st (act_kind act) \<noteq> 1 then Inl (Fault ''TOP_UNIQUE'') else Inr ())"

definition validate_top_rule_for_action :: "'d action \<Rightarrow> tx_stats \<Rightarrow> unit ret" where
  "validate_top_rule_for_action act st =
     (case scope_top_rule (act_scope_of act) of None \<Rightarrow> Inr ()
      | Some rule \<Rightarrow> (case rule of RuleNone \<Rightarrow> Inr () | RuleOnly \<Rightarrow> validate_top_only_rule st
          | RuleOnlyCanWithGuard \<Rightarrow> validate_top_only_can_with_guard_rule st | RuleUnique \<Rightarrow> validate_top_unique_rule act st))"

fun validate_top_rules :: "'d action list \<Rightarrow> tx_stats \<Rightarrow> unit ret" where
  "validate_top_rules [] st = Inr ()"
| "validate_top_rules (a # as) st = bindR (validate_top_rule_for_action a st) (\<lambda>_. validate_top_rules as st)"

definition validate_tx_topology :: "'d action list \<Rightarrow> tx_stats \<Rightarrow> unit ret" where
  "validate_tx_topology acts st = bindR (validate_no_guard_only_tx st) (\<lambda>_. validate_top_rules acts st)"

definition precheck_tx_actions :: "u8 \<Rightarrow> 'd action list \<Rightarrow> unit ret" where
  "precheck_tx_actions ty acts =
     bindR (validate_tx_action_count acts) (\<lambda>_.
     bindR (visit_tx_nodes ty acts FromTop 0 stats_default) (\<lambda>st. validate_tx_topology acts st))"

definition precheck_runtime_action :: "u8 \<Rightarrow> 'd action \<Rightarrow> exec_from \<Rightarrow> unit ret" where
  "precheck_runtime_action ty act fr = visit_runtime_node ty act fr 0"

definition precheck_runtime_action_fast_sync :: "u8 \<Rightarrow> 'd action \<Rightarrow> unit ret" where
  "precheck_runtime_action_fast_sync ty act = visit_fast_node ty act 0"

section \<open>What the checks accept\<close>

function leaves :: "'d action \<Rightarrow> 'd leaf list" and leaves_list :: "'d action list \<Rightarrow> 'd leaf list" where
  "leaves act = (case level_inc_and_childs act of None \<Rightarrow> (case act of Leaf l \<Rightarrow> [l] | _ \<Rightarrow> []) | Some (inc, childs) \<Rightarrow> leaves_list childs)"
| "leaves_list [] = []"
| "leaves_list (a # as) = leaves a @ leaves_list as"
  by pat_completeness auto
termination
  by (relation "measure (\<lambda>x. case x of Inl a \<Rightarrow> 2 * size a | Inr l \<Rightarrow> 2 * size_list size l + 1)") (auto dest: childs_size)

function node_ok :: "u8 \<Rightarrow> exec_from \<Rightarrow> nat \<Rightarrow> 'd action \<Rightarrow> bool" and nodes_ok :: "u8 \<Rightarrow> exec_from \<Rightarrow> nat \<Rightarrow> 'd action list \<Rightarrow> bool" where
  "node_ok ty fr depth act \<longleftrightarrow> scope_allows (act_scope_of act) fr \<and> act_min_tx act \<le> ty \<and>
     (case level_inc_and_childs act of None \<Rightarrow> True
      | Some (inc, childs) \<Rightarrow> depth + inc \<le> AST_TREE_DEPTH_MAX \<and> nodes_ok ty FromAst (depth + inc) childs)"
| "nodes_ok ty fr depth [] \<longleftrightarrow> True"
| "nodes_ok ty fr depth (a # as) \<longleftrightarrow> node_ok ty fr depth a \<and> nodes_ok ty fr depth as"
  by pat_completeness auto
termination
  by (relation "measure (\<lambda>x. case x of Inl (_, _, _, a) \<Rightarrow> 2 * size a | Inr (_, _, _, l) \<Rightarrow> 2 * size_list size l + 1)") (auto dest: childs_size)

declare leaves.simps [simp del] node_ok.simps [simp del]

lemma nodes_ok_iff: "nodes_ok ty fr depth l \<longleftrightarrow> (\<forall>a \<in> set l. node_ok ty fr depth a)" by (induction l) auto

lemma current_node_iff: "validate_current_node ty act fr = Inr u \<longleftrightarrow> scope_allows (act_scope_of act) fr \<and> act_min_tx act \<le> ty"
  by (auto simp: validate_current_node_def validate_node_scope_def validate_node_tx_type_def bindR_eq_Inr)

lemma depth_limit_iff: "validate_depth_limit depth inc = Inr d \<longleftrightarrow> depth + inc \<le> AST_TREE_DEPTH_MAX \<and> d = depth + inc"
  by (auto simp: validate_depth_limit_def)

lemma visit_runtime_iff:
  fixes act :: "'d action" and l :: "'d action list"
  shows
  "visit_runtime_node ty act fr depth = Inr () \<longleftrightarrow> node_ok ty fr depth act"
  "visit_runtime_nodes ty l depth = Inr () \<longleftrightarrow> nodes_ok ty FromAst depth l"
proof (induction ty act fr depth and ty l depth rule: visit_runtime_node_visit_runtime_nodes.induct)
  case (1 ty act fr depth)
  then show ?case
    by (cases "level_inc_and_childs act")
      (auto simp: visit_runtime_node.simps [of ty act] node_ok.simps [of ty fr depth act] bindR_eq_Inr current_node_iff depth_limit_iff)
qed (auto simp: bindR_eq_Inr)

definition guard_leaf :: "'d leaf \<Rightarrow> bool" where "guard_leaf l \<longleftrightarrow> scope_is_guard (lf_scope l)"

text \<open>What a scan adds to the statistics.\<close>

definition stats_step :: "exec_from \<Rightarrow> 'd action list \<Rightarrow> tx_stats \<Rightarrow> tx_stats \<Rightarrow> bool" where
  "stats_step fr l st st' \<longleftrightarrow>
     non_guard_terminal_count st' = non_guard_terminal_count st + length (filter (\<lambda>x. \<not> guard_leaf x) (leaves_list l)) \<and>
     (has_guard_terminal st' \<longleftrightarrow> has_guard_terminal st \<or> (\<exists>x \<in> set (leaves_list l). guard_leaf x)) \<and>
     (let n = (if fr = FromTop then l else []) in
       top_action_count st' = top_action_count st + length n \<and>
       top_guard_count st' = top_guard_count st + length (filter (\<lambda>a. scope_is_guard (act_scope_of a)) n) \<and>
       (\<forall>k. top_kind_count st' k = top_kind_count st k + length (filter (\<lambda>a. act_kind a = k) n)))"

lemma stats_collect_leaf:
  "level_inc_and_childs act = None \<Longrightarrow>
    stats_step fr [act] st (collect_tx_topology act fr (st\<lparr>max_ast_depth := d\<rparr>))"
  by (cases act) (auto simp: stats_step_def collect_tx_topology_def record_top_action_def record_terminal_action_def Let_def
      leaves.simps guard_leaf_def)

lemma stats_collect_ast:
  "level_inc_and_childs act = Some (inc, childs) \<Longrightarrow> stats_step FromAst childs (collect_tx_topology act fr (st\<lparr>max_ast_depth := d\<rparr>)) st' \<Longrightarrow>
    stats_step fr [act] st st'"
  by (cases act) (auto simp: stats_step_def collect_tx_topology_def record_top_action_def record_terminal_action_def Let_def
      leaves.simps)

lemma stats_append: "stats_step fr [a] st st1 \<Longrightarrow> stats_step fr l st1 st2 \<Longrightarrow> stats_step fr (a # l) st st2"
  by (auto simp: stats_step_def Let_def)

lemma visit_tx_iff:
  fixes act :: "'d action" and l :: "'d action list"
  shows
  "(\<exists>st'. visit_tx_node ty act fr depth st = Inr st') \<longleftrightarrow> node_ok ty fr depth act"
  "(\<exists>st'. visit_tx_nodes ty l fr depth st = Inr st') \<longleftrightarrow> nodes_ok ty fr depth l"
proof (induction ty act fr depth st and ty l fr depth st rule: visit_tx_node_visit_tx_nodes.induct)
  case (1 ty act fr depth st)
  let ?st = "collect_tx_topology act fr (st\<lparr>max_ast_depth := max (max_ast_depth st) depth\<rparr>)"
  show ?case
  proof (cases "level_inc_and_childs act")
    case (Some p)
    then obtain inc childs where p: "level_inc_and_childs act = Some (inc, childs)" by (cases p) auto
    have "(\<exists>st'. visit_tx_nodes ty childs FromAst (depth + inc) ?st = Inr st') \<longleftrightarrow> nodes_ok ty FromAst (depth + inc) childs"
      if "validate_current_node ty act fr = Inr ()" "depth + inc \<le> AST_TREE_DEPTH_MAX"
      using "1.IH" [OF that(1) refl p refl, of "depth + inc"] that(2) by (simp add: depth_limit_iff)
    then show ?thesis
      by (auto simp: p visit_tx_node.simps [of ty act] node_ok.simps [of ty fr depth act] bindR_eq_Inr current_node_iff depth_limit_iff Let_def)
  qed (auto simp: visit_tx_node.simps [of ty act] node_ok.simps [of ty fr depth act] bindR_eq_Inr current_node_iff Let_def)
next
  case (3 ty a as fr depth st)
  then show ?case by (auto simp: bindR_eq_Inr)
qed (auto simp: bindR_eq_Inr)

lemma visit_tx_stats:
  fixes act :: "'d action" and l :: "'d action list"
  shows "visit_tx_node ty act fr depth st = Inr st' \<Longrightarrow> stats_step fr [act] st st'"
  "visit_tx_nodes ty l fr depth st = Inr st' \<Longrightarrow> stats_step fr l st st'"
proof (induction ty act fr depth st and ty l fr depth st arbitrary: st' and st' rule: visit_tx_node_visit_tx_nodes.induct)
  case (1 ty act fr depth st)
  show ?case
  proof (cases "level_inc_and_childs act")
    case None
    with "1.prems" show ?thesis
      using stats_collect_leaf [OF None] by (auto simp: visit_tx_node.simps [of ty act] bindR_eq_Inr)
  next
    case (Some p)
    then obtain inc childs where p: "level_inc_and_childs act = Some (inc, childs)" by (cases p) auto
    let ?st = "collect_tx_topology act fr (st\<lparr>max_ast_depth := max (max_ast_depth st) depth\<rparr>)"
    from "1.prems" p obtain d where d: "validate_current_node ty act fr = Inr ()" "validate_depth_limit depth inc = Inr d"
      "visit_tx_nodes ty childs FromAst d ?st = Inr st'" by (auto simp: visit_tx_node.simps [of ty act] bindR_eq_Inr Let_def)
    from "1.IH" [OF d(1) refl p refl d(2,3)] stats_collect_ast [OF p] show ?thesis by blast
  qed
next
  case (2 ty fr depth st)
  then show ?case by (auto simp: stats_step_def Let_def)
next
  case (3 ty a as fr depth st)
  then show ?case by (auto simp: bindR_eq_Inr intro: stats_append)
qed

lemma precheck_nodes: "precheck_tx_actions ty acts = Inr () \<Longrightarrow> a \<in> set acts \<Longrightarrow> node_ok ty FromTop 0 a"
  using visit_tx_iff(2) [of ty acts FromTop 0 stats_default] by (auto simp: precheck_tx_actions_def bindR_eq_Inr nodes_ok_iff)

definition top_rule_ok :: "'d action list \<Rightarrow> 'd action \<Rightarrow> bool" where
  "top_rule_ok acts a \<longleftrightarrow>
     (case scope_top_rule (act_scope_of a) of
        Some RuleOnly \<Rightarrow> length acts = 1
      | Some RuleOnlyCanWithGuard \<Rightarrow>
          length acts = 1 + length (filter (\<lambda>x. scope_is_guard (act_scope_of x)) acts) \<and>
          length (filter (\<lambda>x. \<not> guard_leaf x) (leaves_list acts)) = 1
      | Some RuleUnique \<Rightarrow> length (filter (\<lambda>x. act_kind x = act_kind a) acts) = 1
      | _ \<Rightarrow> True)"

lemma top_rule_iff:
  assumes "stats_step FromTop acts stats_default st"
  shows "validate_top_rule_for_action a st = Inr u \<longleftrightarrow> top_rule_ok acts a"
  using assms
  by (auto simp: validate_top_rule_for_action_def top_rule_ok_def validate_top_only_rule_def validate_top_only_can_with_guard_rule_def
      validate_top_unique_rule_def stats_step_def stats_default_def split: option.split top_rule.split)

lemma top_rules_iff:
  assumes "stats_step FromTop acts stats_default st"
  shows "validate_top_rules l st = Inr u \<longleftrightarrow> (\<forall>a \<in> set l. top_rule_ok acts a)"
  by (induction l) (auto simp: bindR_eq_Inr top_rule_iff [OF assms])

text \<open>C25: The static check accepts a transaction exactly when it has between 1 and 200 actions, every
  node of every action tree is allowed where it stands, in this type of transaction, at a depth of
  at most 6, a transaction with guards has an action that is not a guard, and every top-level
  action finds the company its rule demands.\<close>
theorem precheck_accepts_iff:
  "precheck_tx_actions ty acts = Inr () \<longleftrightarrow>
     1 \<le> length acts \<and> length acts \<le> 200 \<and> (\<forall>a \<in> set acts. node_ok ty FromTop 0 a) \<and>
     (filter guard_leaf (leaves_list acts) = [] \<or> filter (\<lambda>x. \<not> guard_leaf x) (leaves_list acts) \<noteq> []) \<and>
     (\<forall>a \<in> set acts. top_rule_ok acts a)"
proof (cases "1 \<le> length acts \<and> length acts \<le> 200 \<and> nodes_ok ty FromTop 0 acts")
  case True
  then obtain st where v: "visit_tx_nodes ty acts FromTop 0 stats_default = Inr st" using visit_tx_iff(2) by blast
  note step = visit_tx_stats(2) [OF v]
  have g: "validate_no_guard_only_tx st = Inr () \<longleftrightarrow>
      (filter guard_leaf (leaves_list acts) = [] \<or> filter (\<lambda>x. \<not> guard_leaf x) (leaves_list acts) \<noteq> [])"
    using step by (auto simp: validate_no_guard_only_tx_def stats_step_def stats_default_def filter_empty_conv)
  have "validate_tx_action_count acts = Inr ()" using True by (auto simp: validate_tx_action_count_def TX_ACTIONS_MAX_def)
  with True v g show ?thesis
    by (simp add: precheck_tx_actions_def validate_tx_topology_def bindR_eq_Inr top_rules_iff [OF step] nodes_ok_iff)
next
  case False
  then have "precheck_tx_actions ty acts \<noteq> Inr ()"
    using visit_tx_iff(2) [of ty acts FromTop 0 stats_default]
    by (auto simp: precheck_tx_actions_def bindR_eq_Inr validate_tx_action_count_def TX_ACTIONS_MAX_def Suc_le_eq split: if_splits)
  with False show ?thesis by (auto simp: nodes_ok_iff)
qed

section \<open>The static check covers the checks at run time\<close>

text \<open>The actions that executing an action executes.\<close>

fun exec_subs :: "'d action \<Rightarrow> 'd action list" where
  "exec_subs (Leaf l) = []" | "exec_subs (Select s) = sel_actions s" | "exec_subs (AIf c t e) = [Select c, Select t, Select e]"

inductive runs :: "'d action \<Rightarrow> 'd action \<Rightarrow> bool" where
  runs_child: "b \<in> set (exec_subs a) \<Longrightarrow> runs a b"
| runs_deeper: "runs a b \<Longrightarrow> c \<in> set (exec_subs b) \<Longrightarrow> runs a c"

inductive_simps runs_leaf: "runs (Leaf l) b"

lemma node_ok_mono:
  fixes act :: "'d action" and l :: "'d action list"
  shows "node_ok ty fr depth act \<Longrightarrow> d \<le> depth \<Longrightarrow> node_ok ty fr d act"
    and "nodes_ok ty fr depth l \<Longrightarrow> d \<le> depth \<Longrightarrow> nodes_ok ty fr d l"
proof (induction ty fr depth act and ty fr depth l arbitrary: d and d rule: node_ok_nodes_ok.induct)
  case (1 ty fr depth act)
  show ?case
  proof (cases "level_inc_and_childs act")
    case (Some p)
    then obtain inc childs where p: "level_inc_and_childs act = Some (inc, childs)" by (cases p) auto
    with "1.prems" "1.IH" [OF p refl, of "d + inc"] show ?thesis
      by (auto simp: node_ok.simps [of ty fr _ act])
  qed (use "1.prems" in \<open>auto simp: node_ok.simps [of ty fr _ act]\<close>)
qed auto

lemma node_ok_subs:
  assumes "node_ok ty fr depth act" "b \<in> set (exec_subs act)"
  shows "node_ok ty FromAst 0 b"
proof (cases act)
  case (Select s)
  with assms have "node_ok ty FromAst (depth + 1) b" by (auto simp: node_ok.simps [of ty fr depth "Select s"] nodes_ok_iff)
  then show ?thesis by (rule node_ok_mono) simp
next
  case (AIf c t e)
  with assms(2) obtain s where s: "b = Select s" "s = c \<or> s = t \<or> s = e" by auto
  have "\<forall>a \<in> set (sel_actions s). node_ok ty FromAst (depth + 2) a"
    using assms(1) AIf s(2) by (auto simp: node_ok.simps [of ty fr depth "AIf c t e"] nodes_ok_iff)
  then have "\<forall>a \<in> set (sel_actions s). node_ok ty FromAst 1 a" using node_ok_mono(1) [of ty FromAst "depth + 2" _ 1] by auto
  moreover have "3 \<le> ty" using assms(1) AIf by (simp add: node_ok.simps [of ty fr depth "AIf c t e"])
  ultimately show ?thesis
    by (simp add: s(1) node_ok.simps [of ty FromAst 0 "Select s"] nodes_ok_iff SCOPE_AST_def scope_allows_def AST_TREE_DEPTH_MAX_def)
qed (use assms in simp)

lemma node_ok_fast:
  fixes act :: "'d action" and l :: "'d action list"
  shows "node_ok ty fr depth act \<Longrightarrow> visit_fast_node ty act depth = Inr ()"
    and "nodes_ok ty fr depth l \<Longrightarrow> visit_fast_nodes ty l depth = Inr ()"
proof (induction ty fr depth act and ty fr depth l rule: node_ok_nodes_ok.induct)
  case (1 ty fr depth act)
  show ?case
  proof (cases "level_inc_and_childs act")
    case (Some p)
    then obtain inc childs where p: "level_inc_and_childs act = Some (inc, childs)" by (cases p) auto
    with "1.prems" "1.IH" [OF p refl] show ?thesis
      by (auto simp: node_ok.simps [of ty fr depth act] visit_fast_node.simps [of ty act] validate_node_tx_type_def validate_depth_limit_def bindR_eq_Inr)
  qed (use "1.prems" in \<open>auto simp: node_ok.simps [of ty fr depth act] visit_fast_node.simps [of ty act] validate_node_tx_type_def bindR_eq_Inr\<close>)
qed auto

text \<open>C26: The checks repeated at run time never stop a transaction that passed the static check:
  they accept each top-level action at the top and each action below it inside the tree, with and
  without fast sync.\<close>
theorem static_check_covers_runtime:
  assumes "precheck_tx_actions ty acts = Inr ()" "a \<in> set acts"
  shows "precheck_runtime_action ty a FromTop = Inr () \<and> precheck_runtime_action_fast_sync ty a = Inr () \<and>
    (\<forall>b. runs a b \<longrightarrow> precheck_runtime_action ty b FromAst = Inr () \<and> precheck_runtime_action_fast_sync ty b = Inr ())"
proof -
  have a: "node_ok ty FromTop 0 a" by (rule precheck_nodes [OF assms])
  have "node_ok ty FromAst 0 b" if "runs a b" for b
    using that a
  proof (induction rule: runs.induct)
    case (runs_child b a)
    from node_ok_subs [OF runs_child(2,1)] show ?case .
  next
    case (runs_deeper a b c)
    from node_ok_subs [OF runs_deeper.IH [OF runs_deeper.prems] runs_deeper.hyps(2)] show ?case .
  qed
  with a node_ok_fast(1) [of ty _ 0] show ?thesis
    unfolding precheck_runtime_action_def precheck_runtime_action_fast_sync_def visit_runtime_iff(1) by blast
qed

definition sample_leaf :: "u16 \<Rightarrow> act_scope \<Rightarrow> nat leaf" where
  "sample_leaf k s = \<lparr>lf_kind = k, lf_scope = s, lf_min_tx = 1, lf_extra9 = False, lf_data = 0\<rparr>"

definition sample_acts :: "nat action list" where
  "sample_acts = [Leaf (sample_leaf 1 SCOPE_CALL), Leaf (sample_leaf 7 SCOPE_GUARD),
     AIf (Sel 1 1 [Leaf (sample_leaf 2 SCOPE_CALL)]) (Sel 0 1 [Select (Sel 1 1 [Leaf (sample_leaf 3 SCOPE_AST)])]) (Sel 0 0 [])]"

lemmas sample_scope_defs = SCOPE_CALL_def SCOPE_GUARD_def SCOPE_AST_def scope_allows_def scope_is_guard_def scope_top_rule_def

lemma sample_acts_leaves: "leaves_list sample_acts = [sample_leaf 1 SCOPE_CALL, sample_leaf 7 SCOPE_GUARD, sample_leaf 2 SCOPE_CALL, sample_leaf 3 SCOPE_AST]"
  by (simp add: sample_acts_def leaves.simps)

lemma sample_acts_nodes: "a \<in> set sample_acts \<Longrightarrow> node_ok 3 FromTop 0 a"
  by (auto simp: sample_acts_def node_ok.simps sample_leaf_def sample_scope_defs AST_TREE_DEPTH_MAX_def)

lemma sample_acts_top: "a \<in> set sample_acts \<Longrightarrow> top_rule_ok sample_acts a"
  by (auto simp: top_rule_ok_def sample_acts_def sample_leaf_def sample_scope_defs)

theorem precheck_accepts_iff_witness: "precheck_tx_actions 3 sample_acts = Inr ()"
proof -
  have "1 \<le> length sample_acts" "length sample_acts \<le> 200" by (simp_all add: sample_acts_def)
  moreover have "filter (\<lambda>x. \<not> guard_leaf x) (leaves_list sample_acts) \<noteq> []"
    by (simp add: sample_acts_leaves guard_leaf_def sample_leaf_def sample_scope_defs)
  ultimately show ?thesis
    unfolding precheck_accepts_iff [of 3 sample_acts] using sample_acts_nodes sample_acts_top by blast
qed

lemma sample_prechecked: "precheck_tx_actions 3 [Leaf (sample_leaf 1 SCOPE_CALL), Select (Sel 0 1 [Leaf (sample_leaf 2 SCOPE_CALL)])] = Inr ()"
  by (simp add: precheck_tx_actions_def validate_tx_action_count_def TX_ACTIONS_MAX_def visit_tx_node.simps validate_current_node_def
      validate_node_scope_def validate_node_tx_type_def sample_leaf_def sample_scope_defs Let_def validate_depth_limit_def
      AST_TREE_DEPTH_MAX_def validate_tx_topology_def validate_no_guard_only_tx_def collect_tx_topology_def record_top_action_def
      record_terminal_action_def stats_default_def validate_top_rule_for_action_def)

theorem static_check_covers_runtime_witness:
  "precheck_runtime_action 3 (Leaf (sample_leaf 2 SCOPE_CALL)) FromAst = Inr ()"
proof -
  have "runs (Select (Sel 0 1 [Leaf (sample_leaf 2 SCOPE_CALL)])) (Leaf (sample_leaf 2 SCOPE_CALL))" by (rule runs_child) simp
  with static_check_covers_runtime [OF sample_prechecked, of "Select (Sel 0 1 [Leaf (sample_leaf 2 SCOPE_CALL)])"] show ?thesis by simp
qed

end
