(* ===== verification/GasCounter.thy ===== *)
theory GasCounter
  imports Transfers
begin

text \<open>
  Gas billing of a transaction (\<^verbatim>\<open>protocol/src/context/gas.rs\<close>): the budget is paid in advance in
  HAC, execution charges and rebates gas, and the unused part is returned at the end. The code
  keeps \<open>i64\<close> counters and \<open>i128\<close> prices; here they are \<open>int\<close> with the checked operations
  written out.
\<close>

definition i64_ok :: "int \<Rightarrow> bool" where "i64_ok x \<longleftrightarrow> - (2 ^ 63) \<le> x \<and> x < 2 ^ 63"
definition i128_ok :: "int \<Rightarrow> bool" where "i128_ok x \<longleftrightarrow> - (2 ^ 127) \<le> x \<and> x < 2 ^ 127"

definition extra9_surcharge :: "bool \<Rightarrow> u32 \<Rightarrow> u32" where
  "extra9_surcharge extra9 gas = (if extra9 then word_of_nat (min (unat gas * 9) (2 ^ 32 - 1)) else 0)"

definition GAS_BUDGET_LOOKUP :: "nat list" where
  "GAS_BUDGET_LOOKUP =
    [0, 147, 157, 169, 180, 193, 207, 221, 237, 253, 271, 290, 310, 332, 355, 380,
     407, 435, 466, 499, 534, 571, 611, 654, 699, 748, 801, 857, 917, 981, 1050, 1124,
     1202, 1286, 1376, 1473, 1576, 1686, 1804, 1931, 2066, 2211, 2365, 2531, 2708, 2898, 3101, 3318,
     3550, 3799, 4065, 4349, 4654, 4979, 5328, 5701, 6100, 6527, 6984, 7473, 7996, 8556, 9155, 9796,
     10481, 11215, 12000, 12840, 13739, 14701, 15730, 16831, 18009, 19270, 20619, 22062, 23607, 25259, 27027, 28919,
     30944, 33110, 35428, 37908, 40561, 43401, 46439, 49689, 53168, 56889, 60872, 65133, 69692, 74571, 79791, 85376,
     91352, 97747, 104589, 111911, 119744, 128126, 137095, 146692, 156961, 167948, 179704, 192284, 205743, 220146, 235556, 252045,
     269688, 288566, 308766, 330379, 353506, 378251, 404729, 433060, 463374, 495811, 530517, 567654, 607389, 649907, 695400, 744078,
     796164, 851895, 911528, 975335, 1043608, 1116661, 1194827, 1278465, 1367958, 1463715, 1566175, 1675807, 1793114, 1918632, 2052936, 2196642,
     2350407, 2514935, 2690980, 2879349, 3080904, 3296567, 3527327, 3774240, 4038436, 4321127, 4623606, 4947258, 5293566, 5664116, 6060604, 6484847,
     6938786, 7424501, 7944216, 8500311, 9095333, 9732006, 10413247, 11142174, 11922126, 12756675, 13649643, 14605118, 15627476, 16721399, 17891897, 19144330,
     20484433, 21918343, 23452627, 25094311, 26850913, 28730477, 30741611, 32893523, 35196070, 37659795, 40295981, 43116699, 46134868, 49364309, 52819811, 56517198,
     60473402, 64706540, 69235998, 74082517, 79268294, 84817074, 90754270, 97107068, 103904563, 111177883, 118960335, 127287558, 136197687, 145731525, 155932732, 166848023,
     178527385, 191024302, 204396003, 218703723, 234012984, 250393893, 267921466, 286675968, 306743286, 328215316, 351190388, 375773715, 402077876, 430223327, 460338960, 492562687,
     527042075, 563935020, 603410472, 645649205, 690844649, 739203775, 790948039, 846314402, 905556410, 968945359, 1036771534, 1109345541, 1186999729, 1270089710, 1358995990, 1454125710,
     1555914509, 1664828525, 1781366522, 1906062178, 2039486531, 2182250588, 2335008129, 2498458698, 2673350807, 2860485364, 3060719339, 3274969693, 3504217571, 3749512802, 4011978698, 4292817207]"

definition decode_gas_budget :: "u8 \<Rightarrow> int" where
  "decode_gas_budget b = int (GAS_BUDGET_LOOKUP ! unat b)"

definition TX_GAS_BUDGET_CAP_BYTE :: u8 where "TX_GAS_BUDGET_CAP_BYTE = 99"

definition VM_LOWEST_FEE_PURITY :: nat where "VM_LOWEST_FEE_PURITY = 50000"
definition VM_LOWEST_FEE_PURITY_REDUCTIONS :: "(nat \<times> nat) list" where "VM_LOWEST_FEE_PURITY_REDUCTIONS = []"

definition vm_lowest_fee_purity :: "nat \<Rightarrow> nat" where
  "vm_lowest_fee_purity height =
     fold (\<lambda>(act, next_purity) purity. if height \<ge> act \<and> next_purity < purity then next_purity else purity)
       VM_LOWEST_FEE_PURITY_REDUCTIONS VM_LOWEST_FEE_PURITY"

text \<open>The table grows by seven percent a step, rounded down, and strictly.\<close>

lemma gas_budget_growth:
  "successively (\<lambda>x y. x < y \<and> 107 * x < 100 * y + 100 \<and> 100 * y < 107 * x + 107) (tl GAS_BUDGET_LOOKUP)"
  "length GAS_BUDGET_LOOKUP = 256" "hd GAS_BUDGET_LOOKUP = 0"
  by (simp_all add: GAS_BUDGET_LOOKUP_def)

section \<open>The price\<close>

record gas_price =
  purity_fee :: int
  purity_size :: int

text \<open>The transaction gives its fee and its billing size.\<close>

definition price_from_tx :: "amount \<Rightarrow> nat ret \<Rightarrow> nat \<Rightarrow> gas_price ret" where
  "price_from_tx fee_got billing_size height =
     bindR (case to_unit_u128 UNIT_238 fee_got of Inl e \<Rightarrow> Inl (Fault ''tx gas price invalid'') | Inr v \<Rightarrow> Inr v) (\<lambda>raw_fee.
     bindR billing_size (\<lambda>size.
     case checked_mul U128S (vm_lowest_fee_purity height) size of None \<Rightarrow> Inl (Fault ''tx gas price invalid'')
     | Some floor_fee \<Rightarrow>
       let fee = max raw_fee floor_fee in
       if int fee \<ge> 2 ^ 127 \<or> int size \<ge> 2 ^ 127 then Inl (Fault ''tx gas price invalid'')
       else if fee = 0 \<or> size = 0 then Inl (Fault ''tx gas price invalid'')
       else Inr \<lparr>purity_fee = int fee, purity_size = int size\<rparr>))"

text \<open>The charge for an amount of gas: rounded up, at most \<open>u64::MAX\<close>. The sum before the
  division is not checked in the code; with overflow checks it panics.\<close>

definition calc_burn_amount :: "int \<Rightarrow> gas_price \<Rightarrow> amount ret" where
  "calc_burn_amount cost price =
     (if cost \<le> 0 then Inl (Fault ''gas cost invalid'')
      else let num = cost * purity_fee price; den = purity_size price in
      if \<not> i128_ok num then Inl (Fault ''gas burn overflow'')
      else if den \<le> 0 then Inl (Fault ''gas settle denominator invalid'')
      else if \<not> i128_ok (num + den) then Inl (Panic ''attempt to add with overflow'')
      else let burn = (num + den - 1) div den in
      if burn \<le> 0 then Inl (Fault ''gas burn underflow'')
      else if burn \<ge> 2 ^ 64 then Inl (Fault ''gas burn overflow'')
      else Inr (amount_unit238 (nat burn)))"

section \<open>The counter\<close>

record gas_counter =
  gc_running :: bool
  gc_remaining :: int
  gc_used :: int
  gc_rebated :: int
  gc_max_charge :: amount

definition gas_new :: gas_counter where
  "gas_new = \<lparr>gc_running = False, gc_remaining = 0, gc_used = 0, gc_rebated = 0, gc_max_charge = amount_zero\<rparr>"

definition used_net :: "gas_counter \<Rightarrow> int" where
  "used_net g = gc_used g - min (gc_rebated g) (gc_used g)"

definition used_charge :: "gas_counter \<Rightarrow> gas_price \<Rightarrow> amount ret" where
  "used_charge g price =
     (if \<not> is_positive (gc_max_charge g) then Inl (Fault ''gas not initialized'')
      else if used_net g \<le> 0 then Inr amount_zero
      else calc_burn_amount (used_net g) price)"

definition gas_max_charge :: "gas_counter \<Rightarrow> amount ret" where
  "gas_max_charge g =
     (if \<not> is_positive (gc_max_charge g) then Inl (Fault ''gas not initialized'') else Inr (gc_max_charge g))"

definition gas_begin :: "int \<Rightarrow> amount \<Rightarrow> (gas_counter, unit) st" where
  "gas_begin budget mx g =
     (if budget \<le> 0 then (Inl (Fault ''gas budget invalid''), g)
      else if gc_running g then (Inl (Fault ''gas already initialized''), g)
      else if is_positive (gc_max_charge g) then (Inl (Fault ''gas already settled''), g)
      else (Inr (), \<lparr>gc_running = True, gc_remaining = budget, gc_used = 0, gc_rebated = 0, gc_max_charge = mx\<rparr>))"

definition not_running :: "gas_counter \<Rightarrow> exec_error" where
  "not_running g = (if is_positive (gc_max_charge g) then Fault ''gas already settled'' else Fault ''gas not initialized'')"

definition gas_finalize :: "gas_price \<Rightarrow> (gas_counter, amount \<times> amount) st" where
  "gas_finalize price g =
     (if \<not> gc_running g then (Inl (not_running g), g)
      else case used_charge g price of Inl e \<Rightarrow> (Inl e, g) | Inr used \<Rightarrow>
      case sub_mode_u128 (gc_max_charge g) used of Inl e \<Rightarrow> (Inl e, g) | Inr refund \<Rightarrow>
        (Inr (refund, used), g\<lparr>gc_running := False\<rparr>))"

definition gas_charge :: "int \<Rightarrow> (gas_counter, unit) st" where
  "gas_charge gas g =
     (if gas < 0 then (Inl (Fault ''gas cost invalid''), g)
      else if gas = 0 then (Inr (), g)
      else if \<not> gc_running g then (Inl (not_running g), g)
      else let nx = gc_remaining g - gas in
      if \<not> i64_ok nx \<or> nx < 0 then (Inl (Fault ''gas has run out''), g)
      else let g' = g\<lparr>gc_remaining := nx\<rparr> in
      if \<not> i64_ok (gc_used g + gas) then (Inl (Fault ''gas has run out''), g')
      else (Inr (), g'\<lparr>gc_used := gc_used g + gas\<rparr>))"

definition gas_rebate :: "int \<Rightarrow> (gas_counter, unit) st" where
  "gas_rebate gas g =
     (if gas < 0 then (Inl (Fault ''gas refund invalid''), g)
      else if \<not> gc_running g then (Inl (not_running g), g)
      else if gas = 0 then (Inr (), g)
      else if \<not> i64_ok (gc_rebated g + gas) then (Inl (Fault ''gas refund overflow''), g)
      else (Inr (), g\<lparr>gc_rebated := gc_rebated g + gas\<rparr>))"

definition rebated_checkpoint :: "gas_counter \<Rightarrow> int" where "rebated_checkpoint g = gc_rebated g"
definition restore_rebated :: "int \<Rightarrow> gas_counter \<Rightarrow> gas_counter" where "restore_rebated r g = g\<lparr>gc_rebated := r\<rparr>"

section \<open>Paying in advance and settling\<close>

record gas_ctx =
  gx_gas :: gas_counter
  gx_core :: core_state

definition gas_on_core :: "(core_state, 'a) st \<Rightarrow> (gas_ctx, 'a) st" where
  "gas_on_core f = (\<lambda>c. case f (gx_core c) of (r, s) \<Rightarrow> (r, c\<lparr>gx_core := s\<rparr>))"

definition on_gas :: "(gas_counter, 'a) st \<Rightarrow> (gas_ctx, 'a) st" where
  "on_gas f = (\<lambda>c. case f (gx_gas c) of (r, g) \<Rightarrow> (r, c\<lparr>gx_gas := g\<rparr>))"

definition gas_initialize :: "address \<Rightarrow> gas_price ret \<Rightarrow> int \<Rightarrow> (gas_ctx, unit) st" where
  "gas_initialize main price_ret budget =
     bindS (getsS gx_gas) (\<lambda>g.
     if gc_running g then failS (Fault ''gas already initialized'')
     else if is_positive (gc_max_charge g) then failS (Fault ''gas already settled'')
     else if budget \<le> 0 then failS (Fault ''gas budget invalid'')
     else bindS (liftS price_ret) (\<lambda>price.
       let budget = min budget (decode_gas_budget TX_GAS_BUDGET_CAP_BYTE) in
       bindS (liftS (calc_burn_amount budget price)) (\<lambda>mx.
       bindS (gas_on_core (hac_sub main mx)) (\<lambda>_. on_gas (gas_begin budget mx)))))"

definition gas_refund :: "address \<Rightarrow> gas_price ret \<Rightarrow> (gas_ctx, unit) st" where
  "gas_refund main price_ret =
     bindS (liftS price_ret) (\<lambda>price.
     bindS (on_gas (gas_finalize price)) (\<lambda>(refund, used).
     bindS (if is_positive refund then gas_on_core (hac_add main refund) else returnS ()) (\<lambda>_.
     if \<not> is_positive used then returnS ()
     else bindS (liftS (to_238_u64 used)) (\<lambda>u.
       if u = 0 then returnS ()
       else gas_on_core (with_total_count (\<lambda>tt.
         bindR (total_add_u12 (ast_vm_gas_burn_238 tt) u) (\<lambda>x. Inr (tt\<lparr>ast_vm_gas_burn_238 := x\<rparr>))))))))"

section \<open>Charges are exact and monotone\<close>

definition price_ok :: "gas_price \<Rightarrow> bool" where
  "price_ok price \<longleftrightarrow> 0 < purity_fee price \<and> 0 < purity_size price"

definition burn_238 :: "int \<Rightarrow> gas_price \<Rightarrow> nat" where
  "burn_238 n price = (if n \<le> 0 then 0 else nat ((n * purity_fee price + purity_size price - 1) div purity_size price))"

lemma price_from_tx_ok:
  assumes "price_from_tx fee bs h = Inr price"
  shows "price_ok price"
proof -
  from assms obtain f n ff where "checked_mul U128S (vm_lowest_fee_purity h) n = Some ff"
    and p: "(let fee = max f ff in
       if int fee \<ge> 2 ^ 127 \<or> int n \<ge> 2 ^ 127 then Inl (Fault ''tx gas price invalid'')
       else if fee = 0 \<or> n = 0 then Inl (Fault ''tx gas price invalid'')
       else Inr \<lparr>purity_fee = int fee, purity_size = int n\<rparr>) = Inr price"
    unfolding price_from_tx_def bindR_eq_Inr by (auto split: option.splits)
  from p [unfolded Let_def if_Inl_eq_Inr] show ?thesis by (auto simp: price_ok_def)
qed

text \<open>The value of one unit 238.\<close>

definition one_238 :: nat where "one_238 = 10 ^ 238"

lemma one_238_pos: "0 < one_238" by (simp add: one_238_def)

lemma amount_unit238_value:
  assumes "v < 2 ^ 64"
  shows "amt_unsigned (amount_unit238 v)" "amt_canonical (amount_unit238 v)" "uval (amount_unit238 v) = v * one_238"
    "is_positive (amount_unit238 v) \<longleftrightarrow> 0 < v"
proof -
  have c: "v < 256 ^ U64S" "U64S \<le> 127" "UNIT_238 \<le> 255" using assms by (simp_all add: U64S_def UNIT_238_def)
  note w = coin_with_uval [OF c]
  have e: "amount_unit238 v = coin_with U64S v UNIT_238" by (simp add: amount_unit238_def amount_coin_def coin_u64_def)
  show "amt_unsigned (amount_unit238 v)" "amt_canonical (amount_unit238 v)" unfolding e by (rule w)+
  show u: "uval (amount_unit238 v) = v * one_238" unfolding e w(2) by (simp only: UNIT_238_def one_238_def)
  show "is_positive (amount_unit238 v) \<longleftrightarrow> 0 < v"
  proof (cases "v = 0")
    case True
    then have "amount_unit238 v = amount_zero" unfolding e by (simp add: coin_with_def)
    then show ?thesis using True by (simp add: is_positive_def)
  next
    case False
    then have "0 < uval (amount_unit238 v)" by (simp add: u one_238_pos)
    then have "byte (amount_unit238 v) \<noteq> []" by (auto simp: uval_def)
    then have "0 < dist (amount_unit238 v)" using False by (simp add: e coin_with_def Let_def split: prod.splits)
    then show ?thesis using False u to_bigint_uval [OF w(1)] one_238_pos by (simp add: is_positive_iff e)
  qed
qed

lemma amount_unit238_shape:
  assumes "v < 2 ^ 64" "0 < v"
  shows "238 \<le> unit (amount_unit238 v)" "unit (amount_unit238 v) \<le> 255" "be_nat (byte (amount_unit238 v)) \<le> v"
    "length (byte (amount_unit238 v)) \<le> 8"
proof -
  obtain v' u' where l: "coin_loop v 238 = (v', u')" by fastforce
  have le: "coin_loop x u = (x', w) \<Longrightarrow> u \<le> w" for x u x' w
    by (induction x u arbitrary: x' w rule: coin_loop.induct) (subst (asm) (2) coin_loop.simps, auto split: if_splits)
  have e: "amount_unit238 v = \<lparr>unit = u', dist = int (length (drop_left_zero (be_bytes 8 v'))), byte = drop_left_zero (be_bytes 8 v')\<rparr>"
    using assms(2) l by (simp add: amount_unit238_def amount_coin_def coin_u64_def coin_with_def UNIT_238_def U64S_def Let_def)
  have v': "v' \<le> v" "u' \<le> 255" using coin_loop_le [OF l] coin_loop_value [OF l] by simp_all
  then have "v' < 2 ^ 64" using assms(1) by simp
  then show "238 \<le> unit (amount_unit238 v)" "unit (amount_unit238 v) \<le> 255" "be_nat (byte (amount_unit238 v)) \<le> v"
    "length (byte (amount_unit238 v)) \<le> 8"
    using le [OF l] v' length_drop_left_zero [of "be_bytes 8 v'"] by (simp_all add: e)
qed

lemma sub_unit238:
  assumes "a < 2 ^ 64" "b \<le> a" "0 < a"
  shows "\<exists>c. sub_mode_u128 (amount_unit238 a) (amount_unit238 b) = Inr c \<and> amt_unsigned c \<and> amt_canonical c \<and>
    uval c + uval (amount_unit238 b) = uval (amount_unit238 a)"
proof -
  have b: "b < 2 ^ 64" using assms by simp
  note A = amount_unit238_value [OF assms(1)] note B = amount_unit238_value [OF b]
  have "\<exists>c. sub_mode_u128 (amount_unit238 a) (amount_unit238 b) = Inr c"
  proof (cases "b = 0")
    case True
    then have "amt_is_zero (amount_unit238 b)" "\<not> amt_is_zero (amount_unit238 a)" "\<not> dist (amount_unit238 a) < 0" "\<not> dist (amount_unit238 b) < 0"
      using A B assms(3) one_238_pos by (simp_all add: amt_is_zero_uval amt_unsigned_def)
    then show ?thesis by (simp add: sub_mode_u128_def compute_mode_def)
  next
    case False
    let ?a = "amount_unit238 a" let ?b = "amount_unit238 b" let ?u = "min (unit ?a) (unit ?b)"
    have nz: "\<not> amt_is_zero ?a" "\<not> amt_is_zero ?b" using A B assms(3) False one_238_pos by (simp_all add: amt_is_zero_uval)
    note sa = amount_unit238_shape [OF assms(1,3)] note sb = amount_unit238_shape [OF b]
    have pw: "(10::nat) ^ (x - ?u) < 256 ^ U128S" if "x \<le> 255" for x
    proof -
      have "x - ?u \<le> 17" using that sa(1) sb(1) False by simp
      then have "(10::nat) ^ (x - ?u) \<le> 10 ^ 17" by (rule power_increasing) simp
      also have "\<dots> < 256 ^ U128S" by (simp add: U128S_def)
      finally show ?thesis .
    qed
    have m: "mant ?u x * 10 ^ (?u - 238) * one_238 = uval x" if "x = ?a \<or> x = ?b" for x
    proof -
      have "?u = (?u - 238) + 238" using sa(1) sb(1) False by simp
      then have "(10::nat) ^ ?u = 10 ^ (?u - 238) * one_238" unfolding one_238_def by (metis power_add)
      with uval_min [where a = ?a and b = ?b] that show ?thesis by (auto simp: mult.assoc)
    qed
    have mle: "mant ?u x \<le> v" if "x = ?a \<and> v = a \<or> x = ?b \<and> v = b" for x v
    proof -
      have "mant ?u x * 10 ^ (?u - 238) * one_238 = v * one_238" using m [of x] that A(3) B(3) by auto
      then have "mant ?u x * 10 ^ (?u - 238) = v" using one_238_pos by simp
      then show ?thesis by (metis le_add2 mult.commute mult_le_mono1 nat_mult_1 one_le_numeral one_le_power)
    qed
    have big: "(2::nat) ^ 64 < 256 ^ U128S" by (simp add: U128S_def)
    have "fits U128S ?a ?u" "fits U128S ?b ?u"
      using sa sb False pw mle [of ?a a] mle [of ?b b] assms(1) b big by (auto simp: fits_def U128S_def)
    moreover have "mant ?u ?b \<le> mant ?u ?a"
    proof -
      have "uval ?b \<le> uval ?a" unfolding A(3) B(3) using assms(2) by (rule mult_le_mono1)
      then have "mant ?u ?b * 10 ^ ?u \<le> mant ?u ?a * 10 ^ ?u" unfolding uval_min [where a = ?a and b = ?b] .
      then show ?thesis by simp
    qed
    ultimately show ?thesis
      using compute_mode_nonzero [OF A(1) B(1) nz, of U128S False] by (simp add: sub_mode_u128_def checked_sub_def)
  qed
  then obtain c where c: "sub_mode_u128 (amount_unit238 a) (amount_unit238 b) = Inr c" by blast
  with sub_mode_ok [OF A(1) B(1), of U128S c] compute_mode_canonical [OF A(1) B(1) A(2) B(2), of U128S False c]
  show ?thesis by (simp add: sub_mode_u128_def U128S_def)
qed

lemma calc_burn_ok:
  assumes "calc_burn_amount n price = Inr a" "price_ok price"
  shows "a = amount_unit238 (burn_238 n price)" "0 < n" "0 < burn_238 n price" "burn_238 n price < 2 ^ 64"
    "i128_ok (n * purity_fee price)" "i128_ok (n * purity_fee price + purity_size price)"
proof -
  define burn where "burn = (n * purity_fee price + purity_size price - 1) div purity_size price"
  from assms(1) have g: "\<not> n \<le> 0" "i128_ok (n * purity_fee price)" "i128_ok (n * purity_fee price + purity_size price)"
    "\<not> burn \<le> 0" "\<not> burn \<ge> 2 ^ 64" "amount_unit238 (nat burn) = a"
    unfolding calc_burn_amount_def Let_def if_Inl_eq_Inr burn_def [symmetric] by simp_all
  have b: "burn_238 n price = nat burn" using g(1) by (simp add: burn_238_def burn_def)
  show "a = amount_unit238 (burn_238 n price)" "0 < n" "0 < burn_238 n price" "burn_238 n price < 2 ^ 64"
    "i128_ok (n * purity_fee price)" "i128_ok (n * purity_fee price + purity_size price)"
    using g by (simp_all add: b)
qed

lemma burn_mono: "price_ok price \<Longrightarrow> m \<le> n \<Longrightarrow> burn_238 m price \<le> burn_238 n price"
proof -
  assume p: "price_ok price" and le: "m \<le> n"
  then have c: "m * purity_fee price \<le> n * purity_fee price" and d: "0 < purity_size price" by (simp_all add: price_ok_def)
  have "(m * purity_fee price + purity_size price - 1) div purity_size price \<le> (n * purity_fee price + purity_size price - 1) div purity_size price"
    by (rule zdiv_mono1 [OF _ d]) (use c in linarith)
  with le show ?thesis by (simp add: burn_238_def nat_mono)
qed

lemma calc_burn_below:
  assumes "calc_burn_amount n price = Inr a" "price_ok price" "0 < m" "m \<le> n"
  shows "calc_burn_amount m price = Inr (amount_unit238 (burn_238 m price))" "burn_238 m price \<le> burn_238 n price"
proof -
  note N = calc_burn_ok [OF assms(1,2)]
  show le: "burn_238 m price \<le> burn_238 n price" by (rule burn_mono [OF assms(2,4)])
  have p: "0 < purity_fee price" "0 < purity_size price" using assms(2) by (simp_all add: price_ok_def)
  have mf: "m * purity_fee price \<le> n * purity_fee price" "0 < m * purity_fee price" using assms(3,4) p by simp_all
  define burn where "burn = (m * purity_fee price + purity_size price - 1) div purity_size price"
  have b: "burn_238 m price = nat burn" using assms(3) by (simp add: burn_238_def burn_def)
  have "0 < burn" unfolding burn_def using mf(2) p(2) by (simp add: pos_imp_zdiv_pos_iff)
  then have "\<not> burn \<le> 0" "\<not> burn \<ge> 2 ^ 64" using le N(4) by (simp_all add: b)
  moreover have "i128_ok (m * purity_fee price)" "i128_ok (m * purity_fee price + purity_size price)"
    using N(5,6) mf p unfolding i128_ok_def by linarith+
  ultimately show "calc_burn_amount m price = Inr (amount_unit238 (burn_238 m price))"
    using assms(3) p unfolding calc_burn_amount_def Let_def burn_def [symmetric] b by simp
qed

section \<open>The life of a counter\<close>

text \<open>From the payment in advance on, gas is charged and rebated in any order, and a rolled-back
  part of the execution restores an earlier rebate.\<close>

inductive gas_reach :: "gas_price \<Rightarrow> int \<Rightarrow> gas_counter \<Rightarrow> bool" for price budget where
  reach_begin: "calc_burn_amount budget price = Inr mx \<Longrightarrow> gas_begin budget mx gas_new = (Inr (), g) \<Longrightarrow> i64_ok budget \<Longrightarrow>
    gas_reach price budget g"
| reach_charge: "gas_reach price budget g \<Longrightarrow> gas_charge n g = (res, g') \<Longrightarrow> gas_reach price budget g'"
| reach_rebate: "gas_reach price budget g \<Longrightarrow> gas_rebate n g = (res, g') \<Longrightarrow> gas_reach price budget g'"
| reach_restore: "gas_reach price budget g \<Longrightarrow> gas_reach price budget g' \<Longrightarrow>
    gas_reach price budget (restore_rebated (rebated_checkpoint g) g')"

definition gas_inv :: "gas_price \<Rightarrow> int \<Rightarrow> gas_counter \<Rightarrow> bool" where
  "gas_inv price budget g \<longleftrightarrow> gc_running g \<and> gc_remaining g + gc_used g = budget \<and> 0 \<le> gc_remaining g \<and>
     0 \<le> gc_used g \<and> 0 \<le> gc_rebated g \<and> i64_ok budget \<and> calc_burn_amount budget price = Inr (gc_max_charge g)"

lemma gas_charge_inv:
  assumes "gas_inv price budget g" "gas_charge n g = (res, g')"
  shows "gas_inv price budget g' \<and> (res = Inr () \<longrightarrow> 0 \<le> n \<and> g' = g\<lparr>gc_remaining := gc_remaining g - n, gc_used := gc_used g + n\<rparr>) \<and>
    (res \<noteq> Inr () \<longrightarrow> g' = g)"
  using assms by (auto simp: gas_inv_def gas_charge_def Let_def i64_ok_def split: if_splits)

lemma gas_rebate_inv: "gas_inv price budget g \<Longrightarrow> gas_rebate n g = (res, g') \<Longrightarrow> gas_inv price budget g'"
  by (auto simp: gas_inv_def gas_rebate_def split: if_splits)

lemma gas_reach_inv: "gas_reach price budget g \<Longrightarrow> gas_inv price budget g"
proof (induction rule: gas_reach.induct)
  case (reach_begin mx g)
  then show ?case by (auto simp: gas_begin_def gas_inv_def split: if_splits)
next
  case (reach_restore g g')
  then show ?case by (simp add: gas_inv_def restore_rebated_def rebated_checkpoint_def)
qed (auto dest: gas_charge_inv gas_rebate_inv)

lemma finalize_ok:
  assumes inv: "gas_inv price budget g" and p: "price_ok price"
  shows "\<exists>refund used. gas_finalize price g = (Inr (refund, used), g\<lparr>gc_running := False\<rparr>) \<and>
    uval used = burn_238 (used_net g) price * one_238 \<and> uval refund + uval used = uval (gc_max_charge g) \<and>
    hac_okv refund \<and> hac_okv used \<and> burn_238 (used_net g) price < 2 ^ 64"
proof -
  have mx: "calc_burn_amount budget price = Inr (gc_max_charge g)" and run: "gc_running g" using inv by (simp_all add: gas_inv_def)
  note B = calc_burn_ok [OF mx p] note V = amount_unit238_value [OF B(4)]
  have pos: "is_positive (gc_max_charge g)" unfolding B(1) V(4) by (rule B(3))
  have net: "used_net g \<le> budget" using inv by (auto simp: gas_inv_def used_net_def)
  have le: "burn_238 (used_net g) price \<le> burn_238 budget price" by (rule burn_mono [OF p net])
  have used: "used_charge g price = Inr (amount_unit238 (burn_238 (used_net g) price))"
  proof (cases "used_net g \<le> 0")
    case True
    moreover have "amount_unit238 0 = amount_zero" by (simp add: amount_unit238_def amount_coin_def coin_u64_def coin_with_def)
    ultimately show ?thesis using pos by (simp add: used_charge_def burn_238_def)
  next
    case False
    then show ?thesis using pos calc_burn_below(1) [OF mx p _ net] by (simp add: used_charge_def)
  qed
  obtain refund where r: "sub_mode_u128 (gc_max_charge g) (amount_unit238 (burn_238 (used_net g) price)) = Inr refund"
    "amt_unsigned refund" "amt_canonical refund" "uval refund + uval (amount_unit238 (burn_238 (used_net g) price)) = uval (gc_max_charge g)"
    using sub_unit238 [OF B(4) le B(3)] unfolding B(1) by blast
  have u: "burn_238 (used_net g) price < 2 ^ 64" using le B(4) by simp
  show ?thesis
    using run used r u amount_unit238_value [OF u] by (auto simp: gas_finalize_def hac_okv_def)
qed

text \<open>C23: However gas is charged, rebated and rolled back, the settlement succeeds and is exact: what
  is burned is the net use at the transaction's price, rounded up, the refund is the rest of the
  advance, and the net use never exceeds the budget.\<close>
theorem gas_settlement_exact:
  assumes "gas_reach price budget g" "price_ok price"
  shows "\<exists>refund used. gas_finalize price g = (Inr (refund, used), g\<lparr>gc_running := False\<rparr>) \<and>
    uval used = burn_238 (used_net g) price * one_238 \<and> uval refund + uval used = uval (gc_max_charge g) \<and>
    0 \<le> used_net g \<and> used_net g \<le> budget \<and> gc_remaining g + gc_used g = budget \<and> 0 \<le> gc_remaining g"
  using finalize_ok [OF gas_reach_inv [OF assms(1)] assms(2)] gas_reach_inv [OF assms(1)]
  by (auto simp: gas_inv_def used_net_def)


section \<open>The bill\<close>

lemma gas_on_core_eq: "gas_on_core f c = (res, c') \<longleftrightarrow> (\<exists>s. f (gx_core c) = (res, s) \<and> c' = c\<lparr>gx_core := s\<rparr>)"
  by (auto simp: gas_on_core_def split: prod.splits)

lemma on_gas_eq: "on_gas f c = (res, c') \<longleftrightarrow> (\<exists>g. f (gx_gas c) = (res, g) \<and> c' = c\<lparr>gx_gas := g\<rparr>)"
  by (auto simp: on_gas_def split: prod.splits)

lemma hac_sub_shape: "hac_sub a v s = (Inr u, s') \<Longrightarrow> \<exists>n. do_hac_sub a v s = (Inr n, s')"
  by (auto simp: hac_sub_def bindS_eq_Inr)

lemma hac_add_count:
  assumes "ledger_ok s" "hac_okv v" "hac_add a v s = (Inr u, s')" "a \<noteq> ADDRESS_ZERO"
  shows "total_count_of s' = total_count_of s"
proof -
  obtain n s1 where add: "do_hac_add a v s = (Inr n, s1)"
    and tail: "bindS (blackhole_engulf a) (\<lambda>hole. if hole then total_record_blackhole_hac v else returnS ()) s1 = (Inr u, s')"
    using assms(3) by (auto simp: hac_add_def bindS_eq_Inr)
  have "s1 = s\<lparr>balances := balances s1\<rparr>" using do_hac_add_ok [OF assms(1,2) add] by blast
  then have "total_count_of s1 = total_count_of (s\<lparr>balances := balances s1\<rparr>)" by (rule arg_cong)
  then have "total_count_of s1 = total_count_of s" by simp
  moreover have "s' = s1" using engulf_state [OF tail total_records_state(1)] assms(4) by simp
  ultimately show ?thesis by simp
qed

definition advance_238 :: "gas_price \<Rightarrow> int \<Rightarrow> nat" where
  "advance_238 price b = burn_238 (min b (decode_gas_budget TX_GAS_BUDGET_CAP_BYTE)) price"

lemma gas_initialize_ok:
  assumes "gas_initialize main (Inr price) b c0 = (Inr (), c1)" "price_ok price" "ledger_ok (gx_core c0)" "gx_gas c0 = gas_new"
  shows "hac_of (gx_core c1) = (hac_of (gx_core c0))(main := hac_of (gx_core c0) main - advance_238 price b * one_238)"
    "advance_238 price b * one_238 \<le> hac_of (gx_core c0) main" "ledger_ok (gx_core c1)"
    "0 < b \<Longrightarrow> gas_reach price (min b (decode_gas_budget TX_GAS_BUDGET_CAP_BYTE)) (gx_gas c1)"
    "uval (gc_max_charge (gx_gas c1)) = advance_238 price b * one_238"
proof -
  let ?b = "min b (decode_gas_budget TX_GAS_BUDGET_CAP_BYTE)"
  from assms(1,4) obtain mx s g where m: "calc_burn_amount ?b price = Inr mx" and s: "hac_sub main mx (gx_core c0) = (Inr (), s)"
    and g: "gas_begin ?b mx gas_new = (Inr (), g)" and c1: "gx_core c1 = s" "gx_gas c1 = g"
    unfolding gas_initialize_def
    by (auto simp: bindS_eq_Inr gas_on_core_eq on_gas_eq Let_def gas_new_def split: if_splits)
  note B = calc_burn_ok [OF m assms(2)] note V = amount_unit238_value [OF B(4)]
  have mx: "uval mx = advance_238 price b * one_238" "hac_okv mx" using V by (simp_all add: B(1) advance_238_def hac_okv_def)
  from hac_sub_shape [OF s] obtain n where "do_hac_sub main mx (gx_core c0) = (Inr n, s)" by blast
  from do_hac_sub_ok [OF assms(3) mx(2) this] mx(1) c1
  show "hac_of (gx_core c1) = (hac_of (gx_core c0))(main := hac_of (gx_core c0) main - advance_238 price b * one_238)"
    "advance_238 price b * one_238 \<le> hac_of (gx_core c0) main" "ledger_ok (gx_core c1)" by simp_all
  have "GAS_BUDGET_LOOKUP ! unat TX_GAS_BUDGET_CAP_BYTE = 111911" by (simp add: GAS_BUDGET_LOOKUP_def TX_GAS_BUDGET_CAP_BYTE_def)
  then have "i64_ok ?b" if "0 < b" using that by (simp add: i64_ok_def decode_gas_budget_def)
  then show "0 < b \<Longrightarrow> gas_reach price ?b (gx_gas c1)" using reach_begin [OF m g] c1 by simp
  show "uval (gc_max_charge (gx_gas c1)) = advance_238 price b * one_238"
  proof -
    have "gc_max_charge g = mx" using g by (auto simp: gas_begin_def split: if_splits)
    then show ?thesis using mx(1) c1 by simp
  qed
qed

lemma gas_refund_ok:
  assumes "gas_refund main (Inr price) c2 = (Inr (), c3)" "price_ok price" "ledger_ok (gx_core c2)" "main \<noteq> ADDRESS_ZERO"
    "gas_reach price budget (gx_gas c2)"
  shows "hac_of (gx_core c3) = (hac_of (gx_core c2))
      (main := hac_of (gx_core c2) main + (uval (gc_max_charge (gx_gas c2)) - burn_238 (used_net (gx_gas c2)) price * one_238))"
    "ast_vm_gas_burn_238 (total_count_of (gx_core c3)) =
       ast_vm_gas_burn_238 (total_count_of (gx_core c2)) + burn_238 (used_net (gx_gas c2)) price"
    "\<not> gc_running (gx_gas c3)"
proof -
  let ?g = "gx_gas c2" let ?n = "burn_238 (used_net ?g) price"
  obtain refund used where fin: "gas_finalize price ?g = (Inr (refund, used), ?g\<lparr>gc_running := False\<rparr>)"
    and v: "uval used = ?n * one_238" "uval refund + uval used = uval (gc_max_charge ?g)" "hac_okv refund" "hac_okv used" "?n < 2 ^ 64"
    using finalize_ok [OF gas_reach_inv [OF assms(5)] assms(2)] by blast
  let ?c = "c2\<lparr>gx_gas := ?g\<lparr>gc_running := False\<rparr>\<rparr>"
  have pos: "is_positive a \<longleftrightarrow> 0 < uval a" if "hac_okv a" for a
  proof -
    have u: "amt_unsigned a" using that by (simp add: hac_okv_def)
    have "0 < dist a" if "0 < uval a"
      using that u by (cases "byte a") (auto simp: uval_def amt_unsigned_def amt_wf_def tail_len_def)
    then show ?thesis using to_bigint_uval [OF u] by (auto simp: is_positive_iff)
  qed
  from assms(1) fin obtain c where add: "(if is_positive refund then gas_on_core (hac_add main refund) else returnS ()) ?c = (Inr (), c)"
    and tail: "(if \<not> is_positive used then returnS () else bindS (liftS (to_238_u64 used)) (\<lambda>u. if u = 0 then returnS ()
       else gas_on_core (with_total_count (\<lambda>tt. bindR (total_add_u12 (ast_vm_gas_burn_238 tt) u) (\<lambda>x. Inr (tt\<lparr>ast_vm_gas_burn_238 := x\<rparr>)))))) c = (Inr (), c3)"
    unfolding gas_refund_def by (auto simp: bindS_eq_Inr on_gas_eq)
  have c: "gx_gas c = ?g\<lparr>gc_running := False\<rparr>" "hac_of (gx_core c) = (hac_of (gx_core c2))(main := hac_of (gx_core c2) main + uval refund)"
    "total_count_of (gx_core c) = total_count_of (gx_core c2)"
  proof -
    show "gx_gas c = ?g\<lparr>gc_running := False\<rparr>" using add by (auto simp: gas_on_core_eq split: if_splits)
    show "hac_of (gx_core c) = (hac_of (gx_core c2))(main := hac_of (gx_core c2) main + uval refund)"
      using add hac.credit_ok [OF assms(3) v(3)] assms(4) pos [OF v(3)] by (auto simp: gas_on_core_eq split: if_splits)
    show "total_count_of (gx_core c) = total_count_of (gx_core c2)"
      using add hac_add_count [OF assms(3) v(3) _ assms(4)] by (auto simp: gas_on_core_eq split: if_splits)
  qed
  have "uval used div 10 ^ UNIT_238 = ?n"
    unfolding v(1) UNIT_238_def one_238_def [symmetric] using one_238_pos by simp
  then have u: "to_238_u64 used = Inr ?n"
    using v(4,5) unfolding to_238_u64_def hac_okv_def by (simp only: to_unit_u64_eq)
  have wtc: "\<exists>x. total_add_u12 (ast_vm_gas_burn_238 (total_count_of s)) ?n = Inr x \<and> s' = s\<lparr>total_count_of := (total_count_of s)\<lparr>ast_vm_gas_burn_238 := x\<rparr>\<rparr>"
    if "with_total_count (\<lambda>tt. bindR (total_add_u12 (ast_vm_gas_burn_238 tt) ?n) (\<lambda>x. Inr (tt\<lparr>ast_vm_gas_burn_238 := x\<rparr>))) s = (Inr (), s')" for s s'
    using that by (auto simp: with_total_count_def bindS_eq_Inr bindR_eq_Inr)
  have t12: "total_add_u12 x y = Inr z \<Longrightarrow> z = x + y" for x y z
    by (auto simp: total_add_u12_def u128_to_uint12_def uint_from_checked_def split: if_splits option.splits)
  have fin3: "gx_gas c3 = gx_gas c \<and> hac_of (gx_core c3) = hac_of (gx_core c) \<and>
    ast_vm_gas_burn_238 (total_count_of (gx_core c3)) = ast_vm_gas_burn_238 (total_count_of (gx_core c)) + ?n"
  proof (cases "?n = 0")
    case True
    with tail u v(1) pos [OF v(4)] show ?thesis by (auto split: if_splits)
  next
    case False
    with tail u v(1) pos [OF v(4)] one_238_pos obtain s where "gx_gas c3 = gx_gas c" "gx_core c3 = s"
      "with_total_count (\<lambda>tt. bindR (total_add_u12 (ast_vm_gas_burn_238 tt) ?n) (\<lambda>x. Inr (tt\<lparr>ast_vm_gas_burn_238 := x\<rparr>))) (gx_core c) = (Inr (), s)"
      by (auto simp: gas_on_core_eq)
    with wtc t12 show ?thesis by (fastforce simp: hac_of_def balance_or_default_def fun_eq_iff)
  qed
  show "hac_of (gx_core c3) = (hac_of (gx_core c2))(main := hac_of (gx_core c2) main + (uval (gc_max_charge ?g) - ?n * one_238))"
    "ast_vm_gas_burn_238 (total_count_of (gx_core c3)) = ast_vm_gas_burn_238 (total_count_of (gx_core c2)) + ?n" "\<not> gc_running (gx_gas c3)"
  proof -
    have "uval refund = uval (gc_max_charge ?g) - ?n * one_238" using v(1,2) by linarith
    with fin3 c show "hac_of (gx_core c3) = (hac_of (gx_core c2))(main := hac_of (gx_core c2) main + (uval (gc_max_charge ?g) - ?n * one_238))"
      "ast_vm_gas_burn_238 (total_count_of (gx_core c3)) = ast_vm_gas_burn_238 (total_count_of (gx_core c2)) + ?n" "\<not> gc_running (gx_gas c3)"
      by simp_all
  qed
qed

text \<open>C24: The gas bill: initialisation takes the advance for the capped budget from the main address and
  nothing from anyone else; the final refund returns the advance minus the charge for the net use,
  again touching no other account, and the burned amount is added to the public counter.\<close>
theorem gas_bill_exact:
  assumes "price_ok price" "ledger_ok (gx_core c0)" "gx_gas c0 = gas_new" "main \<noteq> ADDRESS_ZERO"
    and "gas_initialize main (Inr price) b c0 = (Inr (), c1)"
    and "ledger_ok (gx_core c2)" "gas_reach price (min b (decode_gas_budget TX_GAS_BUDGET_CAP_BYTE)) (gx_gas c2)"
    and "gas_refund main (Inr price) c2 = (Inr (), c3)"
  defines "used \<equiv> burn_238 (used_net (gx_gas c2)) price"
  shows "hac_of (gx_core c1) = (hac_of (gx_core c0))(main := hac_of (gx_core c0) main - advance_238 price b * one_238) \<and>
    used \<le> advance_238 price b \<and>
    hac_of (gx_core c3) = (hac_of (gx_core c2))(main := hac_of (gx_core c2) main + (advance_238 price b - used) * one_238) \<and>
    ast_vm_gas_burn_238 (total_count_of (gx_core c3)) = ast_vm_gas_burn_238 (total_count_of (gx_core c2)) + used"
proof -
  note inv = gas_reach_inv [OF assms(7)]
  have mx: "uval (gc_max_charge (gx_gas c2)) = advance_238 price b * one_238"
  proof -
    have "calc_burn_amount (min b (decode_gas_budget TX_GAS_BUDGET_CAP_BYTE)) price = Inr (gc_max_charge (gx_gas c2))"
      using inv by (simp add: gas_inv_def)
    note B = calc_burn_ok [OF this assms(1)]
    show ?thesis using amount_unit238_value(3) [OF B(4)] by (simp add: B(1) advance_238_def)
  qed
  have "used_net (gx_gas c2) \<le> min b (decode_gas_budget TX_GAS_BUDGET_CAP_BYTE)" using inv by (auto simp: gas_inv_def used_net_def)
  then have "used \<le> advance_238 price b" unfolding used_def advance_238_def by (rule burn_mono [OF assms(1)])
  then show ?thesis
    using gas_initialize_ok(1) [OF assms(5,1-3)] gas_refund_ok(1,2) [OF assms(8,1,6,4,7)]
    by (simp add: mx used_def diff_mult_distrib)
qed


section \<open>Samples\<close>

definition sample_price :: gas_price where "sample_price = \<lparr>purity_fee = 10000000000, purity_size = 1\<rparr>"

lemma sample_price_ok: "price_ok sample_price" by (simp add: price_ok_def sample_price_def)

lemma sample_burn: "calc_burn_amount 2 sample_price = Inr (amount_unit238 20000000000)"
  "calc_burn_amount 1 sample_price = Inr (amount_unit238 10000000000)" "burn_238 1 sample_price = 10000000000"
  "burn_238 2 sample_price = 20000000000"
  by (simp_all add: calc_burn_amount_def sample_price_def Let_def i128_ok_def burn_238_def)

lemma sample_coin: "amount_unit238 20000000000 = coin 2" "amount_unit238 10000000000 = coin 1"
proof -
  have l: "coin_loop 20000000000 238 = (2, 248)" "coin_loop 10000000000 238 = (1, 248)" by (simp_all add: coin_loop.simps)
  have d: "drop_left_zero (be_bytes 8 2) = [2]" "drop_left_zero (be_bytes 8 1) = [1]"
    by (simp_all add: be_bytes_numeral be_bytes_Suc_Cons)
  show "amount_unit238 20000000000 = coin 2" "amount_unit238 10000000000 = coin 1"
    by (simp_all add: amount_unit238_def amount_coin_def coin_u64_def coin_with_def UNIT_238_def U64S_def l d coin_def Let_def del: One_nat_def)
qed

definition sample_gas :: gas_counter where
  "sample_gas = \<lparr>gc_running = True, gc_remaining = 1, gc_used = 1, gc_rebated = 0, gc_max_charge = coin 2\<rparr>"

lemma sample_gas_reach: "gas_reach sample_price 2 sample_gas"
proof -
  let ?g = "\<lparr>gc_running = True, gc_remaining = 2, gc_used = 0, gc_rebated = 0, gc_max_charge = coin 2\<rparr>"
  have "\<not> is_positive (gc_max_charge gas_new)" by (simp add: gas_new_def is_positive_def)
  then have "gas_begin 2 (coin 2) gas_new = (Inr (), ?g)" by (simp add: gas_begin_def) (simp add: gas_new_def)
  with sample_burn(1) have "gas_reach sample_price 2 ?g" by (intro reach_begin) (simp_all add: sample_coin i64_ok_def)
  moreover have "gas_charge 1 ?g = (Inr (), sample_gas)" by (simp add: gas_charge_def i64_ok_def sample_gas_def)
  ultimately show ?thesis by (rule reach_charge)
qed

theorem gas_settlement_exact_witness:
  "\<exists>refund used. gas_finalize sample_price sample_gas = (Inr (refund, used), sample_gas\<lparr>gc_running := False\<rparr>) \<and>
    uval used = 10000000000 * one_238"
  using gas_settlement_exact [OF sample_gas_reach sample_price_ok] sample_burn(3) by (auto simp: used_net_def sample_gas_def)

lemma coin_arith: "sub_mode_u128 (coin 2) (coin 1) = Inr (coin 1)" "add_mode_u128 (coin 5) (coin 1) = Inr (coin 6)"
proof -
  have l: "coin_loop 1 248 = (1, 248)" "coin_loop 6 248 = (6, 248)" by (simp_all add: coin_loop.simps)
  have d: "drop_left_zero (be_bytes U128S 1) = [1]" "drop_left_zero (be_bytes U128S 6) = [6]"
    by (simp_all add: be_bytes_numeral be_bytes_Suc_Cons U128S_def)
  have c: "coin_with U128S 1 248 = coin 1" "coin_with U128S 6 248 = coin 6" by (simp_all add: coin_with_def coin_def l d Let_def del: One_nat_def)
  note c1 = c(1) [unfolded One_nat_def]
  show "sub_mode_u128 (coin 2) (coin 1) = Inr (coin 1)" "add_mode_u128 (coin 5) (coin 1) = Inr (coin 6)"
    by (simp_all add: coin_fields compute_mode_def amt_is_zero_def bytes_is_zero_def bytes_not_zero_def tail_len_def sub_mode_u128_def
        add_mode_u128_def be_nat_Cons checked_sub_def checked_add_def Let_def c [unfolded U128S_def] c1 [unfolded U128S_def] U128S_def)
qed


definition sample_gas_ctx :: "gas_counter \<Rightarrow> gas_ctx" where
  "sample_gas_ctx g = \<lparr>gx_gas = g, gx_core = sample_state\<rparr>"

lemma decode_cap: "decode_gas_budget TX_GAS_BUDGET_CAP_BYTE = 111911"
  by (simp add: decode_gas_budget_def GAS_BUDGET_LOOKUP_def TX_GAS_BUDGET_CAP_BYTE_def)

lemma sample_initialize: "\<exists>c1. gas_initialize addr_a (Inr sample_price) 2 (sample_gas_ctx gas_new) = (Inr (), c1)"
proof -
  have "\<exists>s. hac_sub addr_a (coin 2) sample_state = (Inr (), s)"
    by (simp add: hac_sub_def check_amount_is_positive_def do_hac_sub_def amount_op_def balance_put_def bindS_def
      balance_or_default_def sample_state_def amount_lt_uval coin_ok coin_ops coin_ops2)
  then obtain s where s: "hac_sub addr_a (coin 2) sample_state = (Inr (), s)" by blast
  have "\<not> is_positive (gc_max_charge gas_new)" "\<not> gc_running gas_new" by (simp_all add: gas_new_def is_positive_def)
  then show ?thesis
    using s by (simp add: gas_initialize_def sample_gas_ctx_def decode_cap sample_burn(1) sample_coin Let_def gas_on_core_def on_gas_def gas_begin_def bindS_def)
qed

lemma sample_refund: "\<exists>c3. gas_refund addr_a (Inr sample_price) (sample_gas_ctx sample_gas) = (Inr (), c3)"
proof -
  have add: "\<exists>s. hac_add addr_a (coin 1) sample_state = (Inr (), s) \<and> total_count_of s = no_count"
    by (simp add: hac_add_def check_amount_is_positive_def do_hac_add_def amount_op_def balance_put_def bindS_def
      balance_or_default_def sample_state_def coin_ops coin_ops2 coin_arith blackhole_engulf_def BLACKHOLE_ADDR_def)
  then obtain s where s: "hac_add addr_a (coin 1) sample_state = (Inr (), s)" "total_count_of s = no_count" by blast
  have fin: "gas_finalize sample_price sample_gas = (Inr (coin 1, coin 1), sample_gas\<lparr>gc_running := False\<rparr>)"
    by (simp add: gas_finalize_def used_charge_def used_net_def sample_gas_def sample_burn(2) sample_coin coin_arith coin_ops2)
  have u: "to_238_u64 (coin 1) = Inr 10000000000"
    unfolding to_238_u64_def by (simp add: to_unit_u64_eq coin_ok coin_ops2 UNIT_238_def)
  show ?thesis
    using s fin u by (simp add: gas_refund_def sample_gas_ctx_def gas_on_core_def on_gas_def bindS_def coin_ops2 with_total_count_def
      no_count_def total_add_u12_def u128_to_uint12_def uint_from_checked_def)
qed

theorem gas_bill_exact_witness:
  "\<exists>c3. gas_refund addr_a (Inr sample_price) (sample_gas_ctx sample_gas) = (Inr (), c3) \<and>
    hac_of (gx_core c3) addr_a = hac_of sample_state addr_a + 10000000000 * one_238"
proof -
  obtain c1 where i: "gas_initialize addr_a (Inr sample_price) 2 (sample_gas_ctx gas_new) = (Inr (), c1)" using sample_initialize by blast
  obtain c3 where r: "gas_refund addr_a (Inr sample_price) (sample_gas_ctx sample_gas) = (Inr (), c3)" using sample_refund by blast
  have f: "ledger_ok (gx_core (sample_gas_ctx g))" "gx_gas (sample_gas_ctx g) = g" for g by (simp_all add: sample_gas_ctx_def sample_ok)
  have "gas_reach sample_price (min 2 (decode_gas_budget TX_GAS_BUDGET_CAP_BYTE)) (gx_gas (sample_gas_ctx sample_gas))"
    using sample_gas_reach by (simp add: decode_cap f)
  from gas_bill_exact [OF sample_price_ok f(1) f(2) _ i f(1) this r] r show ?thesis
    by (auto simp: used_net_def sample_gas_def sample_burn advance_238_def decode_cap sample_gas_ctx_def)
qed

end
