(* ===== verification/AstExec.thy ===== *)
theory AstExec
  imports ActionTree GasCounter ChainState
begin

text \<open>
  Executing an action tree (\<^verbatim>\<open>protocol/src/action/asthelper.rs\<close>, \<open>astselect.rs\<close>, \<open>astif.rs\<close>, the
  \<open>execute\<close> of \<^verbatim>\<open>macro.rs\<close>, \<^verbatim>\<open>protocol/src/context/sub.rs\<close> and \<open>context.rs\<close>). Every child runs on a
  fork of the state that is merged when it succeeds and dropped when it reverts. The executor is
  written over the operations of a context, which are given twice: as the code has them, with a
  stack of state layers, and as a specification that saves and restores whole contexts.
  The execution of a plain action and the registered hooks are parameters.
\<close>

record ('c, 's, 'd) ctx_ops =
  co_gas_charge :: "int \<Rightarrow> ('c, unit) st"
  co_begin :: "'c \<Rightarrow> 's \<times> 'c"
  co_commit :: "'s \<Rightarrow> 'c \<Rightarrow> 'c"
  co_rollback :: "'s \<Rightarrow> ('c, unit) st"
  co_abandon :: "'c \<Rightarrow> 'c"
  co_from :: "'c \<Rightarrow> exec_from"
  co_set_from :: "exec_from \<Rightarrow> 'c \<Rightarrow> 'c"
  co_leaf :: "'d leaf \<Rightarrow> ('c, u32 \<times> u8 list) st"
  co_hook :: "u16 \<Rightarrow> ('c, unit) st"

record act_env =
  ax_chain_id :: u32
  ax_height :: u64
  ax_tx_ty :: u8
  ax_fast_sync :: bool

definition SNAPSHOT_TRY_GAS :: int where "SNAPSHOT_TRY_GAS = 40"

text \<open>One child inside its own snapshot. A fault leaves the snapshot behind.\<close>

definition ast_exec_item :: "('c, 's, 'd) ctx_ops \<Rightarrow> bool \<Rightarrow> ('c, u32 \<times> 'a) st \<Rightarrow> ('c, 'a) st" where
  "ast_exec_item K child_extra9 exec =
     bindS (co_gas_charge K SNAPSHOT_TRY_GAS) (\<lambda>_ c.
       let (snap, c) = co_begin K c in
       case exec c of
         (Inr (child_gas, ret), c) \<Rightarrow>
           (case co_gas_charge K (int (unat (extra9_surcharge child_extra9 child_gas))) c of
              (Inl e, c) \<Rightarrow> (Inl e, co_abandon K c)
            | (Inr _, c) \<Rightarrow> (Inr ret, co_commit K snap c))
       | (Inl (Revert msg), c) \<Rightarrow>
           (case co_rollback K snap c of (Inl e, c) \<Rightarrow> (Inl e, c) | (Inr _, c) \<Rightarrow> (Inl (Revert msg), c))
       | (Inl e, c) \<Rightarrow> (Inl e, co_abandon K c))"

text \<open>\<open>enter_exec_from\<close>: the origin is set for the body and restored however the body ends.\<close>

definition with_exec_from :: "('c, 's, 'd) ctx_ops \<Rightarrow> exec_from \<Rightarrow> ('c, 'a) st \<Rightarrow> ('c, 'a) st" where
  "with_exec_from K fr f = (\<lambda>c. case f (co_set_from K fr c) of (res, c') \<Rightarrow> (res, co_set_from K (co_from K c) c'))"

text \<open>What every action does around its body.\<close>

definition act_execute :: "('c, 's, 'd) ctx_ops \<Rightarrow> act_env \<Rightarrow> 'd action \<Rightarrow> ('c, u32 \<times> u8 list) st \<Rightarrow> ('c, u32 \<times> u8 list) st" where
  "act_execute K A act body =
     bindS (liftS (check_gated_action (ax_chain_id A) (ax_height A) (act_kind act))) (\<lambda>_.
     bindS (getsS (co_from K)) (\<lambda>fr.
     bindS (liftS (if ax_fast_sync A then precheck_runtime_action_fast_sync (ax_tx_ty A) act
                   else precheck_runtime_action (ax_tx_ty A) act fr)) (\<lambda>_.
     bindS body (\<lambda>res.
     bindS (co_hook K (act_kind act)) (\<lambda>_. returnS res)))))"

definition select_finish :: "nat \<Rightarrow> nat \<Rightarrow> u8 list option \<Rightarrow> ('c, u32 \<times> u8 list) st" where
  "select_finish mn ok last_ok_ret =
     (if ok < mn then failS (Revert ''action ast select must succeed at least'')
      else returnS (0, case last_ok_ret of None \<Rightarrow> [] | Some r \<Rightarrow> r))"

lemma select_size: "0 < size (s :: 'd select)" by (cases s) simp

function
  exec_action :: "('c, 's, 'd) ctx_ops \<Rightarrow> act_env \<Rightarrow> 'd action \<Rightarrow> ('c, u32 \<times> u8 list) st" and
  exec_select :: "('c, 's, 'd) ctx_ops \<Rightarrow> act_env \<Rightarrow> 'd action list \<Rightarrow> nat \<Rightarrow> nat \<Rightarrow> nat \<Rightarrow> u8 list option \<Rightarrow> ('c, u32 \<times> u8 list) st" where
  "exec_action K A (Leaf l) = act_execute K A (Leaf l) (co_leaf K l)"
| "exec_action K A (Select (Sel mn mx acts)) = act_execute K A (Select (Sel mn mx acts)) (with_exec_from K FromAst
     (bindS (liftS (validate_ast_select mn mx (length acts))) (\<lambda>_. exec_select K A acts mn mx 0 None)))"
| "exec_action K A (AIf cond br_if br_else) = act_execute K A (AIf cond br_if br_else) (with_exec_from K FromAst (\<lambda>c.
     let branch = (\<lambda>f. bindS (ast_exec_item K False f) (\<lambda>ret. returnS (0, ret))) in
     case ast_exec_item K False (exec_action K A (Select cond)) c of
       (Inr _, c) \<Rightarrow> branch (exec_action K A (Select br_if)) c
     | (Inl (Revert _), c) \<Rightarrow> branch (exec_action K A (Select br_else)) c
     | (Inl e, c) \<Rightarrow> (Inl e, c)))"
| "exec_select K A [] mn mx ok last_ok_ret = select_finish mn ok last_ok_ret"
| "exec_select K A (act # acts) mn mx ok last_ok_ret =
     (if ok \<ge> mx then select_finish mn ok last_ok_ret
      else (\<lambda>c. case ast_exec_item K (act_extra9 act) (exec_action K A act) c of
          (Inr ret, c) \<Rightarrow> exec_select K A acts mn mx (ok + 1) (Some ret) c
        | (Inl (Revert _), c) \<Rightarrow> exec_select K A acts mn mx ok last_ok_ret c
        | (Inl e, c) \<Rightarrow> (Inl e, c)))"
  by pat_completeness auto
termination
  by (relation "measure (\<lambda>x. case x of Inl (_, _, a) \<Rightarrow> 2 * size a | Inr (_, _, l, _) \<Rightarrow> 2 * size_list size l + 1)")
    (auto simp: select_size intro: trans_less_add1)

section \<open>The contexts\<close>

text \<open>What a plain action may do: write state, use gas, log, and change the machine.\<close>

record 'vm effects =
  ef_writes :: memmap
  ef_gas :: gas_counter
  ef_log :: "u8 list list"
  ef_vm :: "'vm option"

record 'vm flat =
  fx_state :: disk
  fx_gas :: gas_counter
  fx_log :: "u8 list list"
  fx_vm :: "'vm option"
  fx_from :: exec_from

record ('vm, 'snap) vm_ops =
  vo_snap :: "'vm \<Rightarrow> 'snap"
  vo_restore :: "'snap \<Rightarrow> 'vm \<Rightarrow> 'vm"
  vo_rollback :: "'vm \<Rightarrow> 'vm"

record ('vm, 'd) act_sem =
  as_leaf :: "'d leaf \<Rightarrow> 'vm flat \<Rightarrow> (u32 \<times> u8 list) ret \<times> 'vm effects"
  as_hook :: "u16 \<Rightarrow> 'vm flat \<Rightarrow> unit ret \<times> 'vm effects"

text \<open>The context of the code: the state is a stack of layers over the disk.\<close>

record 'vm layered =
  lx_layers :: "memmap list"
  lx_disk :: disk
  lx_gas :: gas_counter
  lx_log :: "u8 list list"
  lx_vm :: "'vm option"
  lx_from :: exec_from

record 'snap ctx_snapshot =
  sn_state :: "memmap list"
  sn_vm :: "'snap option"
  sn_log :: nat
  sn_rebated :: int

definition lay_view :: "'vm layered \<Rightarrow> disk" where
  "lay_view c = foldr sub_state_get (lx_layers c) (lx_disk c)"

definition flat_of :: "'vm layered \<Rightarrow> 'vm flat" where
  "flat_of c = \<lparr>fx_state = lay_view c, fx_gas = lx_gas c, fx_log = lx_log c, fx_vm = lx_vm c, fx_from = lx_from c\<rparr>"

definition lay_effects :: "'vm effects \<Rightarrow> 'vm layered \<Rightarrow> 'vm layered" where
  "lay_effects x c = c\<lparr>lx_layers := (case lx_layers c of [] \<Rightarrow> [] | m # ms \<Rightarrow> merge_sub (ef_writes x) m # ms),
     lx_gas := ef_gas x, lx_log := ef_log x, lx_vm := ef_vm x\<rparr>"

definition lay_prim :: "('vm flat \<Rightarrow> 'a ret \<times> 'vm effects) \<Rightarrow> ('vm layered, 'a) st" where
  "lay_prim f c = (case f (flat_of c) of (res, x) \<Rightarrow> (res, lay_effects x c))"

definition snapshot_begin :: "('vm, 'snap) vm_ops \<Rightarrow> 'vm layered \<Rightarrow> 'snap ctx_snapshot \<times> 'vm layered" where
  "snapshot_begin V c =
     (\<lparr>sn_state = lx_layers c, sn_vm = map_option (vo_snap V) (lx_vm c), sn_log = length (lx_log c), sn_rebated = rebated_checkpoint (lx_gas c)\<rparr>,
      c\<lparr>lx_layers := mem_new # lx_layers c\<rparr>)"

definition snapshot_commit :: "'snap ctx_snapshot \<Rightarrow> 'vm layered \<Rightarrow> 'vm layered" where
  "snapshot_commit s c = c\<lparr>lx_layers := (case sn_state s of [] \<Rightarrow> lx_layers c
     | old # rest \<Rightarrow> merge_sub (hd (lx_layers c)) old # rest)\<rparr>"

text \<open>\<open>None\<close> when the machine has disappeared.\<close>

definition vm_back :: "('vm, 'snap) vm_ops \<Rightarrow> 'snap option \<Rightarrow> 'vm option \<Rightarrow> 'vm option option" where
  "vm_back V s cur =
     (case (s, cur) of
        (None, None) \<Rightarrow> Some None
      | (None, Some vm) \<Rightarrow> Some (Some (vo_rollback V vm))
      | (Some s, Some vm) \<Rightarrow> Some (Some (vo_restore V s vm))
      | (Some s, None) \<Rightarrow> None)"

definition snapshot_rollback :: "('vm, 'snap) vm_ops \<Rightarrow> 'snap ctx_snapshot \<Rightarrow> ('vm layered, unit) st" where
  "snapshot_rollback V s c =
     (let c = c\<lparr>lx_layers := sn_state s\<rparr> in
      case vm_back V (sn_vm s) (lx_vm c) of
        None \<Rightarrow> (Inl (Fault ''vm disappeared during AST snapshot/recover''), c)
      | Some vm \<Rightarrow> (Inr (), c\<lparr>lx_vm := vm, lx_log := take (sn_log s) (lx_log c), lx_gas := restore_rebated (sn_rebated s) (lx_gas c)\<rparr>))"

definition lay_charge :: "int \<Rightarrow> ('vm layered, unit) st" where
  "lay_charge n c = (case gas_charge n (lx_gas c) of (res, g) \<Rightarrow> (res, c\<lparr>lx_gas := g\<rparr>))"

text \<open>A dropped snapshot takes the parents of the current layer with it.\<close>

definition lay_ops :: "('vm, 'snap) vm_ops \<Rightarrow> ('vm, 'd) act_sem \<Rightarrow> ('vm layered, 'snap ctx_snapshot, 'd) ctx_ops" where
  "lay_ops V S =
     \<lparr>co_gas_charge = lay_charge, co_begin = snapshot_begin V, co_commit = snapshot_commit, co_rollback = snapshot_rollback V,
      co_abandon = (\<lambda>c. c\<lparr>lx_layers := take 1 (lx_layers c)\<rparr>), co_from = lx_from, co_set_from = (\<lambda>fr c. c\<lparr>lx_from := fr\<rparr>),
      co_leaf = (\<lambda>l. lay_prim (as_leaf S l)), co_hook = (\<lambda>k. lay_prim (as_hook S k))\<rparr>"

text \<open>The specification: one flat state, saved and restored.\<close>

definition flat_prim :: "('vm flat \<Rightarrow> 'a ret \<times> 'vm effects) \<Rightarrow> ('vm flat, 'a) st" where
  "flat_prim f c = (case f c of (res, x) \<Rightarrow>
     (res, c\<lparr>fx_state := sub_state_get (ef_writes x) (fx_state c), fx_gas := ef_gas x, fx_log := ef_log x, fx_vm := ef_vm x\<rparr>))"

definition flat_rollback :: "('vm, 'snap) vm_ops \<Rightarrow> 'vm flat \<times> 'snap option \<Rightarrow> ('vm flat, unit) st" where
  "flat_rollback V s c =
     (let old = fst s; c = c\<lparr>fx_state := fx_state old\<rparr> in
      case vm_back V (snd s) (fx_vm c) of
        None \<Rightarrow> (Inl (Fault ''vm disappeared during AST snapshot/recover''), c)
      | Some vm \<Rightarrow> (Inr (), c\<lparr>fx_vm := vm, fx_log := take (length (fx_log old)) (fx_log c),
          fx_gas := (fx_gas c)\<lparr>gc_rebated := gc_rebated (fx_gas old)\<rparr>\<rparr>))"

definition flat_charge :: "int \<Rightarrow> ('vm flat, unit) st" where
  "flat_charge n c = (case gas_charge n (fx_gas c) of (res, g) \<Rightarrow> (res, c\<lparr>fx_gas := g\<rparr>))"

definition flat_ops :: "('vm, 'snap) vm_ops \<Rightarrow> ('vm, 'd) act_sem \<Rightarrow> ('vm flat, 'vm flat \<times> 'snap option, 'd) ctx_ops" where
  "flat_ops V S =
     \<lparr>co_gas_charge = flat_charge, co_begin = (\<lambda>c. ((c, map_option (vo_snap V) (fx_vm c)), c)), co_commit = (\<lambda>s c. c),
      co_rollback = flat_rollback V, co_abandon = (\<lambda>c. c), co_from = fx_from, co_set_from = (\<lambda>fr c. c\<lparr>fx_from := fr\<rparr>),
      co_leaf = (\<lambda>l. flat_prim (as_leaf S l)), co_hook = (\<lambda>k. flat_prim (as_hook S k))\<rparr>"

section \<open>Two contexts that agree run alike\<close>

definition soft_err :: "exec_error \<Rightarrow> bool" where "soft_err e \<longleftrightarrow> (case e of Revert _ \<Rightarrow> True | _ \<Rightarrow> False)"

lemma soft_err_simps [simp]: "soft_err (Revert m)" "\<not> soft_err (Fault m)" "\<not> soft_err (Panic m)"
  by (simp_all add: soft_err_def)

definition soft :: "'a ret \<Rightarrow> bool" where
  "soft r \<longleftrightarrow> (case r of Inr _ \<Rightarrow> True | Inl e \<Rightarrow> soft_err e)"

lemma soft_simps [simp]: "soft (Inr x)" "soft (Inl e) \<longleftrightarrow> soft_err e"
  by (simp_all add: soft_def)

definition sim :: "('b \<Rightarrow> 'c \<Rightarrow> 'e \<Rightarrow> bool) \<Rightarrow> ('c, 'a) st \<Rightarrow> ('e, 'a) st \<Rightarrow> bool" where
  "sim R f g \<longleftrightarrow> (\<forall>b c e. R b c e \<longrightarrow> fst (f c) = fst (g e) \<and> (soft (fst (f c)) \<longrightarrow> R b (snd (f c)) (snd (g e))))"

lemma simD:
  assumes "sim R f g" "R b c e" "f c = (r1, c')" "g e = (r2, e')"
  shows "r1 = r2 \<and> (soft r1 \<longrightarrow> R b c' e')"
proof -
  have "fst (f c) = fst (g e) \<and> (soft (fst (f c)) \<longrightarrow> R b (snd (f c)) (snd (g e)))"
    using assms(1,2) unfolding sim_def by blast
  then show ?thesis by (simp add: assms(3,4))
qed

lemma simI:
  assumes "\<And>b c e r1 c' r2 e'. R b c e \<Longrightarrow> f c = (r1, c') \<Longrightarrow> g e = (r2, e') \<Longrightarrow> r1 = r2 \<and> (soft r1 \<longrightarrow> R b c' e')"
  shows "sim R f g"
  unfolding sim_def
proof (intro allI impI)
  fix b c e assume "R b c e"
  from assms [OF this prod.collapse [symmetric] prod.collapse [symmetric]]
  show "fst (f c) = fst (g e) \<and> (soft (fst (f c)) \<longrightarrow> R b (snd (f c)) (snd (g e)))" .
qed

lemma sim_lift: "sim R (liftS r) (liftS r)" "sim R (returnS x) (returnS x)" "sim R (failS e) (failS e)"
  by (simp_all add: sim_def)

lemma sim_bind:
  assumes "sim R f g" "\<And>x. sim R (h x) (k x)"
  shows "sim R (bindS f h) (bindS g k)"
proof (rule simI)
  fix b c e r1 c' r2 e' assume R: "R b c e" and o: "bindS f h c = (r1, c')" "bindS g k e = (r2, e')"
  obtain fr fc gr ge where fg: "f c = (fr, fc)" "g e = (gr, ge)" by fastforce
  from simD [OF assms(1) R fg] have eq: "fr = gr" "soft fr \<longrightarrow> R b fc ge" by auto
  show "r1 = r2 \<and> (soft r1 \<longrightarrow> R b c' e')"
  proof (cases fr)
    case (Inl x)
    with o fg eq show ?thesis by (auto simp: bindS_def)
  next
    case (Inr x)
    with eq have R1: "R b fc ge" and gr: "gr = Inr x" by auto
    have "h x fc = (r1, c')" "k x ge = (r2, e')" using o fg Inr gr by (simp_all add: bindS_def)
    from simD [OF assms(2) R1 this] show ?thesis .
  qed
qed

locale ctx_refine =
  fixes K :: "('c, 's, 'd) ctx_ops" and L :: "('e, 't, 'd) ctx_ops" and R :: "'b \<Rightarrow> 'c \<Rightarrow> 'e \<Rightarrow> bool"
  assumes charge: "R b c e \<Longrightarrow> co_gas_charge K n c = (r1, c') \<Longrightarrow> co_gas_charge L n e = (r2, e') \<Longrightarrow>
      r1 = r2 \<and> R b c' e' \<and> (soft r1 \<longrightarrow> r1 = Inr ())"
    and leaf: "sim R (co_leaf K l) (co_leaf L l)"
    and hook: "sim R (co_hook K k) (co_hook L k)"
    and origin: "R b c e \<Longrightarrow> co_from K c = co_from L e \<and> R b (co_set_from K fr c) (co_set_from L fr e)"
    and snapshot: "R b c e \<Longrightarrow> co_begin K c = (s, c1) \<Longrightarrow> co_begin L e = (t, e1) \<Longrightarrow>
      \<exists>b1. R b1 c1 e1 \<and> (\<forall>c' e'. R b1 c' e' \<longrightarrow> R b (co_commit K s c') (co_commit L t e') \<and>
        fst (co_rollback K s c') = fst (co_rollback L t e') \<and> R b (snd (co_rollback K s c')) (snd (co_rollback L t e')))"
begin

lemma sim_charge: "sim R (co_gas_charge K n) (co_gas_charge L n)"
  by (rule simI) (auto dest: charge)

lemma sim_item:
  assumes "sim R f g"
  shows "sim R (ast_exec_item K x9 f) (ast_exec_item L x9 g)"
  unfolding ast_exec_item_def
proof (rule sim_bind [OF sim_charge], rule simI)
  fix u b c e r1 c' r2 e'
  assume R: "R b c e"
    and o1: "(let (snap, c) = co_begin K c in case f c of
         (Inr (child_gas, ret), c) \<Rightarrow> (case co_gas_charge K (int (unat (extra9_surcharge x9 child_gas))) c of
              (Inl e, c) \<Rightarrow> (Inl e, co_abandon K c) | (Inr _, c) \<Rightarrow> (Inr ret, co_commit K snap c))
       | (Inl (Revert msg), c) \<Rightarrow> (case co_rollback K snap c of (Inl e, c) \<Rightarrow> (Inl e, c) | (Inr _, c) \<Rightarrow> (Inl (Revert msg), c))
       | (Inl e, c) \<Rightarrow> (Inl e, co_abandon K c)) = (r1, c')"
    and o2: "(let (snap, e) = co_begin L e in case g e of
         (Inr (child_gas, ret), c) \<Rightarrow> (case co_gas_charge L (int (unat (extra9_surcharge x9 child_gas))) c of
              (Inl e, c) \<Rightarrow> (Inl e, co_abandon L c) | (Inr _, c) \<Rightarrow> (Inr ret, co_commit L snap c))
       | (Inl (Revert msg), c) \<Rightarrow> (case co_rollback L snap c of (Inl e, c) \<Rightarrow> (Inl e, c) | (Inr _, c) \<Rightarrow> (Inl (Revert msg), c))
       | (Inl e, c) \<Rightarrow> (Inl e, co_abandon L c)) = (r2, e')"
  obtain s c1 t e1 where be: "co_begin K c = (s, c1)" "co_begin L e = (t, e1)" by fastforce
  obtain b1 where b1: "R b1 c1 e1"
    and undo: "\<And>c' e'. R b1 c' e' \<Longrightarrow> R b (co_commit K s c') (co_commit L t e') \<and>
        fst (co_rollback K s c') = fst (co_rollback L t e') \<and> R b (snd (co_rollback K s c')) (snd (co_rollback L t e'))"
    using snapshot [OF R be] by blast
  obtain fr fc gr ge where fg: "f c1 = (fr, fc)" "g e1 = (gr, ge)" by fastforce
  from simD [OF assms b1 fg] have eq: "fr = gr" "soft fr \<longrightarrow> R b1 fc ge" by auto
  show "r1 = r2 \<and> (soft r1 \<longrightarrow> R b c' e')"
  proof (cases fr)
    case (Inr y)
    obtain gas ret where y: "y = (gas, ret)" by fastforce
    obtain q1 c2 q2 e2 where ch: "co_gas_charge K (int (unat (extra9_surcharge x9 gas))) fc = (q1, c2)"
      "co_gas_charge L (int (unat (extra9_surcharge x9 gas))) ge = (q2, e2)" by fastforce
    have R1: "R b1 fc ge" and gr: "gr = Inr (gas, ret)" using eq Inr y by auto
    from charge [OF R1 ch] have q: "q1 = q2" "R b1 c2 e2" "soft q1 \<longrightarrow> q1 = Inr ()" by auto
    show ?thesis
    proof (cases q1)
      case (Inl z)
      with q(3) have "\<not> soft_err z" by auto
      moreover have "q2 = Inl z" using Inl q(1) by simp
      ultimately show ?thesis using o1 o2 ch Inl by (auto simp: be fg gr eq(1))
    next
      case (Inr u)
      moreover have "q2 = Inr u" using Inr q(1) by simp
      ultimately show ?thesis using o1 o2 undo [OF q(2)] ch by (auto simp: be fg gr eq(1))
    qed
  next
    case (Inl z)
    then show ?thesis using o1 o2 be fg eq undo [of fc ge]
      by (cases z) (auto split: prod.splits sum.splits)
  qed
qed

lemma sim_from: "sim R f g \<Longrightarrow> sim R (with_exec_from K fr f) (with_exec_from L fr g)"
proof (rule simI)
  fix b c e r1 c' r2 e'
  assume fg: "sim R f g" and R: "R b c e" and o: "with_exec_from K fr f c = (r1, c')" "with_exec_from L fr g e = (r2, e')"
  obtain q1 c1 q2 e1 where q: "f (co_set_from K fr c) = (q1, c1)" "g (co_set_from L fr e) = (q2, e1)" by fastforce
  from simD [OF fg conjunct2 [OF origin [OF R]] q] have eq: "q1 = q2" "soft q1 \<longrightarrow> R b c1 e1" by auto
  have "r1 = q1" "c' = co_set_from K (co_from K c) c1" "r2 = q2" "e' = co_set_from L (co_from L e) e1"
    using o q by (simp_all add: with_exec_from_def)
  then show "r1 = r2 \<and> (soft r1 \<longrightarrow> R b c' e')" using eq origin [OF R] origin by auto
qed

lemma sim_execute: "sim R f g \<Longrightarrow> sim R (act_execute K A act f) (act_execute L A act g)"
proof -
  assume fg: "sim R f g"
  have "sim R (getsS (co_from K)) (getsS (co_from L))" by (rule simI) (auto dest: origin)
  then show ?thesis unfolding act_execute_def by (intro sim_bind sim_lift hook fg)
qed

lemma sim_finish: "sim R (select_finish mn ok r) (select_finish mn ok r)"
  by (simp add: select_finish_def sim_lift)

lemma sim_branch:
  assumes f: "sim R f1 f2" and s: "\<And>x. sim R (g1 x) (g2 x)" and h: "sim R h1 h2"
  shows "sim R (\<lambda>c. case f1 c of (Inr x, c) \<Rightarrow> g1 x c | (Inl (Revert _), c) \<Rightarrow> h1 c | (Inl e, c) \<Rightarrow> (Inl e, c))
    (\<lambda>c. case f2 c of (Inr x, c) \<Rightarrow> g2 x c | (Inl (Revert _), c) \<Rightarrow> h2 c | (Inl e, c) \<Rightarrow> (Inl e, c))"
proof (rule simI)
  fix b c e r1 c' r2 e'
  assume R: "R b c e"
    and o: "(case f1 c of (Inr x, c) \<Rightarrow> g1 x c | (Inl (Revert _), c) \<Rightarrow> h1 c | (Inl e, c) \<Rightarrow> (Inl e, c)) = (r1, c')"
      "(case f2 e of (Inr x, c) \<Rightarrow> g2 x c | (Inl (Revert _), c) \<Rightarrow> h2 c | (Inl e, c) \<Rightarrow> (Inl e, c)) = (r2, e')"
  obtain q c1 q2 e1 where q: "f1 c = (q, c1)" "f2 e = (q2, e1)" by fastforce
  from simD [OF f R q] have eq: "q = q2" "soft q \<longrightarrow> R b c1 e1" by auto
  show "r1 = r2 \<and> (soft r1 \<longrightarrow> R b c' e')"
  proof (cases q)
    case (Inr x)
    have R1: "R b c1 e1" and o': "g1 x c1 = (r1, c')" "g2 x e1 = (r2, e')" using eq o q Inr by auto
    from simD [OF s R1 o'] show ?thesis .
  next
    case (Inl z)
    show ?thesis
    proof (cases z)
      case (Revert m)
      have R1: "R b c1 e1" and o': "h1 c1 = (r1, c')" "h2 e1 = (r2, e')" using eq o q Inl Revert by auto
      from simD [OF h R1 o'] show ?thesis .
    qed (use eq o q Inl in auto)
  qed
qed

lemma exec_sim_size:
  "(2 * size a \<le> n \<longrightarrow> sim R (exec_action K A a) (exec_action L A a)) \<and>
   (2 * size_list size l + 1 \<le> n \<longrightarrow> sim R (exec_select K A l mn mx ok r) (exec_select L A l mn mx ok r))"
proof (induction n arbitrary: a l ok r mn mx rule: less_induct)
  case (less n)
  have act: "sim R (exec_action K A a) (exec_action L A a)" if "2 * size a < n" for a
    using less.IH [OF that, of a] by simp
  have sel: "sim R (exec_select K A l mn mx ok r) (exec_select L A l mn mx ok r)" if "2 * size_list size l + 1 < n" for l mn mx ok r
    using less.IH [OF that, of _ l] by simp
  have "sim R (exec_action K A a) (exec_action L A a)" if n: "2 * size a \<le> n"
  proof (cases a)
    case (Leaf l)
    then show ?thesis by (simp add: sim_execute leaf)
  next
    case (Select s)
    obtain mn mx acts where s: "s = Sel mn mx acts" by (cases s)
    have "sim R (exec_select K A acts mn mx 0 None) (exec_select L A acts mn mx 0 None)"
      by (rule sel) (use n Select s in simp)
    then show ?thesis unfolding Select s exec_action.simps by (intro sim_execute sim_from sim_bind sim_lift)
  next
    case (AIf cond t e)
    have sub: "sim R (exec_action K A (Select s)) (exec_action L A (Select s))" if "s = cond \<or> s = t \<or> s = e" for s
    proof (rule act)
      have "0 < size cond" "0 < size t" "0 < size e" by (rule select_size)+
      then show "2 * size (Select s) < n" using n that unfolding AIf by auto
    qed
    have br: "sim R (bindS (ast_exec_item K False (exec_action K A (Select s))) (\<lambda>ret. returnS (0, ret)))
        (bindS (ast_exec_item L False (exec_action L A (Select s))) (\<lambda>ret. returnS (0, ret)))" if "s = t \<or> s = e" for s
      by (intro sim_bind sim_item sim_lift sub) (use that in blast)
    show ?thesis unfolding AIf exec_action.simps Let_def
      by (intro sim_execute sim_from sim_branch sim_item sub br) simp_all
  qed
  moreover have "sim R (exec_select K A l mn mx ok r) (exec_select L A l mn mx ok r)" if n: "2 * size_list size l + 1 \<le> n"
  proof (cases l)
    case Nil
    then show ?thesis by (simp add: sim_finish)
  next
    case (Cons x xs)
    have a: "sim R (ast_exec_item K (act_extra9 x) (exec_action K A x)) (ast_exec_item L (act_extra9 x) (exec_action L A x))"
      by (rule sim_item, rule act) (use n Cons in simp)
    have rest: "sim R (exec_select K A xs mn mx ok' r') (exec_select L A xs mn mx ok' r')" for ok' r'
      by (rule sel) (use n Cons in simp)
    show ?thesis unfolding Cons exec_select.simps using sim_branch [OF a rest rest] by (auto simp: sim_finish)
  qed
  ultimately show ?case by blast
qed

lemma exec_action_sim: "sim R (exec_action K A a) (exec_action L A a)"
  using exec_sim_size by blast

end

text \<open>The stack of layers and the flat state agree: the current layer lies on the ones below, which a
  child leaves alone, and reading through all of them gives the flat state.\<close>

definition lay_agrees :: "memmap list \<times> disk \<Rightarrow> 'vm layered \<Rightarrow> 'vm flat \<Rightarrow> bool" where
  "lay_agrees b c e \<longleftrightarrow> tl (lx_layers c) = fst b \<and> lx_layers c \<noteq> [] \<and> lx_disk c = snd b \<and> e = flat_of c"

lemma lay_prim_sim: "sim lay_agrees (lay_prim f) (flat_prim f)"
proof (rule simI)
  fix b and c :: "'a layered" and e r1 c' r2 e'
  assume R: "lay_agrees b c e" and o: "lay_prim f c = (r1, c')" "flat_prim f e = (r2, e')"
  obtain m ms where l: "lx_layers c = m # ms" using R by (cases "lx_layers c") (auto simp: lay_agrees_def)
  obtain q x where q: "f (flat_of c) = (q, x)" by fastforce
  have "foldr sub_state_get (lx_layers (lay_effects x c)) (lx_disk c) = sub_state_get (ef_writes x) (foldr sub_state_get (lx_layers c) (lx_disk c))"
    by (simp add: lay_effects_def l merge_sub_get)
  with o q R l show "r1 = r2 \<and> (soft r1 \<longrightarrow> lay_agrees b c' e')"
    by (auto simp: lay_prim_def flat_prim_def lay_agrees_def flat_of_def lay_view_def lay_effects_def)
qed

lemma gas_charge_soft: "gas_charge n g = (res, g') \<Longrightarrow> soft res \<Longrightarrow> res = Inr ()"
  by (auto simp: gas_charge_def Let_def not_running_def split: if_splits)

interpretation ast: ctx_refine "lay_ops V S" "flat_ops V S" lay_agrees
  for V :: "('vm, 'snap) vm_ops" and S :: "('vm, 'd) act_sem"
proof
  fix b and c :: "'vm layered" and e n r1 c' r2 e'
  assume "lay_agrees b c e" "co_gas_charge (lay_ops V S) n c = (r1, c')" "co_gas_charge (flat_ops V S) n e = (r2, e')"
  then show "r1 = r2 \<and> lay_agrees b c' e' \<and> (soft r1 \<longrightarrow> r1 = Inr ())"
    using gas_charge_soft
    by (auto simp: lay_ops_def flat_ops_def lay_charge_def flat_charge_def lay_agrees_def flat_of_def lay_view_def split: prod.splits)
next
  show "sim lay_agrees (co_leaf (lay_ops V S) l) (co_leaf (flat_ops V S) l)"
    "sim lay_agrees (co_hook (lay_ops V S) k) (co_hook (flat_ops V S) k)" for l k
    by (simp_all add: lay_ops_def flat_ops_def lay_prim_sim)
next
  fix b and c :: "'vm layered" and e fr
  assume "lay_agrees b c e"
  then show "co_from (lay_ops V S) c = co_from (flat_ops V S) e \<and> lay_agrees b (co_set_from (lay_ops V S) fr c) (co_set_from (flat_ops V S) fr e)"
    by (auto simp: lay_ops_def flat_ops_def lay_agrees_def flat_of_def lay_view_def)
next
  fix b and c :: "'vm layered" and e s c1 t e1
  assume R: "lay_agrees b c e" and o: "co_begin (lay_ops V S) c = (s, c1)" "co_begin (flat_ops V S) e = (t, e1)"
  obtain m ms where l: "lx_layers c = m # ms" using R by (cases "lx_layers c") (auto simp: lay_agrees_def)
  have s: "s = \<lparr>sn_state = m # ms, sn_vm = map_option (vo_snap V) (lx_vm c), sn_log = length (lx_log c), sn_rebated = gc_rebated (lx_gas c)\<rparr>"
    "c1 = c\<lparr>lx_layers := mem_new # m # ms\<rparr>" "t = (e, map_option (vo_snap V) (lx_vm c))" "e1 = e"
    using o R by (auto simp: lay_ops_def flat_ops_def snapshot_begin_def l lay_agrees_def flat_of_def rebated_checkpoint_def)
  have new: "sub_state_get mem_new v = v" for v by (rule ext) (simp add: sub_state_get_def mem_new_def)
  show "\<exists>b1. lay_agrees b1 c1 e1 \<and> (\<forall>c' e'. lay_agrees b1 c' e' \<longrightarrow>
      lay_agrees b (co_commit (lay_ops V S) s c') (co_commit (flat_ops V S) t e') \<and>
      fst (co_rollback (lay_ops V S) s c') = fst (co_rollback (flat_ops V S) t e') \<and>
      lay_agrees b (snd (co_rollback (lay_ops V S) s c')) (snd (co_rollback (flat_ops V S) t e')))"
  proof (intro exI conjI allI impI)
    show "lay_agrees (m # ms, snd b) c1 e1" using R l by (auto simp: s lay_agrees_def flat_of_def lay_view_def new)
    fix c' :: "'vm layered" and e' assume R': "lay_agrees (m # ms, snd b) c' e'"
    then obtain m' where l': "lx_layers c' = m' # m # ms" by (cases "lx_layers c'") (auto simp: lay_agrees_def)
    show "lay_agrees b (co_commit (lay_ops V S) s c') (co_commit (flat_ops V S) t e')"
      using R R' l l' by (auto simp: lay_ops_def flat_ops_def snapshot_commit_def s lay_agrees_def flat_of_def lay_view_def merge_sub_get)
    show "fst (co_rollback (lay_ops V S) s c') = fst (co_rollback (flat_ops V S) t e')"
      "lay_agrees b (snd (co_rollback (lay_ops V S) s c')) (snd (co_rollback (flat_ops V S) t e'))"
      using R R' l l'
      by (auto simp: lay_ops_def flat_ops_def snapshot_rollback_def flat_rollback_def s lay_agrees_def flat_of_def lay_view_def
          restore_rebated_def Let_def split: option.splits)
  qed
qed

section \<open>What executing a tree guarantees\<close>

lemma snd_fst_sim:
  assumes "sim R f g" "R b c e"
  shows "fst (f c) = fst (g e)" "soft (fst (f c)) \<Longrightarrow> R b (snd (f c)) (snd (g e))"
  using simD [OF assms prod.collapse [symmetric] prod.collapse [symmetric]] by blast+

text \<open>C27: Running any action tree over the stack of state layers, forking, merging and dropping layers as
  the code does, has the same result as running it over one flat state that is saved and put back;
  after success or a recoverable failure the layers below are untouched and reading through the
  stack gives the flat state.\<close>
theorem layered_execution_refines_flat:
  fixes V :: "('vm, 'snap) vm_ops" and c :: "'vm layered" and act :: "'d action"
  assumes "lx_layers c \<noteq> []"
  shows "let (res, c') = exec_action (lay_ops V S) A act c; (res', e') = exec_action (flat_ops V S) A act (flat_of c) in
    res = res' \<and> (soft res \<longrightarrow> flat_of c' = e' \<and> tl (lx_layers c') = tl (lx_layers c) \<and> lx_disk c' = lx_disk c)"
proof -
  have R: "lay_agrees (tl (lx_layers c), lx_disk c) c (flat_of c)" using assms by (simp add: lay_agrees_def)
  from snd_fst_sim [OF ast.exec_action_sim [of V S A act] R]
  show ?thesis by (auto simp: case_prod_beta lay_agrees_def)
qed

text \<open>Plain actions and hooks only append to the log and never give gas back to the budget.\<close>

definition appends :: "'vm flat \<Rightarrow> 'vm effects \<Rightarrow> bool" where
  "appends fc x \<longleftrightarrow> take (length (fx_log fc)) (ef_log x) = fx_log fc \<and> gc_remaining (ef_gas x) \<le> gc_remaining (fx_gas fc)"

definition well_behaved :: "('vm, 'd) act_sem \<Rightarrow> bool" where
  "well_behaved S \<longleftrightarrow> (\<forall>l fc. appends fc (snd (as_leaf S l fc))) \<and> (\<forall>k fc. appends fc (snd (as_hook S k fc)))"

definition grows :: "u8 list list \<times> int \<Rightarrow> 'vm layered \<Rightarrow> 'vm layered \<Rightarrow> bool" where
  "grows b c e \<longleftrightarrow> e = c \<and> take (length (fst b)) (lx_log c) = fst b \<and> gc_remaining (lx_gas c) \<le> snd b"

lemma take_prefix_trans:
  assumes a: "take (length a) b = a" and b: "take (length b) x = b"
  shows "take (length a) x = a"
proof -
  have "length a \<le> length b" using arg_cong [OF a, of length] by simp
  then have "take (length a) x = take (length a) (take (length b) x)" by (simp add: min_absorb1)
  then show ?thesis by (simp only: a b)
qed

lemma gas_charge_remaining:
  assumes "gas_charge n g = (res, g')"
  shows "gc_remaining g' \<le> gc_remaining g" "res = Inr () \<Longrightarrow> 0 < n \<Longrightarrow> gc_remaining g' = gc_remaining g - n" "gc_rebated g' = gc_rebated g"
  using assms by (auto simp: gas_charge_def Let_def split: if_splits)

lemma grows_prim: "(\<And>fc. appends fc (snd (f fc))) \<Longrightarrow> sim grows (lay_prim f) (lay_prim f)"
proof (rule simI)
  fix b and c e :: "'a layered" and r1 c' r2 e'
  assume ap: "\<And>fc. appends fc (snd (f fc))" and R: "grows b c e" and o: "lay_prim f c = (r1, c')" "lay_prim f e = (r2, e')"
  obtain q x where q: "f (flat_of c) = (q, x)" by fastforce
  with ap [of "flat_of c"] have x: "take (length (lx_log c)) (ef_log x) = lx_log c" "gc_remaining (ef_gas x) \<le> gc_remaining (lx_gas c)"
    by (simp_all add: appends_def flat_of_def)
  have l: "lx_log (lay_effects x c) = ef_log x" "lx_gas (lay_effects x c) = ef_gas x" by (simp_all add: lay_effects_def)
  have "take (length (fst b)) (ef_log x) = fst b" using take_prefix_trans [OF _ x(1)] R by (simp add: grows_def)
  then have "grows b (lay_effects x c) (lay_effects x c)" using R x(2) by (simp add: grows_def l)
  moreover have "e = c" using R by (simp add: grows_def)
  ultimately show "r1 = r2 \<and> (soft r1 \<longrightarrow> grows b c' e')" using o q by (auto simp: lay_prim_def)
qed

lemma log_refine:
  fixes V :: "('vm, 'snap) vm_ops" and S :: "('vm, 'd) act_sem"
  assumes S: "well_behaved S"
  shows "ctx_refine (lay_ops V S) (lay_ops V S) grows"
proof
  fix b and c e c' e' :: "'vm layered" and n r1 r2
  assume "grows b c e" "co_gas_charge (lay_ops V S) n c = (r1, c')" "co_gas_charge (lay_ops V S) n e = (r2, e')"
  then show "r1 = r2 \<and> grows b c' e' \<and> (soft r1 \<longrightarrow> r1 = Inr ())"
    using gas_charge_soft gas_charge_remaining(1)
    by (fastforce simp: lay_ops_def lay_charge_def grows_def split: prod.splits)
next
  show "sim grows (co_leaf (lay_ops V S) l) (co_leaf (lay_ops V S) l)" for l
    using grows_prim [of "as_leaf S l"] S by (simp add: well_behaved_def lay_ops_def)
  show "sim grows (co_hook (lay_ops V S) k) (co_hook (lay_ops V S) k)" for k
    using grows_prim [of "as_hook S k"] S by (simp add: well_behaved_def lay_ops_def)
next
  fix b and c e :: "'vm layered" and fr
  assume "grows b c e"
  then show "co_from (lay_ops V S) c = co_from (lay_ops V S) e \<and> grows b (co_set_from (lay_ops V S) fr c) (co_set_from (lay_ops V S) fr e)"
    by (simp add: lay_ops_def grows_def)
next
  fix b and c e :: "'vm layered" and s c1 t e1
  assume R: "grows b c e" and o: "co_begin (lay_ops V S) c = (s, c1)" "co_begin (lay_ops V S) e = (t, e1)"
  then have s: "s = t" "c1 = e1" "lx_log c1 = lx_log c" "lx_gas c1 = lx_gas c" "sn_log s = length (lx_log c)"
    by (auto simp: grows_def lay_ops_def snapshot_begin_def)
  have len: "length (fst b) \<le> length (lx_log c)" using R by (metis grows_def length_take min.absorb_iff2 min.commute nle_le)
  show "\<exists>b1. grows b1 c1 e1 \<and> (\<forall>c' e'. grows b1 c' e' \<longrightarrow>
      grows b (co_commit (lay_ops V S) s c') (co_commit (lay_ops V S) t e') \<and>
      fst (co_rollback (lay_ops V S) s c') = fst (co_rollback (lay_ops V S) t e') \<and>
      grows b (snd (co_rollback (lay_ops V S) s c')) (snd (co_rollback (lay_ops V S) t e')))"
  proof (intro exI conjI allI impI)
    show "grows b c1 e1" using R s by (simp add: grows_def)
    fix c' e' :: "'vm layered" assume R': "grows b c' e'"
    then show "grows b (co_commit (lay_ops V S) s c') (co_commit (lay_ops V S) t e')"
      "fst (co_rollback (lay_ops V S) s c') = fst (co_rollback (lay_ops V S) t e')"
      by (simp_all add: grows_def lay_ops_def snapshot_commit_def s(1))
    show "grows b (snd (co_rollback (lay_ops V S) s c')) (snd (co_rollback (lay_ops V S) t e'))"
      using R' len s(1,5)
      by (auto simp: grows_def lay_ops_def snapshot_rollback_def Let_def restore_rebated_def min_absorb1 split: option.split)
  qed
qed

lemma rollback_not_revert: "fst (snapshot_rollback V s c) \<noteq> Inl (Revert m)"
  by (simp add: snapshot_rollback_def Let_def split: option.split)

lemma ast_item_revert:
  assumes item: "ast_exec_item K x9 f c = (Inl (Revert msg), c')"
    and charge: "\<And>n c. soft (fst (co_gas_charge K n c)) \<Longrightarrow> fst (co_gas_charge K n c) = Inr ()"
    and roll: "\<And>s c m. fst (co_rollback K s c) \<noteq> Inl (Revert m)"
  shows "\<exists>c0 s c1 c2. co_gas_charge K SNAPSHOT_TRY_GAS c = (Inr (), c0) \<and> co_begin K c0 = (s, c1) \<and>
    f c1 = (Inl (Revert msg), c2) \<and> co_rollback K s c2 = (Inr (), c')"
proof -
  obtain r0 c0 where ch: "co_gas_charge K SNAPSHOT_TRY_GAS c = (r0, c0)" by (rule prod.exhaust)
  obtain s c1 where be: "co_begin K c0 = (s, c1)" by (rule prod.exhaust)
  obtain q c2 where ex: "f c1 = (q, c2)" by (rule prod.exhaust)
  obtain q3 c3 where ro: "co_rollback K s c2 = (q3, c3)" by (rule prod.exhaust)
  note run = item [unfolded ast_exec_item_def bindS_def ch, simplified]
  have hard: "\<not> soft (Inl e :: unit ret)" if "co_gas_charge K n d = (Inl e, d')" for n d e d'
    using charge [of n d] unfolding that by auto
  have r0: "r0 = Inr ()"
  proof (cases r0)
    case (Inl e)
    with run have "e = Revert msg" by simp
    with hard ch Inl show ?thesis by fastforce
  qed simp
  note run = run [unfolded r0, simplified, unfolded be, simplified, unfolded ex]
  show ?thesis
  proof (cases q)
    case (Inr y)
    obtain g r where y: "y = (g, r)" by fastforce
    obtain q4 c4 where c4: "co_gas_charge K (int (unat (extra9_surcharge x9 g))) c2 = (q4, c4)" by fastforce
    show ?thesis
    proof (cases q4)
      case (Inl e)
      with run \<open>q = _\<close> y c4 have "e = Revert msg" by simp
      with hard c4 Inl show ?thesis by fastforce
    qed (use run \<open>q = _\<close> y c4 in simp)
  next
    case (Inl z)
    have "q3 \<noteq> Inl (Revert m)" for m using roll [of s c2 m] ro by simp
    then have "z = Revert msg \<and> q3 = Inr () \<and> c3 = c'"
      using run unfolding Inl by (cases z; cases q3) (auto simp: ro)
    with ch be ex ro r0 Inl show ?thesis by blast
  qed
qed

text \<open>C28: A child that reverts leaves no trace but the gas it used: the state layers, the log and the
  rebates are exactly those from before, and the budget is down by at least the price of the
  snapshot.\<close>
theorem reverted_child_leaves_no_trace:
  assumes "well_behaved S" "ast_exec_item (lay_ops V S) x9 (exec_action (lay_ops V S) A act) c = (Inl (Revert msg), c')"
  shows "lx_layers c' = lx_layers c \<and> lay_view c' = lay_view c \<and> lx_log c' = lx_log c \<and>
    gc_rebated (lx_gas c') = gc_rebated (lx_gas c) \<and> gc_remaining (lx_gas c') \<le> gc_remaining (lx_gas c) - 40"
proof -
  obtain r0 c0 where ch: "lay_charge 40 c = (r0, c0)" by fastforce
  obtain g0 where g0: "gas_charge 40 (lx_gas c) = (r0, g0)" "c0 = c\<lparr>lx_gas := g0\<rparr>" using ch by (auto simp: lay_charge_def split: prod.splits)
  define s where "s = fst (snapshot_begin V c0)"
  define c1 where "c1 = snd (snapshot_begin V c0)"
  have be: "snapshot_begin V c0 = (s, c1)" by (simp add: s_def c1_def)
  obtain q c2 where ex: "exec_action (lay_ops V S) A act c1 = (q, c2)" by fastforce
  have ops: "co_gas_charge (lay_ops V S) = lay_charge" "co_begin (lay_ops V S) = snapshot_begin V" "co_rollback (lay_ops V S) = snapshot_rollback V"
    by (simp_all add: lay_ops_def)
  have "\<And>n g. soft (fst (lay_charge n g)) \<Longrightarrow> fst (lay_charge n g) = Inr ()"
    using gas_charge_soft by (fastforce simp: lay_charge_def split: prod.splits)
  from ast_item_revert [OF assms(2), unfolded ops, OF this rollback_not_revert]
  have r0: "r0 = Inr ()" and tail: "q = Inl (Revert msg) \<and> snapshot_rollback V s c2 = (Inr (), c')"
    using ch be ex by (auto simp: SNAPSHOT_TRY_GAS_def)
  have s: "sn_state s = lx_layers c" "sn_log s = length (lx_log c)" "sn_rebated s = gc_rebated g0"
    "lx_log c1 = lx_log c" "lx_gas c1 = g0" "lx_disk c1 = lx_disk c"
    by (simp_all add: s_def c1_def snapshot_begin_def g0(2) rebated_checkpoint_def)
  have "grows (lx_log c, gc_remaining g0) c1 c1" by (simp add: grows_def s)
  from snd_fst_sim(2) [OF ctx_refine.exec_action_sim [OF log_refine [OF assms(1), of V], of A act] this] ex tail
  have g: "take (length (lx_log c)) (lx_log c2) = lx_log c" "gc_remaining (lx_gas c2) \<le> gc_remaining g0" by (simp_all add: grows_def)
  have c': "lx_layers c' = lx_layers c" "lx_log c' = lx_log c" "lx_gas c' = restore_rebated (gc_rebated g0) (lx_gas c2)" "lx_disk c' = lx_disk c2"
    using tail g(1) by (auto simp: snapshot_rollback_def Let_def s split: option.splits)
  have "lx_disk c2 = lx_disk c"
  proof -
    have "lay_agrees (lx_layers c, lx_disk c) c1 (flat_of c1)" by (simp add: lay_agrees_def c1_def snapshot_begin_def g0(2))
    from snd_fst_sim(2) [OF ast.exec_action_sim [of V S A act] this] ex tail show ?thesis by (simp add: lay_agrees_def)
  qed
  then show ?thesis
    using c' g(2) gas_charge_remaining [OF g0(1)] r0 by (simp add: lay_view_def restore_rebated_def)
qed

section \<open>A concrete context\<close>

definition ast_sem :: "(nat, nat) act_sem" where
  "ast_sem = \<lparr>as_leaf = (\<lambda>l fc.
       (if lf_data l = 0 then Inl (Revert ''no'') else Inr (0, [7]),
        \<lparr>ef_writes = mem_new([1] \<mapsto> Some [2]), ef_gas = fx_gas fc, ef_log = fx_log fc @ [[3]], ef_vm = fx_vm fc\<rparr>)),
     as_hook = (\<lambda>k fc. (Inr (), \<lparr>ef_writes = mem_new, ef_gas = fx_gas fc, ef_log = fx_log fc, ef_vm = fx_vm fc\<rparr>))\<rparr>"

definition ast_vm :: "(nat, nat) vm_ops" where
  "ast_vm = \<lparr>vo_snap = (\<lambda>v. v), vo_restore = (\<lambda>s v. s), vo_rollback = (\<lambda>v. v)\<rparr>"

definition ast_ctx :: "nat layered" where
  "ast_ctx = \<lparr>lx_layers = [mem_new], lx_disk = (\<lambda>_. None),
     lx_gas = \<lparr>gc_running = True, gc_remaining = 1000, gc_used = 0, gc_rebated = 0, gc_max_charge = amount_zero\<rparr>,
     lx_log = [[9]], lx_vm = None, lx_from = FromTop\<rparr>"

definition ast_env :: act_env where
  "ast_env = \<lparr>ax_chain_id = 7, ax_height = 100, ax_tx_ty = 3, ax_fast_sync = False\<rparr>"

definition ast_leaf :: "nat \<Rightarrow> nat leaf" where "ast_leaf d = (sample_leaf 1 SCOPE_CALL)\<lparr>lf_data := d\<rparr>"

lemma ast_leaf_run:
  "exec_action (lay_ops ast_vm ast_sem) ast_env (Leaf (ast_leaf 0)) c = 
    (Inl (Revert ''no''), lay_effects (snd (as_leaf ast_sem (ast_leaf 0) (flat_of c))) c)" 
  "exec_action (lay_ops ast_vm ast_sem) ast_env (Leaf (ast_leaf (Suc 0))) c = 
    (Inr (0, [7]), lay_effects (snd (as_hook ast_sem 1 (flat_of (lay_effects (snd (as_leaf ast_sem (ast_leaf (Suc 0)) (flat_of c))) c)))) (lay_effects (snd (as_leaf ast_sem (ast_leaf (Suc 0)) (flat_of c))) c))" 
  by (simp_all add: act_execute_def ast_env_def check_gated_action_def precheck_runtime_action_def visit_runtime_node.simps ast_leaf_def sample_leaf_def
    validate_current_node_def validate_node_scope_def validate_node_tx_type_def sample_scope_defs lay_ops_def lay_prim_def ast_sem_def bindS_def MAINNET_CHAIN_ID_def)

lemma ast_well_behaved: "well_behaved ast_sem"
  by (simp add: well_behaved_def appends_def ast_sem_def)

text \<open>The first child reverts after a write, the second writes and succeeds.\<close>

theorem layered_execution_refines_flat_witness:
  "fst (exec_action (flat_ops ast_vm ast_sem) ast_env (Leaf (ast_leaf 1)) (flat_of ast_ctx)) = Inr (0, [7])"
  using layered_execution_refines_flat [of ast_ctx ast_vm ast_sem ast_env "Leaf (ast_leaf 1)"]
proof -
  have "lx_layers ast_ctx \<noteq> []" by (simp add: ast_ctx_def)
  from layered_execution_refines_flat [OF this, of ast_vm ast_sem ast_env "Leaf (ast_leaf 1)"] show ?thesis
    by (simp add: ast_leaf_run case_prod_beta del: exec_action.simps)
qed

lemma ast_item_run:
  "ast_exec_item (lay_ops ast_vm ast_sem) False (exec_action (lay_ops ast_vm ast_sem) ast_env (Leaf (ast_leaf 0))) ast_ctx =
    (Inl (Revert ''no''), ast_ctx\<lparr>lx_gas := (lx_gas ast_ctx)\<lparr>gc_remaining := 960, gc_used := 40\<rparr>\<rparr>)"
proof -
  have ch: "co_gas_charge (lay_ops ast_vm ast_sem) SNAPSHOT_TRY_GAS ast_ctx =
      (Inr (), ast_ctx\<lparr>lx_gas := (lx_gas ast_ctx)\<lparr>gc_remaining := 960, gc_used := 40\<rparr>\<rparr>)"
    by (simp add: lay_ops_def lay_charge_def gas_charge_def SNAPSHOT_TRY_GAS_def ast_ctx_def i64_ok_def)
  show ?thesis
    by (simp add: ast_exec_item_def bindS_def ch ast_leaf_run del: exec_action.simps)
      (simp add: lay_ops_def ast_ctx_def snapshot_begin_def snapshot_rollback_def vm_back_def rebated_checkpoint_def
        restore_rebated_def lay_effects_def ast_sem_def flat_of_def)
qed

theorem reverted_child_leaves_no_trace_witness:
  "lx_layers (snd (ast_exec_item (lay_ops ast_vm ast_sem) False
     (exec_action (lay_ops ast_vm ast_sem) ast_env (Leaf (ast_leaf 0))) ast_ctx)) = [mem_new]"
proof -
  have "lx_layers ast_ctx = [mem_new]" by (simp add: ast_ctx_def)
  then show ?thesis
    using reverted_child_leaves_no_trace [OF ast_well_behaved ast_item_run] by (simp only: ast_item_run snd_conv)
qed
end
