(* ===== verification/WideArith.thy ===== *)
theory WideArith
  imports AmountArith
begin

text \<open>
  256-bit arithmetic on pairs of \<open>u128\<close> limbs (\<^verbatim>\<open>vm/src/interpreter/instruction.rs\<close>), the part of the
  contract machine that keeps multiply-and-divide exact. A \<open>u128\<close> is a natural below \<open>W128\<close>; shifts
  and wrapping operations are written with their \<open>mod\<close>. Each routine is shown to compute on the
  number its limbs stand for.
\<close>

definition W128 :: nat where "W128 = 2 ^ 128"

definition u256 :: "nat \<times> nat \<Rightarrow> nat" where "u256 n = fst n * W128 + snd n"

lemma u256_Pair: "u256 (hi, lo) = hi * W128 + lo" by (simp add: u256_def)

lemma W128_pos [simp]: "0 < W128" "W128 \<noteq> 0" by (simp_all add: W128_def)

lemma W128_256: "256 ^ U128S = W128" by (simp add: W128_def U128S_def)

definition limbs_ok :: "nat \<times> nat \<Rightarrow> bool" where "limbs_ok n \<longleftrightarrow> fst n < W128 \<and> snd n < W128"

lemma limbs_ok_Pair [simp]: "limbs_ok (hi, lo) \<longleftrightarrow> hi < W128 \<and> lo < W128" by (simp add: limbs_ok_def)

lemma u256_lexless:
  assumes "lo < W128" "hi < hi'"
  shows "hi * W128 + lo < hi' * W128 + lo'"
proof -
  have "Suc hi * W128 \<le> hi' * W128" by (rule mult_le_mono1) (use assms in simp)
  with assms(1) show ?thesis by simp
qed

lemma u256_less: "limbs_ok n \<Longrightarrow> u256 n < W128 * W128"
  using u256_lexless [of "snd n" "fst n" W128 0] by (simp add: limbs_ok_def u256_def)

lemma u256_inject: "lo < W128 \<Longrightarrow> lo' < W128 \<Longrightarrow> hi * W128 + lo = hi' * W128 + lo' \<longleftrightarrow> hi = hi' \<and> lo = lo'"
  using u256_lexless [of lo hi hi' lo'] u256_lexless [of lo' hi' hi lo] by (cases hi hi' rule: linorder_cases) auto

section \<open>Adding, subtracting, comparing, multiplying\<close>

definition overflowing_add :: "nat \<Rightarrow> nat \<Rightarrow> nat \<times> nat" where
  "overflowing_add a b = ((a + b) mod W128, if a + b < W128 then 0 else 1)"

definition overflowing_sub :: "nat \<Rightarrow> nat \<Rightarrow> nat \<times> nat" where
  "overflowing_sub a b = ((a + W128 - b) mod W128, if b \<le> a then 0 else 1)"

definition mul_wide_u128 :: "nat \<Rightarrow> nat \<Rightarrow> nat \<times> nat" where
  "mul_wide_u128 a b = (a * b div W128, a * b mod W128)"

definition add_u256_u128 :: "nat \<Rightarrow> nat \<Rightarrow> nat \<Rightarrow> (nat \<times> nat) option" where
  "add_u256_u128 hi lo add =
     (let (lo, carry) = overflowing_add lo add in
      case checked_add U128S hi carry of None \<Rightarrow> None | Some hi \<Rightarrow> Some (hi, lo))"

definition add_u256 :: "nat \<Rightarrow> nat \<Rightarrow> nat \<Rightarrow> nat \<Rightarrow> (nat \<times> nat) option" where
  "add_u256 ahi alo bhi blo =
     (let (lo, carry) = overflowing_add alo blo in
      case checked_add U128S ahi bhi of None \<Rightarrow> None | Some h \<Rightarrow>
      case checked_add U128S h carry of None \<Rightarrow> None | Some hi \<Rightarrow> Some (hi, lo))"

definition sub_u256 :: "nat \<Rightarrow> nat \<Rightarrow> nat \<Rightarrow> nat \<Rightarrow> (nat \<times> nat) option" where
  "sub_u256 ahi alo bhi blo =
     (let (lo, borrow) = overflowing_sub alo blo in
      case checked_sub ahi bhi of None \<Rightarrow> None | Some h \<Rightarrow>
      case checked_sub h borrow of None \<Rightarrow> None | Some hi \<Rightarrow> Some (hi, lo))"

definition sub_u256_u128 :: "nat \<Rightarrow> nat \<Rightarrow> nat \<Rightarrow> (nat \<times> nat) option" where
  "sub_u256_u128 hi lo sub = sub_u256 hi lo 0 sub"

definition cmp_u256 :: "nat \<Rightarrow> nat \<Rightarrow> nat \<Rightarrow> nat \<Rightarrow> ordering" where
  "cmp_u256 ahi alo bhi blo = (if cmp_of ahi bhi = Equal then cmp_of alo blo else cmp_of ahi bhi)"

definition mul_u256_u128_to_u256_checked :: "nat \<Rightarrow> nat \<Rightarrow> nat \<Rightarrow> (nat \<times> nat) option" where
  "mul_u256_u128_to_u256_checked hi lo mul =
     (let (lo_hi, lo_lo) = mul_wide_u128 lo mul; (hi_hi, hi_lo) = mul_wide_u128 hi mul in
      if hi_hi \<noteq> 0 then None
      else case checked_add U128S hi_lo lo_hi of None \<Rightarrow> None | Some out_hi \<Rightarrow> Some (out_hi, lo_lo))"

text \<open>The limbs of a number below \<open>W128 * W128\<close>.\<close>

definition split_256 :: "nat \<Rightarrow> nat \<times> nat" where "split_256 n = (n div W128, n mod W128)"

lemma u256_split [simp]: "u256 (split_256 n) = n" by (simp add: u256_def split_256_def)

lemma split_u256: "lo < W128 \<Longrightarrow> split_256 (hi * W128 + lo) = (hi, lo)"
  by (simp add: split_256_def)

lemma split_ok: "n < W128 * W128 \<Longrightarrow> limbs_ok (split_256 n)"
  by (simp add: split_256_def limbs_ok_def less_mult_imp_div_less)

lemma mul_wide_split: "mul_wide_u128 a b = split_256 (a * b)"
  by (simp add: mul_wide_u128_def split_256_def)

lemma mul_lim: "a < W128 \<Longrightarrow> b < W128 \<Longrightarrow> a * b < W128 * W128" by (simp add: mult_strict_mono)

lemma checked_add_lim: "checked_add U128S a b = (if a + b < W128 then Some (a + b) else None)"
  by (simp add: checked_add_def W128_256)

lemma div_mod_sum:
  fixes a b :: nat
  assumes "a < W128" "b < W128"
  shows "(a + b) mod W128 = (if a + b < W128 then a + b else a + b - W128)"
  using assms by (auto simp: mod_if)

lemma u256_less_iff:
  assumes "lo < W128"
  shows "hi * W128 + lo < W128 * W128 \<longleftrightarrow> hi < W128"
proof
  assume "hi < W128"
  from u256_lexless [OF assms this, of 0] show "hi * W128 + lo < W128 * W128" by simp
next
  assume "hi * W128 + lo < W128 * W128"
  then have "hi * W128 < W128 * W128" by linarith
  then show "hi < W128" by simp
qed

lemma add_u256_u128_eq:
  assumes "hi < W128" "lo < W128" "x < W128"
  shows "add_u256_u128 hi lo x = (if hi * W128 + lo + x < W128 * W128 then Some (split_256 (hi * W128 + lo + x)) else None)"
proof (cases "lo + x < W128")
  case True
  then show ?thesis
    using assms u256_less_iff [OF True, of hi]
    by (simp add: add_u256_u128_def overflowing_add_def checked_add_lim split_u256 [OF True] add.assoc)
next
  case False
  define l where "l = lo + x - W128"
  have l: "l < W128" "lo + x = W128 + l" using assms False by (simp_all add: l_def)
  have e: "hi * W128 + lo + x = (hi + 1) * W128 + l" using l by simp
  show ?thesis
    unfolding e split_u256 [OF l(1)] u256_less_iff [OF l(1)] using assms l
    by (simp add: add_u256_u128_def overflowing_add_def checked_add_lim)
qed

lemma add_u256_eq:
  assumes "ahi < W128" "alo < W128" "bhi < W128" "blo < W128"
  shows "add_u256 ahi alo bhi blo = (let n = (ahi * W128 + alo) + (bhi * W128 + blo) in if n < W128 * W128 then Some (split_256 n) else None)"
proof (cases "alo + blo < W128")
  case True
  have e: "(ahi * W128 + alo) + (bhi * W128 + blo) = (ahi + bhi) * W128 + (alo + blo)" by (simp add: algebra_simps)
  show ?thesis
    unfolding e Let_def split_u256 [OF True] u256_less_iff [OF True] using True
    by (simp add: add_u256_def overflowing_add_def checked_add_lim)
next
  case False
  define l where "l = alo + blo - W128"
  have l: "l < W128" "alo + blo = W128 + l" using assms False by (simp_all add: l_def)
  have e: "(ahi * W128 + alo) + (bhi * W128 + blo) = (ahi + bhi + 1) * W128 + l" using l by (simp add: algebra_simps)
  show ?thesis
    unfolding e Let_def split_u256 [OF l(1)] u256_less_iff [OF l(1)] using assms l
    by (simp add: add_u256_def overflowing_add_def checked_add_lim)
qed

lemma sub_u256_eq:
  assumes "ahi < W128" "alo < W128" "bhi < W128" "blo < W128"
  shows "sub_u256 ahi alo bhi blo =
    (if bhi * W128 + blo \<le> ahi * W128 + alo then Some (split_256 (ahi * W128 + alo - (bhi * W128 + blo))) else None)"
proof (cases "blo \<le> alo")
  case True
  have l: "alo - blo < W128" using assms by simp
  have le: "bhi * W128 + blo \<le> ahi * W128 + alo \<longleftrightarrow> bhi \<le> ahi"
  proof
    assume "bhi \<le> ahi"
    then have "bhi * W128 \<le> ahi * W128" by simp
    with True show "bhi * W128 + blo \<le> ahi * W128 + alo" by linarith
  next
    assume h: "bhi * W128 + blo \<le> ahi * W128 + alo"
    show "bhi \<le> ahi"
    proof (rule ccontr)
      assume "\<not> bhi \<le> ahi"
      with u256_lexless [OF assms(2), of ahi bhi blo] h show False by simp
    qed
  qed
  have e: "ahi * W128 + alo - (bhi * W128 + blo) = (ahi - bhi) * W128 + (alo - blo)" if "bhi \<le> ahi"
    using True mult_le_mono1 [OF that, of W128] by (simp add: diff_mult_distrib)
  have sp: "split_256 (ahi * W128 + alo - (bhi * W128 + blo)) = (ahi - bhi, alo - blo)" if "bhi \<le> ahi"
    unfolding e [OF that] by (rule split_u256 [OF l])
  have o: "overflowing_sub alo blo = (alo - blo, 0)" using True l by (simp add: overflowing_sub_def mod_if)
  show ?thesis
    unfolding le using sp by (simp add: sub_u256_def o checked_sub_def)
next
  case False
  define l where "l = alo + W128 - blo"
  have l: "l < W128" "alo + W128 = blo + l" using assms False by (simp_all add: l_def)
  have le: "bhi * W128 + blo \<le> ahi * W128 + alo \<longleftrightarrow> bhi < ahi"
  proof
    assume "bhi < ahi" then show "bhi * W128 + blo \<le> ahi * W128 + alo" using u256_lexless [OF assms(4), of bhi ahi alo] by simp
  next
    assume h: "bhi * W128 + blo \<le> ahi * W128 + alo"
    show "bhi < ahi"
    proof (rule ccontr)
      assume "\<not> bhi < ahi"
      then have "ahi * W128 \<le> bhi * W128" by simp
      with h False show False by linarith
    qed
  qed
  have e: "ahi * W128 + alo - (bhi * W128 + blo) = (ahi - bhi - 1) * W128 + l" if "bhi < ahi"
  proof -
    obtain k where k: "ahi = Suc (bhi + k)" using less_imp_Suc_add [OF \<open>bhi < ahi\<close>] by blast
    have "ahi * W128 + alo = (bhi * W128 + blo) + (k * W128 + l)" using l(2) by (simp add: k add_mult_distrib)
    then show ?thesis by (simp add: k)
  qed
  have sp: "split_256 (ahi * W128 + alo - (bhi * W128 + blo)) = (ahi - bhi - 1, l)" if "bhi < ahi"
    unfolding e [OF that] by (rule split_u256 [OF l(1)])
  have o: "overflowing_sub alo blo = (l, 1)" unfolding overflowing_sub_def l_def [symmetric] using False l(1) by simp
  show ?thesis
  proof (cases "bhi < ahi")
    case True
    then show ?thesis unfolding le using sp [OF True] by (simp add: sub_u256_def o checked_sub_def)
  next
    case False
    then show ?thesis unfolding le by (auto simp: sub_u256_def o checked_sub_def)
  qed
qed

lemma cmp_u256_eq: "alo < W128 \<Longrightarrow> blo < W128 \<Longrightarrow> cmp_u256 ahi alo bhi blo = cmp_of (ahi * W128 + alo) (bhi * W128 + blo)"
  using u256_lexless [of alo ahi bhi blo] u256_lexless [of blo bhi ahi alo]
  by (cases ahi bhi rule: linorder_cases) (auto simp: cmp_u256_def cmp_of_def)

lemma mul_u256_u128_eq:
  assumes "hi < W128" "lo < W128" "m < W128"
  shows "mul_u256_u128_to_u256_checked hi lo m =
    (let n = (hi * W128 + lo) * m in if n < W128 * W128 then Some (split_256 n) else None)"
proof -
  define a b c d where "a = lo * m div W128" and "b = lo * m mod W128" and "c = hi * m div W128" and "d = hi * m mod W128"
  have lo: "lo * m = a * W128 + b" and hi: "hi * m = c * W128 + d" by (simp_all add: a_def b_def c_def d_def)
  have n: "(hi * W128 + lo) * m = (c * W128 + d + a) * W128 + b" by (metis hi lo add_mult_distrib mult.assoc mult.commute add.assoc)
  have b: "b < W128" by (simp add: b_def)
  have s: "split_256 ((hi * W128 + lo) * m) = (c * W128 + d + a, b)" unfolding n by (rule split_u256 [OF b])
  have l: "(hi * W128 + lo) * m < W128 * W128 \<longleftrightarrow> c = 0 \<and> d + a < W128"
    unfolding n u256_less_iff [OF b] by (cases c) auto
  show ?thesis
    using s l by (auto simp: mul_u256_u128_to_u256_checked_def mul_wide_u128_def Let_def checked_add_lim
        a_def [symmetric] b_def [symmetric] c_def [symmetric] d_def [symmetric])
qed

end
