(* ===== verification/WideDiv.thy ===== *)
theory WideDiv
  imports WideArith
begin

text \<open>
  Division, square roots and modular products of the contract machine
  (\<^verbatim>\<open>vm/src/interpreter/instruction.rs\<close>): the bit loops, and what they compute. The five rounding
  policies (\<^verbatim>\<open>vm/src/rt/fin.rs\<close>) are given once as the code has them and once on fractions.
\<close>

section \<open>Bits\<close>

lemma or_bit: "2 ^ Suc k dvd (q :: nat) \<Longrightarrow> q OR 2 ^ k = q + 2 ^ k"
proof -
  assume "2 ^ Suc k dvd q"
  then obtain r where r: "q = push_bit (Suc k) r" by (auto simp: push_bit_eq_mult)
  have "q AND 2 ^ k = 0"
    by (rule bit_eqI) (auto simp: r bit_and_iff bit_push_bit_iff bit_exp_iff simp del: push_bit_Suc)
  then have "q + 2 ^ k = q OR 2 ^ k" by (rule disjunctive_add_eq_or)
  then show ?thesis by simp
qed

lemma double_or_bit: "b < 2 \<Longrightarrow> (2 * n :: nat) OR b = 2 * n + b"
proof -
  assume "b < 2"
  then have "b = 0 \<or> b = 1" by auto
  then show ?thesis using or_bit [of 0 "2 * n"] by auto
qed

lemma mod_exp_Suc: "lo mod 2 ^ Suc k = (lo div 2 ^ k mod 2) * 2 ^ k + lo mod (2 ^ k :: nat)"
  by (metis mod_mult2_eq mult.commute power_Suc2 add.commute)

section \<open>Division by 128 bits\<close>

fun div_loop :: "nat \<Rightarrow> nat \<Rightarrow> nat \<Rightarrow> nat \<Rightarrow> nat \<Rightarrow> nat \<times> nat" where
  "div_loop lo d 0 rem quo = (quo, rem)"
| "div_loop lo d (Suc shift) rem quo =
     (let carry = rem div 2 ^ 127; rem = (rem * 2 mod W128) OR (lo div 2 ^ shift mod 2) in
      if carry \<noteq> 0 \<or> rem \<ge> d then div_loop lo d shift ((rem + W128 - d) mod W128) (quo OR 2 ^ shift)
      else div_loop lo d shift rem quo)"

definition div_u256_by_u128_to_u128 :: "nat \<Rightarrow> nat \<Rightarrow> nat \<Rightarrow> (nat \<times> nat) option" where
  "div_u256_by_u128_to_u128 hi lo d = (if d = 0 \<or> hi \<ge> d then None else Some (div_loop lo d 128 hi 0))"

text \<open>One step: the shifted remainder, and the test with the carry.\<close>

lemma W128_half: "W128 = 2 * 2 ^ 127" by (simp add: W128_def)

lemma double_mod:
  fixes h :: nat
  assumes "rem < 2 * h" "b < 2"
  shows "2 * (rem mod h) + b = (2 * rem + b) mod (2 * h)"
proof (cases "rem < h")
  case False
  then obtain r where r: "rem = h + r" using le_Suc_ex not_less by blast
  with assms have l: "r < h" "2 * r + b < 2 * h" by simp_all
  have e: "2 * (h + r) + b = (2 * r + b) + 2 * h" by simp
  show ?thesis unfolding r e using l by simp
qed (use assms in simp)

lemma shifted:
  assumes "rem < d" "d < W128" "b < (2 :: nat)"
  shows "((rem * 2 mod W128) OR b) = (2 * rem + b) mod W128"
    and "rem div 2 ^ 127 \<noteq> 0 \<or> (rem * 2 mod W128) OR b \<ge> d \<longleftrightarrow> d \<le> 2 * rem + b"
    and "d \<le> 2 * rem + b \<Longrightarrow> ((2 * rem + b) mod W128 + W128 - d) mod W128 = 2 * rem + b - d"
    and "\<not> d \<le> 2 * rem + b \<Longrightarrow> (2 * rem + b) mod W128 = 2 * rem + b"
proof -
  have m: "rem * 2 mod W128 = 2 * (rem mod 2 ^ 127)" by (simp add: W128_half mult_mod_right mult.commute)
  have o: "((rem * 2 mod W128) OR b) = 2 * (rem mod 2 ^ 127) + b" unfolding m by (rule double_or_bit [OF assms(3)])
  have lim: "2 * rem + b < 2 * W128" using assms by linarith
  show e: "((rem * 2 mod W128) OR b) = (2 * rem + b) mod W128"
    unfolding o by (subst W128_half, rule double_mod) (use assms in \<open>simp_all add: W128_half\<close>)
  have c: "rem div 2 ^ 127 \<noteq> 0 \<longleftrightarrow> W128 \<le> 2 * rem + b" using assms(3) by (auto simp: W128_half div_eq_0_iff)
  show "rem div 2 ^ 127 \<noteq> 0 \<or> (rem * 2 mod W128) OR b \<ge> d \<longleftrightarrow> d \<le> 2 * rem + b"
    unfolding e c using assms(2) by (auto simp: mod_if)
  show "((2 * rem + b) mod W128 + W128 - d) mod W128 = 2 * rem + b - d" if d: "d \<le> 2 * rem + b"
  proof (cases "2 * rem + b < W128")
    case True
    then show ?thesis using d assms by (simp add: mod_if)
  next
    case False
    then have "(2 * rem + b) mod W128 = 2 * rem + b - W128" using lim by (simp add: mod_if)
    then have "((2 * rem + b) mod W128 + W128 - d) = 2 * rem + b - d" using False by simp
    moreover have "2 * rem + b - d < W128" using assms by linarith
    ultimately show ?thesis by simp
  qed
  show "(2 * rem + b) mod W128 = 2 * rem + b" if "\<not> d \<le> 2 * rem + b" using that assms by simp
qed

lemma div_mod_shift:
  fixes d :: nat
  shows "0 < d \<Longrightarrow> y = x + d * z \<Longrightarrow> y div d = z + x div d \<and> y mod d = x mod d"
  by simp

lemma step_value:
  fixes d :: nat
  assumes "d \<le> r"
  shows "r * 2 ^ k + l = ((r - d) * 2 ^ k + l) + d * 2 ^ k"
  unfolding diff_mult_distrib using mult_le_mono1 [OF assms, of "2 ^ k"] by linarith

lemma div_loop_eq:
  assumes "rem < d" "d < W128" "2 ^ k dvd quo"
  shows "div_loop lo d k rem quo =
    (quo + (rem * 2 ^ k + lo mod 2 ^ k) div d, (rem * 2 ^ k + lo mod 2 ^ k) mod d)"
  using assms
proof (induction k arbitrary: rem quo)
  case (Suc k)
  define b where "b = lo div 2 ^ k mod 2"
  have b: "b < 2" by (simp add: b_def)
  note S = shifted [OF Suc.prems(1,2) b]
  have val: "rem * 2 ^ Suc k + lo mod 2 ^ Suc k = (2 * rem + b) * 2 ^ k + lo mod 2 ^ k"
    unfolding mod_exp_Suc b_def [symmetric] by (simp add: algebra_simps)
  have dv: "2 ^ k dvd quo" using Suc.prems(3) by (meson dvd_trans le_imp_power_dvd lessI less_imp_le)
  show ?case
  proof (cases "d \<le> 2 * rem + b")
    case True
    have "div_loop lo d (Suc k) rem quo = div_loop lo d k (2 * rem + b - d) (quo OR 2 ^ k)"
      using S(2,3) True by (simp add: Let_def b_def [symmetric] S(1))
    also have "\<dots> = div_loop lo d k (2 * rem + b - d) (quo + 2 ^ k)" by (simp only: or_bit [OF Suc.prems(3)])
    also have "\<dots> = (quo + 2 ^ k + ((2 * rem + b - d) * 2 ^ k + lo mod 2 ^ k) div d, ((2 * rem + b - d) * 2 ^ k + lo mod 2 ^ k) mod d)"
      by (rule Suc.IH) (use Suc.prems b dv True in auto)
    also have "\<dots> = (quo + ((2 * rem + b) * 2 ^ k + lo mod 2 ^ k) div d, ((2 * rem + b) * 2 ^ k + lo mod 2 ^ k) mod d)"
      using div_mod_shift [OF _ step_value [OF True, of k "lo mod 2 ^ k"]] Suc.prems(1) by (simp only: add.assoc)
    finally show ?thesis unfolding val .
  next
    case False
    have "div_loop lo d (Suc k) rem quo = div_loop lo d k (2 * rem + b) quo"
      using S(2,4) False by (simp add: Let_def b_def [symmetric] S(1))
    also have "\<dots> = (quo + ((2 * rem + b) * 2 ^ k + lo mod 2 ^ k) div d, ((2 * rem + b) * 2 ^ k + lo mod 2 ^ k) mod d)"
      by (rule Suc.IH) (use Suc.prems dv False in auto)
    finally show ?thesis unfolding val .
  qed
qed simp

lemma div_u128_eq:
  assumes "lo < W128" "d < W128"
  shows "div_u256_by_u128_to_u128 hi lo d =
    (let n = hi * W128 + lo in if d \<noteq> 0 \<and> n div d < W128 then Some (n div d, n mod d) else None)"
proof (cases "d = 0")
  case False
  have "(hi * W128 + lo) div d < W128 \<longleftrightarrow> hi * W128 + lo < d * W128" using False by (simp add: div_less_iff_less_mult mult.commute)
  also have "\<dots> \<longleftrightarrow> hi < d"
  proof
    assume "hi < d" from u256_lexless [OF assms(1) this, of 0] show "hi * W128 + lo < d * W128" by simp
  next
    assume "hi * W128 + lo < d * W128"
    then have "hi * W128 < d * W128" by linarith
    then show "hi < d" by simp
  qed
  finally have l: "(hi * W128 + lo) div d < W128 \<longleftrightarrow> hi < d" .
  have "div_loop lo d 128 hi 0 = ((hi * W128 + lo) div d, (hi * W128 + lo) mod d)" if "hi < d"
    using div_loop_eq [OF that assms(2), of 128 0 lo] assms(1) by (simp add: W128_def)
  then show ?thesis unfolding Let_def l using False by (simp add: div_u256_by_u128_to_u128_def)
qed (simp add: div_u256_by_u128_to_u128_def)


section \<open>Division by up to 129 bits\<close>

fun div129_loop :: "nat \<Rightarrow> nat \<Rightarrow> nat \<Rightarrow> nat \<Rightarrow> nat \<Rightarrow> nat \<Rightarrow> nat \<Rightarrow> nat \<Rightarrow> (nat \<times> nat \<times> nat) option" where
  "div129_loop n_hi n_lo d_hi d_lo 0 quo rem_hi rem_lo = Some (quo, rem_hi, rem_lo)"
| "div129_loop n_hi n_lo d_hi d_lo (Suc shift) quo rem_hi rem_lo =
     (let next_bit = (if shift \<ge> 128 then n_hi div 2 ^ (shift - 128) mod 2 else n_lo div 2 ^ shift mod 2);
          carry = rem_lo div 2 ^ 127;
          rem_hi = (rem_hi * 2 mod W128) OR carry;
          rem_lo = (rem_lo * 2 mod W128) OR next_bit in
      if cmp_u256 rem_hi rem_lo d_hi d_lo \<noteq> Less then
        (case sub_u256 rem_hi rem_lo d_hi d_lo of None \<Rightarrow> None
         | Some (new_hi, new_lo) \<Rightarrow>
           if shift \<ge> 128 then None
           else div129_loop n_hi n_lo d_hi d_lo shift (quo OR 2 ^ shift) new_hi new_lo)
      else div129_loop n_hi n_lo d_hi d_lo shift quo rem_hi rem_lo)"

definition div_u256_by_u129_to_u128 :: "nat \<Rightarrow> nat \<Rightarrow> nat \<Rightarrow> nat \<Rightarrow> (nat \<times> nat \<times> nat) option" where
  "div_u256_by_u129_to_u128 n_hi n_lo d_hi d_lo =
     (if d_hi > 1 \<or> (d_hi = 0 \<and> d_lo = 0) then None
      else if d_hi = 0 then
        (case div_u256_by_u128_to_u128 n_hi n_lo d_lo of None \<Rightarrow> None | Some (quo, rem) \<Rightarrow> Some (quo, 0, rem))
      else div129_loop n_hi n_lo d_hi d_lo 256 0 0 0)"

lemma bit_of_limbs:
  fixes lo hi :: nat
  assumes "lo < W128" "shift < 256"
  shows "(if shift \<ge> 128 then hi div 2 ^ (shift - 128) mod 2 else lo div 2 ^ shift mod 2) = (hi * W128 + lo) div 2 ^ shift mod 2"
proof (cases "shift \<ge> 128")
  case True
  then have "(2 :: nat) ^ shift = W128 * 2 ^ (shift - 128)"
    by (simp only: W128_def power_add [symmetric] le_add_diff_inverse)
  then have "(hi * W128 + lo) div 2 ^ shift = (hi * W128 + lo) div W128 div 2 ^ (shift - 128)" by (simp only: div_mult2_eq)
  then show ?thesis using True assms(1) by simp
next
  case False
  then obtain j where j: "128 = Suc shift + j" using less_imp_Suc_add [of shift 128] by auto
  have "hi * W128 = (hi * 2 ^ j * 2) * 2 ^ shift" by (simp add: W128_def j power_add)
  then have "(hi * W128 + lo) div 2 ^ shift = (lo + (hi * 2 ^ j * 2) * 2 ^ shift) div 2 ^ shift" by (simp only: add.commute)
  then have "(hi * W128 + lo) div 2 ^ shift = hi * 2 ^ j * 2 + lo div 2 ^ shift" by (simp only: div_mult_self1 power_not_zero zero_neq_numeral [symmetric] not_False_eq_True)
  then show ?thesis using False by simp
qed

lemma shifted129:
  assumes "rem_hi \<le> 1" "rem_lo < W128" "b < (2 :: nat)"
  defines "rh \<equiv> (rem_hi * 2 mod W128) OR (rem_lo div 2 ^ 127)" and "rl \<equiv> (rem_lo * 2 mod W128) OR b"
  shows "rh * W128 + rl = 2 * (rem_hi * W128 + rem_lo) + b" "rl < W128" "rh < W128"
proof -
  have c: "rem_lo div 2 ^ 127 < 2" using assms(2) by (simp add: W128_half div_less_iff_less_mult)
  have h: "rem_hi * 2 mod W128 = 2 * rem_hi" using assms(1) by (simp add: W128_def)
  have rh: "rh = 2 * rem_hi + rem_lo div 2 ^ 127" unfolding rh_def h by (rule double_or_bit [OF c])
  have m: "rem_lo * 2 mod W128 = 2 * (rem_lo mod 2 ^ 127)" by (simp add: W128_half mult_mod_right mult.commute)
  have rl: "rl = 2 * (rem_lo mod 2 ^ 127) + b" unfolding rl_def m by (rule double_or_bit [OF assms(3)])
  have "rem_lo = (rem_lo div 2 ^ 127) * 2 ^ 127 + rem_lo mod 2 ^ 127" by simp
  then have "2 * rem_lo = (rem_lo div 2 ^ 127) * W128 + 2 * (rem_lo mod 2 ^ 127)"
    unfolding W128_half by (metis add_mult_distrib2 mult.left_commute)
  then show "rh * W128 + rl = 2 * (rem_hi * W128 + rem_lo) + b" by (simp add: rh rl algebra_simps)
  have "rem_lo mod 2 ^ 127 < 2 ^ 127" by simp
  then show "rl < W128" unfolding rl W128_half using assms(3) by linarith
  show "rh < W128" unfolding rh using assms(1) c by (simp add: W128_def)
qed

lemma div129_loop_eq:
  assumes "n_lo < W128" "d_hi = 1" "d_lo < W128" "k \<le> 256" "2 ^ k dvd quo"
    and "d = d_hi * W128 + d_lo" "n = n_hi * W128 + n_lo"
    and "rem_hi * W128 + rem_lo < d" "rem_lo < W128" "(rem_hi * W128 + rem_lo) * 2 ^ k + n mod 2 ^ k < d * W128"
  shows "div129_loop n_hi n_lo d_hi d_lo k quo rem_hi rem_lo =
    (let v = (rem_hi * W128 + rem_lo) * 2 ^ k + n mod 2 ^ k; (rh, rl) = split_256 (v mod d) in Some (quo + v div d, rh, rl))"
  using assms
proof (induction k arbitrary: quo rem_hi rem_lo)
  case 0
  then show ?case by (simp add: split_u256)
next
  case (Suc k)
  define R where "R = rem_hi * W128 + rem_lo"
  define b where "b = (if k \<ge> 128 then n_hi div 2 ^ (k - 128) mod 2 else n_lo div 2 ^ k mod 2)"
  define rh rl where "rh = ((rem_hi * 2 mod W128) OR (rem_lo div 2 ^ 127))" and "rl = ((rem_lo * 2 mod W128) OR b)"
  have d: "W128 \<le> d" "d < 2 * W128" "0 < d" using Suc.prems(2,3,6) by simp_all
  have hi: "rem_hi \<le> 1"
  proof (rule ccontr)
    assume "\<not> rem_hi \<le> 1"
    then have "2 * W128 \<le> rem_hi * W128" by simp
    with Suc.prems(8) d(2) show False by linarith
  qed
  have bn: "b = n div 2 ^ k mod 2" unfolding b_def Suc.prems(7) by (rule bit_of_limbs) (use Suc.prems in simp_all)
  have b: "b < 2" by (simp add: bn)
  note S = shifted129 [OF hi Suc.prems(9) b, folded rh_def rl_def R_def]
  have val: "R * 2 ^ Suc k + n mod 2 ^ Suc k = (2 * R + b) * 2 ^ k + n mod 2 ^ k"
    unfolding mod_exp_Suc bn [symmetric] by (simp add: algebra_simps)
  have dv: "2 ^ k dvd quo" using Suc.prems(5) by (meson dvd_trans le_imp_power_dvd lessI less_imp_le)
  have R: "R < d" using Suc.prems(8) by (simp add: R_def)
  have lim: "(2 * R + b) * 2 ^ k + n mod 2 ^ k < d * W128" using Suc.prems(10) val by (simp add: R_def)
  have cmp: "cmp_u256 rh rl d_hi d_lo = cmp_of (2 * R + b) d"
    unfolding S(1) [symmetric] Suc.prems(6) by (rule cmp_u256_eq) (use S Suc.prems in simp_all)
  have dl: "d_hi < W128" using Suc.prems(2) by (simp add: W128_def)
  have step: "div129_loop n_hi n_lo d_hi d_lo (Suc k) quo rem_hi rem_lo =
      (if cmp_of (2 * R + b) d \<noteq> Less then
        (case sub_u256 rh rl d_hi d_lo of None \<Rightarrow> None
         | Some (new_hi, new_lo) \<Rightarrow> if k \<ge> 128 then None else div129_loop n_hi n_lo d_hi d_lo k (quo OR 2 ^ k) new_hi new_lo)
      else div129_loop n_hi n_lo d_hi d_lo k quo rh rl)"
    unfolding div129_loop.simps(2) Let_def b_def [symmetric] rh_def [symmetric] rl_def [symmetric] cmp by (rule refl)
  show ?case
  proof (cases "d \<le> 2 * R + b")
    case True
    have nk: "\<not> 128 \<le> k"
    proof
      assume "128 \<le> k"
      then have "W128 \<le> 2 ^ k" unfolding W128_def by (rule power_increasing) simp
      then have "d * W128 \<le> (2 * R + b) * 2 ^ k" using True by (simp add: mult_le_mono)
      with lim show False by linarith
    qed
    obtain nh nl where sp: "split_256 (2 * R + b - d) = (nh, nl)" by fastforce
    have sub: "sub_u256 rh rl d_hi d_lo = Some (nh, nl)"
      unfolding sub_u256_eq [OF S(3,2) dl Suc.prems(3)] S(1) Suc.prems(6) [symmetric] using True sp by simp
    have nv: "nh * W128 + nl = 2 * R + b - d" using u256_split [of "2 * R + b - d"] unfolding sp by (simp add: u256_def)
    have nl: "nl < W128" using sp by (auto simp: split_256_def)
    have "div129_loop n_hi n_lo d_hi d_lo (Suc k) quo rem_hi rem_lo = div129_loop n_hi n_lo d_hi d_lo k (quo + 2 ^ k) nh nl"
      using True nk unfolding step sub or_bit [OF Suc.prems(5)] by (simp add: cmp_of_def)
    also have "\<dots> = (let v = (nh * W128 + nl) * 2 ^ k + n mod 2 ^ k; (rh, rl) = split_256 (v mod d) in Some (quo + 2 ^ k + v div d, rh, rl))"
    proof (rule Suc.IH)
      have "(2 * R + b) * 2 ^ k + n mod 2 ^ k = ((2 * R + b - d) * 2 ^ k + n mod 2 ^ k) + d * 2 ^ k" by (rule step_value [OF True])
      then show "(nh * W128 + nl) * 2 ^ k + n mod 2 ^ k < d * W128" unfolding nv using lim by linarith
      show "nh * W128 + nl < d" unfolding nv using R b by linarith
    qed (use Suc.prems dv nl in auto)
    also have "\<dots> = (let v = (2 * R + b) * 2 ^ k + n mod 2 ^ k; (rh, rl) = split_256 (v mod d) in Some (quo + v div d, rh, rl))"
      using div_mod_shift [OF d(3) step_value [OF True, of k "n mod 2 ^ k"]] unfolding nv by (simp add: add.assoc Let_def)
    finally show ?thesis unfolding val R_def [symmetric] .
  next
    case False
    have "div129_loop n_hi n_lo d_hi d_lo (Suc k) quo rem_hi rem_lo = div129_loop n_hi n_lo d_hi d_lo k quo rh rl"
      using False unfolding step by (simp add: cmp_of_def)
    also have "\<dots> = (let v = (rh * W128 + rl) * 2 ^ k + n mod 2 ^ k; (rh, rl) = split_256 (v mod d) in Some (quo + v div d, rh, rl))"
      by (rule Suc.IH) (use Suc.prems dv False lim S in auto)
    finally show ?thesis unfolding val R_def [symmetric] S(1) .
  qed
qed

lemma div_u129_eq:
  assumes "n_hi < W128" "n_lo < W128" "d_hi \<le> 1" "d_lo < W128"
    and "d = d_hi * W128 + d_lo" "n = n_hi * W128 + n_lo"
  shows "div_u256_by_u129_to_u128 n_hi n_lo d_hi d_lo =
    (if d \<noteq> 0 \<and> n div d < W128 then let (rh, rl) = split_256 (n mod d) in Some (n div d, rh, rl) else None)"
proof (cases "d_hi = 0")
  case True
  have "split_256 (n mod d) = (0, n mod d)" if "d \<noteq> 0"
  proof -
    have "d < W128" "n mod d < d" using that assms(4,5) True by simp_all
    then have "n mod d < W128" by linarith
    from split_u256 [OF this, of 0] show ?thesis by simp
  qed
  then show ?thesis
    using assms True by (auto simp: div_u256_by_u129_to_u128_def div_u128_eq Let_def)
next
  case False
  with assms(3) have one: "d_hi = 1" by simp
  have n: "n < W128 * W128" unfolding assms(6) by (subst u256_less_iff [OF assms(2)]) (rule assms(1))
  have d: "0 < d" "W128 \<le> d" using one assms(5) by simp_all
  have nd: "n < d * W128" using n mult_le_mono1 [OF d(2), of W128] by linarith
  then have q: "n div d < W128" using d(1) by (simp add: div_less_iff_less_mult mult.commute)
  have m: "n mod 2 ^ 256 = n" using n by (simp add: W128_def)
  have "div129_loop n_hi n_lo d_hi d_lo 256 0 0 0 =
      (let v = (0 * W128 + 0) * 2 ^ 256 + n mod 2 ^ 256; (rh, rl) = split_256 (v mod d) in Some (0 + v div d, rh, rl))"
    by (rule div129_loop_eq [OF assms(2) one assms(4) _ _ assms(5,6)]) (use d nd in \<open>simp_all only: m mult_0 add_0 W128_pos dvd_0_right order_refl mult.commute\<close>)
  then show ?thesis using one d q unfolding m by (simp add: div_u256_by_u129_to_u128_def)
qed

section \<open>Rounding\<close>

datatype fin_round = Exact | Floor | Ceil | HalfUp | HalfEven

text \<open>The policies on a fraction; \<open>par\<close> is added to the quotient before its parity is looked at.\<close>

fun round_div :: "nat \<Rightarrow> fin_round \<Rightarrow> nat \<Rightarrow> nat \<Rightarrow> nat option" where
  "round_div par Exact n d = (if d dvd n then Some (n div d) else None)"
| "round_div par Floor n d = Some (n div d)"
| "round_div par Ceil n d = Some ((n + d - 1) div d)"
| "round_div par HalfUp n d = Some ((2 * n + d) div (2 * d))"
| "round_div par HalfEven n d =
     Some (if d < 2 * (n mod d) \<or> (d = 2 * (n mod d) \<and> odd (n div d + par)) then n div d + 1 else n div d)"

definition fit :: "nat option \<Rightarrow> nat option" where
  "fit q = (case q of None \<Rightarrow> None | Some q \<Rightarrow> if q < W128 then Some q else None)"

lemma fit_simps [simp]: "fit None = None" "fit (Some q) = (if q < W128 then Some q else None)"
  by (simp_all add: fit_def)

definition half_up_round_u128_threshold :: "nat \<Rightarrow> nat" where
  "half_up_round_u128_threshold d = d - d div 2"

definition ceil_quot_if_rem_u128 :: "nat \<Rightarrow> nat \<Rightarrow> nat option" where
  "ceil_quot_if_rem_u128 quo rem = (if rem = 0 then Some quo else checked_add U128S quo 1)"

definition round_half_even_quot_u128 :: "nat \<Rightarrow> nat \<Rightarrow> nat \<Rightarrow> nat option" where
  "round_half_even_quot_u128 quo rem d =
     (if rem = 0 then Some quo
      else case (if rem > (W128 - 1) div 2 then Some Greater
                 else case checked_mul U128S rem 2 of None \<Rightarrow> None | Some r \<Rightarrow> Some (cmp_of r d)) of
        None \<Rightarrow> None
      | Some cmp_half \<Rightarrow> if cmp_half = Greater \<or> (cmp_half = Equal \<and> quo mod 2 = 1) then checked_add U128S quo 1 else Some quo)"

fun round_quot_u128_with_policy :: "nat \<Rightarrow> nat \<Rightarrow> nat \<Rightarrow> fin_round \<Rightarrow> nat option" where
  "round_quot_u128_with_policy quo rem d Exact = (if rem \<noteq> 0 then None else Some quo)"
| "round_quot_u128_with_policy quo rem d Floor = Some quo"
| "round_quot_u128_with_policy quo rem d Ceil = ceil_quot_if_rem_u128 quo rem"
| "round_quot_u128_with_policy quo rem d HalfUp =
     (if rem \<ge> half_up_round_u128_threshold d then checked_add U128S quo 1 else Some quo)"
| "round_quot_u128_with_policy quo rem d HalfEven = round_half_even_quot_u128 quo rem d"

definition div_u256_by_u128_with_round :: "nat \<Rightarrow> nat \<Rightarrow> nat \<Rightarrow> fin_round \<Rightarrow> nat option" where
  "div_u256_by_u128_with_round hi lo d round =
     (case div_u256_by_u128_to_u128 hi lo d of None \<Rightarrow> None | Some (quo, rem) \<Rightarrow> round_quot_u128_with_policy quo rem d round)"

definition div_u256_by_u129_with_round :: "nat \<Rightarrow> nat \<Rightarrow> nat \<Rightarrow> nat \<Rightarrow> fin_round \<Rightarrow> nat \<Rightarrow> nat option" where
  "div_u256_by_u129_with_round hi lo d_hi d_lo round half_even_parity_offset =
     (case div_u256_by_u129_to_u128 hi lo d_hi d_lo of None \<Rightarrow> None
      | Some (quo, rem_hi, rem_lo) \<Rightarrow>
        let has_rem = (rem_hi \<noteq> 0 \<or> rem_lo \<noteq> 0); plus_one = checked_add U128S quo 1 in
        (case round of
           Exact \<Rightarrow> if has_rem then None else Some quo
         | Floor \<Rightarrow> Some quo
         | Ceil \<Rightarrow> if has_rem then plus_one else Some quo
         | HalfUp \<Rightarrow> (case add_u256 rem_hi rem_lo rem_hi rem_lo of None \<Rightarrow> None
             | Some (dbl_hi, dbl_lo) \<Rightarrow> if cmp_u256 dbl_hi dbl_lo d_hi d_lo \<noteq> Less then plus_one else Some quo)
         | HalfEven \<Rightarrow> (case add_u256 rem_hi rem_lo rem_hi rem_lo of None \<Rightarrow> None
             | Some (dbl_hi, dbl_lo) \<Rightarrow>
               let cmp_half = cmp_u256 dbl_hi dbl_lo d_hi d_lo;
                   final_quo_is_odd = (quo mod 2 \<noteq> half_even_parity_offset mod 2) in
               if cmp_half = Greater \<or> (cmp_half = Equal \<and> final_quo_is_odd) then plus_one else Some quo)))"

text \<open>Every policy adds one to the quotient or not, by its remainder.\<close>

lemma round_div_cases:
  assumes "0 < d"
  shows "round_div par pol n d =
    (let q = n div d; r = n mod d in
     case pol of Exact \<Rightarrow> if r = 0 then Some q else None | Floor \<Rightarrow> Some q
     | Ceil \<Rightarrow> Some (if r = 0 then q else q + 1) | HalfUp \<Rightarrow> Some (if d \<le> 2 * r then q + 1 else q)
     | HalfEven \<Rightarrow> Some (if d < 2 * r \<or> (d = 2 * r \<and> odd (q + par)) then q + 1 else q))"
proof (cases pol)
  case Exact
  then show ?thesis using assms by (simp add: dvd_eq_mod_eq_0 Let_def)
next
  case Ceil
  define q r where "q = n div d" and "r = n mod d"
  have n: "n = q * d + r" "r < d" using assms by (simp_all add: q_def r_def)
  have "(n + d - 1) div d = (if r = 0 then q else q + 1)"
  proof (cases "r = 0")
    case True
    have "n + d - 1 = (d - 1) + q * d" using n True assms by simp
    moreover have "(d - 1) div d = 0" using assms by simp
    ultimately show ?thesis using True assms by (simp only: div_mult_self1) simp
  next
    case False
    have "n + d - 1 = (r - 1) + (q + 1) * d" using n False by simp
    moreover have "(r - 1) div d = 0" using n(2) by simp
    ultimately show ?thesis using False assms by (simp only: div_mult_self1) simp
  qed
  then show ?thesis using Ceil by (simp add: Let_def q_def r_def)
next
  case HalfUp
  define q r where "q = n div d" and "r = n mod d"
  have n: "n = q * d + r" "r < d" using assms by (simp_all add: q_def r_def)
  have "2 * n + d = (2 * r + d) + q * (2 * d)" using n by (simp add: algebra_simps)
  moreover have "2 * d \<noteq> 0" using assms by simp
  ultimately have "(2 * n + d) div (2 * d) = q + (2 * r + d) div (2 * d)" by (simp only: div_mult_self1 not_False_eq_True)
  also have "(2 * r + d) div (2 * d) = (if d \<le> 2 * r then 1 else 0)"
  proof (cases "d \<le> 2 * r")
    case True
    then have "2 * r + d = (2 * r - d) + 1 * (2 * d)" by simp
    moreover have "(2 * r - d) div (2 * d) = 0" using n(2) by simp
    ultimately show ?thesis using True assms by (simp only: div_mult_self1) simp
  qed simp
  finally show ?thesis using HalfUp by (simp add: Let_def q_def r_def)
qed (simp_all add: Let_def)

lemma checked_inc: "checked_add U128S q 1 = fit (Some (q + 1))" by (simp add: checked_add_lim)

lemma round_quot_eq:
  assumes "0 < d" "d < W128" "n div d < W128"
  shows "round_quot_u128_with_policy (n div d) (n mod d) d pol = fit (round_div 0 pol n d)"
proof -
  define q r where "q = n div d" and "r = n mod d"
  have r: "r < d" using assms by (simp add: r_def)
  have h: "d - d div 2 \<le> r \<longleftrightarrow> d \<le> 2 * r" by presburger
  have big: "r > (W128 - 1) div 2 \<Longrightarrow> d < 2 * r" using assms(2) r by (simp add: W128_half) 
  have small: "\<not> r > (W128 - 1) div 2 \<Longrightarrow> checked_mul U128S r 2 = Some (2 * r)"
    by (simp add: checked_mul_def W128_256) (simp add: W128_half)
  have par: "q mod 2 = 1 \<longleftrightarrow> odd q" by presburger
  show ?thesis
    unfolding round_div_cases [OF assms(1)] q_def [symmetric] r_def [symmetric] Let_def
    using assms(3) r
    by (cases pol) (auto simp: q_def [symmetric] ceil_quot_if_rem_u128_def checked_inc half_up_round_u128_threshold_def h
        round_half_even_quot_u128_def small par cmp_of_def dest: big simp del: One_nat_def)
qed

lemma round_div_ge: "0 < d \<Longrightarrow> round_div par pol n d = Some q \<Longrightarrow> n div d \<le> q"
  by (auto simp: round_div_cases Let_def split: fin_round.splits if_splits)

lemma fit_round_big: "0 < d \<Longrightarrow> \<not> n div d < W128 \<Longrightarrow> fit (round_div par pol n d) = None"
  using round_div_ge [of d par pol n] by (cases "round_div par pol n d") auto

lemma div_round_eq:
  assumes "lo < W128" "d < W128"
  shows "div_u256_by_u128_with_round hi lo d pol = (if d = 0 then None else fit (round_div 0 pol (hi * W128 + lo) d))"
  using assms round_quot_eq [of d "hi * W128 + lo" pol] fit_round_big [of d "hi * W128 + lo"]
  by (auto simp: div_u256_by_u128_with_round_def div_u128_eq Let_def)

lemma div129_round_eq:
  assumes "hi < W128" "lo < W128" "d_hi \<le> 1" "d_lo < W128" "d = d_hi * W128 + d_lo" "n = hi * W128 + lo"
  shows "div_u256_by_u129_with_round hi lo d_hi d_lo pol par = (if d = 0 then None else fit (round_div par pol n d))"
proof (cases "d \<noteq> 0 \<and> n div d < W128")
  case False
  then show ?thesis using fit_round_big [of d n] by (auto simp: div_u256_by_u129_with_round_def div_u129_eq [OF assms])
next
  case True
  define q r where "q = n div d" and "r = n mod d"
  obtain rh rl where sp: "split_256 r = (rh, rl)" by fastforce
  have r: "r < d" "d < 2 * W128" using True assms(3-5) by (auto simp: r_def intro: order_le_less_trans [of _ "W128 + d_lo"])
  have v: "rh * W128 + rl = r" using u256_split [of r] unfolding sp by (simp add: u256_def)
  have rl: "rl < W128" using sp by (auto simp: split_256_def)
  have rh: "rh < W128" using sp r by (auto simp: split_256_def less_mult_imp_div_less) (simp add: W128_def)
  have z: "0 < rh \<or> 0 < rl \<longleftrightarrow> 0 < r" using v by auto
  have "r + r < W128 * W128" using r by (simp add: W128_def)
  then have add: "add_u256 rh rl rh rl = Some (split_256 (2 * r))"
    using add_u256_eq [OF rh rl rh rl] unfolding v by (simp add: mult_2)
  obtain bh bl where sp2: "split_256 (2 * r) = (bh, bl)" by fastforce
  have v2: "bh * W128 + bl = 2 * r" using u256_split [of "2 * r"] unfolding sp2 by (simp add: u256_def)
  have bl: "bl < W128" using sp2 by (auto simp: split_256_def)
  have cmp: "cmp_u256 bh bl d_hi d_lo = cmp_of (2 * r) d" unfolding cmp_u256_eq [OF bl assms(4)] v2 assms(5) by (rule refl)
  have odd: "q mod 2 \<noteq> par mod 2 \<longleftrightarrow> odd (q + par)" by presburger
  have d: "0 < d" "q < W128" using True by (simp_all add: q_def)
  show ?thesis
    unfolding round_div_cases [OF d(1)] q_def [symmetric] r_def [symmetric] Let_def
    using True d(2) div_u129_eq [OF assms]
    by (cases pol) (auto simp: div_u256_by_u129_with_round_def q_def [symmetric] r_def [symmetric] sp z add sp2 cmp Let_def
        checked_inc cmp_of_def odd split: if_splits simp del: One_nat_def)
qed

section \<open>Shifting right\<close>

definition low_bits_mask :: "nat \<Rightarrow> nat" where
  "low_bits_mask bits = (if bits = 0 then 0 else if bits \<ge> 128 then W128 - 1 else 2 ^ bits - 1)"

definition shr_u256_to_u128 :: "nat \<Rightarrow> nat \<Rightarrow> nat \<Rightarrow> (nat \<times> bool) option" where
  "shr_u256_to_u128 hi lo shift =
     (if shift = 0 then (if hi = 0 then Some (lo, False) else None)
      else if shift \<le> 127 then
        (if hi div 2 ^ shift \<noteq> 0 then None
         else Some ((hi * 2 ^ (128 - shift) mod W128) OR (lo div 2 ^ shift), lo AND low_bits_mask shift \<noteq> 0))
      else if shift = 128 then Some (hi, lo \<noteq> 0)
      else if shift \<le> 255 then Some (hi div 2 ^ (shift - 128), lo \<noteq> 0 \<or> hi AND low_bits_mask (shift - 128) \<noteq> 0)
      else None)"

lemma and_mask_mod: "(n :: nat) AND (2 ^ k - 1) = n mod 2 ^ k"
proof -
  have "n AND mask k = take_bit k n" by (simp only: take_bit_eq_mask)
  then show ?thesis by (simp add: mask_eq_exp_minus_1 take_bit_eq_mod)
qed

lemma mult_or: "b < 2 ^ m \<Longrightarrow> (a * 2 ^ m OR b :: nat) = a * 2 ^ m + b"
proof -
  assume b: "b < 2 ^ m"
  have "take_bit m b = b" using b by (simp add: take_bit_eq_mod)
  then have tb: "bit b n \<Longrightarrow> n < m" for n by (metis bit_take_bit_iff)
  have "push_bit m a AND b = 0" by (rule bit_eqI) (auto simp: bit_and_iff bit_push_bit_iff dest: tb)
  then have "a * 2 ^ m AND b = 0" by (simp add: push_bit_eq_mult)
  then show ?thesis by (simp add: disjunctive_add_eq_or)
qed

lemma split_pow: "k \<le> 128 \<Longrightarrow> W128 = 2 ^ (128 - k) * 2 ^ k"
  by (simp only: W128_def power_add [symmetric] le_add_diff_inverse2)

lemma shr_eq:
  assumes "hi < W128" "lo < W128" "shift < 256"
  defines "n \<equiv> hi * W128 + lo"
  shows "shr_u256_to_u128 hi lo shift =
    (if n div 2 ^ shift < W128 then Some (n div 2 ^ shift, n mod 2 ^ shift \<noteq> 0) else None)"
proof -
  consider "shift = 0" | "shift \<noteq> 0" "shift \<le> 127" | "shift = 128" | "129 \<le> shift" by linarith
  then show ?thesis
  proof cases
    case 1
    then show ?thesis using assms(2) by (cases hi) (auto simp: shr_u256_to_u128_def n_def)
  next
    case 2
    define j where "j = 128 - shift"
    have W: "W128 = 2 ^ j * 2 ^ shift" using split_pow [of shift] 2 by (simp add: j_def)
    have n: "n = (hi * 2 ^ j) * 2 ^ shift + lo" by (simp add: n_def W)
    have d: "n div 2 ^ shift = hi * 2 ^ j + lo div 2 ^ shift" "n mod 2 ^ shift = lo mod 2 ^ shift"
      unfolding n by simp_all
    have l: "lo div 2 ^ shift < 2 ^ j" using assms(2) by (simp add: W div_less_iff_less_mult)
    have c: "n div 2 ^ shift < W128 \<longleftrightarrow> hi < 2 ^ shift"
    proof
      assume "hi < 2 ^ shift"
      then have "Suc hi * 2 ^ j \<le> 2 ^ shift * 2 ^ j" by (intro mult_le_mono1) simp
      with l show "n div 2 ^ shift < W128" unfolding d W by (simp add: mult.commute)
    next
      assume "n div 2 ^ shift < W128"
      then have "hi * 2 ^ j < 2 ^ j * 2 ^ shift" unfolding d W by linarith
      then show "hi < 2 ^ shift" by (simp add: mult.commute)
    qed
    have o: "(hi * 2 ^ j mod W128) OR (lo div 2 ^ shift) = n div 2 ^ shift" if "hi < 2 ^ shift"
    proof -
      have "hi * 2 ^ j < W128" using that by (simp add: W mult.commute)
      then show ?thesis using mult_or [OF l, of hi] by (simp add: d)
    qed
    have m: "low_bits_mask shift = 2 ^ shift - 1" using 2 by (simp add: low_bits_mask_def)
    have z: "hi div 2 ^ shift = 0 \<longleftrightarrow> hi < 2 ^ shift" by (simp add: div_eq_0_iff)
    show ?thesis
      using 2 o unfolding c d(2) by (simp add: shr_u256_to_u128_def m and_mask_mod z j_def [symmetric] del: One_nat_def)
  next
    case 3
    have "n div 2 ^ shift = hi" "n mod 2 ^ shift = lo" using assms(2) unfolding 3 W128_def [symmetric] by (simp_all add: n_def)
    then show ?thesis using assms(1) 3 by (simp add: shr_u256_to_u128_def)
  next
    case 4
    define j where "j = shift - 128"
    have W: "(2 :: nat) ^ shift = W128 * 2 ^ j" using 4 by (simp only: W128_def power_add [symmetric] j_def) simp
    have d: "n div 2 ^ shift = hi div 2 ^ j" unfolding W div_mult2_eq using assms(2) by (simp add: n_def)
    have m: "n mod 2 ^ shift = (hi mod 2 ^ j) * W128 + lo" unfolding W mod_mult2_eq using assms(2) by (simp add: n_def mult.commute)
    have "hi div 2 ^ j < W128" using assms(1) by (meson div_le_dividend le_less_trans)
    moreover have "lo \<noteq> 0 \<or> hi AND low_bits_mask j \<noteq> 0 \<longleftrightarrow> n mod 2 ^ shift \<noteq> 0"
      unfolding m using 4 assms(3) by (auto simp: low_bits_mask_def j_def and_mask_mod simp del: One_nat_def)
    ultimately show ?thesis using 4 assms(3) unfolding d by (simp add: shr_u256_to_u128_def j_def [symmetric])
  qed
qed

section \<open>Square roots\<close>

text \<open>The integer square root of the standard library.\<close>

function nat_isqrt :: "nat \<Rightarrow> nat" where
  "nat_isqrt n = (if n = 0 then 0 else let r = 2 * nat_isqrt (n div 4) in if (r + 1) * (r + 1) \<le> n then r + 1 else r)"
  by auto
termination by (relation "measure id") auto

declare nat_isqrt.simps [simp del]

lemma nat_isqrt_bounds: "nat_isqrt n * nat_isqrt n \<le> n \<and> n < (nat_isqrt n + 1) * (nat_isqrt n + 1)"
proof (induction n rule: nat_isqrt.induct)
  case (1 n)
  show ?case
  proof (cases "n = 0")
    case False
    define s where "s = nat_isqrt (n div 4)"
    have s: "s * s \<le> n div 4" "n div 4 < (s + 1) * (s + 1)" using "1.IH" False by (simp_all add: s_def)
    have "4 * (s * s) \<le> n" "n < 4 * ((s + 1) * (s + 1))" using s by linarith+
    then show ?thesis
      by (subst (1 2 3 4) nat_isqrt.simps) (auto simp: False s_def [symmetric] Let_def algebra_simps)
  qed (simp add: nat_isqrt.simps)
qed

lemma isqrt_unique:
  fixes r s n :: nat
  assumes "r * r \<le> n" "n < (r + 1) * (r + 1)" "s * s \<le> n" "n < (s + 1) * (s + 1)"
  shows "r = s"
proof (rule ccontr)
  assume "r \<noteq> s"
  then have "r + 1 \<le> s \<or> s + 1 \<le> r" by auto
  then show False
  proof
    assume "r + 1 \<le> s" from mult_le_mono [OF this this] assms show False by linarith
  next
    assume "s + 1 \<le> r" from mult_le_mono [OF this this] assms show False by linarith
  qed
qed

fun isqrt_loop :: "nat \<Rightarrow> nat \<Rightarrow> nat \<Rightarrow> nat \<Rightarrow> nat" where
  "isqrt_loop hi lo 0 out = out"
| "isqrt_loop hi lo (Suc k) out =
     (let candidate = out OR 2 ^ k; (sq_hi, sq_lo) = mul_wide_u128 candidate candidate in
      isqrt_loop hi lo k (if cmp_u256 sq_hi sq_lo hi lo \<noteq> Greater then candidate else out))"

definition isqrt_u256_floor :: "nat \<Rightarrow> nat \<Rightarrow> nat" where
  "isqrt_u256_floor hi lo = (if hi = 0 then nat_isqrt lo else isqrt_loop hi lo 128 0)"

lemma isqrt_loop_bounds:
  assumes "lo < W128" "n = hi * W128 + lo" "2 ^ k dvd out" "out * out \<le> n" "n < (out + 2 ^ k) * (out + 2 ^ k)"
  shows "let r = isqrt_loop hi lo k out in r * r \<le> n \<and> n < (r + 1) * (r + 1)"
  using assms
proof (induction k arbitrary: out)
  case (Suc k)
  define c where "c = out + 2 ^ k"
  have c: "out OR 2 ^ k = c" unfolding c_def by (rule or_bit [OF Suc.prems(3)])
  obtain sh sl where sp: "mul_wide_u128 c c = (sh, sl)" by fastforce
  have v: "sh * W128 + sl = c * c" "sl < W128" using sp by (auto simp: mul_wide_u128_def)
  have cmp: "cmp_u256 sh sl hi lo = cmp_of (c * c) n" unfolding cmp_u256_eq [OF v(2) Suc.prems(1)] v(1) Suc.prems(2) by (rule refl)
  have e: "isqrt_loop hi lo (Suc k) out = isqrt_loop hi lo k (if c * c \<le> n then c else out)"
    by (auto simp: c sp cmp cmp_of_def)
  have dv: "2 ^ k dvd out" using Suc.prems(3) by (meson dvd_trans le_imp_power_dvd lessI less_imp_le)
  have "2 ^ k dvd c" using dv by (simp add: c_def)
  then show ?case unfolding e
    using Suc.IH [OF Suc.prems(1,2)] Suc.prems(4,5) dv by (auto simp: c_def Let_def algebra_simps mult_2 split: if_splits)
qed simp

lemma isqrt_u256_eq:
  assumes "hi < W128" "lo < W128"
  shows "isqrt_u256_floor hi lo = nat_isqrt (hi * W128 + lo)"
proof (cases "hi = 0")
  case False
  have "hi * W128 + lo < W128 * W128" by (subst u256_less_iff [OF assms(2)]) (rule assms(1))
  then have "let r = isqrt_loop hi lo 128 0 in r * r \<le> hi * W128 + lo \<and> hi * W128 + lo < (r + 1) * (r + 1)"
    by (intro isqrt_loop_bounds [OF assms(2) refl]) (simp_all add: W128_def)
  then have "isqrt_loop hi lo 128 0 = nat_isqrt (hi * W128 + lo)"
    unfolding Let_def using nat_isqrt_bounds [of "hi * W128 + lo"] by (intro isqrt_unique [of _ "hi * W128 + lo"]) blast+
  then show ?thesis using False by (simp add: isqrt_u256_floor_def)
qed (simp add: isqrt_u256_floor_def)

lemma nat_isqrt_less: "n < W128 * W128 \<Longrightarrow> nat_isqrt n < W128"
proof (rule ccontr)
  assume n: "n < W128 * W128" and "\<not> nat_isqrt n < W128"
  then have "W128 * W128 \<le> nat_isqrt n * nat_isqrt n" by (intro mult_le_mono) simp_all
  with nat_isqrt_bounds [of n] n show False by linarith
qed

section \<open>Modular products\<close>

definition add_mod_u128 :: "nat \<Rightarrow> nat \<Rightarrow> nat \<Rightarrow> nat" where
  "add_mod_u128 a b m =
     (let lhs = a mod m; rhs = b mod m; gap = m - rhs in if lhs \<ge> gap then lhs - gap else lhs + rhs)"

function mul_mod_loop :: "nat \<Rightarrow> nat \<Rightarrow> nat \<Rightarrow> nat \<Rightarrow> nat" where
  "mul_mod_loop m lhs rhs out =
     (if rhs = 0 then out
      else let out = (if rhs mod 2 = 1 then add_mod_u128 out lhs m else out); rhs = rhs div 2;
               lhs = (if rhs \<noteq> 0 then add_mod_u128 lhs lhs m else lhs) in
        mul_mod_loop m lhs rhs out)"
  by auto
termination by (relation "measure (\<lambda>(m, lhs, rhs, out). rhs)") auto

declare mul_mod_loop.simps [simp del]

definition mul_mod_u128 :: "nat \<Rightarrow> nat \<Rightarrow> nat \<Rightarrow> nat" where
  "mul_mod_u128 a b m = mul_mod_loop m (a mod m) (b mod m) 0"

lemma add_mod_eq: "0 < m \<Longrightarrow> add_mod_u128 a b m = (a + b) mod m"
proof -
  assume m: "0 < m"
  define l r where "l = a mod m" and "r = b mod m"
  have lr: "l < m" "r < m" using m by (simp_all add: l_def r_def)
  have "(a + b) mod m = (l + r) mod m" by (simp add: l_def r_def mod_simps)
  also have "\<dots> = (if l \<ge> m - r then l - (m - r) else l + r)"
  proof (cases "l \<ge> m - r")
    case True
    then have "l + r = (l - (m - r)) + m" "l - (m - r) < m" using lr by linarith+
    then show ?thesis using True by (metis mod_add_self2 mod_less)
  qed (use lr in auto)
  finally show ?thesis by (simp add: add_mod_u128_def Let_def l_def r_def)
qed

lemma mul_mod_loop_eq: "0 < m \<Longrightarrow> out < m \<Longrightarrow> mul_mod_loop m lhs rhs out = (out + lhs * rhs) mod m"
proof (induction m lhs rhs out rule: mul_mod_loop.induct)
  case (1 m lhs rhs out)
  show ?case
  proof (cases "rhs = 0")
    case False
    define q where "q = rhs div 2"
    define out' where "out' = (if rhs mod 2 = 1 then add_mod_u128 out lhs m else out)"
    define lhs' where "lhs' = (if q \<noteq> 0 then add_mod_u128 lhs lhs m else lhs)"
    have o: "out' = (out + lhs * (rhs mod 2)) mod m" "out' < m"
      using "1.prems" by (auto simp: out'_def add_mod_eq split: if_splits)
    have l: "lhs' * q mod m = (2 * lhs * q) mod m"
      using "1.prems" by (cases "q = 0") (simp_all add: lhs'_def add_mod_eq mod_simps mult_2)
    have r: "rhs = 2 * q + rhs mod 2" by (simp add: q_def)
    have "mul_mod_loop m lhs rhs out = mul_mod_loop m lhs' q out'"
      by (subst mul_mod_loop.simps) (simp add: False Let_def q_def out'_def lhs'_def)
    also have "\<dots> = (out' + lhs' * q) mod m"
      using "1.IH" [OF False out'_def q_def lhs'_def] "1.prems" o(2) by simp
    also have "\<dots> = (out + lhs * (rhs mod 2) + 2 * lhs * q) mod m" using l o(1) by (metis mod_add_cong mod_mod_trivial)
    also have "out + lhs * (rhs mod 2) + 2 * lhs * q = out + lhs * rhs" by (subst (2) r) (simp add: algebra_simps)
    finally show ?thesis .
  qed (use "1.prems" in \<open>simp add: mul_mod_loop.simps\<close>)
qed

lemma mul_mod_eq: "0 < m \<Longrightarrow> mul_mod_u128 a b m = a * b mod m"
  by (simp add: mul_mod_u128_def mul_mod_loop_eq mod_simps)

end
