(* ===== verification/VmValue.thy ===== *)
theory VmValue
  imports WideDiv Balance
begin

text \<open>
  Values of the contract machine (\<^verbatim>\<open>vm/src/value/\<close>: \<open>item.rs\<close>, \<open>type.rs\<close>, \<open>convert.rs\<close>,
  \<open>cast.rs\<close>) and its error codes (\<^verbatim>\<open>vm/src/rt/error.rs\<close>). An error is its code; the message that
  goes with it is left out, and the codes of operations that are not modelled are one constructor with their number. Tuples,
  containers and handles are reference-counted objects: a value holds their reference, of a parameter type.
\<close>

datatype (plugins only: code) itr_code =
    CodeTooLong | CodeOverflow | CodeEmpty | CodeNotWithEnd | JumpOverflow | JumpInDataSeg
  | InstInvalid | InstDisabled | InstNeverTouch | InstParamsErr | ActDisabled
  | OutOfGas | OutOfStack | OutOfCallDepth | OutOfValueSize | GasError | StackError
  | CallInvalid | CallInAbst | CallOtherInMain | CallLocInView | CallInPure | CallOtherInP2sh
  | CastFail | CastParamFail | CompoPackError | Arithmetic | BytesHandle
  | NativeFuncError | NativeEnvError | NativeCtlError | ItemNoSize | OtherCode nat

type_synonym 'a vmrt = "itr_code + 'a"

definition bindV :: "'a vmrt \<Rightarrow> ('a \<Rightarrow> 'b vmrt) \<Rightarrow> 'b vmrt" where
  "bindV m f = (case m of Inl e \<Rightarrow> Inl e | Inr x \<Rightarrow> f x)"

lemma bindV_simps [simp]: "bindV (Inl e) f = Inl e" "bindV (Inr x) f = f x"
  by (simp_all add: bindV_def)

lemma bindV_eq_Inr: "bindV m f = Inr y \<longleftrightarrow> (\<exists>x. m = Inr x \<and> f x = Inr y)"
  by (cases m) auto

lemma bindV_eq_Inl: "bindV m f = Inl e \<longleftrightarrow> m = Inl e \<or> (\<exists>x. m = Inr x \<and> f x = Inl e)"
  by (cases m) auto

lemma bindV_cong [fundef_cong]:
  "m = m' \<Longrightarrow> (\<And>x. m' = Inr x \<Longrightarrow> f x = f' x) \<Longrightarrow> bindV m f = bindV m' f'"
  by (cases m') auto

text \<open>\<open>ok_or\<close>.\<close>

definition okV :: "itr_code \<Rightarrow> 'a option \<Rightarrow> 'a vmrt" where
  "okV e r = (case r of None \<Rightarrow> Inl e | Some x \<Rightarrow> Inr x)"

lemma okV_simps [simp]: "okV e None = Inl e" "okV e (Some x) = Inr x"
  by (simp_all add: okV_def)

section \<open>Values\<close>

type_synonym u128 = "128 word"

datatype 'x val =
    VNil | VBool bool | VU8 u8 | VU16 u16 | VU32 u32 | VU64 u64 | VU128 u128
  | VBytes "u8 list" | VAddress address | VTuple 'x | VCompo 'x | VHandle 'x

datatype value_ty =
    TyNil | TyBool | TyU8 | TyU16 | TyU32 | TyU64 | TyU128 | TyBytes | TyAddress | TyTuple | TyCompo | TyHandle

fun ty :: "'x val \<Rightarrow> value_ty" where
  "ty VNil = TyNil" | "ty (VBool _) = TyBool" | "ty (VU8 _) = TyU8" | "ty (VU16 _) = TyU16" | "ty (VU32 _) = TyU32"
| "ty (VU64 _) = TyU64" | "ty (VU128 _) = TyU128" | "ty (VBytes _) = TyBytes" | "ty (VAddress _) = TyAddress"
| "ty (VTuple _) = TyTuple" | "ty (VCompo _) = TyCompo" | "ty (VHandle _) = TyHandle"

fun uint_bits :: "value_ty \<Rightarrow> nat option" where
  "uint_bits TyU8 = Some 8" | "uint_bits TyU16 = Some 16" | "uint_bits TyU32 = Some 32"
| "uint_bits TyU64 = Some 64" | "uint_bits TyU128 = Some 128" | "uint_bits _ = None"

definition ty_is_uint :: "value_ty \<Rightarrow> bool" where
  "ty_is_uint t \<longleftrightarrow> t \<in> {TyU8, TyU16, TyU32, TyU64, TyU128}"

definition is_uint :: "'x val \<Rightarrow> bool" where "is_uint v \<longleftrightarrow> ty_is_uint (ty v)"

definition ty_build :: "u8 \<Rightarrow> value_ty option" where
  "ty_build t = map_of [(0, TyNil), (1, TyBool), (2, TyU8), (3, TyU16), (4, TyU32), (5, TyU64), (6, TyU128),
     (8, TyBytes), (9, TyAddress), (13, TyTuple), (14, TyCompo), (15, TyHandle)] t"

definition ty_num :: "value_ty \<Rightarrow> u8" where
  "ty_num t = (case t of TyNil \<Rightarrow> 0 | TyBool \<Rightarrow> 1 | TyU8 \<Rightarrow> 2 | TyU16 \<Rightarrow> 3 | TyU32 \<Rightarrow> 4 | TyU64 \<Rightarrow> 5 | TyU128 \<Rightarrow> 6
     | TyBytes \<Rightarrow> 8 | TyAddress \<Rightarrow> 9 | TyTuple \<Rightarrow> 13 | TyCompo \<Rightarrow> 14 | TyHandle \<Rightarrow> 15)"

definition parse_value_ty_param :: "u8 \<Rightarrow> value_ty vmrt" where
  "parse_value_ty_param raw = okV InstParamsErr (ty_build raw)"

definition parse_cto_target_ty_param :: "u8 \<Rightarrow> value_ty vmrt" where
  "parse_cto_target_ty_param raw =
     bindV (parse_value_ty_param raw) (\<lambda>t.
       if t \<in> {TyBool, TyU8, TyU16, TyU32, TyU64, TyU128, TyBytes, TyAddress} then Inr t else Inl InstParamsErr)"

fun uint_u128_opt :: "'x val \<Rightarrow> nat option" where
  "uint_u128_opt (VU8 n) = Some (unat n)" | "uint_u128_opt (VU16 n) = Some (unat n)"
| "uint_u128_opt (VU32 n) = Some (unat n)" | "uint_u128_opt (VU64 n) = Some (unat n)"
| "uint_u128_opt (VU128 n) = Some (unat n)" | "uint_u128_opt _ = None"

text \<open>\<open>extract_u8\<close> to \<open>extract_u128\<close>, by the number of bits asked for.\<close>

definition extract_uint_cast :: "nat \<Rightarrow> 'x val \<Rightarrow> nat vmrt" where
  "extract_uint_cast bits v =
     (case uint_u128_opt v of None \<Rightarrow> Inl CastParamFail | Some n \<Rightarrow> if n < 2 ^ bits then Inr n else Inl CastParamFail)"

definition extract_u128 :: "'x val \<Rightarrow> nat vmrt" where "extract_u128 v = extract_uint_cast 128 v"

fun extract_bool :: "'x val \<Rightarrow> bool vmrt" where
  "extract_bool (VBool b) = Inr b"
| "extract_bool VNil = Inr False"
| "extract_bool (VBytes b) = Inr (\<exists>x \<in> set b. x \<noteq> 0)"
| "extract_bool (VAddress a) = Inr (\<exists>x \<in> set a. x \<noteq> 0)"
| "extract_bool v = (case uint_u128_opt v of Some n \<Rightarrow> Inr (n \<noteq> 0) | None \<Rightarrow> Inl CastFail)"

definition to_uint :: "'x val \<Rightarrow> 'x val vmrt" where
  "to_uint v = (if is_uint v then Inr v else Inl CastFail)"

section \<open>Casts between widths\<close>

definition ACTIVE_UINT_BITS :: "nat list" where "ACTIVE_UINT_BITS = [8, 16, 32, 64, 128]"

definition trim_leading_zero_bytes :: "u8 list \<Rightarrow> u8 list" where
  "trim_leading_zero_bytes b = dropWhile (\<lambda>x. x = 0) b"

definition fit_be_bytes :: "nat \<Rightarrow> u8 list \<Rightarrow> u8 list option" where
  "fit_be_bytes n b =
     (if length b \<le> n then Some (replicate (n - length b) 0 @ b)
      else let cut = length b - n in
        if \<exists>x \<in> set (take cut b). x \<noteq> 0 then None else Some (drop cut b))"

definition buf_to_u128 :: "u8 list \<Rightarrow> nat vmrt" where
  "buf_to_u128 b = (case fit_be_bytes 16 (trim_leading_zero_bytes b) of None \<Rightarrow> Inl CastFail | Some out \<Rightarrow> Inr (be_nat out))"

fun to_u128 :: "'x val \<Rightarrow> nat vmrt" where
  "to_u128 VNil = Inr 0"
| "to_u128 (VBool b) = Inr (if b then 1 else 0)"
| "to_u128 (VBytes b) = buf_to_u128 b"
| "to_u128 (VAddress a) = buf_to_u128 a"
| "to_u128 v = (case uint_u128_opt v of Some n \<Rightarrow> Inr n | None \<Rightarrow> Inl CastFail)"

text \<open>The value of a width that holds a number, when it fits.\<close>

definition uint_val :: "nat \<Rightarrow> nat \<Rightarrow> 'x val" where
  "uint_val bits n = (if bits = 8 then VU8 (word_of_nat n) else if bits = 16 then VU16 (word_of_nat n)
     else if bits = 32 then VU32 (word_of_nat n) else if bits = 64 then VU64 (word_of_nat n) else VU128 (word_of_nat n))"

definition bytes_to_uint_width :: "u8 list \<Rightarrow> nat \<Rightarrow> 'x val vmrt" where
  "bytes_to_uint_width b bits =
     (if bits \<notin> set ACTIVE_UINT_BITS then Inl CastFail
      else case fit_be_bytes (bits div 8) b of None \<Rightarrow> Inl CastFail | Some x \<Rightarrow> Inr (uint_val bits (be_nat x)))"

definition cast_to_uint_width :: "'x val \<Rightarrow> nat \<Rightarrow> 'x val vmrt" where
  "cast_to_uint_width v bits =
     (if bits \<notin> set ACTIVE_UINT_BITS then Inl CastFail
      else case v of VBytes b \<Rightarrow> bytes_to_uint_width b bits
      | _ \<Rightarrow> (case to_u128 v of Inl e \<Rightarrow> Inl CastFail
          | Inr n \<Rightarrow> if n < 2 ^ bits then Inr (uint_val bits n) else Inl CastFail))"

definition widen :: "'x val \<Rightarrow> nat \<Rightarrow> nat \<Rightarrow> 'x val vmrt" where
  "widen v vb tb = (if vb < tb then cast_to_uint_width v tb else Inr v)"

definition cast_same_uint_width2 :: "'x val \<Rightarrow> 'x val \<Rightarrow> ('x val \<times> 'x val) vmrt" where
  "cast_same_uint_width2 x y =
     (case (uint_bits (ty x), uint_bits (ty y)) of
        (Some lb, Some rb) \<Rightarrow>
          let tb = max lb rb in bindV (widen x lb tb) (\<lambda>x. bindV (widen y rb tb) (\<lambda>y. Inr (x, y)))
      | _ \<Rightarrow> Inl CastFail)"

definition cast_same_uint_width3 :: "'x val \<Rightarrow> 'x val \<Rightarrow> 'x val \<Rightarrow> ('x val \<times> 'x val \<times> 'x val) vmrt" where
  "cast_same_uint_width3 x y z =
     (case (uint_bits (ty x), uint_bits (ty y), uint_bits (ty z)) of
        (Some xb, Some yb, Some zb) \<Rightarrow>
          let tb = max (max xb yb) zb in
          bindV (widen x xb tb) (\<lambda>x. bindV (widen y yb tb) (\<lambda>y. bindV (widen z zb tb) (\<lambda>z. Inr (x, y, z))))
      | _ \<Rightarrow> Inl CastFail)"

definition cast_same_uint_width4 :: "'x val \<Rightarrow> 'x val \<Rightarrow> 'x val \<Rightarrow> 'x val \<Rightarrow> ('x val \<times> 'x val \<times> 'x val \<times> 'x val) vmrt" where
  "cast_same_uint_width4 x y z w =
     (case (uint_bits (ty x), uint_bits (ty y), uint_bits (ty z), uint_bits (ty w)) of
        (Some xb, Some yb, Some zb, Some wb) \<Rightarrow>
          let tb = max (max (max xb yb) zb) wb in
          bindV (widen x xb tb) (\<lambda>x. bindV (widen y yb tb) (\<lambda>y. bindV (widen z zb tb) (\<lambda>z.
          bindV (widen w wb tb) (\<lambda>w. Inr (x, y, z, w)))))
      | _ \<Rightarrow> Inl CastFail)"

definition arithmetic_args2 :: "'x val \<Rightarrow> 'x val \<Rightarrow> ('x val \<times> 'x val) vmrt" where
  "arithmetic_args2 x y = bindV (to_uint x) (\<lambda>x. bindV (to_uint y) (\<lambda>y. cast_same_uint_width2 x y))"

definition arithmetic_args3 :: "'x val \<Rightarrow> 'x val \<Rightarrow> 'x val \<Rightarrow> ('x val \<times> 'x val \<times> 'x val) vmrt" where
  "arithmetic_args3 x y z =
     bindV (to_uint x) (\<lambda>x. bindV (to_uint y) (\<lambda>y. bindV (to_uint z) (\<lambda>z. cast_same_uint_width3 x y z)))"

definition arithmetic_args4 :: "'x val \<Rightarrow> 'x val \<Rightarrow> 'x val \<Rightarrow> 'x val \<Rightarrow> ('x val \<times> 'x val \<times> 'x val \<times> 'x val) vmrt" where
  "arithmetic_args4 x y z w =
     bindV (to_uint x) (\<lambda>x. bindV (to_uint y) (\<lambda>y. bindV (to_uint z) (\<lambda>z. bindV (to_uint w) (\<lambda>w. cast_same_uint_width4 x y z w))))"

section \<open>Integers of a width\<close>

definition num :: "'x val \<Rightarrow> nat" where "num v = (case uint_u128_opt v of Some n \<Rightarrow> n | None \<Rightarrow> 0)"
definition bits :: "'x val \<Rightarrow> nat" where "bits v = (case uint_bits (ty v) of Some n \<Rightarrow> n | None \<Rightarrow> 0)"

definition width :: "nat \<Rightarrow> bool" where "width b \<longleftrightarrow> b \<in> {8, 16, 32, 64, 128}"

lemma width_cases: "width b \<Longrightarrow> (b = 8 \<Longrightarrow> P) \<Longrightarrow> (b = 16 \<Longrightarrow> P) \<Longrightarrow> (b = 32 \<Longrightarrow> P) \<Longrightarrow> (b = 64 \<Longrightarrow> P) \<Longrightarrow> (b = 128 \<Longrightarrow> P) \<Longrightarrow> P"
  by (auto simp: width_def)

lemma width_le: "width b \<Longrightarrow> 2 ^ b \<le> W128" by (auto simp: width_def W128_def)

lemma width_active: "width b \<longleftrightarrow> b \<in> set ACTIVE_UINT_BITS" by (simp add: width_def ACTIVE_UINT_BITS_def)

lemma width_max: "width b \<Longrightarrow> width c \<Longrightarrow> width (max b c)" by (auto simp: max_def)

lemma uint_val_simps:
  assumes "width b"
  shows "is_uint (uint_val b n)" "uint_bits (ty (uint_val b n)) = Some b" "bits (uint_val b n) = b"
    "uint_u128_opt (uint_val b n) = Some (n mod 2 ^ b)" "num (uint_val b n) = n mod 2 ^ b"
  using assms by (auto simp: uint_val_def is_uint_def ty_is_uint_def bits_def num_def unat_of_nat elim!: width_cases)

lemma unat_widths:
  "unat (a :: u8) < 2 ^ 8" "unat (b :: u16) < 2 ^ 16" "unat (c :: u32) < 2 ^ 32" "unat (d :: u64) < 2 ^ 64"
  "unat (e :: u128) < 2 ^ 128"
  using unsigned_less [of a, where 'a = nat] unsigned_less [of b, where 'a = nat] unsigned_less [of c, where 'a = nat]
    unsigned_less [of d, where 'a = nat] unsigned_less [of e, where 'a = nat] by simp_all

lemma is_uint_iff: "is_uint v \<longleftrightarrow> width (bits v) \<and> num v < 2 ^ bits v \<and> v = uint_val (bits v) (num v)"
proof
  assume "is_uint v"
  then show "width (bits v) \<and> num v < 2 ^ bits v \<and> v = uint_val (bits v) (num v)"
    using unat_widths
    by (cases v) (simp_all add: is_uint_def ty_is_uint_def bits_def num_def width_def uint_val_def del: power_numeral)
qed (metis uint_val_simps(1))

lemma uintE:
  assumes "is_uint v"
  obtains b n where "width b" "n < 2 ^ b" "v = uint_val b n" "bits v = b" "num v = n"
  using assms is_uint_iff by metis

lemma extract_uint [simp]:
  assumes "width b" "n < 2 ^ b"
  shows "extract_u128 (uint_val b n) = Inr n"
proof -
  have "n < W128" using assms width_le by (meson less_le_trans)
  then show ?thesis using assms by (simp add: extract_u128_def extract_uint_cast_def uint_val_simps W128_def)
qed

lemma to_u128_uint: "width b \<Longrightarrow> n < 2 ^ b \<Longrightarrow> to_u128 (uint_val b n) = Inr n"
  by (auto simp: uint_val_def unat_of_nat elim!: width_cases)

lemma widen_eq:
  assumes "width b" "n < 2 ^ b" "width t" "b \<le> t"
  shows "widen (uint_val b n :: 'x val) b t = Inr (uint_val t n)"
proof (cases "b < t")
  case True
  have "(2 :: nat) ^ b \<le> 2 ^ t" using assms(4) by (rule power_increasing) simp
  then have n: "n < 2 ^ t" using assms(2) by linarith
  have "cast_to_uint_width (uint_val b n :: 'x val) t = (case to_u128 (uint_val b n :: 'x val) of Inl e \<Rightarrow> Inl CastFail
      | Inr n \<Rightarrow> if n < 2 ^ t then Inr (uint_val t n) else Inl CastFail)"
    using assms(1,3) by (auto simp: cast_to_uint_width_def width_active uint_val_def)
  then show ?thesis using True n to_u128_uint [OF assms(1,2), where 'a = 'x] by (simp add: widen_def)
qed (use assms(4) in \<open>simp add: widen_def\<close>)

lemma arithmetic_args_eq:
  assumes "width a" "k < 2 ^ a" "width b" "l < 2 ^ b"
  shows "arithmetic_args2 (uint_val a k) (uint_val b l) = Inr (uint_val (max a b) k, uint_val (max a b) l)"
    and "width c \<Longrightarrow> m < 2 ^ c \<Longrightarrow> arithmetic_args3 (uint_val a k) (uint_val b l) (uint_val c m) =
      (let t = max (max a b) c in Inr (uint_val t k, uint_val t l, uint_val t m))"
    and "width c \<Longrightarrow> m < 2 ^ c \<Longrightarrow> width d \<Longrightarrow> n < 2 ^ d \<Longrightarrow>
      arithmetic_args4 (uint_val a k) (uint_val b l) (uint_val c m) (uint_val d n) =
      (let t = max (max (max a b) c) d in Inr (uint_val t k, uint_val t l, uint_val t m, uint_val t n))"
  using assms
  by (simp_all add: arithmetic_args2_def arithmetic_args3_def arithmetic_args4_def to_uint_def uint_val_simps Let_def
      cast_same_uint_width2_def cast_same_uint_width3_def cast_same_uint_width4_def widen_eq width_max)

end
