(* ===== verification/VmOps.thy ===== *)
theory VmOps
  imports VmValue
begin

text \<open>
  The operations of the contract machine on unsigned integers (\<^verbatim>\<open>vm/src/interpreter/instruction.rs\<close>)
  and the registry of its financial operations (\<^verbatim>\<open>vm/src/rt/fin.rs\<close>). An operation works on the
  operands as \<open>arithmetic_args\<close> leaves them, widened to a common width; the argument order and the order of the
  checks are the code's.
\<close>

section \<open>Operations by width\<close>

definition fit_bits :: "nat \<Rightarrow> nat \<Rightarrow> nat option" where
  "fit_bits b n = (if n < 2 ^ b then Some n else None)"

text \<open>\<open>ahmtdo!\<close>: the same checked operation at each width.\<close>

fun ahmtdo :: "(nat \<Rightarrow> nat \<Rightarrow> nat \<Rightarrow> nat option) \<Rightarrow> 'x val \<Rightarrow> 'x val \<Rightarrow> 'x val vmrt" where
  "ahmtdo f (VU8 l) (VU8 r) = okV Arithmetic (map_option (\<lambda>n. VU8 (word_of_nat n)) (f 8 (unat l) (unat r)))"
| "ahmtdo f (VU16 l) (VU16 r) = okV Arithmetic (map_option (\<lambda>n. VU16 (word_of_nat n)) (f 16 (unat l) (unat r)))"
| "ahmtdo f (VU32 l) (VU32 r) = okV Arithmetic (map_option (\<lambda>n. VU32 (word_of_nat n)) (f 32 (unat l) (unat r)))"
| "ahmtdo f (VU64 l) (VU64 r) = okV Arithmetic (map_option (\<lambda>n. VU64 (word_of_nat n)) (f 64 (unat l) (unat r)))"
| "ahmtdo f (VU128 l) (VU128 r) = okV Arithmetic (map_option (\<lambda>n. VU128 (word_of_nat n)) (f 128 (unat l) (unat r)))"
| "ahmtdo f x y = Inl Arithmetic"

definition wadd :: "nat \<Rightarrow> nat \<Rightarrow> nat \<Rightarrow> nat option" where "wadd b l r = fit_bits b (l + r)"
definition wsub :: "nat \<Rightarrow> nat \<Rightarrow> nat \<Rightarrow> nat option" where "wsub b l r = (if r \<le> l then Some (l - r) else None)"
definition wmul :: "nat \<Rightarrow> nat \<Rightarrow> nat \<Rightarrow> nat option" where "wmul b l r = fit_bits b (l * r)"
definition wdiv :: "nat \<Rightarrow> nat \<Rightarrow> nat \<Rightarrow> nat option" where "wdiv b l r = (if r = 0 then None else Some (l div r))"
definition wrem :: "nat \<Rightarrow> nat \<Rightarrow> nat \<Rightarrow> nat option" where "wrem b l r = (if r = 0 then None else Some (l mod r))"

text \<open>\<open>checked_shl\<close> and \<open>checked_shr\<close> refuse a shift of the width or more; bits shifted out are lost.\<close>

definition wshl :: "nat \<Rightarrow> nat \<Rightarrow> nat \<Rightarrow> nat option" where
  "wshl b l r = (if r < b then Some ((l * 2 ^ r) mod 2 ^ b) else None)"
definition wshr :: "nat \<Rightarrow> nat \<Rightarrow> nat \<Rightarrow> nat option" where
  "wshr b l r = (if r < b then Some (l div 2 ^ r) else None)"

text \<open>\<open>checked_pow\<close> by squaring; the exponent has to be a \<open>u32\<close>.\<close>

function pow_loop :: "nat \<Rightarrow> nat \<Rightarrow> nat \<Rightarrow> nat \<Rightarrow> nat option" where
  "pow_loop b base e acc =
     (if e \<le> 1 then wmul b acc base
      else case (if odd e then wmul b acc base else Some acc) of
        None \<Rightarrow> None
      | Some acc \<Rightarrow> (case wmul b base base of None \<Rightarrow> None | Some base \<Rightarrow> pow_loop b base (e div 2) acc))"
  by auto
termination by (relation "measure (\<lambda>(b, base, e, acc). e)") auto

declare pow_loop.simps [simp del]

definition wpow :: "nat \<Rightarrow> nat \<Rightarrow> nat \<Rightarrow> nat option" where
  "wpow b l r = (if r \<ge> 2 ^ 32 then None else if r = 0 then Some 1 else pow_loop b l r 1)"

definition add_checked :: "'x val \<Rightarrow> 'x val \<Rightarrow> 'x val vmrt" where "add_checked x y = ahmtdo wadd x y"
definition sub_checked :: "'x val \<Rightarrow> 'x val \<Rightarrow> 'x val vmrt" where "sub_checked x y = ahmtdo wsub x y"
definition mul_checked :: "'x val \<Rightarrow> 'x val \<Rightarrow> 'x val vmrt" where "mul_checked x y = ahmtdo wmul x y"
definition div_checked :: "'x val \<Rightarrow> 'x val \<Rightarrow> 'x val vmrt" where "div_checked x y = ahmtdo wdiv x y"
definition mod_checked :: "'x val \<Rightarrow> 'x val \<Rightarrow> 'x val vmrt" where "mod_checked x y = ahmtdo wrem x y"
definition pow_checked :: "'x val \<Rightarrow> 'x val \<Rightarrow> 'x val vmrt" where "pow_checked x y = ahmtdo wpow x y"
definition bit_shl :: "'x val \<Rightarrow> 'x val \<Rightarrow> 'x val vmrt" where "bit_shl x y = ahmtdo wshl x y"
definition bit_shr :: "'x val \<Rightarrow> 'x val \<Rightarrow> 'x val vmrt" where "bit_shr x y = ahmtdo wshr x y"

definition absdiff :: "nat \<Rightarrow> nat \<Rightarrow> nat" where "absdiff a b = (if a < b then b - a else a - b)"

definition absdiff_checked :: "'x val \<Rightarrow> 'x val \<Rightarrow> 'x val vmrt" where
  "absdiff_checked x y = ahmtdo (\<lambda>b l r. Some (absdiff l r)) x y"
definition satadd_checked :: "'x val \<Rightarrow> 'x val \<Rightarrow> 'x val vmrt" where
  "satadd_checked x y = ahmtdo (\<lambda>b l r. Some (min (l + r) (2 ^ b - 1))) x y"
definition satsub_checked :: "'x val \<Rightarrow> 'x val \<Rightarrow> 'x val vmrt" where
  "satsub_checked x y = ahmtdo (\<lambda>b l r. Some (l - r)) x y"

fun bitop :: "(nat \<Rightarrow> nat \<Rightarrow> nat) \<Rightarrow> 'x val \<Rightarrow> 'x val \<Rightarrow> 'x val vmrt" where
  "bitop f x y = ahmtdo (\<lambda>b l r. Some (f l r)) x y"

definition bit_and :: "'x val \<Rightarrow> 'x val \<Rightarrow> 'x val vmrt" where "bit_and x y = bitop (AND) x y"
definition bit_or :: "'x val \<Rightarrow> 'x val \<Rightarrow> 'x val vmrt" where "bit_or x y = bitop (OR) x y"
definition bit_xor :: "'x val \<Rightarrow> 'x val \<Rightarrow> 'x val vmrt" where "bit_xor x y = bitop (XOR) x y"

definition max_checked :: "'x val \<Rightarrow> 'x val \<Rightarrow> 'x val vmrt" where
  "max_checked x y = bindV (extract_u128 x) (\<lambda>a. bindV (extract_u128 y) (\<lambda>b. Inr (if a > b then x else y)))"
definition min_checked :: "'x val \<Rightarrow> 'x val \<Rightarrow> 'x val vmrt" where
  "min_checked x y = bindV (extract_u128 x) (\<lambda>a. bindV (extract_u128 y) (\<lambda>b. Inr (if a < b then x else y)))"

definition unary_inc :: "'x val \<Rightarrow> u8 \<Rightarrow> 'x val vmrt" where
  "unary_inc x n = (if \<not> is_uint x then Inl Arithmetic
     else okV Arithmetic (map_option (uint_val (bits x)) (wadd (bits x) (num x) (unat n))))"
definition unary_dec :: "'x val \<Rightarrow> u8 \<Rightarrow> 'x val vmrt" where
  "unary_dec x n = (if \<not> is_uint x then Inl Arithmetic
     else okV Arithmetic (map_option (uint_val (bits x)) (wsub (bits x) (num x) (unat n))))"

section \<open>Operations through \<open>u128\<close>\<close>

definition cast_uint_like_sample :: "'x val \<Rightarrow> nat \<Rightarrow> 'x val vmrt" where
  "cast_uint_like_sample sample out =
     (case sample of
        VU8 _ \<Rightarrow> if out < 2 ^ 8 then Inr (VU8 (word_of_nat out)) else Inl Arithmetic
      | VU16 _ \<Rightarrow> if out < 2 ^ 16 then Inr (VU16 (word_of_nat out)) else Inl Arithmetic
      | VU32 _ \<Rightarrow> if out < 2 ^ 32 then Inr (VU32 (word_of_nat out)) else Inl Arithmetic
      | VU64 _ \<Rightarrow> if out < 2 ^ 64 then Inr (VU64 (word_of_nat out)) else Inl Arithmetic
      | VU128 _ \<Rightarrow> Inr (VU128 (word_of_nat out))
      | _ \<Rightarrow> Inl Arithmetic)"

definition require_nonzero_u128 :: "nat \<Rightarrow> nat vmrt" where
  "require_nonzero_u128 d = (if d = 0 then Inl Arithmetic else Inr d)"

definition sqrt_floor_checked :: "'x val \<Rightarrow> 'x val vmrt" where
  "sqrt_floor_checked x = bindV (extract_u128 x) (\<lambda>n. cast_uint_like_sample x (nat_isqrt n))"

definition sqrt_up_checked :: "'x val \<Rightarrow> 'x val vmrt" where
  "sqrt_up_checked x = bindV (extract_u128 x) (\<lambda>n.
     let f = nat_isqrt n in
     bindV (if n \<le> 1 then Inr n
            else if checked_mul U128S f f = Some n then Inr f else okV Arithmetic (checked_add U128S f 1))
       (cast_uint_like_sample x))"

definition div_with_round_checked :: "'x val \<Rightarrow> 'x val \<Rightarrow> fin_round \<Rightarrow> 'x val vmrt" where
  "div_with_round_checked x y round =
     bindV (extract_u128 y) (\<lambda>d. bindV (require_nonzero_u128 d) (\<lambda>dv. bindV (extract_u128 x) (\<lambda>n.
     bindV (okV Arithmetic (round_quot_u128_with_policy (n div dv) (n mod dv) dv round)) (cast_uint_like_sample x))))"

definition sqrtmul_with_round_checked :: "'x val \<Rightarrow> 'x val \<Rightarrow> fin_round \<Rightarrow> 'x val vmrt" where
  "sqrtmul_with_round_checked x y round =
     bindV (extract_u128 x) (\<lambda>a. bindV (extract_u128 y) (\<lambda>b.
       let (hi, lo) = mul_wide_u128 a b; root = isqrt_u256_floor hi lo in
       bindV (case round of
           Floor \<Rightarrow> Inr root
         | Ceil \<Rightarrow> let (sq_hi, sq_lo) = mul_wide_u128 root root in
             if cmp_u256 sq_hi sq_lo hi lo = Equal then Inr root else okV Arithmetic (checked_add U128S root 1)
         | _ \<Rightarrow> Inl Arithmetic)
         (cast_uint_like_sample x)))"

definition quantize_with_round_checked :: "'x val \<Rightarrow> 'x val \<Rightarrow> fin_round \<Rightarrow> 'x val vmrt" where
  "quantize_with_round_checked x y round =
     bindV (extract_u128 x) (\<lambda>v. bindV (extract_u128 y) (\<lambda>d. bindV (require_nonzero_u128 d) (\<lambda>step.
       let quo = v div step; rem = v mod step in
       bindV (case round of
           Floor \<Rightarrow> okV Arithmetic (checked_mul U128S quo step)
         | Ceil \<Rightarrow> if rem = 0 then Inr v
             else okV Arithmetic (Option.bind (checked_add U128S quo 1) (\<lambda>q. checked_mul U128S q step))
         | _ \<Rightarrow> Inl Arithmetic)
         (cast_uint_like_sample x))))"

definition addmod_checked :: "'x val \<Rightarrow> 'x val \<Rightarrow> 'x val \<Rightarrow> 'x val vmrt" where
  "addmod_checked x y z =
     bindV (extract_u128 x) (\<lambda>a. bindV (extract_u128 y) (\<lambda>b. bindV (extract_u128 z) (\<lambda>m.
     bindV (require_nonzero_u128 m) (\<lambda>m. cast_uint_like_sample x (add_mod_u128 a b m)))))"

definition mulmod_checked :: "'x val \<Rightarrow> 'x val \<Rightarrow> 'x val \<Rightarrow> 'x val vmrt" where
  "mulmod_checked x y z =
     bindV (extract_u128 z) (\<lambda>m. bindV (require_nonzero_u128 m) (\<lambda>m.
     bindV (extract_u128 x) (\<lambda>a. bindV (extract_u128 y) (\<lambda>b. cast_uint_like_sample x (mul_mod_u128 a b m)))))"

definition muldiv_with_round_checked :: "'x val \<Rightarrow> 'x val \<Rightarrow> 'x val \<Rightarrow> fin_round \<Rightarrow> 'x val vmrt" where
  "muldiv_with_round_checked x y z round =
     bindV (extract_u128 z) (\<lambda>d. bindV (require_nonzero_u128 d) (\<lambda>dv.
     bindV (extract_u128 x) (\<lambda>a. bindV (extract_u128 y) (\<lambda>b.
       let (hi, lo) = mul_wide_u128 a b in
       bindV (okV Arithmetic (div_u256_by_u128_with_round hi lo dv round)) (cast_uint_like_sample x)))))"

definition scaled_addsub_checked :: "'x val \<Rightarrow> 'x val \<Rightarrow> 'x val \<Rightarrow> bool \<Rightarrow> fin_round \<Rightarrow> 'x val vmrt" where
  "scaled_addsub_checked x y z add_delta round =
     (if round \<notin> {Floor, Ceil} then Inl Arithmetic
      else bindV (extract_u128 x) (\<lambda>v. bindV (extract_u128 y) (\<lambda>rate. bindV (extract_u128 z) (\<lambda>s.
           bindV (require_nonzero_u128 s) (\<lambda>scale.
             let (hi, lo) = mul_wide_u128 v rate in
             bindV (okV Arithmetic (div_u256_by_u128_with_round hi lo scale round)) (\<lambda>delta.
             bindV (okV Arithmetic (if add_delta then checked_add U128S v delta else checked_sub v delta))
               (cast_uint_like_sample x)))))))"

definition muldiv_den_addsub_checked :: "'x val \<Rightarrow> 'x val \<Rightarrow> 'x val \<Rightarrow> bool \<Rightarrow> fin_round \<Rightarrow> 'x val vmrt" where
  "muldiv_den_addsub_checked x y z add_to_den round =
     (if round \<notin> {Floor, Ceil} then Inl Arithmetic
      else bindV (extract_u128 x) (\<lambda>lhs. bindV (extract_u128 y) (\<lambda>rhs. bindV (extract_u128 z) (\<lambda>den_base.
             let (hi, lo) = mul_wide_u128 lhs rhs in
             bindV (if add_to_den
                    then bindV (okV Arithmetic (add_u256_u128 0 den_base rhs)) (\<lambda>(den_hi, den_lo).
                      okV Arithmetic (div_u256_by_u129_with_round hi lo den_hi den_lo round 0))
                    else bindV (okV Arithmetic (checked_sub den_base rhs)) (\<lambda>den.
                      bindV (require_nonzero_u128 den) (\<lambda>den.
                      okV Arithmetic (div_u256_by_u128_with_round hi lo den round))))
               (cast_uint_like_sample x)))))"

definition mul_xy_addsub_z :: "nat \<Rightarrow> nat \<Rightarrow> nat \<Rightarrow> bool \<Rightarrow> (nat \<times> nat) vmrt" where
  "mul_xy_addsub_z x y z add_z =
     (let (hi, lo) = mul_wide_u128 x y in
      okV Arithmetic (if add_z then add_u256_u128 hi lo z else sub_u256_u128 hi lo z))"

definition mul_xy_addsub_z_fit_u128 :: "nat \<Rightarrow> nat \<Rightarrow> nat \<Rightarrow> bool \<Rightarrow> nat vmrt" where
  "mul_xy_addsub_z_fit_u128 x y z add_z =
     bindV (mul_xy_addsub_z x y z add_z) (\<lambda>(hi, lo). if hi \<noteq> 0 then Inl Arithmetic else Inr lo)"

definition mul_xy_addsub_z_div_u128 :: "nat \<Rightarrow> nat \<Rightarrow> nat \<Rightarrow> nat \<Rightarrow> bool \<Rightarrow> fin_round \<Rightarrow> nat vmrt" where
  "mul_xy_addsub_z_div_u128 x y z dv add_z round =
     bindV (mul_xy_addsub_z x y z add_z) (\<lambda>(hi, lo). okV Arithmetic (div_u256_by_u128_with_round hi lo dv round))"

definition muladd_checked :: "'x val \<Rightarrow> 'x val \<Rightarrow> 'x val \<Rightarrow> 'x val vmrt" where
  "muladd_checked x y z =
     bindV (extract_u128 x) (\<lambda>a. bindV (extract_u128 y) (\<lambda>b. bindV (extract_u128 z) (\<lambda>c.
     bindV (mul_xy_addsub_z_fit_u128 a b c True) (cast_uint_like_sample x))))"

definition mulsub_checked :: "'x val \<Rightarrow> 'x val \<Rightarrow> 'x val \<Rightarrow> 'x val vmrt" where
  "mulsub_checked x y z =
     bindV (extract_u128 x) (\<lambda>a. bindV (extract_u128 y) (\<lambda>b. bindV (extract_u128 z) (\<lambda>c.
     bindV (mul_xy_addsub_z_fit_u128 a b c False) (cast_uint_like_sample x))))"

definition mul_shr_impl :: "'x val \<Rightarrow> 'x val \<Rightarrow> 'x val \<Rightarrow> bool \<Rightarrow> 'x val vmrt" where
  "mul_shr_impl x y z ceil_dropped =
     bindV (extract_u128 z) (\<lambda>shift. bindV (extract_u128 x) (\<lambda>a. bindV (extract_u128 y) (\<lambda>b.
       let (hi, lo) = mul_wide_u128 a b in
       bindV (if shift \<ge> 256 then Inr (if ceil_dropped \<and> (hi \<noteq> 0 \<or> lo \<noteq> 0) then 1 else 0)
              else bindV (okV Arithmetic (shr_u256_to_u128 hi lo shift)) (\<lambda>(out, dropped).
                if ceil_dropped \<and> dropped then okV Arithmetic (checked_add U128S out 1) else Inr out))
         (cast_uint_like_sample x))))"

definition round_half_up_div_u256_by_u128 :: "nat \<Rightarrow> nat \<Rightarrow> nat \<Rightarrow> nat vmrt" where
  "round_half_up_div_u256_by_u128 hi lo d =
     bindV (okV Arithmetic (div_u256_by_u128_to_u128 hi lo d)) (\<lambda>(quo, rem).
       if rem \<ge> half_up_round_u128_threshold d then okV Arithmetic (checked_add U128S quo 1) else Inr quo)"

definition mul_div_half_up :: "nat \<Rightarrow> nat \<Rightarrow> nat \<Rightarrow> nat vmrt" where
  "mul_div_half_up lhs rhs d = (let (hi, lo) = mul_wide_u128 lhs rhs in round_half_up_div_u256_by_u128 hi lo d)"

function rpow_loop :: "nat \<Rightarrow> nat \<Rightarrow> nat \<Rightarrow> nat \<Rightarrow> nat vmrt" where
  "rpow_loop base n bas out =
     (if n \<le> 1 then Inr out
      else let n = n div 2 in
        bindV (mul_div_half_up bas bas base) (\<lambda>bas.
          if n mod 2 = 1 then bindV (mul_div_half_up out bas base) (\<lambda>out. rpow_loop base n bas out)
          else rpow_loop base n bas out))"
  by auto
termination by (relation "measure (\<lambda>(base, n, bas, out). n)") auto

declare rpow_loop.simps [simp del]

definition rpow_checked :: "'x val \<Rightarrow> 'x val \<Rightarrow> 'x val \<Rightarrow> 'x val vmrt" where
  "rpow_checked x y z =
     bindV (extract_u128 y) (\<lambda>n. bindV (extract_u128 z) (\<lambda>base.
       if base = 0 then Inl Arithmetic
       else if n = 0 then cast_uint_like_sample x base
       else bindV (extract_u128 x) (\<lambda>bas.
         bindV (rpow_loop base n bas (if n mod 2 = 1 then bas else base)) (cast_uint_like_sample x))))"

definition clamp_checked :: "'x val \<Rightarrow> 'x val \<Rightarrow> 'x val \<Rightarrow> 'x val vmrt" where
  "clamp_checked x y z =
     bindV (extract_u128 x) (\<lambda>v. bindV (extract_u128 y) (\<lambda>lo. bindV (extract_u128 z) (\<lambda>hi.
       if lo > hi then Inl Arithmetic
       else cast_uint_like_sample x (if v < lo then lo else if v > hi then hi else v))))"

definition muladddiv_checked :: "'x val \<Rightarrow> 'x val \<Rightarrow> 'x val \<Rightarrow> 'x val \<Rightarrow> fin_round \<Rightarrow> 'x val vmrt" where
  "muladddiv_checked x y z w round =
     bindV (extract_u128 w) (\<lambda>d. bindV (require_nonzero_u128 d) (\<lambda>dv.
     bindV (extract_u128 x) (\<lambda>a. bindV (extract_u128 y) (\<lambda>b. bindV (extract_u128 z) (\<lambda>c.
     bindV (mul_xy_addsub_z_div_u128 a b c dv True round) (cast_uint_like_sample x))))))"

definition mulsubdiv_checked :: "'x val \<Rightarrow> 'x val \<Rightarrow> 'x val \<Rightarrow> 'x val \<Rightarrow> fin_round \<Rightarrow> 'x val vmrt" where
  "mulsubdiv_checked x y z w round =
     bindV (extract_u128 w) (\<lambda>d. bindV (require_nonzero_u128 d) (\<lambda>dv.
     bindV (extract_u128 x) (\<lambda>a. bindV (extract_u128 y) (\<lambda>b. bindV (extract_u128 z) (\<lambda>c.
     bindV (mul_xy_addsub_z_div_u128 a b c dv False round) (cast_uint_like_sample x))))))"

definition mul3div_checked :: "'x val \<Rightarrow> 'x val \<Rightarrow> 'x val \<Rightarrow> 'x val \<Rightarrow> fin_round \<Rightarrow> 'x val vmrt" where
  "mul3div_checked x y z w round =
     bindV (extract_u128 w) (\<lambda>d. bindV (require_nonzero_u128 d) (\<lambda>dv.
     bindV (extract_u128 x) (\<lambda>a. bindV (extract_u128 y) (\<lambda>b. bindV (extract_u128 z) (\<lambda>c.
       let (hi, lo) = mul_wide_u128 a b in
       bindV (okV Arithmetic (mul_u256_u128_to_u256_checked hi lo c)) (\<lambda>(hi, lo).
       bindV (okV Arithmetic (div_u256_by_u128_with_round hi lo dv round)) (cast_uint_like_sample x)))))))"

definition scaled_abs_diff_div_u128 :: "nat \<Rightarrow> nat \<Rightarrow> nat \<Rightarrow> (nat \<times> nat) option" where
  "scaled_abs_diff_div_u128 x reference scale =
     (if reference = 0 \<or> scale = 0 then None
      else let (hi, lo) = mul_wide_u128 (absdiff x reference) scale in div_u256_by_u128_to_u128 hi lo reference)"

definition devscaled_with_round_checked :: "'x val \<Rightarrow> 'x val \<Rightarrow> 'x val \<Rightarrow> fin_round \<Rightarrow> 'x val vmrt" where
  "devscaled_with_round_checked x y z round =
     bindV (extract_u128 y) (\<lambda>reference. bindV (extract_u128 z) (\<lambda>scale. bindV (extract_u128 x) (\<lambda>a.
     bindV (okV Arithmetic (scaled_abs_diff_div_u128 a reference scale)) (\<lambda>(quo, rem).
     bindV (okV Arithmetic (round_quot_u128_with_policy quo rem reference round)) (cast_uint_like_sample x)))))"

definition withinbps_checked :: "'x val \<Rightarrow> 'x val \<Rightarrow> 'x val \<Rightarrow> 'x val \<Rightarrow> 'x val vmrt" where
  "withinbps_checked x y z w =
     bindV (extract_u128 x) (\<lambda>v. bindV (extract_u128 y) (\<lambda>reference.
     bindV (extract_u128 z) (\<lambda>tolerance. bindV (extract_u128 w) (\<lambda>scale.
       if reference = 0 \<or> scale = 0 then Inl Arithmetic
       else if tolerance > scale then Inl Arithmetic
       else let (lhs_hi, lhs_lo) = mul_wide_u128 (absdiff v reference) scale;
                (rhs_hi, rhs_lo) = mul_wide_u128 reference tolerance in
         Inr (VBool (cmp_u256 lhs_hi lhs_lo rhs_hi rhs_lo \<noteq> Greater))))))"

datatype fin_kernel =
    KDiv | KMulDiv | KSqrtMul | KQuantize | KDevScaled | KScaledDiv | KScaledAdd | KScaledSub | KMulShr
  | KMulDivDenAdd | KMulDivDenSub | KMulAddDiv | KMulSubDiv | KMul3Div | KSatAdd | KSatSub | KWavg2 | KLerp
  | KAbsDiffLte | KWithinBps | KCrossLte | KCrossGte | KCrossEq | KRPow

definition crossmul_pred_checked :: "'x val \<Rightarrow> 'x val \<Rightarrow> 'x val \<Rightarrow> 'x val \<Rightarrow> fin_kernel \<Rightarrow> 'x val vmrt" where
  "crossmul_pred_checked x y z w kn =
     bindV (extract_u128 x) (\<lambda>a. bindV (extract_u128 y) (\<lambda>b. bindV (extract_u128 z) (\<lambda>c. bindV (extract_u128 w) (\<lambda>d.
       let (lhs_hi, lhs_lo) = mul_wide_u128 a b; (rhs_hi, rhs_lo) = mul_wide_u128 c d;
           ord = cmp_u256 lhs_hi lhs_lo rhs_hi rhs_lo in
       case kn of
         KCrossLte \<Rightarrow> Inr (VBool (ord \<noteq> Greater))
       | KCrossGte \<Rightarrow> Inr (VBool (ord \<noteq> Less))
       | KCrossEq \<Rightarrow> Inr (VBool (ord = Equal))
       | _ \<Rightarrow> Inl Arithmetic))))"

definition wavg2_checked :: "'x val \<Rightarrow> 'x val \<Rightarrow> 'x val \<Rightarrow> 'x val \<Rightarrow> fin_round \<Rightarrow> 'x val vmrt" where
  "wavg2_checked x y z w round =
     bindV (extract_u128 x) (\<lambda>lhs. bindV (extract_u128 z) (\<lambda>rhs. bindV (extract_u128 y) (\<lambda>wx. bindV (extract_u128 w) (\<lambda>wy.
     bindV (okV Arithmetic (add_u256_u128 0 wx wy)) (\<lambda>(den_hi, den_lo).
       if den_hi = 0 \<and> den_lo = 0 then Inl Arithmetic
       else if lhs = rhs then cast_uint_like_sample x lhs
       else let (base, diff, diff_weight) = (if lhs < rhs then (lhs, rhs - lhs, wy) else (rhs, lhs - rhs, wx));
                (part_hi, part_lo) = mul_wide_u128 diff diff_weight in
         bindV (okV Arithmetic (div_u256_by_u129_with_round part_hi part_lo den_hi den_lo round base)) (\<lambda>part.
         bindV (okV Arithmetic (checked_add U128S base part)) (cast_uint_like_sample x)))))))"

definition lerp_checked :: "'x val \<Rightarrow> 'x val \<Rightarrow> 'x val \<Rightarrow> 'x val \<Rightarrow> fin_round \<Rightarrow> 'x val vmrt" where
  "lerp_checked x y z w round =
     bindV (extract_u128 x) (\<lambda>start. bindV (extract_u128 y) (\<lambda>stop. bindV (extract_u128 z) (\<lambda>weight.
     bindV (extract_u128 w) (\<lambda>base.
       if base = 0 \<or> weight > base then Inl Arithmetic
       else let left_weight = base - weight; (lhs_hi, lhs_lo) = mul_wide_u128 start left_weight;
                (rhs_hi, rhs_lo) = mul_wide_u128 stop weight in
         bindV (okV Arithmetic (add_u256 lhs_hi lhs_lo rhs_hi rhs_lo)) (\<lambda>(num_hi, num_lo).
         bindV (okV Arithmetic (div_u256_by_u128_with_round num_hi num_lo base round)) (cast_uint_like_sample x))))))"

end
