(* ===== verification/VmCode.thy ===== *)
theory VmCode
  imports VmValue
begin

text \<open>
  The instruction set of the contract machine (\<^verbatim>\<open>vm/src/rt/bytecode.rs\<close>): an instruction is its byte, as in
  the \<open>repr(u8)\<close> enum of the source, and its metadata is a row (bytes of immediates, stack values taken, stack
  values left). 255 stands for a number that an operand gives.
\<close>

abbreviation ACTION :: u8 where "ACTION \<equiv> 0x00"
abbreviation ACTVIEW :: u8 where "ACTVIEW \<equiv> 0x06"
abbreviation ACTENV :: u8 where "ACTENV \<equiv> 0x07"
abbreviation NTENV :: u8 where "NTENV \<equiv> 0x08"
abbreviation NTCTL :: u8 where "NTCTL \<equiv> 0x09"
abbreviation NTFUNC :: u8 where "NTFUNC \<equiv> 0x0a"
abbreviation CODECALL :: u8 where "CODECALL \<equiv> 0x0e"
abbreviation CALL :: u8 where "CALL \<equiv> 0x0f"
abbreviation CALLEXT :: u8 where "CALLEXT \<equiv> 0x10"
abbreviation CALLEXTVIEW :: u8 where "CALLEXTVIEW \<equiv> 0x11"
abbreviation CALLUSEVIEW :: u8 where "CALLUSEVIEW \<equiv> 0x14"
abbreviation CALLUSEPURE :: u8 where "CALLUSEPURE \<equiv> 0x15"
abbreviation CALLTHIS :: u8 where "CALLTHIS \<equiv> 0x18"
abbreviation CALLSELF :: u8 where "CALLSELF \<equiv> 0x19"
abbreviation CALLSUPER :: u8 where "CALLSUPER \<equiv> 0x1a"
abbreviation CALLSELFVIEW :: u8 where "CALLSELFVIEW \<equiv> 0x1b"
abbreviation CALLSELFPURE :: u8 where "CALLSELFPURE \<equiv> 0x1c"
abbreviation PU8 :: u8 where "PU8 \<equiv> 0x20"
abbreviation PU16 :: u8 where "PU16 \<equiv> 0x21"
abbreviation PBUF :: u8 where "PBUF \<equiv> 0x22"
abbreviation PBUFL :: u8 where "PBUFL \<equiv> 0x23"
abbreviation P0 :: u8 where "P0 \<equiv> 0x24"
abbreviation P1 :: u8 where "P1 \<equiv> 0x25"
abbreviation P2 :: u8 where "P2 \<equiv> 0x26"
abbreviation P3 :: u8 where "P3 \<equiv> 0x27"
abbreviation PNIL :: u8 where "PNIL \<equiv> 0x28"
abbreviation PNBUF :: u8 where "PNBUF \<equiv> 0x29"
abbreviation PTRUE :: u8 where "PTRUE \<equiv> 0x2a"
abbreviation PFALSE :: u8 where "PFALSE \<equiv> 0x2b"
abbreviation CU8 :: u8 where "CU8 \<equiv> 0x30"
abbreviation CU16 :: u8 where "CU16 \<equiv> 0x31"
abbreviation CU32 :: u8 where "CU32 \<equiv> 0x32"
abbreviation CU64 :: u8 where "CU64 \<equiv> 0x33"
abbreviation CU128 :: u8 where "CU128 \<equiv> 0x34"
abbreviation CBYTES :: u8 where "CBYTES \<equiv> 0x36"
abbreviation CTO :: u8 where "CTO \<equiv> 0x37"
abbreviation TNIL :: u8 where "TNIL \<equiv> 0x38"
abbreviation TLIST :: u8 where "TLIST \<equiv> 0x39"
abbreviation TMAP :: u8 where "TMAP \<equiv> 0x3a"
abbreviation TIS :: u8 where "TIS \<equiv> 0x3b"
abbreviation TID :: u8 where "TID \<equiv> 0x3c"
abbreviation DUP :: u8 where "DUP \<equiv> 0x40"
abbreviation DUPN :: u8 where "DUPN \<equiv> 0x41"
abbreviation POP :: u8 where "POP \<equiv> 0x42"
abbreviation POPN :: u8 where "POPN \<equiv> 0x43"
abbreviation ROLL0 :: u8 where "ROLL0 \<equiv> 0x44"
abbreviation ROLL :: u8 where "ROLL \<equiv> 0x45"
abbreviation SWAP :: u8 where "SWAP \<equiv> 0x46"
abbreviation REV :: u8 where "REV \<equiv> 0x47"
abbreviation CAT :: u8 where "CAT \<equiv> 0x48"
abbreviation JOIN :: u8 where "JOIN \<equiv> 0x49"
abbreviation BYTE :: u8 where "BYTE \<equiv> 0x4a"
abbreviation CUT :: u8 where "CUT \<equiv> 0x4b"
abbreviation LEFT :: u8 where "LEFT \<equiv> 0x4c"
abbreviation RIGHT :: u8 where "RIGHT \<equiv> 0x4d"
abbreviation LDROP :: u8 where "LDROP \<equiv> 0x4e"
abbreviation RDROP :: u8 where "RDROP \<equiv> 0x4f"
abbreviation SIZE :: u8 where "SIZE \<equiv> 0x50"
abbreviation CHOOSE :: u8 where "CHOOSE \<equiv> 0x51"
abbreviation NEWLIST :: u8 where "NEWLIST \<equiv> 0x60"
abbreviation NEWMAP :: u8 where "NEWMAP \<equiv> 0x61"
abbreviation PACKLIST :: u8 where "PACKLIST \<equiv> 0x62"
abbreviation PACKMAP :: u8 where "PACKMAP \<equiv> 0x63"
abbreviation INSERT :: u8 where "INSERT \<equiv> 0x64"
abbreviation REMOVE :: u8 where "REMOVE \<equiv> 0x65"
abbreviation CLEAR :: u8 where "CLEAR \<equiv> 0x66"
abbreviation MERGE :: u8 where "MERGE \<equiv> 0x67"
abbreviation BC_LENGTH :: u8 where "BC_LENGTH \<equiv> 0x68"
abbreviation HASKEY :: u8 where "HASKEY \<equiv> 0x69"
abbreviation ITEMGET :: u8 where "ITEMGET \<equiv> 0x6a"
abbreviation KEYS :: u8 where "KEYS \<equiv> 0x6b"
abbreviation VALUES :: u8 where "VALUES \<equiv> 0x6c"
abbreviation TAKEFIRST :: u8 where "TAKEFIRST \<equiv> 0x6d"
abbreviation TAKELAST :: u8 where "TAKELAST \<equiv> 0x6e"
abbreviation APPEND :: u8 where "APPEND \<equiv> 0x6f"
abbreviation CLONE :: u8 where "CLONE \<equiv> 0x70"
abbreviation UNPACK :: u8 where "UNPACK \<equiv> 0x71"
abbreviation PACKTUPLE :: u8 where "PACKTUPLE \<equiv> 0x72"
abbreviation TUPLE2LIST :: u8 where "TUPLE2LIST \<equiv> 0x73"
abbreviation XLG :: u8 where "XLG \<equiv> 0x79"
abbreviation XOP :: u8 where "XOP \<equiv> 0x7a"
abbreviation GET :: u8 where "GET \<equiv> 0x7b"
abbreviation PUT :: u8 where "PUT \<equiv> 0x7c"
abbreviation GETX :: u8 where "GETX \<equiv> 0x7d"
abbreviation PUTX :: u8 where "PUTX \<equiv> 0x7e"
abbreviation ALLOC :: u8 where "ALLOC \<equiv> 0x7f"
abbreviation GET0 :: u8 where "GET0 \<equiv> 0x80"
abbreviation GET1 :: u8 where "GET1 \<equiv> 0x81"
abbreviation GET2 :: u8 where "GET2 \<equiv> 0x82"
abbreviation GET3 :: u8 where "GET3 \<equiv> 0x83"
abbreviation LOG1 :: u8 where "LOG1 \<equiv> 0x84"
abbreviation LOG2 :: u8 where "LOG2 \<equiv> 0x85"
abbreviation LOG3 :: u8 where "LOG3 \<equiv> 0x86"
abbreviation LOG4 :: u8 where "LOG4 \<equiv> 0x87"
abbreviation HREADUL :: u8 where "HREADUL \<equiv> 0x89"
abbreviation HREADU :: u8 where "HREADU \<equiv> 0x8a"
abbreviation HWRITEXL :: u8 where "HWRITEXL \<equiv> 0x8b"
abbreviation HWRITEX :: u8 where "HWRITEX \<equiv> 0x8c"
abbreviation HREAD :: u8 where "HREAD \<equiv> 0x8d"
abbreviation HWRITE :: u8 where "HWRITE \<equiv> 0x8e"
abbreviation HGROW :: u8 where "HGROW \<equiv> 0x8f"
abbreviation GPUT :: u8 where "GPUT \<equiv> 0x90"
abbreviation GGET :: u8 where "GGET \<equiv> 0x91"
abbreviation MPUT :: u8 where "MPUT \<equiv> 0x92"
abbreviation MGET :: u8 where "MGET \<equiv> 0x93"
abbreviation MTAKE :: u8 where "MTAKE \<equiv> 0x94"
abbreviation SPUT :: u8 where "SPUT \<equiv> 0x95"
abbreviation SGET :: u8 where "SGET \<equiv> 0x96"
abbreviation SSTAT :: u8 where "SSTAT \<equiv> 0x99"
abbreviation SLOAD :: u8 where "SLOAD \<equiv> 0x9a"
abbreviation SEDIT :: u8 where "SEDIT \<equiv> 0x9b"
abbreviation SDEL :: u8 where "SDEL \<equiv> 0x9c"
abbreviation SNEW :: u8 where "SNEW \<equiv> 0x9d"
abbreviation SRECV :: u8 where "SRECV \<equiv> 0x9e"
abbreviation SRENT :: u8 where "SRENT \<equiv> 0x9f"
abbreviation BC_AND :: u8 where "BC_AND \<equiv> 0xa0"
abbreviation BC_OR :: u8 where "BC_OR \<equiv> 0xa1"
abbreviation EQ :: u8 where "EQ \<equiv> 0xa2"
abbreviation NEQ :: u8 where "NEQ \<equiv> 0xa3"
abbreviation LT :: u8 where "LT \<equiv> 0xa4"
abbreviation GT :: u8 where "GT \<equiv> 0xa5"
abbreviation LE :: u8 where "LE \<equiv> 0xa6"
abbreviation GE :: u8 where "GE \<equiv> 0xa7"
abbreviation BC_NOT :: u8 where "BC_NOT \<equiv> 0xa8"
abbreviation BSHR :: u8 where "BSHR \<equiv> 0xab"
abbreviation BSHL :: u8 where "BSHL \<equiv> 0xac"
abbreviation BXOR :: u8 where "BXOR \<equiv> 0xad"
abbreviation BOR :: u8 where "BOR \<equiv> 0xae"
abbreviation BAND :: u8 where "BAND \<equiv> 0xaf"
abbreviation ADD :: u8 where "ADD \<equiv> 0xb0"
abbreviation SUB :: u8 where "SUB \<equiv> 0xb1"
abbreviation MUL :: u8 where "MUL \<equiv> 0xb2"
abbreviation DIV :: u8 where "DIV \<equiv> 0xb3"
abbreviation DIVUP :: u8 where "DIVUP \<equiv> 0xb4"
abbreviation DIVEXACT :: u8 where "DIVEXACT \<equiv> 0xb5"
abbreviation MULDIV :: u8 where "MULDIV \<equiv> 0xb6"
abbreviation MULDIVUP :: u8 where "MULDIVUP \<equiv> 0xb7"
abbreviation MULADD :: u8 where "MULADD \<equiv> 0xb8"
abbreviation MULSUB :: u8 where "MULSUB \<equiv> 0xb9"
abbreviation MOD :: u8 where "MOD \<equiv> 0xba"
abbreviation ADDMOD :: u8 where "ADDMOD \<equiv> 0xbb"
abbreviation MULMOD :: u8 where "MULMOD \<equiv> 0xbc"
abbreviation POW :: u8 where "POW \<equiv> 0xbd"
abbreviation SQRT :: u8 where "SQRT \<equiv> 0xbe"
abbreviation SQRTUP :: u8 where "SQRTUP \<equiv> 0xbf"
abbreviation BC_MAX :: u8 where "BC_MAX \<equiv> 0xc0"
abbreviation BC_MIN :: u8 where "BC_MIN \<equiv> 0xc1"
abbreviation CLAMP :: u8 where "CLAMP \<equiv> 0xc2"
abbreviation ABSDIFF :: u8 where "ABSDIFF \<equiv> 0xc3"
abbreviation INC :: u8 where "INC \<equiv> 0xc4"
abbreviation DEC :: u8 where "DEC \<equiv> 0xc5"
abbreviation FINPOW3 :: u8 where "FINPOW3 \<equiv> 0xca"
abbreviation FINP4 :: u8 where "FINP4 \<equiv> 0xcb"
abbreviation FINP3 :: u8 where "FINP3 \<equiv> 0xcc"
abbreviation FIN4 :: u8 where "FIN4 \<equiv> 0xcd"
abbreviation FIN3 :: u8 where "FIN3 \<equiv> 0xce"
abbreviation FIN2 :: u8 where "FIN2 \<equiv> 0xcf"
abbreviation JMPL :: u8 where "JMPL \<equiv> 0xe0"
abbreviation JMPS :: u8 where "JMPS \<equiv> 0xe1"
abbreviation JMPSL :: u8 where "JMPSL \<equiv> 0xe2"
abbreviation BRL :: u8 where "BRL \<equiv> 0xe3"
abbreviation BRS :: u8 where "BRS \<equiv> 0xe4"
abbreviation BRSL :: u8 where "BRSL \<equiv> 0xe5"
abbreviation BRSLN :: u8 where "BRSLN \<equiv> 0xe6"
abbreviation PRT :: u8 where "PRT \<equiv> 0xea"
abbreviation AST :: u8 where "AST \<equiv> 0xeb"
abbreviation ERR :: u8 where "ERR \<equiv> 0xec"
abbreviation ABT :: u8 where "ABT \<equiv> 0xed"
abbreviation RET :: u8 where "RET \<equiv> 0xee"
abbreviation END :: u8 where "END \<equiv> 0xef"
abbreviation IRBYTECODE :: u8 where "IRBYTECODE \<equiv> 0xf0"
abbreviation IRLIST :: u8 where "IRLIST \<equiv> 0xf1"
abbreviation IRBLOCK :: u8 where "IRBLOCK \<equiv> 0xf2"
abbreviation IRBLOCKR :: u8 where "IRBLOCKR \<equiv> 0xf3"
abbreviation IRIF :: u8 where "IRIF \<equiv> 0xf4"
abbreviation IRIFR :: u8 where "IRIFR \<equiv> 0xf5"
abbreviation IRWHILE :: u8 where "IRWHILE \<equiv> 0xf6"
abbreviation IRBREAK :: u8 where "IRBREAK \<equiv> 0xf7"
abbreviation IRCONTINUE :: u8 where "IRCONTINUE \<equiv> 0xf8"
abbreviation BURN :: u8 where "BURN \<equiv> 0xfd"
abbreviation NOP :: u8 where "NOP \<equiv> 0xfe"
abbreviation NT :: u8 where "NT \<equiv> 0xff"

definition metadata_rows :: "(u8 \<times> (nat \<times> nat \<times> nat)) list" where
  "metadata_rows =
     [(ACTION, (1, 1, 0)), (ACTVIEW, (1, 1, 1)), (ACTENV, (1, 0, 1)), (NTENV, (1, 0, 1)), (NTCTL, (1, 1, 1)),
      (NTFUNC, (1, 1, 1)), (CODECALL, (5, 1, 0)), (CALL, (6, 1, 1)), (CALLEXT, (5, 1, 1)), (CALLEXTVIEW, (5, 1, 1)),
      (CALLUSEVIEW, (5, 1, 1)), (CALLUSEPURE, (5, 1, 1)), (CALLTHIS, (4, 1, 1)), (CALLSELF, (4, 1, 1)),
      (CALLSUPER, (4, 1, 1)), (CALLSELFVIEW, (4, 1, 1)), (CALLSELFPURE, (4, 1, 1)), (PU8, (1, 0, 1)),
      (PU16, (2, 0, 1)), (PBUF, (1, 0, 1)), (PBUFL, (2, 0, 1)), (P0, (0, 0, 1)), (P1, (0, 0, 1)), (P2, (0, 0, 1)),
      (P3, (0, 0, 1)), (PNBUF, (0, 0, 1)), (PNIL, (0, 0, 1)), (PTRUE, (0, 0, 1)), (PFALSE, (0, 0, 1)),
      (CU8, (0, 1, 1)), (CU16, (0, 1, 1)), (CU32, (0, 1, 1)), (CU64, (0, 1, 1)), (CU128, (0, 1, 1)),
      (CBYTES, (0, 1, 1)), (CTO, (1, 1, 1)), (TNIL, (0, 1, 1)), (TLIST, (0, 1, 1)), (TMAP, (0, 1, 1)),
      (TIS, (1, 1, 1)), (TID, (0, 1, 1)), (DUP, (0, 0, 1)), (DUPN, (1, 0, 255)), (POP, (0, 255, 0)),
      (POPN, (1, 255, 0)), (ROLL0, (0, 0, 1)), (ROLL, (1, 0, 1)), (SWAP, (0, 2, 2)), (REV, (1, 255, 255)),
      (CAT, (0, 2, 1)), (JOIN, (1, 255, 1)), (BYTE, (0, 2, 1)), (CUT, (0, 3, 1)), (LEFT, (1, 1, 1)),
      (RIGHT, (1, 1, 1)), (LDROP, (1, 1, 1)), (RDROP, (1, 1, 1)), (SIZE, (0, 1, 1)), (CHOOSE, (0, 3, 1)),
      (NEWLIST, (0, 0, 1)), (NEWMAP, (0, 0, 1)), (PACKLIST, (0, 255, 1)), (PACKMAP, (0, 255, 1)), (INSERT, (0, 3, 1)),
      (REMOVE, (0, 2, 1)), (CLEAR, (0, 1, 1)), (MERGE, (0, 2, 1)), (BC_LENGTH, (0, 1, 1)), (HASKEY, (0, 2, 1)),
      (ITEMGET, (0, 2, 1)), (KEYS, (0, 1, 1)), (VALUES, (0, 1, 1)), (TAKEFIRST, (0, 1, 1)), (TAKELAST, (0, 1, 1)),
      (APPEND, (0, 2, 1)), (CLONE, (0, 1, 1)), (PACKTUPLE, (0, 255, 1)), (TUPLE2LIST, (0, 1, 1)), (UNPACK, (0, 2, 0)),
      (XLG, (1, 1, 1)), (XOP, (1, 1, 0)), (GET, (1, 0, 1)), (PUT, (1, 1, 0)), (GETX, (0, 1, 1)), (PUTX, (0, 2, 0)),
      (ALLOC, (1, 0, 0)), (GET0, (0, 0, 1)), (GET1, (0, 0, 1)), (GET2, (0, 0, 1)), (GET3, (0, 0, 1)),
      (LOG1, (0, 2, 0)), (LOG2, (0, 3, 0)), (LOG3, (0, 4, 0)), (LOG4, (0, 5, 0)), (HREADUL, (2, 0, 1)),
      (HREADU, (1, 0, 1)), (HWRITEXL, (2, 1, 0)), (HWRITEX, (1, 1, 0)), (HREAD, (0, 2, 1)), (HWRITE, (0, 2, 0)),
      (HGROW, (1, 0, 0)), (GPUT, (0, 2, 0)), (GGET, (0, 1, 1)), (MPUT, (0, 2, 0)), (MGET, (0, 1, 1)),
      (MTAKE, (0, 1, 1)), (SPUT, (0, 2, 0)), (SGET, (0, 1, 1)), (SSTAT, (0, 1, 1)), (SLOAD, (0, 1, 1)),
      (SEDIT, (0, 2, 0)), (SDEL, (0, 1, 0)), (SNEW, (0, 3, 0)), (SRECV, (0, 2, 0)), (SRENT, (0, 2, 0)),
      (BC_AND, (0, 2, 1)), (BC_OR, (0, 2, 1)), (EQ, (0, 2, 1)), (NEQ, (0, 2, 1)), (LT, (0, 2, 1)), (GT, (0, 2, 1)),
      (LE, (0, 2, 1)), (GE, (0, 2, 1)), (BC_NOT, (0, 1, 1)), (BSHR, (0, 2, 1)), (BSHL, (0, 2, 1)), (BXOR, (0, 2, 1)),
      (BOR, (0, 2, 1)), (BAND, (0, 2, 1)), (ADD, (0, 2, 1)), (SUB, (0, 2, 1)), (MUL, (0, 2, 1)), (DIV, (0, 2, 1)),
      (DIVUP, (0, 2, 1)), (DIVEXACT, (0, 2, 1)), (MOD, (0, 2, 1)), (POW, (0, 2, 1)), (SQRT, (0, 1, 1)),
      (SQRTUP, (0, 1, 1)), (BC_MAX, (0, 2, 1)), (BC_MIN, (0, 2, 1)), (CLAMP, (0, 3, 1)), (ABSDIFF, (0, 2, 1)),
      (INC, (1, 1, 1)), (DEC, (1, 1, 1)), (ADDMOD, (0, 3, 1)), (MULMOD, (0, 3, 1)), (MULADD, (0, 3, 1)),
      (MULSUB, (0, 3, 1)), (MULDIV, (0, 3, 1)), (MULDIVUP, (0, 3, 1)), (FIN2, (1, 2, 1)), (FIN3, (1, 3, 1)),
      (FIN4, (1, 4, 1)), (FINP3, (1, 3, 1)), (FINP4, (1, 4, 1)), (FINPOW3, (1, 3, 1)), (JMPL, (2, 0, 0)),
      (JMPS, (1, 0, 0)), (JMPSL, (2, 0, 0)), (BRL, (2, 1, 0)), (BRS, (1, 1, 0)), (BRSL, (2, 1, 0)),
      (BRSLN, (2, 1, 0)), (RET, (0, 1, 0)), (END, (0, 0, 0)), (AST, (0, 1, 0)), (ERR, (0, 1, 0)), (ABT, (0, 0, 0)),
      (PRT, (0, 1, 0)), (IRBYTECODE, (2, 255, 0)), (IRLIST, (2, 255, 1)), (IRBLOCK, (2, 255, 0)),
      (IRBLOCKR, (2, 255, 1)), (IRIF, (0, 3, 0)), (IRIFR, (0, 3, 1)), (IRWHILE, (0, 2, 0)), (IRBREAK, (0, 0, 0)),
      (IRCONTINUE, (0, 0, 0)), (BURN, (2, 0, 0)), (NOP, (0, 0, 0)), (NT, (0, 0, 0))]"

text \<open>\<open>metadata\<close>: \<open>valid\<close> is that there is a row; the default row is all zero.\<close>

definition inst_valid :: "u8 \<Rightarrow> bool" where "inst_valid b \<longleftrightarrow> map_of metadata_rows b \<noteq> None"

definition inst_meta :: "u8 \<Rightarrow> nat \<times> nat \<times> nat" where
  "inst_meta b = (case map_of metadata_rows b of None \<Rightarrow> (0, 0, 0) | Some m \<Rightarrow> m)"

definition inst_param :: "u8 \<Rightarrow> nat" where "inst_param b = fst (inst_meta b)"
definition inst_input :: "u8 \<Rightarrow> nat" where "inst_input b = fst (snd (inst_meta b))"
definition inst_output :: "u8 \<Rightarrow> nat" where "inst_output b = snd (snd (inst_meta b))"

end
