(* ===== verification/VmFin.thy ===== *)
theory VmFin
  imports VmOps VmCode
begin

text \<open>
  The registry of financial operations (\<^verbatim>\<open>vm/src/rt/fin.rs\<close>), their dispatch
  (\<^verbatim>\<open>vm/src/interpreter/instruction.rs\<close>, \<open>execute.rs\<close>) and their reference: each computes a rational number
  on the operands as unbounded integers, rounds it once by its policy, and gives the result in the widest operand
  width or refuses.
\<close>

section \<open>The registry\<close>

record fin_spec =
  fs_family :: u8
  fs_id :: u8
  fs_name :: string
  fs_kernel :: fin_kernel
  fs_round :: "fin_round option"

definition fin_spec_row :: "u8 \<Rightarrow> u8 \<Rightarrow> string \<Rightarrow> fin_kernel \<Rightarrow> fin_round option \<Rightarrow> fin_spec" where
  "fin_spec_row f i n k r = \<lparr>fs_family = f, fs_id = i, fs_name = n, fs_kernel = k, fs_round = r\<rparr>"

definition fin_specs :: "fin_spec list" where
  "fin_specs =
     [fin_spec_row FIN2 0 ''div_exact'' KDiv (Some Exact),
      fin_spec_row FIN2 1 ''div_floor'' KDiv (Some Floor),
      fin_spec_row FIN2 2 ''div_ceil'' KDiv (Some Ceil),
      fin_spec_row FIN2 3 ''div_half_up'' KDiv (Some HalfUp),
      fin_spec_row FIN2 4 ''div_half_even'' KDiv (Some HalfEven),
      fin_spec_row FIN2 5 ''sqrt_mul_floor'' KSqrtMul (Some Floor),
      fin_spec_row FIN2 6 ''sqrt_mul_ceil'' KSqrtMul (Some Ceil),
      fin_spec_row FIN2 7 ''quantize_floor'' KQuantize (Some Floor),
      fin_spec_row FIN2 8 ''quantize_ceil'' KQuantize (Some Ceil),
      fin_spec_row FIN2 9 ''sat_add'' KSatAdd None,
      fin_spec_row FIN2 10 ''sat_sub'' KSatSub None,
      fin_spec_row FIN3 0 ''mul_div_exact'' KMulDiv (Some Exact),
      fin_spec_row FIN3 1 ''mul_div_floor'' KMulDiv (Some Floor),
      fin_spec_row FIN3 2 ''mul_div_ceil'' KMulDiv (Some Ceil),
      fin_spec_row FIN3 3 ''mul_div_half_up'' KMulDiv (Some HalfUp),
      fin_spec_row FIN3 4 ''mul_div_half_even'' KMulDiv (Some HalfEven),
      fin_spec_row FIN3 5 ''dev_scaled_floor'' KDevScaled (Some Floor),
      fin_spec_row FIN3 6 ''dev_scaled_ceil'' KDevScaled (Some Ceil),
      fin_spec_row FIN3 7 ''dev_scaled_half_even'' KDevScaled (Some HalfEven),
      fin_spec_row FIN3 8 ''scaled_div_floor'' KScaledDiv (Some Floor),
      fin_spec_row FIN3 9 ''scaled_div_ceil'' KScaledDiv (Some Ceil),
      fin_spec_row FIN3 10 ''scaled_div_half_up'' KScaledDiv (Some HalfUp),
      fin_spec_row FIN3 11 ''scaled_div_half_even'' KScaledDiv (Some HalfEven),
      fin_spec_row FIN3 12 ''mul_shr_floor'' KMulShr (Some Floor),
      fin_spec_row FIN3 13 ''mul_shr_ceil'' KMulShr (Some Ceil),
      fin_spec_row FIN3 14 ''scaled_add_floor'' KScaledAdd (Some Floor),
      fin_spec_row FIN3 15 ''scaled_add_ceil'' KScaledAdd (Some Ceil),
      fin_spec_row FIN3 16 ''scaled_sub_floor'' KScaledSub (Some Floor),
      fin_spec_row FIN3 17 ''scaled_sub_ceil'' KScaledSub (Some Ceil),
      fin_spec_row FIN3 18 ''mul_div_den_add_floor'' KMulDivDenAdd (Some Floor),
      fin_spec_row FIN3 19 ''mul_div_den_add_ceil'' KMulDivDenAdd (Some Ceil),
      fin_spec_row FIN3 20 ''mul_div_den_sub_floor'' KMulDivDenSub (Some Floor),
      fin_spec_row FIN3 21 ''mul_div_den_sub_ceil'' KMulDivDenSub (Some Ceil),
      fin_spec_row FIN4 0 ''mul_add_div_exact'' KMulAddDiv (Some Exact),
      fin_spec_row FIN4 1 ''mul_add_div_floor'' KMulAddDiv (Some Floor),
      fin_spec_row FIN4 2 ''mul_add_div_ceil'' KMulAddDiv (Some Ceil),
      fin_spec_row FIN4 3 ''mul_add_div_half_up'' KMulAddDiv (Some HalfUp),
      fin_spec_row FIN4 4 ''mul_add_div_half_even'' KMulAddDiv (Some HalfEven),
      fin_spec_row FIN4 5 ''mul_sub_div_exact'' KMulSubDiv (Some Exact),
      fin_spec_row FIN4 6 ''mul_sub_div_floor'' KMulSubDiv (Some Floor),
      fin_spec_row FIN4 7 ''mul_sub_div_ceil'' KMulSubDiv (Some Ceil),
      fin_spec_row FIN4 8 ''mul_sub_div_half_up'' KMulSubDiv (Some HalfUp),
      fin_spec_row FIN4 9 ''mul_sub_div_half_even'' KMulSubDiv (Some HalfEven),
      fin_spec_row FIN4 10 ''mul3_div_exact'' KMul3Div (Some Exact),
      fin_spec_row FIN4 11 ''mul3_div_floor'' KMul3Div (Some Floor),
      fin_spec_row FIN4 12 ''mul3_div_ceil'' KMul3Div (Some Ceil),
      fin_spec_row FIN4 13 ''mul3_div_half_up'' KMul3Div (Some HalfUp),
      fin_spec_row FIN4 14 ''mul3_div_half_even'' KMul3Div (Some HalfEven),
      fin_spec_row FIN4 15 ''wavg2_exact'' KWavg2 (Some Exact),
      fin_spec_row FIN4 16 ''wavg2_floor'' KWavg2 (Some Floor),
      fin_spec_row FIN4 17 ''wavg2_ceil'' KWavg2 (Some Ceil),
      fin_spec_row FIN4 18 ''wavg2_half_up'' KWavg2 (Some HalfUp),
      fin_spec_row FIN4 19 ''wavg2_half_even'' KWavg2 (Some HalfEven),
      fin_spec_row FIN4 20 ''lerp_exact'' KLerp (Some Exact),
      fin_spec_row FIN4 21 ''lerp_floor'' KLerp (Some Floor),
      fin_spec_row FIN4 22 ''lerp_ceil'' KLerp (Some Ceil),
      fin_spec_row FIN4 23 ''lerp_half_up'' KLerp (Some HalfUp),
      fin_spec_row FIN4 24 ''lerp_half_even'' KLerp (Some HalfEven),
      fin_spec_row FINP3 0 ''abs_diff_lte'' KAbsDiffLte None,
      fin_spec_row FINP4 0 ''within_bps'' KWithinBps None,
      fin_spec_row FINP4 1 ''cross_lte'' KCrossLte None,
      fin_spec_row FINP4 2 ''cross_gte'' KCrossGte None,
      fin_spec_row FINP4 3 ''cross_eq'' KCrossEq None,
      fin_spec_row FINPOW3 0 ''rpow_half_up'' KRPow (Some HalfUp)]"

definition round_or_exact :: "fin_spec \<Rightarrow> fin_round" where
  "round_or_exact s = (case fs_round s of None \<Rightarrow> Exact | Some r \<Rightarrow> r)"

definition is_fin_family :: "u8 \<Rightarrow> bool" where
  "is_fin_family f \<longleftrightarrow> f \<in> {FIN2, FIN3, FIN4, FINP3, FINP4, FINPOW3}"

definition fin_family_argc :: "u8 \<Rightarrow> nat vmrt" where
  "fin_family_argc f =
     (if f = FIN2 then Inr 2 else if f = FIN3 \<or> f = FINP3 \<or> f = FINPOW3 then Inr 3
      else if f = FIN4 \<or> f = FINP4 then Inr 4 else Inl InstParamsErr)"

definition fin_spec_lookup :: "u8 \<Rightarrow> u8 \<Rightarrow> fin_spec vmrt" where
  "fin_spec_lookup f i = okV InstParamsErr (List.find (\<lambda>s. fs_family s = f \<and> fs_id s = i) fin_specs)"

definition fin_source_call_spec :: "string \<Rightarrow> fin_spec option" where
  "fin_source_call_spec n = List.find (\<lambda>s. fs_name s = n) fin_specs"

definition verify_fin_runtime_supported :: "u8 \<Rightarrow> u8 \<Rightarrow> unit vmrt" where
  "verify_fin_runtime_supported f i = bindV (fin_spec_lookup f i) (\<lambda>_. Inr ())"

section \<open>Dispatch\<close>

definition fin2_checked :: "fin_spec \<Rightarrow> 'x val \<Rightarrow> 'x val \<Rightarrow> 'x val vmrt" where
  "fin2_checked spec x y =
     (let round = round_or_exact spec in
      case fs_kernel spec of
        KDiv \<Rightarrow> div_with_round_checked x y round
      | KSqrtMul \<Rightarrow> sqrtmul_with_round_checked x y round
      | KQuantize \<Rightarrow> quantize_with_round_checked x y round
      | KSatAdd \<Rightarrow> satadd_checked x y
      | KSatSub \<Rightarrow> satsub_checked x y
      | _ \<Rightarrow> Inl InstParamsErr)"

definition fin3_checked :: "fin_spec \<Rightarrow> 'x val \<Rightarrow> 'x val \<Rightarrow> 'x val \<Rightarrow> 'x val vmrt" where
  "fin3_checked spec x y z =
     (let round = round_or_exact spec in
      case fs_kernel spec of
        KMulDiv \<Rightarrow> muldiv_with_round_checked x y z round
      | KScaledDiv \<Rightarrow> muldiv_with_round_checked x y z round
      | KDevScaled \<Rightarrow> devscaled_with_round_checked x y z round
      | KScaledAdd \<Rightarrow> scaled_addsub_checked x y z True round
      | KScaledSub \<Rightarrow> scaled_addsub_checked x y z False round
      | KMulShr \<Rightarrow> if round = Floor then mul_shr_impl x y z False
          else if round = Ceil then mul_shr_impl x y z True else Inl InstParamsErr
      | KMulDivDenAdd \<Rightarrow> muldiv_den_addsub_checked x y z True round
      | KMulDivDenSub \<Rightarrow> muldiv_den_addsub_checked x y z False round
      | _ \<Rightarrow> Inl InstParamsErr)"

definition fin4_checked :: "fin_spec \<Rightarrow> 'x val \<Rightarrow> 'x val \<Rightarrow> 'x val \<Rightarrow> 'x val \<Rightarrow> 'x val vmrt" where
  "fin4_checked spec x y z w =
     (let round = round_or_exact spec in
      case fs_kernel spec of
        KMulAddDiv \<Rightarrow> muladddiv_checked x y z w round
      | KMulSubDiv \<Rightarrow> mulsubdiv_checked x y z w round
      | KMul3Div \<Rightarrow> mul3div_checked x y z w round
      | KWavg2 \<Rightarrow> wavg2_checked x y z w round
      | KLerp \<Rightarrow> lerp_checked x y z w round
      | _ \<Rightarrow> Inl InstParamsErr)"

definition finp3_checked :: "fin_spec \<Rightarrow> 'x val \<Rightarrow> 'x val \<Rightarrow> 'x val \<Rightarrow> 'x val vmrt" where
  "finp3_checked spec x y z =
     (case fs_kernel spec of
        KAbsDiffLte \<Rightarrow> bindV (extract_u128 x) (\<lambda>a. bindV (extract_u128 y) (\<lambda>b. bindV (extract_u128 z) (\<lambda>tol.
          Inr (VBool (absdiff a b \<le> tol)))))
      | _ \<Rightarrow> Inl InstParamsErr)"

definition finp4_checked :: "fin_spec \<Rightarrow> 'x val \<Rightarrow> 'x val \<Rightarrow> 'x val \<Rightarrow> 'x val \<Rightarrow> 'x val vmrt" where
  "finp4_checked spec x y z w =
     (case fs_kernel spec of
        KWithinBps \<Rightarrow> withinbps_checked x y z w
      | KCrossLte \<Rightarrow> crossmul_pred_checked x y z w KCrossLte
      | KCrossGte \<Rightarrow> crossmul_pred_checked x y z w KCrossGte
      | KCrossEq \<Rightarrow> crossmul_pred_checked x y z w KCrossEq
      | _ \<Rightarrow> Inl InstParamsErr)"

definition finpow3_checked :: "fin_spec \<Rightarrow> 'x val \<Rightarrow> 'x val \<Rightarrow> 'x val \<Rightarrow> 'x val vmrt" where
  "finpow3_checked spec x y z = (case fs_kernel spec of KRPow \<Rightarrow> rpow_checked x y z | _ \<Rightarrow> Inl InstParamsErr)"

text \<open>\<open>locop_arithmetic\<close>: an operation on two, three or four operands at their common width.\<close>

definition locop_arithmetic :: "('x val \<Rightarrow> 'x val \<Rightarrow> 'x val vmrt) \<Rightarrow> 'x val \<Rightarrow> 'x val \<Rightarrow> 'x val vmrt" where
  "locop_arithmetic f x y = bindV (arithmetic_args2 x y) (\<lambda>(x, y). f x y)"
definition locop_arithmetic3 :: "('x val \<Rightarrow> 'x val \<Rightarrow> 'x val \<Rightarrow> 'x val vmrt) \<Rightarrow> 'x val \<Rightarrow> 'x val \<Rightarrow> 'x val \<Rightarrow> 'x val vmrt" where
  "locop_arithmetic3 f x y z = bindV (arithmetic_args3 x y z) (\<lambda>(x, y, z). f x y z)"
definition locop_arithmetic4 :: "('x val \<Rightarrow> 'x val \<Rightarrow> 'x val \<Rightarrow> 'x val \<Rightarrow> 'x val vmrt) \<Rightarrow>
    'x val \<Rightarrow> 'x val \<Rightarrow> 'x val \<Rightarrow> 'x val \<Rightarrow> 'x val vmrt" where
  "locop_arithmetic4 f x y z w = bindV (arithmetic_args4 x y z w) (\<lambda>(x, y, z, w). f x y z w)"

text \<open>The arithmetic branches of the interpreter's \<open>match\<close>, by the number of operands.\<close>

definition binop_inst :: "u8 \<Rightarrow> ('x val \<Rightarrow> 'x val \<Rightarrow> 'x val vmrt) option" where
  "binop_inst b = map_of
     [(BSHR, bit_shr), (BSHL, bit_shl), (BXOR, bit_xor), (BOR, bit_or), (BAND, bit_and),
      (ADD, add_checked), (SUB, sub_checked), (MUL, mul_checked), (DIV, div_checked),
      (DIVUP, \<lambda>x y. div_with_round_checked x y Ceil), (DIVEXACT, \<lambda>x y. div_with_round_checked x y Exact),
      (MOD, mod_checked), (POW, pow_checked), (BC_MAX, max_checked), (BC_MIN, min_checked), (ABSDIFF, absdiff_checked)] b"

definition triop_inst :: "u8 \<Rightarrow> ('x val \<Rightarrow> 'x val \<Rightarrow> 'x val \<Rightarrow> 'x val vmrt) option" where
  "triop_inst b = map_of
     [(ADDMOD, addmod_checked), (MULMOD, mulmod_checked), (MULDIV, \<lambda>x y z. muldiv_with_round_checked x y z Floor),
      (MULDIVUP, \<lambda>x y z. muldiv_with_round_checked x y z Ceil), (MULADD, muladd_checked), (MULSUB, mulsub_checked),
      (CLAMP, clamp_checked)] b"

definition fin_exec :: "u8 \<Rightarrow> u8 \<Rightarrow> 'x val list \<Rightarrow> 'x val vmrt" where
  "fin_exec f i args =
     bindV (fin_spec_lookup f i) (\<lambda>spec.
       case args of
         [x, y] \<Rightarrow> if f = FIN2 then locop_arithmetic (fin2_checked spec) x y else Inl InstInvalid
       | [x, y, z] \<Rightarrow> if f = FIN3 then locop_arithmetic3 (fin3_checked spec) x y z
           else if f = FINP3 then locop_arithmetic3 (finp3_checked spec) x y z
           else if f = FINPOW3 then locop_arithmetic3 (finpow3_checked spec) x y z else Inl InstInvalid
       | [x, y, z, w] \<Rightarrow> if f = FIN4 then locop_arithmetic4 (fin4_checked spec) x y z w
           else if f = FINP4 then locop_arithmetic4 (finp4_checked spec) x y z w else Inl InstInvalid
       | _ \<Rightarrow> Inl InstInvalid)"

section \<open>The reference\<close>

datatype fin_out = FNum nat | FBool bool

definition on_quot :: "(nat \<Rightarrow> nat option) \<Rightarrow> nat option \<Rightarrow> fin_out option" where
  "on_quot f q = map_option FNum (Option.bind q f)"

text \<open>The least number whose square is not below the argument.\<close>

definition root_up :: "nat \<Rightarrow> nat" where
  "root_up n = (if nat_isqrt n * nat_isqrt n = n then nat_isqrt n else nat_isqrt n + 1)"

definition fin_ref2 :: "fin_kernel \<Rightarrow> fin_round \<Rightarrow> nat \<Rightarrow> nat \<Rightarrow> nat \<Rightarrow> fin_out option" where
  "fin_ref2 k r w a b =
     (case k of
        KDiv \<Rightarrow> (if b = 0 then None else on_quot Some (round_div 0 r a b))
      | KSqrtMul \<Rightarrow> Some (FNum (if r = Floor then nat_isqrt (a * b) else root_up (a * b)))
      | KQuantize \<Rightarrow> (if b = 0 then None else on_quot (\<lambda>q. Some (q * b)) (round_div 0 r a b))
      | KSatAdd \<Rightarrow> Some (FNum (min (a + b) (2 ^ w - 1)))
      | KSatSub \<Rightarrow> Some (FNum (a - b))
      | _ \<Rightarrow> None)"

definition fin_ref3 :: "fin_kernel \<Rightarrow> fin_round \<Rightarrow> nat \<Rightarrow> nat \<Rightarrow> nat \<Rightarrow> nat \<Rightarrow> fin_out option" where
  "fin_ref3 k r w a b c =
     (case k of
        KMulDiv \<Rightarrow> (if c = 0 then None else on_quot Some (round_div 0 r (a * b) c))
      | KScaledDiv \<Rightarrow> (if c = 0 then None else on_quot Some (round_div 0 r (a * b) c))
      | KDevScaled \<Rightarrow> (if b = 0 \<or> c = 0 then None else on_quot Some (round_div 0 r (absdiff a b * c) b))
      | KScaledAdd \<Rightarrow> (if c = 0 then None else on_quot (\<lambda>d. Some (a + d)) (round_div 0 r (a * b) c))
      | KScaledSub \<Rightarrow> (if c = 0 then None else on_quot (\<lambda>d. if d \<le> a then Some (a - d) else None) (round_div 0 r (a * b) c))
      | KMulShr \<Rightarrow> on_quot Some (round_div 0 r (a * b) (2 ^ c))
      | KMulDivDenAdd \<Rightarrow> (if c + b = 0 then None else on_quot Some (round_div 0 r (a * b) (c + b)))
      | KMulDivDenSub \<Rightarrow> (if c \<le> b then None else on_quot Some (round_div 0 r (a * b) (c - b)))
      | KAbsDiffLte \<Rightarrow> Some (FBool (absdiff a b \<le> c))
      | _ \<Rightarrow> None)"

definition fin_ref4 :: "fin_kernel \<Rightarrow> fin_round \<Rightarrow> nat \<Rightarrow> nat \<Rightarrow> nat \<Rightarrow> nat \<Rightarrow> nat \<Rightarrow> fin_out option" where
  "fin_ref4 k r w a b c d =
     (case k of
        KMulAddDiv \<Rightarrow> (if d = 0 then None else on_quot Some (round_div 0 r (a * b + c) d))
      | KMulSubDiv \<Rightarrow> (if d = 0 \<or> a * b < c then None else on_quot Some (round_div 0 r (a * b - c) d))
      | KMul3Div \<Rightarrow> (if d = 0 then None else on_quot Some (round_div 0 r (a * b * c) d))
      | KWavg2 \<Rightarrow> (if b + d = 0 then None else on_quot Some (round_div 0 r (a * b + c * d) (b + d)))
      | KLerp \<Rightarrow> (if d = 0 \<or> c > d then None else on_quot Some (round_div 0 r (a * (d - c) + b * c) d))
      | KWithinBps \<Rightarrow> (if b = 0 \<or> d = 0 \<or> c > d then None else Some (FBool (absdiff a b * d \<le> b * c)))
      | KCrossLte \<Rightarrow> Some (FBool (a * b \<le> c * d))
      | KCrossGte \<Rightarrow> Some (FBool (a * b \<ge> c * d))
      | KCrossEq \<Rightarrow> Some (FBool (a * b = c * d))
      | _ \<Rightarrow> None)"

fun fin_ref :: "fin_kernel \<Rightarrow> fin_round \<Rightarrow> nat \<Rightarrow> nat list \<Rightarrow> fin_out option" where
  "fin_ref k r w [a, b] = fin_ref2 k r w a b"
| "fin_ref k r w [a, b, c] = fin_ref3 k r w a b c"
| "fin_ref k r w [a, b, c, d] = fin_ref4 k r w a b c d"
| "fin_ref k r w _ = None"

text \<open>A result in a width: a number that does not fit is an error.\<close>

definition give :: "nat \<Rightarrow> fin_out option \<Rightarrow> 'x val vmrt" where
  "give w out = (case out of None \<Rightarrow> Inl Arithmetic | Some (FBool b) \<Rightarrow> Inr (VBool b)
     | Some (FNum q) \<Rightarrow> if q < 2 ^ w then Inr (uint_val w q) else Inl Arithmetic)"

end
