(* ===== verification/FinExact.thy ===== *)
theory FinExact
  imports VmFin
begin

text \<open>
  Each financial operation of the contract machine computes its reference: the \<open>u128\<close> limbs, the early exits and the
  \<open>checked_\<close> steps of the code lose nothing, and every refusal is one of the reference.
\<close>

section \<open>Wide operations on the halves of a number\<close>

lemma width_W128: "width w \<Longrightarrow> a < 2 ^ w \<Longrightarrow> a < W128"
  using width_le by (meson less_le_trans)

lemma halves: "n < W128 * W128 \<Longrightarrow> n div W128 < W128" "n mod W128 < W128" "n div W128 * W128 + n mod W128 = n"
  by (simp_all add: less_mult_imp_div_less)

lemma div_wide:
  "d < W128 \<Longrightarrow> div_u256_by_u128_with_round (n div W128) (n mod W128) d pol = (if d = 0 then None else fit (round_div 0 pol n d))"
  by (simp add: div_round_eq)

lemma div129_wide:
  assumes "n < W128 * W128" "d < 2 * W128"
  shows "div_u256_by_u129_with_round (n div W128) (n mod W128) (d div W128) (d mod W128) pol par =
    (if d = 0 then None else fit (round_div par pol n d))"
proof -
  have "d div W128 < 2" using assms(2) by (rule less_mult_imp_div_less)
  then have "d div W128 \<le> 1" by linarith
  then show ?thesis using div129_round_eq [OF halves(1) [OF assms(1)] halves(2) [of n], of "d div W128" "d mod W128" d n] by simp
qed

lemma add_wide: "n < W128 * W128 \<Longrightarrow> x < W128 \<Longrightarrow> add_u256_u128 (n div W128) (n mod W128) x =
    (if n + x < W128 * W128 then Some (split_256 (n + x)) else None)"
  by (simp add: add_u256_u128_eq halves)

lemma sub_wide: "n < W128 * W128 \<Longrightarrow> x < W128 \<Longrightarrow> sub_u256_u128 (n div W128) (n mod W128) x =
    (if x \<le> n then Some (split_256 (n - x)) else None)"
  by (simp add: sub_u256_u128_def sub_u256_eq halves)

lemma add_wide2: "m < W128 * W128 \<Longrightarrow> n < W128 * W128 \<Longrightarrow> add_u256 (m div W128) (m mod W128) (n div W128) (n mod W128) =
    (if m + n < W128 * W128 then Some (split_256 (m + n)) else None)"
  by (simp add: add_u256_eq halves Let_def)

lemma add_small: "a < W128 \<Longrightarrow> b < W128 \<Longrightarrow> add_u256_u128 0 a b = Some ((a + b) div W128, (a + b) mod W128)"
  using add_u256_u128_eq [of 0 a b] by (simp add: split_256_def) (simp add: W128_def)

lemma cmp_wide: "cmp_u256 (m div W128) (m mod W128) (n div W128) (n mod W128) = cmp_of m n"
  by (simp add: cmp_u256_eq)

lemma mul_wide3: "n < W128 * W128 \<Longrightarrow> x < W128 \<Longrightarrow> mul_u256_u128_to_u256_checked (n div W128) (n mod W128) x =
    (if n * x < W128 * W128 then Some (split_256 (n * x)) else None)"
  by (simp add: mul_u256_u128_eq halves Let_def)

lemma shr_wide: "n < W128 * W128 \<Longrightarrow> s < 256 \<Longrightarrow> shr_u256_to_u128 (n div W128) (n mod W128) s =
    (if n div 2 ^ s < W128 then Some (n div 2 ^ s, n mod 2 ^ s \<noteq> 0) else None)"
  using shr_eq [OF halves(1,2), of n s n] by simp

lemma isqrt_wide: "n < W128 * W128 \<Longrightarrow> isqrt_u256_floor (n div W128) (n mod W128) = nat_isqrt n"
  by (simp add: isqrt_u256_eq halves)

lemmas wide = mul_wide_u128_def Let_def split_256_def div_wide add_wide sub_wide add_wide2 cmp_wide mul_wide3 mul_lim

section \<open>Results\<close>

lemma cast_sample:
  assumes "width w" "q < W128"
  shows "cast_uint_like_sample (uint_val w a) q = (if q < 2 ^ w then Inr (uint_val w q) else Inl Arithmetic)"
  using assms by (auto simp: cast_uint_like_sample_def uint_val_def W128_def elim!: width_cases)

lemma cast_fit:
  assumes "width w"
  shows "bindV (okV Arithmetic (fit r)) (cast_uint_like_sample (uint_val w a)) = give w (map_option FNum r)"
  using width_le [OF assms] by (cases r) (auto simp: give_def cast_sample [OF assms])

lemma cast_fit_on: "width w \<Longrightarrow> bindV (okV Arithmetic (fit r)) (cast_uint_like_sample (uint_val w a)) = give w (on_quot Some r)"
  using cast_fit [of w r a] by (cases r) (simp_all add: on_quot_def)

lemma give_fit: "width w \<Longrightarrow> fit r = None \<Longrightarrow> give w (on_quot Some r) = Inl Arithmetic"
  using width_le [of w] by (cases r) (auto simp: give_def on_quot_def split: if_splits)

lemma okV_bind: "okV e (Option.bind r f) = bindV (okV e r) (\<lambda>x. okV e (f x))"
  by (cases r) simp_all

lemma give_None [simp]: "give w None = Inl Arithmetic" by (simp add: give_def)

lemma ahmtdo_eq:
  assumes "width w" "a < 2 ^ w" "b < 2 ^ w"
  shows "ahmtdo f (uint_val w a) (uint_val w b) = okV Arithmetic (map_option (uint_val w) (f w a b))"
  using assms by (cases "f w a b") (auto simp: uint_val_def unat_of_nat elim!: width_cases)

section \<open>Two operands\<close>

lemma div_exact:
  assumes "width w" "a < 2 ^ w" "b < 2 ^ w"
  shows "div_with_round_checked (uint_val w a) (uint_val w b) r = give w (fin_ref2 KDiv r w a b)"
proof -
  have lim: "a < W128" "b < W128" using assms width_W128 by blast+
  then have "a div b < W128" by (meson div_le_dividend le_less_trans)
  with lim assms show ?thesis
    by (simp add: div_with_round_checked_def fin_ref2_def require_nonzero_u128_def round_quot_eq cast_fit_on)
qed

lemma sqrtmul_exact:
  assumes "width w" "a < 2 ^ w" "b < 2 ^ w" "r = Floor \<or> r = Ceil"
  shows "sqrtmul_with_round_checked (uint_val w a) (uint_val w b) r = give w (fin_ref2 KSqrtMul r w a b)"
proof -
  define n where "n = a * b"
  have lim: "a < W128" "b < W128" using assms width_W128 by blast+
  then have n: "n < W128 * W128" unfolding n_def by (rule mul_lim)
  have s: "nat_isqrt n < W128" by (rule nat_isqrt_less [OF n])
  have "cmp_of (nat_isqrt n * nat_isqrt n) n = Equal \<longleftrightarrow> nat_isqrt n * nat_isqrt n = n" by (simp add: cmp_of_def)
  then show ?thesis
    using assms s cast_sample [OF assms(1) s] cast_fit [OF assms(1), of "Some (nat_isqrt n + 1)"]
    by (auto simp: sqrtmul_with_round_checked_def fin_ref2_def root_up_def n_def [symmetric] wide isqrt_wide [OF n]
        checked_inc give_def simp del: fit_simps One_nat_def)
qed

lemma quantize_exact:
  assumes "width w" "a < 2 ^ w" "b < 2 ^ w" "r = Floor \<or> r = Ceil"
  shows "quantize_with_round_checked (uint_val w a) (uint_val w b) r = give w (fin_ref2 KQuantize r w a b)"
proof (cases "b = 0")
  case False
  have lim: "a < W128" "b < W128" using assms width_W128 by blast+
  have q: "a div b * b < W128" using lim(1) by (meson div_times_less_eq_dividend le_less_trans)
  have mul: "checked_mul U128S k l = fit (Some (k * l))" for k l by (simp add: checked_mul_def W128_256)
  have up: "round_div 0 Ceil a b = Some (if a mod b = 0 then a div b else a div b + 1)"
    using False by (subst round_div_cases) (auto simp: Let_def)
  have b1: "a div b + 1 \<le> (a div b + 1) * b" using False by (cases b) simp_all
  have inc: "Option.bind (checked_add U128S (a div b) 1) (\<lambda>q. checked_mul U128S q b) = fit (Some ((a div b + 1) * b))"
  proof (cases "a div b + 1 < W128")
    case False
    then have "\<not> (a div b + 1) * b < W128" using b1 by linarith
    then show ?thesis using False unfolding checked_inc mul by simp
  qed (simp only: checked_inc mul fit_simps if_True Option.bind.simps)
  have ex: "a mod b = 0 \<Longrightarrow> a div b * b = a" by (metis add_0_right div_mult_mod_eq)
  have cast: "bindV (okV Arithmetic (fit (Some q))) (cast_uint_like_sample (uint_val w a)) = give w (Some (FNum q))" for q
    using cast_fit [OF assms(1), of "Some q" a] by simp
  show ?thesis
  proof (cases "r = Floor")
    case True
    show ?thesis unfolding True
      by (simp add: quantize_with_round_checked_def fin_ref2_def assms False require_nonzero_u128_def Let_def mul cast on_quot_def del: fit_simps)
  next
    case rc: False
    then have r: "r = Ceil" using assms(4) by simp
    show ?thesis unfolding r
      using cast_sample [OF assms(1) lim(1), of a] assms False ex
      by (auto simp: quantize_with_round_checked_def fin_ref2_def require_nonzero_u128_def Let_def inc cast on_quot_def up give_def
          simp del: fit_simps round_div.simps One_nat_def)
  qed
qed (use assms in \<open>simp add: quantize_with_round_checked_def fin_ref2_def require_nonzero_u128_def\<close>)

lemma sat_exact:
  assumes "width w" "a < 2 ^ w" "b < 2 ^ w"
  shows "satadd_checked (uint_val w a) (uint_val w b) = give w (fin_ref2 KSatAdd r w a b)"
    "satsub_checked (uint_val w a) (uint_val w b) = give w (fin_ref2 KSatSub r w a b)"
proof -
  have "min (a + b) (2 ^ w - 1) < 2 ^ w" by (simp add: min_less_iff_disj)
  moreover have "a - b < 2 ^ w" using assms(2) by simp
  ultimately show "satadd_checked (uint_val w a) (uint_val w b) = give w (fin_ref2 KSatAdd r w a b)"
    "satsub_checked (uint_val w a) (uint_val w b) = give w (fin_ref2 KSatSub r w a b)"
    using assms by (simp_all add: satadd_checked_def satsub_checked_def fin_ref2_def ahmtdo_eq give_def del: One_nat_def)
qed


section \<open>Three operands\<close>

lemma muldiv_exact:
  assumes "width w" "a < 2 ^ w" "b < 2 ^ w" "c < 2 ^ w"
  shows "muldiv_with_round_checked (uint_val w a) (uint_val w b) (uint_val w c) r = give w (fin_ref3 KMulDiv r w a b c)"
    "muldiv_with_round_checked (uint_val w a) (uint_val w b) (uint_val w c) r = give w (fin_ref3 KScaledDiv r w a b c)"
proof -
  have lim: "a < W128" "b < W128" "c < W128" using assms width_W128 by blast+
  show "muldiv_with_round_checked (uint_val w a) (uint_val w b) (uint_val w c) r = give w (fin_ref3 KMulDiv r w a b c)"
    using lim assms by (simp add: muldiv_with_round_checked_def fin_ref3_def require_nonzero_u128_def wide cast_fit_on)
  then show "muldiv_with_round_checked (uint_val w a) (uint_val w b) (uint_val w c) r = give w (fin_ref3 KScaledDiv r w a b c)"
    by (simp add: fin_ref3_def)
qed

lemma absdiff_less: "a < x \<Longrightarrow> b < x \<Longrightarrow> absdiff a b < x" by (simp add: absdiff_def less_imp_diff_less)

lemma devscaled_exact:
  assumes "width w" "a < 2 ^ w" "b < 2 ^ w" "c < 2 ^ w"
  shows "devscaled_with_round_checked (uint_val w a) (uint_val w b) (uint_val w c) r = give w (fin_ref3 KDevScaled r w a b c)"
proof -
  define n where "n = absdiff a b * c"
  have lim: "a < W128" "b < W128" "c < W128" using assms width_W128 by blast+
  have d: "div_u256_by_u128_to_u128 (n div W128) (n mod W128) b =
      (if b \<noteq> 0 \<and> n div b < W128 then Some (n div b, n mod b) else None)"
    using lim by (simp add: div_u128_eq Let_def)
  show ?thesis
  proof (cases "b = 0 \<or> c = 0")
    case False
    show ?thesis
    proof (cases "n div b < W128")
      case True
      with False lim assms show ?thesis
        by (simp add: devscaled_with_round_checked_def fin_ref3_def scaled_abs_diff_div_u128_def mul_wide_u128_def
            n_def [symmetric] Let_def d round_quot_eq cast_fit_on)
    next
      case big: False
      have "fit (round_div 0 r n b) = None" using fit_round_big [of b n 0 r] big False by simp
      with big False lim assms show ?thesis
        by (simp add: devscaled_with_round_checked_def fin_ref3_def scaled_abs_diff_div_u128_def mul_wide_u128_def
            n_def [symmetric] Let_def d give_fit)
    qed
  qed (use assms in \<open>auto simp: devscaled_with_round_checked_def fin_ref3_def scaled_abs_diff_div_u128_def\<close>)
qed

lemma give_big: "width w \<Longrightarrow> W128 \<le> q \<Longrightarrow> give w (Some (FNum q)) = Inl Arithmetic"
  using width_le [of w] by (auto simp: give_def)

lemma cast_add:
  assumes "width w" "a < 2 ^ w"
  shows "bindV (okV Arithmetic (fit q)) (\<lambda>d. bindV (okV Arithmetic (checked_add U128S a d)) (cast_uint_like_sample (uint_val w x)))
    = give w (on_quot (\<lambda>d. Some (a + d)) q)"
  using cast_fit [OF assms(1), of "Some (a + d)" x for d] give_big [OF assms(1)]
  by (cases q) (auto simp: on_quot_def checked_add_lim cast_sample [OF assms(1)] give_def dest: width_W128 [OF assms(1)])

lemma scaled_addsub_exact:
  assumes "width w" "a < 2 ^ w" "b < 2 ^ w" "c < 2 ^ w" "r = Floor \<or> r = Ceil"
  shows "scaled_addsub_checked (uint_val w a) (uint_val w b) (uint_val w c) True r = give w (fin_ref3 KScaledAdd r w a b c)"
    "scaled_addsub_checked (uint_val w a) (uint_val w b) (uint_val w c) False r = give w (fin_ref3 KScaledSub r w a b c)"
proof -
  have lim: "a < W128" "b < W128" "c < W128" using assms width_W128 by blast+
  have nz: "Inl Arithmetic = give w (None :: fin_out option)" by simp
  have sub: "bindV (okV Arithmetic (fit q)) (\<lambda>d. bindV (okV Arithmetic (checked_sub a d)) (cast_uint_like_sample (uint_val w a)))
      = give w (on_quot (\<lambda>d. if d \<le> a then Some (a - d) else None) q)" for q
    using lim(1) cast_sample [OF assms(1), of "a - d" a for d]
    by (cases q) (auto simp: on_quot_def checked_sub_def cast_sample [OF assms(1)] give_def)
  show "scaled_addsub_checked (uint_val w a) (uint_val w b) (uint_val w c) True r = give w (fin_ref3 KScaledAdd r w a b c)"
    using lim assms by (auto simp: scaled_addsub_checked_def fin_ref3_def require_nonzero_u128_def wide cast_add)
  show "scaled_addsub_checked (uint_val w a) (uint_val w b) (uint_val w c) False r = give w (fin_ref3 KScaledSub r w a b c)"
    using lim assms by (auto simp: scaled_addsub_checked_def fin_ref3_def require_nonzero_u128_def wide sub)
qed

lemma den_exact:
  assumes "width w" "a < 2 ^ w" "b < 2 ^ w" "c < 2 ^ w" "r = Floor \<or> r = Ceil"
  shows "muldiv_den_addsub_checked (uint_val w a) (uint_val w b) (uint_val w c) True r = give w (fin_ref3 KMulDivDenAdd r w a b c)"
    "muldiv_den_addsub_checked (uint_val w a) (uint_val w b) (uint_val w c) False r = give w (fin_ref3 KMulDivDenSub r w a b c)"
proof -
  have lim: "a < W128" "b < W128" "c < W128" using assms width_W128 by blast+
  have s: "c + b < 2 * W128" using lim by linarith
  show "muldiv_den_addsub_checked (uint_val w a) (uint_val w b) (uint_val w c) True r = give w (fin_ref3 KMulDivDenAdd r w a b c)"
    using lim assms div129_wide [OF mul_lim [OF lim(1,2)] s]
    by (auto simp: muldiv_den_addsub_checked_def fin_ref3_def add_small mul_wide_u128_def Let_def cast_fit_on)
  show "muldiv_den_addsub_checked (uint_val w a) (uint_val w b) (uint_val w c) False r = give w (fin_ref3 KMulDivDenSub r w a b c)"
    using lim assms
    by (auto simp: muldiv_den_addsub_checked_def fin_ref3_def require_nonzero_u128_def checked_sub_def wide cast_fit_on)
qed

lemma W128_gt1: "1 < W128" by (simp add: W128_def)

lemma W128_sq: "W128 * W128 = 2 ^ 256" by (simp only: W128_def power_add [symmetric]) simp

lemma mul_shr_exact:
  assumes "width w" "a < 2 ^ w" "b < 2 ^ w" "c < 2 ^ w"
  shows "mul_shr_impl (uint_val w a) (uint_val w b) (uint_val w c) False = give w (fin_ref3 KMulShr Floor w a b c)"
    "mul_shr_impl (uint_val w a) (uint_val w b) (uint_val w c) True = give w (fin_ref3 KMulShr Ceil w a b c)"
proof -
  define n where "n = a * b"
  have lim: "a < W128" "b < W128" using assms width_W128 by blast+
  then have n: "n < W128 * W128" unfolding n_def by (rule mul_lim)
  have z: "n div W128 \<noteq> 0 \<or> n mod W128 \<noteq> 0 \<longleftrightarrow> n \<noteq> 0" by (metis div_0 mod_0 add_0 div_mult_mod_eq mult_0)
  have ref: "round_div 0 Floor n (2 ^ c) = Some (n div 2 ^ c)"
    "round_div 0 Ceil n (2 ^ c) = Some (if n mod 2 ^ c = 0 then n div 2 ^ c else n div 2 ^ c + 1)"
    using round_div_cases [of "2 ^ c" 0 _ n] by (simp_all only: Let_def fin_round.case zero_less_power zero_less_numeral)
  have body: "mul_shr_impl (uint_val w a) (uint_val w b) (uint_val w c) up =
      bindV (okV Arithmetic (fit (Some (if up \<and> n mod 2 ^ c \<noteq> 0 then n div 2 ^ c + 1 else n div 2 ^ c)))) (cast_uint_like_sample (uint_val w a))"
    for up
  proof (cases "c \<ge> 256")
    case True
    then have "n < 2 ^ c" using n power_increasing [of 256 c "2 :: nat"] unfolding W128_sq by linarith
    then have "n div 2 ^ c = 0" "n mod 2 ^ c = n" by simp_all
    with True z assms show ?thesis
      using W128_gt1 by (auto simp: mul_shr_impl_def mul_wide_u128_def n_def [symmetric] Let_def simp del: One_nat_def)
  next
    case False
    then have "c < 256" by simp
    note sh = shr_wide [OF n this]
    have m: "\<not> n div 2 ^ c < W128 \<Longrightarrow> \<not> n div 2 ^ c + 1 < W128" by simp
    show ?thesis
      using False assms m
      by (cases "n div 2 ^ c < W128")
        (auto simp: mul_shr_impl_def mul_wide_u128_def n_def [symmetric] Let_def sh checked_inc simp del: One_nat_def)
  qed
  show "mul_shr_impl (uint_val w a) (uint_val w b) (uint_val w c) False = give w (fin_ref3 KMulShr Floor w a b c)"
    unfolding body fin_ref3_def n_def [symmetric] fin_kernel.case ref by (simp add: cast_fit_on [OF assms(1)] del: fit_simps)
  show "mul_shr_impl (uint_val w a) (uint_val w b) (uint_val w c) True = give w (fin_ref3 KMulShr Ceil w a b c)"
    unfolding body fin_ref3_def n_def [symmetric] fin_kernel.case ref by (simp add: cast_fit_on [OF assms(1)] del: fit_simps)
qed

lemma finp3_exact:
  assumes "width w" "a < 2 ^ w" "b < 2 ^ w" "c < 2 ^ w" "fs_kernel s = KAbsDiffLte"
  shows "finp3_checked s (uint_val w a) (uint_val w b) (uint_val w c) = give w (fin_ref3 KAbsDiffLte r w a b c)"
  using assms by (simp add: finp3_checked_def fin_ref3_def give_def)

section \<open>Four operands\<close>

lemma addsub_wide:
  assumes "a < W128" "b < W128" "c < W128"
  shows "mul_xy_addsub_z a b c True = Inr ((a * b + c) div W128, (a * b + c) mod W128)"
    "mul_xy_addsub_z a b c False = (if a * b < c then Inl Arithmetic else Inr ((a * b - c) div W128, (a * b - c) mod W128))"
proof -
  have "a * b \<le> (W128 - 1) * (W128 - 1)" using assms by (intro mult_le_mono) linarith+
  then have "a * b + c < W128 * W128" using assms(3) by (simp add: W128_def)
  then show "mul_xy_addsub_z a b c True = Inr ((a * b + c) div W128, (a * b + c) mod W128)"
    using assms by (simp add: mul_xy_addsub_z_def wide)
  show "mul_xy_addsub_z a b c False = (if a * b < c then Inl Arithmetic else Inr ((a * b - c) div W128, (a * b - c) mod W128))"
    using assms by (auto simp: mul_xy_addsub_z_def wide)
qed

lemma addsub_fit:
  assumes "a < W128" "b < W128" "c < W128"
  shows "mul_xy_addsub_z_fit_u128 a b c True = okV Arithmetic (fit (Some (a * b + c)))"
    "mul_xy_addsub_z_fit_u128 a b c False = okV Arithmetic (fit (if a * b < c then None else Some (a * b - c)))"
  using addsub_wide [OF assms] by (auto simp: mul_xy_addsub_z_fit_u128_def div_eq_0_iff)

lemma muladddiv_exact:
  assumes "width w" "a < 2 ^ w" "b < 2 ^ w" "c < 2 ^ w" "d < 2 ^ w"
  shows "muladddiv_checked (uint_val w a) (uint_val w b) (uint_val w c) (uint_val w d) r = give w (fin_ref4 KMulAddDiv r w a b c d)"
    "mulsubdiv_checked (uint_val w a) (uint_val w b) (uint_val w c) (uint_val w d) r = give w (fin_ref4 KMulSubDiv r w a b c d)"
proof -
  have lim: "a < W128" "b < W128" "c < W128" "d < W128" using assms width_W128 by blast+
  show "muladddiv_checked (uint_val w a) (uint_val w b) (uint_val w c) (uint_val w d) r = give w (fin_ref4 KMulAddDiv r w a b c d)"
    "mulsubdiv_checked (uint_val w a) (uint_val w b) (uint_val w c) (uint_val w d) r = give w (fin_ref4 KMulSubDiv r w a b c d)"
    using assms lim
    by (auto simp: muladddiv_checked_def mulsubdiv_checked_def fin_ref4_def require_nonzero_u128_def
        mul_xy_addsub_z_div_u128_def addsub_wide div_wide cast_fit_on)
qed

lemma mul3div_exact:
  assumes "width w" "a < 2 ^ w" "b < 2 ^ w" "c < 2 ^ w" "d < 2 ^ w"
  shows "mul3div_checked (uint_val w a) (uint_val w b) (uint_val w c) (uint_val w d) r = give w (fin_ref4 KMul3Div r w a b c d)"
proof -
  have lim: "a < W128" "b < W128" "c < W128" "d < W128" using assms width_W128 by blast+
  show ?thesis
  proof (cases "d = 0 \<or> a * b * c < W128 * W128")
    case True
    with assms lim show ?thesis
      by (auto simp: mul3div_checked_def fin_ref4_def require_nonzero_u128_def wide cast_fit_on)
  next
    case False
    then have "W128 * d \<le> a * b * c" using lim(4) by (meson less_imp_le mult_le_mono2 le_trans not_less)
    then have "\<not> a * b * c div d < W128" using False by (simp add: div_less_iff_less_mult)
    then have "fit (round_div 0 r (a * b * c) d) = None" using fit_round_big [of d "a * b * c" 0 r] False by simp
    with False assms lim show ?thesis
      by (simp add: mul3div_checked_def fin_ref4_def require_nonzero_u128_def wide give_fit)
  qed
qed

lemma lerp_exact:
  assumes "width w" "a < 2 ^ w" "b < 2 ^ w" "c < 2 ^ w" "d < 2 ^ w"
  shows "lerp_checked (uint_val w a) (uint_val w b) (uint_val w c) (uint_val w d) r = give w (fin_ref4 KLerp r w a b c d)"
proof (cases "d = 0 \<or> c > d")
  case False
  have lim: "a < W128" "b < W128" "c < W128" "d < W128" using assms width_W128 by blast+
  have "a * (d - c) + b * c \<le> (W128 - 1) * (d - c) + (W128 - 1) * c" using lim by (intro add_mono mult_le_mono1) linarith+
  also have "\<dots> = (W128 - 1) * d" using False by (simp add: distrib_left [symmetric])
  also have "\<dots> < W128 * W128" using lim(4) by (intro le_less_trans [OF mult_le_mono1 [of "W128 - 1" W128]]) simp_all
  finally have s: "a * (d - c) + b * c < W128 * W128" .
  have dc: "d - c < W128" using lim(4) by simp
  from False assms lim s dc show ?thesis
    by (auto simp: lerp_checked_def fin_ref4_def wide cast_fit_on)
qed (use assms in \<open>auto simp: lerp_checked_def fin_ref4_def\<close>)

lemma predicates_exact:
  assumes "width w" "a < 2 ^ w" "b < 2 ^ w" "c < 2 ^ w" "d < 2 ^ w"
  shows "withinbps_checked (uint_val w a) (uint_val w b) (uint_val w c) (uint_val w d) = give w (fin_ref4 KWithinBps r w a b c d)"
    "k \<in> {KCrossLte, KCrossGte, KCrossEq} \<Longrightarrow>
      crossmul_pred_checked (uint_val w a) (uint_val w b) (uint_val w c) (uint_val w d) k = give w (fin_ref4 k r w a b c d)"
proof -
  have cmp: "cmp_u256 h l h' l' = cmp_of (p * q) (x * y)" if "mul_wide_u128 p q = (h, l)" "mul_wide_u128 x y = (h', l')"
    for p q x y h l h' l' using that by (auto simp: mul_wide_u128_def cmp_u256_eq)
  obtain h l h' l' where m: "mul_wide_u128 (absdiff a b) d = (h, l)" "mul_wide_u128 b c = (h', l')" by fastforce
  show "withinbps_checked (uint_val w a) (uint_val w b) (uint_val w c) (uint_val w d) = give w (fin_ref4 KWithinBps r w a b c d)"
    using assms cmp [OF m] by (simp add: withinbps_checked_def fin_ref4_def give_def Let_def m cmp_of_def)
  obtain h l h' l' where m: "mul_wide_u128 a b = (h, l)" "mul_wide_u128 c d = (h', l')" by fastforce
  show "crossmul_pred_checked (uint_val w a) (uint_val w b) (uint_val w c) (uint_val w d) k = give w (fin_ref4 k r w a b c d)"
    if "k \<in> {KCrossLte, KCrossGte, KCrossEq}"
    using assms that cmp [OF m]
    by (elim insertE emptyE; simp add: crossmul_pred_checked_def fin_ref4_def give_def Let_def m cmp_of_def not_less)
qed

lemma round_div_shift:
  assumes "0 < den"
  shows "round_div 0 r (base * den + n) den = Option.bind (round_div base r n den) (\<lambda>q. Some (base + q))"
  using assms by (cases r) (simp_all add: round_div_cases Let_def ac_simps del: round_div.simps)

lemma wavg2_exact:
  assumes "width w" "a < 2 ^ w" "b < 2 ^ w" "c < 2 ^ w" "d < 2 ^ w"
  shows "wavg2_checked (uint_val w a) (uint_val w b) (uint_val w c) (uint_val w d) r = give w (fin_ref4 KWavg2 r w a b c d)"
proof -
  have lim: "a < W128" "b < W128" "c < W128" "d < W128" using assms width_W128 by blast+
  define base diff wt where "base = min a c" and "diff = absdiff a c" and "wt = (if a < c then d else b)"
  have den: "b + d < 2 * W128" using lim by linarith
  have n: "diff * wt < W128 * W128" using lim by (intro mul_lim) (auto simp: diff_def wt_def absdiff_less)
  have split: "a * b + c * d = base * (b + d) + diff * wt"
  proof (cases "a < c")
    case True
    then obtain k where "c = a + k" by (metis less_imp_add_positive)
    with True show ?thesis by (simp add: base_def diff_def wt_def absdiff_def algebra_simps)
  next
    case False
    then obtain k where "a = c + k" by (metis le_Suc_ex not_less)
    with False show ?thesis by (simp add: base_def diff_def wt_def absdiff_def algebra_simps)
  qed
  have z: "(b + d) div W128 = 0 \<and> (b + d) mod W128 = 0 \<longleftrightarrow> b + d = 0" by (metis add_0 div_0 div_mult_mod_eq mod_0 mult_0)
  have base: "base < 2 ^ w" using assms by (simp add: base_def)
  have eq: "round_div 0 r (a * b + c * d) (b + d) = Some a" if "a = c" "b + d \<noteq> 0"
  proof -
    have "a * b + c * d = a * (b + d)" using that(1) by (simp add: distrib_left)
    then show ?thesis using that(2) by (cases r) (auto simp: round_div_cases Let_def simp del: round_div.simps)
  qed
  have body: "wavg2_checked (uint_val w a) (uint_val w b) (uint_val w c) (uint_val w d) r =
      (if b + d = 0 then Inl Arithmetic else if a = c then cast_uint_like_sample (uint_val w a) a
       else bindV (okV Arithmetic (fit (round_div base r (diff * wt) (b + d))))
         (\<lambda>part. bindV (okV Arithmetic (checked_add U128S base part)) (cast_uint_like_sample (uint_val w a))))"
    using assms lim z div129_wide [OF n den, of r base]
    by (auto simp: wavg2_checked_def add_small mul_wide_u128_def Let_def base_def diff_def wt_def absdiff_def min_def)
  have res: "on_quot (\<lambda>x. Some (base + x)) q = on_quot Some (Option.bind q (\<lambda>x. Some (base + x)))" for q
    by (simp add: on_quot_def)
  consider "b + d = 0" | "b + d \<noteq> 0" "a = c" | "b + d \<noteq> 0" "a \<noteq> c" by blast
  then show ?thesis
  proof cases
    case 2
    then show ?thesis unfolding body fin_ref4_def fin_kernel.case eq [OF 2(2,1)]
      using assms(4) by (auto simp: cast_sample [OF assms(1) lim(3)] on_quot_def give_def)
  next
    case 3
    have "round_div 0 r (a * b + c * d) (b + d) = Option.bind (round_div base r (diff * wt) (b + d)) (\<lambda>q. Some (base + q))"
      unfolding split by (rule round_div_shift) (use 3 in simp)
    then show ?thesis unfolding body fin_ref4_def fin_kernel.case cast_add [OF assms(1) base] res using 3 by auto
  next
    case 1
    then show ?thesis unfolding body by (simp add: fin_ref4_def)
  qed
qed

section \<open>Every operation of the registry\<close>

definition kernel_family :: "fin_kernel \<Rightarrow> u8" where
  "kernel_family k =
     (if k \<in> {KDiv, KSqrtMul, KQuantize, KSatAdd, KSatSub} then FIN2
      else if k \<in> {KMulDiv, KScaledDiv, KDevScaled, KScaledAdd, KScaledSub, KMulShr, KMulDivDenAdd, KMulDivDenSub} then FIN3
      else if k \<in> {KMulAddDiv, KMulSubDiv, KMul3Div, KWavg2, KLerp} then FIN4
      else if k = KAbsDiffLte then FINP3 else if k = KRPow then FINPOW3 else FINP4)"

definition fin_shape :: "fin_spec \<Rightarrow> bool" where
  "fin_shape s \<longleftrightarrow> fs_family s = kernel_family (fs_kernel s) \<and>
     (fs_kernel s \<in> {KSqrtMul, KQuantize, KScaledAdd, KScaledSub, KMulShr, KMulDivDenAdd, KMulDivDenSub} \<longrightarrow>
      round_or_exact s \<in> {Floor, Ceil})"

text \<open>The rows come by descending family and ascending number, so that no two have the same key.\<close>

definition fin_key :: "fin_spec \<Rightarrow> nat" where "fin_key s = (256 - unat (fs_family s)) * 256 + unat (fs_id s)"

lemma fin_table: "list_all fin_shape fin_specs"
  by (simp add: fin_specs_def fin_spec_row_def fin_shape_def kernel_family_def round_or_exact_def)

lemma fin_keys: "successively (<) (map fin_key fin_specs)"
  by (simp add: fin_specs_def fin_spec_row_def fin_key_def)

lemma find_unique: "distinct (map k xs) \<Longrightarrow> x \<in> set xs \<Longrightarrow> P x \<Longrightarrow> (\<And>y. P y \<Longrightarrow> k y = k x) \<Longrightarrow> List.find P xs = Some x"
proof (induction xs)
  case (Cons y ys)
  show ?case
  proof (cases "P y")
    case True
    then have "k y = k x" by (rule Cons.prems(4))
    then have "x \<notin> set ys" using Cons.prems(1) by (metis distinct.simps(2) image_eqI list.simps(9) set_map)
    then show ?thesis using True Cons.prems(2) by simp
  next
    case False
    then have "x \<in> set ys" using Cons.prems(2,3) by auto
    then have "List.find P ys = Some x" by (rule Cons.IH [rotated]) (use Cons.prems(1,3) in simp_all, erule Cons.prems(4))
    then show ?thesis using False by simp
  qed
qed simp

lemma fin_entry:
  assumes "s \<in> set fin_specs"
  shows "fin_shape s \<and> fin_spec_lookup (fs_family s) (fs_id s) = Inr s"
proof -
  have "sorted_wrt (<) (map fin_key fin_specs)" using fin_keys by (simp add: successively_conv_sorted_wrt)
  then have "distinct (map fin_key fin_specs)" by (simp add: strict_sorted_iff)
  then have "List.find (\<lambda>t. fs_family t = fs_family s \<and> fs_id t = fs_id s) fin_specs = Some s"
    by (rule find_unique) (use assms in \<open>simp_all add: fin_key_def\<close>)
  then show ?thesis using fin_table assms by (simp add: fin_spec_lookup_def list_all_iff)
qed

lemma fin2_exact:
  assumes "fin_shape s" "fs_family s = FIN2" "width w" "a < 2 ^ w" "b < 2 ^ w"
  shows "fin2_checked s (uint_val w a) (uint_val w b) = give w (fin_ref2 (fs_kernel s) (round_or_exact s) w a b)"
  using assms(1,2)
  by (cases "fs_kernel s") (auto simp: fin_shape_def kernel_family_def fin2_checked_def Let_def
      div_exact [OF assms(3-5)] sqrtmul_exact [OF assms(3-5)] quantize_exact [OF assms(3-5)] sat_exact [OF assms(3-5)])

lemma fin_ref3_scaled: "fin_ref3 KScaledDiv = fin_ref3 KMulDiv" by (simp add: fin_ref3_def fun_eq_iff)

lemma fin3_exact:
  assumes "fin_shape s" "fs_family s = FIN3" "width w" "a < 2 ^ w" "b < 2 ^ w" "c < 2 ^ w"
  shows "fin3_checked s (uint_val w a) (uint_val w b) (uint_val w c) = give w (fin_ref3 (fs_kernel s) (round_or_exact s) w a b c)"
  using assms(1,2)
  by (cases "fs_kernel s") (auto simp: fin_shape_def kernel_family_def fin3_checked_def Let_def
      muldiv_exact(1) [OF assms(3-6)] fin_ref3_scaled devscaled_exact [OF assms(3-6)] scaled_addsub_exact [OF assms(3-6)]
      den_exact [OF assms(3-6)] mul_shr_exact [OF assms(3-6)])

lemma fin4_exact:
  assumes "fin_shape s" "fs_family s = FIN4" "width w" "a < 2 ^ w" "b < 2 ^ w" "c < 2 ^ w" "d < 2 ^ w"
  shows "fin4_checked s (uint_val w a) (uint_val w b) (uint_val w c) (uint_val w d) =
    give w (fin_ref4 (fs_kernel s) (round_or_exact s) w a b c d)"
  using assms(1,2)
  by (cases "fs_kernel s") (auto simp: fin_shape_def kernel_family_def fin4_checked_def Let_def
      muladddiv_exact [OF assms(3-7)] mul3div_exact [OF assms(3-7)] wavg2_exact [OF assms(3-7)] lerp_exact [OF assms(3-7)])

lemma finp4_exact:
  assumes "fin_shape s" "fs_family s = FINP4" "width w" "a < 2 ^ w" "b < 2 ^ w" "c < 2 ^ w" "d < 2 ^ w"
  shows "finp4_checked s (uint_val w a) (uint_val w b) (uint_val w c) (uint_val w d) =
    give w (fin_ref4 (fs_kernel s) (round_or_exact s) w a b c d)"
  using assms(1,2)
  by (cases "fs_kernel s") (auto simp: fin_shape_def kernel_family_def finp4_checked_def
      predicates_exact [OF assms(3-7)])

lemma family_cases:
  assumes "fin_shape s" "fs_kernel s \<noteq> KRPow"
  shows "fs_family s = FIN2 \<or> fs_family s = FIN3 \<or> fs_family s = FIN4 \<or> fs_family s = FINP3 \<and> fs_kernel s = KAbsDiffLte \<or> fs_family s = FINP4"
  using assms by (cases "fs_kernel s") (simp_all add: fin_shape_def kernel_family_def)

text \<open>Operands at their common width.\<close>

lemma uint_ex: "is_uint v \<Longrightarrow> \<exists>m a. width m \<and> a < 2 ^ m \<and> v = uint_val m a"
  using is_uint_iff by metis

lemma less_exp_mono: "k < 2 ^ m \<Longrightarrow> m \<le> n \<Longrightarrow> k < (2 :: nat) ^ n"
  by (rule less_le_trans [OF _ power_increasing]) simp_all

lemma common_width2:
  fixes x y :: "'x val"
  assumes "\<forall>v \<in> set [x, y]. is_uint v"
  obtains w a b where "width w" "a < 2 ^ w" "b < 2 ^ w" "Max (bits ` set [x, y]) = w" "map num [x, y] = [a, b]"
    "arithmetic_args2 x y = Inr (uint_val w a, uint_val w b)"
proof -
  obtain i a where x: "width i" "a < 2 ^ i" "x = uint_val i a" using assms uint_ex [of x] by auto
  obtain j b where y: "width j" "b < 2 ^ j" "y = uint_val j b" using assms uint_ex [of y] by auto
  show thesis
    by (rule that [of "max i j" a b])
      (use x y arithmetic_args_eq(1) [OF x(1,2) y(1,2), where 'a = 'x] in \<open>auto simp: uint_val_simps width_max intro: less_exp_mono\<close>)
qed

lemma common_width3:
  fixes x y z :: "'x val"
  assumes "\<forall>v \<in> set [x, y, z]. is_uint v"
  obtains w a b c where "width w" "a < 2 ^ w" "b < 2 ^ w" "c < 2 ^ w" "Max (bits ` set [x, y, z]) = w"
    "map num [x, y, z] = [a, b, c]" "arithmetic_args3 x y z = Inr (uint_val w a, uint_val w b, uint_val w c)"
proof -
  obtain i a where x: "width i" "a < 2 ^ i" "x = uint_val i a" using assms uint_ex [of x] by auto
  obtain j b where y: "width j" "b < 2 ^ j" "y = uint_val j b" using assms uint_ex [of y] by auto
  obtain k c where z: "width k" "c < 2 ^ k" "z = uint_val k c" using assms uint_ex [of z] by auto
  show thesis
    by (rule that [of "max (max i j) k" a b c])
      (use x y z in \<open>auto simp: arithmetic_args_eq(2) [OF x(1,2) y(1,2) z(1,2)] uint_val_simps width_max Let_def max.assoc intro: less_exp_mono\<close>)
qed

lemma common_width4:
  fixes x y z v :: "'x val"
  assumes "\<forall>v \<in> set [x, y, z, v]. is_uint v"
  obtains w a b c d where "width w" "a < 2 ^ w" "b < 2 ^ w" "c < 2 ^ w" "d < 2 ^ w" "Max (bits ` set [x, y, z, v]) = w"
    "map num [x, y, z, v] = [a, b, c, d]"
    "arithmetic_args4 x y z v = Inr (uint_val w a, uint_val w b, uint_val w c, uint_val w d)"
proof -
  obtain i a where x: "width i" "a < 2 ^ i" "x = uint_val i a" using assms uint_ex [of x] by auto
  obtain j b where y: "width j" "b < 2 ^ j" "y = uint_val j b" using assms uint_ex [of y] by auto
  obtain k c where z: "width k" "c < 2 ^ k" "z = uint_val k c" using assms uint_ex [of z] by auto
  obtain l d where v: "width l" "d < 2 ^ l" "v = uint_val l d" using assms uint_ex [of v] by auto
  show thesis
    by (rule that [of "max (max (max i j) k) l" a b c d])
      (use x y z v in \<open>auto simp: arithmetic_args_eq(3) [OF x(1,2) y(1,2) z(1,2) v(1,2)] uint_val_simps width_max Let_def max.assoc intro: less_exp_mono\<close>)
qed

text \<open>C31: Every financial operation of the registry (the fixed-point power apart) computes its reference: the rational
  number of its kernel on the operands as unbounded integers, rounded once by its policy, in the widest operand
  width; it fails, with an arithmetic error, exactly where the reference has no value or the value does not fit.\<close>

theorem fin_ops_exact:
  fixes args :: "'x val list"
  assumes "spec \<in> set fin_specs" "fs_kernel spec \<noteq> KRPow" "fin_family_argc (fs_family spec) = Inr (length args)"
    "\<forall>v \<in> set args. is_uint v"
  defines "w \<equiv> Max (bits ` set args)"
  shows "fin_exec (fs_family spec) (fs_id spec) args =
    give w (fin_ref (fs_kernel spec) (round_or_exact spec) w (map num args))"
proof -
  have e: "fin_shape spec" "fin_spec_lookup (fs_family spec) (fs_id spec) = Inr spec" using fin_entry [OF assms(1)] by blast+
  have "length args = 2 \<and> fs_family spec = FIN2 \<or> length args = 3 \<and> fs_family spec = FIN3 \<or> length args = 4 \<and> fs_family spec = FIN4 \<or>
      length args = 3 \<and> fs_family spec = FINP3 \<and> fs_kernel spec = KAbsDiffLte \<or> length args = 4 \<and> fs_family spec = FINP4"
    using family_cases [of spec] e assms(2,3) by (auto simp: fin_family_argc_def)
  then consider x y where "args = [x, y]" "fs_family spec = FIN2"
    | x y z where "args = [x, y, z]" "fs_family spec = FIN3 \<or> fs_family spec = FINP3 \<and> fs_kernel spec = KAbsDiffLte"
    | x y z v where "args = [x, y, z, v]" "fs_family spec = FIN4 \<or> fs_family spec = FINP4"
    by (auto simp: numeral_eq_Suc length_Suc_conv)
  then show ?thesis
  proof cases
    case 1
    obtain i a b where n: "width i" "a < 2 ^ i" "b < 2 ^ i" "w = i" "map num args = [a, b]"
      "arithmetic_args2 x y = Inr (uint_val i a, uint_val i b)" 
      by (rule common_width2 [OF assms(4) [unfolded 1(1)]]) (simp_all only: w_def 1(1) list.map list.set)
    show ?thesis unfolding n(4,5) fin_exec_def e(2) using 1
      by (simp add: locop_arithmetic_def n(6) fin2_exact [OF e(1) _ n(1-3)])
  next
    case 2
    obtain i a b c where n: "width i" "a < 2 ^ i" "b < 2 ^ i" "c < 2 ^ i" "w = i" "map num args = [a, b, c]"
      "arithmetic_args3 x y z = Inr (uint_val i a, uint_val i b, uint_val i c)"
      by (rule common_width3 [OF assms(4) [unfolded 2(1)]]) (simp_all only: w_def 2(1) list.map list.set)
    show ?thesis unfolding n(5,6) fin_exec_def e(2) using 2
      by (elim disjE conjE) (simp_all add: locop_arithmetic3_def n(7) fin3_exact [OF e(1) _ n(1-4)] finp3_exact [OF n(1-4)])
  next
    case 3
    obtain i a b c d where n: "width i" "a < 2 ^ i" "b < 2 ^ i" "c < 2 ^ i" "d < 2 ^ i" "w = i" "map num args = [a, b, c, d]"
      "arithmetic_args4 x y z v = Inr (uint_val i a, uint_val i b, uint_val i c, uint_val i d)"
      by (rule common_width4 [OF assms(4) [unfolded 3(1)]]) (simp_all only: w_def 3(1) list.map list.set)
    show ?thesis unfolding n(6,7)
      unfolding fin_exec_def e(2) bindV_simps 3(1) list.case locop_arithmetic4_def n(8) prod.case fin_ref.simps
      using 3(2) fin4_exact [OF e(1) _ n(1-5)] finp4_exact [OF e(1) _ n(1-5)] by auto
  qed
qed

lemma fin_ops_exact_witness:
  "fin_exec FIN4 19 [VU8 7, VU8 1, VU16 9, VU8 3] = (Inr (VU16 8) :: nat val vmrt) \<and>
   fin_exec FIN2 0 [VU8 7, VU8 2] = (Inl Arithmetic :: nat val vmrt)"
proof -
  have m: "fin_spec_row FIN4 19 ''wavg2_half_even'' KWavg2 (Some HalfEven) \<in> set fin_specs"
    "fin_spec_row FIN2 0 ''div_exact'' KDiv (Some Exact) \<in> set fin_specs" by (simp_all add: fin_specs_def)
  show ?thesis
    using fin_ops_exact [OF m(1), of "[VU8 7, VU8 1, VU16 9, VU8 3] :: nat val list"]
      fin_ops_exact [OF m(2), of "[VU8 7, VU8 2] :: nat val list"]
    by (simp add: fin_spec_row_def fin_family_argc_def is_uint_def ty_is_uint_def bits_def num_def fin_ref4_def fin_ref2_def
        round_or_exact_def on_quot_def give_def uint_val_def)
qed

section \<open>The plain arithmetic instructions\<close>

lemma pow_loop_eq:
  "1 \<le> e \<Longrightarrow> 0 < acc \<or> base = 0 \<Longrightarrow> pow_loop b base e acc = fit_bits b (acc * base ^ e)"
proof (induction b base e acc rule: pow_loop.induct)
  case (1 b base e acc)
  show ?case
  proof (cases "e \<le> 1")
    case True
    then have "e = 1" using 1(2) by simp
    then show ?thesis by (simp add: pow_loop.simps wmul_def fit_bits_def)
  next
    case False
    define acc' where "acc' = (if odd e then acc * base else acc)"
    have v: "acc * base ^ e = acc' * (base * base) ^ (e div 2)"
      by (cases "even e") (auto simp: acc'_def elim!: evenE oddE simp: power_mult power2_eq_square power_mult_distrib)
    have step: "pow_loop b base e acc =
        (case (if odd e then wmul b acc base else Some acc) of None \<Rightarrow> None
         | Some acc \<Rightarrow> (case wmul b base base of None \<Rightarrow> None | Some base \<Rightarrow> pow_loop b base (e div 2) acc))"
      using False by (subst pow_loop.simps) (simp only: if_False)
    consider "odd e" "\<not> acc * base < 2 ^ b" | "odd e \<longrightarrow> acc * base < 2 ^ b" "\<not> base * base < 2 ^ b"
      | "odd e \<longrightarrow> acc * base < 2 ^ b" "base * base < 2 ^ b" by blast
    then show ?thesis
    proof cases
      case 1
      then have "0 < base" by (cases base) auto
      then have "base \<le> base ^ e" using False power_increasing [of 1 e base] by simp
      then have "acc * base \<le> acc * base ^ e" by (rule mult_le_mono2)
      then have "\<not> acc * base ^ e < 2 ^ b" using 1(2) by linarith
      then show ?thesis using 1 unfolding step by (simp add: wmul_def fit_bits_def)
    next
      case 2
      then have "0 < base" by (cases base) auto
      then have "0 < acc'" using "1.prems"(2) by (simp add: acc'_def)
      have "(base * base) ^ 1 \<le> (base * base) ^ (e div 2)" using False \<open>0 < base\<close> by (intro power_increasing) simp_all
      then have "base * base \<le> acc' * (base * base) ^ (e div 2)" using \<open>0 < acc'\<close> by (cases acc') simp_all
      then show ?thesis using 2 unfolding step v by (auto simp: wmul_def fit_bits_def)
    next
      case 3
      have "(if odd e then wmul b acc base else Some acc) = Some acc'" "wmul b base base = Some (base * base)"
        using 3 by (auto simp: acc'_def wmul_def fit_bits_def)
      moreover have "pow_loop b (base * base) (e div 2) acc' = fit_bits b (acc' * (base * base) ^ (e div 2))"
        by (rule "1.IH" [OF False calculation]) (use False "1.prems" in \<open>auto simp: acc'_def\<close>)
      ultimately show ?thesis unfolding step v by simp
    qed
  qed
qed

definition arith_ref2 :: "u8 \<Rightarrow> nat \<Rightarrow> nat \<Rightarrow> nat \<Rightarrow> nat option" where
  "arith_ref2 i w a b =
     (if i = ADD then Some (a + b) else if i = SUB then (if a < b then None else Some (a - b)) else if i = MUL then Some (a * b)
      else if i = DIV then (if b = 0 then None else Some (a div b))
      else if i = DIVUP then (if b = 0 then None else Some ((a + b - 1) div b))
      else if i = DIVEXACT then (if b \<noteq> 0 \<and> b dvd a then Some (a div b) else None)
      else if i = MOD then (if b = 0 then None else Some (a mod b))
      else if i = POW then (if b < 2 ^ 32 then Some (a ^ b) else None)
      else if i = BC_MAX then Some (max a b) else if i = BC_MIN then Some (min a b) else if i = ABSDIFF then Some (absdiff a b)
      else if i = BSHL then (if b < w then Some (a * 2 ^ b mod 2 ^ w) else None)
      else if i = BSHR then (if b < w then Some (a div 2 ^ b) else None)
      else if i = BAND then Some (a AND b) else if i = BOR then Some (a OR b) else if i = BXOR then Some (a XOR b) else None)"

lemma wpow_eq: "wpow w a b = (if b < 2 ^ 32 then fit_bits w (a ^ b) else None)" if "width w"
  using that pow_loop_eq [of b 1 a w] by (auto simp: wpow_def fit_bits_def width_def)

lemma give_okV: "okV Arithmetic (map_option (uint_val w) (fit_bits w n)) = give w (Some (FNum n))"
  by (simp add: give_def fit_bits_def)

lemma bitop_less: "a < 2 ^ w \<Longrightarrow> b < 2 ^ w \<Longrightarrow> a AND b < (2 :: nat) ^ w" "a < 2 ^ w \<Longrightarrow> b < 2 ^ w \<Longrightarrow> a OR b < (2 :: nat) ^ w"
  "a < 2 ^ w \<Longrightarrow> b < 2 ^ w \<Longrightarrow> a XOR b < (2 :: nat) ^ w"
  by (metis take_bit_and take_bit_nat_eq_self take_bit_nat_less_exp, metis take_bit_or take_bit_nat_eq_self take_bit_nat_less_exp,
      metis take_bit_xor take_bit_nat_eq_self take_bit_nat_less_exp)

lemma arith_ref2_simps:
  "arith_ref2 ADD w a b = Some (a + b)" "arith_ref2 SUB w a b = (if a < b then None else Some (a - b))"
  "arith_ref2 MUL w a b = Some (a * b)" "arith_ref2 DIV w a b = (if b = 0 then None else Some (a div b))"
  "arith_ref2 DIVUP w a b = (if b = 0 then None else Some ((a + b - 1) div b))"
  "arith_ref2 DIVEXACT w a b = (if b \<noteq> 0 \<and> b dvd a then Some (a div b) else None)"
  "arith_ref2 MOD w a b = (if b = 0 then None else Some (a mod b))"
  "arith_ref2 POW w a b = (if b < 2 ^ 32 then Some (a ^ b) else None)"
  "arith_ref2 BC_MAX w a b = Some (max a b)" "arith_ref2 BC_MIN w a b = Some (min a b)"
  "arith_ref2 ABSDIFF w a b = Some (absdiff a b)" "arith_ref2 BSHL w a b = (if b < w then Some (a * 2 ^ b mod 2 ^ w) else None)"
  "arith_ref2 BSHR w a b = (if b < w then Some (a div 2 ^ b) else None)"
  "arith_ref2 BAND w a b = Some (a AND b)" "arith_ref2 BOR w a b = Some (a OR b)" "arith_ref2 BXOR w a b = Some (a XOR b)"
  by (simp_all add: arith_ref2_def)

lemma give_Some: "q < 2 ^ w \<Longrightarrow> give w (Some (FNum q)) = Inr (uint_val w q)" by (simp add: give_def)

lemma binop_cases:
  assumes "width w" "a < 2 ^ w" "b < 2 ^ w"
  shows "bit_shr (uint_val w a) (uint_val w b) = give w (map_option FNum (arith_ref2 BSHR w a b))"
    and "bit_shl (uint_val w a) (uint_val w b) = give w (map_option FNum (arith_ref2 BSHL w a b))"
    and "bit_xor (uint_val w a) (uint_val w b) = give w (map_option FNum (arith_ref2 BXOR w a b))"
    and "bit_or (uint_val w a) (uint_val w b) = give w (map_option FNum (arith_ref2 BOR w a b))"
    and "bit_and (uint_val w a) (uint_val w b) = give w (map_option FNum (arith_ref2 BAND w a b))"
    and "add_checked (uint_val w a) (uint_val w b) = give w (map_option FNum (arith_ref2 ADD w a b))"
    and "sub_checked (uint_val w a) (uint_val w b) = give w (map_option FNum (arith_ref2 SUB w a b))"
    and "mul_checked (uint_val w a) (uint_val w b) = give w (map_option FNum (arith_ref2 MUL w a b))"
    and "div_checked (uint_val w a) (uint_val w b) = give w (map_option FNum (arith_ref2 DIV w a b))"
    and "mod_checked (uint_val w a) (uint_val w b) = give w (map_option FNum (arith_ref2 MOD w a b))"
    and "pow_checked (uint_val w a) (uint_val w b) = give w (map_option FNum (arith_ref2 POW w a b))"
    and "max_checked (uint_val w a) (uint_val w b) = give w (map_option FNum (arith_ref2 BC_MAX w a b))"
    and "min_checked (uint_val w a) (uint_val w b) = give w (map_option FNum (arith_ref2 BC_MIN w a b))"
    and "absdiff_checked (uint_val w a) (uint_val w b) = give w (map_option FNum (arith_ref2 ABSDIFF w a b))"
    and "div_with_round_checked (uint_val w a) (uint_val w b) Ceil = give w (map_option FNum (arith_ref2 DIVUP w a b))"
    and "div_with_round_checked (uint_val w a) (uint_val w b) Exact = give w (map_option FNum (arith_ref2 DIVEXACT w a b))"
proof -
  note eq = ahmtdo_eq [OF assms]
  have le: "a - b < 2 ^ w" "a div b < 2 ^ w" "a mod b < 2 ^ w" "a div 2 ^ b < 2 ^ w" "absdiff a b < 2 ^ w"
    using assms(2,3) absdiff_less [OF assms(2,3)] by (auto intro: le_less_trans [OF div_le_dividend] le_less_trans [OF mod_less_eq_dividend])
  show "bit_shr (uint_val w a) (uint_val w b) = give w (map_option FNum (arith_ref2 BSHR w a b))"
    "bit_shl (uint_val w a) (uint_val w b) = give w (map_option FNum (arith_ref2 BSHL w a b))"
    by (simp_all add: bit_shr_def bit_shl_def eq arith_ref2_simps wshr_def wshl_def give_Some le)
  show "bit_xor (uint_val w a) (uint_val w b) = give w (map_option FNum (arith_ref2 BXOR w a b))"
    "bit_or (uint_val w a) (uint_val w b) = give w (map_option FNum (arith_ref2 BOR w a b))"
    "bit_and (uint_val w a) (uint_val w b) = give w (map_option FNum (arith_ref2 BAND w a b))"
    using bitop_less [OF assms(2,3)] by (simp_all add: bit_xor_def bit_or_def bit_and_def eq arith_ref2_simps give_Some)
  show "add_checked (uint_val w a) (uint_val w b) = give w (map_option FNum (arith_ref2 ADD w a b))"
    "sub_checked (uint_val w a) (uint_val w b) = give w (map_option FNum (arith_ref2 SUB w a b))"
    "mul_checked (uint_val w a) (uint_val w b) = give w (map_option FNum (arith_ref2 MUL w a b))"
    "div_checked (uint_val w a) (uint_val w b) = give w (map_option FNum (arith_ref2 DIV w a b))"
    "mod_checked (uint_val w a) (uint_val w b) = give w (map_option FNum (arith_ref2 MOD w a b))"
    "absdiff_checked (uint_val w a) (uint_val w b) = give w (map_option FNum (arith_ref2 ABSDIFF w a b))"
    by (simp_all add: add_checked_def sub_checked_def mul_checked_def div_checked_def mod_checked_def absdiff_checked_def
        eq arith_ref2_simps wadd_def wsub_def wmul_def wdiv_def wrem_def give_okV give_Some le)
  show "pow_checked (uint_val w a) (uint_val w b) = give w (map_option FNum (arith_ref2 POW w a b))"
    by (simp add: pow_checked_def eq arith_ref2_simps wpow_eq [OF assms(1)] give_okV del: power_numeral)
  show "max_checked (uint_val w a) (uint_val w b) = give w (map_option FNum (arith_ref2 BC_MAX w a b))"
    "min_checked (uint_val w a) (uint_val w b) = give w (map_option FNum (arith_ref2 BC_MIN w a b))"
    using assms by (auto simp: max_checked_def min_checked_def arith_ref2_simps give_Some max_def min_def)
  show "div_with_round_checked (uint_val w a) (uint_val w b) Ceil = give w (map_option FNum (arith_ref2 DIVUP w a b))"
    "div_with_round_checked (uint_val w a) (uint_val w b) Exact = give w (map_option FNum (arith_ref2 DIVEXACT w a b))"
    by (simp_all add: div_exact [OF assms] fin_ref2_def arith_ref2_simps on_quot_def)
qed

lemma binop_exact:
  fixes f :: "'x val \<Rightarrow> 'x val \<Rightarrow> 'x val vmrt"
  assumes w: "width w" "a < 2 ^ w" "b < 2 ^ w" and f: "binop_inst i = Some f"
  shows "f (uint_val w a) (uint_val w b) = give w (map_option FNum (arith_ref2 i w a b))"
proof -
  have "(i, f) \<in> set
     [(BSHR, bit_shr), (BSHL, bit_shl), (BXOR, bit_xor), (BOR, bit_or), (BAND, bit_and),
      (ADD, add_checked), (SUB, sub_checked), (MUL, mul_checked), (DIV, div_checked),
      (DIVUP, \<lambda>x y. div_with_round_checked x y Ceil), (DIVEXACT, \<lambda>x y. div_with_round_checked x y Exact),
      (MOD, mod_checked), (POW, pow_checked), (BC_MAX, max_checked), (BC_MIN, min_checked), (ABSDIFF, absdiff_checked)]"
    using f unfolding binop_inst_def by (rule map_of_SomeD)
  then show ?thesis unfolding list.set insert_iff empty_iff prod.inject
    by (elim disjE conjE FalseE; hypsubst) (rule binop_cases [OF w])+
qed

definition arith_ref3 :: "u8 \<Rightarrow> nat \<Rightarrow> nat \<Rightarrow> nat \<Rightarrow> nat option" where
  "arith_ref3 i a b c =
     (if i = ADDMOD then (if c = 0 then None else Some ((a + b) mod c))
      else if i = MULMOD then (if c = 0 then None else Some (a * b mod c))
      else if i = MULDIV then (if c = 0 then None else Some (a * b div c))
      else if i = MULDIVUP then (if c = 0 then None else Some ((a * b + c - 1) div c))
      else if i = MULADD then Some (a * b + c)
      else if i = MULSUB then (if a * b < c then None else Some (a * b - c))
      else if i = CLAMP then (if c < b then None else Some (max b (min a c))) else None)"

lemma arith_ref3_simps:
  "arith_ref3 ADDMOD a b c = (if c = 0 then None else Some ((a + b) mod c))"
  "arith_ref3 MULMOD a b c = (if c = 0 then None else Some (a * b mod c))"
  "arith_ref3 MULDIV a b c = (if c = 0 then None else Some (a * b div c))"
  "arith_ref3 MULDIVUP a b c = (if c = 0 then None else Some ((a * b + c - 1) div c))"
  "arith_ref3 MULADD a b c = Some (a * b + c)" "arith_ref3 MULSUB a b c = (if a * b < c then None else Some (a * b - c))"
  "arith_ref3 CLAMP a b c = (if c < b then None else Some (max b (min a c)))"
  by (simp_all add: arith_ref3_def)

lemma triop_cases:
  assumes "width w" "a < 2 ^ w" "b < 2 ^ w" "c < 2 ^ w"
  shows "addmod_checked (uint_val w a) (uint_val w b) (uint_val w c) = give w (map_option FNum (arith_ref3 ADDMOD a b c))"
    and "mulmod_checked (uint_val w a) (uint_val w b) (uint_val w c) = give w (map_option FNum (arith_ref3 MULMOD a b c))"
    and "muldiv_with_round_checked (uint_val w a) (uint_val w b) (uint_val w c) Floor = give w (map_option FNum (arith_ref3 MULDIV a b c))"
    and "muldiv_with_round_checked (uint_val w a) (uint_val w b) (uint_val w c) Ceil = give w (map_option FNum (arith_ref3 MULDIVUP a b c))"
    and "muladd_checked (uint_val w a) (uint_val w b) (uint_val w c) = give w (map_option FNum (arith_ref3 MULADD a b c))"
    and "mulsub_checked (uint_val w a) (uint_val w b) (uint_val w c) = give w (map_option FNum (arith_ref3 MULSUB a b c))"
    and "clamp_checked (uint_val w a) (uint_val w b) (uint_val w c) = give w (map_option FNum (arith_ref3 CLAMP a b c))"
proof -
  have lim: "a < W128" "b < W128" "c < W128" using assms width_W128 by blast+
  have md: "n mod c < 2 ^ w" "n mod c < W128" if "c \<noteq> 0" for n
    using that assms(4) lim(3) by (auto intro: less_trans [OF mod_less_divisor])
  show "addmod_checked (uint_val w a) (uint_val w b) (uint_val w c) = give w (map_option FNum (arith_ref3 ADDMOD a b c))"
    "mulmod_checked (uint_val w a) (uint_val w b) (uint_val w c) = give w (map_option FNum (arith_ref3 MULMOD a b c))"
    using assms md by (simp_all add: addmod_checked_def mulmod_checked_def arith_ref3_simps require_nonzero_u128_def add_mod_eq
        mul_mod_eq cast_sample give_Some)
  show "muldiv_with_round_checked (uint_val w a) (uint_val w b) (uint_val w c) Floor = give w (map_option FNum (arith_ref3 MULDIV a b c))"
    "muldiv_with_round_checked (uint_val w a) (uint_val w b) (uint_val w c) Ceil = give w (map_option FNum (arith_ref3 MULDIVUP a b c))"
    by (simp_all add: muldiv_exact(1) [OF assms] fin_ref3_def arith_ref3_simps on_quot_def)
  show "muladd_checked (uint_val w a) (uint_val w b) (uint_val w c) = give w (map_option FNum (arith_ref3 MULADD a b c))"
    "mulsub_checked (uint_val w a) (uint_val w b) (uint_val w c) = give w (map_option FNum (arith_ref3 MULSUB a b c))"
    using assms by (simp_all add: muladd_checked_def mulsub_checked_def addsub_fit [OF lim] arith_ref3_simps cast_fit del: fit_simps)
  have cl: "(if a < b then b else if a > c then c else a) = max b (min a c)" if "b \<le> c" using that by auto
  have "max b (min a c) < W128" "max b (min a c) < 2 ^ w" using lim assms by auto
  then show "clamp_checked (uint_val w a) (uint_val w b) (uint_val w c) = give w (map_option FNum (arith_ref3 CLAMP a b c))"
    using assms cl by (simp add: clamp_checked_def arith_ref3_simps cast_sample give_Some not_less)
qed

lemma triop_exact:
  fixes f :: "'x val \<Rightarrow> 'x val \<Rightarrow> 'x val \<Rightarrow> 'x val vmrt"
  assumes w: "width w" "a < 2 ^ w" "b < 2 ^ w" "c < 2 ^ w" and f: "triop_inst i = Some f"
  shows "f (uint_val w a) (uint_val w b) (uint_val w c) = give w (map_option FNum (arith_ref3 i a b c))"
proof -
  have "(i, f) \<in> set
     [(ADDMOD, addmod_checked), (MULMOD, mulmod_checked), (MULDIV, \<lambda>x y z. muldiv_with_round_checked x y z Floor),
      (MULDIVUP, \<lambda>x y z. muldiv_with_round_checked x y z Ceil), (MULADD, muladd_checked), (MULSUB, mulsub_checked),
      (CLAMP, clamp_checked)]"
    using f unfolding triop_inst_def by (rule map_of_SomeD)
  then show ?thesis unfolding list.set insert_iff empty_iff prod.inject
    by (elim disjE conjE FalseE; hypsubst) (rule triop_cases [OF w])+
qed

lemma arithmetic_args_not_uint:
  "\<not> (is_uint x \<and> is_uint y) \<Longrightarrow> arithmetic_args2 x y = Inl CastFail"
  "\<not> (is_uint x \<and> is_uint y \<and> is_uint z) \<Longrightarrow> arithmetic_args3 x y z = Inl CastFail"
  by (auto simp: arithmetic_args2_def arithmetic_args3_def to_uint_def)

lemma Max_bits2: "Max (bits ` set [x, y]) = max (bits x) (bits y)" by simp
lemma Max_bits3: "Max (bits ` set [x, y, z]) = max (max (bits x) (bits y)) (bits z)" by (simp add: max.assoc)

text \<open>C32: Every two- and three-operand arithmetic, bit and comparison-free instruction of the contract machine computes
  its mathematical result on the operands as unbounded integers, in the widest operand width, or fails with an
  arithmetic error when that result is undefined or does not fit; an operand that is not an integer is a cast error.\<close>

theorem arith_ops_exact:
  fixes f :: "'x val \<Rightarrow> 'x val \<Rightarrow> 'x val vmrt" and g :: "'x val \<Rightarrow> 'x val \<Rightarrow> 'x val \<Rightarrow> 'x val vmrt"
  assumes "binop_inst i = Some f" "triop_inst j = Some g"
  shows "locop_arithmetic f x y =
      (if is_uint x \<and> is_uint y
       then let w = max (bits x) (bits y) in give w (map_option FNum (arith_ref2 i w (num x) (num y)))
       else Inl CastFail) \<and>
    locop_arithmetic3 g x y z =
      (if is_uint x \<and> is_uint y \<and> is_uint z
       then give (max (max (bits x) (bits y)) (bits z)) (map_option FNum (arith_ref3 j (num x) (num y) (num z)))
       else Inl CastFail)"
proof
  show "locop_arithmetic f x y =
      (if is_uint x \<and> is_uint y
       then let w = max (bits x) (bits y) in give w (map_option FNum (arith_ref2 i w (num x) (num y)))
       else Inl CastFail)"
  proof (cases "is_uint x \<and> is_uint y")
    case True
    then have "\<forall>v \<in> set [x, y]. is_uint v" by simp
    then show ?thesis
    proof (rule common_width2)
      fix w a b
      assume n: "width w" "a < 2 ^ w" "b < 2 ^ w" "Max (bits ` set [x, y]) = w" "map num [x, y] = [a, b]"
        "arithmetic_args2 x y = Inr (uint_val w a, uint_val w b)"
      then show ?thesis using True binop_exact [OF n(1-3) assms(1)] by (simp add: locop_arithmetic_def Let_def Max_bits2)
    qed
  qed (auto simp: locop_arithmetic_def arithmetic_args_not_uint)
  show "locop_arithmetic3 g x y z =
      (if is_uint x \<and> is_uint y \<and> is_uint z
       then give (max (max (bits x) (bits y)) (bits z)) (map_option FNum (arith_ref3 j (num x) (num y) (num z)))
       else Inl CastFail)"
  proof (cases "is_uint x \<and> is_uint y \<and> is_uint z")
    case True
    then have "\<forall>v \<in> set [x, y, z]. is_uint v" by simp
    then show ?thesis
    proof (rule common_width3)
      fix w a b c
      assume n: "width w" "a < 2 ^ w" "b < 2 ^ w" "c < 2 ^ w" "Max (bits ` set [x, y, z]) = w" "map num [x, y, z] = [a, b, c]"
        "arithmetic_args3 x y z = Inr (uint_val w a, uint_val w b, uint_val w c)"
      have m: "max (max (bits x) (bits y)) (bits z) = w" using n(5) by (simp only: Max_bits3)
      show ?thesis using True n(6) triop_exact [OF n(1-4) assms(2)] unfolding m by (simp add: locop_arithmetic3_def n(7))
    qed
  qed (auto simp: locop_arithmetic3_def arithmetic_args_not_uint)
qed

lemma arith_ops_exact_witness:
  "locop_arithmetic sub_checked (VU8 3) (VU16 5) = (Inl Arithmetic :: nat val vmrt) \<and>
   locop_arithmetic3 mulmod_checked (VU8 200) (VU8 200) (VU16 1000) = (Inr (VU16 0) :: nat val vmrt)"
proof -
  have t: "binop_inst SUB = Some (sub_checked :: nat val \<Rightarrow> _)" "triop_inst MULMOD = Some (mulmod_checked :: nat val \<Rightarrow> _)"
    by (simp_all add: binop_inst_def triop_inst_def)
  show ?thesis
    using arith_ops_exact [OF t, of "VU8 3" "VU16 5" "VU8 0"] arith_ops_exact [OF t, of "VU8 200" "VU8 200" "VU16 1000"]
    by (simp add: is_uint_def ty_is_uint_def bits_def num_def arith_ref2_simps arith_ref3_simps give_def uint_val_def)
qed

section \<open>Roots, increments, fixed-point powers\<close>

lemma sqrt_exact:
  assumes "width w" "a < 2 ^ w"
  shows "sqrt_floor_checked (uint_val w a) = Inr (uint_val w (nat_isqrt a))"
    and "sqrt_up_checked (uint_val w a) = give w (Some (FNum (root_up a)))"
proof -
  have s: "nat_isqrt a \<le> a" using nat_isqrt_bounds [of a] by (cases "nat_isqrt a") auto
  have lim: "a < W128" "nat_isqrt a < W128" "nat_isqrt a < 2 ^ w" using assms width_W128 s by (auto intro: le_less_trans)
  then show "sqrt_floor_checked (uint_val w a) = Inr (uint_val w (nat_isqrt a))"
    using assms by (simp add: sqrt_floor_checked_def cast_sample)
  have mul: "checked_mul U128S k k = fit (Some (k * k))" for k by (simp add: checked_mul_def W128_256)
  have one: "nat_isqrt 0 = 0" "nat_isqrt 1 = 1" by (simp_all add: nat_isqrt.simps)
  show "sqrt_up_checked (uint_val w a) = give w (Some (FNum (root_up a)))"
  proof (cases "a \<le> 1")
    case True
    then have "a = 0 \<or> a = 1" by auto
    then show ?thesis using assms lim one by (auto simp: sqrt_up_checked_def root_up_def cast_sample give_Some)
  next
    case False
    have "fit (Some (nat_isqrt a * nat_isqrt a)) = Some a \<longleftrightarrow> nat_isqrt a * nat_isqrt a = a"
      using lim(1) by (auto split: if_splits)
    then show ?thesis
      using False assms lim cast_fit [OF assms(1), of "Some (nat_isqrt a + 1)"]
      by (auto simp: sqrt_up_checked_def root_up_def Let_def mul checked_inc cast_sample give_Some simp del: fit_simps One_nat_def)
  qed
qed

lemma inc_dec_exact:
  assumes "width w" "a < 2 ^ w"
  shows "unary_inc (uint_val w a) n = give w (Some (FNum (a + unat n)))"
    and "unary_dec (uint_val w a) n = (if unat n \<le> a then Inr (uint_val w (a - unat n)) else Inl Arithmetic)"
  using assms by (auto simp: unary_inc_def unary_dec_def uint_val_simps wadd_def wsub_def give_okV)

text \<open>On whole multiples of the base the fixed-point power is the power of the multiples.\<close>

lemma mul_div_half_up_whole:
  assumes "0 < base" "base < W128" "k * base < W128" "l * base < W128"
  shows "mul_div_half_up (k * base) (l * base) base = okV Arithmetic (fit (Some (k * l * base)))"
proof -
  have e: "k * base * (l * base) = (k * l * base) * base" by (simp add: ac_simps)
  have "0 < half_up_round_u128_threshold base"
  proof -
    have "base div 2 < base" using assms(1) by simp
    then show ?thesis by (simp add: half_up_round_u128_threshold_def)
  qed
  then show ?thesis using assms
    by (auto simp: mul_div_half_up_def mul_wide_u128_def Let_def round_half_up_div_u256_by_u128_def div_u128_eq e)
qed

lemma rpow_loop_whole:
  assumes "0 < base" "base < W128"
  shows "k * base < W128 \<Longrightarrow> l * base < W128 \<Longrightarrow> rpow_loop base n (k * base) (l * base) = Inr v \<Longrightarrow>
    v = l * k ^ (2 * (n div 2)) * base"
proof (induction n arbitrary: k l rule: less_induct)
  case (less n)
  show ?case
  proof (cases "n \<le> 1")
    case True
    then have "n div 2 = 0" by simp
    then show ?thesis using less.prems(3) True by (simp add: rpow_loop.simps)
  next
    case False
    define m where "m = n div 2"
    have m: "m < n" "1 \<le> m" using False by (simp_all add: m_def)
    have sq: "k * k * base < W128" and rest: "(if m mod 2 = 1 then bindV (mul_div_half_up (l * base) (k * k * base) base) (\<lambda>out. rpow_loop base m (k * k * base) out)
        else rpow_loop base m (k * k * base) (l * base)) = Inr v"
      using less.prems(3) False unfolding rpow_loop.simps [of base n]
      by (auto simp: mul_div_half_up_whole [OF assms less.prems(1,1)] Let_def m_def [symmetric] split: if_splits)
    have m2: "2 * m = 2 * (2 * (m div 2)) + 2 * (m mod 2)" by presburger
    show ?thesis
    proof (cases "m mod 2 = 1")
      case True
      have out: "l * (k * k) * base < W128" "rpow_loop base m (k * k * base) (l * (k * k) * base) = Inr v"
        using rest True mul_div_half_up_whole [OF assms less.prems(2) sq] by (auto split: if_splits)
      from less.IH [OF m(1) sq out] have "v = l * (k * k) * (k * k) ^ (2 * (m div 2)) * base" .
      also have "\<dots> = l * k ^ (2 * m) * base"
        using True by (subst m2) (simp add: power_add power_mult power2_eq_square power4_eq_xxxx mult.assoc)
      finally show ?thesis by (simp add: m_def)
    next
      case False
      then have "m mod 2 = 0" by simp
      have "v = l * (k * k) ^ (2 * (m div 2)) * base" using less.IH [OF m(1) sq less.prems(2)] rest False by simp
      also have "\<dots> = l * k ^ (2 * m) * base"
        using \<open>m mod 2 = 0\<close> by (subst m2) (simp add: power_mult power2_eq_square power4_eq_xxxx mult.assoc)
      finally show ?thesis by (simp add: m_def)
    qed
  qed
qed

end
