(* ===== verification/VmItem.thy ===== *)
theory VmItem
  imports VmValue
begin

text \<open>
  Sizes, limits, byte forms and casts of single values (\<^verbatim>\<open>vm/src/value/item.rs\<close>, \<^verbatim>\<open>canbe.rs\<close>, \<^verbatim>\<open>convert.rs\<close>,
  \<^verbatim>\<open>cast.rs\<close>, \<^verbatim>\<open>util.rs\<close>, \<^verbatim>\<open>operand.rs\<close>) and the caps of the machine (\<^verbatim>\<open>vm/src/rt/cap.rs\<close>). Lengths are naturals.
\<close>

section \<open>Error codes and caps\<close>

abbreviation ContractAddrErr :: itr_code where "ContractAddrErr \<equiv> OtherCode 8"
abbreviation OutOfHeap :: itr_code where "OutOfHeap \<equiv> OtherCode 34"
abbreviation OutOfMemory :: itr_code where "OutOfMemory \<equiv> OtherCode 35"
abbreviation OutOfGlobal :: itr_code where "OutOfGlobal \<equiv> OtherCode 36"
abbreviation OutOfCompoLen :: itr_code where "OutOfCompoLen \<equiv> OtherCode 40"
abbreviation HeapError :: itr_code where "HeapError \<equiv> OtherCode 44"
abbreviation MemoryError :: itr_code where "MemoryError \<equiv> OtherCode 45"
abbreviation GlobalError :: itr_code where "GlobalError \<equiv> OtherCode 46"
abbreviation StorageError :: itr_code where "StorageError \<equiv> OtherCode 47"
abbreviation OutOfLogSize :: itr_code where "OutOfLogSize \<equiv> OtherCode 48"
abbreviation CallArgvTypeFail :: itr_code where "CallArgvTypeFail \<equiv> OtherCode 63"
abbreviation CastBeKeyFail :: itr_code where "CastBeKeyFail \<equiv> OtherCode 73"
abbreviation CastBeBytesFail :: itr_code where "CastBeBytesFail \<equiv> OtherCode 75"
abbreviation CastBeValueFail :: itr_code where "CastBeValueFail \<equiv> OtherCode 76"
abbreviation CastBeFnArgvFail :: itr_code where "CastBeFnArgvFail \<equiv> OtherCode 77"
abbreviation CastBeCallDataFail :: itr_code where "CastBeCallDataFail \<equiv> OtherCode 78"
abbreviation CastBeFnRetvFail :: itr_code where "CastBeFnRetvFail \<equiv> OtherCode 79"
abbreviation CompoOpInvalid :: itr_code where "CompoOpInvalid \<equiv> OtherCode 80"
abbreviation CompoOpOverflow :: itr_code where "CompoOpOverflow \<equiv> OtherCode 81"
abbreviation CompoOpNotMatch :: itr_code where "CompoOpNotMatch \<equiv> OtherCode 83"
abbreviation CompoNoFindItem :: itr_code where "CompoNoFindItem \<equiv> OtherCode 85"
abbreviation ActCallError :: itr_code where "ActCallError \<equiv> OtherCode 95"
abbreviation ActCallRevert :: itr_code where "ActCallRevert \<equiv> OtherCode 96"
abbreviation StorageKeyInvalid :: itr_code where "StorageKeyInvalid \<equiv> OtherCode 101"
abbreviation StorageKeyNotFind :: itr_code where "StorageKeyNotFind \<equiv> OtherCode 102"
abbreviation StoragePeriodErr :: itr_code where "StoragePeriodErr \<equiv> OtherCode 105"
abbreviation StorageValSizeErr :: itr_code where "StorageValSizeErr \<equiv> OtherCode 106"
abbreviation StorageNotActive :: itr_code where "StorageNotActive \<equiv> OtherCode 108"
abbreviation StorageKeyExists :: itr_code where "StorageKeyExists \<equiv> OtherCode 109"
abbreviation StorageNilNotAllowed :: itr_code where "StorageNilNotAllowed \<equiv> OtherCode 110"
abbreviation ThrowAbort :: itr_code where "ThrowAbort \<equiv> OtherCode 151"

record space_cap =
  cap_loaded_contract :: nat
  cap_call_depth :: nat
  cap_value_size :: nat
  cap_tuple_length :: nat
  cap_compo_length :: nat
  cap_storage_period :: nat
  cap_storage_live_max_periods :: nat
  cap_storage_recv_max_periods :: nat
  cap_stack_slot :: nat
  cap_local_slot :: nat
  cap_heap_segment :: nat
  cap_global :: nat
  cap_memory :: nat
  cap_kv_key_size :: nat
  cap_status_pure_size :: nat
  cap_log_size :: nat
  cap_contract_size :: nat
  cap_function_size :: nat
  cap_inherit :: nat
  cap_library :: nat

definition space_cap_new :: space_cap where
  "space_cap_new = \<lparr>cap_loaded_contract = 20, cap_call_depth = 32, cap_value_size = 1280, cap_tuple_length = 32, cap_compo_length = 128,
     cap_storage_period = 100, cap_storage_live_max_periods = 30000, cap_storage_recv_max_periods = 3000,
     cap_stack_slot = 256, cap_local_slot = 256, cap_heap_segment = 64, cap_global = 40, cap_memory = 24,
     cap_kv_key_size = 128, cap_status_pure_size = 128, cap_log_size = 9600,
     cap_contract_size = 65535, cap_function_size = 16383, cap_inherit = 12, cap_library = 64\<rparr>"

definition FIELD_BYTES_SERIALIZE_MAX :: nat where "FIELD_BYTES_SERIALIZE_MAX = 65534"

definition scalar_field_len_fits :: "nat \<Rightarrow> nat \<Rightarrow> bool" where
  "scalar_field_len_fits len value_max \<longleftrightarrow> len < 65535 \<and> len \<le> value_max"

definition field_scalar_len_ok :: "space_cap \<Rightarrow> nat \<Rightarrow> bool" where
  "field_scalar_len_ok cap len = scalar_field_len_fits len (cap_value_size cap)"

section \<open>Kinds of values\<close>

fun is_scalar_value :: "'x val \<Rightarrow> bool" where
  "is_scalar_value (VTuple _) = False"
| "is_scalar_value (VCompo _) = False"
| "is_scalar_value (VHandle _) = False"
| "is_scalar_value v = True"

definition check_scalar_as :: "itr_code \<Rightarrow> 'x val \<Rightarrow> unit vmrt" where
  "check_scalar_as ec v = (if is_scalar_value v then Inr () else Inl ec)"

definition check_scalar :: "'x val \<Rightarrow> unit vmrt" where "check_scalar v = check_scalar_as CastBeValueFail v"

definition is_nil :: "'x val \<Rightarrow> bool" where "is_nil v \<longleftrightarrow> ty v = TyNil"

definition check_non_nil_scalar :: "itr_code \<Rightarrow> 'x val \<Rightarrow> unit vmrt" where
  "check_non_nil_scalar nil_ec v = (if is_nil v then Inl nil_ec else check_scalar_as CastBeValueFail v)"

fun check_tuple_item :: "'x val \<Rightarrow> unit vmrt" where
  "check_tuple_item (VTuple _) = Inl CastBeValueFail"
| "check_tuple_item (VCompo _) = Inr ()"
| "check_tuple_item (VHandle _) = Inr ()"
| "check_tuple_item v = check_scalar_as CastBeValueFail v"

section \<open>Sizes\<close>

definition REF_DUP_SIZE :: nat where "REF_DUP_SIZE = 8"

fun dup_size :: "'x val \<Rightarrow> nat" where
  "dup_size VNil = 0" | "dup_size (VBool _) = 1" | "dup_size (VU8 _) = 1" | "dup_size (VU16 _) = 2"
| "dup_size (VU32 _) = 4" | "dup_size (VU64 _) = 8" | "dup_size (VU128 _) = 16" | "dup_size (VBytes b) = length b"
| "dup_size (VAddress _) = 21" | "dup_size (VTuple _) = REF_DUP_SIZE" | "dup_size (VCompo _) = REF_DUP_SIZE"
| "dup_size (VHandle _) = REF_DUP_SIZE"

text \<open>\<open>can_get_size\<close> answers for scalars only, where \<open>val_size\<close> and \<open>dup_size\<close> agree.\<close>

definition can_get_size :: "'x val \<Rightarrow> nat vmrt" where
  "can_get_size v = (if \<not> is_scalar_value v then Inl ItemNoSize
     else if dup_size v \<ge> 65535 then Inl OutOfValueSize else Inr (dup_size v))"

definition valid :: "space_cap \<Rightarrow> 'x val \<Rightarrow> 'x val vmrt" where
  "valid cap v = (case can_get_size v of
       Inr n \<Rightarrow> if n > cap_value_size cap then Inl OutOfValueSize else Inr v
     | Inl e \<Rightarrow> if e = ItemNoSize then Inr v else Inl e)"

lemma valid_ok: "valid cap v = Inr w \<Longrightarrow> w = v"
  by (auto simp: valid_def split: sum.splits if_splits)

definition add_size_saturating :: "nat \<Rightarrow> nat \<Rightarrow> nat" where
  "add_size_saturating acc n = (if acc + n < 2 ^ 64 then acc + n else 2 ^ 64 - 1)"

definition checked_value_output_len :: "space_cap \<Rightarrow> nat \<Rightarrow> nat vmrt" where
  "checked_value_output_len cap len = (if field_scalar_len_ok cap len then Inr len else Inl OutOfValueSize)"

definition checked_value_output_add :: "space_cap \<Rightarrow> nat \<Rightarrow> nat \<Rightarrow> nat vmrt" where
  "checked_value_output_add cap left right =
     bindV (if left + right < 2 ^ 64 then Inr (left + right) else Inl OutOfValueSize) (checked_value_output_len cap)"

definition length_value_by_len :: "space_cap \<Rightarrow> nat \<Rightarrow> 'x val vmrt" where
  "length_value_by_len cap len = (if len > cap_compo_length cap then Inl OutOfCompoLen else Inr (VU32 (word_of_nat len)))"

section \<open>Bytes of a value\<close>

definition encode_canonical_bool_byte :: "bool \<Rightarrow> u8" where "encode_canonical_bool_byte b = (if b then 1 else 0)"

definition decode_canonical_bool_byte :: "u8 \<Rightarrow> bool option" where
  "decode_canonical_bool_byte b = (if b = 0 then Some False else if b = 1 then Some True else None)"

fun scalar_bytes :: "'x val \<Rightarrow> u8 list option" where
  "scalar_bytes VNil = Some []"
| "scalar_bytes (VBool b) = Some [encode_canonical_bool_byte b]"
| "scalar_bytes (VU8 n) = Some (be_bytes 1 (unat n))"
| "scalar_bytes (VU16 n) = Some (be_bytes 2 (unat n))"
| "scalar_bytes (VU32 n) = Some (be_bytes 4 (unat n))"
| "scalar_bytes (VU64 n) = Some (be_bytes 8 (unat n))"
| "scalar_bytes (VU128 n) = Some (be_bytes 16 (unat n))"
| "scalar_bytes (VBytes b) = Some b"
| "scalar_bytes (VAddress a) = Some a"
| "scalar_bytes _ = None"

fun extract_bytes_len :: "itr_code \<Rightarrow> 'x val \<Rightarrow> nat vmrt" where
  "extract_bytes_len ec (VBool _) = Inr 1" | "extract_bytes_len ec (VU8 _) = Inr 1"
| "extract_bytes_len ec (VU16 _) = Inr 2" | "extract_bytes_len ec (VU32 _) = Inr 4"
| "extract_bytes_len ec (VU64 _) = Inr 8" | "extract_bytes_len ec (VU128 _) = Inr 16"
| "extract_bytes_len ec (VBytes b) = Inr (length b)" | "extract_bytes_len ec (VAddress _) = Inr 21"
| "extract_bytes_len ec _ = Inl ec"

definition extract_bytes_ec :: "itr_code \<Rightarrow> 'x val \<Rightarrow> u8 list vmrt" where
  "extract_bytes_ec ec v = (if is_nil v then Inl ec else okV ec (scalar_bytes v))"

definition uint_key_bytes :: "nat \<Rightarrow> u8 list" where
  "uint_key_bytes n = (let trimmed = trim_leading_zero_bytes (be_bytes 16 n) in if trimmed = [] then [0] else trimmed)"

definition extract_key_bytes_ec :: "itr_code \<Rightarrow> 'x val \<Rightarrow> u8 list vmrt" where
  "extract_key_bytes_ec ec v =
     (if ty v = TyBool \<or> is_nil v then Inl ec
      else if is_uint v then bindV (extract_u128 v) (\<lambda>n. Inr (uint_key_bytes n))
      else bindV (extract_bytes_ec ec v) (\<lambda>k. if k = [] then Inl ec else Inr k))"

definition extract_key_bytes :: "'x val \<Rightarrow> u8 list vmrt" where "extract_key_bytes v = extract_key_bytes_ec CastBeKeyFail v"

definition extract_call_data :: "'x val \<Rightarrow> u8 list vmrt" where
  "extract_call_data v = (if is_nil v then Inr [] else extract_bytes_ec CastBeCallDataFail v)"

section \<open>Casts\<close>

definition address_from_bytes :: "itr_code \<Rightarrow> u8 list \<Rightarrow> address vmrt" where
  "address_from_bytes ec b = (if length b \<noteq> 21 then Inl ec else case check_version b of Inl _ \<Rightarrow> Inl ec | Inr _ \<Rightarrow> Inr b)"

definition cast_bool :: "'x val \<Rightarrow> 'x val vmrt" where "cast_bool v = bindV (extract_bool v) (\<lambda>b. Inr (VBool b))"

definition cast_bool_not :: "'x val \<Rightarrow> 'x val vmrt" where "cast_bool_not v = bindV (extract_bool v) (\<lambda>b. Inr (VBool (\<not> b)))"

definition cast_bytes :: "'x val \<Rightarrow> 'x val vmrt" where
  "cast_bytes v = (if ty v = TyBytes then Inr v else bindV (extract_bytes_ec CastFail v) (\<lambda>b. Inr (VBytes b)))"

definition cast_addr :: "'x val \<Rightarrow> 'x val vmrt" where
  "cast_addr v = (if ty v = TyAddress then Inr v
     else bindV (cast_bytes v) (\<lambda>w. case w of VBytes b \<Rightarrow> bindV (address_from_bytes CastFail b) (\<lambda>a. Inr (VAddress a)) | _ \<Rightarrow> Inl CastFail))"

definition cast_to_ty :: "value_ty \<Rightarrow> 'x val \<Rightarrow> 'x val vmrt" where
  "cast_to_ty t v = (case t of TyBool \<Rightarrow> cast_bool v | TyU8 \<Rightarrow> cast_to_uint_width v 8 | TyU16 \<Rightarrow> cast_to_uint_width v 16
     | TyU32 \<Rightarrow> cast_to_uint_width v 32 | TyU64 \<Rightarrow> cast_to_uint_width v 64 | TyU128 \<Rightarrow> cast_to_uint_width v 128
     | TyBytes \<Rightarrow> cast_bytes v | TyAddress \<Rightarrow> cast_addr v | _ \<Rightarrow> Inl CastFail)"

definition cast_param :: "value_ty \<Rightarrow> 'x val \<Rightarrow> 'x val vmrt" where
  "cast_param t v = (if t = ty v then Inr v
     else if ty_is_uint t \<and> is_uint v then (case cast_to_ty t v of Inl _ \<Rightarrow> Inl CallArgvTypeFail | Inr w \<Rightarrow> Inr w)
     else Inl CallArgvTypeFail)"

definition type_from :: "value_ty \<Rightarrow> u8 list \<Rightarrow> 'x val vmrt" where
  "type_from t stuff =
     (case t of
        TyNil \<Rightarrow> if length stuff = 0 then Inr VNil else Inl CastParamFail
      | TyBool \<Rightarrow> if length stuff = 1 then
          (case decode_canonical_bool_byte (stuff ! 0) of None \<Rightarrow> Inl CastParamFail | Some b \<Rightarrow> Inr (VBool b)) else Inl CastParamFail
      | TyBytes \<Rightarrow> Inr (VBytes stuff)
      | TyAddress \<Rightarrow> bindV (address_from_bytes CastParamFail stuff) (\<lambda>a. Inr (VAddress a))
      | _ \<Rightarrow> (case uint_bits t of None \<Rightarrow> Inl CastParamFail
          | Some b \<Rightarrow> if length stuff = b div 8 then Inr (uint_val b (be_nat stuff)) else Inl CastParamFail))"

section \<open>Buffers\<close>

definition extract_u8 :: "'x val \<Rightarrow> nat vmrt" where "extract_u8 v = extract_uint_cast 8 v"
definition extract_u16 :: "'x val \<Rightarrow> nat vmrt" where "extract_u16 v = extract_uint_cast 16 v"
definition extract_u32 :: "'x val \<Rightarrow> nat vmrt" where "extract_u32 v = extract_uint_cast 32 v"

definition cutbyte :: "nat \<Rightarrow> 'x val \<Rightarrow> 'x val vmrt" where
  "cutbyte n v = bindV (extract_bytes_ec BytesHandle v) (\<lambda>b. if n \<ge> length b then Inl StackError else Inr (VU8 (b ! n)))"

definition cutleft :: "nat \<Rightarrow> 'x val \<Rightarrow> 'x val vmrt" where
  "cutleft n v = bindV (extract_bytes_ec BytesHandle v) (\<lambda>b. if n > length b then Inl StackError else Inr (VBytes (take n b)))"

definition cutright :: "nat \<Rightarrow> 'x val \<Rightarrow> 'x val vmrt" where
  "cutright n v = bindV (extract_bytes_ec BytesHandle v) (\<lambda>b.
     if n > length b then Inl StackError else Inr (VBytes (drop (length b - n) b)))"

definition dropleft :: "nat \<Rightarrow> 'x val \<Rightarrow> 'x val vmrt" where
  "dropleft n v = bindV (extract_bytes_ec BytesHandle v) (\<lambda>b. if n > length b then Inl StackError else Inr (VBytes (drop n b)))"

definition dropright :: "nat \<Rightarrow> 'x val \<Rightarrow> 'x val vmrt" where
  "dropright n v = bindV (extract_bytes_ec BytesHandle v) (\<lambda>b.
     if n > length b then Inl StackError else Inr (VBytes (take (length b - n) b)))"

definition cutout :: "'x val \<Rightarrow> 'x val \<Rightarrow> 'x val \<Rightarrow> 'x val vmrt" where
  "cutout len ost v = bindV (extract_u16 len) (\<lambda>l. bindV (extract_u16 ost) (\<lambda>s. bindV (extract_bytes_ec BytesHandle v) (\<lambda>b.
     if l + s > length b then Inl StackError else Inr (VBytes (take l (drop s b))))))"

definition concat_values :: "space_cap \<Rightarrow> 'x val \<Rightarrow> 'x val \<Rightarrow> 'x val vmrt" where
  "concat_values cap a b = bindV (extract_bytes_ec BytesHandle a) (\<lambda>av. bindV (extract_bytes_ec BytesHandle b) (\<lambda>bv.
     bindV (checked_value_output_add cap (length av) (length bv)) (\<lambda>total. valid cap (VBytes (av @ bv)))))"

section \<open>Lemmas\<close>

text \<open>The byte length of a scalar is the size that \<open>valid\<close> and the gas formulas use.\<close>

lemma extract_bytes_len_scalar:
  "is_scalar_value v \<Longrightarrow> \<not> is_nil v \<Longrightarrow> extract_bytes_len ec v = Inr (dup_size v)"
  by (cases v) (auto simp: is_nil_def)

end
