(* ===== verification/VmMonad.thy ===== *)
theory VmMonad
  imports VmItem
begin

text \<open>
  Stateful operations of the contract machine: an operation returns its result, or the code of its error, with the state it
  leaves, also when it fails. \<open>preserves R m\<close> says that the states before and after \<open>m\<close> are related; the locale
  \<open>step_order\<close> collects how such facts are put together for a reflexive and transitive relation.
\<close>

type_synonym ('s, 'a) vst = "'s \<Rightarrow> 'a vmrt \<times> 's"

definition bindW :: "('s, 'a) vst \<Rightarrow> ('a \<Rightarrow> ('s, 'b) vst) \<Rightarrow> ('s, 'b) vst" where
  "bindW m f = (\<lambda>s. case m s of (Inl e, s') \<Rightarrow> (Inl e, s') | (Inr x, s') \<Rightarrow> f x s')"

definition retW :: "'a \<Rightarrow> ('s, 'a) vst" where "retW x = (\<lambda>s. (Inr x, s))"
definition failW :: "itr_code \<Rightarrow> ('s, 'a) vst" where "failW e = (\<lambda>s. (Inl e, s))"
definition liftW :: "'a vmrt \<Rightarrow> ('s, 'a) vst" where "liftW r = (\<lambda>s. (r, s))"
definition getW :: "('s \<Rightarrow> 'a) \<Rightarrow> ('s, 'a) vst" where "getW f = (\<lambda>s. (Inr (f s), s))"
definition modW :: "('s \<Rightarrow> 's) \<Rightarrow> ('s, unit) vst" where "modW f = (\<lambda>s. (Inr (), f s))"
definition thenW :: "('s, 'a) vst \<Rightarrow> ('s, 'b) vst \<Rightarrow> ('s, 'b) vst" where "thenW m n = bindW m (\<lambda>_. n)"

lemma bindW_apply:
  "bindW m f s = (case m s of (Inl e, s') \<Rightarrow> (Inl e, s') | (Inr x, s') \<Rightarrow> f x s')"
  by (simp add: bindW_def)

lemma vst_simps [simp]:
  "retW x s = (Inr x, s)" "failW e s = (Inl e, s)" "liftW r s = (r, s)" "getW g s = (Inr (g s), s)" "modW h s = (Inr (), h s)"
  "thenW m n = bindW m (\<lambda>_. n)"
  by (simp_all add: retW_def failW_def liftW_def getW_def modW_def thenW_def)

lemma bindW_eq_Inr: "bindW m f s = (Inr y, t) \<longleftrightarrow> (\<exists>x s'. m s = (Inr x, s') \<and> f x s' = (Inr y, t))"
  by (auto simp: bindW_def split: prod.splits sum.splits)

lemma bindW_cases:
  assumes "bindW m f s = (r, t)"
  obtains e where "m s = (Inl e, t)" "r = Inl e" | x s' where "m s = (Inr x, s')" "f x s' = (r, t)"
  using assms by (auto simp: bindW_def split: prod.splits sum.splits)

definition preserves :: "('s \<Rightarrow> 's \<Rightarrow> bool) \<Rightarrow> ('s, 'a) vst \<Rightarrow> bool" where
  "preserves R m \<longleftrightarrow> (\<forall>s. R s (snd (m s)))"

lemma preservesD: "preserves R m \<Longrightarrow> m s = (r, t) \<Longrightarrow> R s t"
  by (metis preserves_def snd_conv)

locale step_order =
  fixes R :: "'s \<Rightarrow> 's \<Rightarrow> bool"
  assumes R_refl: "R s s"
    and R_trans: "R s t \<Longrightarrow> R t u \<Longrightarrow> R s u"
begin

lemma r_ret: "preserves R (retW x)" by (simp add: preserves_def R_refl)
lemma r_fail: "preserves R (failW e)" by (simp add: preserves_def R_refl)
lemma r_lift: "preserves R (liftW r)" by (simp add: preserves_def R_refl)
lemma r_get: "preserves R (getW g)" by (simp add: preserves_def R_refl)
lemma r_mod: "(\<And>s. R s (h s)) \<Longrightarrow> preserves R (modW h)" by (simp add: preserves_def)

lemma r_bind:
  assumes "preserves R m" "\<And>x. preserves R (f x)"
  shows "preserves R (bindW m f)"
  unfolding preserves_def
proof
  fix s
  obtain r t where m: "m s = (r, t)" by fastforce
  then have st: "R s t" using assms(1) by (rule preservesD [rotated])
  show "R s (snd (bindW m f s))"
  proof (cases r)
    case (Inr x)
    have "R t (snd (f x t))" using assms(2) by (simp add: preserves_def)
    then show ?thesis using m st Inr R_trans by (auto simp: bindW_def)
  qed (use m st in \<open>simp add: bindW_def\<close>)
qed

lemma r_then: "preserves R m \<Longrightarrow> preserves R n \<Longrightarrow> preserves R (thenW m n)"
  unfolding thenW_def by (rule r_bind)

lemma r_if: "preserves R m \<Longrightarrow> preserves R n \<Longrightarrow> preserves R (if b then m else n)" by simp

lemmas r_rules = r_ret r_fail r_lift r_get r_bind r_then r_if

end

end
