(* ===== verification/VmGas.thy ===== *)
theory VmGas
  imports VmCode VmItem GasCounter
begin

text \<open>
  Prices of the contract machine (\<^verbatim>\<open>vm/src/rt/gas.rs\<close>) and its three gas buckets
  (\<^verbatim>\<open>basis/src/component/gas.rs\<close>). An \<open>i64\<close> is an integer; the saturating and checked operations of the source
  have their bounds written out, and the divisions of lengths need none.
\<close>

section \<open>Opcode prices\<close>

text \<open>The calls of \<open>set\<close>, in their order: a later group overwrites an earlier one, and every other byte costs 1.\<close>

definition gas_groups :: "(nat \<times> u8 list) list" where
  "gas_groups =
     [(2, [BRL, BRS, BRSL, BRSLN, XLG, XOP]), (2, [BC_AND, BC_OR, EQ, NEQ, LT, GT, LE, GE, BC_NOT]),
      (3, [BSHR, BSHL, BXOR, BOR, BAND]), (2, [ADD, SUB, BC_MAX, BC_MIN, INC, DEC]), (4, [MUL, DIV, MOD, ABSDIFF]),
      (5, [SQRT, SQRTUP]), (6, [DIVUP, DIVEXACT, POW, ADDMOD, CLAMP, FIN2]), (10, [FIN3, FINP3, FINP4]), (18, [FIN4]),
      (32, [FINPOW3]), (8, [MULADD, MULSUB]), (10, [MULMOD]), (12, [MULDIV, MULDIVUP]),
      (4, [INSERT, REMOVE, TAKEFIRST, TAKELAST, APPEND]), (5, [MGET, GGET, NEWLIST, NEWMAP]),
      (6, [CLEAR, KEYS, VALUES, TUPLE2LIST, UNPACK]), (8, [CLONE, MERGE, PACKLIST, PACKMAP, PACKTUPLE]),
      (10, [MPUT, GPUT, CALLSELF, CALLSELFVIEW, CALLSELFPURE]), (12, [MTAKE, CALLUSEVIEW, CALLUSEPURE]),
      (16, [NTENV, NTCTL, NTFUNC, CALLTHIS, CALLSUPER, CODECALL]), (20, [LOG1, CALLEXTVIEW]), (24, [LOG2, CALLEXT, CALL]),
      (28, [LOG3, ACTENV, SDEL]), (32, [LOG4, ACTVIEW, SLOAD, SSTAT]), (48, [ACTION]),
      (64, [SNEW, SEDIT, SRENT, SRECV, SGET]), (128, [SPUT])]"

definition gas_table_set :: "nat \<times> u8 list \<Rightarrow> (u8 \<Rightarrow> nat) \<Rightarrow> u8 \<Rightarrow> nat" where
  "gas_table_set g table b = (if b \<in> set (snd g) then fst g else table b)"

definition gas_table_new :: "u8 \<Rightarrow> nat" where "gas_table_new = fold gas_table_set gas_groups (\<lambda>b. 1)"

definition table_gas :: "(u8 \<Rightarrow> nat) \<Rightarrow> u8 \<Rightarrow> int" where "table_gas table b = int (table b)"

lemma fold_gas_pos:
  "(\<And>b. 0 < t b) \<Longrightarrow> (\<forall>g \<in> set gs. 0 < fst g) \<Longrightarrow> 0 < fold gas_table_set gs t b"
  by (induction gs arbitrary: t) (auto simp: gas_table_set_def)

lemma gas_table_pos: "0 < gas_table_new b"
  unfolding gas_table_new_def by (rule fold_gas_pos) (simp_all add: gas_groups_def)

section \<open>Dynamic prices\<close>

record gas_extra =
  ge_compute_limit :: int
  ge_resource_limit :: int
  ge_storage_limit :: int
  ge_one_local_alloc :: int
  ge_new_contract_load :: int
  ge_main_call_base :: int
  ge_p2sh_call_base :: int
  ge_abst_call_base :: int
  ge_memory_key_cost :: int
  ge_global_key_cost :: int
  ge_value_base_size :: int
  ge_storage_key_cost :: int
  ge_storage_edit_mul :: int
  ge_status_read_byte_mul :: int
  ge_status_write_key_byte_mul :: int
  ge_status_write_value_byte_mul :: int
  ge_container_cmp_header :: nat
  ge_stack_move_item :: int
  ge_stack_copy_div :: int
  ge_stack_write_div :: int
  ge_stack_cmp_div :: int
  ge_stack_op_div :: int
  ge_heap_read_div :: int
  ge_heap_write_div :: int
  ge_log_div :: int
  ge_compile_div :: int
  ge_contract_div :: int
  ge_compo_byte_div :: int
  ge_compo_item_read_div :: int
  ge_compo_item_edit_div :: int
  ge_compo_item_copy_div :: int
  ge_ntfunc_div :: int
  ge_act_div :: int
  ge_burn_div :: int
  ge_rpow_exp_bit_mul :: int
  ge_rpow_exp_base :: int
  ge_heap_grow_exp_segments :: nat
  ge_heap_grow_linear_seg :: nat

definition gas_extra_new :: gas_extra where
  "gas_extra_new =
     \<lparr>ge_compute_limit = decode_gas_budget 72, ge_resource_limit = decode_gas_budget 56, ge_storage_limit = decode_gas_budget 99,
      ge_one_local_alloc = 5, ge_new_contract_load = 32, ge_main_call_base = 48, ge_p2sh_call_base = 64, ge_abst_call_base = 80,
      ge_memory_key_cost = 20, ge_global_key_cost = 32, ge_value_base_size = 20, ge_storage_key_cost = 1024,
      ge_storage_edit_mul = 4, ge_status_read_byte_mul = 8, ge_status_write_key_byte_mul = 32,
      ge_status_write_value_byte_mul = 32, ge_container_cmp_header = 12, ge_stack_move_item = 1, ge_stack_copy_div = 32,
      ge_stack_write_div = 28, ge_stack_cmp_div = 24, ge_stack_op_div = 20, ge_heap_read_div = 16, ge_heap_write_div = 12,
      ge_log_div = 1, ge_compile_div = 16, ge_contract_div = 64, ge_compo_byte_div = 40, ge_compo_item_read_div = 4,
      ge_compo_item_edit_div = 2, ge_compo_item_copy_div = 1, ge_ntfunc_div = 16, ge_act_div = 12, ge_burn_div = 1,
      ge_rpow_exp_bit_mul = 8, ge_rpow_exp_base = 1, ge_heap_grow_exp_segments = 8, ge_heap_grow_linear_seg = 256\<rparr>"

lemma gas_limits: "ge_compute_limit gas_extra_new = 18009" "ge_resource_limit gas_extra_new = 6100"
    "ge_storage_limit gas_extra_new = 111911"
  by (simp_all add: gas_extra_new_def decode_gas_budget_def GAS_BUDGET_LOOKUP_def)

definition i64_sat :: "int \<Rightarrow> int" where "i64_sat x = max (- (2 ^ 63)) (min (2 ^ 63 - 1) x)"

definition i64_checked :: "int \<Rightarrow> int option" where "i64_checked x = (if i64_ok x then Some x else None)"

definition div_op :: "nat \<Rightarrow> int \<Rightarrow> int" where
  "div_op len d = (if d \<le> 0 \<or> len = 0 then 0 else (int len - 1) div d + 1)"

definition linear_bytes :: "nat \<Rightarrow> int \<Rightarrow> int" where
  "linear_bytes len m = (if m \<le> 0 \<or> len = 0 then 0 else i64_sat (min (int len) (2 ^ 63 - 1) * m))"

definition stack_copy :: "gas_extra \<Rightarrow> nat \<Rightarrow> int" where "stack_copy g len = div_op len (ge_stack_copy_div g)"
definition stack_write :: "gas_extra \<Rightarrow> nat \<Rightarrow> int" where "stack_write g len = div_op len (ge_stack_write_div g)"
definition stack_cmp :: "gas_extra \<Rightarrow> nat \<Rightarrow> int" where "stack_cmp g len = div_op len (ge_stack_cmp_div g)"
definition stack_op :: "gas_extra \<Rightarrow> nat \<Rightarrow> int" where "stack_op g len = div_op len (ge_stack_op_div g)"
definition stack_move_items :: "gas_extra \<Rightarrow> nat \<Rightarrow> int" where
  "stack_move_items g n = (if n = 0 then 0 else i64_sat (ge_stack_move_item g * int n))"
definition nt_bytes :: "gas_extra \<Rightarrow> nat \<Rightarrow> int" where "nt_bytes g len = div_op len (ge_ntfunc_div g)"
definition act_bytes :: "gas_extra \<Rightarrow> nat \<Rightarrow> int" where "act_bytes g len = div_op len (ge_act_div g)"
definition heap_read_gas :: "gas_extra \<Rightarrow> nat \<Rightarrow> int" where "heap_read_gas g len = div_op len (ge_heap_read_div g)"
definition heap_write_gas :: "gas_extra \<Rightarrow> nat \<Rightarrow> int" where "heap_write_gas g len = div_op len (ge_heap_write_div g)"
definition log_bytes_gas :: "gas_extra \<Rightarrow> nat \<Rightarrow> int" where "log_bytes_gas g len = div_op len (ge_log_div g)"
definition storage_read :: "gas_extra \<Rightarrow> nat \<Rightarrow> int" where
  "storage_read g len = i64_sat (int len + max (ge_value_base_size g) 0)"
definition status_read :: "gas_extra \<Rightarrow> nat \<Rightarrow> int" where "status_read g len = linear_bytes len (ge_status_read_byte_mul g)"
definition status_write :: "gas_extra \<Rightarrow> nat \<Rightarrow> nat \<Rightarrow> int" where
  "status_write g klen vlen =
     i64_sat (linear_bytes klen (ge_status_write_key_byte_mul g) + linear_bytes vlen (ge_status_write_value_byte_mul g))"
definition compile_bytes :: "gas_extra \<Rightarrow> nat \<Rightarrow> int" where "compile_bytes g len = div_op len (ge_compile_div g)"
definition ir_format_bytes :: "gas_extra \<Rightarrow> nat \<Rightarrow> int" where "ir_format_bytes g len = div_op len (ge_compile_div g)"
definition compo_items_read :: "gas_extra \<Rightarrow> nat \<Rightarrow> int" where "compo_items_read g n = div_op n (ge_compo_item_read_div g)"
definition compo_items_edit :: "gas_extra \<Rightarrow> nat \<Rightarrow> int" where "compo_items_edit g n = div_op n (ge_compo_item_edit_div g)"
definition compo_items_copy :: "gas_extra \<Rightarrow> nat \<Rightarrow> int" where "compo_items_copy g n = div_op n (ge_compo_item_copy_div g)"
definition compo_bytes :: "gas_extra \<Rightarrow> nat \<Rightarrow> int" where "compo_bytes g len = div_op len (ge_compo_byte_div g)"
definition contract_bytes :: "gas_extra \<Rightarrow> nat \<Rightarrow> int" where "contract_bytes g len = div_op len (ge_contract_div g)"
definition burn_extra :: "gas_extra \<Rightarrow> int \<Rightarrow> int" where "burn_extra g raw = div_op (nat (max raw 0)) (ge_burn_div g)"

definition rpow_extra :: "gas_extra \<Rightarrow> int \<Rightarrow> int" where
  "rpow_extra g exp_bits =
     (if exp_bits \<le> 0 then 0 else i64_sat (i64_sat (exp_bits * ge_rpow_exp_bit_mul g) + ge_rpow_exp_base g))"

text \<open>\<open>checked_shl\<close> only fails for a shift of 64 or more; bits shifted out are lost.\<close>

definition grow_step :: "gas_extra \<Rightarrow> nat \<Rightarrow> nat" where
  "grow_step g s = (if s < ge_heap_grow_exp_segments g
     then (if s + 1 < 64 then 2 ^ (s + 1) else 2 ^ 64 - 1) else ge_heap_grow_linear_seg g)"

fun grow_loop :: "gas_extra \<Rightarrow> nat list \<Rightarrow> nat \<Rightarrow> nat vmrt" where
  "grow_loop g [] gas = Inr gas"
| "grow_loop g (s # rest) gas =
     (if gas + grow_step g s < 2 ^ 64 then grow_loop g rest (gas + grow_step g s) else Inl HeapError)"

definition heap_grow_gas :: "gas_extra \<Rightarrow> nat \<Rightarrow> nat \<Rightarrow> nat \<Rightarrow> int vmrt" where
  "heap_grow_gas g oldseg seg lim =
     (let newseg = oldseg + seg in
      if newseg > lim then Inl OutOfHeap
      else bindV (grow_loop g [oldseg..<newseg] 0) (\<lambda>gas. if gas < 2 ^ 63 then Inr (int gas) else Inl HeapError))"

section \<open>Buckets\<close>

record gas_buckets =
  gb_compute :: int
  gb_resource :: int
  gb_storage :: int

definition buckets_zero :: gas_buckets where "buckets_zero = \<lparr>gb_compute = 0, gb_resource = 0, gb_storage = 0\<rparr>"

definition buckets_total :: "gas_buckets \<Rightarrow> int" where
  "buckets_total b = gb_compute b + gb_resource b + gb_storage b"

definition buckets_checked_total :: "gas_buckets \<Rightarrow> int option" where
  "buckets_checked_total b =
     (case i64_checked (gb_compute b + gb_resource b) of None \<Rightarrow> None | Some x \<Rightarrow> i64_checked (x + gb_storage b))"

definition buckets_checked_add :: "gas_buckets \<Rightarrow> gas_buckets \<Rightarrow> gas_buckets option" where
  "buckets_checked_add b m =
     (case (i64_checked (gb_compute b + gb_compute m), i64_checked (gb_resource b + gb_resource m),
            i64_checked (gb_storage b + gb_storage m)) of
        (Some c, Some r, Some s) \<Rightarrow> Some \<lparr>gb_compute = c, gb_resource = r, gb_storage = s\<rparr>
      | _ \<Rightarrow> None)"

text \<open>\<open>check_add_gas_use\<close> of the interpreter: a limit of zero or less is no limit.\<close>

definition check_limit :: "int \<Rightarrow> int \<Rightarrow> unit vmrt" where
  "check_limit u lim = (if lim > 0 \<and> u > lim then Inl OutOfGas else Inr ())"

definition check_add_gas_use :: "gas_buckets \<Rightarrow> gas_buckets \<Rightarrow> gas_extra \<Rightarrow> (int \<times> gas_buckets) vmrt" where
  "check_add_gas_use gas_use step gst =
     (if gb_compute step < 0 \<or> gb_resource step < 0 \<or> gb_storage step < 0 then Inl GasError
      else bindV (okV OutOfGas (buckets_checked_total step)) (\<lambda>total_gas.
           bindV (okV OutOfGas (buckets_checked_add gas_use step)) (\<lambda>nx.
           bindV (check_limit (gb_compute nx) (ge_compute_limit gst)) (\<lambda>_.
           bindV (check_limit (gb_resource nx) (ge_resource_limit gst)) (\<lambda>_.
           bindV (check_limit (gb_storage nx) (ge_storage_limit gst)) (\<lambda>_. Inr (total_gas, nx)))))))"

section \<open>Lemmas\<close>

lemma check_add_gas_use_ok:
  assumes "check_add_gas_use use step gst = Inr (t, nx)"
  shows "t = buckets_total step" "gb_compute nx = gb_compute use + gb_compute step"
    "gb_resource nx = gb_resource use + gb_resource step" "gb_storage nx = gb_storage use + gb_storage step"
    "0 \<le> gb_compute step" "0 \<le> gb_resource step" "0 \<le> gb_storage step"
    "0 < ge_compute_limit gst \<Longrightarrow> gb_compute nx \<le> ge_compute_limit gst"
    "0 < ge_resource_limit gst \<Longrightarrow> gb_resource nx \<le> ge_resource_limit gst"
    "0 < ge_storage_limit gst \<Longrightarrow> gb_storage nx \<le> ge_storage_limit gst"
  using assms
  by (auto simp: check_add_gas_use_def bindV_eq_Inr okV_def buckets_checked_total_def buckets_checked_add_def i64_checked_def
      buckets_total_def check_limit_def split: option.splits if_splits)

lemma div_op_nonneg [simp]: "0 \<le> div_op len d"
  by (auto simp: div_op_def div_int_pos_iff pos_imp_zdiv_nonneg_iff intro: add_nonneg_nonneg)

text \<open>Growing the heap in several steps costs what growing it at once costs.\<close>

lemma grow_loop_append:
  "grow_loop g (xs @ ys) gas = bindV (grow_loop g xs gas) (\<lambda>gas. grow_loop g ys gas)"
  by (induction xs arbitrary: gas) auto

lemma grow_loop_ok: "grow_loop g xs gas = Inr t \<Longrightarrow> t = gas + sum_list (map (grow_step g) xs)"
  by (induction xs arbitrary: gas) (fastforce split: if_splits)+

lemma heap_grow_gas_additive:
  assumes "heap_grow_gas g old a limit = Inr x" "heap_grow_gas g (old + a) b limit = Inr y"
    "heap_grow_gas g old (a + b) limit = Inr z"
  shows "z = x + y"
proof -
  have "[old..<old + (a + b)] = [old..<old + a] @ [old + a..<old + a + b]"
    by (metis add.assoc le_add1 upt_add_eq_append)
  then show ?thesis using assms
    by (auto simp: heap_grow_gas_def Let_def bindV_eq_Inr split: if_splits dest!: grow_loop_ok)
qed

end
