(* ===== verification/VmStore.thy ===== *)
theory VmStore
  imports VmMonad VmGas
begin

text \<open>
  Contract storage with rent (\<^verbatim>\<open>vm/src/field/storage.rs\<close>, \<^verbatim>\<open>status.rs\<close>, \<^verbatim>\<open>state.rs\<close>). An entry holds a value, the height it
  was last settled at, a live and a recover credit. A credit is burned by the size of the entry at every block: first
  live credit, then recover credit. Entries are settled lazily, when they are touched. Credits are \<open>u32\<close> and heights
  \<open>Uint5\<close>, here naturals; the hash of long keys is a parameter.
\<close>

record 'x value_sto =
  vs_charge :: nat
  vs_live :: nat
  vs_recover :: nat
  vs_data :: "'x val"

record 'x vm_state =
  st_kv :: "u8 list \<rightharpoonup> 'x value_sto"
  st_status :: "address \<rightharpoonup> (u8 list \<times> 'x val) list"

section \<open>Entries\<close>

definition credit_u32 :: "nat \<Rightarrow> nat vmrt" where "credit_u32 v = (if v < 2 ^ 32 then Inr v else Inl StorageError)"

definition value_sto_new :: "nat \<Rightarrow> 'x val \<Rightarrow> nat \<Rightarrow> nat \<Rightarrow> 'x value_sto vmrt" where
  "value_sto_new chei data live rec = bindV (credit_u32 live) (\<lambda>l. bindV (credit_u32 rec) (\<lambda>r.
     Inr \<lparr>vs_charge = chei, vs_live = l, vs_recover = r, vs_data = data\<rparr>))"

definition unit_for :: "gas_extra \<Rightarrow> 'x val \<Rightarrow> nat vmrt" where
  "unit_for gst v = bindV (can_get_size v) (\<lambda>n. Inr (min (n + nat (max (ge_value_base_size gst) 0)) (2 ^ 64 - 1)))"

definition sto_unit :: "gas_extra \<Rightarrow> 'x value_sto \<Rightarrow> nat vmrt" where "sto_unit gst v = unit_for gst (vs_data v)"

definition is_active :: "'x value_sto \<Rightarrow> bool" where "is_active v \<longleftrightarrow> vs_live v > 0"
definition is_recoverable :: "'x value_sto \<Rightarrow> bool" where "is_recoverable v \<longleftrightarrow> vs_live v = 0 \<and> vs_recover v > 0"
definition is_absent :: "'x value_sto \<Rightarrow> bool" where "is_absent v \<longleftrightarrow> vs_live v = 0 \<and> vs_recover v = 0"

definition settle :: "nat \<Rightarrow> gas_extra \<Rightarrow> 'x value_sto \<Rightarrow> 'x value_sto vmrt" where
  "settle curhei gst v =
     bindV (sto_unit gst v) (\<lambda>u.
       if u = 0 then Inr (v\<lparr>vs_charge := curhei\<rparr>)
       else if curhei \<le> vs_charge v then Inr v
       else let elapsed = curhei - vs_charge v;
                burn = min (elapsed * u) (2 ^ 128 - 1);
                (live, burn') = (if burn \<ge> vs_live v then (0, burn - vs_live v) else (vs_live v - burn, 0));
                recover' = (if burn' \<ge> vs_recover v then 0 else vs_recover v - burn')
            in bindV (credit_u32 live) (\<lambda>l. bindV (credit_u32 recover') (\<lambda>r.
                 Inr (v\<lparr>vs_live := l, vs_recover := r, vs_charge := curhei\<rparr>))))"

definition rest_blocks :: "nat \<Rightarrow> nat \<Rightarrow> nat vmrt" where
  "rest_blocks credit u = (if u = 0 then Inl StorageError else if credit = 0 then Inr 0 else Inr ((credit - 1) div u + 1))"

definition parse_period :: "'x val \<Rightarrow> nat \<Rightarrow> nat vmrt" where
  "parse_period v max_period =
     (case extract_u128 v of Inl _ \<Rightarrow> Inl StorageError
      | Inr p \<Rightarrow> if p < 1 then Inl StoragePeriodErr else if p > max_period then Inl StoragePeriodErr else Inr p)"

definition period_credit :: "nat \<Rightarrow> nat \<Rightarrow> nat \<Rightarrow> nat vmrt" where
  "period_credit u period storage_period =
     (if storage_period = 0 then Inl StoragePeriodErr
      else bindV (if period * storage_period < 2 ^ 64 then Inr (period * storage_period) else Inl StorageError) (\<lambda>blocks.
        if u * blocks < 2 ^ 64 then Inr (u * blocks) else Inl StorageError))"

definition u64_to_i64_sat :: "nat \<Rightarrow> int" where "u64_to_i64_sat v = int (min v (2 ^ 63 - 1))"

definition refund_for_live_credit :: "nat \<Rightarrow> nat \<Rightarrow> int" where
  "refund_for_live_credit credit storage_period = u64_to_i64_sat (if storage_period = 0 then 0 else credit div storage_period)"

definition credit_cap_for_blocks :: "nat \<Rightarrow> nat \<Rightarrow> nat vmrt" where
  "credit_cap_for_blocks u blocks = (if u * blocks < 2 ^ 64 then Inr (u * blocks) else Inl StorageError)"

definition clamp_credit_to_cap :: "nat \<Rightarrow> nat \<Rightarrow> nat \<times> nat" where
  "clamp_credit_to_cap credit cap = (min credit cap, credit - min credit cap)"

definition storage_live_max_blocks :: "space_cap \<Rightarrow> nat" where
  "storage_live_max_blocks cap = min (cap_storage_period cap * cap_storage_live_max_periods cap) (2 ^ 64 - 1)"
definition storage_recv_max_blocks :: "space_cap \<Rightarrow> nat" where
  "storage_recv_max_blocks cap = min (cap_storage_period cap * cap_storage_recv_max_periods cap) (2 ^ 64 - 1)"

section \<open>Keys and size checks\<close>

definition validate_scalar_payload_len :: "'x val \<Rightarrow> nat \<Rightarrow> itr_code \<Rightarrow> unit vmrt" where
  "validate_scalar_payload_len v value_max ec =
     bindV (extract_bytes_len ec v) (\<lambda>n. if scalar_field_len_fits n value_max then Inr () else Inl ec)"

definition skey :: "(u8 list \<Rightarrow> u8 list) \<Rightarrow> address \<Rightarrow> 'x val \<Rightarrow> nat \<Rightarrow> u8 list vmrt" where
  "skey sha3 cadr key key_max =
     (case check_version cadr of Inl _ \<Rightarrow> Inl StorageError
      | Inr _ \<Rightarrow> bindV (extract_key_bytes_ec StorageKeyInvalid key) (\<lambda>k.
          if length k > key_max then Inl StorageKeyInvalid
          else let k' = cadr @ k in Inr (if length k' > 32 then sha3 k' else k')))"

section \<open>Operations\<close>

definition kv_set :: "u8 list \<Rightarrow> 'x value_sto \<Rightarrow> ('x vm_state, unit) vst" where
  "kv_set sk v = modW (\<lambda>s. s\<lparr>st_kv := (st_kv s)(sk \<mapsto> v)\<rparr>)"

definition kv_del :: "u8 list \<Rightarrow> ('x vm_state, unit) vst" where
  "kv_del sk = modW (\<lambda>s. s\<lparr>st_kv := (st_kv s)(sk := None)\<rparr>)"

definition sfetch :: "nat \<Rightarrow> gas_extra \<Rightarrow> u8 list \<Rightarrow> ('x vm_state, 'x value_sto option) vst" where
  "sfetch curhei gst sk = bindW (getW (\<lambda>s. st_kv s sk)) (\<lambda>r.
     case r of None \<Rightarrow> retW None
     | Some v \<Rightarrow> bindW (liftW (settle curhei gst v)) (\<lambda>v.
         if is_absent v then thenW (kv_del sk) (retW None) else thenW (kv_set sk v) (retW (Some v))))"

text \<open>\<open>sstat\<close> returns the two numbers that it packs in a tuple.\<close>

definition sstat ::
    "(u8 list \<Rightarrow> u8 list) \<Rightarrow> gas_extra \<Rightarrow> space_cap \<Rightarrow> nat \<Rightarrow> address \<Rightarrow> 'x val \<Rightarrow> ('x vm_state, (nat \<times> nat) option) vst" where
  "sstat sha3 gst cap curhei cadr k = bindW (liftW (skey sha3 cadr k (cap_kv_key_size cap))) (\<lambda>sk.
     bindW (sfetch curhei gst sk) (\<lambda>r. case r of None \<Rightarrow> retW None
     | Some v \<Rightarrow> bindW (liftW (bindV (sto_unit gst v) (rest_blocks (vs_live v)))) (\<lambda>live.
         bindW (liftW (bindV (sto_unit gst v) (rest_blocks (vs_recover v)))) (\<lambda>recover. retW (Some (live, recover))))))"

definition sload :: "(u8 list \<Rightarrow> u8 list) \<Rightarrow> gas_extra \<Rightarrow> space_cap \<Rightarrow> nat \<Rightarrow> address \<Rightarrow> 'x val \<Rightarrow> ('x vm_state, 'x val) vst" where
  "sload sha3 gst cap curhei cadr k = bindW (liftW (skey sha3 cadr k (cap_kv_key_size cap))) (\<lambda>sk.
     bindW (sfetch curhei gst sk) (\<lambda>r. case r of None \<Rightarrow> retW VNil
     | Some v \<Rightarrow> if is_recoverable v then failW StorageNotActive else retW (vs_data v)))"

definition snew ::
    "(u8 list \<Rightarrow> u8 list) \<Rightarrow> gas_extra \<Rightarrow> space_cap \<Rightarrow> nat \<Rightarrow> address \<Rightarrow> 'x val \<Rightarrow> 'x val \<Rightarrow> 'x val \<Rightarrow> ('x vm_state, int) vst" where
  "snew sha3 gst cap curhei cadr k v p =
     bindW (liftW (check_non_nil_scalar StorageNilNotAllowed v)) (\<lambda>_.
     bindW (liftW (validate_scalar_payload_len v (cap_value_size cap) StorageValSizeErr)) (\<lambda>_.
     bindW (liftW (parse_period p (cap_storage_live_max_periods cap))) (\<lambda>period.
     bindW (liftW (skey sha3 cadr k (cap_kv_key_size cap))) (\<lambda>sk.
     bindW (sfetch curhei gst sk) (\<lambda>r.
       if r \<noteq> None then failW StorageKeyExists
       else bindW (liftW (unit_for gst v)) (\<lambda>u.
         bindW (liftW (period_credit u period (cap_storage_period cap))) (\<lambda>live_credit.
         bindW (liftW (value_sto_new curhei v live_credit 0)) (\<lambda>vobj.
         bindW (kv_set sk vobj) (\<lambda>_.
           retW (i64_sat (ge_storage_key_cost gst + i64_sat (u64_to_i64_sat u * int period))))))))))))"

definition sedit ::
    "(u8 list \<Rightarrow> u8 list) \<Rightarrow> gas_extra \<Rightarrow> space_cap \<Rightarrow> nat \<Rightarrow> address \<Rightarrow> 'x val \<Rightarrow> 'x val \<Rightarrow> ('x vm_state, int \<times> int) vst" where
  "sedit sha3 gst cap curhei cadr k v =
     bindW (liftW (check_non_nil_scalar StorageNilNotAllowed v)) (\<lambda>_.
     bindW (liftW (validate_scalar_payload_len v (cap_value_size cap) StorageValSizeErr)) (\<lambda>_.
     bindW (liftW (skey sha3 cadr k (cap_kv_key_size cap))) (\<lambda>sk.
     bindW (sfetch curhei gst sk) (\<lambda>r. case r of None \<Rightarrow> failW StorageKeyNotFind
     | Some old \<Rightarrow>
         if \<not> is_active old then failW StorageNotActive
         else bindW (liftW (unit_for gst v)) (\<lambda>u.
           bindW (liftW (credit_cap_for_blocks u (storage_live_max_blocks cap))) (\<lambda>live_cap.
           bindW (liftW (credit_cap_for_blocks u (storage_recv_max_blocks cap))) (\<lambda>recover_cap.
             let (live_credit, trimmed_live) = clamp_credit_to_cap (vs_live old) live_cap;
                 recover_credit = fst (clamp_credit_to_cap (vs_recover old) recover_cap) in
             bindW (liftW (credit_u32 live_credit)) (\<lambda>l. bindW (liftW (credit_u32 recover_credit)) (\<lambda>rc.
             bindW (kv_set sk \<lparr>vs_charge = curhei, vs_live = l, vs_recover = rc, vs_data = v\<rparr>) (\<lambda>_.
               retW (i64_sat (u64_to_i64_sat u * ge_storage_edit_mul gst),
                     refund_for_live_credit trimmed_live (cap_storage_period cap))))))))))))"

text \<open>\<open>srent\<close> and \<open>srecv\<close> differ in the credit they top up.\<close>

definition srent ::
    "(u8 list \<Rightarrow> u8 list) \<Rightarrow> gas_extra \<Rightarrow> space_cap \<Rightarrow> nat \<Rightarrow> address \<Rightarrow> 'x val \<Rightarrow> 'x val \<Rightarrow> ('x vm_state, int) vst" where
  "srent sha3 gst cap curhei cadr k p =
     bindW (liftW (parse_period p (cap_storage_live_max_periods cap))) (\<lambda>period.
     bindW (liftW (skey sha3 cadr k (cap_kv_key_size cap))) (\<lambda>sk.
     bindW (sfetch curhei gst sk) (\<lambda>r. case r of None \<Rightarrow> failW StorageKeyNotFind
     | Some v \<Rightarrow> bindW (liftW (sto_unit gst v)) (\<lambda>u.
         bindW (liftW (period_credit u period (cap_storage_period cap))) (\<lambda>add_credit.
         bindW (liftW (if period * cap_storage_period cap < 2 ^ 64 then Inr (period * cap_storage_period cap) else Inl StorageError)) (\<lambda>add_blocks.
         bindW (liftW (rest_blocks (vs_live v) u)) (\<lambda>cur_blocks.
         bindW (liftW (if cur_blocks + add_blocks < 2 ^ 64 then Inr (cur_blocks + add_blocks) else Inl StorageError)) (\<lambda>next_blocks.
           if next_blocks > storage_live_max_blocks cap then failW StoragePeriodErr
           else bindW (liftW (if vs_live v + add_credit < 2 ^ 64 then Inr (vs_live v + add_credit) else Inl StorageError)) (\<lambda>next_credit.
             bindW (liftW (credit_u32 next_credit)) (\<lambda>l.
             bindW (kv_set sk (v\<lparr>vs_live := l, vs_charge := curhei\<rparr>)) (\<lambda>_.
               retW (i64_sat (u64_to_i64_sat u * int period))))))))))))) "

definition srecv ::
    "(u8 list \<Rightarrow> u8 list) \<Rightarrow> gas_extra \<Rightarrow> space_cap \<Rightarrow> nat \<Rightarrow> address \<Rightarrow> 'x val \<Rightarrow> 'x val \<Rightarrow> ('x vm_state, int) vst" where
  "srecv sha3 gst cap curhei cadr k p =
     bindW (liftW (parse_period p (cap_storage_recv_max_periods cap))) (\<lambda>period.
     bindW (liftW (skey sha3 cadr k (cap_kv_key_size cap))) (\<lambda>sk.
     bindW (sfetch curhei gst sk) (\<lambda>r. case r of None \<Rightarrow> failW StorageKeyNotFind
     | Some v \<Rightarrow> bindW (liftW (sto_unit gst v)) (\<lambda>u.
         bindW (liftW (period_credit u period (cap_storage_period cap))) (\<lambda>add_credit.
         bindW (liftW (if period * cap_storage_period cap < 2 ^ 64 then Inr (period * cap_storage_period cap) else Inl StorageError)) (\<lambda>add_blocks.
         bindW (liftW (rest_blocks (vs_recover v) u)) (\<lambda>cur_blocks.
         bindW (liftW (if cur_blocks + add_blocks < 2 ^ 64 then Inr (cur_blocks + add_blocks) else Inl StorageError)) (\<lambda>next_blocks.
           if next_blocks > storage_recv_max_blocks cap then failW StoragePeriodErr
           else bindW (liftW (if vs_recover v + add_credit < 2 ^ 64 then Inr (vs_recover v + add_credit) else Inl StorageError)) (\<lambda>next_credit.
             bindW (liftW (credit_u32 next_credit)) (\<lambda>r.
             bindW (kv_set sk (v\<lparr>vs_recover := r, vs_charge := curhei\<rparr>)) (\<lambda>_.
               retW (i64_sat (u64_to_i64_sat u * int period) div 3)))))))))))) "

definition sdel :: "(u8 list \<Rightarrow> u8 list) \<Rightarrow> gas_extra \<Rightarrow> space_cap \<Rightarrow> nat \<Rightarrow> address \<Rightarrow> 'x val \<Rightarrow> ('x vm_state, int) vst" where
  "sdel sha3 gst cap curhei cadr k =
     bindW (liftW (skey sha3 cadr k (cap_kv_key_size cap))) (\<lambda>sk.
     bindW (getW (\<lambda>s. st_kv s sk)) (\<lambda>r. case r of None \<Rightarrow> retW 0
     | Some v \<Rightarrow> bindW (liftW (settle curhei gst v)) (\<lambda>v.
         if is_absent v then thenW (kv_del sk) (retW 0)
         else bindW (kv_del sk) (\<lambda>_.
           liftW (okV StorageError (i64_checked (refund_for_live_credit (vs_live v) (cap_storage_period cap) + ge_storage_key_cost gst)))))))"

end
