(* ===== verification/VmSpace.thy ===== *)
theory VmSpace
  imports VmMonad VmGas "HOL-Library.AList"
begin

text \<open>
  The memory of a running contract (\<^verbatim>\<open>vm/src/space/\<close>): the stack of operands or locals, the byte heap, and the key-value
  maps of globals and of contract memory. A stack is kept in the order of the source's vector, its top last. Hash maps are
  association lists; a B-tree map is an association list with ascending keys.
\<close>

section \<open>Stack\<close>

record 'x vstack =
  sk_datas :: "'x val list"
  sk_limit :: nat

abbreviation set_datas :: "'x val list \<Rightarrow> 'x vstack \<Rightarrow> 'x vstack" where "set_datas d s \<equiv> s\<lparr>sk_datas := d\<rparr>"

definition stack_reset :: "nat \<Rightarrow> 'x vstack \<Rightarrow> 'x vstack" where "stack_reset lmt s = \<lparr>sk_datas = [], sk_limit = lmt\<rparr>"

definition stk_push :: "'x val \<Rightarrow> ('x vstack, unit) vst" where
  "stk_push v = (\<lambda>s. if length (sk_datas s) \<ge> sk_limit s then (Inl OutOfStack, s) else (Inr (), set_datas (sk_datas s @ [v]) s))"

definition stk_pop :: "('x vstack, 'x val) vst" where
  "stk_pop = (\<lambda>s. if sk_datas s = [] then (Inl StackError, s) else (Inr (last (sk_datas s)), set_datas (butlast (sk_datas s)) s))"

definition stk_peek :: "('x vstack, 'x val) vst" where
  "stk_peek = (\<lambda>s. if sk_datas s = [] then (Inl StackError, s) else (Inr (last (sk_datas s)), s))"

text \<open>An assignment through \<open>peek\<close>.\<close>

definition stk_poke :: "'x val \<Rightarrow> ('x vstack, unit) vst" where
  "stk_poke v = (\<lambda>s. if sk_datas s = [] then (Inl StackError, s) else (Inr (), set_datas (butlast (sk_datas s) @ [v]) s))"

definition stk_tail :: "nat \<Rightarrow> 'x vstack \<Rightarrow> 'x val option" where
  "stk_tail n s = (if n < length (sk_datas s) then Some (sk_datas s ! (length (sk_datas s) - 1 - n)) else None)"

definition stk_alloc :: "nat \<Rightarrow> ('x vstack, nat) vst" where
  "stk_alloc n = (\<lambda>s. if length (sk_datas s) + n > sk_limit s then (Inl OutOfStack, s)
     else (Inr n, set_datas (sk_datas s @ replicate n VNil) s))"

definition stk_taken :: "nat \<Rightarrow> ('x vstack, 'x val list) vst" where
  "stk_taken n = (\<lambda>s. let m = length (sk_datas s) in if n > m then (Inl StackError, s)
     else (Inr (drop (m - n) (sk_datas s)), set_datas (take (m - n) (sk_datas s)) s))"

definition stk_popn :: "nat \<Rightarrow> ('x vstack, 'x val list) vst" where
  "stk_popn n = (if n = 0 then retW [] else stk_taken n)"

fun stk_pushes :: "'x val list \<Rightarrow> ('x vstack, unit) vst" where
  "stk_pushes [] = retW ()"
| "stk_pushes (v # vs) = bindW (stk_push v) (\<lambda>_. stk_pushes vs)"

definition stk_dupn :: "nat \<Rightarrow> ('x vstack, unit) vst" where
  "stk_dupn n = (\<lambda>s. let m = length (sk_datas s) in
     if n < 2 then (Inl StackError, s) else if n > m then (Inl StackError, s)
     else stk_pushes (drop (m - n) (sk_datas s)) s)"

definition stk_roll :: "nat \<Rightarrow> ('x vstack, unit) vst" where
  "stk_roll x = (\<lambda>s. let d = sk_datas s; m = length d in if m < x + 1 then (Inl OutOfStack, s)
     else let i = m - (x + 1) in stk_push (d ! i) (set_datas (take i d @ drop (Suc i) d) s))"

definition stk_reverse :: "nat \<Rightarrow> ('x vstack, unit) vst" where
  "stk_reverse x = (\<lambda>s. let d = sk_datas s; l = length d in
     if x < 2 then (Inl StackError, s) else if x > l then (Inl StackError, s)
     else (Inr (), set_datas (take (l - x) d @ rev (drop (l - x) d)) s))"

definition stk_swap :: "('x vstack, unit) vst" where
  "stk_swap = (\<lambda>s. let d = sk_datas s; l = length d in if l < 2 then (Inl StackError, s)
     else (Inr (), set_datas (d[l - 1 := d ! (l - 2), l - 2 := d ! (l - 1)]) s))"

definition stk_save :: "nat \<Rightarrow> 'x val \<Rightarrow> ('x vstack, unit) vst" where
  "stk_save i v = (\<lambda>s. if i < length (sk_datas s) then (Inr (), set_datas ((sk_datas s)[i := v]) s) else (Inl OutOfStack, s))"

definition stk_load :: "nat \<Rightarrow> ('x vstack, 'x val) vst" where
  "stk_load i = (\<lambda>s. if i < length (sk_datas s) then (Inr (sk_datas s ! i), s) else (Inl OutOfStack, s))"

definition stk_last :: "('x vstack, 'x val) vst" where
  "stk_last = (\<lambda>s. if length (sk_datas s) < 1 then (Inl StackError, s) else (Inr (sk_datas s ! (length (sk_datas s) - 1)), s))"

definition stk_cat :: "space_cap \<Rightarrow> ('x vstack, unit) vst" where
  "stk_cat cap = bindW stk_pop (\<lambda>y. bindW stk_peek (\<lambda>x. bindW (liftW (concat_values cap x y)) stk_poke))"

text \<open>\<open>join\<close> first adds the lengths of the parts up, then takes them off the stack.\<close>

fun join_total :: "space_cap \<Rightarrow> nat \<Rightarrow> 'x val list \<Rightarrow> nat vmrt" where
  "join_total cap acc [] = Inr acc"
| "join_total cap acc (v # vs) =
     bindV (extract_bytes_len BytesHandle v) (\<lambda>n. bindV (checked_value_output_add cap acc n) (\<lambda>t. join_total cap t vs))"

fun join_bytes :: "'x val list \<Rightarrow> u8 list vmrt" where
  "join_bytes [] = Inr []"
| "join_bytes (v # vs) = bindV (extract_bytes_ec BytesHandle v) (\<lambda>b. bindV (join_bytes vs) (\<lambda>r. Inr (b @ r)))"

definition join_with_total :: "nat \<Rightarrow> nat \<Rightarrow> space_cap \<Rightarrow> ('x vstack, unit) vst" where
  "join_with_total n tot cap =
     (if n < 3 then failW StackError
      else bindW (getW (\<lambda>s. length (sk_datas s))) (\<lambda>m. if n > m then failW StackError
        else bindW (liftW (checked_value_output_len cap tot)) (\<lambda>_.
             bindW (stk_popn n) (\<lambda>items. bindW (liftW (join_bytes items)) (\<lambda>d.
             bindW (liftW (valid cap (VBytes d))) stk_push)))))"

definition stk_join :: "nat \<Rightarrow> space_cap \<Rightarrow> ('x vstack, unit) vst" where
  "stk_join n cap =
     (if n < 3 then failW StackError
      else bindW (getW sk_datas) (\<lambda>d. if n > length d then failW StackError
        else bindW (liftW (join_total cap 0 (drop (length d - n) d))) (\<lambda>tot. join_with_total n tot cap)))"

section \<open>Heap\<close>

record vheap =
  hp_limit :: nat
  hp_datas :: "u8 list"

definition SEGLEN :: nat where "SEGLEN = 256"

definition heap_reset :: "nat \<Rightarrow> vheap \<Rightarrow> vheap" where "heap_reset lmt h = \<lparr>hp_limit = lmt, hp_datas = []\<rparr>"

definition heap_checked_right :: "nat \<Rightarrow> nat \<Rightarrow> vheap \<Rightarrow> nat vmrt" where
  "heap_checked_right start len h =
     (if start + len \<ge> 2 ^ 64 then Inl HeapError else if start + len > length (hp_datas h) then Inl HeapError else Inr (start + len))"

definition heap_grow :: "nat \<Rightarrow> gas_extra \<Rightarrow> (vheap, int) vst" where
  "heap_grow seg gst =
     (if seg < 1 then failW HeapError else if seg > 16 then failW HeapError
      else bindW (getW id) (\<lambda>h. bindW (liftW (heap_grow_gas gst (length (hp_datas h) div SEGLEN) seg (hp_limit h))) (\<lambda>gas.
        bindW (if length (hp_datas h) + seg * SEGLEN < 2 ^ 64 then modW (\<lambda>h. h\<lparr>hp_datas := hp_datas h @ replicate (seg * SEGLEN) 0\<rparr>)
               else failW HeapError) (\<lambda>_. retW gas))))"

definition heap_write :: "nat \<Rightarrow> 'x val \<Rightarrow> (vheap, unit) vst" where
  "heap_write start v = bindW (liftW (extract_bytes_ec HeapError v)) (\<lambda>d.
     bindW (getW (heap_checked_right start (length d))) (\<lambda>r. bindW (liftW r) (\<lambda>right.
       modW (\<lambda>h. h\<lparr>hp_datas := take start (hp_datas h) @ d @ drop right (hp_datas h)\<rparr>))))"

definition heap_do_read :: "nat \<Rightarrow> nat \<Rightarrow> vheap \<Rightarrow> 'x val vmrt" where
  "heap_do_read start len h = bindV (heap_checked_right start len h) (\<lambda>_. Inr (VBytes (take len (drop start (hp_datas h)))))"

definition heap_read :: "'x val \<Rightarrow> 'x val \<Rightarrow> vheap \<Rightarrow> 'x val vmrt" where
  "heap_read i n h = bindV (extract_u32 i) (\<lambda>start. bindV (extract_u16 n) (\<lambda>len. heap_do_read start len h))"

definition heap_read_uint :: "nat \<Rightarrow> nat \<Rightarrow> vheap \<Rightarrow> 'x val vmrt" where
  "heap_read_uint uty seg h =
     (if uty > 4 then Inl HeapError
      else let len = 2 ^ uty; i = len * seg in
        if i \<ge> 2 ^ 64 then Inl HeapError
        else bindV (heap_checked_right i len h) (\<lambda>_. Inr (uint_val (8 * len) (be_nat (take len (drop i (hp_datas h)))))))"

definition heap_read_u :: "nat \<Rightarrow> vheap \<Rightarrow> 'x val vmrt" where "heap_read_u mark = heap_read_uint (mark div 2 ^ 6) (mark mod 2 ^ 6)"
definition heap_read_ul :: "nat \<Rightarrow> vheap \<Rightarrow> 'x val vmrt" where "heap_read_ul mark = heap_read_uint (mark div 2 ^ 13) (mark mod 2 ^ 13)"

section \<open>Key-value maps\<close>

record 'x kvmap =
  kv_limit :: nat
  kv_key_max :: nat
  kv_datas :: "(u8 list \<times> 'x val) list"

text \<open>The maps of globals and of memory differ in the codes of their errors: of a key, of a full map.\<close>

type_synonym kv_codes = "itr_code \<times> itr_code"

definition GKV :: kv_codes where "GKV = (GlobalError, OutOfGlobal)"
definition MKV :: kv_codes where "MKV = (MemoryError, OutOfMemory)"

definition kv_key :: "kv_codes \<Rightarrow> 'x val \<Rightarrow> 'x kvmap \<Rightarrow> u8 list vmrt" where
  "kv_key ec k m = bindV (extract_key_bytes_ec (fst ec) k) (\<lambda>key. if length key > kv_key_max m then Inl (fst ec) else Inr key)"

definition kv_key_len :: "kv_codes \<Rightarrow> 'x val \<Rightarrow> 'x kvmap \<Rightarrow> nat vmrt" where
  "kv_key_len ec k m = bindV (kv_key ec k m) (\<lambda>key. Inr (length key))"

definition kv_put :: "kv_codes \<Rightarrow> 'x val \<Rightarrow> 'x val \<Rightarrow> ('x kvmap, nat \<times> bool) vst" where
  "kv_put ec k v = bindW (liftW (check_scalar v)) (\<lambda>_. bindW (getW (kv_key ec k)) (\<lambda>r. bindW (liftW r) (\<lambda>key.
     bindW (getW kv_datas) (\<lambda>d.
       if map_of d key \<noteq> None then bindW (modW (\<lambda>m. m\<lparr>kv_datas := AList.update key v d\<rparr>)) (\<lambda>_. retW (length key, False))
       else bindW (getW kv_limit) (\<lambda>lim. if length d \<ge> lim then failW (snd ec)
         else bindW (modW (\<lambda>m. m\<lparr>kv_datas := AList.update key v d\<rparr>)) (\<lambda>_. retW (length key, True)))))))"

definition kv_get :: "kv_codes \<Rightarrow> 'x val \<Rightarrow> 'x kvmap \<Rightarrow> 'x val vmrt" where
  "kv_get ec k m = bindV (kv_key ec k m) (\<lambda>key. Inr (case map_of (kv_datas m) key of Some v \<Rightarrow> v | None \<Rightarrow> VNil))"

definition kv_remove :: "kv_codes \<Rightarrow> 'x val \<Rightarrow> ('x kvmap, unit) vst" where
  "kv_remove ec k = bindW (getW (kv_key ec k)) (\<lambda>r. bindW (liftW r) (\<lambda>key.
     modW (\<lambda>m. m\<lparr>kv_datas := AList.delete key (kv_datas m)\<rparr>)))"

definition kv_contains :: "kv_codes \<Rightarrow> 'x val \<Rightarrow> 'x kvmap \<Rightarrow> bool vmrt" where
  "kv_contains ec k m = bindV (kv_key ec k m) (\<lambda>key. Inr (map_of (kv_datas m) key \<noteq> None))"

text \<open>Memory: one map per contract.\<close>

record 'x ctcmap =
  cm_limit :: nat
  cm_key_max :: nat
  cm_datas :: "(address \<times> 'x kvmap) list"

definition cm_check_addr :: "address \<Rightarrow> unit vmrt" where
  "cm_check_addr a = (case check_version a of Inl _ \<Rightarrow> Inl MemoryError | Inr _ \<Rightarrow> Inr ())"

definition cm_entry :: "address \<Rightarrow> 'x ctcmap \<Rightarrow> 'x kvmap option vmrt" where
  "cm_entry a m = bindV (cm_check_addr a) (\<lambda>_. Inr (map_of (cm_datas m) a))"

definition cm_get :: "address \<Rightarrow> 'x val \<Rightarrow> 'x ctcmap \<Rightarrow> 'x val vmrt" where
  "cm_get a k m = bindV (cm_check_addr a) (\<lambda>_. case map_of (cm_datas m) a of Some d \<Rightarrow> kv_get MKV k d | None \<Rightarrow> Inr VNil)"

text \<open>An operation on the map of a contract, which is created when it is missing.\<close>

definition cm_new_entry :: "'x ctcmap \<Rightarrow> 'x kvmap" where
  "cm_new_entry m = \<lparr>kv_limit = cm_limit m, kv_key_max = cm_key_max m, kv_datas = []\<rparr>"

definition cm_entry_mut :: "address \<Rightarrow> ('x kvmap, 'a) vst \<Rightarrow> ('x ctcmap, 'a) vst" where
  "cm_entry_mut a f = bindW (liftW (cm_check_addr a)) (\<lambda>_. \<lambda>m.
     let d = (case map_of (cm_datas m) a of Some d \<Rightarrow> d | None \<Rightarrow> cm_new_entry m); (r, d') = f d
      in (r, m\<lparr>cm_datas := AList.update a d' (cm_datas m)\<rparr>))"

definition cm_remove :: "address \<Rightarrow> 'x val \<Rightarrow> ('x ctcmap, unit) vst" where
  "cm_remove a k = bindW (liftW (cm_check_addr a)) (\<lambda>_. bindW (getW (\<lambda>m. map_of (cm_datas m) a)) (\<lambda>r.
     case r of None \<Rightarrow> retW () | Some _ \<Rightarrow> cm_entry_mut a (kv_remove MKV k)))"

text \<open>What a pair has to satisfy before it is put in a map of either kind.\<close>

definition validate_volatile_scalar_put :: "'x val \<Rightarrow> nat \<Rightarrow> itr_code \<Rightarrow> unit vmrt" where
  "validate_volatile_scalar_put v m ec =
     bindV (case check_non_nil_scalar ec v of Inl _ \<Rightarrow> Inl ec | Inr _ \<Rightarrow> Inr ()) (\<lambda>_.
     bindV (extract_bytes_len ec v) (\<lambda>n. if scalar_field_len_fits n m then Inr () else Inl ec))"

definition validate_volatile_kv_put :: "space_cap \<Rightarrow> 'x val \<Rightarrow> 'x val \<Rightarrow> bool \<Rightarrow> itr_code \<Rightarrow> unit vmrt" where
  "validate_volatile_kv_put cap k v allow_nil ec = bindV (extract_key_bytes_ec ec k) (\<lambda>key.
     if length key > cap_kv_key_size cap then Inl ec
     else if allow_nil \<and> v = VNil then Inr () else validate_volatile_scalar_put v (cap_value_size cap) ec)"

end
