(* ===== verification/VmCompo.thy ===== *)
theory VmCompo
  imports VmMonad VmGas
begin

text \<open>
  Tuples, lists and maps (\<^verbatim>\<open>vm/src/value/compo.rs\<close>, \<^verbatim>\<open>tuple.rs\<close>, \<^verbatim>\<open>list.rs\<close>, \<^verbatim>\<open>item.rs\<close>). In the source they are
  reference-counted objects: copying a value copies the reference, and a list or map changes for all who hold it. So a value
  holds a number that names a cell of an explicit store, in which nothing is ever freed. Items of lists and maps are scalars,
  items of tuples are scalars, lists and maps; sizes and comparisons follow these two levels. A map keeps its keys ascending.
\<close>

section \<open>Maps with ascending keys\<close>

fun bytes_less :: "u8 list \<Rightarrow> u8 list \<Rightarrow> bool" where
  "bytes_less _ [] = False"
| "bytes_less [] (_ # _) = True"
| "bytes_less (a # as) (b # bs) = (a < b \<or> a = b \<and> bytes_less as bs)"

fun bt_put :: "u8 list \<Rightarrow> 'v \<Rightarrow> (u8 list \<times> 'v) list \<Rightarrow> (u8 list \<times> 'v) list" where
  "bt_put k v [] = [(k, v)]"
| "bt_put k v ((k', w) # m) =
     (if k = k' then (k, v) # m else if bytes_less k k' then (k, v) # (k', w) # m else (k', w) # bt_put k v m)"

definition bt_del :: "u8 list \<Rightarrow> (u8 list \<times> 'v) list \<Rightarrow> (u8 list \<times> 'v) list" where
  "bt_del k m = filter (\<lambda>p. fst p \<noteq> k) m"

section \<open>Cells\<close>

type_synonym rval = "nat val"

datatype cell = CTuple "rval list" | CList "rval list" | CMap "(u8 list \<times> rval) list"

record cells =
  cs_cell :: "nat \<Rightarrow> cell option"
  cs_free :: nat

definition cs_empty :: cells where "cs_empty = \<lparr>cs_cell = Map.empty, cs_free = 0\<rparr>"

definition cell_new :: "cell \<Rightarrow> (cells, nat) vst" where
  "cell_new c = (\<lambda>s. (Inr (cs_free s), \<lparr>cs_cell = (cs_cell s)(cs_free s \<mapsto> c), cs_free = cs_free s + 1\<rparr>))"

definition cell_set :: "nat \<Rightarrow> cell \<Rightarrow> (cells, unit) vst" where
  "cell_set r c = modW (\<lambda>s. s\<lparr>cs_cell := (cs_cell s)(r \<mapsto> c)\<rparr>)"

text \<open>The list or map that a value refers to, and the tuple.\<close>

definition match_compo :: "cells \<Rightarrow> rval \<Rightarrow> cell option" where
  "match_compo s v = (case v of VCompo r \<Rightarrow> cs_cell s r | _ \<Rightarrow> None)"

definition match_tuple :: "cells \<Rightarrow> rval \<Rightarrow> rval list option" where
  "match_tuple s v = (case v of VTuple r \<Rightarrow> (case cs_cell s r of Some (CTuple l) \<Rightarrow> Some l | _ \<Rightarrow> None) | _ \<Rightarrow> None)"

definition is_list_compo :: "cells \<Rightarrow> rval \<Rightarrow> bool" where
  "is_list_compo s v = (case match_compo s v of Some (CList _) \<Rightarrow> True | _ \<Rightarrow> False)"
definition is_map_compo :: "cells \<Rightarrow> rval \<Rightarrow> bool" where
  "is_map_compo s v = (case match_compo s v of Some (CMap _) \<Rightarrow> True | _ \<Rightarrow> False)"

definition the_compo :: "rval \<Rightarrow> (cells, nat \<times> cell) vst" where
  "the_compo v = (\<lambda>s. case v of VCompo r \<Rightarrow> (case cs_cell s r of Some c \<Rightarrow> (Inr (r, c), s) | None \<Rightarrow> (Inl CompoOpNotMatch, s))
     | _ \<Rightarrow> (Inl CompoOpNotMatch, s))"

section \<open>Sizes\<close>

definition sum_sizes :: "('v \<Rightarrow> nat) \<Rightarrow> nat \<Rightarrow> 'v list \<Rightarrow> nat" where
  "sum_sizes f acc l = foldl (\<lambda>a v. add_size_saturating a (f v)) acc l"

fun cell_len :: "cell \<Rightarrow> nat" where
  "cell_len (CTuple l) = length l" | "cell_len (CList l) = length l" | "cell_len (CMap m) = length m"

fun compo_val_size :: "cell \<Rightarrow> nat" where
  "compo_val_size (CTuple l) = 0"
| "compo_val_size (CList l) = sum_sizes dup_size 0 l"
| "compo_val_size (CMap m) = foldl (\<lambda>a (k, v). add_size_saturating (add_size_saturating a (length k)) (dup_size v)) 0 m"

definition item_val_size :: "cells \<Rightarrow> rval \<Rightarrow> nat" where
  "item_val_size s v = (case match_compo s v of Some c \<Rightarrow> compo_val_size c | None \<Rightarrow> dup_size v)"

definition val_size :: "cells \<Rightarrow> rval \<Rightarrow> nat" where
  "val_size s v = (case match_tuple s v of Some l \<Rightarrow> sum_sizes (item_val_size s) 0 l | None \<Rightarrow> item_val_size s v)"

definition container_len :: "cells \<Rightarrow> rval \<Rightarrow> nat vmrt" where
  "container_len s v = (case match_tuple s v of Some l \<Rightarrow> Inr (length l)
     | None \<Rightarrow> (case match_compo s v of Some c \<Rightarrow> Inr (cell_len c) | None \<Rightarrow> Inl CompoOpNotMatch))"

section \<open>Comparison\<close>

text \<open>Items are compared in pairs until one differs or cannot be compared.\<close>

fun all_pairs_eq :: "('a \<Rightarrow> 'b \<Rightarrow> bool vmrt) \<Rightarrow> 'a list \<Rightarrow> 'b list \<Rightarrow> bool vmrt" where
  "all_pairs_eq f (x # xs) (y # ys) = bindV (f x y) (\<lambda>b. if b then all_pairs_eq f xs ys else Inr False)"
| "all_pairs_eq f _ _ = Inr True"

definition scalar_content_eq :: "rval \<Rightarrow> rval \<Rightarrow> bool vmrt" where
  "scalar_content_eq l r =
     (if is_uint l \<and> is_uint r then bindV (extract_u128 l) (\<lambda>a. bindV (extract_u128 r) (\<lambda>b. Inr (a = b)))
      else if ty l \<noteq> ty r then Inl Arithmetic
      else if ty l \<in> {TyNil, TyBool, TyBytes, TyAddress} then Inr (l = r) else Inl Arithmetic)"

fun map_content_eq :: "(u8 list \<times> rval) list \<Rightarrow> (u8 list \<times> rval) list \<Rightarrow> bool vmrt" where
  "map_content_eq [] r = Inr True"
| "map_content_eq ((k, v) # m) r = (case map_of r k of None \<Rightarrow> Inr False
     | Some w \<Rightarrow> bindV (scalar_content_eq v w) (\<lambda>b. if b then map_content_eq m r else Inr False))"

fun compo_content_eq :: "cell \<Rightarrow> cell \<Rightarrow> bool vmrt" where
  "compo_content_eq (CList l) (CList r) = (if length l \<noteq> length r then Inr False else all_pairs_eq scalar_content_eq l r)"
| "compo_content_eq (CMap l) (CMap r) = (if length l \<noteq> length r then Inr False else map_content_eq l r)"
| "compo_content_eq _ _ = Inr False"

definition item_content_eq :: "cells \<Rightarrow> rval \<Rightarrow> rval \<Rightarrow> bool vmrt" where
  "item_content_eq s l r = (case (match_compo s l, match_compo s r) of
     (Some a, Some b) \<Rightarrow> if l = r then Inr True else compo_content_eq a b | _ \<Rightarrow> scalar_content_eq l r)"

definition value_content_eq :: "cells \<Rightarrow> rval \<Rightarrow> rval \<Rightarrow> bool vmrt" where
  "value_content_eq s l r = (case (match_tuple s l, match_tuple s r) of
     (Some a, Some b) \<Rightarrow> if l = r then Inr True else if length a \<noteq> length b then Inr False else all_pairs_eq (item_content_eq s) a b
   | _ \<Rightarrow> item_content_eq s l r)"

text \<open>The size a comparison is charged for; \<open>h\<close> is the fee of a container.\<close>

definition scalar_compare_fee :: "rval \<Rightarrow> rval \<Rightarrow> nat" where
  "scalar_compare_fee l r = add_size_saturating (dup_size l) (dup_size r)"

definition pairs_fee :: "(rval \<Rightarrow> rval \<Rightarrow> nat) \<Rightarrow> nat \<Rightarrow> rval list \<Rightarrow> rval list \<Rightarrow> nat" where
  "pairs_fee f h l r = (if length l \<noteq> length r then h else foldl (\<lambda>a (x, y). add_size_saturating a (f x y)) h (zip l r))"

fun map_fee :: "nat \<Rightarrow> (u8 list \<times> rval) list \<Rightarrow> (u8 list \<times> rval) list \<Rightarrow> nat" where
  "map_fee acc [] r = acc"
| "map_fee acc ((k, v) # m) r = (let a = add_size_saturating acc (length k) in
     if a = 2 ^ 64 - 1 then a else case map_of r k of None \<Rightarrow> a
     | Some w \<Rightarrow> map_fee (add_size_saturating a (scalar_compare_fee v w)) m r)"

fun compo_compare_fee :: "nat \<Rightarrow> cell \<Rightarrow> cell \<Rightarrow> nat" where
  "compo_compare_fee h (CList l) (CList r) = pairs_fee scalar_compare_fee h l r"
| "compo_compare_fee h (CMap l) (CMap r) = (if length l \<noteq> length r then h else map_fee h l r)"
| "compo_compare_fee h _ _ = h"

definition item_compare_fee :: "cells \<Rightarrow> nat \<Rightarrow> rval \<Rightarrow> rval \<Rightarrow> nat" where
  "item_compare_fee s h l r = (case (match_compo s l, match_compo s r) of
     (Some a, Some b) \<Rightarrow> if l = r then h else compo_compare_fee h a b | _ \<Rightarrow> scalar_compare_fee l r)"

definition value_compare_fee :: "cells \<Rightarrow> nat \<Rightarrow> rval \<Rightarrow> rval \<Rightarrow> nat" where
  "value_compare_fee s h l r = (case (match_tuple s l, match_tuple s r) of
     (Some a, Some b) \<Rightarrow> if l = r then h else pairs_fee (item_compare_fee s h) h a b | _ \<Rightarrow> item_compare_fee s h l r)"

section \<open>Reading\<close>

definition list_haskey :: "rval list \<Rightarrow> rval \<Rightarrow> rval vmrt" where
  "list_haskey l k = bindV (extract_u32 k) (\<lambda>i. Inr (VBool (i < length l)))"
definition list_itemget :: "rval list \<Rightarrow> rval \<Rightarrow> rval vmrt" where
  "list_itemget l k = bindV (extract_u32 k) (\<lambda>i. if i < length l then Inr (l ! i) else Inl CompoNoFindItem)"

definition value_length :: "cells \<Rightarrow> space_cap \<Rightarrow> rval \<Rightarrow> rval vmrt" where
  "value_length s cap v = (case match_tuple s v of
     Some l \<Rightarrow> if length l > cap_tuple_length cap then Inl OutOfCompoLen else Inr (VU32 (word_of_nat (length l)))
   | None \<Rightarrow> (case match_compo s v of Some c \<Rightarrow> length_value_by_len cap (cell_len c) | None \<Rightarrow> Inl CompoOpNotMatch))"

definition value_haskey :: "cells \<Rightarrow> rval \<Rightarrow> rval \<Rightarrow> rval vmrt" where
  "value_haskey s v k = (case match_tuple s v of Some l \<Rightarrow> list_haskey l k
     | None \<Rightarrow> (case match_compo s v of Some (CList l) \<Rightarrow> list_haskey l k
       | Some (CMap m) \<Rightarrow> bindV (extract_key_bytes k) (\<lambda>kb. Inr (VBool (map_of m kb \<noteq> None))) | _ \<Rightarrow> Inl CompoOpNotMatch))"

definition value_itemget :: "cells \<Rightarrow> rval \<Rightarrow> rval \<Rightarrow> rval vmrt" where
  "value_itemget s v k = (case match_tuple s v of Some l \<Rightarrow> list_itemget l k
     | None \<Rightarrow> (case match_compo s v of Some (CList l) \<Rightarrow> list_itemget l k
       | Some (CMap m) \<Rightarrow> bindV (extract_key_bytes k) (\<lambda>kb. okV CompoNoFindItem (map_of m kb)) | _ \<Rightarrow> Inl CompoOpNotMatch))"

definition clone_unpack_items :: "cells \<Rightarrow> rval \<Rightarrow> rval list vmrt" where
  "clone_unpack_items s v = (case match_tuple s v of Some l \<Rightarrow> Inr l
     | None \<Rightarrow> (case match_compo s v of Some (CList l) \<Rightarrow> Inr l | _ \<Rightarrow> Inl CompoOpNotMatch))"

section \<open>Making and changing\<close>

fun check_all :: "('v \<Rightarrow> unit vmrt) \<Rightarrow> 'v list \<Rightarrow> unit vmrt" where
  "check_all f [] = Inr ()"
| "check_all f (v # vs) = bindV (f v) (\<lambda>_. check_all f vs)"

definition compo_list :: "rval list \<Rightarrow> (cells, rval) vst" where
  "compo_list l = bindW (liftW (check_all check_scalar l)) (\<lambda>_. bindW (cell_new (CList l)) (\<lambda>r. retW (VCompo r)))"

definition compo_map :: "(u8 list \<times> rval) list \<Rightarrow> (cells, rval) vst" where
  "compo_map m = bindW (liftW (check_all check_scalar (map snd m))) (\<lambda>_. bindW (cell_new (CMap m)) (\<lambda>r. retW (VCompo r)))"

definition tuple_new :: "rval list \<Rightarrow> (cells, rval) vst" where
  "tuple_new l = (if l = [] then failW CompoPackError
     else bindW (liftW (check_all check_tuple_item l)) (\<lambda>_. bindW (cell_new (CTuple l)) (\<lambda>r. retW (VTuple r))))"

fun pack_pairs :: "rval list \<Rightarrow> (u8 list \<times> rval) list \<Rightarrow> (u8 list \<times> rval) list vmrt" where
  "pack_pairs (k # v # rest) m = bindV (extract_key_bytes k) (\<lambda>kb. bindV (check_scalar v) (\<lambda>_.
     if map_of m kb \<noteq> None then Inl CompoPackError else pack_pairs rest (bt_put kb v m)))"
| "pack_pairs _ m = Inr m"

definition compo_append :: "space_cap \<Rightarrow> rval \<Rightarrow> nat \<times> cell \<Rightarrow> (cells, unit) vst" where
  "compo_append cap v p = bindW (liftW (check_scalar v)) (\<lambda>_. case snd p of
     CList l \<Rightarrow> if length l \<ge> cap_compo_length cap then failW OutOfCompoLen else cell_set (fst p) (CList (l @ [v]))
   | _ \<Rightarrow> failW CompoOpInvalid)"

definition compo_remove :: "rval \<Rightarrow> nat \<times> cell \<Rightarrow> (cells, unit) vst" where
  "compo_remove k p = (case snd p of
     CList l \<Rightarrow> bindW (liftW (extract_u32 k)) (\<lambda>i. if i \<ge> length l then failW CompoNoFindItem
       else cell_set (fst p) (CList (take i l @ drop (Suc i) l)))
   | CMap m \<Rightarrow> bindW (liftW (extract_key_bytes k)) (\<lambda>kb. if map_of m kb = None then failW CompoNoFindItem
       else cell_set (fst p) (CMap (bt_del kb m)))
   | CTuple _ \<Rightarrow> failW CompoOpNotMatch)"

definition compo_insert :: "space_cap \<Rightarrow> rval \<Rightarrow> rval \<Rightarrow> nat \<times> cell \<Rightarrow> (cells, unit) vst" where
  "compo_insert cap k v p = bindW (liftW (check_scalar v)) (\<lambda>_. case snd p of
     CList l \<Rightarrow> bindW (liftW (extract_u32 k)) (\<lambda>i. if i > length l then failW CompoOpOverflow
       else if length l \<ge> cap_compo_length cap then failW OutOfCompoLen
       else cell_set (fst p) (CList (take i l @ [v] @ drop i l)))
   | CMap m \<Rightarrow> bindW (liftW (extract_key_bytes k)) (\<lambda>kb.
       if map_of m kb = None \<and> length m \<ge> cap_compo_length cap then failW OutOfCompoLen
       else cell_set (fst p) (CMap (bt_put kb v m)))
   | CTuple _ \<Rightarrow> failW CompoOpNotMatch)"

definition compo_clear :: "nat \<times> cell \<Rightarrow> (cells, unit) vst" where
  "compo_clear p = (case snd p of CList _ \<Rightarrow> cell_set (fst p) (CList []) | CMap _ \<Rightarrow> cell_set (fst p) (CMap [])
     | CTuple _ \<Rightarrow> failW CompoOpNotMatch)"

text \<open>Merging takes a copy of the source first; a container is not merged with itself.\<close>

fun merge_check :: "(u8 list \<times> rval) list \<Rightarrow> (u8 list \<times> rval) list \<Rightarrow> unit vmrt" where
  "merge_check [] m = Inr ()"
| "merge_check ((k, v) # src) m = bindV (check_scalar v) (\<lambda>_. if map_of m k \<noteq> None then Inl CompoPackError else merge_check src m)"

definition compo_merge :: "space_cap \<Rightarrow> nat \<times> cell \<Rightarrow> nat \<times> cell \<Rightarrow> (cells, unit) vst" where
  "compo_merge cap p q = (if fst p = fst q then failW CompoOpInvalid
     else case snd p of
       CList l \<Rightarrow> (case snd q of CList src \<Rightarrow>
           if length l + length src > cap_compo_length cap then failW OutOfCompoLen
           else bindW (liftW (check_all check_scalar src)) (\<lambda>_. cell_set (fst p) (CList (l @ src)))
         | _ \<Rightarrow> failW CompoOpNotMatch)
     | CMap m \<Rightarrow> (case snd q of CMap src \<Rightarrow> bindW (liftW (merge_check src m)) (\<lambda>_.
           if length m + length src > cap_compo_length cap then failW OutOfCompoLen
           else cell_set (fst p) (CMap (foldl (\<lambda>a (k, v). bt_put k v a) m src)))
         | _ \<Rightarrow> failW CompoOpNotMatch)
     | CTuple _ \<Rightarrow> failW CompoOpNotMatch)"

definition compo_take :: "bool \<Rightarrow> nat \<times> cell \<Rightarrow> (cells, rval) vst" where
  "compo_take first p = (case snd p of
     CList l \<Rightarrow> if l = [] then failW CompoOpOverflow
       else if first then bindW (cell_set (fst p) (CList (tl l))) (\<lambda>_. retW (List.hd l))
       else bindW (cell_set (fst p) (CList (butlast l))) (\<lambda>_. retW (last l))
   | _ \<Rightarrow> failW CompoOpNotMatch)"

definition compo_copy :: "cell \<Rightarrow> (cells, rval) vst" where
  "compo_copy c = bindW (cell_new c) (\<lambda>r. retW (VCompo r))"

definition compo_keys :: "cell \<Rightarrow> (cells, rval \<times> nat \<times> nat) vst" where
  "compo_keys c = (case c of CMap m \<Rightarrow>
       bindW (liftW (check_all (\<lambda>k. bindV (can_get_size (VBytes k :: rval)) (\<lambda>_. Inr ())) (map fst m))) (\<lambda>_.
       bindW (compo_list (map (\<lambda>p. VBytes (fst p)) m)) (\<lambda>v. retW (v, length m, sum_sizes length 0 (map fst m))))
     | _ \<Rightarrow> failW CompoOpNotMatch)"

definition compo_values :: "cell \<Rightarrow> (cells, rval \<times> nat \<times> nat) vst" where
  "compo_values c = (case c of CMap m \<Rightarrow>
       bindW (compo_list (map snd m)) (\<lambda>v. retW (v, length m, sum_sizes dup_size 0 (map snd m)))
     | _ \<Rightarrow> failW CompoOpNotMatch)"

definition tuple_to_list :: "space_cap \<Rightarrow> rval list \<Rightarrow> (cells, rval \<times> nat \<times> nat) vst" where
  "tuple_to_list cap l = (if length l > cap_compo_length cap then failW OutOfCompoLen
     else bindW (getW (\<lambda>s. sum_sizes (item_val_size s) 0 l)) (\<lambda>n. bindW (compo_list l) (\<lambda>v. retW (v, length l, n))))"

end
