(* ===== verification/VmCalls.thy ===== *)
theory VmCalls
  imports VmCode
begin

text \<open>
  User calls of the contract machine: call sites and their byte forms, how a call names its callee
  (\<^verbatim>\<open>vm/src/rt/user_call.rs\<close>), the execution context with its entry kind, effect mode and depth
  (\<^verbatim>\<open>vm/src/rt/exec.rs\<close>), and the check of a call against it (\<^verbatim>\<open>vm/src/interpreter/operand.rs\<close>).
\<close>

section \<open>Contexts\<close>

datatype entry_kind = EntryMain | EntryP2sh | EntryAbst

datatype effect_mode = EffEdit | EffView | EffPure

record exec_ctx =
  ec_entry :: entry_kind
  ec_effect :: effect_mode
  ec_depth :: nat

definition root_exec :: "entry_kind \<Rightarrow> exec_ctx" where
  "root_exec k = (case k of
     EntryMain \<Rightarrow> \<lparr>ec_entry = EntryMain, ec_effect = EffEdit, ec_depth = 0\<rparr>
   | EntryP2sh \<Rightarrow> \<lparr>ec_entry = EntryP2sh, ec_effect = EffEdit, ec_depth = 0\<rparr>
   | EntryAbst \<Rightarrow> \<lparr>ec_entry = EntryAbst, ec_effect = EffEdit, ec_depth = 1\<rparr>)"

definition is_outer_entry :: "exec_ctx \<Rightarrow> bool" where "is_outer_entry e \<longleftrightarrow> ec_depth e = 0"

definition ensure_call_depth :: "nat \<Rightarrow> exec_ctx \<Rightarrow> unit vmrt" where
  "ensure_call_depth cap e = (if ec_depth e \<ge> cap then Inl OutOfCallDepth else Inr ())"

definition enter_call :: "nat \<Rightarrow> exec_ctx \<Rightarrow> effect_mode \<Rightarrow> exec_ctx vmrt" where
  "enter_call cap e eff =
     bindV (okV OutOfCallDepth (checked_add 8 (ec_depth e) 1)) (\<lambda>d.
       let next = \<lparr>ec_entry = ec_entry e, ec_effect = eff, ec_depth = d\<rparr> in
       bindV (ensure_call_depth cap next) (\<lambda>_. Inr next))"

section \<open>Call sites\<close>

datatype call_target = TargetThis | TargetSelf | TargetUpper | TargetSuper | TargetExt u8 | TargetUse u8

datatype call_spec = Invoke call_target effect_mode "u8 list" | Splice u8 "u8 list"

datatype anchor_source = StateThis | CodeOwner | AnchorLib u8

datatype candidate_set = AnchorOnly | ParentsOnly | AnchorAndParents

fun anchor_semantics :: "call_spec \<Rightarrow> anchor_source \<times> candidate_set" where
  "anchor_semantics (Invoke TargetThis _ _) = (StateThis, AnchorAndParents)"
| "anchor_semantics (Invoke TargetSelf _ _) = (CodeOwner, AnchorOnly)"
| "anchor_semantics (Invoke TargetUpper _ _) = (CodeOwner, AnchorAndParents)"
| "anchor_semantics (Invoke TargetSuper _ _) = (CodeOwner, ParentsOnly)"
| "anchor_semantics (Invoke (TargetExt lib) _ _) = (AnchorLib lib, AnchorAndParents)"
| "anchor_semantics (Invoke (TargetUse lib) _ _) = (AnchorLib lib, AnchorOnly)"
| "anchor_semantics (Splice lib _) = (AnchorLib lib, AnchorOnly)"

fun call_selector :: "call_spec \<Rightarrow> u8 list" where
  "call_selector (Invoke _ _ s) = s" | "call_selector (Splice _ s) = s"

fun callee_effect :: "call_spec \<Rightarrow> effect_mode \<Rightarrow> effect_mode" where
  "callee_effect (Invoke _ eff _) current = eff" | "callee_effect (Splice _ _) current = current"

definition resolve_candidates :: "call_spec \<Rightarrow> 'c \<Rightarrow> 'c list \<Rightarrow> 'c list" where
  "resolve_candidates c anchor parents =
     (case snd (anchor_semantics c) of AnchorOnly \<Rightarrow> [anchor] | ParentsOnly \<Rightarrow> parents | AnchorAndParents \<Rightarrow> anchor # parents)"

definition needs_inherit_chain :: "call_spec \<Rightarrow> bool" where
  "needs_inherit_chain c \<longleftrightarrow> snd (anchor_semantics c) \<in> {ParentsOnly, AnchorAndParents}"

definition lib_index :: "call_spec \<Rightarrow> u8 option" where
  "lib_index c = (case fst (anchor_semantics c) of AnchorLib l \<Rightarrow> Some l | _ \<Rightarrow> None)"

fun requires_external_visibility :: "call_spec \<Rightarrow> bool" where
  "requires_external_visibility (Invoke (TargetExt _) EffEdit _) = True" | "requires_external_visibility _ = False"

fun switches_context :: "call_spec \<Rightarrow> bool" where
  "switches_context (Invoke (TargetExt _) _ _) = True" | "switches_context _ = False"

section \<open>Byte forms\<close>

definition FN_SIGN_WIDTH :: nat where "FN_SIGN_WIDTH = 4"
definition CALL_BODY_WIDTH :: nat where "CALL_BODY_WIDTH = 6"
definition SPLICE_BODY_WIDTH :: nat where "SPLICE_BODY_WIDTH = 5"

definition CALL_TARGET_MASK :: u8 where "CALL_TARGET_MASK = 0b00000111"
definition CALL_EFFECT_MASK :: u8 where "CALL_EFFECT_MASK = 0b00011000"
definition CALL_RESERVED_MASK :: u8 where "CALL_RESERVED_MASK = 0b11100000"

definition checked_func_sign :: "u8 list \<Rightarrow> u8 list vmrt" where
  "checked_func_sign s = (if length s \<noteq> FN_SIGN_WIDTH then Inl CastParamFail else Inr s)"

definition decode_call_target :: "u8 \<Rightarrow> u8 \<Rightarrow> call_target vmrt" where
  "decode_call_target tag arg =
     (if tag \<le> 3 then
        if arg \<noteq> 0 then Inl CallInvalid
        else Inr (if tag = 0 then TargetThis else if tag = 1 then TargetSelf else if tag = 2 then TargetUpper else TargetSuper)
      else if tag = 4 then Inr (TargetExt arg) else if tag = 5 then Inr (TargetUse arg) else Inl CallInvalid)"

fun encode_call_target :: "call_target \<Rightarrow> u8 \<times> u8" where
  "encode_call_target TargetThis = (0, 0)" | "encode_call_target TargetSelf = (1, 0)"
| "encode_call_target TargetUpper = (2, 0)" | "encode_call_target TargetSuper = (3, 0)"
| "encode_call_target (TargetExt idx) = (4, idx)" | "encode_call_target (TargetUse idx) = (5, idx)"

definition decode_short_call_body :: "u8 list \<Rightarrow> call_target \<Rightarrow> effect_mode \<Rightarrow> call_spec vmrt" where
  "decode_short_call_body s target eff =
     (if length s \<noteq> FN_SIGN_WIDTH then Inl CastParamFail else bindV (checked_func_sign s) (\<lambda>f. Inr (Invoke target eff f)))"

definition decode_short_indexed_call_body :: "u8 list \<Rightarrow> effect_mode \<Rightarrow> (u8 \<Rightarrow> call_target) \<Rightarrow> call_spec vmrt" where
  "decode_short_indexed_call_body s eff target =
     (if length s \<noteq> 1 + FN_SIGN_WIDTH then Inl CastParamFail
      else bindV (checked_func_sign (drop 1 s)) (\<lambda>f. Inr (Invoke (target (s ! 0)) eff f)))"

definition decode_call_body :: "u8 list \<Rightarrow> call_spec vmrt" where
  "decode_call_body s =
     (if length s \<noteq> CALL_BODY_WIDTH then Inl CastParamFail
      else let flags = s ! 0 in
        if flags AND CALL_RESERVED_MASK \<noteq> 0 then Inl CallInvalid
        else let e = drop_bit 3 (flags AND CALL_EFFECT_MASK) in
          bindV (if e = 0 then Inr EffEdit else if e = 1 then Inr EffView else if e = 2 then Inr EffPure else Inl CallInvalid) (\<lambda>eff.
          bindV (decode_call_target (flags AND CALL_TARGET_MASK) (s ! 1)) (\<lambda>target.
          bindV (checked_func_sign (drop 2 s)) (\<lambda>f. Inr (Invoke target eff f)))))"

definition encode_call_body :: "call_target \<Rightarrow> effect_mode \<Rightarrow> u8 list \<Rightarrow> u8 list" where
  "encode_call_body target eff sel =
     (let (tag, arg) = encode_call_target target in
      [tag OR (case eff of EffEdit \<Rightarrow> 0 | EffView \<Rightarrow> 0b00001000 | EffPure \<Rightarrow> 0b00010000), arg] @ sel)"

definition decode_splice_body :: "u8 list \<Rightarrow> call_spec vmrt" where
  "decode_splice_body s =
     (if length s \<noteq> SPLICE_BODY_WIDTH then Inl CastParamFail
      else bindV (checked_func_sign (drop 1 s)) (\<lambda>f. Inr (Splice (s ! 0) f)))"

definition encode_splice_body :: "u8 \<Rightarrow> u8 list \<Rightarrow> u8 list" where "encode_splice_body lib sel = lib # sel"

definition is_user_call_inst :: "u8 \<Rightarrow> bool" where
  "is_user_call_inst b \<longleftrightarrow> b \<in> {CODECALL, CALL, CALLEXT, CALLEXTVIEW, CALLUSEVIEW, CALLUSEPURE,
     CALLTHIS, CALLSELF, CALLSUPER, CALLSELFVIEW, CALLSELFPURE}"

definition decode_user_call_site :: "u8 \<Rightarrow> u8 list \<Rightarrow> call_spec vmrt" where
  "decode_user_call_site b s =
     (if b = CODECALL then decode_splice_body s
      else if b = CALL then decode_call_body s
      else if b = CALLEXT then decode_short_indexed_call_body s EffEdit TargetExt
      else if b = CALLEXTVIEW then decode_short_indexed_call_body s EffView TargetExt
      else if b = CALLUSEVIEW then decode_short_indexed_call_body s EffView TargetUse
      else if b = CALLUSEPURE then decode_short_indexed_call_body s EffPure TargetUse
      else if b = CALLTHIS then decode_short_call_body s TargetThis EffEdit
      else if b = CALLSELF then decode_short_call_body s TargetSelf EffEdit
      else if b = CALLSUPER then decode_short_call_body s TargetSuper EffEdit
      else if b = CALLSELFVIEW then decode_short_call_body s TargetSelf EffView
      else if b = CALLSELFPURE then decode_short_call_body s TargetSelf EffPure
      else Inl CallInvalid)"

fun encode_user_call_site :: "call_spec \<Rightarrow> u8 \<times> u8 list" where
  "encode_user_call_site (Splice lib sel) = (CODECALL, encode_splice_body lib sel)"
| "encode_user_call_site (Invoke target eff sel) =
     (case (target, eff) of
        (TargetThis, EffEdit) \<Rightarrow> (CALLTHIS, sel)
      | (TargetSelf, EffEdit) \<Rightarrow> (CALLSELF, sel)
      | (TargetSuper, EffEdit) \<Rightarrow> (CALLSUPER, sel)
      | (TargetSelf, EffView) \<Rightarrow> (CALLSELFVIEW, sel)
      | (TargetSelf, EffPure) \<Rightarrow> (CALLSELFPURE, sel)
      | (TargetExt lib, EffEdit) \<Rightarrow> (CALLEXT, lib # sel)
      | (TargetExt lib, EffView) \<Rightarrow> (CALLEXTVIEW, lib # sel)
      | (TargetUse lib, EffView) \<Rightarrow> (CALLUSEVIEW, lib # sel)
      | (TargetUse lib, EffPure) \<Rightarrow> (CALLUSEPURE, lib # sel)
      | _ \<Rightarrow> (CALL, encode_call_body target eff sel))"

section \<open>Which calls a context allows\<close>

definition check_call_mode :: "exec_ctx \<Rightarrow> call_spec \<Rightarrow> unit vmrt" where
  "check_call_mode exec call =
     bindV (case call of
         Invoke target eff sel \<Rightarrow>
           if ec_entry exec = EntryAbst \<and> switches_context call then Inl CallInAbst
           else if ec_entry exec = EntryP2sh \<and> eff = EffEdit \<and> (case target of TargetUse _ \<Rightarrow> False | _ \<Rightarrow> True) then Inl CallOtherInP2sh
           else if ec_entry exec = EntryMain \<and> eff = EffEdit \<and> is_outer_entry exec \<and> \<not> switches_context call then Inl CallOtherInMain
           else Inr ()
       | Splice lib sel \<Rightarrow> Inr ()) (\<lambda>_.
     case (ec_effect exec, callee_effect call (ec_effect exec)) of
       (EffPure, EffPure) \<Rightarrow> Inr ()
     | (EffPure, _) \<Rightarrow> Inl CallInPure
     | (EffView, EffEdit) \<Rightarrow> Inl CallLocInView
     | (EffEdit, _) \<Rightarrow> Inr ()
     | (EffView, _) \<Rightarrow> Inr ())"

section \<open>Bindings and resolution\<close>

text \<open>
  A contract address is an address of the contract version. \<open>lookup\<close> is \<open>resolve_contract\<close>: what it loads, charges
  and caches is not modelled. A function carries its configuration byte, whose top bit is \<open>FnConf::External\<close>.
\<close>

record 'f user_fn =
  uf_conf :: u8
  uf_body :: 'f

record 'f contract_obj =
  co_inherit :: "address list"
  co_library :: "address list"
  co_userfns :: "u8 list \<rightharpoonup> 'f user_fn"

record 'i bindings =
  fb_code :: "address option"
  fb_this :: "address option"
  fb_context :: address
  fb_scope :: 'i
  fb_libs :: "address list"

record 'f resolved_fn =
  rf_owner :: address
  rf_fn :: "'f user_fn"
  rf_libs :: "address list"

definition contract_from_addr :: "address \<Rightarrow> address vmrt" where
  "contract_from_addr a = (if version a \<noteq> CONTRACT then Inl (OtherCode 8) else Inr a)"

definition resolve_anchor :: "call_spec \<Rightarrow> 'i bindings \<Rightarrow> address vmrt" where
  "resolve_anchor c b =
     (case fst (anchor_semantics c) of
        StateThis \<Rightarrow> okV CallInvalid (fb_this b)
      | CodeOwner \<Rightarrow> okV CallInvalid (fb_code b)
      | AnchorLib lib \<Rightarrow>
          if unat lib \<ge> length (fb_libs b) then Inl (OtherCode 52) else contract_from_addr (fb_libs b ! unat lib))"

definition bindings_contract :: "address \<Rightarrow> address \<Rightarrow> address list \<Rightarrow> 'i \<Rightarrow> 'i bindings" where
  "bindings_contract this code libs scope =
     \<lparr>fb_code = Some code, fb_this = Some this, fb_context = this, fb_scope = scope, fb_libs = libs\<rparr>"

definition next_after_call :: "'i bindings \<Rightarrow> bool \<Rightarrow> address \<Rightarrow> address \<Rightarrow> address list \<Rightarrow> 'i bindings" where
  "next_after_call b switch anchor code libs =
     (if switch then bindings_contract anchor code libs (fb_scope b)
      else \<lparr>fb_code = Some code, fb_this = fb_this b, fb_context = fb_context b, fb_scope = fb_scope b, fb_libs = libs\<rparr>)"

definition resolve_user_on_owner :: "(address \<Rightarrow> 'f contract_obj vmrt) \<Rightarrow> address \<Rightarrow> u8 list \<Rightarrow> 'f resolved_fn option vmrt" where
  "resolve_user_on_owner lookup owner sel =
     bindV (lookup owner) (\<lambda>csto.
       case co_userfns csto sel of None \<Rightarrow> Inr None
       | Some f \<Rightarrow> Inr (Some \<lparr>rf_owner = owner, rf_fn = f, rf_libs = co_library csto\<rparr>))"

fun resolve_first :: "(address \<Rightarrow> 'f contract_obj vmrt) \<Rightarrow> u8 list \<Rightarrow> address list \<Rightarrow> 'f resolved_fn vmrt" where
  "resolve_first lookup sel [] = Inl (OtherCode 51)"
| "resolve_first lookup sel (owner # rest) =
     bindV (resolve_user_on_owner lookup owner sel) (\<lambda>hit.
       case hit of Some f \<Rightarrow> Inr f | None \<Rightarrow> resolve_first lookup sel rest)"

definition resolve_lookup_candidates :: "(address \<Rightarrow> 'f contract_obj vmrt) \<Rightarrow> address \<Rightarrow> call_spec \<Rightarrow> address list vmrt" where
  "resolve_lookup_candidates lookup anchor c =
     bindV (if needs_inherit_chain c then bindV (lookup anchor) (\<lambda>csto. Inr (co_inherit csto)) else Inr [])
       (\<lambda>parents. Inr (resolve_candidates c anchor parents))"

definition resolve_user_call :: "(address \<Rightarrow> 'f contract_obj vmrt) \<Rightarrow> call_spec \<Rightarrow> 'i bindings \<Rightarrow> (address \<times> 'f resolved_fn) vmrt" where
  "resolve_user_call lookup c b =
     bindV (resolve_anchor c b) (\<lambda>anchor.
     bindV (resolve_lookup_candidates lookup anchor c) (\<lambda>owners.
     bindV (resolve_first lookup (call_selector c) owners) (\<lambda>hit. Inr (anchor, hit))))"

definition FN_CONF_EXTERNAL :: u8 where "FN_CONF_EXTERNAL = 0b10000000"

definition check_conf :: "'f user_fn \<Rightarrow> u8 \<Rightarrow> bool" where "check_conf f m \<longleftrightarrow> uf_conf f AND m = m"

definition plan_user_call :: "(address \<Rightarrow> 'f contract_obj vmrt) \<Rightarrow> call_spec \<Rightarrow> 'i bindings \<Rightarrow> ('i bindings \<times> 'f user_fn) vmrt" where
  "plan_user_call lookup c b =
     bindV (resolve_user_call lookup c b) (\<lambda>(anchor, hit).
       if requires_external_visibility c \<and> \<not> check_conf (rf_fn hit) FN_CONF_EXTERNAL then Inl (OtherCode 62)
       else Inr (next_after_call b (switches_context c) anchor (rf_owner hit) (rf_libs hit), rf_fn hit))"

text \<open>From a frame to the frame of its callee: the interpreter's check, the call depth, the resolution.\<close>

definition enter_user_call ::
    "nat \<Rightarrow> (address \<Rightarrow> 'f contract_obj vmrt) \<Rightarrow> call_spec \<Rightarrow> exec_ctx \<Rightarrow> 'i bindings \<Rightarrow> (exec_ctx \<times> 'i bindings \<times> 'f user_fn) vmrt" where
  "enter_user_call cap lookup c e b =
     bindV (check_call_mode e c) (\<lambda>_.
     bindV (enter_call cap e (callee_effect c (ec_effect e))) (\<lambda>e'.
     bindV (plan_user_call lookup c b) (\<lambda>(b', f). Inr (e', b', f))))"

inductive call_chain ::
    "nat \<Rightarrow> (address \<Rightarrow> 'f contract_obj vmrt) \<Rightarrow> exec_ctx \<times> 'i bindings \<Rightarrow> (call_spec \<times> 'f user_fn) list \<Rightarrow> exec_ctx \<times> 'i bindings \<Rightarrow> bool"
  for cap lookup where
  chain_nil: "call_chain cap lookup x [] x"
| chain_call: "call_chain cap lookup x cs (e, b) \<Longrightarrow> enter_user_call cap lookup c e b = Inr (e', b', f) \<Longrightarrow>
    call_chain cap lookup x (cs @ [(c, f)]) (e', b')"

section \<open>Properties\<close>

text \<open>A call site decodes to the call it was encoded from, and its immediates have the length the metadata of its
  opcode gives.\<close>

theorem call_site_roundtrip:
  assumes "length (call_selector c) = FN_SIGN_WIDTH"
  shows "(case encode_user_call_site c of (b, s) \<Rightarrow>
    is_user_call_inst b \<and> decode_user_call_site b s = Inr c \<and> length s = inst_param b)"
proof (cases c)
  case (Invoke target eff sel)
  then show ?thesis
    using assms
    by (cases target; cases eff;
      simp add: is_user_call_inst_def decode_user_call_site_def decode_short_call_body_def decode_short_indexed_call_body_def
        decode_call_body_def decode_call_target_def encode_call_body_def checked_func_sign_def FN_SIGN_WIDTH_def CALL_BODY_WIDTH_def
        CALL_TARGET_MASK_def CALL_EFFECT_MASK_def CALL_RESERVED_MASK_def inst_param_def inst_meta_def metadata_rows_def Let_def)
next
  case (Splice lib sel)
  then show ?thesis
    using assms
    by (simp add: is_user_call_inst_def decode_user_call_site_def decode_splice_body_def encode_splice_body_def checked_func_sign_def
        FN_SIGN_WIDTH_def SPLICE_BODY_WIDTH_def inst_param_def inst_meta_def metadata_rows_def)
qed

lemma call_site_roundtrip_witness:
  "decode_user_call_site (fst (encode_user_call_site (Invoke TargetUpper EffView [1, 2, 3, 4])))
     (snd (encode_user_call_site (Invoke TargetUpper EffView [1, 2, 3, 4]))) = Inr (Invoke TargetUpper EffView [1, 2, 3, 4])"
  using call_site_roundtrip [of "Invoke TargetUpper EffView [1, 2, 3, 4]"] by (simp add: FN_SIGN_WIDTH_def split: prod.splits)

text \<open>Effects by what they forbid.\<close>

fun effect_rank :: "effect_mode \<Rightarrow> nat" where
  "effect_rank EffEdit = 0" | "effect_rank EffView = 1" | "effect_rank EffPure = 2"

lemma check_call_mode_ok:
  assumes "check_call_mode e c = Inr u"
  shows "effect_rank (ec_effect e) \<le> effect_rank (callee_effect c (ec_effect e))"
    "ec_entry e = EntryAbst \<Longrightarrow> \<not> switches_context c"
    "ec_entry e = EntryP2sh \<Longrightarrow> switches_context c \<Longrightarrow> callee_effect c (ec_effect e) \<noteq> EffEdit"
    "ec_entry e = EntryMain \<Longrightarrow> ec_depth e = 0 \<Longrightarrow> callee_effect c (ec_effect e) = EffEdit \<Longrightarrow> switches_context c \<or> (\<exists>l s. c = Splice l s)"
proof -
  show "effect_rank (ec_effect e) \<le> effect_rank (callee_effect c (ec_effect e))"
    using assms by (cases "ec_effect e"; cases "callee_effect c (ec_effect e)") (auto simp: check_call_mode_def bindV_eq_Inr)
  show "ec_entry e = EntryAbst \<Longrightarrow> \<not> switches_context c"
    using assms by (cases c) (auto simp: check_call_mode_def bindV_eq_Inr split: if_splits)
  show "ec_entry e = EntryP2sh \<Longrightarrow> switches_context c \<Longrightarrow> callee_effect c (ec_effect e) \<noteq> EffEdit"
    using assms by (cases c rule: switches_context.cases) (auto simp: check_call_mode_def bindV_eq_Inr split: if_splits)
  show "ec_entry e = EntryMain \<Longrightarrow> ec_depth e = 0 \<Longrightarrow> callee_effect c (ec_effect e) = EffEdit \<Longrightarrow> switches_context c \<or> (\<exists>l s. c = Splice l s)"
    using assms by (cases c) (auto simp: check_call_mode_def bindV_eq_Inr is_outer_entry_def split: if_splits)
qed

lemma enter_call_ok:
  "enter_call cap e eff = Inr e' \<Longrightarrow>
    ec_entry e' = ec_entry e \<and> ec_effect e' = eff \<and> ec_depth e' = Suc (ec_depth e) \<and> ec_depth e' < cap"
  by (auto simp: enter_call_def bindV_eq_Inr okV_def checked_add_def ensure_call_depth_def Let_def split: option.splits if_splits)

lemma plan_user_call_ok:
  assumes "plan_user_call lookup c b = Inr (b', f)"
  shows "\<not> switches_context c \<Longrightarrow> fb_context b' = fb_context b"
    "switches_context c \<Longrightarrow> resolve_anchor c b = Inr (fb_context b')"
    "requires_external_visibility c \<Longrightarrow> check_conf f FN_CONF_EXTERNAL"
  using assms by (auto simp: plan_user_call_def bindV_eq_Inr next_after_call_def bindings_contract_def resolve_user_call_def split: if_splits)

text \<open>C30: Along every chain of nested calls the entry kind stays, the effect mode never becomes more permissive, the depth
  is counted and stays below the cap; hooks never leave the storage they started in, a script never edits a storage
  other than the one it started in, and every editing call to another contract enters a function marked external.\<close>

theorem call_chain_confined:
  assumes "call_chain cap lookup (e, b) cs (e', b')"
  shows "ec_entry e' = ec_entry e \<and> effect_rank (ec_effect e) \<le> effect_rank (ec_effect e') \<and>
    ec_depth e' = ec_depth e + length cs \<and> (cs \<noteq> [] \<longrightarrow> ec_depth e' < cap) \<and>
    (ec_entry e = EntryAbst \<longrightarrow> fb_context b' = fb_context b) \<and>
    (ec_entry e = EntryP2sh \<and> fb_context b' \<noteq> fb_context b \<longrightarrow> ec_effect e' \<noteq> EffEdit) \<and>
    (\<forall>(c, f) \<in> set cs. requires_external_visibility c \<longrightarrow> check_conf f FN_CONF_EXTERNAL)"
  using assms
proof (induction "(e, b)" cs "(e', b')" arbitrary: e' b' rule: call_chain.induct)
  case (chain_call cs e1 b1 c e' b' f)
  from chain_call.hyps(3) have s: "check_call_mode e1 c = Inr ()" "enter_call cap e1 (callee_effect c (ec_effect e1)) = Inr e'"
    "plan_user_call lookup c b1 = Inr (b', f)" by (auto simp: enter_user_call_def bindV_eq_Inr)
  note e = enter_call_ok [OF s(2)] and m = check_call_mode_ok [OF s(1)] and p = plan_user_call_ok [OF s(3)]
  have edit: "ec_effect e' = EffEdit \<Longrightarrow> ec_effect e1 = EffEdit" using m(1) e by (cases "ec_effect e1") auto
  show ?case using chain_call.hyps(2) e m p edit by (cases "switches_context c") auto
qed simp

definition sample_addr :: address where "sample_addr = 1 # replicate 20 7"

definition sample_contract :: "unit contract_obj" where
  "sample_contract = \<lparr>co_inherit = [], co_library = [],
     co_userfns = [[1, 2, 3, 4] \<mapsto> \<lparr>uf_conf = 0b10000000, uf_body = ()\<rparr>]\<rparr>"

definition sample_bindings :: "unit bindings" where
  "sample_bindings = \<lparr>fb_code = None, fb_this = None, fb_context = replicate 21 0, fb_scope = (), fb_libs = [sample_addr]\<rparr>"

lemma call_chain_confined_witness:
  "\<exists>e' b'. call_chain 8 (\<lambda>a. Inr sample_contract) (root_exec EntryMain, sample_bindings)
      [(Invoke (TargetExt 0) EffEdit [1, 2, 3, 4], \<lparr>uf_conf = 0b10000000, uf_body = ()\<rparr>)] (e', b') \<and>
    fb_context b' = sample_addr \<and> ec_entry e' = EntryMain \<and> ec_depth e' = 1"
proof -
  let ?c = "Invoke (TargetExt 0) EffEdit [1, 2, 3, 4]"
  have "\<exists>e' b'. enter_user_call 8 (\<lambda>a. Inr sample_contract) ?c (root_exec EntryMain) sample_bindings =
      Inr (e', b', \<lparr>uf_conf = 0b10000000, uf_body = ()\<rparr>) \<and> fb_context b' = sample_addr"
    by (simp add: enter_user_call_def check_call_mode_def root_exec_def is_outer_entry_def enter_call_def checked_add_def ensure_call_depth_def
        plan_user_call_def resolve_user_call_def resolve_anchor_def sample_bindings_def contract_from_addr_def sample_addr_def version_def
        CONTRACT_def resolve_lookup_candidates_def needs_inherit_chain_def resolve_candidates_def resolve_user_on_owner_def
        sample_contract_def check_conf_def FN_CONF_EXTERNAL_def next_after_call_def bindings_contract_def Let_def)
  then obtain e' b' where s: "enter_user_call 8 (\<lambda>a. Inr sample_contract) ?c (root_exec EntryMain) sample_bindings =
      Inr (e', b', \<lparr>uf_conf = 0b10000000, uf_body = ()\<rparr>)" "fb_context b' = sample_addr" by blast
  have "call_chain 8 (\<lambda>a. Inr sample_contract) (root_exec EntryMain, sample_bindings)
      ([] @ [(?c, \<lparr>uf_conf = 0b10000000, uf_body = ()\<rparr>)]) (e', b')"
    by (rule chain_call [OF chain_nil s(1)])
  then show ?thesis using s(2) call_chain_confined by (fastforce simp: root_exec_def)
qed

end
