(* ===== verification/VmStatus.thy ===== *)
theory VmStatus
  imports VmStore VmSpace VmCompo VmCalls
begin

text \<open>
  The status object of a contract (\<^verbatim>\<open>vm/src/field/status.rs\<close>, \<^verbatim>\<open>vm/src/field/state.rs\<close>): a small map that is loaded, changed
  and saved as a whole, within a limit on its payload. A stored status is a list of pairs; loaded, its keys are ascending.
\<close>

type_synonym 'x status_map = "(u8 list \<times> 'x val) list"

fun status_from_storage :: "'x status_map \<Rightarrow> 'x status_map \<Rightarrow> 'x status_map vmrt" where
  "status_from_storage [] m = Inr m"
| "status_from_storage ((k, v) # items) m =
     (if is_nil v then Inl StorageError
      else bindV (check_scalar v) (\<lambda>_. if k = [] then Inl StorageError
        else if map_of m k \<noteq> None then Inl StorageError else status_from_storage items (bt_put k v m)))"

definition status_to_storage :: "'x status_map \<Rightarrow> 'x status_map vmrt" where
  "status_to_storage m = (if \<exists>p\<in>set m. length (fst p) > 255 then Inl StorageError
     else if length m > 65535 then Inl StorageError else Inr m)"

definition status_payload_size :: "'x status_map \<Rightarrow> nat" where
  "status_payload_size m = foldl (\<lambda>a (k, v). add_size_saturating (add_size_saturating a (length k)) (dup_size v)) 0 m"

definition status_validate_keys :: "nat \<Rightarrow> itr_code \<Rightarrow> 'x status_map \<Rightarrow> unit vmrt" where
  "status_validate_keys key_max ec m = (if \<exists>p\<in>set m. length (fst p) > key_max then Inl ec else Inr ())"

definition status_ensure_save_bounds :: "space_cap \<Rightarrow> 'x status_map \<Rightarrow> unit vmrt" where
  "status_ensure_save_bounds cap m =
     bindV (status_validate_keys (cap_kv_key_size cap) StorageKeyInvalid m) (\<lambda>_.
     bindV (check_all (\<lambda>p. validate_volatile_scalar_put (snd p) (cap_value_size cap) StorageValSizeErr) m) (\<lambda>_.
     if status_payload_size m > cap_status_pure_size cap then Inl StorageValSizeErr else Inr ()))"

definition status_find :: "u8 list \<Rightarrow> 'x status_map \<Rightarrow> 'x val" where
  "status_find k m = (case map_of m k of Some v \<Rightarrow> v | None \<Rightarrow> VNil)"

definition status_set_or_remove :: "u8 list \<Rightarrow> 'x val \<Rightarrow> 'x status_map \<Rightarrow> 'x status_map vmrt" where
  "status_set_or_remove k v m = (if v = VNil then Inr (bt_del k m) else bindV (check_scalar v) (\<lambda>_. Inr (bt_put k v m)))"

definition status_contract_addr :: "address \<Rightarrow> address vmrt" where
  "status_contract_addr a = (case contract_from_addr a of Inl _ \<Rightarrow> Inl StorageError | Inr c \<Rightarrow> Inr c)"

definition status_key_bytes :: "space_cap \<Rightarrow> 'x val \<Rightarrow> u8 list vmrt" where
  "status_key_bytes cap k = bindV (extract_key_bytes_ec StorageKeyInvalid k) (\<lambda>kb.
     if length kb > cap_kv_key_size cap then Inl StorageKeyInvalid else Inr kb)"

definition status_load :: "space_cap \<Rightarrow> address \<Rightarrow> 'x vm_state \<Rightarrow> 'x status_map vmrt" where
  "status_load cap c s = (case st_status s c of None \<Rightarrow> Inr []
     | Some sto \<Rightarrow> bindV (status_from_storage sto []) (\<lambda>m.
         bindV (status_validate_keys (cap_kv_key_size cap) StorageError m) (\<lambda>_. Inr m)))"

definition status_save :: "space_cap \<Rightarrow> address \<Rightarrow> 'x status_map \<Rightarrow> ('x vm_state, unit) vst" where
  "status_save cap c m = (if m = [] then modW (\<lambda>s. s\<lparr>st_status := (st_status s)(c := None)\<rparr>)
     else bindW (liftW (status_ensure_save_bounds cap m)) (\<lambda>_. bindW (liftW (status_to_storage m)) (\<lambda>sto.
       modW (\<lambda>s. s\<lparr>st_status := (st_status s)(c \<mapsto> sto)\<rparr>))))"

definition status_get_gas :: "gas_extra \<Rightarrow> 'x val \<Rightarrow> int" where
  "status_get_gas gst v = (if v = VNil then 0 else status_read gst (dup_size v))"

definition status_put_prepare :: "space_cap \<Rightarrow> 'x val \<Rightarrow> 'x val \<Rightarrow> (u8 list \<times> nat) vmrt" where
  "status_put_prepare cap k v = bindV (status_key_bytes cap k) (\<lambda>kb.
     if v = VNil then Inr (kb, 0)
     else bindV (check_scalar v) (\<lambda>_. bindV (extract_bytes_len StorageValSizeErr v) (\<lambda>n.
       if scalar_field_len_fits n (cap_value_size cap) then Inr (kb, n) else Inl StorageValSizeErr)))"

definition status_put_gas :: "gas_extra \<Rightarrow> space_cap \<Rightarrow> 'x val \<Rightarrow> 'x val \<Rightarrow> int vmrt" where
  "status_put_gas gst cap k v = bindV (status_put_prepare cap k v) (\<lambda>(kb, n). Inr (status_write gst (length kb) n))"

definition sget :: "space_cap \<Rightarrow> address \<Rightarrow> 'x val \<Rightarrow> 'x vm_state \<Rightarrow> 'x val vmrt" where
  "sget cap a k s = bindV (status_key_bytes cap k) (\<lambda>kb.
     bindV (status_contract_addr a) (\<lambda>c. bindV (status_load cap c s) (\<lambda>m. Inr (status_find kb m))))"

definition sput :: "space_cap \<Rightarrow> address \<Rightarrow> 'x val \<Rightarrow> 'x val \<Rightarrow> ('x vm_state, unit) vst" where
  "sput cap a k v = bindW (liftW (status_contract_addr a)) (\<lambda>c. bindW (liftW (status_put_prepare cap k v)) (\<lambda>(kb, n).
     bindW (getW (status_load cap c)) (\<lambda>r. bindW (liftW r) (\<lambda>m.
     bindW (liftW (status_set_or_remove kb v m)) (\<lambda>m'. status_save cap c m')))))"

section \<open>A status reads what was put\<close>

lemma bt_put_map_of: "map_of (bt_put k v m) = (map_of m)(k \<mapsto> v)"
  by (induction k v m rule: bt_put.induct) auto

lemma bt_del_map_of: "map_of (bt_del k m) = (map_of m)(k := None)"
  by (induction m) (auto simp: bt_del_def)

lemma bytes_less_Nil [simp]: "bytes_less [] b \<longleftrightarrow> b \<noteq> []" by (cases b) simp_all

lemma bytes_less_total: "bytes_less a b \<or> a = b \<or> bytes_less b a"
  by (induction a b rule: bytes_less.induct) auto

lemma bytes_less_trans: "bytes_less a b \<Longrightarrow> bytes_less b c \<Longrightarrow> bytes_less a c"
proof (induction a b arbitrary: c rule: bytes_less.induct)
  case (3 a as b bs)
  then show ?case by (cases c) auto
next
  case (2 x y)
  then show ?case by (cases c) auto
qed simp

lemma bytes_less_irrefl: "\<not> bytes_less a a" by (induction a) auto

definition ascending :: "(u8 list \<times> 'v) list \<Rightarrow> bool" where
  "ascending m = sorted_wrt bytes_less (map fst m)"

lemma bt_put_keys: "set (map fst (bt_put k v m)) = insert k (set (map fst m))"
  by (induction k v m rule: bt_put.induct) auto

lemma bt_put_ascending: "ascending m \<Longrightarrow> ascending (bt_put k v m)"
  unfolding ascending_def
proof (induction k v m rule: bt_put.induct)
  case (2 k v k' w m)
  then show ?case using bytes_less_total [of k k'] bytes_less_trans bt_put_keys [of k v m] by auto
qed simp

lemma bt_del_ascending: "ascending m \<Longrightarrow> ascending (bt_del k m)"
  by (simp add: ascending_def bt_del_def sorted_wrt_map sorted_wrt_filter)

lemma bt_put_last: "(\<And>k'. k' \<in> set (map fst m) \<Longrightarrow> bytes_less k' k) \<Longrightarrow> bt_put k v m = m @ [(k, v)]"
proof (induction m)
  case (Cons p m)
  have "bytes_less (fst p) k" using Cons.prems by simp
  then have "k \<noteq> fst p" "\<not> bytes_less k (fst p)" using bytes_less_irrefl bytes_less_trans by blast+
  then show ?case using Cons by (cases p) auto
qed simp

lemma bt_put_set: "set (bt_put k v m) \<subseteq> insert (k, v) (set m)"
  by (induction k v m rule: bt_put.induct) auto

text \<open>What a loaded status is.\<close>

definition status_ok :: "'x status_map \<Rightarrow> bool" where
  "status_ok m \<longleftrightarrow> ascending m \<and> (\<forall>(k, v) \<in> set m. k \<noteq> [] \<and> v \<noteq> VNil \<and> is_scalar_value v)"

lemma is_nil_VNil: "is_nil v \<longleftrightarrow> v = VNil" by (cases v) (simp_all add: is_nil_def)

lemma check_scalar_iff: "check_scalar v = Inr u \<longleftrightarrow> is_scalar_value v"
  by (simp add: check_scalar_def check_scalar_as_def)

lemma status_from_storage_ok:
  assumes "status_from_storage items m = Inr m'" "status_ok m"
  shows "status_ok m'"
  using assms
proof (induction items m rule: status_from_storage.induct)
  case (2 k v items m)
  then have kv: "k \<noteq> []" "v \<noteq> VNil" "is_scalar_value v" and r: "status_from_storage items (bt_put k v m) = Inr m'"
    by (auto simp: is_nil_VNil bindV_eq_Inr check_scalar_iff split: if_splits)
  have "status_ok (bt_put k v m)"
    using 2(3) kv bt_put_ascending [of m k v] bt_put_set [of k v m] by (auto simp: status_ok_def)
  then show ?case using 2 kv r by (auto simp: is_nil_VNil bindV_eq_Inr check_scalar_iff split: if_splits)
qed simp

lemma status_from_storage_id:
  assumes "status_ok (m @ items)"
  shows "status_from_storage items m = Inr (m @ items)"
  using assms
proof (induction items arbitrary: m)
  case (Cons p items)
  obtain k v where p: "p = (k, v)" by (cases p)
  have kv: "k \<noteq> []" "\<not> is_nil v" "is_scalar_value v" using Cons.prems by (auto simp: p status_ok_def is_nil_VNil)
  have less: "bytes_less k' k" if "k' \<in> set (map fst m)" for k'
    using Cons.prems that by (auto simp: p status_ok_def ascending_def sorted_wrt_append)
  then have "map_of m k = None" using bytes_less_irrefl by (auto simp: map_of_eq_None_iff)
  then show ?case using kv bt_put_last [of m k v] less Cons.IH [of "m @ [p]"] Cons.prems
    by (simp add: p check_scalar_iff [of v "()", THEN iffD2])
qed simp

lemma status_key_nonempty: "status_key_bytes cap k = Inr kb \<Longrightarrow> kb \<noteq> [] \<and> length kb \<le> cap_kv_key_size cap"
  by (auto simp: status_key_bytes_def extract_key_bytes_ec_def uint_key_bytes_def Let_def bindV_eq_Inr split: if_splits)

lemma status_load_ok: "status_load cap c s = Inr m \<Longrightarrow> status_ok m"
  by (auto simp: status_load_def bindV_eq_Inr status_ok_def ascending_def split: option.splits
      dest!: status_from_storage_ok [where m = "[]", simplified status_ok_def ascending_def, simplified])

lemma status_save_load:
  assumes "status_save cap c m s = (Inr u, t)" "status_ok m"
  shows "status_load cap c t = Inr m" "st_kv t = st_kv s" "\<And>c'. c' \<noteq> c \<Longrightarrow> st_status t c' = st_status s c'"
proof -
  have "status_load cap c t = Inr m" if "status_ensure_save_bounds cap m = Inr u'" "t = s\<lparr>st_status := (st_status s)(c \<mapsto> m)\<rparr>" for u'
    using that assms(2) status_from_storage_id [of "[]" m]
    by (auto simp: status_load_def status_ensure_save_bounds_def status_validate_keys_def bindV_eq_Inr split: if_splits)
  moreover have "status_load cap c (s\<lparr>st_status := (st_status s)(c := None)\<rparr>) = Inr []" by (simp add: status_load_def)
  ultimately show "status_load cap c t = Inr m" "st_kv t = st_kv s" "\<And>c'. c' \<noteq> c \<Longrightarrow> st_status t c' = st_status s c'"
    using assms(1) by (auto simp: status_save_def status_to_storage_def bindW_eq_Inr split: if_splits)
qed

text \<open>C40: A value put into the status of a contract is read back, nil after it was removed; the other keys of the contract and the
  statuses of other contracts read as before, and rented storage is not touched.\<close>

theorem status_put_get:
  assumes "sput cap a k v s = (Inr u, t)"
  shows "sget cap a k t = Inr v \<and>
    (\<forall>k2. status_key_bytes cap k2 \<noteq> status_key_bytes cap k \<longrightarrow> sget cap a k2 t = sget cap a k2 s) \<and>
    st_kv t = st_kv s \<and> (\<forall>c. status_contract_addr a \<noteq> Inr c \<longrightarrow> st_status t c = st_status s c)"
proof -
  obtain c kb n m m' where c: "status_contract_addr a = Inr c" and kb: "status_put_prepare cap k v = Inr (kb, n)"
    and m: "status_load cap c s = Inr m" and m': "status_set_or_remove kb v m = Inr m'" and t: "status_save cap c m' s = (Inr u, t)"
    using assms by (auto simp: sput_def bindW_eq_Inr split: prod.splits)
  have key: "status_key_bytes cap k = Inr kb" using kb by (auto simp: status_put_prepare_def bindV_eq_Inr split: if_splits)
  have ok: "status_ok m" by (rule status_load_ok [OF m])
  have m'_eq: "map_of m' = (map_of m)(kb := if v = VNil then None else Some v)"
    using m' by (auto simp: status_set_or_remove_def bt_put_map_of bt_del_map_of bindV_eq_Inr split: if_splits)
  have "status_ok m'"
    using m' ok bt_put_ascending [of m kb v] bt_put_set [of kb v m] bt_del_ascending [of m kb] status_key_nonempty [OF key]
    by (auto simp: status_set_or_remove_def status_ok_def bindV_eq_Inr check_scalar_iff bt_del_def split: if_splits)
  note sl = status_save_load [OF t this]
  have "sget cap a k t = Inr v" using c key sl(1) m'_eq by (simp add: sget_def status_find_def)
  moreover have "sget cap a k2 t = sget cap a k2 s" if "status_key_bytes cap k2 \<noteq> status_key_bytes cap k" for k2 :: "'a val"
    using that c key sl(1) m m'_eq by (cases "status_key_bytes cap k2") (simp_all add: sget_def status_find_def)
  ultimately show ?thesis using sl(2,3) c by auto
qed

definition bare_state :: "unit vm_state" where "bare_state = \<lparr>st_kv = Map.empty, st_status = Map.empty\<rparr>"

lemma status_put_get_witness:
  "\<exists>t. sput space_cap_new (1 # replicate 20 0) (VBytes [9]) (VU8 5) bare_state = (Inr (), t) \<and>
     sget space_cap_new (1 # replicate 20 0) (VBytes [9]) t = Inr (VU8 5)"
proof -
  have "\<exists>t. sput space_cap_new (1 # replicate 20 0) (VBytes [9]) (VU8 5) bare_state = (Inr (), t)"
    by (simp add: sput_def bindW_def status_contract_addr_def contract_from_addr_def status_put_prepare_def status_key_bytes_def
      extract_key_bytes_ec_def is_nil_def is_uint_def ty_is_uint_def extract_bytes_ec_def space_cap_new_def check_scalar_def check_scalar_as_def
      extract_bytes_len.simps scalar_field_len_fits_def bare_state_def status_load_def status_set_or_remove_def status_save_def
      status_ensure_save_bounds_def status_validate_keys_def validate_volatile_scalar_put_def validate_scalar_payload_len_def
      check_non_nil_scalar_def version_def CONTRACT_def status_payload_size_def add_size_saturating_def status_to_storage_def)
  then show ?thesis using status_put_get by blast
qed

end
