(* ===== verification/VmVerify.thy ===== *)
theory VmVerify
  imports VmFin VmCalls
begin

text \<open>
  The bytecode verifier of the contract machine (\<^verbatim>\<open>vm/src/rt/verify.rs\<close>) with the tables it consults
  (\<^verbatim>\<open>vm/src/rt/action.rs\<close>, \<^verbatim>\<open>vm/src/native/mod.rs\<close>): a linear scan that marks the instruction
  starts and collects the jump targets, the check of those targets, and two checks of the stack depth.
\<close>

section \<open>Tables\<close>

text \<open>The number of an action is the low byte of its kind.\<close>

definition ACTION_DEFS :: "(u8 \<times> value_ty \<times> nat) list" where
  "ACTION_DEFS = [(1, TyNil, 2), (13, TyNil, 2), (14, TyNil, 3), (10, TyNil, 2), (11, TyNil, 2), (12, TyNil, 3), (5, TyNil, 2),
     (7, TyNil, 2), (8, TyNil, 2), (6, TyNil, 3), (34, TyNil, 5), (17, TyNil, 2), (18, TyNil, 2), (19, TyNil, 3)]"

definition ACTION_ENV_DEFS :: "(u8 \<times> value_ty \<times> nat) list" where
  "ACTION_ENV_DEFS = [(0x01, TyU64, 0), (0x03, TyAddress, 0), (0x02, TyAddress, 0)]"

definition ACTION_VIEW_DEFS :: "(u8 \<times> value_ty \<times> nat) list" where
  "ACTION_VIEW_DEFS = [(0x01, TyBytes, 1), (0x02, TyU64, 2), (0x09, TyBool, 1), (0x11, TyU8, 1), (0x12, TyBytes, 2),
     (0x13, TyBytes, 3), (0x14, TyBytes, 1)]"

definition search_act_by_id :: "u8 \<Rightarrow> (u8 \<times> value_ty \<times> nat) list \<Rightarrow> (value_ty \<times> nat) option" where
  "search_act_by_id i exts = map_of exts i"

definition ensure_act_id :: "u8 \<Rightarrow> u8 \<Rightarrow> unit vmrt" where
  "ensure_act_id kd i =
     (if (if kd = ACTION then search_act_by_id i ACTION_DEFS \<noteq> None
          else if kd = ACTENV then search_act_by_id i ACTION_ENV_DEFS \<noteq> None
          else if kd = ACTVIEW then search_act_by_id i ACTION_VIEW_DEFS \<noteq> None else False)
      then Inr () else Inl InstParamsErr)"

definition native_env_idx :: "u8 list" where "native_env_idx = [1]"

definition native_func_idx :: "u8 list" where
  "native_func_idx = [31, 32, 33, 34, 37, 35, 36, 41, 101, 102, 103, 104, 105, 106, 107, 120, 121, 122, 123, 124]"

definition native_ctl_idx :: "u8 list" where
  "native_ctl_idx = [1, 21, 22, 23, 24, 25, 26, 27, 28, 29, 30, 31, 32, 33, 34, 35, 36, 37, 38, 39, 40, 41, 42, 43, 44, 45,
     46, 47, 48, 49, 50, 51, 52, 53, 54, 55, 56, 57, 58, 59, 60, 61, 62, 63, 64]"

definition ensure_idx :: "itr_code \<Rightarrow> u8 list \<Rightarrow> u8 \<Rightarrow> unit vmrt" where
  "ensure_idx e xs i = (if i \<in> set xs then Inr () else Inl e)"

section \<open>The scan\<close>

definition read_u8 :: "u8 list \<Rightarrow> nat \<Rightarrow> u8 vmrt" where
  "read_u8 codes i = (if i \<ge> length codes then Inl InstParamsErr else Inr (codes ! i))"

definition read_u16 :: "u8 list \<Rightarrow> nat \<Rightarrow> nat vmrt" where
  "read_u16 codes i = (if i + 2 > length codes then Inl InstParamsErr else Inr (be_nat (take 2 (drop i codes))))"

text \<open>The bytes of a signed immediate, as the two's complement number of \<open>b\<close> bits.\<close>

definition signed :: "nat \<Rightarrow> nat \<Rightarrow> int" where
  "signed b n = (if n < 2 ^ (b - 1) then int n else int n - 2 ^ b)"

definition ir_codes :: "u8 set" where
  "ir_codes = {IRBYTECODE, IRLIST, IRBLOCK, IRBLOCKR, IRIF, IRIFR, IRWHILE, IRBREAK, IRCONTINUE}"

text \<open>One arm of the \<open>match\<close>: the bytes of data after the immediates, and the jump target.\<close>

definition inst_params :: "u8 list \<Rightarrow> nat \<Rightarrow> u8 \<Rightarrow> nat \<Rightarrow> (nat \<times> int list) vmrt" where
  "inst_params codes max_push_buf_len b i =
     (if b = PBUF then bindV (read_u8 codes i) (\<lambda>l.
        if unat l > max_push_buf_len then Inl InstParamsErr else Inr (unat l, []))
      else if b = PBUFL then bindV (read_u16 codes i) (\<lambda>l.
        if l > max_push_buf_len then Inl InstParamsErr else Inr (l, []))
      else if b \<in> {ACTION, ACTENV, ACTVIEW} then bindV (read_u8 codes i) (\<lambda>x. bindV (ensure_act_id b x) (\<lambda>_. Inr (0, [])))
      else if b = NTFUNC then bindV (read_u8 codes i) (\<lambda>x. bindV (ensure_idx NativeFuncError native_func_idx x) (\<lambda>_. Inr (0, [])))
      else if b = NTCTL then bindV (read_u8 codes i) (\<lambda>x. bindV (ensure_idx NativeCtlError native_ctl_idx x) (\<lambda>_. Inr (0, [])))
      else if b = NTENV then bindV (read_u8 codes i) (\<lambda>x. bindV (ensure_idx NativeEnvError native_env_idx x) (\<lambda>_. Inr (0, [])))
      else if is_fin_family b then bindV (read_u8 codes i) (\<lambda>x. bindV (verify_fin_runtime_supported b x) (\<lambda>_. Inr (0, [])))
      else if b = CTO then bindV (read_u8 codes i) (\<lambda>x. bindV (parse_cto_target_ty_param x) (\<lambda>_. Inr (0, [])))
      else if b = TIS then bindV (read_u8 codes i) (\<lambda>x. bindV (parse_value_ty_param x) (\<lambda>_. Inr (0, [])))
      else if is_user_call_inst b then
        (if i + inst_param b > length codes then Inl InstParamsErr
         else bindV (decode_user_call_site b (take (inst_param b) (drop i codes))) (\<lambda>_. Inr (0, [])))
      else if b = JMPL \<or> b = BRL then bindV (read_u16 codes i) (\<lambda>t. Inr (0, [int t]))
      else if b = JMPS \<or> b = BRS then bindV (read_u8 codes i) (\<lambda>t. Inr (0, [int i + signed 8 (unat t) + 1]))
      else if b = JMPSL \<or> b = BRSL \<or> b = BRSLN then bindV (read_u16 codes i) (\<lambda>t. Inr (0, [int i + signed 16 t + 2]))
      else Inr (0, []))"

function verify_scan :: "u8 list \<Rightarrow> nat \<Rightarrow> nat \<Rightarrow> u8 \<Rightarrow> u8 list \<Rightarrow> int list \<Rightarrow> (u8 list \<times> int list \<times> u8) vmrt" where
  "verify_scan codes max_push_buf_len i cur instable jumpdest =
     (if i < length codes then
        let b = codes ! i in
        if \<not> inst_valid b then Inl InstInvalid
        else if b \<in> ir_codes then Inl InstInvalid
        else case inst_params codes max_push_buf_len b (i + 1) of
          Inl e \<Rightarrow> Inl e
        | Inr (l, dests) \<Rightarrow>
            let next = i + 1 + l + inst_param b in
            if next > length codes then Inl InstParamsErr
            else verify_scan codes max_push_buf_len next b (instable[i := 1]) (jumpdest @ dests)
      else Inr (instable, jumpdest, cur))"
  by pat_completeness auto
termination by (relation "measure (\<lambda>(codes, m, i, cur, t, j). length codes - i)") auto

declare verify_scan.simps [simp del]

definition ensure_terminal_instruction :: "u8 \<Rightarrow> unit vmrt" where
  "ensure_terminal_instruction b = (if b \<in> {RET, END, ERR, ABT} \<or> is_user_call_inst b then Inr () else Inl CodeNotWithEnd)"

definition verify_valid_instruction :: "u8 list \<Rightarrow> nat \<Rightarrow> (u8 list \<times> int list) vmrt" where
  "verify_valid_instruction codes max_push_buf_len =
     bindV (verify_scan codes max_push_buf_len 0 ACTION (replicate (length codes) 0) []) (\<lambda>(instable, jumpdest, cur).
     bindV (ensure_terminal_instruction cur) (\<lambda>_. Inr (instable, jumpdest)))"

fun verify_jump_dests :: "u8 list \<Rightarrow> int list \<Rightarrow> unit vmrt" where
  "verify_jump_dests instable [] = Inr ()"
| "verify_jump_dests instable (j # rest) =
     (if j < 0 \<or> j > int (length instable) - 1 then Inl JumpOverflow
      else if instable ! nat j = 0 then Inl JumpInDataSeg
      else verify_jump_dests instable rest)"

section \<open>Stack depth\<close>

datatype verify_entry_stack = EntryEmpty | EntryArgv | EntryOptionalArgv

record lin_stack =
  ls_min :: int
  ls_max :: int
  ls_top :: "nat option"

definition lin_new :: "verify_entry_stack \<Rightarrow> lin_stack" where
  "lin_new e = (case e of EntryEmpty \<Rightarrow> \<lparr>ls_min = 0, ls_max = 0, ls_top = None\<rparr>
     | EntryArgv \<Rightarrow> \<lparr>ls_min = 1, ls_max = 1, ls_top = None\<rparr>
     | EntryOptionalArgv \<Rightarrow> \<lparr>ls_min = 0, ls_max = 1, ls_top = None\<rparr>)"

definition lin_push :: "nat option \<Rightarrow> lin_stack \<Rightarrow> lin_stack" where
  "lin_push c s = \<lparr>ls_min = ls_min s + 1, ls_max = ls_max s + 1, ls_top = c\<rparr>"

definition apply_effect :: "int \<Rightarrow> int \<Rightarrow> lin_stack \<Rightarrow> lin_stack vmrt" where
  "apply_effect input output s =
     (if ls_max s < input then Inl StackError
      else let surviving_min = (if ls_min s < input then input else ls_min s) in
        Inr \<lparr>ls_min = surviving_min - input + output, ls_max = ls_max s - input + output, ls_top = None\<rparr>)"

definition read_u8_param :: "u8 list \<Rightarrow> nat \<Rightarrow> u8 vmrt" where
  "read_u8_param codes pc = (if pc + 1 < length codes then Inr (codes ! (pc + 1)) else Inl InstParamsErr)"

definition instruction_end :: "u8 list \<Rightarrow> nat \<Rightarrow> u8 \<Rightarrow> nat vmrt" where
  "instruction_end codes pc b =
     bindV (if b = PBUF then bindV (read_u8_param codes pc) (\<lambda>l. Inr (pc + 2 + unat l))
            else if b = PBUFL then bindV (read_u16 codes (pc + 1)) (\<lambda>l. Inr (pc + 3 + l))
            else Inr (pc + 1 + inst_param b))
       (\<lambda>pend. if pend > length codes then Inl InstParamsErr else Inr pend)"

definition is_external_stack_boundary :: "u8 \<Rightarrow> bool" where
  "is_external_stack_boundary b \<longleftrightarrow> b \<in> {ACTION, ACTENV, ACTVIEW, NTENV, NTCTL, NTFUNC, CODECALL, CALL, CALLEXT, CALLEXTVIEW,
     CALLUSEVIEW, CALLUSEPURE, CALLTHIS, CALLSELF, CALLSUPER, CALLSELFVIEW, CALLSELFPURE}"

text \<open>The step of the linear check: \<open>None\<close> is an early \<open>Ok(())\<close>.\<close>

definition lin_step :: "u8 list \<Rightarrow> nat \<Rightarrow> u8 \<Rightarrow> lin_stack \<Rightarrow> lin_stack option vmrt" where
  "lin_step codes pc b s =
     (if b = P0 then Inr (Some (lin_push (Some 0) s))
      else if b = P1 then Inr (Some (lin_push (Some 1) s))
      else if b = P2 then Inr (Some (lin_push (Some 2) s))
      else if b = P3 then Inr (Some (lin_push (Some 3) s))
      else if b = PU8 then bindV (read_u8_param codes pc) (\<lambda>x. Inr (Some (lin_push (Some (unat x)) s)))
      else if b = PU16 then bindV (read_u16 codes (pc + 1)) (\<lambda>x. Inr (Some (lin_push (Some x) s)))
      else if b \<in> {PBUF, PBUFL, PNIL, PNBUF, PTRUE, PFALSE, NEWLIST, NEWMAP, GET, GET0, GET1, GET2, GET3, HREADUL, HREADU}
        then Inr (Some (lin_push None s))
      else if b = DUP then bindV (apply_effect 1 2 s) (\<lambda>s'. Inr (Some (s'\<lparr>ls_top := ls_top s\<rparr>)))
      else if b = DUPN then bindV (read_u8_param codes pc) (\<lambda>x. let n = int (unat x) in
        if n < 2 then Inl StackError
        else bindV (apply_effect n (n * 2) s) (\<lambda>s'. Inr (Some (s'\<lparr>ls_top := ls_top s\<rparr>))))
      else if b = POP then bindV (apply_effect 1 0 s) (\<lambda>s'. Inr (Some s'))
      else if b = POPN then bindV (read_u8_param codes pc) (\<lambda>x. bindV (apply_effect (int (unat x)) 0 s) (\<lambda>s'. Inr (Some s')))
      else if b = ROLL0 then bindV (apply_effect 1 1 s) (\<lambda>s'. Inr (Some s'))
      else if b = ROLL then bindV (read_u8_param codes pc) (\<lambda>x. bindV (apply_effect (int (unat x) + 1) (int (unat x) + 1) s) (\<lambda>s'. Inr (Some s')))
      else if b = REV then bindV (read_u8_param codes pc) (\<lambda>x. let n = int (unat x) in
        if n < 2 then Inl StackError else bindV (apply_effect n n s) (\<lambda>s'. Inr (Some s')))
      else if b = JOIN then bindV (read_u8_param codes pc) (\<lambda>x. let n = int (unat x) in
        if n < 3 then Inl StackError else bindV (apply_effect n 1 s) (\<lambda>s'. Inr (Some s')))
      else if b \<in> {PACKLIST, PACKMAP, PACKTUPLE} then
        (case ls_top s of
           None \<Rightarrow> bindV (apply_effect 1 1 s) (\<lambda>_. Inr None)
         | Some arity \<Rightarrow> if arity = 0 then Inl CompoPackError
             else bindV (apply_effect (int arity + 1) 1 s) (\<lambda>s'. Inr (Some s')))
      else if is_external_stack_boundary b \<or> b \<in> {JMPL, JMPS, JMPSL} then Inr None
      else if b \<in> {BRL, BRS, BRSL, BRSLN} then bindV (apply_effect 1 0 s) (\<lambda>_. Inr None)
      else if inst_input b = 255 \<or> inst_output b = 255 then Inr None
      else bindV (apply_effect (int (inst_input b)) (int (inst_output b)) s) (\<lambda>s'. Inr (Some s')))"

lemma instruction_end_gt: "instruction_end codes pc b = Inr next \<Longrightarrow> pc < next \<and> next \<le> length codes"
  by (auto simp: instruction_end_def bindV_eq_Inr split: if_splits)

function lin_loop :: "u8 list \<Rightarrow> nat \<Rightarrow> lin_stack \<Rightarrow> unit vmrt" where
  "lin_loop codes pc s =
     (if pc < length codes then
        case instruction_end codes pc (codes ! pc) of
          Inl e \<Rightarrow> Inl e
        | Inr next \<Rightarrow> (case lin_step codes pc (codes ! pc) s of
            Inl e \<Rightarrow> Inl e | Inr None \<Rightarrow> Inr () | Inr (Some s') \<Rightarrow> lin_loop codes next s')
      else Inr ())"
  by pat_completeness auto
termination by (relation "measure (\<lambda>(codes, pc, s). length codes - pc)") (auto dest: instruction_end_gt)

declare lin_loop.simps [simp del]

definition verify_linear_stack_effects :: "u8 list \<Rightarrow> verify_entry_stack \<Rightarrow> unit vmrt" where
  "verify_linear_stack_effects codes entry = lin_loop codes 0 (lin_new entry)"

function fin_prefix_loop :: "u8 list \<Rightarrow> nat \<Rightarrow> int \<Rightarrow> unit vmrt" where
  "fin_prefix_loop codes i depth =
     (if i < length codes then
        let b = codes ! i in
        case instruction_end codes i b of
          Inl e \<Rightarrow> Inl e
        | Inr pend \<Rightarrow>
            if b \<in> {PU8, PU16, PBUF, PBUFL, P0, P1, P2, P3, PNIL, PNBUF, PTRUE, PFALSE}
            then fin_prefix_loop codes pend (depth + 1)
            else if is_fin_family b \<and> depth < int (inst_input b) then Inl StackError
            else Inr ()
      else Inr ())"
  by pat_completeness auto
termination by (relation "measure (\<lambda>(codes, i, d). length codes - i)") (auto dest: instruction_end_gt)

declare fin_prefix_loop.simps [simp del]

definition verify_literal_fin_stack_prefix :: "u8 list \<Rightarrow> unit vmrt" where
  "verify_literal_fin_stack_prefix codes = fin_prefix_loop codes 0 1"

section \<open>The verifier\<close>

definition verify_bytecodes_with_limits :: "u8 list \<Rightarrow> nat \<Rightarrow> verify_entry_stack \<Rightarrow> u8 list vmrt" where
  "verify_bytecodes_with_limits codes max_push_buf_len entry =
     (if length codes = 0 then Inl CodeEmpty
      else if length codes > 65535 then Inl CodeTooLong
      else bindV (verify_valid_instruction codes max_push_buf_len) (\<lambda>(instable, jumpdests).
           bindV (verify_jump_dests instable jumpdests) (\<lambda>_.
           bindV (verify_linear_stack_effects codes entry) (\<lambda>_.
           bindV (verify_literal_fin_stack_prefix codes) (\<lambda>_. Inr instable)))))"

definition verify_bytecodes :: "u8 list \<Rightarrow> u8 list vmrt" where
  "verify_bytecodes codes = verify_bytecodes_with_limits codes 1280 EntryOptionalArgv"

text \<open>\<open>convert_and_check\<close> on bytecode; \<open>function_size\<close> and \<open>value_size\<close> are the caps. IR is compiled first.\<close>

definition convert_and_check :: "nat \<Rightarrow> nat \<Rightarrow> u8 list \<Rightarrow> u8 list vmrt" where
  "convert_and_check function_size value_size codes =
     (if length codes > function_size then Inl CodeTooLong else verify_bytecodes_with_limits codes value_size EntryOptionalArgv)"

section \<open>Well-formed code\<close>

text \<open>The positions of the instructions, walking over immediates and data.\<close>

definition buf_len :: "u8 list \<Rightarrow> nat \<Rightarrow> nat" where
  "buf_len codes i = (if codes ! i = PBUF then unat (codes ! (i + 1))
     else if codes ! i = PBUFL then be_nat (take 2 (drop (i + 1) codes)) else 0)"

definition inst_size :: "u8 list \<Rightarrow> nat \<Rightarrow> nat" where
  "inst_size codes i = 1 + buf_len codes i + inst_param (codes ! i)"

lemma inst_size_pos [simp]: "0 < inst_size codes i" by (simp add: inst_size_def)

function starts_from :: "u8 list \<Rightarrow> nat \<Rightarrow> nat list" where
  "starts_from codes i = (if i < length codes then i # starts_from codes (i + inst_size codes i) else [])"
  by pat_completeness auto
termination by (relation "measure (\<lambda>(codes, i). length codes - i)") (auto simp: inst_size_def)

declare starts_from.simps [simp del]

definition starts :: "u8 list \<Rightarrow> nat set" where "starts codes = set (starts_from codes 0)"

definition jump_target :: "u8 list \<Rightarrow> nat \<Rightarrow> int option" where
  "jump_target codes i =
     (let b = codes ! i; arg = be_nat (take 2 (drop (i + 1) codes)) in
      if b = JMPL \<or> b = BRL then Some (int arg)
      else if b = JMPS \<or> b = BRS then Some (int i + 2 + signed 8 (unat (codes ! (i + 1))))
      else if b = JMPSL \<or> b = BRSL \<or> b = BRSLN then Some (int i + 3 + signed 16 arg)
      else None)"

definition terminal_inst :: "u8 \<Rightarrow> bool" where
  "terminal_inst b \<longleftrightarrow> b \<in> {RET, END, ERR, ABT} \<or> is_user_call_inst b"

definition wf_inst :: "u8 list \<Rightarrow> nat \<Rightarrow> bool" where
  "wf_inst codes i \<longleftrightarrow> inst_valid (codes ! i) \<and> codes ! i \<notin> ir_codes \<and> i + inst_size codes i \<le> length codes \<and>
     (i + inst_size codes i = length codes \<longrightarrow> terminal_inst (codes ! i)) \<and>
     (case jump_target codes i of None \<Rightarrow> True | Some t \<Rightarrow> 0 \<le> t \<and> nat t \<in> starts codes)"

definition wf_code :: "u8 list \<Rightarrow> bool" where
  "wf_code codes \<longleftrightarrow> codes \<noteq> [] \<and> (\<forall>i \<in> starts codes. wf_inst codes i)"

lemma starts_from_unfold:
  "i < length codes \<Longrightarrow> starts_from codes i = i # starts_from codes (i + inst_size codes i)"
  "\<not> i < length codes \<Longrightarrow> starts_from codes i = []"
  by (simp_all add: starts_from.simps [of codes i])

lemma starts_from_ge: "k \<in> set (starts_from codes i) \<Longrightarrow> i \<le> k \<and> k < length codes"
proof (induction codes i rule: starts_from.induct)
  case (1 codes i)
  show ?case
  proof (cases "i < length codes")
    case True
    then show ?thesis using "1.IH" "1.prems" by (fastforce simp: starts_from_unfold)
  qed (use "1.prems" in \<open>simp add: starts_from_unfold\<close>)
qed

lemma starts_from_next:
  "k \<in> set (starts_from codes i) \<Longrightarrow> k + inst_size codes k < length codes \<Longrightarrow> k + inst_size codes k \<in> set (starts_from codes i)"
proof (induction codes i rule: starts_from.induct)
  case (1 codes i)
  have i: "i < length codes" using "1.prems"(1) starts_from_unfold(2) [of i codes] by fastforce
  show ?case
  proof (cases "k = i")
    case True
    then show ?thesis using i "1.prems"(2) by (simp add: starts_from_unfold)
  next
    case False
    then show ?thesis using i "1.IH" "1.prems" by (simp add: starts_from_unfold)
  qed
qed

lemma starts_less: "k \<in> starts codes \<Longrightarrow> k < length codes" using starts_from_ge by (auto simp: starts_def)

lemma starts_next: "k \<in> starts codes \<Longrightarrow> k + inst_size codes k < length codes \<Longrightarrow> k + inst_size codes k \<in> starts codes"
  using starts_from_next by (auto simp: starts_def)

lemma starts_zero: "codes \<noteq> [] \<Longrightarrow> 0 \<in> starts codes"
  unfolding starts_def by (subst starts_from.simps) simp

lemma inst_params_buf:
  assumes "inst_params codes m (codes ! i) (i + 1) = Inr (l, dests)"
  shows "l = buf_len codes i" "dests = (case jump_target codes i of None \<Rightarrow> [] | Some t \<Rightarrow> [t])"
proof -
  show "l = buf_len codes i"
    using assms by (auto simp: inst_params_def buf_len_def bindV_eq_Inr read_u8_def read_u16_def split: if_splits)
  show "dests = (case jump_target codes i of None \<Rightarrow> [] | Some t \<Rightarrow> [t])"
    using assms by (auto simp: inst_params_def jump_target_def bindV_eq_Inr read_u8_def read_u16_def is_fin_family_def
        is_user_call_inst_def Let_def split: if_splits)
qed

lemma verify_scan_ok:
  "verify_scan codes m i cur tab dst = Inr (tab', dst', cur') \<Longrightarrow> length tab = length codes \<Longrightarrow> i \<le> length codes \<Longrightarrow>
    length tab' = length codes \<and>
    (\<forall>k. k < length codes \<longrightarrow> tab' ! k = (if k \<in> set (starts_from codes i) then 1 else tab ! k)) \<and>
    set dst \<subseteq> set dst' \<and>
    (\<forall>k \<in> set (starts_from codes i). inst_valid (codes ! k) \<and> codes ! k \<notin> ir_codes \<and> k + inst_size codes k \<le> length codes \<and>
      (\<forall>t. jump_target codes k = Some t \<longrightarrow> t \<in> set dst') \<and>
      (k + inst_size codes k = length codes \<longrightarrow> cur' = codes ! k))"
proof (induction codes m i cur tab dst rule: verify_scan.induct)
  case (1 codes m i cur tab dst)
  show ?case
  proof (cases "i < length codes")
    case False
    then have "verify_scan codes m i cur tab dst = Inr (tab, dst, cur)" by (simp add: verify_scan.simps)
    then show ?thesis using "1.prems" False by (simp add: starts_from_unfold)
  next
    case True
    let ?b = "codes ! i"
    obtain l ds where ps: "inst_params codes m ?b (i + 1) = Inr (l, ds)"
      using "1.prems"(1) True by (auto simp: verify_scan.simps [of codes m i] Let_def split: if_splits sum.splits)
    note pb = inst_params_buf [OF ps]
    have nx: "i + 1 + l + inst_param ?b = i + inst_size codes i" by (simp add: pb(1) inst_size_def)
    have v: "inst_valid ?b" "?b \<notin> ir_codes" and le: "i + inst_size codes i \<le> length codes"
      and rec: "verify_scan codes m (i + inst_size codes i) ?b (tab[i := 1]) (dst @ ds) = Inr (tab', dst', cur')"
      using "1.prems"(1) True ps unfolding nx [symmetric]
      by (auto simp: verify_scan.simps [of codes m i] Let_def simp del: One_nat_def split: if_splits)
    have IH: "length tab' = length codes \<and>
        (\<forall>k. k < length codes \<longrightarrow> tab' ! k = (if k \<in> set (starts_from codes (i + inst_size codes i)) then 1 else tab[i := 1] ! k)) \<and>
        set (dst @ ds) \<subseteq> set dst' \<and>
        (\<forall>k \<in> set (starts_from codes (i + inst_size codes i)). inst_valid (codes ! k) \<and> codes ! k \<notin> ir_codes \<and>
          k + inst_size codes k \<le> length codes \<and> (\<forall>t. jump_target codes k = Some t \<longrightarrow> t \<in> set dst') \<and>
          (k + inst_size codes k = length codes \<longrightarrow> cur' = codes ! k))"
      using "1.IH" [OF True refl _ _ ps refl] v le rec "1.prems"(2) unfolding nx by (simp del: One_nat_def)
    have last: "i + inst_size codes i = length codes \<Longrightarrow> cur' = codes ! i"
      using rec by (simp add: verify_scan.simps)
    have nb: "i \<notin> set (starts_from codes (i + inst_size codes i))" using starts_from_ge inst_size_pos by (metis add_le_same_cancel1 not_le)
    show ?thesis using IH last v le pb(2) nb True "1.prems"(2) by (auto simp: starts_from_unfold)
  qed
qed

lemma verify_jump_dests_ok:
  "verify_jump_dests tab js = Inr u \<Longrightarrow> j \<in> set js \<Longrightarrow> 0 \<le> j \<and> nat j < length tab \<and> tab ! nat j \<noteq> 0"
  by (induction js) (auto split: if_splits)

text \<open>C29: Accepted bytecode is well formed: from its first byte on, instruction follows instruction without a gap, each one is
  known, carries its immediates and data inside the code, jumps only to the start of another, and the last one ends
  the run or is a call; the returned table marks exactly the starts.\<close>

theorem verified_code_wellformed:
  assumes "verify_bytecodes_with_limits codes m entry = Inr instable"
  shows "wf_code codes \<and> length codes \<le> 65535 \<and> length instable = length codes \<and>
    (\<forall>i < length codes. instable ! i \<noteq> 0 \<longleftrightarrow> i \<in> starts codes)"
proof -
  from assms obtain js cur where v: "0 < length codes" "length codes \<le> 65535"
      "verify_scan codes m 0 ACTION (replicate (length codes) 0) [] = Inr (instable, js, cur)"
      "ensure_terminal_instruction cur = Inr ()" "verify_jump_dests instable js = Inr ()"
    by (auto simp: verify_bytecodes_with_limits_def verify_valid_instruction_def bindV_eq_Inr split: if_splits)
  note sc = verify_scan_ok [OF v(3)]
  have tab: "length instable = length codes" "\<forall>i < length codes. instable ! i \<noteq> 0 \<longleftrightarrow> i \<in> starts codes"
    using sc by (auto simp: starts_def)
  have tm: "terminal_inst cur" using v(4) by (auto simp: ensure_terminal_instruction_def terminal_inst_def split: if_splits)
  have "wf_inst codes i" if i: "i \<in> starts codes" for i
  proof -
    have s: "inst_valid (codes ! i)" "codes ! i \<notin> ir_codes" "i + inst_size codes i \<le> length codes"
      "\<forall>t. jump_target codes i = Some t \<longrightarrow> t \<in> set js" "i + inst_size codes i = length codes \<longrightarrow> cur = codes ! i"
      using sc i unfolding starts_def by auto
    have "0 \<le> t \<and> nat t \<in> starts codes" if "jump_target codes i = Some t" for t
      using verify_jump_dests_ok [OF v(5), of t] s(4) that tab by auto
    then show ?thesis using s tm by (auto simp: wf_inst_def split: option.splits)
  qed
  then show ?thesis using v(1,2) tab by (auto simp: wf_code_def)
qed

lemma verified_code_wellformed_witness:
  "wf_code [PTRUE, BRS, 1, NOP, PU8, 7, RET] \<and> verify_bytecodes [PTRUE, BRS, 1, NOP, PU8, 7, RET] = Inr [1, 1, 0, 1, 1, 0, 1]"
proof -
  have m: "inst_meta PTRUE = (0, 0, 1)" "inst_meta BRS = (1, 1, 0)" "inst_meta NOP = (0, 0, 0)" "inst_meta PU8 = (1, 0, 1)"
    "inst_meta RET = (0, 1, 0)" by (simp_all add: inst_meta_def metadata_rows_def)
  have v: "inst_valid PTRUE" "inst_valid BRS" "inst_valid NOP" "inst_valid PU8" "inst_valid RET"
    by (simp_all add: inst_valid_def metadata_rows_def)
  have "verify_bytecodes [PTRUE, BRS, 1, NOP, PU8, 7, RET] = Inr [1, 1, 0, 1, 1, 0, 1]"
    by (simp add: verify_bytecodes_def verify_bytecodes_with_limits_def verify_valid_instruction_def verify_scan.simps
        inst_params_def inst_param_def inst_input_def inst_output_def m v ir_codes_def is_fin_family_def is_user_call_inst_def
        read_u8_def read_u16_def signed_def ensure_terminal_instruction_def verify_linear_stack_effects_def lin_loop.simps
        lin_step_def lin_new_def lin_push_def apply_effect_def instruction_end_def read_u8_param_def is_external_stack_boundary_def
        verify_literal_fin_stack_prefix_def fin_prefix_loop.simps Let_def)
  then show ?thesis using verified_code_wellformed by (fastforce simp: verify_bytecodes_def)
qed

section \<open>Code that is never reached\<close>

text \<open>The stack check walks past an instruction that ends the frame, so that two pops that are never reached are refused.\<close>

lemma dead_code_checked: "verify_bytecodes [END, POP, POP, END] = Inl StackError"
proof -
  have m: "inst_meta END = (0, 0, 0)" "inst_meta POP = (0, 255, 0)" by (simp_all add: inst_meta_def metadata_rows_def)
  have v: "inst_valid END" "inst_valid POP" by (simp_all add: inst_valid_def metadata_rows_def)
  show ?thesis
    by (simp add: verify_bytecodes_def verify_bytecodes_with_limits_def verify_valid_instruction_def verify_scan.simps
        inst_params_def inst_param_def inst_input_def inst_output_def m v ir_codes_def is_fin_family_def is_user_call_inst_def
        ensure_terminal_instruction_def verify_linear_stack_effects_def lin_loop.simps lin_step_def lin_new_def apply_effect_def
        instruction_end_def is_external_stack_boundary_def Let_def)
qed

end
