(* ===== verification/VmFunc.thy ===== *)
theory VmFunc
  imports VmStatus VmVerify
begin

text \<open>
  Functions of contracts: their parameter types (\<^verbatim>\<open>vm/src/field/func.rs\<close>), the kinds of values that may cross the boundary of
  a call (\<^verbatim>\<open>vm/src/value/canbe.rs\<close>), their code (\<^verbatim>\<open>vm/src/rt/code.rs\<close>, \<^verbatim>\<open>function.rs\<close>). The compiler from IR to bytecode is a
  parameter. An error text of the source, which its callers map to a code, is \<open>None\<close>.
\<close>

unbundle bit_operations_syntax

abbreviation CodeTypeError :: itr_code where "CodeTypeError \<equiv> OtherCode 4"

section \<open>Types of a function\<close>

text \<open>The high nibble of \<open>typnum\<close> is the output type, the low one the number of parameters, two parameter types to a byte.\<close>

record func_types =
  ft_typnum :: u8
  ft_define :: "u8 list"

definition MAX_FUNC_PARAM_LEN :: nat where "MAX_FUNC_PARAM_LEN = 15"

definition bit4l :: "u8 \<Rightarrow> u8" where "bit4l n = drop_bit 4 n"
definition bit4r :: "u8 \<Rightarrow> u8" where "bit4r n = n AND 15"

definition param_count :: "func_types \<Rightarrow> nat" where "param_count ft = unat (bit4r (ft_typnum ft))"
definition def_size :: "func_types \<Rightarrow> nat" where "def_size ft = (param_count ft + 1) div 2"

definition func_argv_type :: "value_ty \<Rightarrow> bool" where "func_argv_type t \<longleftrightarrow> t \<noteq> TyNil \<and> t \<noteq> TyTuple"
definition func_retv_type :: "value_ty \<Rightarrow> bool" where "func_retv_type t \<longleftrightarrow> t \<noteq> TyNil"

fun pack_types :: "value_ty list \<Rightarrow> u8 list" where
  "pack_types [] = []"
| "pack_types [t] = [push_bit 4 (ty_num t)]"
| "pack_types (t # t' # ts) = (push_bit 4 (ty_num t) OR ty_num t') # pack_types ts"

definition types_from :: "value_ty option \<Rightarrow> value_ty list \<Rightarrow> func_types option" where
  "types_from otp tys =
     (if \<exists>t. otp = Some t \<and> \<not> func_retv_type t then None
      else if length tys > MAX_FUNC_PARAM_LEN then None
      else if \<exists>t \<in> set tys. \<not> func_argv_type t then None
      else Some \<lparr>ft_typnum = (case otp of Some t \<Rightarrow> push_bit 4 (ty_num t) | None \<Rightarrow> 0) OR word_of_nat (length tys),
        ft_define = pack_types tys\<rparr>)"

definition output_type :: "func_types \<Rightarrow> value_ty option option" where
  "output_type ft = (case ty_build (bit4l (ft_typnum ft)) of None \<Rightarrow> None
     | Some t \<Rightarrow> if t = TyNil then Some None else if func_retv_type t then Some (Some t) else None)"

definition param_type :: "u8 list \<Rightarrow> nat \<Rightarrow> value_ty option" where
  "param_type ds i = (let tn = ds ! (i div 2) in
     case ty_build (if even i then bit4l tn else bit4r tn) of None \<Rightarrow> None | Some t \<Rightarrow> if func_argv_type t then Some t else None)"

definition param_types :: "func_types \<Rightarrow> value_ty list option" where
  "param_types ft = (let n = param_count ft in
     if n = 0 then Some [] else if (n + 1) div 2 > length (ft_define ft) then None
     else those (map (param_type (ft_define ft)) [0..<n]))"

definition types_parse :: "u8 list \<Rightarrow> (func_types \<times> nat) ret" where
  "types_parse buf = bindR (bufeatone buf) (\<lambda>n.
     let z = def_size \<lparr>ft_typnum = n, ft_define = []\<rparr> in
     bindR (bufeat (drop 1 buf) z) (\<lambda>ds. Inr (\<lparr>ft_typnum = n, ft_define = ds\<rparr>, 1 + z)))"

definition types_serialize :: "func_types \<Rightarrow> u8 list" where
  "types_serialize ft = (let z = def_size ft in
     ft_typnum ft # take z (ft_define ft) @ replicate (z - length (ft_define ft)) 0)"

definition check_output :: "func_types \<Rightarrow> rval \<Rightarrow> rval vmrt" where
  "check_output ft v = bindV (okV CallArgvTypeFail (output_type ft)) (\<lambda>o'. case o' of None \<Rightarrow> Inr v
     | Some t \<Rightarrow> (case cast_param t v of Inl _ \<Rightarrow> Inl CallArgvTypeFail | Inr w \<Rightarrow> Inr w))"

fun cast_params :: "value_ty list \<Rightarrow> rval list \<Rightarrow> rval list vmrt" where
  "cast_params (t # ts) (v # vs) = bindV (cast_param t v) (\<lambda>w. bindV (cast_params ts vs) (\<lambda>ws. Inr (w # ws)))"
| "cast_params _ vs = Inr vs"

definition check_params :: "func_types \<Rightarrow> rval \<Rightarrow> (cells, rval) vst" where
  "check_params ft v = bindW (liftW (okV CallArgvTypeFail (param_types ft))) (\<lambda>tys.
     if tys = [] then retW v
     else if length tys = 1 then liftW (cast_param (tys ! 0) v)
     else bindW (getW (\<lambda>c. match_tuple c v)) (\<lambda>t. case t of None \<Rightarrow> failW CallArgvTypeFail
       | Some items \<Rightarrow> if length items \<noteq> length tys then failW CallArgvTypeFail
         else bindW (liftW (cast_params tys items)) (\<lambda>ws. \<lambda>c. case tuple_new ws c of (Inl _, c') \<Rightarrow> (Inl CallArgvTypeFail, c') | x \<Rightarrow> x)))"

section \<open>Values at the boundary of a call\<close>

text \<open>Lists and maps hold scalars, tuples hold scalars, lists, maps and handles.\<close>

definition check_func_tuple_item :: "itr_code \<Rightarrow> rval \<Rightarrow> unit vmrt" where
  "check_func_tuple_item ec v = (case v of VTuple _ \<Rightarrow> Inl ec | VCompo _ \<Rightarrow> Inr () | VHandle _ \<Rightarrow> Inr () | _ \<Rightarrow> check_scalar_as ec v)"

definition check_func_boundary :: "cells \<Rightarrow> itr_code \<Rightarrow> rval \<Rightarrow> unit vmrt" where
  "check_func_boundary c ec v = (case v of
       VTuple _ \<Rightarrow> check_all (check_func_tuple_item ec) (case match_tuple c v of Some l \<Rightarrow> l | None \<Rightarrow> [])
     | VCompo _ \<Rightarrow> Inr () | VHandle _ \<Rightarrow> Inr () | _ \<Rightarrow> check_scalar_as ec v)"

definition check_func_argv :: "cells \<Rightarrow> rval \<Rightarrow> unit vmrt" where
  "check_func_argv c v = bindV (check_func_boundary c CastBeFnArgvFail v) (\<lambda>_.
     case match_tuple c v of Some l \<Rightarrow> if length l > MAX_FUNC_PARAM_LEN then Inl CastBeFnArgvFail else Inr () | None \<Rightarrow> Inr ())"

definition check_func_retv :: "cells \<Rightarrow> rval \<Rightarrow> unit vmrt" where
  "check_func_retv c v = check_func_boundary c CastBeFnRetvFail v"

definition valid_cap :: "space_cap \<Rightarrow> rval \<Rightarrow> unit vmrt" where "valid_cap cap v = bindV (valid cap v) (\<lambda>_. Inr ())"

definition item_value_cap :: "cells \<Rightarrow> space_cap \<Rightarrow> rval \<Rightarrow> unit vmrt" where
  "item_value_cap c cap v = (case match_compo c v of
       Some (CList l) \<Rightarrow> check_all (valid_cap cap) l
     | Some (CMap m) \<Rightarrow> check_all (\<lambda>(k, w). if length k > cap_value_size cap then Inl OutOfValueSize else valid_cap cap w) m
     | _ \<Rightarrow> valid_cap cap v)"

definition check_boundary_value_cap :: "cells \<Rightarrow> space_cap \<Rightarrow> rval \<Rightarrow> unit vmrt" where
  "check_boundary_value_cap c cap v = (case match_tuple c v of
       Some l \<Rightarrow> check_all (item_value_cap c cap) l | None \<Rightarrow> item_value_cap c cap v)"

definition item_container_cap :: "cells \<Rightarrow> space_cap \<Rightarrow> rval \<Rightarrow> unit vmrt" where
  "item_container_cap c cap v = (case match_compo c v of
       Some x \<Rightarrow> if cell_len x > cap_compo_length cap then Inl OutOfCompoLen else Inr () | None \<Rightarrow> Inr ())"

definition check_container_cap :: "cells \<Rightarrow> space_cap \<Rightarrow> rval \<Rightarrow> unit vmrt" where
  "check_container_cap c cap v = (case match_tuple c v of
       Some l \<Rightarrow> if length l > cap_tuple_length cap then Inl OutOfCompoLen else check_all (item_container_cap c cap) l
     | None \<Rightarrow> item_container_cap c cap v)"

section \<open>Code of a function\<close>

datatype code_type = CodeBytecode | CodeIRNode

definition code_type_parse :: "u8 \<Rightarrow> code_type vmrt" where
  "code_type_parse n = (let t = n AND 0b00000011 in
     if t = 0 then Inr CodeBytecode else if t = 1 then Inr CodeIRNode else Inl CodeTypeError)"

definition code_conf_parse :: "u8 \<Rightarrow> u8 vmrt" where
  "code_conf_parse raw = (if raw AND 0b11111100 \<noteq> 0 then Inl CodeTypeError else bindV (code_type_parse raw) (\<lambda>_. Inr raw))"

record code_stuff =
  cd_conf :: u8
  cd_data :: "u8 list"

record fn_obj =
  fo_agvty :: "func_types option"
  fo_ctype :: code_type
  fo_codes :: "u8 list"

definition fn_create :: "u8 \<Rightarrow> code_stuff \<Rightarrow> func_types option \<Rightarrow> fn_obj user_fn vmrt" where
  "fn_create fncnf stuff agvty = bindV (code_conf_parse (cd_conf stuff)) (\<lambda>conf. bindV (code_type_parse conf) (\<lambda>t.
     Inr \<lparr>uf_conf = fncnf, uf_body = \<lparr>fo_agvty = agvty, fo_ctype = t, fo_codes = cd_data stuff\<rparr>\<rparr>))"

text \<open>The compiled code is kept with the function; compiling it again would give the same.\<close>

definition exec_bytecodes :: "(u8 list \<Rightarrow> u8 list vmrt) \<Rightarrow> fn_obj \<Rightarrow> u8 list vmrt" where
  "exec_bytecodes compile f = (case fo_ctype f of CodeBytecode \<Rightarrow> Inr (fo_codes f) | CodeIRNode \<Rightarrow> compile (fo_codes f))"

section \<open>Types read back\<close>

lemma ty_num_build [simp]: "ty_build (ty_num t) = Some t"
  by (cases t) (simp_all add: ty_build_def ty_num_def)

lemma ty_num_nibble: "bit4l (push_bit 4 (ty_num t) OR ty_num t') = ty_num t" "bit4r (push_bit 4 (ty_num t) OR ty_num t') = ty_num t'"
   "bit4l (push_bit 4 (ty_num t)) = ty_num t"
  by (cases t; cases t'; simp add: bit4l_def bit4r_def ty_num_def)+

lemma count_nibble:
  assumes "n \<le> 15"
  shows "bit4r (word_of_nat n) = word_of_nat n" "bit4l (word_of_nat n) = 0"
proof -
  have "n \<in> {0, 1, 2, 3, 4, 5, 6, 7, 8, 9, 10, 11, 12, 13, 14, 15}" unfolding insert_iff empty_iff using assms by presburger
  then show "bit4r (word_of_nat n) = word_of_nat n" "bit4l (word_of_nat n) = 0"
    by (auto simp: bit4r_def bit4l_def)
qed

lemma typnum_nibbles:
  assumes "n \<le> 15"
  shows "bit4r ((case otp of Some t \<Rightarrow> push_bit 4 (ty_num t) | None \<Rightarrow> 0) OR word_of_nat n) = word_of_nat n"
    "bit4l ((case otp of Some t \<Rightarrow> push_bit 4 (ty_num t) | None \<Rightarrow> 0) OR word_of_nat n) = (case otp of Some t \<Rightarrow> ty_num t | None \<Rightarrow> 0)"
proof -
  have t: "push_bit 4 (ty_num t) AND 15 = 0" "drop_bit 4 (push_bit 4 (ty_num t)) = ty_num t" for t
    by (cases t; simp add: ty_num_def)+
  show "bit4r ((case otp of Some t \<Rightarrow> push_bit 4 (ty_num t) | None \<Rightarrow> 0) OR word_of_nat n) = word_of_nat n"
    "bit4l ((case otp of Some t \<Rightarrow> push_bit 4 (ty_num t) | None \<Rightarrow> 0) OR word_of_nat n) = (case otp of Some t \<Rightarrow> ty_num t | None \<Rightarrow> 0)"
    using count_nibble [OF assms] t unfolding bit4r_def bit4l_def
    by (auto simp: bit.conj_disj_distrib2 drop_bit_or split: option.split)
qed

lemma pack_types_length [simp]: "length (pack_types tys) = (length tys + 1) div 2"
  by (induction tys rule: pack_types.induct) auto

lemma pack_types_param:
  "i < length tys \<Longrightarrow> \<forall>t \<in> set tys. func_argv_type t \<Longrightarrow> param_type (pack_types tys) i = Some (tys ! i)"
proof (induction tys arbitrary: i rule: pack_types.induct)
  case (3 t t' ts)
  consider "i = 0" | "i = 1" | j where "i = Suc (Suc j)" by (metis One_nat_def not0_implies_Suc)
  then show ?case
  proof cases
    case 3
    then show ?thesis using "3.IH" [of j] "3.prems" by (simp add: param_type_def Let_def)
  qed (use 3 in \<open>simp_all add: param_type_def ty_num_nibble\<close>)
qed (simp_all add: param_type_def ty_num_nibble)

lemma those_map_Some: "(\<And>i. i \<in> set xs \<Longrightarrow> f i = Some (g i)) \<Longrightarrow> those (map f xs) = Some (map g xs)"
  by (induction xs) auto

text \<open>C??: The packed types of a function read back: the output type, the parameter types in order, and the bytes parse to the
  types they were written from, using exactly their length.\<close>

theorem func_types_roundtrip:
  assumes "types_from otp tys = Some ft"
  shows "output_type ft = Some otp \<and> param_types ft = Some tys \<and>
    types_parse (types_serialize ft @ rest) = Inr (ft, length (types_serialize ft))"
proof -
  have n: "length tys \<le> 15" and args: "\<forall>t \<in> set tys. func_argv_type t" and out: "otp \<noteq> Some TyNil"
    and ft: "ft_typnum ft = (case otp of Some t \<Rightarrow> push_bit 4 (ty_num t) | None \<Rightarrow> 0) OR word_of_nat (length tys)" "ft_define ft = pack_types tys"
    using assms by (auto simp: types_from_def MAX_FUNC_PARAM_LEN_def func_retv_type_def split: if_splits)
  have "unat (word_of_nat (length tys) :: u8) = length tys" using n by (simp add: unat_of_nat)
  then have count: "param_count ft = length tys" by (simp add: param_count_def ft typnum_nibbles [OF n])
  have "ty_build 0 = Some TyNil" by (simp add: ty_build_def)
  then have "output_type ft = Some otp"
    using out by (auto simp: output_type_def ft typnum_nibbles [OF n] func_retv_type_def split: option.split)
  moreover have "param_types ft = Some tys"
    using those_map_Some [of "[0..<length tys]" "param_type (pack_types tys)" "(!) tys"] pack_types_param [OF _ args]
    by (simp add: param_types_def count ft map_nth Let_def)
  moreover have "def_size \<lparr>ft_typnum = ft_typnum ft, ft_define = []\<rparr> = def_size ft" "\<lparr>ft_typnum = ft_typnum ft, ft_define = ft_define ft\<rparr> = ft"
    by (simp_all add: def_size_def param_count_def)
  moreover have "def_size ft = length (ft_define ft)" by (simp add: def_size_def count ft(2))
  ultimately have "types_parse (types_serialize ft @ rest) = Inr (ft, length (types_serialize ft))"
    by (simp add: types_parse_def types_serialize_def Let_def bufeat_def)
  then show ?thesis using \<open>output_type ft = Some otp\<close> \<open>param_types ft = Some tys\<close> by blast
qed

lemma func_types_roundtrip_witness:
  "\<exists>ft. types_from (Some TyU64) [TyU8, TyBytes, TyAddress] = Some ft \<and> param_types ft = Some [TyU8, TyBytes, TyAddress] \<and>
     types_parse (types_serialize ft @ [7]) = Inr (ft, 3)"
proof -
  obtain ft where ft: "types_from (Some TyU64) [TyU8, TyBytes, TyAddress] = Some ft" "length (types_serialize ft) = 3"
    by (simp add: types_from_def func_retv_type_def func_argv_type_def MAX_FUNC_PARAM_LEN_def types_serialize_def def_size_def
      param_count_def bit4r_def ty_num_def)
  then show ?thesis using func_types_roundtrip [OF ft(1), of "[7]"] by auto
qed

end
