(* ===== verification/VmContract.thy ===== *)
theory VmContract
  imports VmFunc VmVerify
begin

text \<open>
  Stored contracts (\<^verbatim>\<open>vm/src/field/contract.rs\<close>, \<^verbatim>\<open>vm/src/rt/abst_call.rs\<close>): their parts and sizes, the check of a contract
  before it is stored, edits, and the form a contract is loaded in. The vector of a counted list stands for the list, with the
  bound of its count. Bytecode is verified by the definitions of \<open>VmVerify\<close>; the compiler from IR is a parameter.
\<close>

abbreviation ContractError :: itr_code where "ContractError \<equiv> OtherCode 1"
abbreviation NotFindContract :: itr_code where "NotFindContract \<equiv> OtherCode 2"
abbreviation AbstTypeError :: itr_code where "AbstTypeError \<equiv> OtherCode 3"
abbreviation InheritError :: itr_code where "InheritError \<equiv> OtherCode 5"
abbreviation LibraryError :: itr_code where "LibraryError \<equiv> OtherCode 6"
abbreviation ContractUpgradeErr :: itr_code where "ContractUpgradeErr \<equiv> OtherCode 9"
abbreviation OutOfLoadContract :: itr_code where "OutOfLoadContract \<equiv> OtherCode 38"

section \<open>Data\<close>

record contract_meta =
  mt_vrsn :: u8
  mt_revision :: nat
  mt_mark :: "u8 list"
  mt_mext :: "u8 list"

record abst_sto =
  ac_sign :: u8
  ac_mark :: "u8 list"
  ac_fncnf :: u8
  ac_code :: code_stuff

record user_sto =
  uc_sign :: "u8 list"
  uc_mark :: "u8 list"
  uc_fncnf :: u8
  uc_pmdf :: func_types
  uc_code :: code_stuff

record calc_sto =
  cc_sign :: "u8 list"
  cc_mark :: u8
  cc_fncnf :: u8
  cc_code :: code_stuff

record contract_sto =
  ct_metas :: contract_meta
  ct_inherit :: "address list"
  ct_library :: "address list"
  ct_abstcalls :: "abst_sto list"
  ct_userfuncs :: "user_sto list"
  ct_calcfuncs :: "calc_sto list"
  ct_morextend :: nat

record contract_edition =
  ed_revision :: nat
  ed_raw_size :: nat
  ed_hash :: "u8 list"

record contract_edit =
  ce_new_revision :: nat
  ce_inherit_add :: "address list"
  ce_inherit_replace :: "(nat \<times> address) list"
  ce_library_add :: "address list"
  ce_library_replace :: "(nat \<times> address) list"
  ce_abstcalls :: "abst_sto list"
  ce_userfuncs :: "user_sto list"
  ce_calcfuncs :: "calc_sto list"

section \<open>Byte form, size and edition\<close>

definition code_bytes :: "code_stuff \<Rightarrow> u8 list" where
  "code_bytes c = cd_conf c # be_bytes 2 (length (cd_data c)) @ cd_data c"

definition meta_bytes :: "contract_meta \<Rightarrow> u8 list" where
  "meta_bytes m = mt_vrsn m # be_bytes 2 (mt_revision m) @ mt_mark m @ mt_mext m"

definition abst_bytes :: "abst_sto \<Rightarrow> u8 list" where
  "abst_bytes a = ac_sign a # ac_mark a @ [ac_fncnf a] @ code_bytes (ac_code a)"

definition user_bytes :: "user_sto \<Rightarrow> u8 list" where
  "user_bytes f = uc_sign f @ uc_mark f @ [uc_fncnf f] @ types_serialize (uc_pmdf f) @ code_bytes (uc_code f)"

definition calc_bytes :: "calc_sto \<Rightarrow> u8 list" where
  "calc_bytes f = cc_sign f @ [cc_mark f, cc_fncnf f] @ code_bytes (cc_code f)"

definition list_bytes :: "nat \<Rightarrow> ('a \<Rightarrow> u8 list) \<Rightarrow> 'a list \<Rightarrow> u8 list" where
  "list_bytes w f l = be_bytes w (length l) @ concat (map f l)"

definition contract_bytes_of :: "contract_sto \<Rightarrow> u8 list" where
  "contract_bytes_of c = meta_bytes (ct_metas c) @ list_bytes 1 id (ct_inherit c) @ list_bytes 1 id (ct_library c) @
     list_bytes 1 abst_bytes (ct_abstcalls c) @ list_bytes 2 user_bytes (ct_userfuncs c) @ list_bytes 2 calc_bytes (ct_calcfuncs c) @
     be_bytes 8 (ct_morextend c)"

definition contract_size :: "contract_sto \<Rightarrow> nat" where "contract_size c = length (contract_bytes_of c)"

definition calc_edition :: "(u8 list \<Rightarrow> u8 list) \<Rightarrow> contract_sto \<Rightarrow> contract_edition" where
  "calc_edition sha3 c = \<lparr>ed_revision = mt_revision (ct_metas c), ed_raw_size = contract_size c mod 2 ^ 32,
     ed_hash = sha3 (contract_bytes_of c)\<rparr>"

section \<open>Checks\<close>

definition ABST_CALLS :: "u8 list" where "ABST_CALLS = [0, 1, 2, 50, 55, 56, 57, 58, 65, 66, 67, 68]"

definition abst_check :: "u8 \<Rightarrow> unit vmrt" where
  "abst_check n = (if n \<in> set ABST_CALLS then Inr () else Inl AbstTypeError)"

definition not_zero :: "u8 list \<Rightarrow> bool" where "not_zero bs \<longleftrightarrow> (\<exists>b \<in> set bs. b \<noteq> 0)"

definition meta_check :: "contract_meta \<Rightarrow> unit vmrt" where
  "meta_check m = (if mt_vrsn m \<noteq> 0 \<or> not_zero (mt_mark m) \<or> not_zero (mt_mext m) then Inl ContractError else Inr ())"

definition abst_sto_check :: "abst_sto \<Rightarrow> unit vmrt" where
  "abst_sto_check a = (if not_zero (ac_mark a) then Inl ContractError else if ac_fncnf a \<noteq> 0 then Inl ContractError else Inr ())"

definition user_sto_check :: "user_sto \<Rightarrow> unit vmrt" where
  "user_sto_check f = (if not_zero (uc_mark f) then Inl ContractError
     else if uc_fncnf f AND (NOT FN_CONF_EXTERNAL) \<noteq> 0 then Inl ContractError else Inr ())"

definition caddr_check :: "address \<Rightarrow> unit vmrt" where
  "caddr_check a = (if version a \<noteq> CONTRACT then Inl ContractAddrErr else Inr ())"

definition code_package :: "code_stuff \<Rightarrow> code_type vmrt" where
  "code_package c = bindV (code_conf_parse (cd_conf c)) code_type_parse"

definition verify_code_stuff :: "(u8 list \<Rightarrow> u8 list vmrt) \<Rightarrow> space_cap \<Rightarrow> code_stuff \<Rightarrow> unit vmrt" where
  "verify_code_stuff compile cap c = bindV (code_package c) (\<lambda>t.
     bindV (case t of CodeIRNode \<Rightarrow> compile (cd_data c) | CodeBytecode \<Rightarrow> Inr (cd_data c)) (\<lambda>codes.
     bindV (convert_and_check (cap_function_size cap) (cap_value_size cap) codes) (\<lambda>_. Inr ())))"

fun no_repeat :: "itr_code \<Rightarrow> 'k list \<Rightarrow> 'k list \<Rightarrow> unit vmrt" where
  "no_repeat ec seen [] = Inr ()"
| "no_repeat ec seen (k # ks) = (if k \<in> set seen then Inl ec else no_repeat ec (k # seen) ks)"

fun addrs_check :: "itr_code \<Rightarrow> address list \<Rightarrow> address list \<Rightarrow> unit vmrt" where
  "addrs_check ec seen [] = Inr ()"
| "addrs_check ec seen (a # as) = bindV (caddr_check a) (\<lambda>_. if a \<in> set seen then Inl ec else addrs_check ec (a # seen) as)"

definition abst_full_check :: "(u8 list \<Rightarrow> u8 list vmrt) \<Rightarrow> space_cap \<Rightarrow> abst_sto \<Rightarrow> unit vmrt" where
  "abst_full_check compile cap a =
     bindV (abst_sto_check a) (\<lambda>_. bindV (abst_check (ac_sign a)) (\<lambda>_. verify_code_stuff compile cap (ac_code a)))"

definition user_full_check :: "(u8 list \<Rightarrow> u8 list vmrt) \<Rightarrow> space_cap \<Rightarrow> user_sto \<Rightarrow> unit vmrt" where
  "user_full_check compile cap f = bindV (user_sto_check f) (\<lambda>_. verify_code_stuff compile cap (uc_code f))"

definition contract_check :: "(u8 list \<Rightarrow> u8 list vmrt) \<Rightarrow> space_cap \<Rightarrow> contract_sto \<Rightarrow> unit vmrt" where
  "contract_check compile cap c =
     bindV (meta_check (ct_metas c)) (\<lambda>_.
     if ct_morextend c \<noteq> 0 then Inl ContractError
     else if ct_calcfuncs c \<noteq> [] then Inl ContractError
     else if contract_size c > cap_contract_size cap then Inl ContractError
     else if length (ct_inherit c) > cap_inherit cap then Inl InheritError
     else if length (ct_library c) > cap_library cap then Inl LibraryError
     else bindV (addrs_check InheritError [] (ct_inherit c)) (\<lambda>_.
       bindV (addrs_check LibraryError [] (ct_library c)) (\<lambda>_.
       bindV (no_repeat ContractError [] (map ac_sign (ct_abstcalls c))) (\<lambda>_.
       bindV (check_all (abst_full_check compile cap) (ct_abstcalls c)) (\<lambda>_.
       bindV (no_repeat ContractError [] (map uc_sign (ct_userfuncs c))) (\<lambda>_.
       check_all (user_full_check compile cap) (ct_userfuncs c)))))))"

section \<open>Edits\<close>

text \<open>\<open>addition\<close> replaces the function with the same sign, or pushes it, within the width of the count.\<close>

fun addition :: "nat \<Rightarrow> ('f \<Rightarrow> 's) \<Rightarrow> 'f \<Rightarrow> 'f list \<Rightarrow> 'f list \<Rightarrow> ('f list \<times> bool) vmrt" where
  "addition mx sgn_of f before [] = (if length before + 1 > mx then Inl ContractUpgradeErr else Inr (before @ [f], False))"
| "addition mx sgn_of f before (g # gs) = (if sgn_of g = sgn_of f then Inr (before @ f # gs, True) else addition mx sgn_of f (before @ [g]) gs)"

fun check_merge :: "nat \<Rightarrow> ('f \<Rightarrow> 's) \<Rightarrow> 'f list \<Rightarrow> 'f list \<Rightarrow> ('f list \<times> bool) vmrt" where
  "check_merge mx sgn_of [] l = Inr (l, False)"
| "check_merge mx sgn_of (f # fs) l = bindV (addition mx sgn_of f [] l) (\<lambda>(l', e). bindV (check_merge mx sgn_of fs l') (\<lambda>(l'', e'). Inr (l'', e \<or> e')))"

fun replace_at :: "itr_code \<Rightarrow> nat \<Rightarrow> nat list \<Rightarrow> (nat \<times> address) list \<Rightarrow> address list \<Rightarrow> address list vmrt" where
  "replace_at ec n seen [] l = Inr l"
| "replace_at ec n seen ((i, a) # rs) l = bindV (caddr_check a) (\<lambda>_.
     if i \<in> set seen then Inl ec else if i \<ge> n then Inl ec else replace_at ec n (i # seen) rs (l[i := a]))"

fun abst_edit_signs :: "u8 list \<Rightarrow> u8 list \<Rightarrow> unit vmrt" where
  "abst_edit_signs seen [] = Inr ()"
| "abst_edit_signs seen (s # ss) = (if s = 0 then Inl ContractUpgradeErr
     else if s \<in> set seen then Inl ContractUpgradeErr else abst_edit_signs (s # seen) ss)"

definition append_addrs :: "itr_code \<Rightarrow> address list \<Rightarrow> address list \<Rightarrow> address list vmrt" where
  "append_addrs ec l new = (if new = [] then Inr l else bindV (check_all caddr_check new) (\<lambda>_.
     if length l + length new > 255 then Inl ec else Inr (l @ new)))"

definition edit_empty :: "contract_edit \<Rightarrow> bool" where
  "edit_empty e \<longleftrightarrow> ce_inherit_add e = [] \<and> ce_inherit_replace e = [] \<and> ce_library_add e = [] \<and> ce_library_replace e = [] \<and>
     ce_abstcalls e = [] \<and> ce_userfuncs e = [] \<and> ce_calcfuncs e = []"

definition apply_edit :: "(u8 list \<Rightarrow> u8 list vmrt) \<Rightarrow> space_cap \<Rightarrow> contract_edit \<Rightarrow> contract_sto \<Rightarrow> (contract_sto \<times> bool) vmrt" where
  "apply_edit compile cap e c =
     (let rev = mt_revision (ct_metas c) in
      if rev + 1 \<ge> 2 ^ 16 then Inl ContractError
      else if ce_new_revision e \<noteq> rev + 1 then Inl ContractError
      else if edit_empty e then Inl ContractError
      else if ce_calcfuncs e \<noteq> [] then Inl ContractError
      else bindV (replace_at InheritError (length (ct_inherit c)) [] (ce_inherit_replace e) (ct_inherit c)) (\<lambda>inh.
      bindV (replace_at LibraryError (length (ct_library c)) [] (ce_library_replace e) (ct_library c)) (\<lambda>lib.
      if length inh + length (ce_inherit_add e) > cap_inherit cap then Inl InheritError
      else if length lib + length (ce_library_add e) > cap_library cap then Inl LibraryError
      else bindV (append_addrs InheritError inh (ce_inherit_add e)) (\<lambda>inh'.
      bindV (append_addrs LibraryError lib (ce_library_add e)) (\<lambda>lib'.
      bindV (abst_edit_signs [] (map ac_sign (ce_abstcalls e))) (\<lambda>_.
      bindV (check_all (abst_full_check compile cap) (ce_abstcalls e)) (\<lambda>_.
      bindV (check_merge 255 ac_sign (ce_abstcalls e) (ct_abstcalls c)) (\<lambda>(absts, _).
      bindV (no_repeat ContractUpgradeErr [] (map uc_sign (ce_userfuncs e))) (\<lambda>_.
      bindV (check_all (user_full_check compile cap) (ce_userfuncs e)) (\<lambda>_.
      bindV (check_merge 65535 uc_sign (ce_userfuncs e) (ct_userfuncs c)) (\<lambda>(users, edited).
      let c' = c\<lparr>ct_metas := (ct_metas c)\<lparr>mt_revision := rev + 1\<rparr>, ct_inherit := inh', ct_library := lib', ct_abstcalls := absts,
             ct_userfuncs := users\<rparr> in
      bindV (contract_check compile cap c') (\<lambda>_.
        Inr (c', ce_inherit_replace e \<noteq> [] \<or> ce_library_replace e \<noteq> [] \<or> ce_abstcalls e \<noteq> [] \<or> edited)))))))))))))"

section \<open>Loaded contracts\<close>

record contract_cobj =
  lc_sto :: contract_sto
  lc_abstfns :: "u8 \<rightharpoonup> fn_obj user_fn"
  lc_userfns :: "u8 list \<rightharpoonup> fn_obj user_fn"
  lc_edition :: contract_edition

fun load_absts :: "abst_sto list \<Rightarrow> (u8 \<rightharpoonup> fn_obj user_fn) \<Rightarrow> (u8 \<rightharpoonup> fn_obj user_fn) vmrt" where
  "load_absts [] m = Inr m"
| "load_absts (a # as) m = bindV (fn_create (ac_fncnf a) (ac_code a) None) (\<lambda>f. bindV (abst_check (ac_sign a)) (\<lambda>_.
     load_absts as (m(ac_sign a \<mapsto> f))))"

fun load_users :: "user_sto list \<Rightarrow> (u8 list \<rightharpoonup> fn_obj user_fn) \<Rightarrow> (u8 list \<rightharpoonup> fn_obj user_fn) vmrt" where
  "load_users [] m = Inr m"
| "load_users (u # us) m = bindV (fn_create (uc_fncnf u) (uc_code u) (Some (uc_pmdf u))) (\<lambda>f. load_users us (m(uc_sign u \<mapsto> f)))"

text \<open>The loaded contract keeps the stored one without its code.\<close>

definition strip_code :: "contract_sto \<Rightarrow> contract_sto" where
  "strip_code c = c\<lparr>ct_abstcalls := map (\<lambda>a. a\<lparr>ac_code := \<lparr>cd_conf = 0, cd_data = []\<rparr>\<rparr>) (ct_abstcalls c),
     ct_userfuncs := map (\<lambda>f. f\<lparr>uc_code := \<lparr>cd_conf = 0, cd_data = []\<rparr>\<rparr>) (ct_userfuncs c)\<rparr>"

definition into_obj :: "(u8 list \<Rightarrow> u8 list) \<Rightarrow> contract_sto \<Rightarrow> contract_cobj vmrt" where
  "into_obj sha3 c = bindV (load_absts (ct_abstcalls c) Map.empty) (\<lambda>am. bindV (load_users (ct_userfuncs c) Map.empty) (\<lambda>um.
     Inr \<lparr>lc_sto = strip_code c, lc_abstfns = am, lc_userfns = um, lc_edition = calc_edition sha3 c\<rparr>))"

definition have_abst_call :: "contract_sto \<Rightarrow> u8 \<Rightarrow> bool" where
  "have_abst_call c ac \<longleftrightarrow> (\<exists>a \<in> set (ct_abstcalls c). ac = ac_sign a)"

section \<open>A stored contract loads\<close>

definition by_sign :: "('f \<Rightarrow> 's) \<Rightarrow> 'f list \<Rightarrow> 's \<rightharpoonup> 'f" where
  "by_sign sgn_of l s = find (\<lambda>f. sgn_of f = s) l"

lemma by_sign_Nil [simp]: "by_sign sgn_of [] s = None" by (simp add: by_sign_def)
lemma by_sign_Cons [simp]: "by_sign sgn_of (f # l) s = (if sgn_of f = s then Some f else by_sign sgn_of l s)" by (simp add: by_sign_def)

lemma by_sign_append [simp]: "by_sign sgn_of (l @ l') s = (case by_sign sgn_of l s of Some f \<Rightarrow> Some f | None \<Rightarrow> by_sign sgn_of l' s)"
  by (induction l) auto

lemma by_sign_None: "by_sign sgn_of l s = None \<longleftrightarrow> s \<notin> sgn_of ` set l"
  by (induction l) auto

lemma by_sign_Some: "by_sign sgn_of l s = Some f \<Longrightarrow> f \<in> set l \<and> sgn_of f = s"
  by (induction l) (auto split: if_splits)

lemma no_repeat_iff: "no_repeat ec seen ks = Inr u \<longleftrightarrow> distinct ks \<and> set ks \<inter> set seen = {}"
  by (induction ec seen ks rule: no_repeat.induct) auto

lemma check_all_iff: "check_all f l = Inr u \<longleftrightarrow> (\<forall>x \<in> set l. f x = Inr ())"
  by (induction f l rule: check_all.induct) (auto simp: bindV_eq_Inr)

lemma contract_check_ok:
  assumes "contract_check compile cap c = Inr u"
  shows "distinct (map ac_sign (ct_abstcalls c))" "distinct (map uc_sign (ct_userfuncs c))"
    "\<And>a. a \<in> set (ct_abstcalls c) \<Longrightarrow> abst_full_check compile cap a = Inr ()"
    "\<And>f. f \<in> set (ct_userfuncs c) \<Longrightarrow> user_full_check compile cap f = Inr ()"
    "length (ct_inherit c) \<le> cap_inherit cap" "length (ct_library c) \<le> cap_library cap" "contract_size c \<le> cap_contract_size cap"
  using assms by (auto simp: contract_check_def bindV_eq_Inr no_repeat_iff check_all_iff split: if_splits)

definition fn_verified :: "(u8 list \<Rightarrow> u8 list vmrt) \<Rightarrow> space_cap \<Rightarrow> fn_obj \<Rightarrow> bool" where
  "fn_verified compile cap f \<longleftrightarrow> (\<exists>codes t. exec_bytecodes compile f = Inr codes \<and> length codes \<le> cap_function_size cap \<and>
     verify_bytecodes_with_limits codes (cap_value_size cap) EntryOptionalArgv = Inr t)"

lemma fn_create_verified:
  assumes "verify_code_stuff compile cap stuff = Inr u"
  shows "\<exists>t. fn_create conf stuff agvty = Inr \<lparr>uf_conf = conf, uf_body = \<lparr>fo_agvty = agvty, fo_ctype = t, fo_codes = cd_data stuff\<rparr>\<rparr> \<and>
    fn_verified compile cap \<lparr>fo_agvty = agvty, fo_ctype = t, fo_codes = cd_data stuff\<rparr>"
proof -
  obtain t codes v where t: "code_package stuff = Inr t" and c: "(case t of CodeIRNode \<Rightarrow> compile (cd_data stuff) | CodeBytecode \<Rightarrow> Inr (cd_data stuff)) = Inr codes"
    and v: "convert_and_check (cap_function_size cap) (cap_value_size cap) codes = Inr v"
    using assms by (auto simp: verify_code_stuff_def bindV_eq_Inr)
  have "exec_bytecodes compile \<lparr>fo_agvty = agvty, fo_ctype = t, fo_codes = cd_data stuff\<rparr> = Inr codes"
    using c by (simp add: exec_bytecodes_def split: code_type.splits)
  moreover have "length codes \<le> cap_function_size cap" "verify_bytecodes_with_limits codes (cap_value_size cap) EntryOptionalArgv = Inr v"
    using v by (auto simp: convert_and_check_def split: if_splits)
  ultimately show ?thesis using t by (auto simp: fn_create_def code_package_def bindV_eq_Inr fn_verified_def)
qed

lemma load_absts_total:
  assumes "\<forall>a \<in> set as. abst_full_check compile cap a = Inr ()"
  shows "\<exists>m'. load_absts as m = Inr m'"
  using assms
proof (induction as arbitrary: m)
  case (Cons a as)
  then have v: "verify_code_stuff compile cap (ac_code a) = Inr ()" and "abst_check (ac_sign a) = Inr ()"
    by (auto simp: abst_full_check_def bindV_eq_Inr)
  moreover obtain f where "fn_create (ac_fncnf a) (ac_code a) None = Inr f" using fn_create_verified [OF v] by blast
  ultimately show ?case using Cons by simp
qed simp

lemma load_users_total:
  assumes "\<forall>f \<in> set us. user_full_check compile cap f = Inr ()" "distinct (map uc_sign us)"
  shows "\<exists>m'. load_users us m = Inr m' \<and> (\<forall>s. m' s = (case by_sign uc_sign us s of
      Some u \<Rightarrow> (case fn_create (uc_fncnf u) (uc_code u) (Some (uc_pmdf u)) of Inr f \<Rightarrow> Some f | Inl _ \<Rightarrow> None) | None \<Rightarrow> m s))"
  using assms
proof (induction us m rule: load_users.induct)
  case (2 u us m)
  then have "verify_code_stuff compile cap (uc_code u) = Inr ()" by (auto simp: user_full_check_def bindV_eq_Inr)
  then obtain f where f: "fn_create (uc_fncnf u) (uc_code u) (Some (uc_pmdf u)) = Inr f"
    using fn_create_verified [of compile cap "uc_code u"] by blast
  have "by_sign uc_sign us (uc_sign u) = None" using 2 by (simp add: by_sign_None)
  then show ?case using 2 f by (fastforce split: option.splits)
qed simp

text \<open>C??: Every contract that passes its check loads, whatever hash the edition uses: its loaded functions are exactly the stored
  ones, each found under its own sign, with the configuration and parameter types it was stored with, and its code, compiled
  where it is IR, is within the size limit and passes the bytecode verifier.\<close>

theorem checked_contract_loads:
  assumes "contract_check compile cap c = Inr u"
  shows "\<exists>obj. into_obj sha3 c = Inr obj \<and> lc_edition obj = calc_edition sha3 c \<and> ct_inherit (lc_sto obj) = ct_inherit c \<and>
    ct_library (lc_sto obj) = ct_library c \<and>
    (\<forall>s. (case by_sign uc_sign (ct_userfuncs c) s of None \<Rightarrow> lc_userfns obj s = None
       | Some st \<Rightarrow> \<exists>f. lc_userfns obj s = Some f \<and> uf_conf f = uc_fncnf st \<and> fo_agvty (uf_body f) = Some (uc_pmdf st) \<and>
           fo_codes (uf_body f) = cd_data (uc_code st) \<and> fn_verified compile cap (uf_body f)))"
proof -
  note ok = contract_check_ok [OF assms]
  obtain am where am: "load_absts (ct_abstcalls c) Map.empty = Inr am" using load_absts_total ok(3) by blast
  obtain um where um: "load_users (ct_userfuncs c) Map.empty = Inr um" and
    look: "\<And>s. um s = (case by_sign uc_sign (ct_userfuncs c) s of
      Some u \<Rightarrow> (case fn_create (uc_fncnf u) (uc_code u) (Some (uc_pmdf u)) of Inr f \<Rightarrow> Some f | Inl _ \<Rightarrow> None) | None \<Rightarrow> None)"
    using load_users_total [of "ct_userfuncs c" compile cap Map.empty] ok(2,4) by auto
  obtain obj where obj: "into_obj sha3 c = Inr obj" "lc_userfns obj = um" "lc_edition obj = calc_edition sha3 c"
      "ct_inherit (lc_sto obj) = ct_inherit c" "ct_library (lc_sto obj) = ct_library c"
    using am um by (simp add: into_obj_def strip_code_def)
  have "case by_sign uc_sign (ct_userfuncs c) s of None \<Rightarrow> lc_userfns obj s = None
       | Some st \<Rightarrow> \<exists>f. lc_userfns obj s = Some f \<and> uf_conf f = uc_fncnf st \<and> fo_agvty (uf_body f) = Some (uc_pmdf st) \<and>
           fo_codes (uf_body f) = cd_data (uc_code st) \<and> fn_verified compile cap (uf_body f)" for s
  proof (cases "by_sign uc_sign (ct_userfuncs c) s")
    case (Some st)
    then have "verify_code_stuff compile cap (uc_code st) = Inr ()"
      using ok(4) [of st] by (auto simp: user_full_check_def bindV_eq_Inr dest: by_sign_Some)
    then obtain f where f: "fn_create (uc_fncnf st) (uc_code st) (Some (uc_pmdf st)) = Inr f" "uf_conf f = uc_fncnf st"
        "fo_agvty (uf_body f) = Some (uc_pmdf st)" "fo_codes (uf_body f) = cd_data (uc_code st)" "fn_verified compile cap (uf_body f)"
      using fn_create_verified by fastforce
    have "lc_userfns obj s = Some f" unfolding obj(2) look Some by (simp add: f(1))
    then show ?thesis using f(2-) Some by simp
  qed (simp add: look obj(2))
  then show ?thesis using obj by blast
qed

section \<open>What an edit does\<close>

lemma addition_ok:
  assumes "addition mx sgn_of f before l = Inr (l', e)" "by_sign sgn_of before (sgn_of f) = None"
  shows "by_sign sgn_of l' s = (if s = sgn_of f then Some f else by_sign sgn_of (before @ l) s)"
  using assms
  by (induction mx sgn_of f before l rule: addition.induct) (auto split: if_splits option.splits)

lemma check_merge_ok:
  assumes "check_merge mx sgn_of fs l = Inr (l', e)" "distinct (map sgn_of fs)"
  shows "by_sign sgn_of l' s = (case by_sign sgn_of fs s of Some f \<Rightarrow> Some f | None \<Rightarrow> by_sign sgn_of l s)"
  using assms
proof (induction fs arbitrary: l e)
  case (Cons f fs)
  then obtain l1 e1 e2 where a: "addition mx sgn_of f [] l = Inr (l1, e1)" and m: "check_merge mx sgn_of fs l1 = Inr (l', e2)"
    by (auto simp: bindV_eq_Inr)
  have "by_sign sgn_of fs (sgn_of f) = None" using Cons.prems by (simp add: by_sign_None)
  then show ?case using Cons.IH [OF m] Cons.prems(2) addition_ok [OF a, of s] by (auto split: option.splits)
qed simp

lemma abst_edit_signs_ok: "abst_edit_signs seen ss = Inr u \<Longrightarrow> distinct ss \<and> 0 \<notin> set ss \<and> set ss \<inter> set seen = {}"
  by (induction seen ss rule: abst_edit_signs.induct) (auto split: if_splits)

lemma replace_at_length: "replace_at ec n seen rs l = Inr l' \<Longrightarrow> length l' = length l"
  by (induction ec n seen rs l rule: replace_at.induct) (auto simp: bindV_eq_Inr split: if_splits)

lemma append_addrs_length: "append_addrs ec l new = Inr l' \<Longrightarrow> length l' = length l + length new"
  by (auto simp: append_addrs_def bindV_eq_Inr split: if_splits)

text \<open>C??: An accepted edit raises the revision by one, its functions replace those with their sign and are added otherwise, no
  function is lost, inherited and library contracts are never dropped, no \<open>Construct\<close> hook is set, and the new contract again
  passes the check of a stored contract.\<close>

theorem contract_edit_effect:
  assumes "apply_edit compile cap e c = Inr (c', changed)"
  shows "mt_revision (ct_metas c') = mt_revision (ct_metas c) + 1 \<and> contract_check compile cap c' = Inr () \<and>
    (\<forall>s. by_sign uc_sign (ct_userfuncs c') s = (case by_sign uc_sign (ce_userfuncs e) s of Some f \<Rightarrow> Some f | None \<Rightarrow> by_sign uc_sign (ct_userfuncs c) s)) \<and>
    (\<forall>s. by_sign ac_sign (ct_abstcalls c') s = (case by_sign ac_sign (ce_abstcalls e) s of Some f \<Rightarrow> Some f | None \<Rightarrow> by_sign ac_sign (ct_abstcalls c) s)) \<and>
    by_sign ac_sign (ct_abstcalls c') 0 = by_sign ac_sign (ct_abstcalls c) 0 \<and>
    length (ct_inherit c') = length (ct_inherit c) + length (ce_inherit_add e) \<and>
    length (ct_library c') = length (ct_library c) + length (ce_library_add e)"
proof -
  obtain inh lib inh' lib' absts users x y where
    inh: "replace_at InheritError (length (ct_inherit c)) [] (ce_inherit_replace e) (ct_inherit c) = Inr inh"
    and lib: "replace_at LibraryError (length (ct_library c)) [] (ce_library_replace e) (ct_library c) = Inr lib"
    and inh': "append_addrs InheritError inh (ce_inherit_add e) = Inr inh'"
    and lib': "append_addrs LibraryError lib (ce_library_add e) = Inr lib'"
    and signs: "abst_edit_signs [] (map ac_sign (ce_abstcalls e)) = Inr ()"
    and absts: "check_merge 255 ac_sign (ce_abstcalls e) (ct_abstcalls c) = Inr (absts, x)"
    and distinct: "distinct (map uc_sign (ce_userfuncs e))"
    and users: "check_merge 65535 uc_sign (ce_userfuncs e) (ct_userfuncs c) = Inr (users, y)"
    and c': "c' = c\<lparr>ct_metas := (ct_metas c)\<lparr>mt_revision := mt_revision (ct_metas c) + 1\<rparr>, ct_inherit := inh', ct_library := lib', ct_abstcalls := absts,
        ct_userfuncs := users\<rparr>" and check: "contract_check compile cap c' = Inr ()"
    using assms unfolding apply_edit_def Let_def
    by (clarsimp simp: bindV_eq_Inr no_repeat_iff simp del: de_Morgan_disj split: if_split_asm prod.split_asm; blast)
  have "distinct (map ac_sign (ce_abstcalls e))" "0 \<notin> set (map ac_sign (ce_abstcalls e))" using abst_edit_signs_ok [OF signs] by auto
  then have "by_sign ac_sign absts 0 = by_sign ac_sign (ct_abstcalls c) 0"
    "\<forall>s. by_sign ac_sign absts s = (case by_sign ac_sign (ce_abstcalls e) s of Some f \<Rightarrow> Some f | None \<Rightarrow> by_sign ac_sign (ct_abstcalls c) s)"
    using check_merge_ok [OF absts] by_sign_None [of ac_sign "ce_abstcalls e" 0] by simp_all
  moreover have "\<forall>s. by_sign uc_sign users s = (case by_sign uc_sign (ce_userfuncs e) s of Some f \<Rightarrow> Some f | None \<Rightarrow> by_sign uc_sign (ct_userfuncs c) s)"
    using check_merge_ok [OF users distinct] by simp
  moreover have "length inh' = length (ct_inherit c) + length (ce_inherit_add e)" "length lib' = length (ct_library c) + length (ce_library_add e)"
    using replace_at_length [OF inh] append_addrs_length [OF inh'] replace_at_length [OF lib] append_addrs_length [OF lib'] by simp_all
  ultimately show ?thesis using check by (simp add: c')
qed

section \<open>A contract and an edit of it\<close>

lemma end_verified: "verify_bytecodes_with_limits [END] 1280 EntryOptionalArgv = Inr [1]"
proof -
  have m: "inst_meta END = (0, 0, 0)" "inst_valid END" by (simp_all add: inst_meta_def metadata_rows_def inst_valid_def)
  show ?thesis
    by (simp add: verify_bytecodes_with_limits_def verify_valid_instruction_def verify_scan.simps
        inst_params_def inst_param_def inst_input_def inst_output_def m ir_codes_def is_fin_family_def is_user_call_inst_def
        ensure_terminal_instruction_def verify_linear_stack_effects_def lin_loop.simps lin_step_def lin_new_def apply_effect_def
        instruction_end_def is_external_stack_boundary_def verify_literal_fin_stack_prefix_def fin_prefix_loop.simps Let_def)
qed

definition end_fn :: "u8 \<Rightarrow> user_sto" where
  "end_fn n = \<lparr>uc_sign = [n, 0, 0, 0], uc_mark = [0, 0, 0], uc_fncnf = 0x80, uc_pmdf = \<lparr>ft_typnum = 0, ft_define = []\<rparr>,
     uc_code = \<lparr>cd_conf = 0, cd_data = [END]\<rparr>\<rparr>"

definition small_contract :: "nat \<Rightarrow> u8 list \<Rightarrow> contract_sto" where
  "small_contract r ns = \<lparr>ct_metas = \<lparr>mt_vrsn = 0, mt_revision = r, mt_mark = [0, 0, 0], mt_mext = [0, 0, 0, 0]\<rparr>, ct_inherit = [],
     ct_library = [], ct_abstcalls = [], ct_userfuncs = map end_fn ns, ct_calcfuncs = [], ct_morextend = 0\<rparr>"

lemma end_fn_check: "user_full_check compile space_cap_new (end_fn n) = Inr ()"
  by (simp add: user_full_check_def end_fn_def user_sto_check_def not_zero_def FN_CONF_EXTERNAL_def verify_code_stuff_def code_package_def
    code_conf_parse_def code_type_parse_def convert_and_check_def space_cap_new_def end_verified)

lemma small_contract_check:
  "contract_check compile space_cap_new (small_contract r [1]) = Inr ()" "contract_check compile space_cap_new (small_contract r [1, 2]) = Inr ()"
  by (simp_all add: contract_check_def small_contract_def meta_check_def not_zero_def end_fn_check)
    (simp_all add: contract_size_def contract_bytes_of_def meta_bytes_def list_bytes_def user_bytes_def code_bytes_def types_serialize_def
      def_size_def param_count_def bit4r_def end_fn_def space_cap_new_def)

lemma checked_contract_loads_witness:
  "\<exists>obj. into_obj (\<lambda>x. x) (small_contract 0 [1]) = Inr obj \<and> (\<exists>f. lc_userfns obj [1, 0, 0, 0] = Some f) \<and> lc_userfns obj [2, 0, 0, 0] = None"
proof -
  have "by_sign uc_sign (ct_userfuncs (small_contract 0 [1])) [1, 0, 0, 0] = Some (end_fn 1)"
      "by_sign uc_sign (ct_userfuncs (small_contract 0 [1])) [2, 0, 0, 0] = None"
    by (simp_all add: small_contract_def end_fn_def)
  then show ?thesis
    using checked_contract_loads [OF small_contract_check(1) [of Inr 0], of "\<lambda>x. x"] by (fastforce split: option.splits)
qed

lemma contract_edit_effect_witness:
  "\<exists>c'. apply_edit Inr space_cap_new \<lparr>ce_new_revision = 1, ce_inherit_add = [], ce_inherit_replace = [], ce_library_add = [],
       ce_library_replace = [], ce_abstcalls = [], ce_userfuncs = [end_fn 2], ce_calcfuncs = []\<rparr> (small_contract 0 [1]) = Inr (c', False) \<and>
     by_sign uc_sign (ct_userfuncs c') [1, 0, 0, 0] = Some (end_fn 1) \<and> by_sign uc_sign (ct_userfuncs c') [2, 0, 0, 0] = Some (end_fn 2)"
proof -
  let ?e = "\<lparr>ce_new_revision = 1, ce_inherit_add = [], ce_inherit_replace = [], ce_library_add = [],
       ce_library_replace = [], ce_abstcalls = [], ce_userfuncs = [end_fn 2], ce_calcfuncs = []\<rparr>"
  have "(small_contract 0 [1])\<lparr>ct_metas := (ct_metas (small_contract 0 [1]))\<lparr>mt_revision := 1\<rparr>, ct_userfuncs := [end_fn 1, end_fn 2]\<rparr> = small_contract 1 [1, 2]"
    by (simp add: small_contract_def)
  then have e: "apply_edit Inr space_cap_new ?e (small_contract 0 [1]) = Inr (small_contract 1 [1, 2], False)"
    using small_contract_check(2) [of Inr 1] end_fn_check [of Inr 2]
    by (simp add: apply_edit_def edit_empty_def append_addrs_def small_contract_def space_cap_new_def end_fn_def)
  show ?thesis using contract_edit_effect [OF e] e by (fastforce simp: end_fn_def small_contract_def)
qed

end
