(* ===== verification/VmInst.thy ===== *)
theory VmInst
  imports VmStatus VmFin VmCode GasCounter
begin

text \<open>
  The state of a running frame and its instructions (\<^verbatim>\<open>vm/src/interpreter/execute.rs\<close>, the \<open>match\<close> of
  \<open>execute_code_in_frame\<close>; \<^verbatim>\<open>operand.rs\<close>; \<^verbatim>\<open>vm/src/machine/host.rs\<close>; \<^verbatim>\<open>vm/src/rt/action.rs\<close>, \<^verbatim>\<open>xop.rs\<close>; \<^verbatim>\<open>vm/src/field/log.rs\<close>).
  An instruction charges its dynamic gas into the buckets of its step, which stay when it fails. The host gives contract
  storage, logs and the gas counter of the transaction as they are modelled; the actions a contract can call and the native
  functions are parameters of the host. Sums of gas within one step are integers, the totals are checked as \<open>i64\<close>.
\<close>

section \<open>State\<close>

record 'w vm_world =
  w_state :: "nat vm_state"
  w_gas :: gas_counter
  w_logs :: "(address \<times> rval list) list"
  w_other :: 'w

text \<open>\<open>h_action\<close> answers \<open>Inl True\<close> for an error that reverts, \<open>Inl False\<close> for another.\<close>

record 'w vm_host =
  h_sha3 :: "u8 list \<Rightarrow> u8 list"
  h_height :: nat
  h_action :: "nat \<Rightarrow> u8 list \<Rightarrow> 'w vm_world \<Rightarrow> (bool + nat \<times> u8 list) \<times> 'w vm_world"
  h_ntctl :: "exec_ctx \<Rightarrow> address \<Rightarrow> u8 \<Rightarrow> rval \<Rightarrow> cells \<times> 'w \<Rightarrow> (rval \<times> int) vmrt \<times> cells \<times> 'w"
  h_ntfunc :: "u8 \<Rightarrow> u8 list \<Rightarrow> (rval \<times> int) vmrt"
  h_ntenv :: "exec_ctx \<Rightarrow> address \<Rightarrow> u8 \<Rightarrow> cells \<times> 'w \<Rightarrow> (rval \<times> int) vmrt \<times> cells"

record 'w itr_env =
  ie_host :: "'w vm_host"
  ie_gst :: gas_extra
  ie_cap :: space_cap
  ie_exec :: exec_ctx
  ie_context :: address
  ie_codes :: "u8 list"

record 'w itr =
  it_pc :: nat
  it_ops :: "nat vstack"
  it_locals :: "nat vstack"
  it_heap :: vheap
  it_cells :: cells
  it_step :: gas_buckets
  it_rebate :: int
  it_use :: gas_buckets
  it_log :: nat
  it_global :: "nat kvmap"
  it_memory :: "nat ctcmap"
  it_world :: "'w vm_world"

datatype call_exit = ExReturn | ExFinish | ExThrow | ExAbort | ExCall call_spec

text \<open>An instruction continues, or leaves the frame.\<close>

type_synonym 'w inst = "('w itr, call_exit option) vst"

section \<open>Access\<close>

definition on_ops :: "(nat vstack, 'a) vst \<Rightarrow> ('w itr, 'a) vst" where
  "on_ops m = (\<lambda>s. let (r, t) = m (it_ops s) in (r, s\<lparr>it_ops := t\<rparr>))"
definition on_locals :: "(nat vstack, 'a) vst \<Rightarrow> ('w itr, 'a) vst" where
  "on_locals m = (\<lambda>s. let (r, t) = m (it_locals s) in (r, s\<lparr>it_locals := t\<rparr>))"
definition on_heap :: "(vheap, 'a) vst \<Rightarrow> ('w itr, 'a) vst" where
  "on_heap m = (\<lambda>s. let (r, t) = m (it_heap s) in (r, s\<lparr>it_heap := t\<rparr>))"
definition on_cells :: "(cells, 'a) vst \<Rightarrow> ('w itr, 'a) vst" where
  "on_cells m = (\<lambda>s. let (r, t) = m (it_cells s) in (r, s\<lparr>it_cells := t\<rparr>))"
definition on_global :: "(nat kvmap, 'a) vst \<Rightarrow> ('w itr, 'a) vst" where
  "on_global m = (\<lambda>s. let (r, t) = m (it_global s) in (r, s\<lparr>it_global := t\<rparr>))"
definition on_memory :: "(nat ctcmap, 'a) vst \<Rightarrow> ('w itr, 'a) vst" where
  "on_memory m = (\<lambda>s. let (r, t) = m (it_memory s) in (r, s\<lparr>it_memory := t\<rparr>))"
definition on_world :: "('w vm_world, 'a) vst \<Rightarrow> ('w itr, 'a) vst" where
  "on_world m = (\<lambda>s. let (r, t) = m (it_world s) in (r, s\<lparr>it_world := t\<rparr>))"
definition on_store :: "(nat vm_state, 'a) vst \<Rightarrow> ('w itr, 'a) vst" where
  "on_store m = on_world (\<lambda>w. let (r, t) = m (w_state w) in (r, w\<lparr>w_state := t\<rparr>))"

definition look :: "('w itr \<Rightarrow> 'a vmrt) \<Rightarrow> ('w itr, 'a) vst" where "look f = (\<lambda>s. (f s, s))"

definition pop :: "('w itr, rval) vst" where "pop = on_ops stk_pop"
definition peek :: "('w itr, rval) vst" where "peek = on_ops stk_peek"
definition push :: "rval \<Rightarrow> ('w itr, unit) vst" where "push v = on_ops (stk_push v)"
definition poke :: "rval \<Rightarrow> ('w itr, unit) vst" where "poke v = on_ops (stk_poke v)"

definition gas_compute :: "int \<Rightarrow> ('w itr, unit) vst" where
  "gas_compute n = modW (\<lambda>s. s\<lparr>it_step := (it_step s)\<lparr>gb_compute := gb_compute (it_step s) + n\<rparr>\<rparr>)"
definition gas_resource :: "int \<Rightarrow> ('w itr, unit) vst" where
  "gas_resource n = modW (\<lambda>s. s\<lparr>it_step := (it_step s)\<lparr>gb_resource := gb_resource (it_step s) + n\<rparr>\<rparr>)"
definition gas_storage :: "int \<Rightarrow> ('w itr, unit) vst" where
  "gas_storage n = modW (\<lambda>s. s\<lparr>it_step := (it_step s)\<lparr>gb_storage := gb_storage (it_step s) + n\<rparr>\<rparr>)"
definition rebate_add :: "int \<Rightarrow> ('w itr, unit) vst" where
  "rebate_add n = bindW (look (\<lambda>s. okV GasError (i64_checked (it_rebate s + n)))) (\<lambda>r. modW (\<lambda>s. s\<lparr>it_rebate := r\<rparr>))"

definition go_on :: "'w inst" where "go_on = retW None"
definition leave :: "call_exit \<Rightarrow> 'w inst" where "leave e = retW (Some e)"

text \<open>Reads through the cells, for the gas of containers.\<close>

definition size_of :: "rval \<Rightarrow> ('w itr, nat) vst" where "size_of v = getW (\<lambda>s. val_size (it_cells s) v)"

text \<open>The guards of the effect modes.\<close>

definition nsr :: "exec_ctx \<Rightarrow> ('w itr, unit) vst" where
  "nsr ex = (if ec_effect ex = EffPure then failW InstDisabled else retW ())"
definition nsw :: "exec_ctx \<Rightarrow> ('w itr, unit) vst" where
  "nsw ex = (if ec_effect ex \<in> {EffPure, EffView} then failW InstDisabled else retW ())"

section \<open>Immediates and jumps\<close>

definition set_pc :: "nat \<Rightarrow> ('w itr, unit) vst" where "set_pc n = modW (\<lambda>s. s\<lparr>it_pc := n\<rparr>)"

definition peekparam :: "u8 list \<Rightarrow> nat \<Rightarrow> ('w itr, nat) vst" where
  "peekparam codes l = look (\<lambda>s. if it_pc s + l > length codes then Inl CodeOverflow
     else Inr (be_nat (take l (drop (it_pc s) codes))))"

definition itrparam :: "u8 list \<Rightarrow> nat \<Rightarrow> ('w itr, nat) vst" where
  "itrparam codes l = bindW (peekparam codes l) (\<lambda>v. bindW (modW (\<lambda>s. s\<lparr>it_pc := it_pc s + l\<rparr>)) (\<lambda>_. retW v))"

definition itrparambufex :: "u8 list \<Rightarrow> nat \<Rightarrow> ('w itr, rval) vst" where
  "itrparambufex codes l = bindW (itrparam codes l) (\<lambda>n. bindW (getW it_pc) (\<lambda>p.
     if p + n > length codes then failW CodeOverflow else bindW (set_pc (p + n)) (\<lambda>_. retW (VBytes (take n (drop p codes))))))"

definition jump :: "u8 list \<Rightarrow> nat \<Rightarrow> ('w itr, unit) vst" where "jump codes l = bindW (peekparam codes l) set_pc"

definition ostjump :: "u8 list \<Rightarrow> nat \<Rightarrow> ('w itr, unit) vst" where
  "ostjump codes l = bindW (itrparam codes l) (\<lambda>v.
     let d = (if 2 * v \<ge> 256 ^ l then int v - 256 ^ l else int v) in
     bindW (getW it_pc) (\<lambda>p. if int p + d < 0 then failW CodeOverflow else set_pc (nat (int p + d))))"

definition skip_param :: "nat \<Rightarrow> ('w itr, unit) vst" where "skip_param l = modW (\<lambda>s. s\<lparr>it_pc := it_pc s + l\<rparr>)"

definition branch :: "u8 list \<Rightarrow> nat \<Rightarrow> ('w itr, unit) vst" where
  "branch codes l = bindW pop (\<lambda>v. bindW (liftW (extract_bool v)) (\<lambda>b. if b then jump codes l else skip_param l))"

definition ostbranchex :: "u8 list \<Rightarrow> nat \<Rightarrow> bool \<Rightarrow> ('w itr, unit) vst" where
  "ostbranchex codes l expect = bindW pop (\<lambda>v. bindW (liftW (extract_bool v)) (\<lambda>b.
     if b = expect then ostjump codes l else skip_param l))"

section \<open>Constants, types and casts\<close>

definition push_buf_gas :: "'w itr_env \<Rightarrow> rval \<Rightarrow> ('w itr, unit) vst" where
  "push_buf_gas env v = bindW (liftW (valid (ie_cap env) v)) (\<lambda>v.
     bindW (case v of VBytes b \<Rightarrow> gas_resource (stack_copy (ie_gst env) (length b)) | _ \<Rightarrow> retW ()) (\<lambda>_. push v))"

definition inst_push :: "'w itr_env \<Rightarrow> u8 \<Rightarrow> ('w itr, unit) vst" where
  "inst_push env b =
     (if b = PU8 then bindW (itrparam (ie_codes env) 1) (\<lambda>n. push (VU8 (word_of_nat n)))
      else if b = PU16 then bindW (itrparam (ie_codes env) 2) (\<lambda>n. push (VU16 (word_of_nat n)))
      else if b = PBUF then bindW (itrparambufex (ie_codes env) 1) (push_buf_gas env)
      else if b = PBUFL then bindW (itrparambufex (ie_codes env) 2) (push_buf_gas env)
      else if b \<in> {P0, P1, P2, P3} then push (VU8 (b - P0))
      else if b = PNBUF then push (VBytes [])
      else if b = PNIL then push VNil
      else if b = PTRUE then push (VBool True)
      else if b = PFALSE then push (VBool False)
      else failW InstInvalid)"

text \<open>An operation on the value on top of the stack, in place.\<close>

definition on_top :: "(rval \<Rightarrow> rval vmrt) \<Rightarrow> ('w itr, unit) vst" where
  "on_top f = bindW peek (\<lambda>v. bindW (liftW (f v)) poke)"

definition inst_cast :: "'w itr_env \<Rightarrow> u8 \<Rightarrow> ('w itr, unit) vst" where
  "inst_cast env b =
     (if b = CU8 then on_top (\<lambda>v. cast_to_uint_width v 8)
      else if b = CU16 then on_top (\<lambda>v. cast_to_uint_width v 16)
      else if b = CU32 then on_top (\<lambda>v. cast_to_uint_width v 32)
      else if b = CU64 then on_top (\<lambda>v. cast_to_uint_width v 64)
      else if b = CU128 then on_top (\<lambda>v. cast_to_uint_width v 128)
      else if b = CBYTES then on_top cast_bytes
      else if b = CTO then bindW (itrparam (ie_codes env) 1) (\<lambda>n.
        bindW (liftW (parse_cto_target_ty_param (word_of_nat n))) (\<lambda>t. on_top (cast_to_ty t)))
      else if b = TNIL then on_top (\<lambda>v. Inr (VBool (ty v = TyNil)))
      else if b = TLIST then bindW (getW it_cells) (\<lambda>c. on_top (\<lambda>v. Inr (VBool (is_list_compo c v))))
      else if b = TMAP then bindW (getW it_cells) (\<lambda>c. on_top (\<lambda>v. Inr (VBool (is_map_compo c v))))
      else if b = TIS then bindW (itrparam (ie_codes env) 1) (\<lambda>n.
        bindW (liftW (parse_value_ty_param (word_of_nat n))) (\<lambda>t. on_top (\<lambda>v. Inr (VBool (ty v = t)))))
      else if b = TID then on_top (\<lambda>v. Inr (VU8 (ty_num (ty v))))
      else failW InstInvalid)"

section \<open>Stack and buffers\<close>

text \<open>The condition is below its two branches; the chosen one takes its place.\<close>

definition inst_choose :: "gas_extra \<Rightarrow> ('w itr, unit) vst" where
  "inst_choose gst = bindW (getW (\<lambda>s. sk_datas (it_ops s))) (\<lambda>d.
     if length d < 3 then failW OutOfStack
     else let c = length d - 3 in bindW (liftW (extract_bool (d ! c))) (\<lambda>yes.
       bindW (gas_resource (stack_move_items gst 2)) (\<lambda>_.
         on_ops (modW (set_datas (take (length d - 2) (d[c := d ! (if yes then c + 1 else c + 2)])))))))"

definition inst_stack :: "'w itr_env \<Rightarrow> u8 \<Rightarrow> ('w itr, unit) vst" where
  "inst_stack env b = (let gst = ie_gst env; codes = ie_codes env in
     if b = DUP then bindW (getW (\<lambda>s. sk_datas (it_ops s))) (\<lambda>d.
       bindW (gas_resource (stack_copy gst (if d = [] then 0 else dup_size (last d)))) (\<lambda>_. bindW (on_ops stk_last) push))
     else if b = DUPN then bindW (itrparam codes 1) (\<lambda>n. bindW (getW (\<lambda>s. sk_datas (it_ops s))) (\<lambda>d.
       bindW (gas_resource (stack_copy gst (if n \<le> length d then sum_list (map dup_size (drop (length d - n) d)) else 0))) (\<lambda>_.
         on_ops (stk_dupn n))))
     else if b = POP then bindW pop (\<lambda>_. retW ())
     else if b = POPN then bindW (itrparam codes 1) (\<lambda>n. bindW (gas_resource (stack_move_items gst n)) (\<lambda>_.
       bindW (on_ops (stk_popn n)) (\<lambda>_. retW ())))
     else if b = ROLL0 then bindW (gas_resource (stack_move_items gst 1)) (\<lambda>_. on_ops (stk_roll 0))
     else if b = ROLL then bindW (itrparam codes 1) (\<lambda>n. bindW (gas_resource (stack_move_items gst (n + 1))) (\<lambda>_. on_ops (stk_roll n)))
     else if b = SWAP then bindW (gas_resource (stack_move_items gst 2)) (\<lambda>_. on_ops stk_swap)
     else if b = REV then bindW (itrparam codes 1) (\<lambda>n. bindW (gas_resource (stack_move_items gst n)) (\<lambda>_. on_ops (stk_reverse n)))
     else if b = CHOOSE then inst_choose gst
     else failW InstInvalid)"

definition tail_val_size :: "nat \<Rightarrow> ('w itr, nat) vst" where
  "tail_val_size n = look (\<lambda>s. case stk_tail n (it_ops s) of None \<Rightarrow> Inl OutOfStack | Some v \<Rightarrow> Inr (val_size (it_cells s) v))"

definition tail_val_size_sum :: "nat \<Rightarrow> ('w itr, nat) vst" where
  "tail_val_size_sum n = look (\<lambda>s. let d = sk_datas (it_ops s) in if n > length d then Inl OutOfStack
     else Inr (sum_list (map (val_size (it_cells s)) (drop (length d - n) d))))"

text \<open>\<open>peek_op_gas\<close>: the immediate is read after the gas is added.\<close>

definition peek_op_gas :: "'w itr_env \<Rightarrow> (nat \<Rightarrow> rval \<Rightarrow> rval vmrt) \<Rightarrow> ('w itr, unit) vst" where
  "peek_op_gas env f = bindW peek (\<lambda>v. bindW (size_of v) (\<lambda>n. bindW (gas_resource (stack_op (ie_gst env) n)) (\<lambda>_.
     bindW (itrparam (ie_codes env) 1) (\<lambda>i. on_top (f i)))))"

definition inst_buffer :: "'w itr_env \<Rightarrow> u8 \<Rightarrow> ('w itr, unit) vst" where
  "inst_buffer env b = (let gst = ie_gst env; codes = ie_codes env in
     if b = CAT then bindW (tail_val_size 1) (\<lambda>m. bindW (tail_val_size 0) (\<lambda>n.
       bindW (gas_resource (stack_op gst (m + n))) (\<lambda>_. on_ops (stk_cat (ie_cap env)))))
     else if b = JOIN then bindW (itrparam codes 1) (\<lambda>n. bindW (tail_val_size_sum n) (\<lambda>m.
       bindW (gas_resource (stack_op gst m)) (\<lambda>_. on_ops (stk_join n (ie_cap env)))))
     else if b = BYTE then bindW (tail_val_size 1) (\<lambda>m. bindW (gas_resource (stack_op gst m)) (\<lambda>_.
       bindW pop (\<lambda>v. bindW (liftW (extract_u16 v)) (\<lambda>i. on_top (cutbyte i)))))
     else if b = CUT then bindW pop (\<lambda>l. bindW pop (\<lambda>ost. bindW (tail_val_size 0) (\<lambda>m.
       bindW (gas_resource (stack_op gst m)) (\<lambda>_. on_top (cutout l ost)))))
     else if b = LEFT then peek_op_gas env cutleft
     else if b = RIGHT then peek_op_gas env cutright
     else if b = LDROP then peek_op_gas env dropleft
     else if b = RDROP then peek_op_gas env dropright
     else if b = SIZE then on_top (\<lambda>v. bindV (can_get_size v) (\<lambda>n. Inr (VU16 (word_of_nat n))))
     else failW InstInvalid)"

end
