(* ===== verification/VmExec.thy ===== *)
theory VmExec
  imports VmInst
begin

text \<open>
  The instructions on containers, locals, logs, the heap, contract storage and memory, comparison, arithmetic and control,
  and the loop that runs a frame (\<^verbatim>\<open>vm/src/interpreter/execute.rs\<close>, \<^verbatim>\<open>operand.rs\<close>, \<^verbatim>\<open>instruction.rs\<close>).
\<close>

section \<open>Containers\<close>

text \<open>\<open>ops.compo()\<close>: the list or map on top of the stack.\<close>

definition top_compo :: "('w itr, nat \<times> cell) vst" where "top_compo = bindW peek (\<lambda>v. on_cells (the_compo v))"

definition compo_edit_gas :: "gas_extra \<Rightarrow> ('w itr, unit) vst" where
  "compo_edit_gas gst = bindW top_compo (\<lambda>p. gas_resource (compo_items_edit gst (cell_len (snd p))))"

definition compo_read_gas :: "gas_extra \<Rightarrow> ('w itr, unit) vst" where
  "compo_read_gas gst = bindW peek (\<lambda>v. bindW (look (\<lambda>s. container_len (it_cells s) v)) (\<lambda>n. gas_resource (compo_items_read gst n)))"

definition take_items_from_ops :: "bool \<Rightarrow> space_cap \<Rightarrow> ('w itr, rval list) vst" where
  "take_items_from_ops is_map cap = bindW pop (\<lambda>v. bindW (liftW (extract_u16 v)) (\<lambda>n.
     if n = 0 then failW CompoPackError
     else if n > (if is_map then 2 * cap_compo_length cap else cap_compo_length cap) then failW OutOfCompoLen
     else on_ops (stk_taken n)))"

definition pack_list :: "space_cap \<Rightarrow> ('w itr, rval \<times> nat) vst" where
  "pack_list cap = bindW (take_items_from_ops False cap) (\<lambda>l. bindW (on_cells (compo_list l)) (\<lambda>v. retW (v, length l)))"

definition pack_map :: "space_cap \<Rightarrow> ('w itr, rval \<times> nat) vst" where
  "pack_map cap = bindW (take_items_from_ops True cap) (\<lambda>l. if length l mod 2 \<noteq> 0 then failW CompoPackError
     else bindW (liftW (pack_pairs l [])) (\<lambda>m. bindW (on_cells (compo_map m)) (\<lambda>v. retW (v, length l))))"

definition tuple_pack :: "space_cap \<Rightarrow> ('w itr, rval \<times> nat) vst" where
  "tuple_pack cap = bindW pop (\<lambda>v. bindW (liftW (extract_u16 v)) (\<lambda>n.
     if n = 0 then failW CompoPackError else if n > cap_tuple_length cap then failW OutOfCompoLen
     else bindW (on_ops (stk_taken n)) (\<lambda>l. bindW (on_cells (tuple_new l)) (\<lambda>v. retW (v, n)))))"

text \<open>\<open>UNPACK\<close> writes the items into consecutive locals, and adds up the gas of the writes.\<close>

fun unpack_seq :: "gas_extra \<Rightarrow> space_cap \<Rightarrow> nat \<Rightarrow> rval list \<Rightarrow> int \<Rightarrow> ('w itr, int) vst" where
  "unpack_seq gst cap i [] gas = retW gas"
| "unpack_seq gst cap i (v # vs) gas = bindW (liftW (valid cap v)) (\<lambda>v.
     bindW (look (\<lambda>s. case match_compo (it_cells s) v of
       Some c \<Rightarrow> if cell_len c > cap_compo_length cap then Inl OutOfCompoLen else Inr () | None \<Rightarrow> Inr ())) (\<lambda>_.
     bindW (size_of v) (\<lambda>n. if i > 255 then failW OutOfStack
       else bindW (on_locals (stk_save i v)) (\<lambda>_. unpack_seq gst cap (i + 1) vs (gas + stack_write gst n)))))"

definition compo_pop_one :: "'w itr_env \<Rightarrow> bool \<Rightarrow> ('w itr, unit) vst" where
  "compo_pop_one env first = bindW pop (\<lambda>c. bindW (on_cells (the_compo c)) (\<lambda>p.
     bindW (on_cells (compo_take first p)) (\<lambda>v. bindW (liftW (valid (ie_cap env) v)) (\<lambda>v.
     bindW (gas_resource (compo_items_edit (ie_gst env) (cell_len (snd p)))) (\<lambda>_.
     bindW (size_of v) (\<lambda>n. bindW (gas_resource (compo_bytes (ie_gst env) n)) (\<lambda>_. push v)))))))"

definition gas_compo_bytes :: "gas_extra \<Rightarrow> nat \<Rightarrow> ('w itr, unit) vst" where
  "gas_compo_bytes gst n = gas_resource (compo_bytes gst n)"

definition inst_make :: "'w itr_env \<Rightarrow> u8 \<Rightarrow> ('w itr, unit) vst" where
  "inst_make env b = (let gst = ie_gst env; cap = ie_cap env in
     if b = NEWLIST then bindW (on_cells (compo_copy (CList []))) push
     else if b = NEWMAP then bindW (on_cells (compo_copy (CMap []))) push
     else if b = PACKTUPLE then bindW (tuple_pack cap) (\<lambda>(v, n). bindW (gas_resource (compo_items_edit gst n)) (\<lambda>_. push v))
     else if b = TUPLE2LIST then bindW peek (\<lambda>t. bindW (getW (\<lambda>s. match_tuple (it_cells s) t)) (\<lambda>l.
       case l of None \<Rightarrow> failW CastFail
       | Some l \<Rightarrow> bindW (\<lambda>s. case on_cells (tuple_to_list cap l) s of
             (Inl e, s') \<Rightarrow> (Inl (if e = CastBeValueFail then CastFail else e), s') | x \<Rightarrow> x) (\<lambda>(v, len, n).
           bindW (gas_resource (compo_items_copy gst len)) (\<lambda>_. bindW (gas_compo_bytes gst n) (\<lambda>_. poke v)))))
     else if b = PACKLIST then bindW (pack_list cap) (\<lambda>(v, n). bindW (gas_resource (compo_items_edit gst n)) (\<lambda>_. push v))
     else if b = PACKMAP then bindW (pack_map cap) (\<lambda>(v, n). bindW (gas_resource (compo_items_edit gst n)) (\<lambda>_. push v))
     else if b = CLONE then bindW top_compo (\<lambda>p. bindW (on_cells (compo_copy (snd p))) (\<lambda>v.
       bindW (gas_resource (compo_items_copy gst (cell_len (snd p)))) (\<lambda>_.
       bindW (gas_compo_bytes gst (compo_val_size (snd p))) (\<lambda>_. poke v))))
     else if b = UNPACK then bindW pop (\<lambda>v. bindW (liftW (extract_u8 v)) (\<lambda>i.
       bindW peek (\<lambda>c. bindW (look (\<lambda>s. container_len (it_cells s) c)) (\<lambda>len.
       bindW (gas_resource (compo_items_read gst len)) (\<lambda>_.
       bindW (look (\<lambda>s. clone_unpack_items (it_cells s) c)) (\<lambda>items.
       bindW (getW (\<lambda>s. length (sk_datas (it_locals s)))) (\<lambda>m. if m < i + length items then failW OutOfStack
         else bindW (unpack_seq gst cap i items 0) (\<lambda>g. bindW (gas_resource g) (\<lambda>_. bindW pop (\<lambda>_. retW ()))))))))))
     else failW InstInvalid)"

definition inst_change :: "'w itr_env \<Rightarrow> u8 \<Rightarrow> ('w itr, unit) vst" where
  "inst_change env b = (let gst = ie_gst env; cap = ie_cap env in
     if b = INSERT then bindW pop (\<lambda>v. bindW pop (\<lambda>k. bindW top_compo (\<lambda>p.
       bindW (case snd p of CMap _ \<Rightarrow> bindW (liftW (extract_key_bytes k)) (\<lambda>kb. retW (length kb)) | _ \<Rightarrow> retW 0) (\<lambda>ksz.
       bindW (compo_edit_gas gst) (\<lambda>_. bindW (gas_compo_bytes gst ksz) (\<lambda>_.
       bindW (size_of v) (\<lambda>n. bindW (gas_compo_bytes gst n) (\<lambda>_. on_cells (compo_insert cap k v p)))))))))
     else if b = REMOVE then bindW pop (\<lambda>k. bindW (compo_edit_gas gst) (\<lambda>_. bindW top_compo (\<lambda>p. on_cells (compo_remove k p))))
     else if b = CLEAR then bindW top_compo (\<lambda>p. bindW (gas_resource (compo_items_edit gst (cell_len (snd p)))) (\<lambda>_.
       bindW (gas_compo_bytes gst (compo_val_size (snd p))) (\<lambda>_. on_cells (compo_clear p))))
     else if b = MERGE then bindW pop (\<lambda>a. bindW (getW (\<lambda>s. match_compo (it_cells s) a)) (\<lambda>c.
       bindW (gas_resource (compo_items_copy gst (case c of Some c \<Rightarrow> cell_len c | None \<Rightarrow> 0))) (\<lambda>_.
       bindW (gas_compo_bytes gst (case c of Some c \<Rightarrow> compo_val_size c | None \<Rightarrow> 0)) (\<lambda>_.
       bindW top_compo (\<lambda>p. bindW (on_cells (the_compo a)) (\<lambda>q. on_cells (compo_merge cap p q)))))))
     else if b = TAKEFIRST then compo_pop_one env True
     else if b = TAKELAST then compo_pop_one env False
     else if b = APPEND then bindW pop (\<lambda>v. bindW (compo_edit_gas gst) (\<lambda>_.
       bindW (size_of v) (\<lambda>n. bindW (gas_compo_bytes gst n) (\<lambda>_. bindW top_compo (\<lambda>p. on_cells (compo_append cap v p))))))
     else failW InstInvalid)"

definition inst_view :: "'w itr_env \<Rightarrow> u8 \<Rightarrow> ('w itr, unit) vst" where
  "inst_view env b = (let gst = ie_gst env; cap = ie_cap env in
     if b = BC_LENGTH then bindW (getW it_cells) (\<lambda>c. on_top (value_length c cap))
     else if b = HASKEY then bindW pop (\<lambda>k. bindW peek (\<lambda>c. bindW (look (\<lambda>s. value_haskey (it_cells s) c k)) (\<lambda>h.
       bindW (compo_read_gas gst) (\<lambda>_. poke h))))
     else if b = ITEMGET then bindW pop (\<lambda>k. bindW peek (\<lambda>c. bindW (look (\<lambda>s. value_itemget (it_cells s) c k)) (\<lambda>v.
       bindW (liftW (valid cap v)) (\<lambda>v. bindW (compo_read_gas gst) (\<lambda>_.
       bindW (size_of v) (\<lambda>n. bindW (gas_compo_bytes gst n) (\<lambda>_. poke v)))))))
     else if b = KEYS then bindW top_compo (\<lambda>p. bindW (on_cells (compo_keys (snd p))) (\<lambda>(v, len, n).
       bindW (gas_resource (compo_items_read gst len)) (\<lambda>_. bindW (gas_compo_bytes gst n) (\<lambda>_. poke v))))
     else if b = VALUES then bindW top_compo (\<lambda>p. bindW (on_cells (compo_values (snd p))) (\<lambda>(v, len, n).
       bindW (gas_resource (compo_items_read gst len)) (\<lambda>_. bindW (gas_compo_bytes gst n) (\<lambda>_. poke v))))
     else failW InstInvalid)"

section \<open>Logic and arithmetic\<close>

definition lgc_and :: "rval \<Rightarrow> rval \<Rightarrow> rval vmrt" where
  "lgc_and x y = bindV (extract_bool x) (\<lambda>a. bindV (extract_bool y) (\<lambda>b. Inr (VBool (a \<and> b))))"
definition lgc_or :: "rval \<Rightarrow> rval \<Rightarrow> rval vmrt" where
  "lgc_or x y = bindV (extract_bool x) (\<lambda>a. bindV (extract_bool y) (\<lambda>b. Inr (VBool (a \<or> b))))"
definition lgc_equal :: "cells \<Rightarrow> rval \<Rightarrow> rval \<Rightarrow> rval vmrt" where
  "lgc_equal c x y = bindV (value_content_eq c x y) (\<lambda>b. Inr (VBool b))"
definition lgc_not_equal :: "cells \<Rightarrow> rval \<Rightarrow> rval \<Rightarrow> rval vmrt" where
  "lgc_not_equal c x y = bindV (value_content_eq c x y) (\<lambda>b. Inr (VBool (\<not> b)))"
definition lgc_ord_cmp :: "(nat \<Rightarrow> nat \<Rightarrow> bool) \<Rightarrow> rval \<Rightarrow> rval \<Rightarrow> rval vmrt" where
  "lgc_ord_cmp f x y = (if \<not> is_uint x \<or> \<not> is_uint y then Inl Arithmetic
     else bindV (extract_u128 x) (\<lambda>a. bindV (extract_u128 y) (\<lambda>b. Inr (VBool (f a b)))))"

definition binop_with :: "(rval \<Rightarrow> rval \<Rightarrow> rval vmrt) \<Rightarrow> ('w itr, unit) vst" where
  "binop_with f = bindW pop (\<lambda>y. on_top (\<lambda>x. f x y))"
definition triop_with :: "(rval \<Rightarrow> rval \<Rightarrow> rval \<Rightarrow> rval vmrt) \<Rightarrow> ('w itr, unit) vst" where
  "triop_with f = bindW pop (\<lambda>z. bindW pop (\<lambda>y. on_top (\<lambda>x. f x y z)))"
definition quadop_with :: "(rval \<Rightarrow> rval \<Rightarrow> rval \<Rightarrow> rval \<Rightarrow> rval vmrt) \<Rightarrow> ('w itr, unit) vst" where
  "quadop_with f = bindW pop (\<lambda>w. bindW pop (\<lambda>z. bindW pop (\<lambda>y. on_top (\<lambda>x. f x y z w))))"

definition compare_gas :: "gas_extra \<Rightarrow> ('w itr, unit) vst" where
  "compare_gas gst = bindW (getW (\<lambda>s. (stk_tail 1 (it_ops s), stk_tail 0 (it_ops s), it_cells s))) (\<lambda>t. case t of
     (Some a, Some b, c) \<Rightarrow> gas_resource (stack_cmp gst (value_compare_fee c (ge_container_cmp_header gst) a b)) | _ \<Rightarrow> retW ())"

definition inst_logic :: "'w itr_env \<Rightarrow> u8 \<Rightarrow> ('w itr, unit) vst" where
  "inst_logic env b =
     (if b = BC_AND then binop_with lgc_and
      else if b = BC_OR then binop_with lgc_or
      else if b = EQ then bindW (compare_gas (ie_gst env)) (\<lambda>_. bindW (getW it_cells) (\<lambda>c. binop_with (lgc_equal c)))
      else if b = NEQ then bindW (compare_gas (ie_gst env)) (\<lambda>_. bindW (getW it_cells) (\<lambda>c. binop_with (lgc_not_equal c)))
      else if b = LT then binop_with (lgc_ord_cmp (<))
      else if b = GT then binop_with (lgc_ord_cmp (>))
      else if b = LE then binop_with (lgc_ord_cmp (\<le>))
      else if b = GE then binop_with (lgc_ord_cmp (\<ge>))
      else if b = BC_NOT then on_top cast_bool_not
      else failW InstInvalid)"

definition fin_spec_param :: "'w itr_env \<Rightarrow> u8 \<Rightarrow> ('w itr, fin_spec) vst" where
  "fin_spec_param env b = bindW (itrparam (ie_codes env) 1) (\<lambda>n. liftW (fin_spec_lookup b (word_of_nat n)))"

text \<open>The length of the exponent, on which the price of \<open>FINPOW3\<close> depends.\<close>

definition pow_exp_bits :: "nat vstack \<Rightarrow> int" where
  "pow_exp_bits s = (let d = sk_datas s in if length d < 3 then 0
     else let v = d ! (length d - 2) in if \<not> is_uint v then 0
     else case extract_u128 v of Inr e \<Rightarrow> int (bit_len e) | Inl _ \<Rightarrow> 0)"

definition inst_arith :: "'w itr_env \<Rightarrow> u8 \<Rightarrow> ('w itr, unit) vst" where
  "inst_arith env b =
     (case binop_inst b of Some f \<Rightarrow> binop_with (locop_arithmetic f)
      | None \<Rightarrow> case triop_inst b of Some f \<Rightarrow> triop_with (locop_arithmetic3 f)
      | None \<Rightarrow>
        if b = FIN2 then bindW (fin_spec_param env b) (\<lambda>sp. binop_with (locop_arithmetic (fin2_checked sp)))
        else if b = FIN3 then bindW (fin_spec_param env b) (\<lambda>sp. triop_with (locop_arithmetic3 (fin3_checked sp)))
        else if b = FIN4 then bindW (fin_spec_param env b) (\<lambda>sp. quadop_with (locop_arithmetic4 (fin4_checked sp)))
        else if b = FINP3 then bindW (fin_spec_param env b) (\<lambda>sp. triop_with (locop_arithmetic3 (finp3_checked sp)))
        else if b = FINP4 then bindW (fin_spec_param env b) (\<lambda>sp. quadop_with (locop_arithmetic4 (finp4_checked sp)))
        else if b = FINPOW3 then bindW (fin_spec_param env b) (\<lambda>sp.
          bindW (getW (\<lambda>s. pow_exp_bits (it_ops s))) (\<lambda>n. bindW (gas_compute (rpow_extra (ie_gst env) n)) (\<lambda>_.
          triop_with (locop_arithmetic3 (finpow3_checked sp)))))
        else if b = INC then bindW peek (\<lambda>_. bindW (itrparam (ie_codes env) 1) (\<lambda>n. on_top (\<lambda>v. unary_inc v (word_of_nat n))))
        else if b = DEC then bindW peek (\<lambda>_. bindW (itrparam (ie_codes env) 1) (\<lambda>n. on_top (\<lambda>v. unary_dec v (word_of_nat n))))
        else if b = SQRT then on_top sqrt_floor_checked
        else if b = SQRTUP then on_top sqrt_up_checked
        else failW InstInvalid)"

section \<open>Locals, logs and heap\<close>

datatype lx_op = LxAdd | LxSub | LxMul | LxDiv
datatype lx_lg = LxAnd | LxOr | LxEq | LxNe | LxGt | LxGe | LxLt | LxLe

definition lx_op_bits :: "lx_op \<Rightarrow> u8" where "lx_op_bits x = (case x of LxAdd \<Rightarrow> 0 | LxSub \<Rightarrow> 1 | LxMul \<Rightarrow> 2 | LxDiv \<Rightarrow> 3)"
definition lx_lg_bits :: "lx_lg \<Rightarrow> u8" where
  "lx_lg_bits x = (case x of LxAnd \<Rightarrow> 0 | LxOr \<Rightarrow> 1 | LxEq \<Rightarrow> 2 | LxNe \<Rightarrow> 3 | LxGt \<Rightarrow> 4 | LxGe \<Rightarrow> 5 | LxLt \<Rightarrow> 6 | LxLe \<Rightarrow> 7)"

definition encode_local_operand_mark :: "lx_op \<Rightarrow> u8 \<Rightarrow> u8 vmrt" where
  "encode_local_operand_mark x i = (if i > 0x3f then Inl InstParamsErr else Inr (push_bit 6 (lx_op_bits x) OR i))"
definition encode_local_logic_mark :: "lx_lg \<Rightarrow> u8 \<Rightarrow> u8 vmrt" where
  "encode_local_logic_mark x i = (if i > 0x1f then Inl InstParamsErr else Inr (push_bit 5 (lx_lg_bits x) OR i))"

definition decode_local_operand_mark :: "u8 \<Rightarrow> lx_op \<times> nat" where
  "decode_local_operand_mark m = ([LxAdd, LxSub, LxMul, LxDiv] ! unat (drop_bit 6 m), unat (m AND 0x3f))"
definition decode_local_logic_mark :: "u8 \<Rightarrow> lx_lg \<times> nat" where
  "decode_local_logic_mark m = ([LxAnd, LxOr, LxEq, LxNe, LxGt, LxGe, LxLt, LxLe] ! unat (drop_bit 5 m), unat (m AND 0x1f))"

fun lx_op_fun :: "lx_op \<Rightarrow> rval \<Rightarrow> rval \<Rightarrow> rval vmrt" where
  "lx_op_fun LxAdd = add_checked" | "lx_op_fun LxSub = sub_checked" | "lx_op_fun LxMul = mul_checked" | "lx_op_fun LxDiv = div_checked"

fun lx_lg_fun :: "cells \<Rightarrow> lx_lg \<Rightarrow> rval \<Rightarrow> rval \<Rightarrow> rval vmrt" where
  "lx_lg_fun c LxAnd = lgc_and" | "lx_lg_fun c LxOr = lgc_or" | "lx_lg_fun c LxEq = lgc_equal c" | "lx_lg_fun c LxNe = lgc_not_equal c"
| "lx_lg_fun c LxGt = lgc_ord_cmp (>)" | "lx_lg_fun c LxGe = lgc_ord_cmp (\<ge>)"
| "lx_lg_fun c LxLt = lgc_ord_cmp (<)" | "lx_lg_fun c LxLe = lgc_ord_cmp (\<le>)"

definition local_operand :: "u8 \<Rightarrow> rval \<Rightarrow> ('w itr, unit) vst" where
  "local_operand mark v = (let (f, i) = decode_local_operand_mark mark in
     bindW (on_locals (stk_load i)) (\<lambda>x. bindW (liftW (locop_arithmetic (lx_op_fun f) x v)) (\<lambda>y. on_locals (stk_save i y))))"

definition local_logic :: "u8 \<Rightarrow> ('w itr, unit) vst" where
  "local_logic mark = (let (f, i) = decode_local_logic_mark mark in
     bindW peek (\<lambda>v. bindW (on_locals (stk_load i)) (\<lambda>x. bindW (getW it_cells) (\<lambda>c.
       bindW (liftW (lx_lg_fun c f x v)) poke))))"

definition local_get :: "'w itr_env \<Rightarrow> nat \<Rightarrow> ('w itr, unit) vst" where
  "local_get env i = bindW (on_locals (stk_load i)) (\<lambda>v. bindW (liftW (valid (ie_cap env) v)) (\<lambda>v.
     bindW (gas_resource (stack_copy (ie_gst env) (dup_size v))) (\<lambda>_. push v)))"

definition inst_local :: "'w itr_env \<Rightarrow> u8 \<Rightarrow> ('w itr, unit) vst" where
  "inst_local env b = (let gst = ie_gst env; cap = ie_cap env; codes = ie_codes env in
     if b = XLG then bindW (itrparam codes 1) (\<lambda>m. let mark = word_of_nat m; (f, i) = decode_local_logic_mark mark in
       bindW (if f = LxEq \<or> f = LxNe then bindW (on_locals (stk_load i)) (\<lambda>x. bindW peek (\<lambda>t. bindW (getW it_cells) (\<lambda>c.
         gas_resource (stack_cmp gst (value_compare_fee c (ge_container_cmp_header gst) x t))))) else retW ()) (\<lambda>_.
       local_logic mark))
     else if b = XOP then bindW (itrparam codes 1) (\<lambda>m. let mark = word_of_nat m in
       bindW pop (\<lambda>v. bindW (local_operand mark v) (\<lambda>_. bindW (on_locals (stk_load (snd (decode_local_operand_mark mark)))) (\<lambda>y.
       bindW (size_of y) (\<lambda>n. gas_resource (stack_write gst n))))))
     else if b = GET then bindW (itrparam codes 1) (local_get env)
     else if b = PUT then bindW pop (\<lambda>v. bindW (liftW (valid cap v)) (\<lambda>v. bindW (size_of v) (\<lambda>n.
       bindW (gas_resource (stack_write gst n)) (\<lambda>_. bindW (itrparam codes 1) (\<lambda>i. on_locals (stk_save i v))))))
     else if b = GETX then bindW peek (\<lambda>t. bindW (liftW (extract_u16 t)) (\<lambda>i. bindW (on_locals (stk_load i)) (\<lambda>v.
       bindW (liftW (valid cap v)) (\<lambda>v. bindW (gas_resource (stack_copy gst (dup_size v))) (\<lambda>_. poke v)))))
     else if b = PUTX then bindW pop (\<lambda>v. bindW (liftW (valid cap v)) (\<lambda>v. bindW (size_of v) (\<lambda>n.
       bindW (gas_resource (stack_write gst n)) (\<lambda>_. bindW pop (\<lambda>t. bindW (liftW (extract_u16 t)) (\<lambda>i. on_locals (stk_save i v)))))))
     else if b = ALLOC then bindW (itrparam codes 1) (\<lambda>n. bindW (on_locals (stk_alloc n)) (\<lambda>k.
       gas_resource (ge_one_local_alloc gst * int k)))
     else if b \<in> {GET0, GET1, GET2, GET3} then local_get env (unat (b - GET0))
     else failW InstInvalid)"

text \<open>A log is two to five scalars, within the bytes a transaction may log.\<close>

definition vm_log_new :: "rval list \<Rightarrow> unit vmrt" where
  "vm_log_new l = (if length l < 2 then Inl (OtherCode 49) else if length l > 5 then Inl (OtherCode 49) else check_all check_scalar l)"

definition log_push :: "address \<Rightarrow> rval list \<Rightarrow> ('w vm_world, unit) vst" where
  "log_push a l = bindW (liftW (vm_log_new l)) (\<lambda>_. modW (\<lambda>w. w\<lparr>w_logs := w_logs w @ [(a, l)]\<rparr>))"

definition inst_log :: "'w itr_env \<Rightarrow> u8 \<Rightarrow> ('w itr, unit) vst" where
  "inst_log env b = (let cap = ie_cap env in
     if b \<in> {LOG1, LOG2, LOG3, LOG4} then
       bindW (nsw (ie_exec env)) (\<lambda>_. bindW (on_ops (stk_popn (unat (b - LOG1) + 2))) (\<lambda>l.
       bindW (getW (\<lambda>s. sum_list (map (val_size (it_cells s)) l))) (\<lambda>n.
       if cap_log_size cap = 0 then failW OutOfLogSize
       else bindW (getW it_log) (\<lambda>u. if u + n \<ge> 2 ^ 64 then failW OutOfLogSize else if u + n > cap_log_size cap then failW OutOfLogSize
         else bindW (modW (\<lambda>s. s\<lparr>it_log := u + n\<rparr>)) (\<lambda>_. bindW (gas_storage (log_bytes_gas (ie_gst env) n)) (\<lambda>_.
           on_world (log_push (ie_context env) l)))))))
     else failW InstInvalid)"

definition hwrite :: "'w itr_env \<Rightarrow> nat \<Rightarrow> ('w itr, unit) vst" where
  "hwrite env i = bindW pop (\<lambda>v. bindW (size_of v) (\<lambda>n. bindW (gas_resource (heap_write_gas (ie_gst env) n)) (\<lambda>_.
     on_heap (heap_write i v))))"

definition hread_push :: "'w itr_env \<Rightarrow> rval \<Rightarrow> ('w itr, unit) vst" where
  "hread_push env v = bindW (size_of v) (\<lambda>n. bindW (gas_resource (heap_read_gas (ie_gst env) n)) (\<lambda>_. push v))"

definition inst_heap :: "'w itr_env \<Rightarrow> u8 \<Rightarrow> ('w itr, unit) vst" where
  "inst_heap env b = (let gst = ie_gst env; cap = ie_cap env; codes = ie_codes env in
     if b = HREADUL then bindW (itrparam codes 2) (\<lambda>n. bindW (look (\<lambda>s. heap_read_ul n (it_heap s))) (hread_push env))
     else if b = HREADU then bindW (itrparam codes 1) (\<lambda>n. bindW (look (\<lambda>s. heap_read_u n (it_heap s))) (hread_push env))
     else if b = HWRITEXL then bindW (itrparam codes 2) (hwrite env)
     else if b = HWRITEX then bindW (itrparam codes 1) (hwrite env)
     else if b = HREAD then bindW pop (\<lambda>n. bindW (liftW (extract_u16 n)) (\<lambda>len. bindW (gas_resource (heap_read_gas gst len)) (\<lambda>_.
       bindW peek (\<lambda>t. bindW (look (\<lambda>s. heap_read t n (it_heap s))) (\<lambda>v. bindW (liftW (valid cap v)) poke)))))
     else if b = HWRITE then bindW pop (\<lambda>t. bindW (liftW (extract_u32 t)) (hwrite env))
     else if b = HGROW then bindW (itrparam codes 1) (\<lambda>n. bindW (on_heap (heap_grow n gst)) gas_resource)
     else failW InstInvalid)"

section \<open>Storage and memory\<close>

text \<open>\<open>sstat\<close> packs its two numbers in a tuple.\<close>

definition stat_value :: "(nat \<times> nat) option \<Rightarrow> (cells, rval) vst" where
  "stat_value r = (case r of None \<Rightarrow> retW VNil
     | Some (live, rc) \<Rightarrow> tuple_new [VU64 (word_of_nat live), VU64 (word_of_nat rc)])"

definition inst_storage :: "'w itr_env \<Rightarrow> u8 \<Rightarrow> ('w itr, unit) vst" where
  "inst_storage env b = (let gst = ie_gst env; cap = ie_cap env; ex = ie_exec env; a = ie_context env;
       hei = h_height (ie_host env); sha3 = h_sha3 (ie_host env) in
     if b = SSTAT then bindW (nsr ex) (\<lambda>_. bindW peek (\<lambda>k. bindW (on_store (sstat sha3 gst cap hei a k)) (\<lambda>r.
       bindW (on_cells (stat_value r)) (\<lambda>v. bindW (liftW (valid cap v)) poke))))
     else if b = SLOAD then bindW (nsr ex) (\<lambda>_. bindW peek (\<lambda>k. bindW (on_store (sload sha3 gst cap hei a k)) (\<lambda>v.
       bindW (liftW (valid cap v)) (\<lambda>v. bindW (if v = VNil then retW () else bindW (size_of v) (\<lambda>n. gas_storage (storage_read gst n))) (\<lambda>_.
       poke v)))))
     else if b = SGET then bindW (nsr ex) (\<lambda>_. bindW peek (\<lambda>k. bindW (on_store (\<lambda>s. (sget cap a k s, s))) (\<lambda>v.
       bindW (liftW (valid cap v)) (\<lambda>v. bindW (gas_storage (status_get_gas gst v)) (\<lambda>_. poke v)))))
     else if b = SEDIT then bindW (nsw ex) (\<lambda>_. bindW pop (\<lambda>v. bindW (liftW (valid cap v)) (\<lambda>v. bindW pop (\<lambda>k.
       bindW (on_store (sedit sha3 gst cap hei a k v)) (\<lambda>(fee, rebate). bindW (gas_storage fee) (\<lambda>_. rebate_add rebate))))))
     else if b = SDEL then bindW (nsw ex) (\<lambda>_. bindW pop (\<lambda>k. bindW (on_store (sdel sha3 gst cap hei a k)) rebate_add))
     else if b = SNEW then bindW (nsw ex) (\<lambda>_. bindW pop (\<lambda>t. bindW pop (\<lambda>v. bindW (liftW (valid cap v)) (\<lambda>v. bindW pop (\<lambda>k.
       bindW (on_store (snew sha3 gst cap hei a k v t)) gas_storage)))))
     else if b = SRECV then bindW (nsw ex) (\<lambda>_. bindW pop (\<lambda>t. bindW pop (\<lambda>k. bindW (on_store (srecv sha3 gst cap hei a k t)) gas_storage)))
     else if b = SRENT then bindW (nsw ex) (\<lambda>_. bindW pop (\<lambda>t. bindW pop (\<lambda>k. bindW (on_store (srent sha3 gst cap hei a k t)) gas_storage)))
     else if b = SPUT then bindW (nsw ex) (\<lambda>_. bindW pop (\<lambda>v. bindW pop (\<lambda>k. bindW (liftW (status_put_gas gst cap k v)) (\<lambda>g.
       bindW (gas_storage g) (\<lambda>_. on_store (sput cap a k v))))))
     else failW InstInvalid)"

definition kvget :: "'w itr_env \<Rightarrow> (rval \<Rightarrow> 'w itr \<Rightarrow> rval vmrt) \<Rightarrow> ('w itr, unit) vst" where
  "kvget env f = bindW (nsr (ie_exec env)) (\<lambda>_. bindW peek (\<lambda>k. bindW (look (f k)) (\<lambda>v. bindW (liftW (valid (ie_cap env) v)) (\<lambda>v.
     bindW (gas_resource (stack_copy (ie_gst env) (dup_size v))) (\<lambda>_. poke v)))))"

definition kv_new_gas :: "bool \<Rightarrow> int \<Rightarrow> ('w itr, unit) vst" where
  "kv_new_gas old cost = (if old then retW () else gas_resource cost)"

definition inst_gput :: "'w itr_env \<Rightarrow> ('w itr, unit) vst" where
  "inst_gput env = (let gst = ie_gst env; cap = ie_cap env in
     bindW (nsw (ie_exec env)) (\<lambda>_. bindW pop (\<lambda>v. bindW pop (\<lambda>k.
     bindW (liftW (validate_volatile_kv_put cap k v True GlobalError)) (\<lambda>_.
     bindW (look (\<lambda>s. kv_key_len GKV k (it_global s))) (\<lambda>klen. bindW (gas_resource (stack_write gst klen)) (\<lambda>_.
     if v = VNil then on_global (kv_remove GKV k)
     else bindW (size_of v) (\<lambda>n. bindW (look (\<lambda>s. kv_contains GKV k (it_global s))) (\<lambda>old.
       bindW (gas_resource (stack_write gst n)) (\<lambda>_. bindW (kv_new_gas old (ge_global_key_cost gst)) (\<lambda>_.
       bindW (on_global (kv_put GKV k v)) (\<lambda>_. retW ()))))))))))))"

definition inst_mput :: "'w itr_env \<Rightarrow> ('w itr, unit) vst" where
  "inst_mput env = (let gst = ie_gst env; cap = ie_cap env; a = ie_context env in
     bindW (nsw (ie_exec env)) (\<lambda>_. bindW pop (\<lambda>v. bindW pop (\<lambda>k.
     bindW (liftW (validate_volatile_kv_put cap k v True MemoryError)) (\<lambda>_.
     bindW (liftW (extract_key_bytes_ec MemoryError k)) (\<lambda>kb. bindW (gas_resource (stack_write gst (length kb))) (\<lambda>_.
     if v = VNil then on_memory (cm_remove a k)
     else bindW (size_of v) (\<lambda>n. bindW (look (\<lambda>s. bindV (cm_entry a (it_memory s)) (\<lambda>r.
         case r of Some m \<Rightarrow> kv_contains MKV k m | None \<Rightarrow> Inr False))) (\<lambda>old.
       bindW (gas_resource (stack_write gst n)) (\<lambda>_. bindW (kv_new_gas old (ge_memory_key_cost gst)) (\<lambda>_.
       bindW (on_memory (cm_entry_mut a (kv_put MKV k v))) (\<lambda>_. retW ()))))))))))))"

definition inst_memory :: "'w itr_env \<Rightarrow> u8 \<Rightarrow> ('w itr, unit) vst" where
  "inst_memory env b =
     (if b = GPUT then inst_gput env
      else if b = GGET then kvget env (\<lambda>k s. kv_get GKV k (it_global s))
      else if b = MPUT then inst_mput env
      else if b = MGET then kvget env (\<lambda>k s. cm_get (ie_context env) k (it_memory s))
      else if b = MTAKE then bindW (nsw (ie_exec env)) (\<lambda>_. bindW peek (\<lambda>k. bindW (look (\<lambda>s. cm_get (ie_context env) k (it_memory s))) (\<lambda>v.
        bindW (liftW (valid (ie_cap env) v)) (\<lambda>v. if v = VNil then failW MemoryError
          else bindW (gas_resource (stack_copy (ie_gst env) (dup_size v))) (\<lambda>_. bindW (on_memory (cm_remove (ie_context env) k)) (\<lambda>_. poke v))))))
      else failW InstInvalid)"

section \<open>Actions and native functions\<close>

text \<open>The actions a contract can call: their number and the type of what they return.\<close>

definition ACTION_DEFS :: "(u8 \<times> value_ty) list" where
  "ACTION_DEFS = map (\<lambda>i. (i, TyNil)) [1, 13, 14, 10, 11, 12, 5, 7, 8, 6, 34, 17, 18, 19]"
definition ACTION_ENV_DEFS :: "(u8 \<times> value_ty) list" where "ACTION_ENV_DEFS = [(1, TyU64), (3, TyAddress), (2, TyAddress)]"
definition ACTION_VIEW_DEFS :: "(u8 \<times> value_ty) list" where
  "ACTION_VIEW_DEFS = [(1, TyBytes), (2, TyU64), (9, TyBool), (0x11, TyU8), (0x12, TyBytes), (0x13, TyBytes), (0x14, TyBytes)]"

definition act_defs :: "u8 \<Rightarrow> (u8 \<times> value_ty) list" where
  "act_defs b = (if b = ACTION then ACTION_DEFS else if b = ACTENV then ACTION_ENV_DEFS else if b = ACTVIEW then ACTION_VIEW_DEFS else [])"

definition ensure_act_id :: "u8 \<Rightarrow> u8 \<Rightarrow> unit vmrt" where
  "ensure_act_id b i = (if map_of (act_defs b) i = None then Inl InstParamsErr else Inr ())"

definition ensure_act_allowed :: "exec_ctx \<Rightarrow> u8 \<Rightarrow> u8 \<Rightarrow> unit vmrt" where
  "ensure_act_allowed ex b i = bindV (ensure_act_id b i) (\<lambda>_.
     if b = ACTION \<and> (ec_entry ex \<noteq> EntryMain \<or> ec_effect ex \<noteq> EffEdit \<or> \<not> is_outer_entry ex) then Inl ActDisabled
     else if ec_effect ex = EffPure \<and> (b = ACTENV \<or> b = ACTVIEW) then Inl ActDisabled else Inr ())"

definition act_pass_body :: "u8 \<Rightarrow> bool" where "act_pass_body b \<longleftrightarrow> b = ACTION \<or> b = ACTVIEW"
definition act_have_retv :: "u8 \<Rightarrow> bool" where "act_have_retv b \<longleftrightarrow> b \<noteq> ACTION"
definition act_retv_type :: "u8 \<Rightarrow> u8 \<Rightarrow> value_ty vmrt" where
  "act_retv_type b i = okV InstParamsErr (if b = ACTENV \<or> b = ACTVIEW then map_of (act_defs b) i else None)"

definition action_call :: "'w vm_host \<Rightarrow> nat \<Rightarrow> u8 list \<Rightarrow> ('w vm_world, nat \<times> u8 list) vst" where
  "action_call h kid body = (\<lambda>w. case h_action h kid body w of
     (Inl reverts, w') \<Rightarrow> (Inl (if reverts then ActCallRevert else ActCallError), w') | (Inr x, w') \<Rightarrow> (Inr x, w'))"

definition inst_action :: "'w itr_env \<Rightarrow> u8 \<Rightarrow> ('w itr, unit) vst" where
  "inst_action env b = (let gst = ie_gst env; cap = ie_cap env in
     bindW (itrparam (ie_codes env) 1) (\<lambda>n. let i = word_of_nat n in
     bindW (liftW (ensure_act_allowed (ie_exec env) b i)) (\<lambda>_.
     bindW (if act_pass_body b then bindW peek (\<lambda>v. bindW (liftW (extract_call_data v)) (\<lambda>bd.
         bindW (gas_resource (act_bytes gst (length bd))) (\<lambda>_. retW bd))) else retW []) (\<lambda>body.
     bindW (on_world (action_call (ie_host env) (256 * unat b + n) body)) (\<lambda>(g, res).
     bindW (gas_resource (int g)) (\<lambda>_.
     if act_have_retv b then
       bindW (liftW (bindV (act_retv_type b i) (\<lambda>t. bindV (type_from t res) (valid cap)))) (\<lambda>v.
       bindW (size_of v) (\<lambda>m. bindW (gas_resource (act_bytes gst m)) (\<lambda>_. if act_pass_body b then poke v else push v)))
     else bindW pop (\<lambda>_. retW ())))))))"

definition finish_ntcall :: "'w itr_env \<Rightarrow> rval \<times> int \<Rightarrow> ('w itr, unit) vst" where
  "finish_ntcall env p = bindW (liftW (valid (ie_cap env) (fst p))) (\<lambda>v. bindW (size_of v) (\<lambda>n.
     bindW (gas_resource (nt_bytes (ie_gst env) n)) (\<lambda>_. bindW (gas_resource (snd p)) (\<lambda>_. push v))))"

definition on_native :: "(cells \<times> 'w \<Rightarrow> 'a vmrt \<times> cells \<times> 'w) \<Rightarrow> ('w itr, 'a) vst" where
  "on_native f = (\<lambda>s. let (r, c, w) = f (it_cells s, w_other (it_world s)) in
     (r, s\<lparr>it_cells := c, it_world := (it_world s)\<lparr>w_other := w\<rparr>\<rparr>))"

definition inst_native :: "'w itr_env \<Rightarrow> u8 \<Rightarrow> ('w itr, unit) vst" where
  "inst_native env b = (let h = ie_host env; ex = ie_exec env; a = ie_context env in
     bindW (itrparam (ie_codes env) 1) (\<lambda>n. let i = word_of_nat n in
     if b = NTCTL then bindW pop (\<lambda>v. bindW (liftW (valid (ie_cap env) v)) (\<lambda>v. bindW (on_native (h_ntctl h ex a i v)) (finish_ntcall env)))
     else if b = NTFUNC then bindW pop (\<lambda>v. bindW (liftW (extract_call_data v)) (\<lambda>d.
       bindW (gas_resource (nt_bytes (ie_gst env) (length d))) (\<lambda>_. bindW (liftW (h_ntfunc h i d)) (finish_ntcall env))))
     else bindW (on_native (\<lambda>(c, w). let (r, c') = h_ntenv h ex a i (c, w) in (r, c', w))) (finish_ntcall env)))"

section \<open>Control\<close>

definition then_go :: "('w itr, unit) vst \<Rightarrow> 'w inst" where "then_go m = bindW m (\<lambda>_. go_on)"

definition inst_flow :: "'w itr_env \<Rightarrow> u8 \<Rightarrow> 'w inst" where
  "inst_flow env b = (let codes = ie_codes env in
     if b = JMPL then then_go (jump codes 2)
     else if b = JMPS then then_go (ostjump codes 1)
     else if b = JMPSL then then_go (ostjump codes 2)
     else if b = BRL then then_go (branch codes 2)
     else if b = BRS then then_go (ostbranchex codes 1 True)
     else if b = BRSL then then_go (ostbranchex codes 2 True)
     else if b = BRSLN then then_go (ostbranchex codes 2 False)
     else if b = NT then failW InstNeverTouch
     else if b = NOP then go_on
     else if b = BURN then then_go (bindW (itrparam codes 2) (\<lambda>n. gas_resource (burn_extra (ie_gst env) (int n))))
     else if b = RET then leave ExReturn
     else if b = END then leave ExFinish
     else if b = ERR then leave ExThrow
     else if b = ABT then leave ExAbort
     else if b = AST then bindW pop (\<lambda>v. bindW (liftW (extract_bool v)) (\<lambda>ok. if ok then go_on else leave ExAbort))
     else if b = PRT then then_go (bindW pop (\<lambda>_. retW ()))
     else if is_user_call_inst b then bindW (getW it_pc) (\<lambda>p. let e = p + inst_param b in
       if e > length codes then failW CodeOverflow
       else bindW (liftW (decode_user_call_site b (take (inst_param b) (drop p codes)))) (\<lambda>call.
         bindW (set_pc e) (\<lambda>_. bindW (liftW (check_call_mode (ie_exec env) call)) (\<lambda>_. leave (ExCall call)))))
     else failW InstInvalid)"

text \<open>The \<open>match\<close> on the instruction, by its groups.\<close>

definition exec_inst :: "'w itr_env \<Rightarrow> u8 \<Rightarrow> 'w inst" where
  "exec_inst env b =
     (if b \<in> {ACTION, ACTENV, ACTVIEW} then then_go (inst_action env b)
      else if b \<in> {NTCTL, NTFUNC, NTENV} then then_go (inst_native env b)
      else if b \<in> {PU8, PU16, PBUF, PBUFL, P0, P1, P2, P3, PNBUF, PNIL, PTRUE, PFALSE} then then_go (inst_push env b)
      else if b \<in> {CU8, CU16, CU32, CU64, CU128, CBYTES, CTO, TNIL, TLIST, TMAP, TIS, TID} then then_go (inst_cast env b)
      else if b \<in> {DUP, DUPN, POP, POPN, ROLL0, ROLL, SWAP, REV, CHOOSE} then then_go (inst_stack env b)
      else if b \<in> {CAT, JOIN, BYTE, CUT, LEFT, RIGHT, LDROP, RDROP, SIZE} then then_go (inst_buffer env b)
      else if b \<in> {NEWLIST, NEWMAP, PACKTUPLE, TUPLE2LIST, PACKLIST, PACKMAP, CLONE, UNPACK} then then_go (inst_make env b)
      else if b \<in> {INSERT, REMOVE, CLEAR, MERGE, TAKEFIRST, TAKELAST, APPEND} then then_go (inst_change env b)
      else if b \<in> {BC_LENGTH, HASKEY, ITEMGET, KEYS, VALUES} then then_go (inst_view env b)
      else if b \<in> {XLG, XOP, GET, PUT, GETX, PUTX, ALLOC, GET0, GET1, GET2, GET3} then then_go (inst_local env b)
      else if b \<in> {LOG1, LOG2, LOG3, LOG4} then then_go (inst_log env b)
      else if b \<in> {HREADUL, HREADU, HWRITEXL, HWRITEX, HREAD, HWRITE, HGROW} then then_go (inst_heap env b)
      else if b \<in> {SSTAT, SLOAD, SGET, SEDIT, SDEL, SNEW, SRECV, SRENT, SPUT} then then_go (inst_storage env b)
      else if b \<in> {GPUT, GGET, MPUT, MGET, MTAKE} then then_go (inst_memory env b)
      else if b \<in> {BC_AND, BC_OR, EQ, NEQ, LT, GT, LE, GE, BC_NOT} then then_go (inst_logic env b)
      else if binop_inst b \<noteq> (None :: (rval \<Rightarrow> rval \<Rightarrow> rval vmrt) option) \<or> triop_inst b \<noteq> (None :: (rval \<Rightarrow> rval \<Rightarrow> rval \<Rightarrow> rval vmrt) option)
        \<or> b \<in> {FIN2, FIN3, FIN4, FINP3, FINP4, FINPOW3, INC, DEC, SQRT, SQRTUP} then then_go (inst_arith env b)
      else inst_flow env b)"

section \<open>The loop\<close>

definition host_gas_charge :: "int \<Rightarrow> ('w vm_world, unit) vst" where
  "host_gas_charge n = (\<lambda>w. case gas_charge n (w_gas w) of (Inl _, g) \<Rightarrow> (Inl OutOfGas, w\<lparr>w_gas := g\<rparr>) | (Inr _, g) \<Rightarrow> (Inr (), w\<lparr>w_gas := g\<rparr>))"

definition host_gas_rebate :: "int \<Rightarrow> ('w vm_world, unit) vst" where
  "host_gas_rebate n = (\<lambda>w. case gas_rebate n (w_gas w) of (Inl _, g) \<Rightarrow> (Inl GasError, w\<lparr>w_gas := g\<rparr>) | (Inr _, g) \<Rightarrow> (Inr (), w\<lparr>w_gas := g\<rparr>))"

text \<open>The gas of an instruction is charged also when the instruction fails, before its error is returned.\<close>

definition settle_step :: "'w itr_env \<Rightarrow> call_exit option vmrt \<Rightarrow> 'w inst" where
  "settle_step env step =
     bindW (look (\<lambda>s. check_add_gas_use (it_use s) (it_step s) (ie_gst env))) (\<lambda>(step_total, next_gas_use).
     bindW (on_world (host_gas_charge step_total)) (\<lambda>_.
     bindW (getW it_rebate) (\<lambda>r. bindW (on_world (host_gas_rebate r)) (\<lambda>_.
     bindW (modW (\<lambda>s. s\<lparr>it_use := next_gas_use\<rparr>)) (\<lambda>_. liftW step)))))"

text \<open>One round of the loop.\<close>

definition exec_step :: "'w itr_env \<Rightarrow> 'w inst" where
  "exec_step env = bindW (getW it_pc) (\<lambda>p.
     if p \<ge> length (ie_codes env) then failW CodeOverflow
     else bindW (modW (\<lambda>s. s\<lparr>it_pc := p + 1, it_step := buckets_zero\<lparr>gb_compute := table_gas gas_table_new (ie_codes env ! p)\<rparr>,
         it_rebate := 0\<rparr>)) (\<lambda>_.
       \<lambda>s. case exec_inst env (ie_codes env ! p) s of (step, t) \<Rightarrow> settle_step env step t))"

text \<open>The loop runs on fuel; \<open>None\<close> stands for fuel that was not enough.\<close>

fun exec_loop :: "nat \<Rightarrow> 'w itr_env \<Rightarrow> 'w itr \<Rightarrow> (call_exit vmrt \<times> 'w itr) option" where
  "exec_loop 0 env s = None"
| "exec_loop (Suc n) env s = (case exec_step env s of
     (Inl e, t) \<Rightarrow> Some (Inl e, t)
   | (Inr (Some x), t) \<Rightarrow> Some (Inr x, t)
   | (Inr None, t) \<Rightarrow> exec_loop n env t)"

end
