(* ===== verification/VmRel.thy ===== *)
theory VmRel
  imports VmExec
begin

text \<open>
  What the operations on stacks, heap and maps keep: a stack, a heap and a map within their limits stay within them. The relations
  are orders (\<open>step_order\<close>), so the instructions built from the operations keep them, too.
\<close>

section \<open>Bounded memory\<close>

definition stack_step :: "nat vstack \<Rightarrow> nat vstack \<Rightarrow> bool" where
  "stack_step s t \<longleftrightarrow> sk_limit t = sk_limit s \<and> (length (sk_datas s) \<le> sk_limit s \<longrightarrow> length (sk_datas t) \<le> sk_limit s)"

interpretation stack_order: step_order stack_step
  by unfold_locales (auto simp: stack_step_def)

lemma stack_ops:
  "preserves stack_step stk_pop" "preserves stack_step stk_peek" "preserves stack_step (stk_push v)" "preserves stack_step (stk_poke v)"
  "preserves stack_step stk_last" "preserves stack_step (stk_alloc n)" "preserves stack_step (stk_taken n)"
  "preserves stack_step stk_swap" "preserves stack_step (stk_save i v)" "preserves stack_step (stk_load i)"
  "preserves stack_step (stk_reverse n)"
  unfolding preserves_def stack_step_def
  by (auto simp: stk_pop_def stk_peek_def stk_push_def stk_poke_def stk_last_def stk_alloc_def stk_taken_def stk_swap_def
      stk_save_def stk_load_def stk_reverse_def Let_def)

lemma stack_popn: "preserves stack_step (stk_popn n)"
  unfolding stk_popn_def by (intro stack_order.r_if stack_order.r_ret stack_ops)

lemma stack_pushes: "preserves stack_step (stk_pushes vs)"
proof (induction vs)
  case Nil
  show ?case unfolding stk_pushes.simps by (rule stack_order.r_ret)
next
  case (Cons v vs)
  then show ?case unfolding stk_pushes.simps by (intro stack_order.r_bind stack_ops)
qed

lemma stack_dupn: "preserves stack_step (stk_dupn n)"
  using stack_pushes by (auto simp: preserves_def stk_dupn_def Let_def stack_order.R_refl)

lemma stack_roll: "preserves stack_step (stk_roll n)"
  by (auto simp: preserves_def stk_roll_def stk_push_def Let_def stack_step_def)

lemma stack_cat: "preserves stack_step (stk_cat cap)"
  unfolding stk_cat_def by (intro stack_order.r_rules stack_ops)

lemma stack_join: "preserves stack_step (stk_join n cap)"
  unfolding stk_join_def join_with_total_def by (intro stack_order.r_rules stack_popn stack_ops)

lemma stack_choose: "preserves stack_step (\<lambda>s. (Inr (), set_datas d s)) \<longleftrightarrow> (\<forall>s. stack_step s (set_datas d s))"
  by (simp add: preserves_def)

definition heap_step :: "vheap \<Rightarrow> vheap \<Rightarrow> bool" where
  "heap_step h g \<longleftrightarrow> hp_limit g = hp_limit h \<and>
     (256 dvd length (hp_datas h) \<and> length (hp_datas h) \<le> 256 * hp_limit h \<longrightarrow>
      256 dvd length (hp_datas g) \<and> length (hp_datas g) \<le> 256 * hp_limit h)"

interpretation heap_order: step_order heap_step
  by unfold_locales (auto simp: heap_step_def)

lemma heap_write_step: "preserves heap_step (heap_write i v)"
  unfolding heap_write_def
  by (auto simp: preserves_def bindW_def heap_checked_right_def heap_step_def split: sum.splits if_splits)

lemma heap_grow_gas_limit: "heap_grow_gas g old seg lim = Inr x \<Longrightarrow> old + seg \<le> lim"
  by (auto simp: heap_grow_gas_def Let_def split: if_splits)

lemma heap_grow_step: "preserves heap_step (heap_grow n gst)"
proof -
  have "heap_step h (snd (heap_grow n gst h))" for h
  proof (cases "heap_grow_gas gst (length (hp_datas h) div SEGLEN) n (hp_limit h)")
    case (Inr x)
    then have "length (hp_datas h) div 256 + n \<le> hp_limit h" using heap_grow_gas_limit by (auto simp: SEGLEN_def)
    then show ?thesis using Inr
      by (auto simp: heap_grow_def bindW_def heap_step_def SEGLEN_def elim!: dvdE)
  qed (simp add: heap_grow_def bindW_def heap_order.R_refl)
  then show ?thesis by (simp add: preserves_def)
qed

definition kv_step :: "'x kvmap \<Rightarrow> 'x kvmap \<Rightarrow> bool" where
  "kv_step m n \<longleftrightarrow> kv_limit n = kv_limit m \<and> kv_key_max n = kv_key_max m \<and>
     (distinct (map fst (kv_datas m)) \<and> length (kv_datas m) \<le> kv_limit m \<longrightarrow>
      distinct (map fst (kv_datas n)) \<and> length (kv_datas n) \<le> kv_limit m)"

interpretation kv_order: step_order kv_step
  by unfold_locales (auto simp: kv_step_def)

lemma length_AList_update: "length (AList.update k v d) = (if k \<in> set (map fst d) then length d else length d + 1)"
  by (induction d) auto

lemma set_AList_update: "set (AList.update k v d) \<subseteq> insert (k, v) (set d)"
  by (induction d) auto

lemma length_AList_delete: "length (AList.delete k d) \<le> length d"
  by (simp add: AList.delete_eq)

lemma kv_put_step: "preserves kv_step (kv_put ec k v)"
proof -
  have "kv_step m (snd (kv_put ec k v m))" for m
    by (auto simp: kv_put_def bindW_def kv_step_def length_AList_update AList.distinct_update map_of_eq_None_iff
        split: sum.splits if_splits)
  then show ?thesis by (simp add: preserves_def)
qed

lemma kv_remove_step: "preserves kv_step (kv_remove ec k)"
proof -
  have "kv_step m (m\<lparr>kv_datas := AList.delete key (kv_datas m)\<rparr>)" for m :: "'a kvmap" and key
    using length_AList_delete [of key "kv_datas m"] by (auto simp: kv_step_def AList.distinct_delete)
  then have "kv_step m (snd (kv_remove ec k m))" for m
    by (cases "kv_key ec k m") (simp_all add: kv_remove_def bindW_def kv_order.R_refl)
  then show ?thesis by (simp add: preserves_def)
qed

text \<open>Memory is one bounded map per contract.\<close>

definition cm_ok :: "nat ctcmap \<Rightarrow> bool" where
  "cm_ok m \<longleftrightarrow> (\<forall>(a, d) \<in> set (cm_datas m). kv_limit d = cm_limit m \<and> kv_key_max d = cm_key_max m \<and>
     distinct (map fst (kv_datas d)) \<and> length (kv_datas d) \<le> cm_limit m)"

definition cm_step :: "nat ctcmap \<Rightarrow> nat ctcmap \<Rightarrow> bool" where
  "cm_step m n \<longleftrightarrow> cm_limit n = cm_limit m \<and> cm_key_max n = cm_key_max m \<and> (cm_ok m \<longrightarrow> cm_ok n)"

interpretation cm_order: step_order cm_step
  by unfold_locales (auto simp: cm_step_def)

lemma cm_entry_mut_step:
  assumes "preserves kv_step f"
  shows "preserves cm_step (cm_entry_mut a f)"
proof -
  have "cm_step m (snd (cm_entry_mut a f m))" for m
  proof (cases "cm_check_addr a")
    case (Inr u)
    define d where "d = (case map_of (cm_datas m) a of Some d \<Rightarrow> d | None \<Rightarrow> cm_new_entry m)"
    obtain r d' where f: "f d = (r, d')" by fastforce
    have st: "kv_step d d'" using preservesD [OF assms f] .
    have eq: "snd (cm_entry_mut a f m) = m\<lparr>cm_datas := AList.update a d' (cm_datas m)\<rparr>"
      using Inr f by (simp add: cm_entry_mut_def bindW_def d_def Let_def)
    have "cm_ok (m\<lparr>cm_datas := AList.update a d' (cm_datas m)\<rparr>)" if ok: "cm_ok m"
    proof -
      have "kv_limit d = cm_limit m \<and> kv_key_max d = cm_key_max m \<and> distinct (map fst (kv_datas d)) \<and> length (kv_datas d) \<le> cm_limit m"
        using ok by (auto simp: d_def cm_ok_def cm_new_entry_def split: option.splits dest!: map_of_SomeD)
      then have "kv_limit d' = cm_limit m \<and> kv_key_max d' = cm_key_max m \<and> distinct (map fst (kv_datas d')) \<and> length (kv_datas d') \<le> cm_limit m"
        using st by (auto simp: kv_step_def)
      then show ?thesis using ok set_AList_update [of a d' "cm_datas m"] unfolding cm_ok_def by fastforce
    qed
    then show ?thesis unfolding eq by (simp add: cm_step_def)
  qed (simp add: cm_entry_mut_def bindW_def cm_order.R_refl)
  then show ?thesis by (simp add: preserves_def)
qed

lemma cm_remove_step: "preserves cm_step (cm_remove a k)"
proof -
  have "cm_step m (snd (cm_remove a k m))" for m
  proof -
    have e: "cm_step m (snd (cm_entry_mut a (kv_remove MKV k) m))"
      using cm_entry_mut_step [OF kv_remove_step] unfolding preserves_def by blast
    show ?thesis
    proof (cases "cm_check_addr a")
      case (Inr u)
      show ?thesis
      proof (cases "map_of (cm_datas m) a")
        case None
        then show ?thesis using Inr by (simp add: cm_remove_def bindW_def cm_order.R_refl)
      next
        case (Some d)
        then have "cm_remove a k m = cm_entry_mut a (kv_remove MKV k) m" using Inr by (simp add: cm_remove_def bindW_def)
        then show ?thesis using e by simp
      qed
    qed (simp add: cm_remove_def bindW_def cm_order.R_refl)
  qed
  then show ?thesis by (simp add: preserves_def)
qed

end
