(* ===== verification/VmInstRel.thy ===== *)
theory VmInstRel
  imports VmRel
begin

text \<open>
  The instructions, gone through once: a relation that holds for the ways an instruction touches the state holds for every
  instruction (locale \<open>inst_rel\<close>), and, with the bookkeeping of the loop, over every run (locale \<open>loop_rel\<close>).
\<close>

section \<open>All instructions\<close>

lemma on_snds:
  "snd (on_ops m s) = s\<lparr>it_ops := snd (m (it_ops s))\<rparr>" "snd (on_locals m s) = s\<lparr>it_locals := snd (m (it_locals s))\<rparr>"
  "snd (on_heap mh s) = s\<lparr>it_heap := snd (mh (it_heap s))\<rparr>" "snd (on_cells mc s) = s\<lparr>it_cells := snd (mc (it_cells s))\<rparr>"
  "snd (on_global mg s) = s\<lparr>it_global := snd (mg (it_global s))\<rparr>" "snd (on_memory mm s) = s\<lparr>it_memory := snd (mm (it_memory s))\<rparr>"
  "snd (on_world mw s) = s\<lparr>it_world := snd (mw (it_world s))\<rparr>"
  "snd (on_store ms s) = s\<lparr>it_world := (it_world s)\<lparr>w_state := snd (ms (w_state (it_world s)))\<rparr>\<rparr>"
  by (simp_all add: on_ops_def on_locals_def on_heap_def on_cells_def on_global_def on_memory_def on_world_def on_store_def
      split_def Let_def)

locale inst_rel = step_order R
  for R :: "'w itr \<Rightarrow> 'w itr \<Rightarrow> bool" +
  fixes env :: "'w itr_env"
  assumes rel_pc: "R s (s\<lparr>it_pc := n\<rparr>)"
    and rel_ops: "stack_step (it_ops s) t \<Longrightarrow> R s (s\<lparr>it_ops := t\<rparr>)"
    and rel_locals: "stack_step (it_locals s) t \<Longrightarrow> R s (s\<lparr>it_locals := t\<rparr>)"
    and rel_heap: "heap_step (it_heap s) g \<Longrightarrow> R s (s\<lparr>it_heap := g\<rparr>)"
    and rel_cells: "R s (s\<lparr>it_cells := c\<rparr>)"
    and rel_compute: "R s (s\<lparr>it_step := (it_step s)\<lparr>gb_compute := gb_compute (it_step s) + rpow_extra (ie_gst env) j\<rparr>\<rparr>)"
    and rel_resource: "R s (s\<lparr>it_step := (it_step s)\<lparr>gb_resource := i\<rparr>\<rparr>)"
    and rel_storage: "R s (s\<lparr>it_step := (it_step s)\<lparr>gb_storage := i\<rparr>\<rparr>)"
    and rel_rebate: "R s (s\<lparr>it_rebate := i\<rparr>)"
    and rel_other: "R s (s\<lparr>it_world := (it_world s)\<lparr>w_other := w\<rparr>\<rparr>)"
    and rel_log: "ec_effect (ie_exec env) = EffEdit \<Longrightarrow> R s (s\<lparr>it_log := n\<rparr>)"
    and rel_logs: "ec_effect (ie_exec env) = EffEdit \<Longrightarrow> R s (s\<lparr>it_world := (it_world s)\<lparr>w_logs := l\<rparr>\<rparr>)"
    and rel_global: "ec_effect (ie_exec env) = EffEdit \<Longrightarrow> kv_step (it_global s) m \<Longrightarrow> R s (s\<lparr>it_global := m\<rparr>)"
    and rel_memory: "ec_effect (ie_exec env) = EffEdit \<Longrightarrow> cm_step (it_memory s) m' \<Longrightarrow> R s (s\<lparr>it_memory := m'\<rparr>)"
    and rel_write: "ec_effect (ie_exec env) = EffEdit \<Longrightarrow> R s (s\<lparr>it_world := (it_world s)\<lparr>w_state := x\<rparr>\<rparr>)"
    and rel_sload: "sload (h_sha3 (ie_host env)) (ie_gst env) (ie_cap env) (h_height (ie_host env)) (ie_context env) k (w_state (it_world s)) = (r, x)
      \<Longrightarrow> R s (s\<lparr>it_world := (it_world s)\<lparr>w_state := x\<rparr>\<rparr>)"
    and rel_sstat: "sstat (h_sha3 (ie_host env)) (ie_gst env) (ie_cap env) (h_height (ie_host env)) (ie_context env) k (w_state (it_world s)) = (q, x)
      \<Longrightarrow> R s (s\<lparr>it_world := (it_world s)\<lparr>w_state := x\<rparr>\<rparr>)"
    and rel_action: "b \<in> {ACTION, ACTENV, ACTVIEW} \<Longrightarrow> ensure_act_allowed (ie_exec env) b (word_of_nat n) = Inr u \<Longrightarrow>
      action_call (ie_host env) (256 * unat b + n) body (it_world s) = (y, w') \<Longrightarrow> R s (s\<lparr>it_world := w'\<rparr>)"
begin

text \<open>The ways an instruction touches the state.\<close>

lemma p_ops: "preserves stack_step m \<Longrightarrow> preserves R (on_ops m)"
  by (auto simp: preserves_def on_snds intro!: rel_ops)
lemma p_locals: "preserves stack_step m \<Longrightarrow> preserves R (on_locals m)"
  by (auto simp: preserves_def on_snds intro!: rel_locals)
lemma p_heap: "preserves heap_step m \<Longrightarrow> preserves R (on_heap m)"
  by (auto simp: preserves_def on_snds intro!: rel_heap)
lemma p_cells: "preserves R (on_cells m)"
  by (auto simp: preserves_def on_snds intro!: rel_cells)
lemma p_look: "preserves R (look f)" by (simp add: preserves_def look_def R_refl)
lemma p_pop: "preserves R pop" unfolding pop_def by (intro p_ops stack_ops)
lemma p_peek: "preserves R peek" unfolding peek_def by (intro p_ops stack_ops)
lemma p_push: "preserves R (push v)" unfolding push_def by (intro p_ops stack_ops)
lemma p_poke: "preserves R (poke v)" unfolding poke_def by (intro p_ops stack_ops)
lemma p_gas_resource: "preserves R (gas_resource i)" unfolding gas_resource_def by (intro r_mod rel_resource)
lemma p_gas_storage: "preserves R (gas_storage i)" unfolding gas_storage_def by (intro r_mod rel_storage)
lemma p_gas_compute: "preserves R (gas_compute (rpow_extra (ie_gst env) j))" unfolding gas_compute_def by (intro r_mod rel_compute)
lemma p_rebate: "preserves R (rebate_add i)" unfolding rebate_add_def by (intro r_bind p_look r_mod rel_rebate)
lemma p_size: "preserves R (size_of v)" unfolding size_of_def by (rule r_get)
lemma p_setpc: "preserves R (set_pc n)" unfolding set_pc_def by (intro r_mod rel_pc)
lemma p_skip: "preserves R (skip_param n)" unfolding skip_param_def by (intro r_mod rel_pc)
lemma p_peekparam: "preserves R (peekparam codes l)" unfolding peekparam_def by (rule p_look)
lemma p_itrparam: "preserves R (itrparam codes l)" unfolding itrparam_def by (intro r_bind p_peekparam r_mod rel_pc r_ret)

lemma p_nsr: "preserves R (nsr ex)" unfolding nsr_def by (intro r_if r_fail r_ret)

lemma p_nsw:
  assumes "ec_effect (ie_exec env) = EffEdit \<Longrightarrow> preserves R (f ())"
  shows "preserves R (bindW (nsw (ie_exec env)) f)"
proof (cases "ec_effect (ie_exec env)")
  case EffEdit
  then show ?thesis using assms by (simp add: nsw_def preserves_def bindW_def)
qed (simp_all add: nsw_def preserves_def bindW_def R_refl)

lemma p_store: "ec_effect (ie_exec env) = EffEdit \<Longrightarrow> preserves R (on_store m)"
  by (auto simp: preserves_def on_snds intro!: rel_write)
lemma p_log: "ec_effect (ie_exec env) = EffEdit \<Longrightarrow> preserves R (modW (\<lambda>s. s\<lparr>it_log := n\<rparr>))"
  by (intro r_mod rel_log)
lemma p_logs: "ec_effect (ie_exec env) = EffEdit \<Longrightarrow> preserves R (on_world (log_push a l))"
proof -
  assume e: "ec_effect (ie_exec env) = EffEdit"
  have "R s (s\<lparr>it_world := it_world s\<rparr>)" for s by (simp add: R_refl)
  then show ?thesis using rel_logs [OF e]
    by (cases "vm_log_new l") (auto simp: preserves_def on_snds log_push_def bindW_def)
qed
lemma p_global: "ec_effect (ie_exec env) = EffEdit \<Longrightarrow> preserves kv_step m \<Longrightarrow> preserves R (on_global m)"
  by (auto simp: preserves_def on_snds intro!: rel_global)
lemma p_memory: "ec_effect (ie_exec env) = EffEdit \<Longrightarrow> preserves cm_step m \<Longrightarrow> preserves R (on_memory m)"
  by (auto simp: preserves_def on_snds intro!: rel_memory)

lemma p_sload: "preserves R (on_store (sload (h_sha3 (ie_host env)) (ie_gst env) (ie_cap env) (h_height (ie_host env)) (ie_context env) k))"
  using rel_sload by (auto simp: preserves_def on_snds prod_eq_iff)
lemma p_sstat: "preserves R (on_store (sstat (h_sha3 (ie_host env)) (ie_gst env) (ie_cap env) (h_height (ie_host env)) (ie_context env) k))"
  using rel_sstat by (auto simp: preserves_def on_snds prod_eq_iff)
lemma p_sget: "preserves R (on_store (\<lambda>s. (f s, s)))"
  by (simp add: preserves_def on_snds R_refl)

lemma p_native: "preserves R (on_native f)"
proof -
  have "R s (s\<lparr>it_cells := c, it_world := (it_world s)\<lparr>w_other := w\<rparr>\<rparr>)" for s c w
    using R_trans [OF rel_cells [of s c] rel_other] by simp
  then show ?thesis by (auto simp: preserves_def on_native_def split_def Let_def)
qed

lemma p_option: "preserves R m \<Longrightarrow> (\<And>v. preserves R (f v)) \<Longrightarrow> preserves R (case w of None \<Rightarrow> m | Some v \<Rightarrow> f v)"
  by (cases w) auto

lemma p_list: "(\<And>x. r = Inr x \<Longrightarrow> preserves R (f x)) \<Longrightarrow> preserves R (bindW (liftW r) f)"
  by (cases r) (auto simp: preserves_def bindW_def R_refl)

lemmas p_rules = p_nsw p_list r_bind r_if r_ret r_fail r_get r_lift p_option p_look p_pop p_peek p_push p_poke p_gas_resource p_gas_storage
  p_rebate p_size p_setpc p_skip p_peekparam p_itrparam p_nsr p_cells

lemma p_top: "preserves R (on_top f)" unfolding on_top_def by (intro p_rules)

lemma p_buf: "preserves R (itrparambufex codes l)" unfolding itrparambufex_def by (intro p_rules)

lemma p_push_buf: "preserves R (push_buf_gas e v)"
proof -
  have "preserves R (case w of VBytes b \<Rightarrow> gas_resource (g b) | _ \<Rightarrow> retW ())" for w :: rval and g
    by (cases w) (simp_all only: val.case p_gas_resource r_ret)
  then show ?thesis unfolding push_buf_gas_def by (intro p_rules)
qed

lemma p_inst_push: "preserves R (inst_push e b)"
  unfolding inst_push_def by (intro p_rules p_buf p_push_buf)

lemma p_inst_cast: "preserves R (inst_cast e b)"
  unfolding inst_cast_def by (intro p_rules p_top)

lemma p_choose: "preserves R (inst_choose g)"
  unfolding preserves_def
proof
  fix s :: "'w itr"
  let ?d = "sk_datas (it_ops s)"
  let ?t = "s\<lparr>it_step := (it_step s)\<lparr>gb_resource := gb_resource (it_step s) + stack_move_items g 2\<rparr>\<rparr>"
  have "stack_step (it_ops ?t) ((it_ops ?t)\<lparr>sk_datas := take (length ?d - 2) (?d[length ?d - 3 := x])\<rparr>)" for x
    by (auto simp: stack_step_def)
  then have "R s (?t\<lparr>it_ops := (it_ops ?t)\<lparr>sk_datas := take (length ?d - 2) (?d[length ?d - 3 := x])\<rparr>\<rparr>)" for x
    using R_trans [OF rel_resource] rel_ops by blast
  then show "R s (snd (inst_choose g s))"
    by (auto simp: inst_choose_def bindW_def Let_def on_ops_def gas_resource_def R_refl split: sum.split)
qed

lemma p_inst_stack: "preserves R (inst_stack e b)"
  unfolding inst_stack_def Let_def
  by (intro p_rules p_choose p_ops stack_ops stack_popn stack_dupn stack_roll)

lemma p_tail: "preserves R (tail_val_size n)" "preserves R (tail_val_size_sum n)"
  unfolding tail_val_size_def tail_val_size_sum_def by (rule p_look)+

lemma p_peek_op: "preserves R (peek_op_gas e f)"
  unfolding peek_op_gas_def by (intro p_rules p_top)

lemma p_inst_buffer: "preserves R (inst_buffer e b)"
  unfolding inst_buffer_def Let_def by (intro p_rules p_top p_tail p_peek_op p_ops stack_cat stack_join)

lemma p_top_compo: "preserves R top_compo" unfolding top_compo_def by (intro p_rules)

lemma p_edit_gas: "preserves R (compo_edit_gas g)" "preserves R (compo_read_gas g)" "preserves R (gas_compo_bytes g n)"
  unfolding compo_edit_gas_def compo_read_gas_def gas_compo_bytes_def by (intro p_rules p_top_compo)+

lemma p_take_items: "preserves R (take_items_from_ops q cap)"
  unfolding take_items_from_ops_def by (intro p_rules p_ops stack_ops)

lemma p_packs: "preserves R (pack_list cap)" "preserves R (pack_map cap)" "preserves R (tuple_pack cap)"
  unfolding pack_list_def pack_map_def tuple_pack_def by (intro p_rules p_take_items p_ops stack_ops)+

lemma p_unpack: "preserves R (unpack_seq g cap i vs acc)"
proof (induction vs arbitrary: i acc)
  case (Cons v vs)
  show ?case unfolding unpack_seq.simps by (intro p_rules p_locals stack_ops Cons)
qed (unfold unpack_seq.simps, rule r_ret)

lemma p_pop_one: "preserves R (compo_pop_one e q)"
  unfolding compo_pop_one_def by (intro p_rules)

lemma p_map_err: "preserves R m \<Longrightarrow> preserves R (\<lambda>s. case m s of (Inl e, s') \<Rightarrow> (Inl (h e), s') | x \<Rightarrow> x)"
  by (auto simp: preserves_def split: prod.split sum.split) (metis snd_conv)+

lemma p_prod: "(\<And>a b. preserves R (f a b)) \<Longrightarrow> preserves R (case p of (a, b) \<Rightarrow> f a b)"
  by (cases p) simp

lemma p_inst_make: "preserves R (inst_make e b)"
  unfolding inst_make_def Let_def
  by (intro p_rules p_prod p_packs p_unpack p_edit_gas p_top_compo p_map_err)

lemma p_cell: "(\<And>l. preserves R (f l)) \<Longrightarrow> (\<And>l. preserves R (g l)) \<Longrightarrow> (\<And>m. preserves R (h m)) \<Longrightarrow>
   preserves R (case c of CTuple l \<Rightarrow> f l | CList l \<Rightarrow> g l | CMap m \<Rightarrow> h m)"
  by (cases c) auto

lemma p_inst_change: "preserves R (inst_change e b)"
  unfolding inst_change_def Let_def
  by (intro p_rules p_cell p_edit_gas p_top_compo p_pop_one)

lemma p_inst_view: "preserves R (inst_view e b)"
  unfolding inst_view_def Let_def split_def
  by (intro p_rules p_top p_edit_gas p_top_compo)

lemma p_nary: "preserves R (binop_with f)" "preserves R (triop_with g)" "preserves R (quadop_with h)"
  unfolding binop_with_def triop_with_def quadop_with_def by (intro p_rules p_top)+

lemma p_compare_gas: "preserves R (compare_gas g)"
proof -
  have "preserves R (case t of (Some a, Some b, c) \<Rightarrow> gas_resource (f a b c) | _ \<Rightarrow> retW ())" for t :: "rval option \<times> rval option \<times> cells" and f
    by (auto split: option.splits prod.splits simp del: vst_simps intro: p_gas_resource r_ret)
  then show ?thesis unfolding compare_gas_def by (intro r_bind r_get)
qed

lemma p_inst_logic: "preserves R (inst_logic e b)"
  unfolding inst_logic_def by (intro p_rules p_top p_nary p_compare_gas)

lemma p_inst_arith: "preserves R (inst_arith env b)"
  unfolding inst_arith_def fin_spec_param_def by (intro p_rules p_top p_nary p_gas_compute)

lemma p_local_ops: "preserves R (local_operand m v)" "preserves R (local_logic m)" "preserves R (local_get e i)"
  unfolding local_operand_def local_logic_def local_get_def Let_def split_def by (intro p_rules p_locals stack_ops)+

lemma p_inst_local: "preserves R (inst_local e b)"
  unfolding inst_local_def Let_def split_def by (intro p_rules p_locals stack_ops p_local_ops)

lemma p_inst_log: "preserves R (inst_log env b)"
  unfolding inst_log_def Let_def by (intro p_rules p_ops stack_popn p_log p_logs)

lemma p_hwrite: "preserves R (hwrite e i)" "preserves R (hread_push e v)"
  unfolding hwrite_def hread_push_def by (intro p_rules p_heap heap_write_step)+

lemma p_inst_heap: "preserves R (inst_heap e b)"
  unfolding inst_heap_def Let_def by (intro p_rules p_hwrite p_heap heap_grow_step)

lemma p_inst_storage: "preserves R (inst_storage env b)"
  unfolding inst_storage_def Let_def split_def by (intro p_rules p_sload p_sstat p_sget p_store)

lemma p_kvget: "preserves R (kvget e f)" "preserves R (kv_new_gas q c)"
  unfolding kvget_def kv_new_gas_def by (intro p_rules)+

lemma p_inst_memory: "preserves R (inst_memory env b)"
  unfolding inst_memory_def inst_gput_def inst_mput_def Let_def
  by (intro p_rules p_kvget p_global p_memory kv_put_step kv_remove_step cm_remove_step cm_entry_mut_step)

lemma p_action:
  assumes "b \<in> {ACTION, ACTENV, ACTVIEW}" "ensure_act_allowed (ie_exec env) b (word_of_nat n) = Inr u"
  shows "preserves R (on_world (action_call (ie_host env) (256 * unat b + n) body))"
  using rel_action [OF assms] by (auto simp: preserves_def on_snds prod_eq_iff)

lemma p_inst_action: "b \<in> {ACTION, ACTENV, ACTVIEW} \<Longrightarrow> preserves R (inst_action env b)"
  unfolding inst_action_def Let_def split_def by (intro p_rules p_action)

lemma p_finish: "preserves R (finish_ntcall e p)"
  unfolding finish_ntcall_def by (intro p_rules)

lemma p_inst_native: "preserves R (inst_native e b)"
  unfolding inst_native_def Let_def by (intro p_rules p_native p_finish)

lemma p_then: "preserves R m \<Longrightarrow> preserves R (then_go m)"
  unfolding then_go_def go_on_def by (intro r_bind r_ret)

lemma p_jumps: "preserves R (jump codes l)" "preserves R (ostjump codes l)" "preserves R (branch codes l)" "preserves R (ostbranchex codes l q)"
  unfolding jump_def ostjump_def branch_def ostbranchex_def Let_def by (intro p_rules)+

lemma p_inst_flow: "preserves R (inst_flow e b)"
  unfolding inst_flow_def go_on_def leave_def Let_def by (intro p_rules p_then p_jumps)

lemma p_if: "(c \<Longrightarrow> preserves R m) \<Longrightarrow> (\<not> c \<Longrightarrow> preserves R n) \<Longrightarrow> preserves R (if c then m else n)" by simp

lemma exec_inst_keeps: "preserves R (exec_inst env b)"
  unfolding exec_inst_def
  by (intro p_if p_then p_inst_action p_inst_native p_inst_push p_inst_cast p_inst_stack p_inst_buffer p_inst_make p_inst_change p_inst_view
      p_inst_local p_inst_log p_inst_heap p_inst_storage p_inst_memory p_inst_logic p_inst_arith p_inst_flow)

end

text \<open>A relation that also holds across the bookkeeping of the loop holds between the start and the end of a run.\<close>

locale loop_rel = inst_rel R env
  for R :: "'w itr \<Rightarrow> 'w itr \<Rightarrow> bool" and env +
  assumes rel_gas: "R s (s\<lparr>it_world := (it_world s)\<lparr>w_gas := g\<rparr>\<rparr>)"
    and rel_use: "R s (s\<lparr>it_use := u\<rparr>)"
    and rel_round: "R s (s\<lparr>it_pc := n, it_step := st, it_rebate := i\<rparr>)"
begin

lemma p_gas: "preserves R (on_world (host_gas_charge i))" "preserves R (on_world (host_gas_rebate i))"
proof -
  have "snd (host_gas_charge i w) = w\<lparr>w_gas := snd (gas_charge i (w_gas w))\<rparr>"
      "snd (host_gas_rebate i w) = w\<lparr>w_gas := snd (gas_rebate i (w_gas w))\<rparr>" for w :: "'w vm_world"
    by (simp_all add: host_gas_charge_def host_gas_rebate_def split: prod.split sum.split)
  then show "preserves R (on_world (host_gas_charge i))" "preserves R (on_world (host_gas_rebate i))"
    by (auto simp: preserves_def on_snds intro: rel_gas)
qed

lemma p_settle: "preserves R (settle_step env step)"
  unfolding settle_step_def by (intro p_rules p_prod p_gas r_mod rel_use)

lemma p_run_inst: "preserves R (\<lambda>s. case exec_inst env b s of (step, t) \<Rightarrow> settle_step env step t)"
  unfolding preserves_def
proof
  fix s :: "'w itr"
  obtain step s1 where e: "exec_inst env b s = (step, s1)" by fastforce
  then have "R s s1" using preservesD [OF exec_inst_keeps] by blast
  moreover have "R s1 (snd (settle_step env step s1))" using p_settle by (simp add: preserves_def)
  ultimately show "R s (snd (case exec_inst env b s of (step, t) \<Rightarrow> settle_step env step t))" using R_trans e by simp
qed

lemma exec_step_keeps: "preserves R (exec_step env)"
  unfolding exec_step_def by (intro r_bind r_get r_if r_fail r_mod rel_round p_run_inst)

lemma exec_loop_keeps: "exec_loop n env s = Some (r, t) \<Longrightarrow> R s t"
proof (induction n arbitrary: s)
  case (Suc n)
  obtain q u where e: "exec_step env s = (q, u)" by fastforce
  then have "R s u" using preservesD [OF exec_step_keeps] by blast
  then show ?case using Suc e R_trans by (auto split: sum.splits option.splits)
qed simp

end

end
