(* ===== verification/VmRent.thy ===== *)
theory VmRent
  imports VmStore
begin

text \<open>
  Contract storage, seen from outside. Settling an entry at two heights is settling it at the later one, so the entries
  can be settled whenever they are touched: \<open>kv_view\<close> is the store with all entries settled at a height, every operation
  works on the view alone (\<open>lazy_step\<close>), and two stores with the same view stay so. \<open>at_key\<close> and \<open>lazy_ok\<close> carry the
  proofs through the operations.
\<close>

section \<open>Settling\<close>

definition sto_ok :: "'x value_sto \<Rightarrow> bool" where
  "sto_ok v \<longleftrightarrow> vs_live v < 2 ^ 32 \<and> vs_recover v < 2 ^ 32"

definition burned :: "nat \<Rightarrow> nat \<Rightarrow> 'x value_sto \<Rightarrow> 'x value_sto" where
  "burned h u v = (if u = 0 then v\<lparr>vs_charge := h\<rparr> else if h \<le> vs_charge v then v
     else let b = (h - vs_charge v) * u in
       v\<lparr>vs_live := vs_live v - b, vs_recover := vs_recover v - (b - vs_live v), vs_charge := h\<rparr>)"

lemma settle_eq:
  assumes "sto_ok v"
  shows "settle h gst v = bindV (sto_unit gst v) (\<lambda>u. Inr (burned h u v))"
proof -
  have lt: "vs_live v - b < 4294967296" "vs_recover v - b < 4294967296" for b
    using assms by (auto simp: sto_ok_def less_imp_diff_less)
  have sat: "(min n (2 ^ 128 - 1) \<ge> k) = (n \<ge> k)" "k \<le> n \<Longrightarrow> (min n (2 ^ 128 - 1) - k \<ge> m) = (n - k \<ge> m)"
    if "k < 2 ^ 32" "m < 2 ^ 32" for n k m :: nat
    using that by auto
  show ?thesis
    unfolding settle_def
  proof (intro bindV_cong refl)
    fix u assume "sto_unit gst v = Inr u"
    show "(if u = 0 then Inr (v\<lparr>vs_charge := h\<rparr>) else if h \<le> vs_charge v then Inr v
       else let elapsed = h - vs_charge v; burn = min (elapsed * u) (2 ^ 128 - 1);
                (live, burn') = (if burn \<ge> vs_live v then (0, burn - vs_live v) else (vs_live v - burn, 0));
                recover' = (if burn' \<ge> vs_recover v then 0 else vs_recover v - burn')
            in bindV (credit_u32 live) (\<lambda>l. bindV (credit_u32 recover') (\<lambda>r.
                 Inr (v\<lparr>vs_live := l, vs_recover := r, vs_charge := h\<rparr>)))) = Inr (burned h u v)"
      using assms lt
      by (auto simp: burned_def Let_def credit_u32_def sto_ok_def min_def not_le not_less less_imp_diff_less)
  qed
qed

lemma burned_fields [simp]: "vs_data (burned h u v) = vs_data v"
  by (simp add: burned_def Let_def)

lemma burned_le: "vs_live (burned h u v) \<le> vs_live v" "vs_recover (burned h u v) \<le> vs_recover v"
  by (simp_all add: burned_def Let_def)

lemma burned_ok: "sto_ok v \<Longrightarrow> sto_ok (burned h u v)"
  using burned_le [of h u v] by (simp add: sto_ok_def)

lemma burned_compose:
  assumes "h \<le> h'"
  shows "burned h' u (burned h u v) = burned h' u v"
proof (cases "u = 0 \<or> h \<le> vs_charge v \<or> h' \<le> h")
  case False
  then have c: "u \<noteq> 0" "vs_charge v < h" "h < h'" by auto
  define a b where "a = (h - vs_charge v) * u" and "b = (h' - h) * u"
  have ab: "(h' - vs_charge v) * u = a + b"
    using c by (simp add: a_def b_def flip: add_mult_distrib)
  have "vs_recover v - (a - vs_live v) - (b - (vs_live v - a)) = vs_recover v - (a + b - vs_live v)" by arith
  then show ?thesis using c ab by (simp add: burned_def Let_def flip: a_def b_def)
qed (use assms in \<open>auto simp: burned_def Let_def\<close>)


section \<open>One operation\<close>

datatype 'x storage_op =
    SLoad "'x val" | SStat "'x val" | SNew "'x val" "'x val" "'x val" | SEdit "'x val" "'x val"
  | SRent "'x val" "'x val" | SRecv "'x val" "'x val" | SDel "'x val"

datatype 'x storage_out = OutValue "'x val" | OutStat "(nat \<times> nat) option" | OutGas int int

definition storage_step ::
    "(u8 list \<Rightarrow> u8 list) \<Rightarrow> gas_extra \<Rightarrow> space_cap \<Rightarrow> nat \<Rightarrow> address \<Rightarrow> 'x storage_op \<Rightarrow> ('x vm_state, 'x storage_out) vst" where
  "storage_step sha3 gst cap h a op =
     (case op of
        SLoad k \<Rightarrow> bindW (sload sha3 gst cap h a k) (\<lambda>v. retW (OutValue v))
      | SStat k \<Rightarrow> bindW (sstat sha3 gst cap h a k) (\<lambda>r. retW (OutStat r))
      | SNew k v p \<Rightarrow> bindW (snew sha3 gst cap h a k v p) (\<lambda>g. retW (OutGas g 0))
      | SEdit k v \<Rightarrow> bindW (sedit sha3 gst cap h a k v) (\<lambda>(f, r). retW (OutGas f r))
      | SRent k p \<Rightarrow> bindW (srent sha3 gst cap h a k p) (\<lambda>g. retW (OutGas g 0))
      | SRecv k p \<Rightarrow> bindW (srecv sha3 gst cap h a k p) (\<lambda>g. retW (OutGas g 0))
      | SDel k \<Rightarrow> bindW (sdel sha3 gst cap h a k) (\<lambda>r. retW (OutGas 0 r)))"

fun op_key :: "'x storage_op \<Rightarrow> 'x val" where
  "op_key (SLoad k) = k" | "op_key (SStat k) = k" | "op_key (SNew k _ _) = k" | "op_key (SEdit k _) = k"
| "op_key (SRent k _) = k" | "op_key (SRecv k _) = k" | "op_key (SDel k) = k"

definition entry_ok :: "'x value_sto \<Rightarrow> bool" where
  "entry_ok v \<longleftrightarrow> sto_ok v \<and> is_scalar_value (vs_data v) \<and> dup_size (vs_data v) < 65535"

definition store_ok :: "'x vm_state \<Rightarrow> bool" where
  "store_ok s \<longleftrightarrow> (\<forall>k v. st_kv s k = Some v \<longrightarrow> entry_ok v)"

definition size_unit :: "gas_extra \<Rightarrow> 'x val \<Rightarrow> nat" where
  "size_unit gst v = min (dup_size v + nat (max (ge_value_base_size gst) 0)) (2 ^ 64 - 1)"

lemma unit_for_ok: "is_scalar_value v \<Longrightarrow> dup_size v < 65535 \<Longrightarrow> unit_for gst v = Inr (size_unit gst v)"
  by (simp add: unit_for_def can_get_size_def size_unit_def)

lemma sto_unit_ok: "entry_ok v \<Longrightarrow> sto_unit gst v = Inr (size_unit gst (vs_data v))"
  by (simp add: sto_unit_def entry_ok_def unit_for_ok)

definition settled :: "gas_extra \<Rightarrow> nat \<Rightarrow> 'x value_sto \<Rightarrow> 'x value_sto" where
  "settled gst h v = burned h (size_unit gst (vs_data v)) v"

lemma settle_ok: "entry_ok v \<Longrightarrow> settle h gst v = Inr (settled gst h v)"
  by (simp add: settle_eq sto_unit_ok settled_def entry_ok_def)

lemma settled_ok: "entry_ok v \<Longrightarrow> entry_ok (settled gst h v)"
  by (simp add: entry_ok_def settled_def burned_ok)

lemma settled_compose: "h \<le> h' \<Longrightarrow> settled gst h' (settled gst h v) = settled gst h' v"
  by (simp add: settled_def burned_compose)

lemma settled_same [simp]: "settled gst h (settled gst h v) = settled gst h v"
  by (simp add: settled_compose)

lemma settled_data [simp]: "vs_data (settled gst h v) = vs_data v" by (simp add: settled_def)

text \<open>What an entry is worth at a height: nothing once both credits are burned.\<close>

definition live_entry :: "'x value_sto \<Rightarrow> 'x value_sto option" where
  "live_entry v = (if is_absent v then None else Some v)"

definition kv_view :: "gas_extra \<Rightarrow> nat \<Rightarrow> 'x vm_state \<Rightarrow> u8 list \<Rightarrow> 'x value_sto option" where
  "kv_view gst h s k = (case st_kv s k of None \<Rightarrow> None | Some v \<Rightarrow> live_entry (settled gst h v))"

lemma absent_later: "is_absent (settled gst h v) \<Longrightarrow> h \<le> h' \<Longrightarrow> is_absent (settled gst h' v)"
proof -
  assume a: "is_absent (settled gst h v)" and h: "h \<le> h'"
  have "is_absent (settled gst h' (settled gst h v))"
    using a burned_le [of h' "size_unit gst (vs_data v)" "settled gst h v"] by (simp add: is_absent_def settled_def)
  then show ?thesis using settled_compose [OF h, of gst v] by simp
qed

lemma view_later:
  assumes "h \<le> h'"
  shows "kv_view gst h' s k = (case kv_view gst h s k of None \<Rightarrow> None | Some w \<Rightarrow> live_entry (settled gst h' w))"
  by (auto simp: kv_view_def live_entry_def settled_compose [OF assms] dest: absent_later [OF _ assms] split: option.splits)

lemma view_ok: "store_ok s \<Longrightarrow> kv_view gst h s k = Some v \<Longrightarrow> entry_ok v \<and> settled gst h v = v \<and> \<not> is_absent v"
  by (auto simp: kv_view_def live_entry_def store_ok_def settled_ok split: option.splits if_splits)

section \<open>Operations on one key\<close>

abbreviation put_entry :: "u8 list \<Rightarrow> 'x value_sto option \<Rightarrow> 'x vm_state \<Rightarrow> 'x vm_state" where
  "put_entry sk e s \<equiv> s\<lparr>st_kv := (st_kv s)(sk := e)\<rparr>"

definition at_key :: "u8 list \<Rightarrow> ('x vm_state, 'a) vst \<Rightarrow> bool" where
  "at_key sk m \<longleftrightarrow> (\<exists>g. \<forall>s. m s = (fst (g (st_kv s sk)), put_entry sk (snd (g (st_kv s sk))) s))"

lemma at_keyI: "(\<And>s. m s = (fst (g (st_kv s sk)), put_entry sk (snd (g (st_kv s sk))) s)) \<Longrightarrow> at_key sk m"
  unfolding at_key_def by blast

lemma put_same [simp]: "put_entry sk (st_kv s sk) s = s" by simp

lemma at_key_bind:
  assumes "at_key sk m" "\<And>x. at_key sk (f x)"
  shows "at_key sk (bindW m f)"
proof -
  obtain g where g: "\<And>s. m s = (fst (g (st_kv s sk)), put_entry sk (snd (g (st_kv s sk))) s)"
    using assms(1) unfolding at_key_def by blast
  obtain k where k: "\<And>x s. f x s = (fst (k x (st_kv s sk)), put_entry sk (snd (k x (st_kv s sk))) s)"
    using assms(2) unfolding at_key_def by metis
  show ?thesis
    by (rule at_keyI [where g = "\<lambda>e. case fst (g e) of Inl er \<Rightarrow> (Inl er, snd (g e)) | Inr x \<Rightarrow> k x (snd (g e))"])
      (simp add: bindW_def g k split: sum.splits)
qed

lemma at_key_basic:
  "at_key sk (retW x)" "at_key sk (failW e)" "at_key sk (liftW r)" "at_key sk (getW (\<lambda>s. st_kv s sk))"
  by (rule at_keyI [where g = "\<lambda>e. (Inr x, e)"], simp, rule at_keyI [where g = "\<lambda>d. (Inl e, d)"], simp,
    rule at_keyI [where g = "\<lambda>e. (r, e)"], simp, rule at_keyI [where g = "\<lambda>e. (Inr e, e)"], simp)

lemma at_key_set: "at_key sk (kv_set sk v)" "at_key sk (kv_del sk)"
  by (rule at_keyI [where g = "\<lambda>e. (Inr (), Some v)"], simp add: kv_set_def,
    rule at_keyI [where g = "\<lambda>e. (Inr (), None)"], simp add: kv_del_def)

lemmas at_key_rules = at_key_basic at_key_set at_key_bind

lemma sfetch_eq:
  assumes "store_ok s"
  shows "sfetch h gst sk s = (Inr (kv_view gst h s sk), put_entry sk (kv_view gst h s sk) s)"
proof (cases "st_kv s sk")
  case None
  then show ?thesis by (simp add: sfetch_def bindW_def kv_view_def fun_upd_idem)
next
  case (Some v)
  then have "entry_ok v" using assms by (auto simp: store_ok_def)
  then show ?thesis using Some
    by (simp add: sfetch_def bindW_def settle_ok kv_view_def live_entry_def kv_set_def kv_del_def)
qed

text \<open>An operation that fetches its entry and goes on with it works on the settled entry alone.\<close>

lemma fetch_then:
  assumes "\<And>r. at_key sk (f r)"
  obtains g where "\<And>s. store_ok s \<Longrightarrow> bindW (sfetch h gst sk) f s =
    (fst (g (kv_view gst h s sk)), put_entry sk (snd (g (kv_view gst h s sk))) s)"
proof -
  obtain g where g: "\<And>r s. f r s = (fst (g r (st_kv s sk)), put_entry sk (snd (g r (st_kv s sk))) s)"
    using assms unfolding at_key_def by metis
  show ?thesis
    by (rule that [of "\<lambda>e. g e e"]) (simp add: bindW_def sfetch_eq g)
qed


lemma at_key_option: "at_key sk m \<Longrightarrow> (\<And>x. at_key sk (f x)) \<Longrightarrow> at_key sk (case r of None \<Rightarrow> m | Some x \<Rightarrow> f x)"
  by (cases r) auto

lemma at_key_Let: "at_key sk (f x) \<Longrightarrow> at_key sk (let y = x in f y)" by simp
lemma at_key_prod: "(\<And>a b. at_key sk (f a b)) \<Longrightarrow> at_key sk (case p of (a, b) \<Rightarrow> f a b)" by (cases p) auto
lemma at_key_if: "at_key sk m \<Longrightarrow> at_key sk n \<Longrightarrow> at_key sk (if b then m else n)" by simp

lemmas at_key_all = at_key_rules at_key_option at_key_prod at_key_Let at_key_if

section \<open>Deletion fetches, too\<close>

lemma sdel_fetch:
  assumes "store_ok s"
  shows "sdel sha3 gst cap h a k s = bindW (liftW (skey sha3 a k (cap_kv_key_size cap))) (\<lambda>sk. bindW (sfetch h gst sk) (\<lambda>r.
    case r of None \<Rightarrow> retW 0 | Some v \<Rightarrow> bindW (kv_del sk) (\<lambda>_.
      liftW (okV StorageError (i64_checked (refund_for_live_credit (vs_live v) (cap_storage_period cap) + ge_storage_key_cost gst)))))) s"
proof (cases "skey sha3 a k (cap_kv_key_size cap)")
  case (Inr sk)
  show ?thesis
  proof (cases "st_kv s sk")
    case None
    then show ?thesis using Inr assms by (simp add: sdel_def bindW_def sfetch_eq kv_view_def fun_upd_idem)
  next
    case (Some v)
    then have "entry_ok v" using assms by (auto simp: store_ok_def)
    then show ?thesis using Inr Some assms
      by (simp add: sdel_def bindW_def sfetch_eq kv_view_def live_entry_def settle_ok kv_del_def)
  qed
qed (simp add: sdel_def bindW_def)

section \<open>Stores that settle to the same\<close>

definition same_view :: "gas_extra \<Rightarrow> nat \<Rightarrow> 'x vm_state \<Rightarrow> 'x vm_state \<Rightarrow> bool" where
  "same_view gst h s t \<longleftrightarrow> (\<forall>k. kv_view gst h s k = kv_view gst h t k)"

lemma same_view_later:
  assumes "same_view gst h s t" "h \<le> h'"
  shows "same_view gst h' s t"
  unfolding same_view_def
proof
  fix k
  have "kv_view gst h s k = kv_view gst h t k" using assms(1) by (simp add: same_view_def)
  then show "kv_view gst h' s k = kv_view gst h' t k"
    unfolding view_later [OF assms(2), of gst s] view_later [OF assms(2), of gst t] by simp
qed

lemma same_view_put: "same_view gst h s t \<Longrightarrow> same_view gst h (put_entry sk e s) (put_entry sk e t)"
  by (simp add: same_view_def kv_view_def)

text \<open>An operation that cannot tell two such stores apart.\<close>

definition lazy_ok :: "gas_extra \<Rightarrow> nat \<Rightarrow> ('x vm_state, 'a) vst \<Rightarrow> bool" where
  "lazy_ok gst h m \<longleftrightarrow> (\<forall>s t. store_ok s \<longrightarrow> store_ok t \<longrightarrow> same_view gst h s t \<longrightarrow>
     fst (m s) = fst (m t) \<and> same_view gst h (snd (m s)) (snd (m t)))"

lemma lazy_lift: "(\<And>x. r = Inr x \<Longrightarrow> lazy_ok gst h (f x)) \<Longrightarrow> lazy_ok gst h (bindW (liftW r) f)"
  by (cases r) (auto simp: lazy_ok_def bindW_def)

lemma lazy_fetch:
  fixes f :: "'x value_sto option \<Rightarrow> ('x vm_state, 'a) vst"
  assumes "\<And>r. at_key sk (f r)"
  shows "lazy_ok gst h (bindW (sfetch h gst sk) f)"
proof (rule fetch_then [OF assms])
  fix g
  assume g: "\<And>s. store_ok s \<Longrightarrow> bindW (sfetch h gst sk) f s =
    (fst (g (kv_view gst h s sk)), put_entry sk (snd (g (kv_view gst h s sk))) s)"
  show "lazy_ok gst h (bindW (sfetch h gst sk) f)"
    unfolding lazy_ok_def
  proof (intro allI impI)
    fix s t :: "'x vm_state"
    assume a: "store_ok s" "store_ok t" "same_view gst h s t"
    then have k: "kv_view gst h s sk = kv_view gst h t sk" by (simp add: same_view_def)
    show "fst (bindW (sfetch h gst sk) f s) = fst (bindW (sfetch h gst sk) f t) \<and>
        same_view gst h (snd (bindW (sfetch h gst sk) f s)) (snd (bindW (sfetch h gst sk) f t))"
      unfolding g [OF a(1)] g [OF a(2)] k fst_conv snd_conv using same_view_put [OF a(3)] by blast
  qed
qed

lemma bindW_ret: "bindW m (\<lambda>x. retW (k x)) s = (case fst (m s) of Inl e \<Rightarrow> Inl e | Inr x \<Rightarrow> Inr (k x), snd (m s))"
  by (simp add: bindW_def split: prod.splits sum.splits)

lemma lazy_map: "lazy_ok gst h m \<Longrightarrow> lazy_ok gst h (bindW m (\<lambda>x. retW (k x)))"
  by (simp add: lazy_ok_def bindW_ret)

lemma lazy_cong: "(\<And>s. store_ok s \<Longrightarrow> m s = n s) \<Longrightarrow> lazy_ok gst h n \<Longrightarrow> lazy_ok gst h m"
  by (simp add: lazy_ok_def)

lemma lazy_operations:
  "lazy_ok gst h (sload sha3 gst cap h a k)" "lazy_ok gst h (sstat sha3 gst cap h a k)"
  "lazy_ok gst h (snew sha3 gst cap h a k v p)" "lazy_ok gst h (sedit sha3 gst cap h a k v)"
  "lazy_ok gst h (srent sha3 gst cap h a k p)" "lazy_ok gst h (srecv sha3 gst cap h a k p)"
  "lazy_ok gst h (sdel sha3 gst cap h a k)"
proof -
  show "lazy_ok gst h (sload sha3 gst cap h a k)" unfolding sload_def by (intro lazy_lift lazy_fetch at_key_all)
  show "lazy_ok gst h (sstat sha3 gst cap h a k)" unfolding sstat_def by (intro lazy_lift lazy_fetch at_key_all)
  show "lazy_ok gst h (snew sha3 gst cap h a k v p)" unfolding snew_def by (intro lazy_lift lazy_fetch at_key_all)
  show "lazy_ok gst h (sedit sha3 gst cap h a k v)" unfolding sedit_def by (intro lazy_lift lazy_fetch at_key_all)
  show "lazy_ok gst h (srent sha3 gst cap h a k p)" unfolding srent_def by (intro lazy_lift lazy_fetch at_key_all)
  show "lazy_ok gst h (srecv sha3 gst cap h a k p)" unfolding srecv_def by (intro lazy_lift lazy_fetch at_key_all)
  show "lazy_ok gst h (sdel sha3 gst cap h a k)"
    by (rule lazy_cong, erule sdel_fetch) (intro lazy_lift lazy_fetch at_key_all)
qed

lemma lazy_step: "lazy_ok gst h (storage_step sha3 gst cap h a op)"
  by (cases op) (simp_all add: storage_step_def lazy_map lazy_operations split_def)

section \<open>The store stays well formed\<close>

lemma store_ok_put: "store_ok s \<Longrightarrow> (\<And>v. e = Some v \<Longrightarrow> entry_ok v) \<Longrightarrow> store_ok (put_entry sk e s)"
  by (simp add: store_ok_def)

lemma store_ok_view: "store_ok s \<Longrightarrow> store_ok (put_entry sk (kv_view gst h s sk) s)"
  using view_ok store_ok_put by blast

lemma payload_scalar:
  assumes "check_non_nil_scalar c v = Inr u" "validate_scalar_payload_len v m ec = Inr u'"
  shows "is_scalar_value v \<and> dup_size v < 65535"
  using assms extract_bytes_len_scalar [of v ec]
  by (auto simp: check_non_nil_scalar_def check_scalar_as_def validate_scalar_payload_len_def bindV_eq_Inr
      scalar_field_len_fits_def split: if_splits)

text \<open>Creation and deletion, and the change of an entry.\<close>

lemma sfetch_cases:
  assumes "store_ok s" "bindW (sfetch h gst sk) f s = (r, t)"
  shows "f (kv_view gst h s sk) (put_entry sk (kv_view gst h s sk) s) = (r, t)"
  using assms by (simp add: bindW_def sfetch_eq)

end
