(* ===== verification/VmRentGas.thy ===== *)
theory VmRentGas
  imports VmRent
begin

text \<open>
  What storage costs. \<open>entry_worth\<close> is what deleting an entry would refund; \<open>pays\<close> says that an operation pays, as fee less
  rebate, for what it adds to the worth of its entry; a run of operations is summed over the store. The last sections
  state which keys an operation writes, and the properties.
\<close>

section \<open>What an entry is worth\<close>

text \<open>What deleting an entry would refund at most.\<close>

definition entry_worth :: "gas_extra \<Rightarrow> space_cap \<Rightarrow> 'x value_sto option \<Rightarrow> int" where
  "entry_worth gst cap e = (case e of None \<Rightarrow> 0
     | Some v \<Rightarrow> ge_storage_key_cost gst + int (if cap_storage_period cap = 0 then 0 else vs_live v div cap_storage_period cap))"

definition prices_ok :: "gas_extra \<Rightarrow> bool" where
  "prices_ok gst \<longleftrightarrow> 0 \<le> ge_storage_key_cost gst \<and> ge_storage_key_cost gst < 2 ^ 62 \<and> 0 \<le> ge_storage_edit_mul gst"

fun no_gas :: "'a vmrt \<Rightarrow> int \<times> int" where "no_gas _ = (0, 0)"
fun fee_only :: "int vmrt \<Rightarrow> int \<times> int" where "fee_only (Inr g) = (g, 0)" | "fee_only (Inl _) = (0, 0)"
fun rebate_only :: "int vmrt \<Rightarrow> int \<times> int" where "rebate_only (Inr g) = (0, g)" | "rebate_only (Inl _) = (0, 0)"
fun fee_rebate :: "(int \<times> int) vmrt \<Rightarrow> int \<times> int" where "fee_rebate (Inr g) = g" | "fee_rebate (Inl _) = (0, 0)"

lemma view_worth:
  assumes "prices_ok gst"
  shows "entry_worth gst cap (kv_view gst h s sk) \<le> entry_worth gst cap (st_kv s sk)"
proof (cases "st_kv s sk")
  case (Some v)
  have "vs_live (settled gst h v) div cap_storage_period cap \<le> vs_live v div cap_storage_period cap"
    using burned_le(1) [of h "size_unit gst (vs_data v)" v] by (simp add: settled_def div_le_mono)
  then show ?thesis using Some assms
    by (auto simp: kv_view_def live_entry_def entry_worth_def prices_ok_def)
qed (simp add: kv_view_def)

text \<open>An operation changes one entry, and pays for what the change is worth.\<close>

definition pays :: "gas_extra \<Rightarrow> space_cap \<Rightarrow> ('a vmrt \<Rightarrow> int \<times> int) \<Rightarrow> ('x vm_state, 'a) vst \<Rightarrow> bool" where
  "pays gst cap g m \<longleftrightarrow> (\<forall>s. store_ok s \<longrightarrow> (\<exists>sk e. snd (m s) = put_entry sk e s \<and> (\<forall>v. e = Some v \<longrightarrow> entry_ok v) \<and>
     entry_worth gst cap e + snd (g (fst (m s))) \<le> entry_worth gst cap (st_kv s sk) + fst (g (fst (m s)))))"

lemma pays_fail:
  assumes "\<And>e. g (Inl e) = (0, 0)" "store_ok s"
  shows "\<exists>sk e. s = put_entry sk e s \<and> (\<forall>v. e = Some v \<longrightarrow> entry_ok v) \<and>
     entry_worth gst cap e + snd (g (Inl er)) \<le> entry_worth gst cap (st_kv s sk) + fst (g (Inl er))"
  using assms by (intro exI [of _ "[]"] exI [of _ "st_kv s []"]) (auto simp: store_ok_def)

lemma pays_lift:
  assumes "\<And>e. g (Inl e) = (0, 0)" "\<And>x. r = Inr x \<Longrightarrow> pays gst cap g (f x)"
  shows "pays gst cap g (bindW (liftW r) f)"
proof (cases r)
  case (Inl e)
  then show ?thesis by (simp add: pays_def bindW_def pays_fail [of g, OF assms(1)])
next
  case (Inr x)
  then show ?thesis using assms(2) by (simp add: pays_def bindW_def)
qed

lemma pays_fetch:
  assumes p: "prices_ok gst"
    and f: "\<And>w s r t. (\<And>v. w = Some v \<Longrightarrow> entry_ok v) \<Longrightarrow> f w (put_entry sk w s) = (r, t) \<Longrightarrow>
      \<exists>e. t = put_entry sk e s \<and> (\<forall>v. e = Some v \<longrightarrow> entry_ok v) \<and>
        entry_worth gst cap e + snd (g r) \<le> entry_worth gst cap w + fst (g r)"
  shows "pays gst cap g (bindW (sfetch h gst sk) f)"
  unfolding pays_def
proof (intro allI impI)
  fix s :: "'a vm_state"
  assume s: "store_ok s"
  let ?w = "kv_view gst h s sk"
  obtain r t where rt: "f ?w (put_entry sk ?w s) = (r, t)" by fastforce
  then have b: "bindW (sfetch h gst sk) f s = (r, t)" using s by (simp add: bindW_def sfetch_eq)
  obtain e where "t = put_entry sk e s" "\<forall>v. e = Some v \<longrightarrow> entry_ok v"
      "entry_worth gst cap e + snd (g r) \<le> entry_worth gst cap ?w + fst (g r)"
    using f [OF _ rt] view_ok [OF s, of gst h sk] by blast
  then show "\<exists>sk' e. snd (bindW (sfetch h gst sk) f s) = put_entry sk' e s \<and> (\<forall>v. e = Some v \<longrightarrow> entry_ok v) \<and>
      entry_worth gst cap e + snd (g (fst (bindW (sfetch h gst sk) f s)))
      \<le> entry_worth gst cap (st_kv s sk') + fst (g (fst (bindW (sfetch h gst sk) f s)))"
    using b view_worth [OF p, of cap h s sk] by (intro exI [of _ sk] exI [of _ e]) simp
qed

lemma period_credit_ok: "period_credit u p sp = Inr c \<Longrightarrow> sp \<noteq> 0 \<and> c = u * (p * sp)"
  by (auto simp: period_credit_def bindV_eq_Inr split: if_splits)

lemma credit_u32_ok [simp]: "credit_u32 v = Inr l \<longleftrightarrow> l = v \<and> v < 4294967296"
  by (auto simp: credit_u32_def)

lemma rent_gas:
  assumes "u * (p * sp) < 4294967296" "sp \<noteq> 0"
  shows "u64_to_i64_sat u * int p = int (u * p)" "int (u * p) < 4294967296"
proof -
  have le: "u * p \<le> u * (p * sp)" using assms(2) by simp
  have "u \<le> 9223372036854775807" if "p \<noteq> 0"
  proof -
    have "u \<le> u * p" using that by simp
    then show ?thesis using le assms(1) by linarith
  qed
  then show "u64_to_i64_sat u * int p = int (u * p)" by (cases "p = 0") (auto simp: u64_to_i64_sat_def min_def)
  show "int (u * p) < 4294967296" using le assms(1) by linarith
qed

text \<open>What follows the fetch: the entry found is \<open>w\<close>.\<close>

definition found_ok :: "'x value_sto option \<Rightarrow> bool" where
  "found_ok w \<longleftrightarrow> (\<forall>v. w = Some v \<longrightarrow> entry_ok v)"

lemma found_ok_simps [simp]: "found_ok None" "found_ok (Some v) \<longleftrightarrow> entry_ok v"
  by (simp_all add: found_ok_def)

lemma fees_zero: "no_gas (Inl e) = (0, 0)" "fee_only (Inl e) = (0, 0)" "rebate_only (Inl e) = (0, 0)" "fee_rebate (Inl e) = (0, 0)"
  by simp_all

definition pays_at :: "gas_extra \<Rightarrow> space_cap \<Rightarrow> ('a vmrt \<Rightarrow> int \<times> int) \<Rightarrow> u8 list \<Rightarrow> 'x value_sto option \<Rightarrow>
    ('x vm_state, 'a) vst \<Rightarrow> bool" where
  "pays_at gst cap g sk w m \<longleftrightarrow> (\<forall>s r t. m (put_entry sk w s) = (r, t) \<longrightarrow> (\<exists>e. t = put_entry sk e s \<and>
     found_ok e \<and> entry_worth gst cap e + snd (g r) \<le> entry_worth gst cap w + fst (g r)))"

lemma pays_fetch_at:
  assumes "prices_ok gst" "\<And>w. found_ok w \<Longrightarrow> pays_at gst cap g sk w (f w)"
  shows "pays gst cap g (bindW (sfetch h gst sk) f)"
  by (rule pays_fetch [OF assms(1)]) (use assms(2) in \<open>unfold pays_at_def found_ok_def, blast\<close>)

lemma pays_at_fail:
  assumes "found_ok w" "g (Inl e) = (0, 0)"
  shows "pays_at gst cap g sk w (failW e)"
  unfolding pays_at_def using assms by auto

lemma pays_at_ret:
  assumes "found_ok w" "snd (g (Inr x)) \<le> fst (g (Inr x))"
  shows "pays_at gst cap g sk w (retW x)"
  unfolding pays_at_def using assms by auto

lemma pays_at_lift:
  assumes "found_ok w" "\<And>e. g (Inl e) = (0, 0)" "\<And>x. r = Inr x \<Longrightarrow> pays_at gst cap g sk w (f x)"
  shows "pays_at gst cap g sk w (bindW (liftW r) f)"
proof (cases r)
  case (Inl e)
  then show ?thesis using pays_at_fail [of w g e gst cap sk] assms(1,2) by (simp add: pays_at_def bindW_def)
next
  case (Inr x)
  then show ?thesis using assms(3) by (simp add: pays_at_def bindW_def)
qed

lemma pays_at_set:
  assumes "entry_ok v" "entry_worth gst cap (Some v) + snd (g (Inr x)) \<le> entry_worth gst cap w + fst (g (Inr x))"
  shows "pays_at gst cap g sk w (bindW (kv_set sk v) (\<lambda>_. retW x))"
  unfolding pays_at_def using assms by (auto simp: bindW_def kv_set_def)

lemma pays_at_if:
  "(b \<Longrightarrow> pays_at gst cap g sk w m) \<Longrightarrow> (\<not> b \<Longrightarrow> pays_at gst cap g sk w n) \<Longrightarrow> pays_at gst cap g sk w (if b then m else n)"
  by simp

lemma value_sto_new_ok:
  "value_sto_new h v l r = Inr w \<longleftrightarrow> w = \<lparr>vs_charge = h, vs_live = l, vs_recover = r, vs_data = v\<rparr> \<and> l < 4294967296 \<and> r < 4294967296"
  by (auto simp: value_sto_new_def bindV_eq_Inr)

lemma pays_sload: "prices_ok gst \<Longrightarrow> pays gst cap no_gas (sload sha3 gst cap h a k)"
  unfolding sload_def by (intro pays_lift pays_fetch) (auto split: option.splits if_splits)

lemma pays_sstat: "prices_ok gst \<Longrightarrow> pays gst cap no_gas (sstat sha3 gst cap h a k)"
  unfolding sstat_def
  by (intro pays_lift pays_fetch) (auto simp: bindW_def split: option.splits if_splits sum.splits)

lemma pays_snew:
  assumes p: "prices_ok gst"
  shows "pays gst cap fee_only (snew sha3 gst cap h a k v d)"
  unfolding snew_def
proof (intro pays_lift pays_fetch_at p pays_at_if pays_at_lift pays_at_fail fees_zero, goal_cases)
  case (5 u1 u2 period sk w u c vobj)
  have v: "is_scalar_value v \<and> dup_size v < 65535" using payload_scalar 5(1,2) by blast
  have c: "cap_storage_period cap \<noteq> 0" "c = u * (period * cap_storage_period cap)" "c < 4294967296"
    "vobj = \<lparr>vs_charge = h, vs_live = c, vs_recover = 0, vs_data = v\<rparr>"
    using period_credit_ok [OF 5(8)] 5(9) by (auto simp: value_sto_new_ok)
  note g = rent_gas [of u period "cap_storage_period cap"]
  have "entry_ok vobj" using v c by (simp add: entry_ok_def sto_ok_def)
  moreover have "c div cap_storage_period cap = u * period" using c by simp
  ultimately show ?case using c g p 5(6)
    by (intro pays_at_set) (auto simp: entry_worth_def i64_sat_def prices_ok_def simp del: of_nat_mult)
qed

lemma sto_unit_found: "entry_ok v \<Longrightarrow> sto_unit gst v = Inr u \<Longrightarrow> u = size_unit gst (vs_data v)"
  by (simp add: sto_unit_ok)

lemma pays_at_option:
  "(w = None \<Longrightarrow> pays_at gst cap g sk w m) \<Longrightarrow> (\<And>v. w = Some v \<Longrightarrow> pays_at gst cap g sk w (f v)) \<Longrightarrow>
   pays_at gst cap g sk w (case w of None \<Rightarrow> m | Some v \<Rightarrow> f v)"
  by (cases w) auto

lemmas pays_rules = pays_lift pays_fetch_at pays_at_if pays_at_lift pays_at_fail pays_at_option fees_zero

lemma i64_sat_pos: "0 \<le> x \<Longrightarrow> 0 \<le> i64_sat x" by (simp add: i64_sat_def)

lemma u64_to_i64_sat_range: "0 \<le> u64_to_i64_sat n" "u64_to_i64_sat n \<le> int n" by (simp_all add: u64_to_i64_sat_def)

lemma split_worth: "l \<le> (n::nat) \<Longrightarrow> l div p + (n - l) div p \<le> n div p"
  by (metis div_add1_eq le_add1 le_add_diff_inverse)

lemma pays_sedit:
  assumes p: "prices_ok gst"
  shows "pays gst cap fee_rebate (sedit sha3 gst cap h a k v)"
  unfolding sedit_def Let_def split_def
proof (intro pays_rules p, goal_cases)
  case (8 u1 u2 sk w old u live_cap recover_cap l rc)
  have v: "is_scalar_value v \<and> dup_size v < 65535" using payload_scalar 8(1,2) by blast
  let ?l = "min (vs_live old) live_cap" and ?sp = "cap_storage_period cap"
  have c: "l = ?l" "l < 4294967296" "rc < 4294967296" using 8 by (auto simp: clamp_credit_to_cap_def)
  have w: "int (?l div ?sp) + int ((vs_live old - ?l) div ?sp) \<le> int (vs_live old div ?sp)"
    using split_worth [of ?l "vs_live old" ?sp] by linarith
  have r: "refund_for_live_credit (vs_live old - ?l) ?sp \<le> int (if ?sp = 0 then 0 else (vs_live old - ?l) div ?sp)"
    by (simp only: refund_for_live_credit_def u64_to_i64_sat_range)
  have f: "0 \<le> i64_sat (u64_to_i64_sat u * ge_storage_edit_mul gst)"
    using p u64_to_i64_sat_range by (simp add: i64_sat_pos prices_ok_def)
  show ?case using v c w r f 8(5)
    by (intro pays_at_set) (auto simp: entry_worth_def entry_ok_def sto_ok_def clamp_credit_to_cap_def split: if_splits)
qed

lemma pays_srent:
  assumes p: "prices_ok gst"
  shows "pays gst cap fee_only (srent sha3 gst cap h a k d)"
  unfolding srent_def
proof (intro pays_rules p, goal_cases)
  case (10 period sk w v u c b cur nxt credit l)
  have c: "cap_storage_period cap \<noteq> 0" "c = u * (period * cap_storage_period cap)" "l = vs_live v + c" "l < 4294967296"
    using period_credit_ok 10 by (auto split: if_splits)
  note g = rent_gas [of u period "cap_storage_period cap"]
  have "(vs_live v + c) div cap_storage_period cap = vs_live v div cap_storage_period cap + u * period"
    using c div_mult_self1 [of "cap_storage_period cap" "vs_live v" "u * period"] by (simp add: mult.assoc)
  then show ?case using c g p 10(3,4)
    by (intro pays_at_set)
      (auto simp: entry_worth_def entry_ok_def sto_ok_def i64_sat_def prices_ok_def simp del: of_nat_mult)
qed

lemma pays_srecv:
  assumes p: "prices_ok gst"
  shows "pays gst cap fee_only (srecv sha3 gst cap h a k d)"
  unfolding srecv_def
proof (intro pays_rules p, goal_cases)
  case (10 period sk w v u c b cur nxt credit l)
  have l: "l < 4294967296" using 10 by (auto split: if_splits)
  have f: "0 \<le> i64_sat (u64_to_i64_sat u * int period) div 3"
    using i64_sat_pos u64_to_i64_sat_range by (simp add: pos_imp_zdiv_nonneg_iff)
  show ?case using l f 10(3,4)
    by (intro pays_at_set) (auto simp: entry_worth_def entry_ok_def sto_ok_def)
qed

lemma pays_cong: "(\<And>s. store_ok s \<Longrightarrow> m s = n s) \<Longrightarrow> pays gst cap g n \<Longrightarrow> pays gst cap g m"
  by (simp add: pays_def)

lemma pays_at_del:
  assumes "snd (g r) \<le> entry_worth gst cap w + fst (g r)"
  shows "pays_at gst cap g sk w (bindW (kv_del sk) (\<lambda>_. liftW r))"
  unfolding pays_at_def using assms by (auto simp: bindW_def kv_del_def entry_worth_def)

lemma pays_sdel:
  assumes p: "prices_ok gst"
  shows "pays gst cap rebate_only (sdel sha3 gst cap h a k)"
proof (rule pays_cong, erule sdel_fetch, intro pays_rules pays_at_ret p, goal_cases)
  case (3 sk w v)
  let ?r = "okV StorageError (i64_checked (refund_for_live_credit (vs_live v) (cap_storage_period cap) + ge_storage_key_cost gst))"
  have "refund_for_live_credit (vs_live v) (cap_storage_period cap)
      \<le> int (if cap_storage_period cap = 0 then 0 else vs_live v div cap_storage_period cap)"
    by (simp only: refund_for_live_credit_def u64_to_i64_sat_range)
  then have "snd (rebate_only ?r) \<le> entry_worth gst cap w + fst (rebate_only ?r)"
    using 3 p by (auto simp: entry_worth_def i64_checked_def prices_ok_def)
  then show ?case by (rule pays_at_del)
qed simp_all

text \<open>The gas of an operation, fee and rebate.\<close>

fun op_gas :: "'x storage_out vmrt \<Rightarrow> int \<times> int" where
  "op_gas (Inr (OutGas f r)) = (f, r)" | "op_gas _ = (0, 0)"

lemma pays_map:
  assumes "pays gst cap g m" "\<And>r. op_gas (case r of Inl e \<Rightarrow> Inl e | Inr x \<Rightarrow> Inr (k x)) = g r"
  shows "pays gst cap op_gas (bindW m (\<lambda>x. retW (k x)))"
  using assms by (simp add: pays_def bindW_ret)

lemma pays_step:
  assumes p: "prices_ok gst"
  shows "pays gst cap op_gas (storage_step sha3 gst cap h a op)"
proof (cases op)
  case (SLoad x1) then show ?thesis
    by (auto simp: storage_step_def intro!: pays_map [OF pays_sload [OF p]] split: sum.split)
next
  case (SStat x2) then show ?thesis
    by (auto simp: storage_step_def intro!: pays_map [OF pays_sstat [OF p]] split: sum.split)
next
  case (SNew x31 x32 x33) then show ?thesis
    by (auto simp: storage_step_def intro!: pays_map [OF pays_snew [OF p]] split: sum.split)
next
  case (SEdit x41 x42) then show ?thesis
    by (auto simp: storage_step_def split_def intro!: pays_map [OF pays_sedit [OF p]] split: sum.split)
next
  case (SRent x51 x52) then show ?thesis
    by (auto simp: storage_step_def intro!: pays_map [OF pays_srent [OF p]] split: sum.split)
next
  case (SRecv x61 x62) then show ?thesis
    by (auto simp: storage_step_def intro!: pays_map [OF pays_srecv [OF p]] split: sum.split)
next
  case (SDel x7) then show ?thesis
    by (auto simp: storage_step_def intro!: pays_map [OF pays_sdel [OF p]] split: sum.split)
qed

section \<open>Runs of operations\<close>

text \<open>The operations of a contract history: each at a height, of an address.\<close>

fun storage_run ::
    "(u8 list \<Rightarrow> u8 list) \<Rightarrow> gas_extra \<Rightarrow> space_cap \<Rightarrow> (nat \<times> address \<times> 'x storage_op) list \<Rightarrow> 'x vm_state \<Rightarrow> (int \<times> int) \<times> 'x vm_state" where
  "storage_run sha3 gst cap [] s = ((0, 0), s)"
| "storage_run sha3 gst cap ((h, a, op) # ops) s =
     (let (r, t) = storage_step sha3 gst cap h a op s; ((f, b), u) = storage_run sha3 gst cap ops t
       in ((fst (op_gas r) + f, snd (op_gas r) + b), u))"

definition store_worth :: "gas_extra \<Rightarrow> space_cap \<Rightarrow> 'x vm_state \<Rightarrow> int" where
  "store_worth gst cap s = (\<Sum>k\<in>dom (st_kv s). entry_worth gst cap (st_kv s k))"

lemma store_worth_put:
  assumes "finite (dom (st_kv s))"
  shows "store_worth gst cap (put_entry sk e s) = store_worth gst cap s - entry_worth gst cap (st_kv s sk) + entry_worth gst cap e"
proof -
  let ?D = "insert sk (dom (st_kv s))"
  have sup: "store_worth gst cap t = (\<Sum>k\<in>?D. entry_worth gst cap (st_kv t k))" if "dom (st_kv t) \<subseteq> ?D" for t :: "'a vm_state"
    unfolding store_worth_def using that assms by (intro sum.mono_neutral_left) (auto simp: entry_worth_def domIff)
  have D: "finite ?D" "sk \<in> ?D" using assms by auto
  have "(\<Sum>k\<in>?D - {sk}. entry_worth gst cap (st_kv (put_entry sk e s) k)) = (\<Sum>k\<in>?D - {sk}. entry_worth gst cap (st_kv s k))"
    by (intro sum.cong) auto
  moreover have "store_worth gst cap s = (\<Sum>k\<in>?D. entry_worth gst cap (st_kv s k))" by (rule sup) auto
  moreover have "store_worth gst cap (put_entry sk e s) = (\<Sum>k\<in>?D. entry_worth gst cap (st_kv (put_entry sk e s) k))"
    by (rule sup) (auto split: if_splits)
  ultimately show ?thesis
    using sum.remove [OF D, of "\<lambda>k. entry_worth gst cap (st_kv s k)"]
      sum.remove [OF D, of "\<lambda>k. entry_worth gst cap (st_kv (put_entry sk e s) k)"]
    by simp
qed

lemma storage_run_pays:
  fixes s :: "'x vm_state"
  assumes p: "prices_ok gst" and s: "store_ok s" "finite (dom (st_kv s))"
    and run: "storage_run sha3 gst cap ops s = ((f, b), t)"
  shows "store_ok t \<and> finite (dom (st_kv t)) \<and> store_worth gst cap t + b \<le> store_worth gst cap s + f"
  using s run
proof (induction ops arbitrary: s f b)
  case (Cons x ops)
  obtain h a op where x: "x = (h, a, op)" by (cases x)
  obtain r u where st: "storage_step sha3 gst cap h a op s = (r, u)" by fastforce
  obtain f' b' where run: "storage_run sha3 gst cap ops u = ((f', b'), t)"
    and fb: "f = fst (op_gas r) + f'" "b = snd (op_gas r) + b'"
    using Cons.prems(3) by (auto simp: x st split: prod.splits)
  obtain sk e where u: "u = put_entry sk e s" "\<forall>v. e = Some v \<longrightarrow> entry_ok v"
      "entry_worth gst cap e + snd (op_gas r) \<le> entry_worth gst cap (st_kv s sk) + fst (op_gas r)"
    using pays_step [OF p, of cap sha3 h a op] Cons.prems(1) st unfolding pays_def by fastforce
  have "store_ok u" "finite (dom (st_kv u))" using u Cons.prems(1,2) by (auto simp: store_ok_put)
  then have "store_ok t \<and> finite (dom (st_kv t)) \<and> store_worth gst cap t + b' \<le> store_worth gst cap u + f'"
    using Cons.IH run by blast
  then show ?case using store_worth_put [OF Cons.prems(2), of gst cap sk e] u(1,3) fb by simp
qed simp

lemma store_worth_nonneg: "prices_ok gst \<Longrightarrow> 0 \<le> store_worth gst cap s"
  unfolding store_worth_def by (intro sum_nonneg) (auto simp: entry_worth_def prices_ok_def)


section \<open>What an operation touches\<close>

definition only_at :: "u8 list set \<Rightarrow> 'x vm_state \<Rightarrow> 'x vm_state \<Rightarrow> bool" where
  "only_at K s t \<longleftrightarrow> st_status t = st_status s \<and> (\<forall>k. k \<notin> K \<longrightarrow> st_kv t k = st_kv s k)"

interpretation at_keys: step_order "only_at K"
  by unfold_locales (auto simp: only_at_def)

lemma only_at_lift:
  "(\<And>x. r = Inr x \<Longrightarrow> preserves (only_at K) (f x)) \<Longrightarrow> preserves (only_at K) (bindW (liftW r) f)"
  by (cases r) (auto simp: preserves_def bindW_def at_keys.R_refl)

lemma only_at_set: "sk \<in> K \<Longrightarrow> preserves (only_at K) (kv_set sk v)" "sk \<in> K \<Longrightarrow> preserves (only_at K) (kv_del sk)"
  unfolding kv_set_def kv_del_def by (intro at_keys.r_mod, auto simp: only_at_def)+

lemma only_at_option:
  "preserves R m \<Longrightarrow> (\<And>v. preserves R (f v)) \<Longrightarrow> preserves R (case w of None \<Rightarrow> m | Some v \<Rightarrow> f v)"
  by (cases w) auto

lemma only_at_fetch: "sk \<in> K \<Longrightarrow> preserves (only_at K) (sfetch h gst sk)"
  unfolding sfetch_def by (intro at_keys.r_rules only_at_option only_at_set)

lemmas only_at_rules = only_at_lift only_at_option at_keys.r_ret at_keys.r_fail at_keys.r_lift at_keys.r_if at_keys.r_then
  only_at_set at_keys.r_bind [OF only_at_fetch] at_keys.r_bind [OF only_at_set(1)] at_keys.r_bind [OF only_at_set(2)]
  at_keys.r_bind [OF at_keys.r_get]

definition op_keys :: "(u8 list \<Rightarrow> u8 list) \<Rightarrow> space_cap \<Rightarrow> address \<Rightarrow> 'x storage_op \<Rightarrow> u8 list set" where
  "op_keys sha3 cap a op = {sk. skey sha3 a (op_key op) (cap_kv_key_size cap) = Inr sk}"

lemma only_at_map: "preserves (only_at K) m \<Longrightarrow> preserves (only_at K) (bindW m (\<lambda>x. retW (f x)))"
  by (intro at_keys.r_bind at_keys.r_ret)

lemma only_at_ops:
  fixes k v p :: "'x val"
  assumes K: "\<And>sk. skey sha3 a k (cap_kv_key_size cap) = Inr sk \<Longrightarrow> sk \<in> K"
  shows "preserves (only_at K) (sload sha3 gst cap h a k)" "preserves (only_at K) (sstat sha3 gst cap h a k)"
    "preserves (only_at K) (snew sha3 gst cap h a k v p)" "preserves (only_at K) (sedit sha3 gst cap h a k v)"
    "preserves (only_at K) (srent sha3 gst cap h a k p)" "preserves (only_at K) (srecv sha3 gst cap h a k p)"
    "preserves (only_at K) (sdel sha3 gst cap h a k)"
  unfolding sload_def sstat_def snew_def sedit_def srent_def srecv_def sdel_def Let_def split_def
  by (intro only_at_rules K; assumption)+

lemma only_at_step: "preserves (only_at (op_keys sha3 cap a op)) (storage_step sha3 gst cap h a op)"
  by (cases op) (simp_all add: storage_step_def split_def op_keys_def only_at_map only_at_ops)


section \<open>Properties\<close>

text \<open>A read leaves the view as it found it.\<close>

lemma read_same_view:
  assumes "store_ok s" "rd \<in> {SLoad k, SStat k}" "storage_step sha3 gst cap h b rd s = (r, t)"
  shows "store_ok t \<and> same_view gst h t s"
proof -
  have pv: "same_view gst h (put_entry sk (kv_view gst h s sk) s) s" for sk
    using view_later [of h h gst s sk] assms(1)
    by (auto simp: same_view_def kv_view_def live_entry_def split: option.splits)
  have "t = s" if "skey sha3 b k (cap_kv_key_size cap) = Inl e" for e
    using assms(2,3) that by (auto simp: storage_step_def sload_def sstat_def bindW_def)
  moreover have "t = put_entry sk (kv_view gst h s sk) s" if "skey sha3 b k (cap_kv_key_size cap) = Inr sk" for sk
    using assms that
    by (cases "kv_view gst h s sk")
      (auto simp: storage_step_def sload_def sstat_def bindW_def sfetch_eq split: sum.splits if_splits)
  ultimately have "\<exists>sk. t = s \<or> t = put_entry sk (kv_view gst h s sk) s"
    by (cases "skey sha3 b k (cap_kv_key_size cap)") blast+
  then show ?thesis using pv store_ok_view [OF assms(1)] assms(1) by (auto simp: same_view_def)
qed

text \<open>C34: Reading a contract's storage, which settles the entry it reads and deletes it when its credits are burned, is invisible:
  after a load or a status query at an earlier height every later operation of any contract gives the same result, with the same
  gas and errors, as without it, and leaves stores that settle to the same entries at every later height.\<close>

theorem storage_reads_invisible:
  assumes "store_ok s" "rd \<in> {SLoad k, SStat k}" "h0 \<le> h" "h \<le> h'" "storage_step sha3 gst cap h0 b rd s = (r0, s')"
  shows "fst (storage_step sha3 gst cap h a op s') = fst (storage_step sha3 gst cap h a op s) \<and>
    same_view gst h' (snd (storage_step sha3 gst cap h a op s')) (snd (storage_step sha3 gst cap h a op s))"
proof -
  have v: "store_ok s'" "same_view gst h s' s"
    using read_same_view [OF assms(1,2,5)] same_view_later assms(3) by blast+
  show ?thesis using lazy_step [of gst h sha3 cap a op] v assms(1) same_view_later [OF _ assms(4)]
    unfolding lazy_ok_def by blast
qed

text \<open>C33: Over any history of storage operations on an empty store, of any contracts at any heights and with failures in between,
  the gas paid back for trimmed and deleted entries, with what the entries still alive would pay back, is at most the gas charged
  for creating, editing and renting them.\<close>

theorem storage_never_mints_gas:
  assumes "prices_ok gst" "storage_run sha3 gst cap ops \<lparr>st_kv = Map.empty, st_status = Map.empty\<rparr> = ((fees, rebates), t)"
  shows "rebates + store_worth gst cap t \<le> fees \<and> 0 \<le> store_worth gst cap t"
proof -
  have "store_worth gst cap t + rebates
      \<le> store_worth gst cap (\<lparr>st_kv = Map.empty, st_status = Map.empty\<rparr> :: 'a vm_state) + fees"
    using storage_run_pays [OF assms(1) _ _ assms(2)] by (simp add: store_ok_def)
  then show ?thesis using store_worth_nonneg [OF assms(1)] by (simp add: store_worth_def)
qed

text \<open>C35: An entry created for \<open>n\<close> periods is loaded with its value at exactly the \<open>n\<close> times \<open>storage_period\<close> blocks from
  its creation, and is nil from the block after.\<close>

theorem storage_rent_exact:
  assumes s: "store_ok s" and g: "0 < ge_value_base_size gst" and n: "parse_period p (cap_storage_live_max_periods cap) = Inr n"
    and new: "storage_step sha3 gst cap h a (SNew k v p) s = (Inr out, t)" and h: "h \<le> h'"
  shows "fst (storage_step sha3 gst cap h' a (SLoad k) t) =
    Inr (OutValue (if h' - h < n * cap_storage_period cap then v else VNil))"
proof -
  let ?sp = "cap_storage_period cap" and ?u = "size_unit gst v"
  obtain sk c u1 u2 where sk: "skey sha3 a k (cap_kv_key_size cap) = Inr sk"
    and v: "check_non_nil_scalar StorageNilNotAllowed v = Inr u1"
      "validate_scalar_payload_len v (cap_value_size cap) StorageValSizeErr = Inr u2"
    and c: "bindV (unit_for gst v) (\<lambda>u. period_credit u n ?sp) = Inr c" "c < 2 ^ 32"
    and t: "t = put_entry sk (Some \<lparr>vs_charge = h, vs_live = c, vs_recover = 0, vs_data = v\<rparr>) s"
    using new n s
    by (auto simp: storage_step_def snew_def bindW_eq_Inr sfetch_eq value_sto_new_ok kv_set_def split: if_splits)
  have v: "is_scalar_value v" "dup_size v < 65535" using payload_scalar [OF v] by auto
  then have c: "c = ?u * (n * ?sp)" "c < 2 ^ 32" using c by (auto simp: unit_for_ok dest: period_credit_ok)
  have u: "0 < ?u" using g by (simp add: size_unit_def)
  let ?e = "\<lparr>vs_charge = h, vs_live = c, vs_recover = 0, vs_data = v\<rparr>"
  have ok: "entry_ok ?e" using v c by (simp add: entry_ok_def sto_ok_def)
  then have okt: "store_ok t" unfolding t using s by (intro store_ok_put) simp_all
  have live: "vs_live (settled gst h' ?e) = c - (h' - h) * ?u" "vs_recover (settled gst h' ?e) = 0"
    using u h by (auto simp: settled_def burned_def Let_def)
  have "(0 < c - (h' - h) * ?u) = (h' - h < n * ?sp)" using c u by (simp add: mult.commute)
  then have "kv_view gst h' t sk = (if h' - h < n * ?sp then Some (settled gst h' ?e) else None)"
    using live by (auto simp: t kv_view_def live_entry_def is_absent_def)
  then show ?thesis using live u c
    by (auto simp: storage_step_def sload_def bindW_def sk sfetch_eq [OF okt] is_recoverable_def)
qed

lemma skey_eq:
  "skey sha3 a k m = Inr sk \<longleftrightarrow> (\<exists>v. check_version a = Inr v) \<and> (\<exists>kb. extract_key_bytes_ec StorageKeyInvalid k = Inr kb \<and>
     length kb \<le> m \<and> sk = (if length (a @ kb) > 32 then sha3 (a @ kb) else a @ kb))"
  by (cases "check_version a"; cases "extract_key_bytes_ec StorageKeyInvalid k") (auto simp: skey_def Let_def)

text \<open>C36: A storage operation writes its own key only: the entry of another key, or of any key in another contract, and the status of
  every contract stay as they were, whether the operation succeeds or fails. Keys of up to 11 bytes are stored after the address of
  their contract; longer ones are replaced by the hash of both, of 32 bytes. For two keys that are replaced, the two hashes have
  to differ; for one that is replaced and one of exactly 11 bytes, the hash has to differ from the 32 bytes of the other.\<close>

theorem storage_step_isolated:
  assumes "storage_step sha3 gst cap h a op s = (r, t)" "length a = 21" "length b = 21" "\<And>x. length (sha3 x) = 32"
    "extract_key_bytes_ec StorageKeyInvalid (op_key op) = Inr ka" "extract_key_bytes_ec StorageKeyInvalid k = Inr kb"
    "(a, ka) \<noteq> (b, kb)" "skey sha3 b k (cap_kv_key_size cap) = Inr sk"
    "11 < length ka \<Longrightarrow> 11 < length kb \<Longrightarrow> sha3 (a @ ka) \<noteq> sha3 (b @ kb)"
    "11 < length ka \<Longrightarrow> length kb = 11 \<Longrightarrow> sha3 (a @ ka) \<noteq> b @ kb"
    "length ka = 11 \<Longrightarrow> 11 < length kb \<Longrightarrow> a @ ka \<noteq> sha3 (b @ kb)"
  shows "st_kv t sk = st_kv s sk \<and> st_status t = st_status s"
proof -
  let ?stored = "\<lambda>a k. if length (a @ k) > 32 then sha3 (a @ k) else a @ k"
  have short: "sha3 x \<noteq> y" if "length y < 32" for x y using assms(4) [of x] that by auto
  have "?stored a ka \<noteq> ?stored b kb"
  proof (cases "11 < length ka"; cases "11 < length kb")
    assume "11 < length ka" "\<not> 11 < length kb"
    then show ?thesis using assms(2,3,10) short [of "b @ kb" "a @ ka"] by (cases "length kb = 11") auto
  next
    assume "\<not> 11 < length ka" "11 < length kb"
    then show ?thesis using assms(2,3,11) short [of "a @ ka" "b @ kb"] by (cases "length ka = 11") auto
  qed (use assms(2,3,7,9) in simp_all)
  then have "sk \<notin> op_keys sha3 cap a op"
    using assms(5,6,8) by (auto simp: op_keys_def skey_eq split: if_splits)
  then show ?thesis using preservesD [OF only_at_step assms(1)] by (simp add: only_at_def)
qed

definition demo_address :: address where "demo_address = 1 # replicate 20 0"

lemma demo_version: "check_version demo_address = Inr ()" "length demo_address = 21"
  by (simp_all add: check_version_def version_def demo_address_def CONTRACT_def)

lemma demo_key_bytes: "extract_key_bytes_ec StorageKeyInvalid (VBytes [9]) = Inr [9]"
  by (simp add: extract_key_bytes_ec_def is_nil_def is_uint_def ty_is_uint_def extract_bytes_ec_def)

lemma demo_value: "check_non_nil_scalar StorageNilNotAllowed (VU8 5 :: unit val) = Inr ()"
    "validate_scalar_payload_len (VU8 5 :: unit val) 1280 StorageValSizeErr = Inr ()"
    "parse_period (VU8 2 :: unit val) 30000 = Inr 2" 
  by (simp_all add: check_non_nil_scalar_def check_scalar_as_def validate_scalar_payload_len_def parse_period_def
      is_nil_def is_uint_def ty_is_uint_def scalar_field_len_fits_def extract_u128_def extract_uint_cast_def)

lemma demo_key: "skey (\<lambda>x. x) demo_address (VBytes [9]) 128 = Inr (demo_address @ [9])"
  by (simp add: skey_eq demo_version demo_key_bytes)

lemma demo_caps: "cap_kv_key_size space_cap_new = 128" "cap_storage_period space_cap_new = 100"
    "cap_storage_live_max_periods space_cap_new = 30000" "cap_value_size space_cap_new = 1280"
    "ge_storage_key_cost gas_extra_new = 1024" "ge_value_base_size gas_extra_new = 20"
  by (simp_all add: space_cap_new_def gas_extra_new_def)

lemma demo_prices: "prices_ok gas_extra_new" "0 < ge_value_base_size gas_extra_new"
  by (simp_all add: prices_ok_def gas_extra_new_def)

definition empty_state :: "'x vm_state" where "empty_state = \<lparr>st_kv = Map.empty, st_status = Map.empty\<rparr>"

definition demo_store :: "unit vm_state" where
  "demo_store = put_entry (demo_address @ [9]) (Some \<lparr>vs_charge = 100, vs_live = 4200, vs_recover = 0, vs_data = VU8 5\<rparr>) empty_state"

lemma demo_store_ok: "store_ok demo_store" "store_ok empty_state"
  by (simp_all add: demo_store_def empty_state_def store_ok_def entry_ok_def sto_ok_def)

lemma demo_views:
  "kv_view gst h empty_state sk = None" "put_entry sk None empty_state = empty_state"
  "put_entry (demo_address @ [9]) (Some \<lparr>vs_charge = 100, vs_live = 4200, vs_recover = 0, vs_data = VU8 5\<rparr>) empty_state = demo_store"
  "kv_view gas_extra_new 120 demo_store (demo_address @ [9]) =
    Some \<lparr>vs_charge = 120, vs_live = 3780, vs_recover = 0, vs_data = VU8 5\<rparr>"
  "put_entry (demo_address @ [9]) e demo_store = put_entry (demo_address @ [9]) e empty_state"
  by (simp_all add: demo_store_def empty_state_def kv_view_def live_entry_def is_absent_def settled_def burned_def
      size_unit_def demo_caps fun_upd_idem)

lemma demo_new:
  "storage_step (\<lambda>x. x) gas_extra_new space_cap_new 100 demo_address (SNew (VBytes [9]) (VU8 5) (VU8 2)) empty_state =
   (Inr (OutGas 1066 0), demo_store)"
  by (simp add: storage_step_def snew_def bindW_def demo_key demo_caps demo_value sfetch_eq demo_store_ok demo_views
     unit_for_def can_get_size_def period_credit_def value_sto_new_def credit_u32_def kv_set_def u64_to_i64_sat_def i64_sat_def)

lemma demo_del:
  "storage_step (\<lambda>x. x) gas_extra_new space_cap_new 120 demo_address (SDel (VBytes [9])) demo_store =
    (Inr (OutGas 0 1061), empty_state)"
  by (simp add: storage_step_def bindW_def demo_key demo_caps sdel_fetch demo_store_ok sfetch_eq demo_views
     kv_del_def refund_for_live_credit_def i64_checked_def i64_ok_def u64_to_i64_sat_def)

lemma storage_reads_invisible_witness:
  "fst (storage_step (\<lambda>x. x) gas_extra_new space_cap_new 120 demo_address (SDel (VBytes [9]))
      (snd (storage_step (\<lambda>x. x) gas_extra_new space_cap_new 110 demo_address (SLoad (VBytes [9])) demo_store))) =
   fst (storage_step (\<lambda>x. x) gas_extra_new space_cap_new 120 demo_address (SDel (VBytes [9])) demo_store)"
  by (rule conjunct1 [OF storage_reads_invisible [OF demo_store_ok(1) _ _ _ surjective_pairing, of _ "VBytes [9]" 110 120 120]]) simp_all

lemma storage_never_mints_gas_witness:
  "storage_run (\<lambda>x. x) gas_extra_new space_cap_new [(100, demo_address, SNew (VBytes [9]) (VU8 5) (VU8 2)),
     (120, demo_address, SDel (VBytes [9]))] (empty_state :: unit vm_state) = ((1066, 1061), empty_state) \<and>
   1061 + store_worth gas_extra_new space_cap_new (empty_state :: unit vm_state) \<le> 1066"
proof -
  have "storage_run (\<lambda>x. x) gas_extra_new space_cap_new [(100, demo_address, SNew (VBytes [9]) (VU8 5) (VU8 2)),
     (120, demo_address, SDel (VBytes [9]))] (empty_state :: unit vm_state) = ((1066, 1061), empty_state)"
    by (simp add: demo_new demo_del)
  then show ?thesis using storage_never_mints_gas [OF demo_prices(1), folded empty_state_def] by blast
qed

lemma storage_rent_exact_witness:
  "fst (storage_step (\<lambda>x. x) gas_extra_new space_cap_new 299 demo_address (SLoad (VBytes [9])) demo_store) = Inr (OutValue (VU8 5)) \<and>
   fst (storage_step (\<lambda>x. x) gas_extra_new space_cap_new 300 demo_address (SLoad (VBytes [9])) demo_store) = Inr (OutValue VNil)"
  using storage_rent_exact [OF demo_store_ok(2) demo_prices(2) _ demo_new, of 2 299]
    storage_rent_exact [OF demo_store_ok(2) demo_prices(2) _ demo_new, of 2 300] 
  by (simp add: demo_caps demo_value)

text \<open>Deleting a key that is replaced by a hash leaves a short key alone.\<close>

lemma storage_step_isolated_witness:
  "st_kv (snd (storage_step (\<lambda>x. replicate 32 7) gas_extra_new space_cap_new 120 demo_address (SDel (VBytes (replicate 12 9))) demo_store))
     (demo_address @ [9]) = Some \<lparr>vs_charge = 100, vs_live = 4200, vs_recover = 0, vs_data = VU8 5\<rparr>"
proof -
  have "extract_key_bytes_ec StorageKeyInvalid (VBytes (replicate 12 9) :: unit val) = Inr (replicate 12 9)"
    by (simp add: extract_key_bytes_ec_def is_nil_def is_uint_def ty_is_uint_def extract_bytes_ec_def)
  moreover have "skey (\<lambda>x. replicate 32 7) demo_address (VBytes [9] :: unit val) 128 = Inr (demo_address @ [9])"
    by (simp add: skey_eq demo_version demo_key_bytes)
  moreover have "replicate 12 9 \<noteq> [9 :: u8]" using length_replicate [of 12 "9 :: u8"] by fastforce
  moreover have "st_kv demo_store (demo_address @ [9]) = Some \<lparr>vs_charge = 100, vs_live = 4200, vs_recover = 0, vs_data = VU8 5\<rparr>"
    by (simp add: demo_store_def)
  ultimately show ?thesis
    using storage_step_isolated [where ?sha3.0 = "\<lambda>x. replicate 32 7" and gst = gas_extra_new and cap = space_cap_new
      and h = 120 and a = demo_address and op = "SDel (VBytes (replicate 12 9))" and s = demo_store and b = demo_address and
      ka = "replicate 12 9" and k = "VBytes [9] :: unit val" and kb = "[9]" and sk = "demo_address @ [9]", OF surjective_pairing]
    by (simp add: demo_version demo_key_bytes demo_caps)
qed

end
