(* ===== verification/VmRun.thy ===== *)
theory VmRun
  imports VmInstRel VmRentGas
begin

text \<open>
  Runs of a frame: they end, within the memory they were given, and a frame in view or pure mode leaves no trace.
\<close>

section \<open>Every run ends\<close>

definition spend_rel :: "'w itr_env \<Rightarrow> 'w itr \<Rightarrow> 'w itr \<Rightarrow> bool" where
  "spend_rel env s t \<longleftrightarrow> it_use t = it_use s \<and>
     ((\<forall>j. 0 \<le> rpow_extra (ie_gst env) j) \<longrightarrow> gb_compute (it_step s) \<le> gb_compute (it_step t))"

interpretation spend: inst_rel "spend_rel env" env for env
  by unfold_locales (auto simp: spend_rel_def)

lemma exec_step_spends:
  assumes "exec_step env s = (Inr q, t)" "\<forall>j. 0 \<le> rpow_extra (ie_gst env) j"
  shows "gb_compute (it_use s) + 1 \<le> gb_compute (it_use t)"
    "0 < ge_compute_limit (ie_gst env) \<Longrightarrow> gb_compute (it_use t) \<le> ge_compute_limit (ie_gst env)"
proof -
  let ?b = "ie_codes env ! it_pc s"
  let ?s = "s\<lparr>it_pc := it_pc s + 1, it_step := buckets_zero\<lparr>gb_compute := table_gas gas_table_new ?b\<rparr>, it_rebate := 0\<rparr>"
  obtain step u where i: "exec_inst env ?b ?s = (step, u)" by fastforce
  have "spend_rel env ?s u" using preservesD [OF spend.exec_inst_keeps i] .
  then have u: "it_use u = it_use s" "1 \<le> gb_compute (it_step u)"
    using assms(2) gas_table_pos [of ?b] by (auto simp: spend_rel_def table_gas_def)
  have "settle_step env step u = (Inr q, t)"
    using assms(1) i unfolding exec_step_def by (auto simp: bindW_eq_Inr split: if_splits)
  then obtain tot nx where c: "check_add_gas_use (it_use u) (it_step u) (ie_gst env) = Inr (tot, nx)" "it_use t = nx"
    unfolding settle_step_def by (auto simp: bindW_eq_Inr look_def on_world_def Let_def split_def)
  then show "gb_compute (it_use s) + 1 \<le> gb_compute (it_use t)"
      "0 < ge_compute_limit (ie_gst env) \<Longrightarrow> gb_compute (it_use t) \<le> ge_compute_limit (ie_gst env)"
    using check_add_gas_use_ok [OF c(1)] u by auto
qed

lemma exec_loop_fuel:
  assumes "0 < ge_compute_limit (ie_gst env)" "\<forall>j. 0 \<le> rpow_extra (ie_gst env) j"
    "nat (ge_compute_limit (ie_gst env) - gb_compute (it_use s)) < n"
  shows "\<exists>r t. exec_loop n env s = Some (r, t)"
  using assms(3)
proof (induction n arbitrary: s)
  case (Suc n)
  obtain q t where e: "exec_step env s = (q, t)" by fastforce
  show ?case
  proof (cases "q = Inr None")
    case True
    then have "gb_compute (it_use s) + 1 \<le> gb_compute (it_use t)" "gb_compute (it_use t) \<le> ge_compute_limit (ie_gst env)"
      using exec_step_spends [of env s None t] e assms(1,2) by auto
    then have "nat (ge_compute_limit (ie_gst env) - gb_compute (it_use t)) < n" using Suc.prems by linarith
    then show ?thesis using Suc.IH e True by simp
  next
    case False
    then show ?thesis using e by (auto split: sum.splits option.splits)
  qed
qed simp

lemma exec_loop_more: "exec_loop n env s = Some x \<Longrightarrow> n \<le> m \<Longrightarrow> exec_loop m env s = Some x"
proof (induction n arbitrary: s m)
  case (Suc n)
  then obtain k where m: "m = Suc k" "n \<le> k" by (cases m) auto
  show ?case using Suc.prems(1) Suc.IH m by (auto split: prod.splits sum.splits option.splits)
qed simp

lemma rpow_nonneg:
  assumes "0 \<le> ge_rpow_exp_bit_mul g" "0 \<le> ge_rpow_exp_base g"
  shows "0 \<le> rpow_extra g j"
proof -
  have "0 < j \<Longrightarrow> 0 \<le> j * ge_rpow_exp_bit_mul g" using assms(1) by simp
  then show ?thesis using assms(2) by (auto simp: rpow_extra_def i64_sat_def max_def min_def)
qed

text \<open>C37: Every run of a frame ends: whatever the code, and whatever the actions and native functions of the host do, the loop
  returns within one instruction more than the compute gas that is left, since an instruction costs at least one unit of it. More
  fuel gives the same run.\<close>

theorem exec_loop_ends:
  assumes "0 < ge_compute_limit (ie_gst env)" "0 \<le> ge_rpow_exp_bit_mul (ie_gst env)" "0 \<le> ge_rpow_exp_base (ie_gst env)"
  shows "\<exists>r t. \<forall>n. nat (ge_compute_limit (ie_gst env) - gb_compute (it_use s)) < n \<longrightarrow> exec_loop n env s = Some (r, t)"
proof -
  let ?n = "Suc (nat (ge_compute_limit (ie_gst env) - gb_compute (it_use s)))"
  obtain r t where "exec_loop ?n env s = Some (r, t)"
    using exec_loop_fuel [of env s ?n] assms rpow_nonneg by auto
  then have "exec_loop n env s = Some (r, t)" if "?n \<le> n" for n using exec_loop_more that by blast
  then show ?thesis by (metis Suc_leI)
qed

section \<open>Bounded memory\<close>

definition frame_ok :: "'w itr \<Rightarrow> bool" where
  "frame_ok s \<longleftrightarrow> length (sk_datas (it_ops s)) \<le> sk_limit (it_ops s) \<and> length (sk_datas (it_locals s)) \<le> sk_limit (it_locals s) \<and>
     256 dvd length (hp_datas (it_heap s)) \<and> length (hp_datas (it_heap s)) \<le> 256 * hp_limit (it_heap s) \<and>
     distinct (map fst (kv_datas (it_global s))) \<and> length (kv_datas (it_global s)) \<le> kv_limit (it_global s) \<and> cm_ok (it_memory s)"

definition bounded_rel :: "'w itr \<Rightarrow> 'w itr \<Rightarrow> bool" where
  "bounded_rel s t \<longleftrightarrow> sk_limit (it_ops t) = sk_limit (it_ops s) \<and> sk_limit (it_locals t) = sk_limit (it_locals s) \<and>
     hp_limit (it_heap t) = hp_limit (it_heap s) \<and> kv_limit (it_global t) = kv_limit (it_global s) \<and>
     cm_limit (it_memory t) = cm_limit (it_memory s) \<and> (frame_ok s \<longrightarrow> frame_ok t)"

interpretation bounded: loop_rel bounded_rel env for env
  by unfold_locales
    (auto simp: bounded_rel_def frame_ok_def stack_step_def heap_step_def kv_step_def cm_step_def)

text \<open>C38: The operand stack, the locals, the heap, the globals and the memory of every contract stay within the limits they were
  made with, over any run of a frame that starts within them, however it ends.\<close>

theorem exec_loop_bounded:
  assumes "frame_ok s" "exec_loop n env s = Some (r, t)"
  shows "length (sk_datas (it_ops t)) \<le> sk_limit (it_ops s) \<and> length (sk_datas (it_locals t)) \<le> sk_limit (it_locals s) \<and>
    length (hp_datas (it_heap t)) \<le> 256 * hp_limit (it_heap s) \<and> length (kv_datas (it_global t)) \<le> kv_limit (it_global s) \<and>
    (\<forall>(a, d) \<in> set (cm_datas (it_memory t)). length (kv_datas d) \<le> cm_limit (it_memory s)) \<and> frame_ok t"
  using bounded.exec_loop_keeps [OF assms(2)] assms(1) by (auto simp: bounded_rel_def frame_ok_def cm_ok_def)

section \<open>View and pure frames leave no trace\<close>

text \<open>The environment and view actions of the host read only.\<close>

definition views_quiet :: "'w vm_host \<Rightarrow> bool" where
  "views_quiet h \<longleftrightarrow> (\<forall>b \<in> {ACTENV, ACTVIEW}. \<forall>n body w.
     w_state (snd (h_action h (256 * unat b + n) body w)) = w_state w \<and> w_logs (snd (h_action h (256 * unat b + n) body w)) = w_logs w)"

definition quiet_rel :: "'w itr_env \<Rightarrow> 'w itr \<Rightarrow> 'w itr \<Rightarrow> bool" where
  "quiet_rel env s t \<longleftrightarrow> (ec_effect (ie_exec env) \<noteq> EffEdit \<and> views_quiet (ie_host env) \<longrightarrow>
     it_log t = it_log s \<and> it_global t = it_global s \<and> it_memory t = it_memory s \<and> w_logs (it_world t) = w_logs (it_world s) \<and>
     st_status (w_state (it_world t)) = st_status (w_state (it_world s)) \<and>
     (store_ok (w_state (it_world s)) \<longrightarrow> store_ok (w_state (it_world t)) \<and>
        same_view (ie_gst env) (h_height (ie_host env)) (w_state (it_world t)) (w_state (it_world s))))"

lemma sload_same_view:
  assumes "store_ok s" "sload sha3 gst cap h a k s = (r, t)"
  shows "store_ok t \<and> same_view gst h t s"
  using read_same_view [OF assms(1), of "SLoad k" k sha3 gst cap h a] assms(2)
  by (cases r) (auto simp: storage_step_def bindW_def)

lemma sstat_same_view:
  assumes "store_ok s" "sstat sha3 gst cap h a k s = (r, t)"
  shows "store_ok t \<and> same_view gst h t s"
  using read_same_view [OF assms(1), of "SStat k" k sha3 gst cap h a] assms(2)
  by (cases r) (auto simp: storage_step_def bindW_def)

lemma quiet_action:
  assumes "b \<in> {ACTION, ACTENV, ACTVIEW}" "ensure_act_allowed (ie_exec env) b i = Inr u"
    "action_call (ie_host env) (256 * unat b + n) body w = (y, w')" "ec_effect (ie_exec env) \<noteq> EffEdit" "views_quiet (ie_host env)"
  shows "w_state w' = w_state w \<and> w_logs w' = w_logs w"
proof -
  have "b \<in> {ACTENV, ACTVIEW}" using assms(1,2,4) by (auto simp: ensure_act_allowed_def bindV_def split: sum.splits if_splits)
  moreover have "w' = snd (h_action (ie_host env) (256 * unat b + n) body w)"
    using assms(3) by (auto simp: action_call_def split: prod.splits sum.splits)
  ultimately show ?thesis using assms(5) by (auto simp: views_quiet_def)
qed

lemma quiet_read:
  assumes "store_ok (w_state (it_world s)) \<Longrightarrow> store_ok x \<and> same_view (ie_gst env) (h_height (ie_host env)) x (w_state (it_world s))"
    "st_status x = st_status (w_state (it_world s))"
  shows "quiet_rel env s (s\<lparr>it_world := (it_world s)\<lparr>w_state := x\<rparr>\<rparr>)"
  using assms by (simp add: quiet_rel_def)

lemma reads_status:
  "sload sha3 gst cap h a k s = (r, x) \<Longrightarrow> st_status x = st_status s"
  "sstat sha3 gst cap h a k s = (q, x) \<Longrightarrow> st_status x = st_status s"
  using preservesD [OF only_at_ops(1) [of sha3 a k cap UNIV]] preservesD [OF only_at_ops(2) [of sha3 a k cap UNIV]]
  by (auto simp: only_at_def)

interpretation quiet: loop_rel "quiet_rel env" env for env
proof unfold_locales
  show "quiet_rel env s u" if "quiet_rel env s t" "quiet_rel env t u" for s t u
    using that by (auto simp: quiet_rel_def same_view_def)
  show "quiet_rel env s (s\<lparr>it_world := (it_world s)\<lparr>w_state := x\<rparr>\<rparr>)"
    if "sload (h_sha3 (ie_host env)) (ie_gst env) (ie_cap env) (h_height (ie_host env)) (ie_context env) k (w_state (it_world s)) = (r, x)"
    for s k r x
    by (rule quiet_read [OF sload_same_view [OF _ that] reads_status(1) [OF that]])
  show "quiet_rel env s (s\<lparr>it_world := (it_world s)\<lparr>w_state := x\<rparr>\<rparr>)"
    if "sstat (h_sha3 (ie_host env)) (ie_gst env) (ie_cap env) (h_height (ie_host env)) (ie_context env) k (w_state (it_world s)) = (r, x)"
    for s k r x
    by (rule quiet_read [OF sstat_same_view [OF _ that] reads_status(2) [OF that]])
  show "quiet_rel env s (s\<lparr>it_world := w'\<rparr>)"
    if "b \<in> {ACTION, ACTENV, ACTVIEW}" "ensure_act_allowed (ie_exec env) b (word_of_nat n) = Inr u"
      "action_call (ie_host env) (256 * unat b + n) body (it_world s) = (y, w')" for b n s body u y w'
    using quiet_action [OF that] by (auto simp: quiet_rel_def same_view_def)
qed (auto simp: quiet_rel_def same_view_def)

text \<open>C39: A frame in view or pure mode leaves no trace, whatever its code: globals, memory, logs and the status of every contract
  are as they were, and storage settles to the same entries at every later height, provided the read-only actions of the host only
  read. Loads still settle the entries they touch.\<close>

theorem view_frame_quiet:
  assumes "ec_effect (ie_exec env) \<noteq> EffEdit" "views_quiet (ie_host env)" "exec_loop n env s = Some (r, t)"
    "store_ok (w_state (it_world s))" "h_height (ie_host env) \<le> h"
  shows "it_global t = it_global s \<and> it_memory t = it_memory s \<and> w_logs (it_world t) = w_logs (it_world s) \<and>
    st_status (w_state (it_world t)) = st_status (w_state (it_world s)) \<and>
    same_view (ie_gst env) h (w_state (it_world t)) (w_state (it_world s))"
  using quiet.exec_loop_keeps [OF assms(3)] assms(1,2,4,5) same_view_later by (auto simp: quiet_rel_def)

section \<open>A run\<close>

text \<open>A frame in view mode loads the entry of \<open>demo_store\<close> at a height where its rent is used up.\<close>

definition demo_codes :: "u8 list" where "demo_codes = [PBUF, 1, 9, SLOAD, RET]"

definition demo_env :: "unit itr_env" where
  "demo_env = \<lparr>ie_host = \<lparr>h_sha3 = (\<lambda>x. x), h_height = 300, h_action = (\<lambda>_ _ w. (Inl False, w)),
      h_ntctl = (\<lambda>_ _ _ _ s. (Inl NativeFuncError, s)), h_ntfunc = (\<lambda>_ _. Inl NativeFuncError),
      h_ntenv = (\<lambda>_ _ _ s. (Inl NativeEnvError, fst s))\<rparr>,
     ie_gst = gas_extra_new, ie_cap = space_cap_new, ie_exec = \<lparr>ec_entry = EntryMain, ec_effect = EffView, ec_depth = 1\<rparr>,
     ie_context = demo_address, ie_codes = demo_codes\<rparr>"

definition demo_stored :: "nat vm_state" where
  "demo_stored = put_entry (demo_address @ [9]) (Some \<lparr>vs_charge = 100, vs_live = 4200, vs_recover = 0, vs_data = VU8 5\<rparr>) empty_state"

definition demo_itr :: "unit itr" where
  "demo_itr = \<lparr>it_pc = 0, it_ops = \<lparr>sk_datas = [], sk_limit = 256\<rparr>, it_locals = \<lparr>sk_datas = [], sk_limit = 256\<rparr>,
     it_heap = \<lparr>hp_limit = 64, hp_datas = []\<rparr>, it_cells = cs_empty, it_step = buckets_zero, it_rebate = 0, it_use = buckets_zero,
     it_log = 0, it_global = \<lparr>kv_limit = 20, kv_key_max = 128, kv_datas = []\<rparr>,
     it_memory = \<lparr>cm_limit = 16, cm_key_max = 128, cm_datas = []\<rparr>,
     it_world = \<lparr>w_state = demo_stored, w_gas = gas_new\<lparr>gc_running := True, gc_remaining := 5000\<rparr>, w_logs = [], w_other = ()\<rparr>\<rparr>"


lemma demo_base_gas: "table_gas gas_table_new PBUF = 1" "table_gas gas_table_new SLOAD = 32" "table_gas gas_table_new RET = 1"
  by (simp_all add: table_gas_def gas_table_new_def gas_groups_def gas_table_set_def)

lemma demo_insts: "exec_inst e PBUF = then_go (inst_push e PBUF)" "exec_inst e SLOAD = then_go (inst_storage e SLOAD)" 
   "exec_inst e RET = leave ExReturn"
  by (simp_all add: exec_inst_def inst_flow_def binop_inst_def triop_inst_def)

lemmas demo_run = exec_step_def bindW_def settle_step_def demo_insts demo_base_gas inst_push_def then_go_def go_on_def leave_def
  itrparambufex_def itrparam_def peekparam_def look_def set_pc_def push_buf_gas_def gas_resource_def push_def on_ops_def stk_push_def
  check_add_gas_use_def buckets_zero_def on_world_def host_gas_charge_def host_gas_rebate_def buckets_checked_total_def buckets_checked_add_def
  check_limit_def gas_limits gas_charge_def gas_rebate_def i64_ok_def i64_checked_def okV_def bindV_def Let_def gas_new_def inst_storage_def nsr_def peek_def stk_peek_def poke_def stk_poke_def on_store_def
  be_nat_def

lemma demo_settled: "sload (\<lambda>x. x) gas_extra_new space_cap_new 300 demo_address (VBytes [9]) demo_stored = (Inr VNil, empty_state)"
proof -
  have "store_ok demo_stored" by (simp add: demo_stored_def empty_state_def store_ok_def entry_ok_def sto_ok_def)
  moreover have "kv_view gas_extra_new 300 demo_stored (demo_address @ [9]) = None"
    by (simp add: demo_stored_def empty_state_def kv_view_def live_entry_def is_absent_def settled_def burned_def
      size_unit_def demo_caps)
  moreover have "put_entry (demo_address @ [9]) None demo_stored = empty_state"
    by (simp add: demo_stored_def empty_state_def fun_upd_idem)
  ultimately show ?thesis by (simp add: sload_def bindW_def demo_caps demo_key sfetch_eq)
qed

lemma demo_valid: "valid space_cap_new (VBytes [9] :: rval) = Inr (VBytes [9])" "valid space_cap_new (VNil :: rval) = Inr VNil"
  "stack_copy gas_extra_new (Suc 0) = 1"
  by (simp_all add: valid_def can_get_size_def demo_caps stack_copy_def div_op_def gas_extra_new_def)

lemma demo_loop: "\<exists>t. exec_loop 3 demo_env demo_itr = Some (Inr ExReturn, t) \<and> st_kv (w_state (it_world t)) (demo_address @ [9]) = None
   \<and> sk_datas (it_ops t) = [VNil]"
  unfolding demo_itr_def demo_env_def demo_codes_def
  by (simp add: numeral_3_eq_3 demo_run demo_settled demo_valid) (simp add: empty_state_def)

lemma exec_loop_ends_witness:
  "\<exists>r t. \<forall>n. nat (18009 - gb_compute (it_use demo_itr)) < n \<longrightarrow> exec_loop n demo_env demo_itr = Some (r, t)"
proof -
  have g: "ge_compute_limit (ie_gst demo_env) = 18009" "ge_rpow_exp_bit_mul (ie_gst demo_env) = ge_rpow_exp_bit_mul gas_extra_new"
    "ge_rpow_exp_base (ie_gst demo_env) = ge_rpow_exp_base gas_extra_new" by (simp_all add: demo_env_def gas_limits)
  show ?thesis using exec_loop_ends [of demo_env demo_itr] unfolding g by (simp add: gas_extra_new_def)
qed

lemma demo_frame_ok: "frame_ok demo_itr"
  by (simp add: demo_itr_def frame_ok_def cm_ok_def)

lemma exec_loop_bounded_witness:
  "\<exists>t. exec_loop 3 demo_env demo_itr = Some (Inr ExReturn, t) \<and> length (sk_datas (it_ops t)) \<le> sk_limit (it_ops demo_itr) \<and> frame_ok t"
  using demo_loop exec_loop_bounded [OF demo_frame_ok] by blast

lemma view_frame_quiet_witness:
  "\<exists>t. exec_loop 3 demo_env demo_itr = Some (Inr ExReturn, t) \<and> same_view gas_extra_new 400 (w_state (it_world t)) demo_stored"
proof -
  obtain t where t: "exec_loop 3 demo_env demo_itr = Some (Inr ExReturn, t)" using demo_loop by blast
  have d: "ec_effect (ie_exec demo_env) \<noteq> EffEdit" "views_quiet (ie_host demo_env)" "h_height (ie_host demo_env) \<le> 400"
      "ie_gst demo_env = gas_extra_new" "w_state (it_world demo_itr) = demo_stored" "store_ok demo_stored"
    by (simp_all add: demo_env_def demo_itr_def views_quiet_def demo_stored_def empty_state_def store_ok_def entry_ok_def sto_ok_def)
  show ?thesis using t view_frame_quiet [OF d(1,2) t _ d(3)] d(4-6) by auto
qed

end
