(* ===== verification/VmLoad.thy ===== *)
theory VmLoad
  imports VmContract VmRun
begin

text \<open>
  The runtime that the frames of a call share, and how it loads the contract a call names (\<^verbatim>\<open>vm/src/machine/resource.rs\<close>,
  \<open>Runtime\<close>; \<^verbatim>\<open>vm/src/machine/loader.rs\<close>). A contract is loaded once into \<open>rt_contracts\<close>, for gas, and again when its edition in
  the state has changed. What the cache of the process holds is arbitrary, so its answer is a parameter of the environment.
\<close>

section \<open>State and environment\<close>

text \<open>The stored contracts and their editions are the part of the chain state that the loader reads; natives and actions of the
  host may write all of it.\<close>

record 'o chain_store =
  ch_contracts :: "address \<rightharpoonup> contract_sto"
  ch_editions :: "address \<rightharpoonup> contract_edition"
  ch_other :: 'o

definition contract_set_sync_edition :: "(u8 list \<Rightarrow> u8 list) \<Rightarrow> address \<Rightarrow> contract_sto \<Rightarrow> 'o chain_store \<Rightarrow> 'o chain_store" where
  "contract_set_sync_edition sha3 a c w =
     w\<lparr>ch_contracts := (ch_contracts w)(a \<mapsto> c), ch_editions := (ch_editions w)(a \<mapsto> calc_edition sha3 c)\<rparr>"

record 'o runtime =
  rt_cells :: cells
  rt_use :: gas_buckets
  rt_log :: nat
  rt_global :: "nat kvmap"
  rt_memory :: "nat ctcmap"
  rt_contracts :: "(address \<times> contract_cobj) list"
  rt_world :: "'o chain_store vm_world"

text \<open>\<open>me_check\<close> and \<open>me_exec\<close> are the compilers of IR, \<open>me_cached\<close> is the cache of the process.\<close>

record 'o vm_env =
  me_host :: "'o chain_store vm_host"
  me_gst :: gas_extra
  me_cap :: space_cap
  me_check :: "u8 list \<Rightarrow> u8 list vmrt"
  me_exec :: "u8 list \<Rightarrow> u8 list vmrt"
  me_cached :: "address \<Rightarrow> contract_edition \<Rightarrow> contract_cobj option"

definition runtime_create :: "space_cap \<Rightarrow> 'o chain_store vm_world \<Rightarrow> 'o runtime" where
  "runtime_create cap w = \<lparr>rt_cells = cs_empty, rt_use = buckets_zero, rt_log = 0,
     rt_global = \<lparr>kv_limit = cap_global cap, kv_key_max = cap_kv_key_size cap, kv_datas = []\<rparr>,
     rt_memory = \<lparr>cm_limit = cap_memory cap, cm_key_max = cap_kv_key_size cap, cm_datas = []\<rparr>, rt_contracts = [], rt_world = w\<rparr>"

definition runtime_reclaim :: "'o runtime \<Rightarrow> 'o runtime" where
  "runtime_reclaim r = r\<lparr>rt_use := buckets_zero, rt_log := 0, rt_global := (rt_global r)\<lparr>kv_datas := []\<rparr>,
     rt_memory := (rt_memory r)\<lparr>cm_datas := []\<rparr>, rt_contracts := []\<rparr>"

section \<open>Gas outside instructions\<close>

definition preview_bucket_add :: "int \<Rightarrow> int \<Rightarrow> int \<Rightarrow> int vmrt" where
  "preview_bucket_add cur add lim = (if add < 0 then Inl GasError
     else bindV (okV OutOfGas (i64_checked (cur + add))) (\<lambda>n. if lim > 0 \<and> n > lim then Inl OutOfGas else Inr n))"

definition on_rt_world :: "('o chain_store vm_world, 'a) vst \<Rightarrow> ('o runtime, 'a) vst" where
  "on_rt_world m = (\<lambda>s. let (r, t) = m (rt_world s) in (r, s\<lparr>rt_world := t\<rparr>))"

definition charge_and_commit_gas :: "gas_extra \<Rightarrow> int \<Rightarrow> int \<Rightarrow> int \<Rightarrow> ('o runtime, unit) vst" where
  "charge_and_commit_gas gst c r s = bindW (getW rt_use) (\<lambda>u.
     bindW (liftW (preview_bucket_add (gb_compute u) c (ge_compute_limit gst))) (\<lambda>nc.
     bindW (liftW (preview_bucket_add (gb_resource u) r (ge_resource_limit gst))) (\<lambda>nr.
     bindW (liftW (preview_bucket_add (gb_storage u) s (ge_storage_limit gst))) (\<lambda>ns.
     bindW (liftW (bindV (okV OutOfGas (i64_checked (c + r))) (\<lambda>t. okV OutOfGas (i64_checked (t + s))))) (\<lambda>total_gas.
     bindW (on_rt_world (host_gas_charge total_gas)) (\<lambda>_.
       modW (\<lambda>s. s\<lparr>rt_use := \<lparr>gb_compute = nc, gb_resource = nr, gb_storage = ns\<rparr>\<rparr>)))))))"

definition settle_resource_gas :: "gas_extra \<Rightarrow> int \<Rightarrow> ('o runtime, unit) vst" where
  "settle_resource_gas gst n = charge_and_commit_gas gst 0 n 0"

definition settle_compute_gas :: "gas_extra \<Rightarrow> int \<Rightarrow> ('o runtime, unit) vst" where
  "settle_compute_gas gst n = charge_and_commit_gas gst n 0 0"

definition settle_new_contract_load_gas :: "gas_extra \<Rightarrow> nat \<Rightarrow> ('o runtime, unit) vst" where
  "settle_new_contract_load_gas gst n = charge_and_commit_gas gst 0 (ge_new_contract_load gst + contract_bytes gst n) 0"

section \<open>Loading\<close>

definition contracts_insert :: "address \<Rightarrow> contract_cobj \<Rightarrow> ('o runtime, unit) vst" where
  "contracts_insert a c = modW (\<lambda>s. s\<lparr>rt_contracts := AList.update a c (rt_contracts s)\<rparr>)"

definition load_contract_from_state :: "(u8 list \<Rightarrow> u8 list) \<Rightarrow> contract_edition \<Rightarrow> contract_sto \<Rightarrow> contract_cobj vmrt" where
  "load_contract_from_state sha3 state_ed csto = bindV (into_obj sha3 csto) (\<lambda>cobj.
     if lc_edition cobj \<noteq> state_ed then Inl ContractError else Inr cobj)"

definition resolve_contract :: "'o vm_env \<Rightarrow> address \<Rightarrow> ('o runtime, contract_cobj) vst" where
  "resolve_contract env a = bindW (getW (\<lambda>s. ch_editions (w_other (rt_world s)) a)) (\<lambda>r. case r of
     None \<Rightarrow> failW NotFindContract
   | Some state_ed \<Rightarrow> bindW (getW (\<lambda>s. map_of (rt_contracts s) a)) (\<lambda>w.
       case (case w of Some c \<Rightarrow> if lc_edition c = state_ed then Some c else None | None \<Rightarrow> None) of
         Some c \<Rightarrow> retW c
       | None \<Rightarrow> bindW (modW (\<lambda>s. s\<lparr>rt_contracts := AList.delete a (rt_contracts s)\<rparr>)) (\<lambda>_.
           bindW (getW (\<lambda>s. length (rt_contracts s))) (\<lambda>n.
           if n \<ge> cap_loaded_contract (me_cap env) then failW OutOfLoadContract
           else case me_cached env a state_ed of
             Some obj \<Rightarrow> bindW (settle_new_contract_load_gas (me_gst env) (ed_raw_size state_ed)) (\<lambda>_.
               bindW (contracts_insert a obj) (\<lambda>_. retW obj))
           | None \<Rightarrow> bindW (getW (\<lambda>s. ch_contracts (w_other (rt_world s)) a)) (\<lambda>c. case c of None \<Rightarrow> failW NotFindContract
             | Some csto \<Rightarrow> bindW (liftW (load_contract_from_state (h_sha3 (me_host env)) state_ed csto)) (\<lambda>cobj.
                 bindW (settle_new_contract_load_gas (me_gst env) (ed_raw_size state_ed)) (\<lambda>_.
                 bindW (contracts_insert a cobj) (\<lambda>_. retW cobj))))))))"

type_synonym rfn = "fn_obj resolved_fn"

definition load_user_on_owner :: "'o vm_env \<Rightarrow> address \<Rightarrow> u8 list \<Rightarrow> ('o runtime, rfn option) vst" where
  "load_user_on_owner env owner sel = bindW (resolve_contract env owner) (\<lambda>csto.
     retW (case lc_userfns csto sel of None \<Rightarrow> None
       | Some f \<Rightarrow> Some \<lparr>rf_owner = owner, rf_fn = f, rf_libs = ct_library (lc_sto csto)\<rparr>))"

definition load_abst_on_owner :: "'o vm_env \<Rightarrow> address \<Rightarrow> u8 \<Rightarrow> ('o runtime, rfn option) vst" where
  "load_abst_on_owner env owner sel = bindW (resolve_contract env owner) (\<lambda>csto.
     retW (case lc_abstfns csto sel of None \<Rightarrow> None
       | Some f \<Rightarrow> Some \<lparr>rf_owner = owner, rf_fn = f, rf_libs = ct_library (lc_sto csto)\<rparr>))"

fun first_on :: "(address \<Rightarrow> ('o runtime, rfn option) vst) \<Rightarrow> address list \<Rightarrow> ('o runtime, rfn option) vst" where
  "first_on f [] = retW None"
| "first_on f (a # as) = bindW (f a) (\<lambda>hit. case hit of Some r \<Rightarrow> retW (Some r) | None \<Rightarrow> first_on f as)"

definition load_abstfn :: "'o vm_env \<Rightarrow> address \<Rightarrow> u8 \<Rightarrow> ('o runtime, rfn option) vst" where
  "load_abstfn env a sel = bindW (load_abst_on_owner env a sel) (\<lambda>hit. case hit of Some r \<Rightarrow> retW (Some r)
     | None \<Rightarrow> bindW (resolve_contract env a) (\<lambda>csto. first_on (\<lambda>p. load_abst_on_owner env p sel) (ct_inherit (lc_sto csto))))"

definition load_lookup_candidates :: "'o vm_env \<Rightarrow> address \<Rightarrow> call_spec \<Rightarrow> ('o runtime, address list) vst" where
  "load_lookup_candidates env anchor c =
     bindW (if needs_inherit_chain c then bindW (resolve_contract env anchor) (\<lambda>csto. retW (ct_inherit (lc_sto csto))) else retW [])
       (\<lambda>parents. retW (resolve_candidates c anchor parents))"

definition load_user_call :: "'o vm_env \<Rightarrow> call_spec \<Rightarrow> 'i bindings \<Rightarrow> ('o runtime, address \<times> rfn) vst" where
  "load_user_call env c b = bindW (liftW (resolve_anchor c b)) (\<lambda>anchor.
     bindW (load_lookup_candidates env anchor c) (\<lambda>entries.
     bindW (first_on (\<lambda>o'. load_user_on_owner env o' (call_selector c)) entries) (\<lambda>found.
       case found of None \<Rightarrow> failW (OtherCode 51) | Some hit \<Rightarrow> retW (anchor, hit))))"

definition load_call_plan :: "'o vm_env \<Rightarrow> call_spec \<Rightarrow> 'i bindings \<Rightarrow> ('o runtime, 'i bindings \<times> fn_obj user_fn) vst" where
  "load_call_plan env c b = bindW (load_user_call env c b) (\<lambda>(anchor, hit).
     if requires_external_visibility c \<and> \<not> check_conf (rf_fn hit) FN_CONF_EXTERNAL then failW (OtherCode 62)
     else retW (next_after_call b (switches_context c) anchor (rf_owner hit) (rf_libs hit), rf_fn hit))"

section \<open>Loading changes gas and the loaded contracts only\<close>

definition obj_view :: "contract_cobj \<Rightarrow> fn_obj contract_obj" where
  "obj_view c = \<lparr>co_inherit = ct_inherit (lc_sto c), co_library = ct_library (lc_sto c), co_userfns = lc_userfns c\<rparr>"

text \<open>The contract an address names in the state, without any cache.\<close>

definition stored_lookup :: "(u8 list \<Rightarrow> u8 list) \<Rightarrow> 'o chain_store \<Rightarrow> address \<Rightarrow> fn_obj contract_obj vmrt" where
  "stored_lookup sha3 w a = (case ch_editions w a of None \<Rightarrow> Inl NotFindContract
     | Some ed \<Rightarrow> (case ch_contracts w a of None \<Rightarrow> Inl NotFindContract
        | Some sto \<Rightarrow> bindV (load_contract_from_state sha3 ed sto) (\<lambda>c. Inr (obj_view c))))"

definition cache_ok :: "'o vm_env \<Rightarrow> 'o runtime \<Rightarrow> bool" where
  "cache_ok env s \<longleftrightarrow> (\<forall>a ed c. ch_editions (w_other (rt_world s)) a = Some ed \<longrightarrow>
     map_of (rt_contracts s) a = Some c \<and> lc_edition c = ed \<or> me_cached env a ed = Some c \<longrightarrow>
     (\<exists>sto. ch_contracts (w_other (rt_world s)) a = Some sto \<and> load_contract_from_state (h_sha3 (me_host env)) ed sto = Inr c))"

definition loads_ok :: "space_cap \<Rightarrow> 'o runtime \<Rightarrow> bool" where
  "loads_ok cap s \<longleftrightarrow> distinct (map fst (rt_contracts s)) \<and> length (rt_contracts s) \<le> cap_loaded_contract cap"

definition load_rel :: "'o vm_env \<Rightarrow> 'o runtime \<Rightarrow> 'o runtime \<Rightarrow> bool" where
  "load_rel env s t \<longleftrightarrow> rt_cells t = rt_cells s \<and> rt_log t = rt_log s \<and> rt_global t = rt_global s \<and> rt_memory t = rt_memory s \<and>
     w_state (rt_world t) = w_state (rt_world s) \<and> w_logs (rt_world t) = w_logs (rt_world s) \<and> w_other (rt_world t) = w_other (rt_world s) \<and>
     gb_compute (rt_use t) = gb_compute (rt_use s) \<and> (loads_ok (me_cap env) s \<longrightarrow> loads_ok (me_cap env) t)"

interpretation loading: step_order "load_rel env"
  by unfold_locales (auto simp: load_rel_def)

lemma host_gas_charge_frame:
  "w_state (snd (host_gas_charge n w)) = w_state w" "w_logs (snd (host_gas_charge n w)) = w_logs w"
  "w_other (snd (host_gas_charge n w)) = w_other w"
  by (simp_all add: host_gas_charge_def split: prod.split sum.split)

lemma preview_zero: "preview_bucket_add u 0 lim = Inr v \<Longrightarrow> v = u"
  by (auto simp: preview_bucket_add_def bindV_eq_Inr okV_def i64_checked_def split: option.splits if_splits)

lemma settle_load: "preserves (load_rel env) (charge_and_commit_gas gst 0 n 0)"
proof -
  have "load_rel env s t" if c: "charge_and_commit_gas gst 0 n 0 s = (r, t)" for s t :: "'a runtime" and r
  proof -
    obtain hr w' where h: "host_gas_charge n (rt_world s) = (hr, w')" by fastforce
    then have w': "w_state w' = w_state (rt_world s)" "w_logs w' = w_logs (rt_world s)" "w_other w' = w_other (rt_world s)"
      using host_gas_charge_frame [of n "rt_world s"] by simp_all
    have "t = s \<or> t = s\<lparr>rt_world := w'\<rparr> \<or> (\<exists>x y. t = s\<lparr>rt_world := w', rt_use := \<lparr>gb_compute = gb_compute (rt_use s), gb_resource = x, gb_storage = y\<rparr>\<rparr>)"
      using c h unfolding charge_and_commit_gas_def
      by (auto elim!: bindW_cases simp: on_rt_world_def Let_def bindV_eq_Inr okV_def i64_checked_def dest!: preview_zero split: option.splits if_splits) blast
    then show ?thesis using w' by (auto simp: load_rel_def loads_ok_def)
  qed
  then show ?thesis by (simp add: preserves_def prod_eq_iff)
qed

lemma preserves_option:
  "preserves R m \<Longrightarrow> (\<And>v. preserves R (f v)) \<Longrightarrow> preserves R (case w of None \<Rightarrow> m | Some v \<Rightarrow> f v)"
  by (cases w) auto

lemma contracts_insert_cases:
  assumes "bindW (settle_new_contract_load_gas gst n) (\<lambda>_. bindW (contracts_insert a obj) (\<lambda>_. retW obj)) s = (r, t)"
  obtains e where "r = Inl e" "load_rel env s t" "rt_contracts t = rt_contracts s"
  | u where "r = Inr obj" "load_rel env s u" "rt_contracts u = rt_contracts s" "t = u\<lparr>rt_contracts := AList.update a obj (rt_contracts u)\<rparr>"
proof -
  obtain q u where q: "settle_new_contract_load_gas gst n s = (q, u)" by fastforce
  have "load_rel env s u" using preservesD [OF settle_load] q by (simp add: settle_new_contract_load_gas_def)
  moreover have "rt_contracts u = rt_contracts s" using q unfolding settle_new_contract_load_gas_def charge_and_commit_gas_def
    by (auto elim!: bindW_cases simp: on_rt_world_def Let_def split_def)
  ultimately show thesis using assms q that by (cases q) (auto simp: bindW_def contracts_insert_def)
qed

definition warm_hit :: "contract_edition \<Rightarrow> contract_cobj option \<Rightarrow> contract_cobj option" where
  "warm_hit ed w = (case w of Some c \<Rightarrow> if lc_edition c = ed then Some c else None | None \<Rightarrow> None)"

lemma warm_hit_Some: "warm_hit ed w = Some c \<longleftrightarrow> w = Some c \<and> lc_edition c = ed"
  by (auto simp: warm_hit_def split: option.split)

lemma resolve_contract_eq:
  assumes "ch_editions (w_other (rt_world s)) a = Some ed"
  shows "resolve_contract env a s = (case warm_hit ed (map_of (rt_contracts s) a) of Some c \<Rightarrow> (Inr c, s)
     | None \<Rightarrow> let d = s\<lparr>rt_contracts := AList.delete a (rt_contracts s)\<rparr> in
       if length (rt_contracts d) \<ge> cap_loaded_contract (me_cap env) then (Inl OutOfLoadContract, d)
       else case me_cached env a ed of
             Some obj \<Rightarrow> bindW (settle_new_contract_load_gas (me_gst env) (ed_raw_size ed)) (\<lambda>_. bindW (contracts_insert a obj) (\<lambda>_. retW obj)) d
           | None \<Rightarrow> (case ch_contracts (w_other (rt_world s)) a of None \<Rightarrow> (Inl NotFindContract, d)
             | Some csto \<Rightarrow> (case load_contract_from_state (h_sha3 (me_host env)) ed csto of Inl e \<Rightarrow> (Inl e, d)
                | Inr cobj \<Rightarrow> bindW (settle_new_contract_load_gas (me_gst env) (ed_raw_size ed)) (\<lambda>_. bindW (contracts_insert a cobj) (\<lambda>_. retW cobj)) d)))"
  using assms unfolding resolve_contract_def warm_hit_def by (auto simp: bindW_apply Let_def split: option.splits sum.splits)

text \<open>What a resolution does: the entry is found, or the load fails, or the contract is charged for and entered.\<close>

lemma resolve_contract_cases:
  assumes "resolve_contract env a s = (r, t)"
  obtains c ed where "r = Inr c" "t = s" "ch_editions (w_other (rt_world s)) a = Some ed" "map_of (rt_contracts s) a = Some c" "lc_edition c = ed"
  | e where "r = Inl e" "load_rel env s t" "rt_contracts t = rt_contracts s \<or> rt_contracts t = AList.delete a (rt_contracts s)"
  | c u ed where "r = Inr c" "load_rel env s u" "rt_contracts u = AList.delete a (rt_contracts s)" "ch_editions (w_other (rt_world s)) a = Some ed"
      "length (rt_contracts u) < cap_loaded_contract (me_cap env)" "t = u\<lparr>rt_contracts := AList.update a c (rt_contracts u)\<rparr>"
      "me_cached env a ed = Some c \<or> (\<exists>sto. ch_contracts (w_other (rt_world s)) a = Some sto \<and>
         load_contract_from_state (h_sha3 (me_host env)) ed sto = Inr c)"
proof (cases "ch_editions (w_other (rt_world s)) a")
  case None
  then show thesis using assms that(2) loading.R_refl by (auto simp: resolve_contract_def bindW_def)
next
  note fail = that(2) and loads = that(3)
  case (Some ed)
  then have ed: "ch_editions (w_other (rt_world s)) a = Some ed" .
  let ?d = "s\<lparr>rt_contracts := AList.delete a (rt_contracts s)\<rparr>"
  have d: "load_rel env s ?d"
    using length_AList_delete [of a "rt_contracts s"] by (auto simp: load_rel_def loads_ok_def AList.distinct_delete)
  show thesis
  proof (cases "warm_hit ed (map_of (rt_contracts s) a)")
    case (Some c)
    then have "resolve_contract env a s = (Inr c, s)" by (simp add: resolve_contract_eq [OF ed])
    then show thesis using assms that(1) [of c ed] ed Some unfolding warm_hit_Some by simp
  next
    case None
    have loaded: thesis if c: "bindW (settle_new_contract_load_gas (me_gst env) (ed_raw_size ed)) (\<lambda>_. bindW (contracts_insert a c) (\<lambda>_. retW c)) ?d = (r, t)"
      "length (rt_contracts ?d) < cap_loaded_contract (me_cap env)"
      "me_cached env a ed = Some c \<or> (\<exists>sto. ch_contracts (w_other (rt_world s)) a = Some sto \<and>
         load_contract_from_state (h_sha3 (me_host env)) ed sto = Inr c)" for c
    proof (rule contracts_insert_cases [OF c(1)])
      fix e
      assume "r = Inl e" "load_rel env ?d t" "rt_contracts t = rt_contracts ?d"
      then show thesis using fail [of e] loading.R_trans [OF d \<open>load_rel env ?d t\<close>] by simp
    next
      fix u
      assume "r = Inr c" "load_rel env ?d u" "rt_contracts u = rt_contracts ?d" "t = u\<lparr>rt_contracts := AList.update a c (rt_contracts u)\<rparr>"
      then show thesis using loads [of c u ed] loading.R_trans [OF d \<open>load_rel env ?d u\<close>] c(2,3) ed by simp
    qed
    then show thesis using assms fail d None
      by (auto simp: resolve_contract_eq [OF ed] Let_def split: if_splits option.splits sum.splits) metis
  qed
qed

lemma resolve_contract_rel: "preserves (load_rel env) (resolve_contract env a)"
proof -
  have "load_rel env s t" if r: "resolve_contract env a s = (r, t)" for s t :: "'a runtime" and r
    using r
  proof (cases rule: resolve_contract_cases)
    case (3 c u ed)
    have "map_of (rt_contracts u) a = None" using 3(3) by (auto simp: map_of_eq_None_iff AList.delete_eq)
    then have "load_rel env u t" using 3(5,6)
      by (auto simp: load_rel_def loads_ok_def AList.distinct_update length_AList_update map_of_eq_None_iff)
    then show ?thesis using 3(2) loading.R_trans by blast
  qed (auto simp: loading.R_refl)
  then show ?thesis by (simp add: preserves_def prod_eq_iff)
qed

lemma first_on_rel: "(\<And>a. preserves (load_rel env) (f a)) \<Longrightarrow> preserves (load_rel env) (first_on f as)"
proof (induction as)
  case Nil
  show ?case unfolding first_on.simps by (rule loading.r_ret)
next
  case (Cons a as)
  then show ?case unfolding first_on.simps by (intro loading.r_bind preserves_option loading.r_ret) simp_all
qed

lemma load_rel_ops:
  "preserves (load_rel env) (load_user_on_owner env owner sel)" "preserves (load_rel env) (load_abst_on_owner env owner ac)"
  "preserves (load_rel env) (load_lookup_candidates env anchor c)"
  unfolding load_user_on_owner_def load_abst_on_owner_def load_lookup_candidates_def
  by (intro loading.r_bind loading.r_ret loading.r_if resolve_contract_rel)+

lemma load_plan_rel: "preserves (load_rel env) (load_call_plan env c b)"
  unfolding load_call_plan_def load_user_call_def split_def
  by (intro loading.r_bind loading.r_ret loading.r_if loading.r_fail loading.r_lift preserves_option first_on_rel load_rel_ops)

section \<open>Loading refines the resolution over the state\<close>

text \<open>The errors of a load that the resolution over the state does not have.\<close>

definition load_limits :: "itr_code set" where "load_limits = {OutOfLoadContract, OutOfGas, GasError}"

text \<open>\<open>reads env w m p\<close>: over the state \<open>w\<close>, what \<open>m\<close> returns is what \<open>p\<close> gives, and the caches stay true to \<open>w\<close>; \<open>m\<close> fails
  as \<open>p\<close> does, or at a limit.\<close>

definition reads :: "'o vm_env \<Rightarrow> 'o chain_store \<Rightarrow> ('o runtime, 'a) vst \<Rightarrow> 'a vmrt \<Rightarrow> bool" where
  "reads env w m p \<longleftrightarrow> (\<forall>s. cache_ok env s \<and> w_other (rt_world s) = w \<longrightarrow>
     (\<forall>r t. m s = (Inr r, t) \<longrightarrow> p = Inr r \<and> cache_ok env t \<and> w_other (rt_world t) = w) \<and>
     (\<forall>e t. m s = (Inl e, t) \<longrightarrow> p = Inl e \<or> e \<in> load_limits))"

lemma readsD:
  assumes "reads env w m p" "cache_ok env s" "w_other (rt_world s) = w"
  shows "m s = (Inr r, t) \<Longrightarrow> p = Inr r \<and> cache_ok env t \<and> w_other (rt_world t) = w"
    "m s = (Inl e, t) \<Longrightarrow> p = Inl e \<or> e \<in> load_limits"
  using assms unfolding reads_def by blast+

lemma readsI:
  assumes "\<And>s r t. cache_ok env s \<Longrightarrow> w_other (rt_world s) = w \<Longrightarrow> m s = (Inr r, t) \<Longrightarrow> p = Inr r \<and> cache_ok env t \<and> w_other (rt_world t) = w"
    "\<And>s e t. cache_ok env s \<Longrightarrow> w_other (rt_world s) = w \<Longrightarrow> m s = (Inl e, t) \<Longrightarrow> p = Inl e \<or> e \<in> load_limits"
  shows "reads env w m p"
  using assms unfolding reads_def by blast

lemma bindW_eq_Inl: "bindW m f s = (Inl e, t) \<longleftrightarrow> m s = (Inl e, t) \<or> (\<exists>x s'. m s = (Inr x, s') \<and> f x s' = (Inl e, t))"
  by (auto simp: bindW_def split: prod.splits sum.splits)

lemma bindW_assoc: "bindW (bindW m f) g = bindW m (\<lambda>x. bindW (f x) g)"
  by (rule ext) (auto simp: bindW_def split: prod.split sum.split)

lemma bindV_assoc: "bindV (bindV m f) g = bindV m (\<lambda>x. bindV (f x) g)"
  by (cases m) (simp_all add: bindV_def)

lemma reads_ret: "reads env w (retW x) (Inr x)" by (simp add: reads_def)
lemma reads_fail: "reads env w (failW e) (Inl e)" by (simp add: reads_def)
lemma reads_lift: "reads env w (liftW p) p" by (simp add: reads_def)

lemma reads_bind:
  assumes "reads env w m p" "\<And>x. reads env w (f x) (g x)"
  shows "reads env w (bindW m f) (bindV p g)"
proof (rule readsI)
  fix s r t
  assume s: "cache_ok env s" "w_other (rt_world s) = w" and "bindW m f s = (Inr r, t)"
  then obtain x u where b: "m s = (Inr x, u)" "f x u = (Inr r, t)" unfolding bindW_eq_Inr by (elim exE conjE)
  note m = readsD(1) [OF assms(1) s b(1)]
  then have "g x = Inr r \<and> cache_ok env t \<and> w_other (rt_world t) = w" using readsD(1) [OF assms(2) _ _ b(2)] by blast
  then show "bindV p g = Inr r \<and> cache_ok env t \<and> w_other (rt_world t) = w" using m by (simp add: bindV_def)
next
  fix s e t
  assume s: "cache_ok env s" "w_other (rt_world s) = w" and "bindW m f s = (Inl e, t)"
  then consider "m s = (Inl e, t)" | x u where "m s = (Inr x, u)" "f x u = (Inl e, t)" unfolding bindW_eq_Inl by blast
  then show "bindV p g = Inl e \<or> e \<in> load_limits"
  proof cases
    case 1
    then show ?thesis using readsD(2) [OF assms(1) s] by (auto simp: bindV_def)
  next
    case (2 x u)
    note m = readsD(1) [OF assms(1) s 2(1)]
    then show ?thesis using readsD(2) [OF assms(2) _ _ 2(2)] by (auto simp: bindV_def)
  qed
qed

lemma reads_if: "reads env w m p \<Longrightarrow> reads env w n q \<Longrightarrow> reads env w (if b then m else n) (if b then p else q)" by simp

lemma stored_lookup_some:
  "ch_editions w a = Some ed \<Longrightarrow> ch_contracts w a = Some sto \<Longrightarrow> load_contract_from_state sha3 ed sto = Inr c \<Longrightarrow>
    stored_lookup sha3 w a = Inr (obj_view c)"
  by (simp add: stored_lookup_def bindV_def)

lemma resolve_reads:
  assumes "cache_ok env s" "resolve_contract env a s = (Inr c, t)"
  shows "stored_lookup (h_sha3 (me_host env)) (w_other (rt_world s)) a = Inr (obj_view c) \<and> cache_ok env t \<and>
    w_other (rt_world t) = w_other (rt_world s)"
  using assms(2)
proof (cases rule: resolve_contract_cases)
  case (1 d ed)
  then obtain sto where "ch_contracts (w_other (rt_world s)) a = Some sto" "load_contract_from_state (h_sha3 (me_host env)) ed sto = Inr c"
    using assms(1) unfolding cache_ok_def by blast
  then show ?thesis using 1 assms(1) stored_lookup_some by blast
next
  case (3 d u ed)
  then have d: "d = c" "w_other (rt_world t) = w_other (rt_world s)" by (auto simp: load_rel_def)
  obtain sto where sto: "ch_contracts (w_other (rt_world s)) a = Some sto" "load_contract_from_state (h_sha3 (me_host env)) ed sto = Inr c"
    using assms(1) 3(4,7) d unfolding cache_ok_def by blast
  have "map_of (rt_contracts t) x = (if x = a then Some c else map_of (rt_contracts s) x)" for x
    using 3(3,6) d(1) by (simp add: update_conv' delete_conv')
  then have "cache_ok env t" using assms(1) sto 3(4) d(2) unfolding cache_ok_def by auto
  then show ?thesis using stored_lookup_some [OF 3(4) sto] d(2) by simp
qed simp

lemma settle_load_err:
  assumes "settle_new_contract_load_gas gst n s = (Inl e, t)"
  shows "e \<in> load_limits"
  using assms unfolding settle_new_contract_load_gas_def charge_and_commit_gas_def
  by (auto simp: bindW_eq_Inl bindV_eq_Inl on_rt_world_def Let_def host_gas_charge_def preview_bucket_add_def okV_def load_limits_def
      split: option.splits if_splits prod.splits sum.splits)

lemma enter_err:
  assumes "bindW (settle_new_contract_load_gas gst n) (\<lambda>_. bindW (contracts_insert a obj) (\<lambda>_. retW obj)) s = (Inl e, t)"
  shows "e \<in> load_limits"
  using assms settle_load_err by (auto simp: bindW_eq_Inl contracts_insert_def)

lemma resolve_err:
  assumes "resolve_contract env a s = (Inl e, t)"
  shows "stored_lookup (h_sha3 (me_host env)) (w_other (rt_world s)) a = Inl e \<or> e \<in> load_limits"
proof (cases "ch_editions (w_other (rt_world s)) a")
  case None
  then show ?thesis using assms by (auto simp: resolve_contract_def bindW_def stored_lookup_def)
next
  case (Some ed)
  then show ?thesis using assms
    by (auto simp: resolve_contract_eq [OF Some] Let_def stored_lookup_def bindV_def load_limits_def
        split: option.splits if_splits sum.splits dest!: enter_err)
qed

lemma resolve_reads_bind:
  assumes "\<And>c. reads env w (f c) (g (obj_view c))"
  shows "reads env w (bindW (resolve_contract env a) f) (bindV (stored_lookup (h_sha3 (me_host env)) w a) g)"
proof (rule readsI)
  fix s r t
  assume s: "cache_ok env s" "w_other (rt_world s) = w" and "bindW (resolve_contract env a) f s = (Inr r, t)"
  then obtain c u where b: "resolve_contract env a s = (Inr c, u)" "f c u = (Inr r, t)" unfolding bindW_eq_Inr by (elim exE conjE)
  note m = resolve_reads [OF s(1) b(1), unfolded s(2)]
  then have "g (obj_view c) = Inr r \<and> cache_ok env t \<and> w_other (rt_world t) = w" using readsD(1) [OF assms _ _ b(2)] by blast
  then show "bindV (stored_lookup (h_sha3 (me_host env)) w a) g = Inr r \<and> cache_ok env t \<and> w_other (rt_world t) = w"
    using m by (simp add: bindV_def)
next
  fix s e t
  assume s: "cache_ok env s" "w_other (rt_world s) = w" and "bindW (resolve_contract env a) f s = (Inl e, t)"
  then consider "resolve_contract env a s = (Inl e, t)" | c u where "resolve_contract env a s = (Inr c, u)" "f c u = (Inl e, t)"
    unfolding bindW_eq_Inl by blast
  then show "bindV (stored_lookup (h_sha3 (me_host env)) w a) g = Inl e \<or> e \<in> load_limits"
  proof cases
    case 1
    then show ?thesis using resolve_err [OF 1] s(2) by (auto simp: bindV_def)
  next
    case (2 c u)
    note m = resolve_reads [OF s(1) 2(1), unfolded s(2)]
    then show ?thesis using readsD(2) [OF assms _ _ 2(2)] by (auto simp: bindV_def)
  qed
qed

lemma load_user_on_owner_reads:
  "reads env w (load_user_on_owner env a sel) (resolve_user_on_owner (stored_lookup (h_sha3 (me_host env)) w) a sel)"
  unfolding load_user_on_owner_def resolve_user_on_owner_def
proof (rule resolve_reads_bind)
  show "reads env w (retW (case lc_userfns c sel of None \<Rightarrow> None | Some f \<Rightarrow> Some \<lparr>rf_owner = a, rf_fn = f, rf_libs = ct_library (lc_sto c)\<rparr>))
     (case co_userfns (obj_view c) sel of None \<Rightarrow> Inr None
      | Some f \<Rightarrow> Inr (Some \<lparr>rf_owner = a, rf_fn = f, rf_libs = co_library (obj_view c)\<rparr>))" for c
    by (cases "lc_userfns c sel") (simp_all add: reads_def obj_view_def)
qed

lemma first_on_reads:
  "reads env w (bindW (first_on (\<lambda>o'. load_user_on_owner env o' sel) as) (\<lambda>found. case found of None \<Rightarrow> failW (OtherCode 51) | Some hit \<Rightarrow> f hit))
     (bindV (resolve_first (stored_lookup (h_sha3 (me_host env)) w) sel as) g)"
  if "\<And>hit. reads env w (f hit) (g hit)"
proof (induction as)
  case Nil
  show ?case by (simp add: reads_def bindW_def bindV_def)
next
  case (Cons a as)
  have "reads env w (bindW (case hit of None \<Rightarrow> first_on (\<lambda>o'. load_user_on_owner env o' sel) as | Some r \<Rightarrow> retW (Some r))
       (\<lambda>found. case found of None \<Rightarrow> failW (OtherCode 51) | Some hit \<Rightarrow> f hit))
     (bindV (case hit of None \<Rightarrow> resolve_first (stored_lookup (h_sha3 (me_host env)) w) sel as | Some f \<Rightarrow> Inr f) g)" for hit
    using Cons that by (cases hit) (simp_all add: bindW_apply [abs_def] retW_def bindV_def)
  from reads_bind [OF load_user_on_owner_reads this]
  show ?case by (simp add: bindW_assoc bindV_assoc)
qed

lemma candidates_reads:
  "reads env w (load_lookup_candidates env anchor c) (resolve_lookup_candidates (stored_lookup (h_sha3 (me_host env)) w) anchor c)"
proof -
  have "reads env w (bindW (resolve_contract env anchor) (\<lambda>csto. retW (ct_inherit (lc_sto csto))))
      (bindV (stored_lookup (h_sha3 (me_host env)) w anchor) (\<lambda>csto. Inr (co_inherit csto)))"
    by (rule resolve_reads_bind) (simp add: reads_def obj_view_def)
  then show ?thesis unfolding load_lookup_candidates_def resolve_lookup_candidates_def by (intro reads_bind reads_if reads_ret)
qed

lemma load_user_call_reads:
  "reads env w (load_user_call env c b) (resolve_user_call (stored_lookup (h_sha3 (me_host env)) w) c b)"
  unfolding load_user_call_def resolve_user_call_def
  by (intro reads_bind reads_lift candidates_reads first_on_reads reads_ret)

lemma load_plan_reads:
  "reads env w (load_call_plan env c b) (plan_user_call (stored_lookup (h_sha3 (me_host env)) w) c b)"
  unfolding load_call_plan_def plan_user_call_def split_def
  by (intro reads_bind load_user_call_reads reads_if reads_fail reads_ret)

text \<open>C??: Loading a callee refines the resolution over the stored contracts alone. Whatever the process has cached and the call has
  already loaded, as long as each was loaded from the contract stored under its edition: a call that is planned gets the function
  and the bindings that the stored contracts give it; a call that is refused is refused with the error they give, or at one of
  the limits on gas and on loaded contracts. Planning changes nothing but the gas counters and the loaded contracts, which stay true
  to the store and within their limit.\<close>

theorem load_plan_refines:
  assumes "cache_ok env s" "load_call_plan env c b s = (r, t)"
  shows "(case r of Inr (b', f) \<Rightarrow> plan_user_call (stored_lookup (h_sha3 (me_host env)) (w_other (rt_world s))) c b = Inr (b', f) \<and> cache_ok env t
     | Inl e \<Rightarrow> plan_user_call (stored_lookup (h_sha3 (me_host env)) (w_other (rt_world s))) c b = Inl e \<or> e \<in> load_limits) \<and>
    rt_cells t = rt_cells s \<and> rt_log t = rt_log s \<and> rt_global t = rt_global s \<and> rt_memory t = rt_memory s \<and>
    w_state (rt_world t) = w_state (rt_world s) \<and> w_logs (rt_world t) = w_logs (rt_world s) \<and> w_other (rt_world t) = w_other (rt_world s) \<and>
    (loads_ok (me_cap env) s \<longrightarrow> loads_ok (me_cap env) t)"
proof -
  have "load_rel env s t" using preservesD [OF load_plan_rel assms(2)] .
  moreover have "case r of Inr (b', f) \<Rightarrow> plan_user_call (stored_lookup (h_sha3 (me_host env)) (w_other (rt_world s))) c b = Inr (b', f) \<and> cache_ok env t
     | Inl e \<Rightarrow> plan_user_call (stored_lookup (h_sha3 (me_host env)) (w_other (rt_world s))) c b = Inl e \<or> e \<in> load_limits"
  proof (cases r)
    case (Inl e)
    then show ?thesis using readsD(2) [OF load_plan_reads assms(1) refl] assms(2) by simp
  next
    case (Inr q)
    then show ?thesis using readsD(1) [OF load_plan_reads assms(1) refl, of c b q t] assms(2) by (cases q) simp
  qed
  ultimately show ?thesis by (simp add: load_rel_def)
qed

section \<open>A contract loaded\<close>

definition load_env :: "unit vm_env" where
  "load_env = \<lparr>me_host = \<lparr>h_sha3 = (\<lambda>x. x), h_height = 300, h_action = (\<lambda>_ _ w. (Inl False, w)),
      h_ntctl = (\<lambda>_ _ _ _ s. (Inl NativeFuncError, s)), h_ntfunc = (\<lambda>_ _. Inl NativeFuncError),
      h_ntenv = (\<lambda>_ _ _ s. (Inl NativeEnvError, fst s))\<rparr>,
     me_gst = gas_extra_new, me_cap = space_cap_new, me_check = (\<lambda>_. Inl CodeTypeError), me_exec = (\<lambda>_. Inl CodeTypeError),
     me_cached = (\<lambda>_ _. None)\<rparr>"

definition load_store :: "unit chain_store" where
  "load_store = contract_set_sync_edition (\<lambda>x. x) demo_address (small_contract 0 [1])
     \<lparr>ch_contracts = Map.empty, ch_editions = Map.empty, ch_other = ()\<rparr>"

definition load_runtime :: "unit runtime" where
  "load_runtime = runtime_create space_cap_new \<lparr>w_state = demo_stored, w_gas = gas_new\<lparr>gc_running := True, gc_remaining := 5000\<rparr>,
     w_logs = [], w_other = load_store\<rparr>"

definition load_bindings :: "unit bindings" where
  "load_bindings = \<lparr>fb_code = None, fb_this = None, fb_context = replicate 21 0, fb_scope = (), fb_libs = [demo_address]\<rparr>"

lemma small_obj: "\<exists>obj f. into_obj (\<lambda>x. x) (small_contract 0 [1]) = Inr obj \<and> lc_edition obj = calc_edition (\<lambda>x. x) (small_contract 0 [1]) \<and>
    lc_userfns obj [1, 0, 0, 0] = Some f"
  by (simp add: into_obj_def small_contract_def end_fn_def fn_create_def code_conf_parse_def code_type_parse_def)

lemma small_size: "ed_raw_size (calc_edition (\<lambda>x. x) (small_contract 0 [1])) = 38"
  by (simp add: calc_edition_def contract_size_def contract_bytes_of_def meta_bytes_def list_bytes_def user_bytes_def code_bytes_def
     types_serialize_def def_size_def param_count_def bit4r_def end_fn_def small_contract_def)

lemma small_settle: "\<exists>t. settle_new_contract_load_gas gas_extra_new 38 (load_runtime\<lparr>rt_contracts := []\<rparr>) = (Inr (), t)"
proof -
  have c: "ge_new_contract_load gas_extra_new + contract_bytes gas_extra_new 38 = 33"
    by (simp add: contract_bytes_def div_op_def gas_extra_new_def)
  show ?thesis unfolding settle_new_contract_load_gas_def c
    by (simp add: charge_and_commit_gas_def bindW_def load_runtime_def runtime_create_def buckets_zero_def
       preview_bucket_add_def gas_limits i64_checked_def i64_ok_def okV_def on_rt_world_def host_gas_charge_def gas_charge_def gas_new_def
       bindV_def Let_def)
qed

lemma small_resolve:
  assumes "into_obj (\<lambda>x. x) (small_contract 0 [1]) = Inr obj" "lc_edition obj = calc_edition (\<lambda>x. x) (small_contract 0 [1])"
  shows "\<exists>t. resolve_contract load_env demo_address load_runtime = (Inr obj, t)"
proof -
  let ?ed = "calc_edition (\<lambda>x. x) (small_contract 0 [1])"
  have ed: "ch_editions (w_other (rt_world load_runtime)) demo_address = Some ?ed"
    by (simp add: load_runtime_def runtime_create_def load_store_def contract_set_sync_edition_def)
  have w: "rt_contracts load_runtime = []" "ch_contracts (w_other (rt_world load_runtime)) demo_address = Some (small_contract 0 [1])"
    by (simp_all add: load_runtime_def runtime_create_def load_store_def contract_set_sync_edition_def)
  have l: "load_contract_from_state (\<lambda>x. x) ?ed (small_contract 0 [1]) = Inr obj"
    using assms by (simp add: load_contract_from_state_def bindV_def)
  have e: "me_cached load_env = (\<lambda>_ _. None)" "me_gst load_env = gas_extra_new" "h_sha3 (me_host load_env) = (\<lambda>x. x)"
    "0 < cap_loaded_contract (me_cap load_env)" by (simp_all add: load_env_def space_cap_new_def)
  show ?thesis using small_settle
    by (auto simp: resolve_contract_eq [OF ed] w warm_hit_def Let_def e l small_size bindW_def contracts_insert_def)
qed

lemma load_plan_refines_witness:
  "\<exists>b' f t. load_call_plan load_env (Invoke (TargetUse 0) EffView [1, 0, 0, 0]) load_bindings load_runtime = (Inr (b', f), t) \<and>
     plan_user_call (stored_lookup (\<lambda>x. x) load_store) (Invoke (TargetUse 0) EffView [1, 0, 0, 0]) load_bindings = Inr (b', f)"
proof -
  let ?c = "Invoke (TargetUse 0) EffView [1, 0, 0, 0]"
  have ok: "cache_ok load_env load_runtime" by (simp add: cache_ok_def load_env_def load_runtime_def runtime_create_def)
  obtain obj f where obj: "into_obj (\<lambda>x. x) (small_contract 0 [1]) = Inr obj" "lc_edition obj = calc_edition (\<lambda>x. x) (small_contract 0 [1])"
    "lc_userfns obj [1, 0, 0, 0] = Some f" using small_obj by blast
  obtain u where r: "resolve_contract load_env demo_address load_runtime = (Inr obj, u)" using small_resolve [OF obj(1,2)] by blast
  have "resolve_anchor ?c load_bindings = Inr demo_address"
    by (simp add: resolve_anchor_def load_bindings_def contract_from_addr_def version_def demo_address_def CONTRACT_def)
  then have "\<exists>b' t. load_call_plan load_env ?c load_bindings load_runtime = (Inr (b', f), t)"
    by (simp add: load_call_plan_def load_user_call_def bindW_def load_lookup_candidates_def needs_inherit_chain_def resolve_candidates_def
      load_user_on_owner_def r obj(3))
  then obtain b' t where p: "load_call_plan load_env ?c load_bindings load_runtime = (Inr (b', f), t)" by blast
  show ?thesis using load_plan_refines [OF ok p] p by (auto simp: load_env_def load_runtime_def runtime_create_def)
qed

end
